(* ===== verification/Prelude.thy ===== *)
theory Prelude
  imports Main "HOL-Library.Word"
begin

text \<open>
  The names and the generic facts that every component theory shares: the machine integer
  types of the C and C++ sources, the fact collections the component proofs are run with,
  and lemmas on lists and words that more than one component needs.
\<close>

section \<open>Machine integers\<close>

type_synonym u8 = "8 word"
type_synonym u16 = "16 word"
type_synonym u32 = "32 word"
type_synonym u64 = "64 word"

section \<open>Fact collections\<close>

text \<open>
  \<open>judge_defs\<close> unfolds the judgement layer, \<open>codec_defs\<close> the wire formats, \<open>ctl_defs\<close>
  the control layer of the PS.
\<close>

named_theorems judge_defs
named_theorems codec_defs
named_theorems ctl_defs

section \<open>Lists\<close>

lemma list_eq_take4:
  "length xs = 4 \<Longrightarrow> xs = [xs ! 0, xs ! 1, xs ! 2, xs ! 3]"
  by (auto simp: numeral_eq_Suc length_Suc_conv)

lemma list_eq_take2:
  "length xs = 2 \<Longrightarrow> xs = [xs ! 0, xs ! 1]"
  by (auto simp: numeral_eq_Suc length_Suc_conv)

lemma ex_nat_less_Suc_shift: "(\<exists>k<Suc n. P k) \<longleftrightarrow> P 0 \<or> (\<exists>k<n. P (Suc k))"
  by (auto simp: less_Suc_eq_0_disj)

lemma map_upt_eq_iff: "map f [0..<n] = map g [0..<n] \<longleftrightarrow> (\<forall>i<n. f i = g i)"
  by (auto simp: list_eq_iff_nth_eq)

section \<open>Words\<close>

lemma word_diff_ge_iff_unat:
  fixes a b t :: "'a::len word"
  assumes "b \<le> a"
  shows "t \<le> a - b \<longleftrightarrow> unat b + unat t \<le> unat a"
  using assms by (simp add: word_le_nat_alt unat_sub) linarith

lemma word_less_plus_iff_unat:
  fixes a b h :: "'a::len word"
  assumes "unat b + unat h < 2 ^ LENGTH('a)"
  shows "a < b + h \<longleftrightarrow> unat a < unat b + unat h"
  using assms by (simp add: word_less_nat_alt unat_word_ariths)

lemma unat_ucast_up [simp]:
  assumes "LENGTH('a) \<le> LENGTH('b)"
  shows "unat (ucast (x :: 'a::len word) :: 'b::len word) = unat x"
proof -
  have "unat x < 2 ^ LENGTH('a)" by (rule unsigned_less)
  also have "\<dots> \<le> 2 ^ LENGTH('b)" using assms by (rule power_increasing) simp
  finally have "unat x < 2 ^ LENGTH('b)" .
  then show ?thesis by (simp add: unsigned_ucast_eq take_bit_nat_eq_self)
qed
lemma ucast_up_eq_0 [simp]:
  "LENGTH('a) \<le> LENGTH('b) \<Longrightarrow> (ucast (x :: 'a::len word) :: 'b::len word) = 0 \<longleftrightarrow> x = 0"
  by (metis unat_ucast_up unat_eq_zero)

lemma xor_word_left_cancel:
  "semiring_bit_operations_class.xor (a :: 'a::len word) b = semiring_bit_operations_class.xor a c
     \<longleftrightarrow> b = c"
  by (metis xor.assoc xor_self_eq xor.left_neutral)

end
