(* ===== verification/Float32.thy ===== *)
theory Float32
  imports Prelude Complex_Main "HOL-Library.Log_Nat"
begin

text \<open>
  IEEE-754 arithmetic as the C and C++ sources use it: \<open>float\<close> (binary32) and \<open>double\<close>
  (binary64), round to nearest even, gradual underflow, overflow to infinity, comparisons
  that are false on NaN. A value is NaN, an infinity or a rational number; the sign of a
  zero is not kept, because no expression of the sources can tell the two zeros apart
  (divisors are checked or constant, and the wire format moves bit patterns, not values).
\<close>

section \<open>Values and formats\<close>

datatype fp = NaN | PInf | NInf | Fin rat

text \<open>
  A format: \<open>prec\<close> significant bits, quantum \<open>2 ^ -qexp\<close> (the smallest subnormal),
  values below \<open>2 ^ emax\<close>.
\<close>

record fformat =
  prec :: nat
  qexp :: nat
  emax :: nat

definition binary32 :: fformat where
  "binary32 = \<lparr>prec = 24, qexp = 149, emax = 128\<rparr>"

definition binary64 :: fformat where
  "binary64 = \<lparr>prec = 53, qexp = 1074, emax = 1024\<rparr>"

section \<open>Rounding\<close>

text \<open>Round to the nearest integer, ties to even.\<close>

definition rne :: "rat \<Rightarrow> int" where
  "rne x =
     (let f = \<lfloor>x\<rfloor>; d = x - of_int f
      in if d < 1/2 then f else if 1/2 < d then f + 1 else if even f then f else f + 1)"

text \<open>
  \<open>y\<close> is a magnitude in units of the quantum. It keeps \<open>prec\<close> bits: what lies below the
  unit \<open>2 ^ ulp_exp\<close> is rounded away. Below \<open>2 ^ prec\<close> quanta the unit is the quantum
  itself, which is gradual underflow.
\<close>

definition ulp_exp :: "fformat \<Rightarrow> rat \<Rightarrow> nat" where
  "ulp_exp F y = floorlog 2 (nat \<lfloor>y\<rfloor>) - prec F"

definition round_mag :: "fformat \<Rightarrow> rat \<Rightarrow> int" where
  "round_mag F y = (let k = ulp_exp F y in rne (y / 2 ^ k) * 2 ^ k)"

definition round_fp :: "fformat \<Rightarrow> rat \<Rightarrow> fp" where
  "round_fp F x =
     (let m = round_mag F (\<bar>x\<bar> * 2 ^ qexp F)
      in if m \<ge> 2 ^ (emax F + qexp F) then (if x < 0 then NInf else PInf)
         else Fin (sgn x * (of_int m / 2 ^ qexp F)))"

section \<open>Arithmetic and comparison\<close>

fun fp_neg :: "fp \<Rightarrow> fp" where
  "fp_neg NaN = NaN"
| "fp_neg PInf = NInf"
| "fp_neg NInf = PInf"
| "fp_neg (Fin x) = Fin (- x)"

fun fp_add :: "fformat \<Rightarrow> fp \<Rightarrow> fp \<Rightarrow> fp" where
  "fp_add F (Fin x) (Fin y) = round_fp F (x + y)"
| "fp_add F NaN y = NaN"
| "fp_add F x NaN = NaN"
| "fp_add F PInf NInf = NaN"
| "fp_add F NInf PInf = NaN"
| "fp_add F PInf y = PInf"
| "fp_add F NInf y = NInf"
| "fp_add F x PInf = PInf"
| "fp_add F x NInf = NInf"

definition fp_sub :: "fformat \<Rightarrow> fp \<Rightarrow> fp \<Rightarrow> fp" where
  "fp_sub F x y = fp_add F x (fp_neg y)"

text \<open>An infinity with the sign of \<open>s\<close>, NaN when \<open>s\<close> is zero.\<close>

definition signed_inf :: "rat \<Rightarrow> fp" where
  "signed_inf s = (if 0 < s then PInf else if s < 0 then NInf else NaN)"

fun fp_sgn :: "fp \<Rightarrow> rat" where
  "fp_sgn PInf = 1"
| "fp_sgn NInf = -1"
| "fp_sgn (Fin x) = sgn x"
| "fp_sgn NaN = 0"

fun fp_mul :: "fformat \<Rightarrow> fp \<Rightarrow> fp \<Rightarrow> fp" where
  "fp_mul F (Fin x) (Fin y) = round_fp F (x * y)"
| "fp_mul F NaN y = NaN"
| "fp_mul F x NaN = NaN"
| "fp_mul F x y = signed_inf (fp_sgn x * fp_sgn y)"

fun fp_div :: "fformat \<Rightarrow> fp \<Rightarrow> fp \<Rightarrow> fp" where
  "fp_div F (Fin x) (Fin y) = (if y = 0 then signed_inf (sgn x) else round_fp F (x / y))"
| "fp_div F NaN y = NaN"
| "fp_div F x NaN = NaN"
| "fp_div F (Fin x) y = Fin 0"
| "fp_div F x (Fin y) = signed_inf (fp_sgn x * (if y < 0 then -1 else 1))"
| "fp_div F x y = NaN"

fun fp_lt :: "fp \<Rightarrow> fp \<Rightarrow> bool" where
  "fp_lt (Fin x) (Fin y) = (x < y)"
| "fp_lt NInf PInf = True"
| "fp_lt NInf (Fin y) = True"
| "fp_lt (Fin x) PInf = True"
| "fp_lt _ _ = False"

fun fp_le :: "fp \<Rightarrow> fp \<Rightarrow> bool" where
  "fp_le (Fin x) (Fin y) = (x \<le> y)"
| "fp_le NaN _ = False"
| "fp_le _ NaN = False"
| "fp_le NInf _ = True"
| "fp_le _ PInf = True"
| "fp_le _ _ = False"

abbreviation fp_gt :: "fp \<Rightarrow> fp \<Rightarrow> bool" where
  "fp_gt x y \<equiv> fp_lt y x"

abbreviation fp_ge :: "fp \<Rightarrow> fp \<Rightarrow> bool" where
  "fp_ge x y \<equiv> fp_le y x"

definition fp_isfinite :: "fp \<Rightarrow> bool" where
  "fp_isfinite v = (case v of Fin _ \<Rightarrow> True | _ \<Rightarrow> False)"

text \<open>\<open>std::max\<close>, \<open>std::min\<close> and \<open>std::clamp\<close>, with their answers on NaN.\<close>

definition fp_max :: "fp \<Rightarrow> fp \<Rightarrow> fp" where
  "fp_max a b = (if fp_lt a b then b else a)"

definition fp_min :: "fp \<Rightarrow> fp \<Rightarrow> fp" where
  "fp_min a b = (if fp_lt b a then b else a)"

definition fp_clamp :: "fp \<Rightarrow> fp \<Rightarrow> fp \<Rightarrow> fp" where
  "fp_clamp v lo hi = (if fp_lt v lo then lo else if fp_lt hi v then hi else v)"

text \<open>The operations of \<open>float\<close>, and a decimal literal such as \<open>0.45f\<close>.\<close>

abbreviation fadd32 :: "fp \<Rightarrow> fp \<Rightarrow> fp" where "fadd32 \<equiv> fp_add binary32"
abbreviation fsub32 :: "fp \<Rightarrow> fp \<Rightarrow> fp" where "fsub32 \<equiv> fp_sub binary32"
abbreviation fmul32 :: "fp \<Rightarrow> fp \<Rightarrow> fp" where "fmul32 \<equiv> fp_mul binary32"
abbreviation fdiv32 :: "fp \<Rightarrow> fp \<Rightarrow> fp" where "fdiv32 \<equiv> fp_div binary32"
abbreviation lit32 :: "rat \<Rightarrow> fp" where "lit32 \<equiv> round_fp binary32"

text \<open>The value a binary32 bit pattern denotes.\<close>

definition f32_of_bits :: "u32 \<Rightarrow> fp" where
  "f32_of_bits w =
     (let e = unat (drop_bit 23 w) mod 256;
          m = unat (take_bit 23 w);
          s = (if bit w 31 then -1 else 1)
      in if e = 255 then (if m \<noteq> 0 then NaN else if bit w 31 then NInf else PInf)
         else if e = 0 then Fin (s * (of_nat m / 2 ^ 149))
         else Fin (s * (of_nat ((2 ^ 23 + m) * 2 ^ (e - 1)) / 2 ^ 149)))"

section \<open>Rounding: nearest, monotone, exact on values of the format\<close>

lemma rne_of_int [simp]: "rne (of_int n) = n"
  by (simp add: rne_def)

lemma rne_numeral [simp]: "rne 0 = 0" "rne 1 = 1" "rne (numeral k) = numeral k"
  using rne_of_int [of 0] rne_of_int [of 1] rne_of_int [of "numeral k"] by simp_all

lemma rne_ge: "x - 1/2 \<le> of_int (rne x)"
proof -
  have "of_int \<lfloor>x\<rfloor> \<le> x" "x < of_int \<lfloor>x\<rfloor> + 1" by linarith+
  then show ?thesis by (auto simp: rne_def Let_def)
qed

lemma rne_le: "of_int (rne x) \<le> x + 1/2"
proof -
  have "of_int \<lfloor>x\<rfloor> \<le> x" by linarith
  then have "of_int \<lfloor>x\<rfloor> \<le> x + 1/2" by linarith
  then show ?thesis by (auto simp: rne_def Let_def)
qed

lemma rne_cases: "rne x = \<lfloor>x\<rfloor> \<or> rne x = \<lfloor>x\<rfloor> + 1"
  by (auto simp: rne_def Let_def)

lemma rne_mono:
  assumes "x \<le> y" shows "rne x \<le> rne y"
proof (cases "\<lfloor>x\<rfloor> = \<lfloor>y\<rfloor>")
  case True
  then have "x - of_int \<lfloor>x\<rfloor> \<le> y - of_int \<lfloor>y\<rfloor>" using assms by simp
  then show ?thesis using True by (auto simp: rne_def Let_def)
next
  case False
  with assms have "\<lfloor>x\<rfloor> + 1 \<le> \<lfloor>y\<rfloor>" using floor_mono [OF assms] by linarith
  then show ?thesis using rne_cases [of x] rne_cases [of y] by linarith
qed

lemma rne_le_int: "x \<le> of_int n \<Longrightarrow> rne x \<le> n"
  using rne_mono [of x "of_int n"] by simp

lemma rne_ge_int: "of_int n \<le> x \<Longrightarrow> n \<le> rne x"
  using rne_mono [of "of_int n" x] by simp

lemma rne_eqI: "\<bar>x - of_int n\<bar> < 1/2 \<Longrightarrow> rne x = n"
  using rne_ge [of x] rne_le [of x] by linarith

text \<open>The unit of a magnitude, and the rounded magnitude.\<close>

lemma floorlog_numeral [simp]:
  "floorlog 2 (Suc 0) = Suc 0"
  "floorlog 2 (numeral (num.Bit0 n)) = Suc (floorlog 2 (numeral n))"
  "floorlog 2 (numeral (num.Bit1 n)) = Suc (floorlog 2 (numeral n))"
  by (simp_all add: compute_floorlog [of 2 "Suc 0"] compute_floorlog [of 2 "numeral (num.Bit0 n)"]
     compute_floorlog [of 2 "numeral (num.Bit1 n)"] compute_floorlog [of 2 0])

lemma floorlog_one [simp]: "floorlog 2 1 = 1" "floorlog 2 0 = 0"
  by (simp_all add: compute_floorlog [of 2 0])

lemma ulp_exp_upper:
  assumes "0 \<le> y" shows "y < 2 ^ (prec F + ulp_exp F y)"
proof -
  have "nat \<lfloor>y\<rfloor> < 2 ^ (prec F + ulp_exp F y)"
    by (rule floorlog_leD) (auto simp: ulp_exp_def)
  then have "\<lfloor>y\<rfloor> < 2 ^ (prec F + ulp_exp F y)"
    using assms by (simp add: nat_less_iff)
  then show ?thesis
    by (metis floor_less_iff of_int_numeral of_int_power)
qed

lemma ulp_exp_lower:
  assumes "0 \<le> y" "0 < ulp_exp F y" shows "2 ^ (prec F + ulp_exp F y - 1) \<le> y"
proof -
  have "2 ^ (floorlog 2 (nat \<lfloor>y\<rfloor>) - 1) \<le> nat \<lfloor>y\<rfloor>"
    by (rule floorlog_geD) (use assms(2) in \<open>auto simp: ulp_exp_def\<close>)
  then have "2 ^ (prec F + ulp_exp F y - 1) \<le> nat \<lfloor>y\<rfloor>"
    using assms(2) by (simp add: ulp_exp_def)
  then have "2 ^ (prec F + ulp_exp F y - 1) \<le> \<lfloor>y\<rfloor>"
    using assms by (simp add: le_nat_iff)
  then show ?thesis
    by (metis le_floor_iff of_int_numeral of_int_power)
qed

lemma ulp_exp_leI:
  assumes "0 \<le> y" "y < 2 ^ (prec F + k)" shows "ulp_exp F y \<le> k"
proof -
  have "\<lfloor>y\<rfloor> < 2 ^ (prec F + k)" using assms by (simp add: floor_less_iff)
  then have "nat \<lfloor>y\<rfloor> < 2 ^ (prec F + k)" using assms(1) by (simp add: nat_less_iff)
  then have "floorlog 2 (nat \<lfloor>y\<rfloor>) \<le> prec F + k" by (intro floorlog_leI) auto
  then show ?thesis by (simp add: ulp_exp_def)
qed

lemma ulp_exp_mono: "0 \<le> x \<Longrightarrow> x \<le> y \<Longrightarrow> ulp_exp F x \<le> ulp_exp F y"
  by (auto simp: ulp_exp_def intro!: diff_le_mono floorlog_mono nat_mono floor_mono)

lemma round_mag_nonneg: "0 \<le> y \<Longrightarrow> 0 \<le> round_mag F y"
  by (auto simp: round_mag_def Let_def intro!: rne_ge_int mult_nonneg_nonneg)

lemma round_mag_zero [simp]: "round_mag F 0 = 0"
  by (simp add: round_mag_def)


lemma round_mag_mono:
  assumes "0 \<le> x" "x \<le> y" "0 < prec F" shows "round_mag F x \<le> round_mag F y"
proof (cases "ulp_exp F x = ulp_exp F y")
  case True
  have "rne (x / 2 ^ ulp_exp F y) \<le> rne (y / 2 ^ ulp_exp F y)"
    using assms(2) by (intro rne_mono) (simp add: divide_right_mono)
  then show ?thesis using True by (simp add: round_mag_def Let_def)
next
  case False
  let ?k = "ulp_exp F x" and ?l = "ulp_exp F y"
  have lt: "?k < ?l" using False ulp_exp_mono [OF assms(1,2), of F] by linarith
  have "x / 2 ^ ?k \<le> of_int (2 ^ prec F)"
    using ulp_exp_upper [OF assms(1), of F] by (simp add: power_add field_simps)
  then have "rne (x / 2 ^ ?k) \<le> 2 ^ prec F" by (rule rne_le_int)
  then have x: "round_mag F x \<le> 2 ^ (prec F + ?k)"
    by (simp add: round_mag_def Let_def power_add)
  have split: "prec F + ?l - 1 = (prec F - 1) + ?l" using assms(3) by simp
  have "2 ^ (prec F + ?l - 1) \<le> y"
    using ulp_exp_lower [of y F] assms lt by simp
  then have "of_int (2 ^ (prec F - 1)) \<le> y / 2 ^ ?l"
    unfolding split power_add by (simp add: field_simps)
  then have "2 ^ (prec F - 1) \<le> rne (y / 2 ^ ?l)" by (rule rne_ge_int)
  then have y: "2 ^ (prec F + ?l - 1) \<le> round_mag F y"
    unfolding split power_add by (simp add: round_mag_def Let_def)
  have "(2::int) ^ (prec F + ?k) \<le> 2 ^ (prec F + ?l - 1)"
    using lt by (intro power_increasing) auto
  then show ?thesis using x y by linarith
qed

text \<open>A magnitude with at most \<open>prec\<close> significant bits is kept.\<close>

lemma round_mag_id:
  assumes "0 \<le> j" "j \<le> 2 ^ prec F" "0 < prec F"
  shows "round_mag F (of_int (j * 2 ^ k)) = j * 2 ^ k"
proof (cases "j = 2 ^ prec F")
  case False
  let ?y = "of_int (j * 2 ^ k) :: rat" and ?l = "ulp_exp F (of_int (j * 2 ^ k))"
  have "?y < of_int (2 ^ (prec F + k))"
    unfolding of_int_less_iff power_add using False assms by simp
  then have "?l \<le> k" using assms by (intro ulp_exp_leI) simp_all
  then have "(2::rat) ^ k = 2 ^ (k - ?l) * 2 ^ ?l" by (simp flip: power_add)
  then have "?y / 2 ^ ?l = of_int (j * 2 ^ (k - ?l))" by (simp add: nonzero_divide_eq_eq)
  then have "rne (?y / 2 ^ ?l) = j * 2 ^ (k - ?l)" by (simp only: rne_of_int)
  then show ?thesis using \<open>?l \<le> k\<close> by (simp add: round_mag_def Let_def flip: power_add)
next
  case True
  let ?y = "of_int (j * 2 ^ k) :: rat" and ?l = "ulp_exp F (of_int (j * 2 ^ k))"
  have y: "?y = 2 ^ (prec F + k)" using True by (simp add: power_add)
  have "?l \<le> Suc k" unfolding y by (intro ulp_exp_leI) (simp_all add: power_add)
  then have le: "?l \<le> prec F + k" using assms(3) by linarith
  then have "(2::rat) ^ (prec F + k) = 2 ^ (prec F + k - ?l) * 2 ^ ?l" by (simp flip: power_add)
  then have "?y / 2 ^ ?l = of_int (2 ^ (prec F + k - ?l))"
    unfolding y by (simp add: nonzero_divide_eq_eq)
  then have "rne (?y / 2 ^ ?l) = 2 ^ (prec F + k - ?l)" by (simp only: rne_of_int)
  then have "round_mag F ?y = 2 ^ (prec F + k)"
    using le by (simp add: round_mag_def Let_def flip: power_add)
  then show ?thesis using True by (simp add: power_add)
qed

lemma round_mag_form:
  assumes "0 \<le> y"
  shows "\<exists>j k. 0 \<le> j \<and> j \<le> 2 ^ prec F \<and> round_mag F y = j * 2 ^ k"
proof -
  let ?k = "ulp_exp F y"
  have "y / 2 ^ ?k \<le> of_int (2 ^ prec F)"
    using ulp_exp_upper [OF assms, of F] by (simp add: power_add field_simps)
  then have "rne (y / 2 ^ ?k) \<le> 2 ^ prec F" by (rule rne_le_int)
  moreover have "0 \<le> rne (y / 2 ^ ?k)" using assms by (intro rne_ge_int) simp
  ultimately show ?thesis unfolding round_mag_def Let_def by blast
qed

lemma round_mag_idem:
  assumes "0 \<le> y" "0 < prec F"
  shows "round_mag F (of_int (round_mag F y)) = round_mag F y"
  using round_mag_form [OF assms(1), of F] round_mag_id [OF _ _ assms(2)] by auto


section \<open>Properties of rounding\<close>

text \<open>\<open>v\<close> is a value of the format.\<close>

definition fp_ok :: "fformat \<Rightarrow> fp \<Rightarrow> bool" where
  "fp_ok F v = (case v of Fin x \<Rightarrow> round_fp F x = Fin x | _ \<Rightarrow> True)"

lemma fp_ok_simps [simp]:
  "fp_ok F NaN" "fp_ok F PInf" "fp_ok F NInf" "fp_ok F (Fin x) \<longleftrightarrow> round_fp F x = Fin x"
  by (simp_all add: fp_ok_def)

lemma round_fp_zero [simp]: "round_fp F 0 = Fin 0"
  by (simp add: round_fp_def Let_def)

lemma fp_neg_eq_Fin [simp]: "fp_neg v = Fin w \<longleftrightarrow> v = Fin (- w)"
  by (cases v) auto

lemma round_fp_uminus: "round_fp F (- x) = fp_neg (round_fp F x)"
  by (simp add: round_fp_def Let_def)

lemma round_fp_not_NaN [simp]: "round_fp F x \<noteq> NaN" "NaN \<noteq> round_fp F x"
  by (simp_all add: round_fp_def Let_def)

lemma round_fp_nonneg:
  assumes "0 \<le> x"
  shows "round_fp F x = (if round_mag F (x * 2 ^ qexp F) \<ge> 2 ^ (emax F + qexp F) then PInf
                         else Fin (of_int (round_mag F (x * 2 ^ qexp F)) / 2 ^ qexp F))"
  using assms by (cases "x = 0") (simp_all add: round_fp_def Let_def)

lemma round_fp_exact:
  assumes "0 \<le> j" "j \<le> 2 ^ prec F" "0 < prec F" "j * 2 ^ k < 2 ^ (emax F + qexp F)"
    and "x * 2 ^ qexp F = of_int (j * 2 ^ k)"
  shows "round_fp F x = Fin x"
proof -
  have "0 \<le> x * 2 ^ qexp F" using assms(1,5) by simp
  then have "0 \<le> x" by (simp add: zero_le_mult_iff power_le_zero_eq)
  then show ?thesis
    using assms round_mag_id [OF assms(1-3), of k] by (simp add: round_fp_nonneg field_simps)
qed

lemma fp_ok_round:
  assumes "0 < prec F" shows "fp_ok F (round_fp F x)"
proof -
  have nonneg: "fp_ok F (round_fp F x)" if x0: "0 \<le> x" for x
  proof -
    have "0 \<le> x * 2 ^ qexp F" using x0 by simp
    from round_mag_form [OF this, of F] obtain j k where jk: "0 \<le> j" "j \<le> 2 ^ prec F" "round_mag F (x * 2 ^ qexp F) = j * 2 ^ k"
      by blast
    show ?thesis
    proof (cases "j * 2 ^ k < 2 ^ (emax F + qexp F)")
      case True
      have "round_fp F (of_int (j * 2 ^ k) / 2 ^ qexp F) = Fin (of_int (j * 2 ^ k) / 2 ^ qexp F)"
        by (rule round_fp_exact [OF jk(1,2) assms True]) simp
      then show ?thesis using True jk x0 by (simp add: round_fp_nonneg)
    qed (use jk x0 in \<open>simp add: round_fp_nonneg\<close>)
  qed
  show ?thesis
  proof (cases "0 \<le> x")
    case False
    then have "fp_ok F (round_fp F (- x))" by (intro nonneg) simp
    then show ?thesis
      by (cases "round_fp F x") (simp_all add: round_fp_uminus)
  qed (rule nonneg)
qed

lemma round_fp_mono:
  assumes "0 < prec F" "x \<le> y" shows "fp_le (round_fp F x) (round_fp F y)"
proof -
  have pos: "fp_le (round_fp F x) (round_fp F y)" if "0 \<le> x" "x \<le> y" for x y
  proof -
    have "round_mag F (x * 2 ^ qexp F) \<le> round_mag F (y * 2 ^ qexp F)"
      using that by (intro round_mag_mono assms) (simp_all add: mult_right_mono)
    then show ?thesis using that by (auto simp: round_fp_nonneg divide_right_mono)
  qed
  consider "0 \<le> x" | "y \<le> 0" | "x < 0" "0 < y" by linarith
  then show ?thesis
  proof cases
    case 1 then show ?thesis using pos assms(2) by simp
  next
    case 2
    then have "fp_le (round_fp F (- y)) (round_fp F (- x))" using pos assms(2) by simp
    then show ?thesis
      by (cases "round_fp F x"; cases "round_fp F y") (simp_all add: round_fp_uminus)
  next
    case 3
    have "fp_le (round_fp F 0) (round_fp F (- x))" "fp_le (round_fp F 0) (round_fp F y)"
      using 3 by (intro pos; simp)+
    then show ?thesis
      by (cases "round_fp F x"; cases "round_fp F y") (simp_all add: round_fp_uminus)
  qed
qed

text \<open>Comparison with a value of the format can be decided before rounding.\<close>

lemma round_fp_ge:
  assumes "0 < prec F" "fp_ok F (Fin c)" "c \<le> x" shows "fp_le (Fin c) (round_fp F x)"
  using round_fp_mono [OF assms(1,3)] assms(2) by simp

lemma round_fp_le:
  assumes "0 < prec F" "fp_ok F (Fin c)" "x \<le> c" shows "fp_le (round_fp F x) (Fin c)"
  using round_fp_mono [OF assms(1,3)] assms(2) by simp

lemma fp_ok_quantum:
  assumes "fp_ok F (Fin x)" shows "\<exists>n::int. x * 2 ^ qexp F = of_int n"
proof -
  from assms have "sgn x * (of_int (round_mag F (\<bar>x\<bar> * 2 ^ qexp F)) / 2 ^ qexp F) = x"
    by (simp add: round_fp_def Let_def split: if_splits)
  then have "x * 2 ^ qexp F = sgn x * of_int (round_mag F (\<bar>x\<bar> * 2 ^ qexp F))"
    by (metis nonzero_eq_divide_eq power_not_zero times_divide_eq_right zero_neq_numeral)
  also have "\<dots> = of_int ((if 0 < x then 1 else if x < 0 then -1 else 0)
                          * round_mag F (\<bar>x\<bar> * 2 ^ qexp F))"
    by (simp add: sgn_if)
  finally show ?thesis by blast
qed

text \<open>Gradual underflow: a difference rounds to zero only when it is zero.\<close>

lemma round_diff_pos:
  assumes "0 < prec F" "fp_ok F (Fin x)" "fp_ok F (Fin y)" "y < x"
  shows "fp_lt (Fin 0) (round_fp F (x - y))"
proof -
  obtain n m :: int where nm: "x * 2 ^ qexp F = of_int n" "y * 2 ^ qexp F = of_int m"
    using fp_ok_quantum [OF assms(2)] fp_ok_quantum [OF assms(3)] by blast
  have "of_int m < (of_int n :: rat)" using assms(4) unfolding nm [symmetric] by simp
  then have "1 \<le> n - m" by simp
  have "(x - y) * 2 ^ qexp F = of_int (n - m)" using nm by (simp add: algebra_simps)
  then have "round_mag F 1 \<le> round_mag F ((x - y) * 2 ^ qexp F)"
    using \<open>1 \<le> n - m\<close> by (intro round_mag_mono assms(1)) (simp_all del: of_int_diff)
  moreover have "round_mag F 1 = 1"
    using round_mag_id [OF _ _ assms(1), of 1 0] by simp
  ultimately show ?thesis using assms(4) by (auto simp: round_fp_nonneg)
qed

lemma fp_sub_pos_iff:
  assumes "0 < prec F" "fp_ok F (Fin x)" "fp_ok F (Fin y)"
  shows "fp_lt (Fin 0) (fp_sub F (Fin x) (Fin y)) \<longleftrightarrow> y < x"
proof (cases "y < x")
  case False
  then have "fp_le (round_fp F (x - y)) (Fin 0)"
    by (intro round_fp_le assms) simp_all
  then show ?thesis using False
    by (cases "round_fp F (x - y)") (simp_all add: fp_sub_def)
qed (use round_diff_pos [OF assms] in \<open>simp add: fp_sub_def\<close>)

section \<open>Order facts\<close>

lemma fp_le_trans: "fp_le a b \<Longrightarrow> fp_le b c \<Longrightarrow> fp_le a c"
  by (cases a; cases b; cases c) auto

lemma fp_lt_le_trans: "fp_lt a b \<Longrightarrow> fp_le b c \<Longrightarrow> fp_lt a c"
  by (cases a; cases b; cases c) auto

lemma fp_le_lt_trans: "fp_le a b \<Longrightarrow> fp_lt b c \<Longrightarrow> fp_lt a c"
  by (cases a; cases b; cases c) auto

lemma fp_lt_imp_le: "fp_lt a b \<Longrightarrow> fp_le a b"
  by (cases a; cases b) auto

lemma fp_le_refl: "fp_le a a \<longleftrightarrow> a \<noteq> NaN"
  by (cases a) auto

lemma fp_le_infinity [simp]:
  "fp_le a PInf \<longleftrightarrow> a \<noteq> NaN" "fp_le NInf a \<longleftrightarrow> a \<noteq> NaN"
  by (cases a; simp)+

lemma fp_lt_not_le: "fp_lt a b \<Longrightarrow> \<not> fp_le b a"
  by (cases a; cases b) auto

lemma fp_not_lt_iff: "a \<noteq> NaN \<Longrightarrow> b \<noteq> NaN \<Longrightarrow> \<not> fp_lt a b \<longleftrightarrow> fp_le b a"
  by (cases a; cases b) auto

lemma fp_NaN_cmp [simp]:
  "\<not> fp_lt NaN b" "\<not> fp_lt a NaN" "\<not> fp_le NaN b" "\<not> fp_le a NaN"
  by (cases a; simp)+

lemma fp_sub_mono:
  assumes "0 < prec F" "fp_le x y" "fp_sub F x z \<noteq> NaN" "fp_sub F y z \<noteq> NaN"
  shows "fp_le (fp_sub F x z) (fp_sub F y z)"
  using assms round_fp_mono [OF assms(1)]
  by (cases x; cases y; cases z) (auto simp: fp_sub_def fp_le_infinity)

text \<open>NaN-free differences are monotone in both operands.\<close>

lemma fp_sub_mono2:
  assumes "0 < prec F" "fp_le x y" "fp_le w z" "fp_isfinite x" "fp_isfinite y"
    "fp_isfinite z" "fp_isfinite w"
  shows "fp_le (fp_sub F x z) (fp_sub F y w)"
proof -
  have "fp_le (round_fp F (a - b)) (round_fp F (c - d))" if "a \<le> c" "d \<le> b" for a b c d
    using that by (intro round_fp_mono assms(1)) linarith
  then show ?thesis using assms(2-)
    by (cases x; cases y; cases z; cases w) (simp_all add: fp_sub_def fp_isfinite_def)
qed

section \<open>Evaluation on dyadic fractions\<close>

lemma binary32_simps [simp]:
  "prec binary32 = 24" "qexp binary32 = 149" "emax binary32 = 128"
  by (simp_all add: binary32_def)

lemma binary64_simps [simp]:
  "prec binary64 = 53" "qexp binary64 = 1074" "emax binary64 = 1024"
  by (simp_all add: binary64_def)


text \<open>
  \<open>a / b\<close> with a numerator of at most 24 bits and a power of two below \<open>2 ^ 149\<close> as
  denominator is a value of binary32: the rules the witnesses compute with.
\<close>

lemma dvd_power_two:
  "b dvd 2 ^ n \<Longrightarrow> 0 < b \<Longrightarrow> \<exists>i\<le>n. b = 2 ^ i" for b :: int
proof (induction n arbitrary: b)
  case 0
  then show ?case by (metis le_refl power_0 zdvd1_eq abs_of_pos)
next
  case (Suc n)
  show ?case
  proof (cases "even b")
    case True
    then obtain c where c: "b = 2 * c" by blast
    with Suc.prems have "c dvd 2 ^ n" "0 < c" by simp_all
    then obtain i where "i \<le> n" "c = 2 ^ i" using Suc.IH by blast
    then show ?thesis using c by (intro exI [of _ "Suc i"]) simp
  next
    case False
    then have "coprime b 2" by simp
    then have "b dvd 2 ^ n" using Suc.prems(1) by (simp add: coprime_dvd_mult_right_iff)
    then show ?thesis using Suc.IH Suc.prems(2) le_Suc_eq by blast
  qed
qed

lemma round32_dyadic:
  assumes "0 \<le> a" "a \<le> 16777216" "b dvd 2 ^ 149" "0 < b"
  shows "round_fp binary32 (of_int a / of_int b) = Fin (of_int a / of_int b)"
proof -
  obtain i where i: "i \<le> 149" "b = 2 ^ i"
    using dvd_power_two [OF assms(3,4)] by blast
  have eq: "(2::rat) ^ 149 = 2 ^ (149 - i) * 2 ^ i" using i(1) by (simp only: flip: power_add) simp
  have "of_int a / of_int b * 2 ^ qexp binary32 = (of_int (a * 2 ^ (149 - i)) :: rat)"
    unfolding i(2) binary32_simps eq by simp
  moreover have "a * 2 ^ (149 - i) < 2 ^ (emax binary32 + qexp binary32)"
  proof -
    have "a * 2 ^ (149 - i) \<le> 16777216 * 2 ^ 149"
      using assms(1,2) by (intro mult_mono power_increasing) auto
    also have "\<dots> < 2 ^ (emax binary32 + qexp binary32)" by simp
    finally show ?thesis .
  qed
  ultimately show ?thesis
    using assms(1,2) by (intro round_fp_exact [of a _ "149 - i"]) auto
qed

lemma round32_simps [simp]:
  "numeral a \<le> (16777216::int) \<Longrightarrow> round_fp binary32 (numeral a) = Fin (numeral a)"
  "numeral b dvd (2 ^ 149 :: int) \<Longrightarrow> round_fp binary32 (1 / numeral b) = Fin (1 / numeral b)"
  "numeral a \<le> (16777216::int) \<Longrightarrow> numeral b dvd (2 ^ 149 :: int) \<Longrightarrow>
     round_fp binary32 (numeral a / numeral b) = Fin (numeral a / numeral b)"
  "round_fp binary32 1 = Fin 1"
  using round32_dyadic [of "numeral a" 1] round32_dyadic [of 1 "numeral b"]
    round32_dyadic [of "numeral a" "numeral b"] round32_dyadic [of 1 1]
  by simp_all

lemma round32_neg_simps [simp]:
  "round_fp binary32 (- numeral a) = fp_neg (round_fp binary32 (numeral a))"
  "round_fp binary32 (- (numeral a / numeral b)) = fp_neg (round_fp binary32 (numeral a / numeral b))"
  "round_fp binary32 (- (1 / numeral b)) = fp_neg (round_fp binary32 (1 / numeral b))"
  "round_fp binary32 (- 1) = fp_neg (round_fp binary32 1)"
  by (rule round_fp_uminus)+

text \<open>Rounding a fraction that is not dyadic, from the quotient that is nearest.\<close>

lemma round_fp_eqI:
  assumes "0 < x" "0 < prec F"
    and "2 ^ (prec F + k - 1) \<le> x * 2 ^ qexp F" "x * 2 ^ qexp F < 2 ^ (prec F + k)"
    and "\<bar>x * 2 ^ qexp F / 2 ^ k - of_int m\<bar> < 1/2"
    and "m * 2 ^ k < 2 ^ (emax F + qexp F)"
  shows "round_fp F x = Fin (of_int (m * 2 ^ k) / 2 ^ qexp F)"
proof -
  let ?y = "x * 2 ^ qexp F"
  have "ulp_exp F ?y \<le> k" using assms by (intro ulp_exp_leI) simp_all
  moreover have "k \<le> ulp_exp F ?y"
  proof -
    have "of_int (2 ^ (prec F + k - 1)) \<le> ?y" using assms(3) by simp
    then have "2 ^ (prec F + k - 1) \<le> \<lfloor>?y\<rfloor>" by (simp only: le_floor_iff)
    then have "2 ^ (prec F + k - 1) \<le> nat \<lfloor>?y\<rfloor>" by (simp add: le_nat_iff)
    then have "prec F + k \<le> floorlog 2 (nat \<lfloor>?y\<rfloor>)" by (intro floorlog_geI) simp_all
    then show ?thesis by (simp add: ulp_exp_def)
  qed
  ultimately have "ulp_exp F ?y = k" by simp
  moreover have "rne (?y / 2 ^ k) = m" using assms(5) by (rule rne_eqI)
  ultimately have "round_mag F ?y = m * 2 ^ k" by (simp add: round_mag_def Let_def)
  then show ?thesis using assms(1,6) by (simp add: round_fp_nonneg)
qed

lemma lit32_simps [simp]:
  "round_fp binary32 (9/20) = Fin (7549747/16777216)"
  "round_fp binary32 (11/20) = Fin (9227469/16777216)"
  "round_fp binary32 (3/25) = Fin (16106127/134217728)"
  "round_fp binary32 (1/10) = Fin (13421773/134217728)"
  "round_fp binary32 (3/20) = Fin (5033165/33554432)"
  by (subst round_fp_eqI [where k = 124 and m = 15099494], simp_all)
    (subst round_fp_eqI [where k = 125 and m = 9227469], simp_all,
     subst round_fp_eqI [where k = 122 and m = 16106127], simp_all,
     subst round_fp_eqI [where k = 122 and m = 13421773], simp_all,
     subst round_fp_eqI [where k = 123 and m = 10066330], simp_all)

end
