(* ===== verification/Safety_Message.thy ===== *)
theory Safety_Message
  imports Float32
begin

text \<open>
  \<open>common/SafetyMessage\<close>: the detection record that the judgement layer reads, and the message
  that carries a frame's detections from the writing core to the reading core through shared
  memory. There is no lock: the writer makes the sequence number odd, writes, and makes it even
  again; the reader copies between two looks at the sequence. Both are modelled down to the
  single store and the single load, so that they interleave.
\<close>

section \<open>Records\<close>

type_synonym i32 = "32 word"

text \<open>One detection; the coordinates are normalised to 0..1, \<open>class_id\<close> is signed.\<close>

record detection =
  x1 :: fp
  y1 :: fp
  x2 :: fp
  y2 :: fp
  score :: fp
  class_id :: i32

definition kMaxDetections :: nat where "kMaxDetections = 32"
definition kMessageVersion :: u16 where "kMessageVersion = 1"
definition kMessageMagic :: u32 where "kMessageMagic = 0x41445341"

text \<open>The array has \<open>kMaxDetections\<close> elements.\<close>

record safety_message =
  magic :: u32
  version :: u16
  det_count :: u16
  msg_sequence :: u32
  capture_time_ns :: u64
  detections :: "detection list"

section \<open>The writer\<close>

datatype det_store =
    StX1 fp | StY1 fp | StX2 fp | StY2 fp | StScore fp | StClass i32

fun store_det :: "det_store \<Rightarrow> detection \<Rightarrow> detection" where
  "store_det (StX1 v) d = d\<lparr>x1 := v\<rparr>"
| "store_det (StY1 v) d = d\<lparr>y1 := v\<rparr>"
| "store_det (StX2 v) d = d\<lparr>x2 := v\<rparr>"
| "store_det (StY2 v) d = d\<lparr>y2 := v\<rparr>"
| "store_det (StScore v) d = d\<lparr>score := v\<rparr>"
| "store_det (StClass v) d = d\<lparr>class_id := v\<rparr>"

datatype msg_store =
    BumpSequence | StMagic u32 | StVersion u16 | StCount u16 | StTime u64 | StDet nat det_store

fun store_msg :: "msg_store \<Rightarrow> safety_message \<Rightarrow> safety_message" where
  "store_msg BumpSequence m = m\<lparr>msg_sequence := msg_sequence m + 1\<rparr>"
| "store_msg (StMagic v) m = m\<lparr>magic := v\<rparr>"
| "store_msg (StVersion v) m = m\<lparr>version := v\<rparr>"
| "store_msg (StCount v) m = m\<lparr>det_count := v\<rparr>"
| "store_msg (StTime v) m = m\<lparr>capture_time_ns := v\<rparr>"
| "store_msg (StDet i s) m = m\<lparr>detections := (detections m)[i := store_det s (detections m ! i)]\<rparr>"

definition det_stores :: "nat \<Rightarrow> detection \<Rightarrow> msg_store list" where
  "det_stores i d = [StDet i (StX1 (x1 d)), StDet i (StY1 (y1 d)), StDet i (StX2 (x2 d)),
     StDet i (StY2 (y2 d)), StDet i (StScore (score d)), StDet i (StClass (class_id d))]"

text \<open>The stores of \<open>publish\<close> in the order the barriers enforce.\<close>

definition publish_stores :: "detection list option \<Rightarrow> nat \<Rightarrow> u64 \<Rightarrow> msg_store list" where
  "publish_stores items count capture_time =
     (let count = (if count > kMaxDetections then kMaxDetections else count) in
      [BumpSequence, StMagic kMessageMagic, StVersion kMessageVersion,
       StCount (word_of_nat count), StTime capture_time]
      @ (case items of None \<Rightarrow> []
         | Some ds \<Rightarrow> concat (map (\<lambda>i. det_stores i (ds ! i)) [0..<count]))
      @ [BumpSequence])"

definition publish_message ::
  "safety_message \<Rightarrow> detection list option \<Rightarrow> nat \<Rightarrow> u64 \<Rightarrow> safety_message" where
  "publish_message msg items count capture_time =
     fold store_msg (publish_stores items count capture_time) msg"

section \<open>The reader\<close>

text \<open>
  \<open>mem t\<close> is the shared message after \<open>t\<close> stores. An attempt looks at the sequence at time
  \<open>t0\<close>, copies each part \<open>k\<close> at a time \<open>tm k\<close> of its own, and looks again at \<open>t1\<close>.
\<close>

definition copy_det :: "(nat \<Rightarrow> safety_message) \<Rightarrow> (nat \<Rightarrow> nat) \<Rightarrow> nat \<Rightarrow> detection" where
  "copy_det mem tm i =
     (let d = (\<lambda>k. detections (mem (tm (5 + 6 * i + k))) ! i) in
      \<lparr>x1 = x1 (d 0), y1 = y1 (d 1), x2 = x2 (d 2), y2 = y2 (d 3), score = score (d 4),
       class_id = class_id (d 5)\<rparr>)"

definition copy_message :: "(nat \<Rightarrow> safety_message) \<Rightarrow> (nat \<Rightarrow> nat) \<Rightarrow> safety_message" where
  "copy_message mem tm =
     \<lparr>magic = magic (mem (tm 0)), version = version (mem (tm 1)), det_count = det_count (mem (tm 2)),
      msg_sequence = msg_sequence (mem (tm 3)), capture_time_ns = capture_time_ns (mem (tm 4)),
      detections = map (copy_det mem tm) [0..<kMaxDetections]\<rparr>"

record attempt =
  before_at :: nat
  copy_at :: "nat \<Rightarrow> nat"
  after_at :: nat

definition message_valid :: "safety_message \<Rightarrow> bool" where
  "message_valid out \<longleftrightarrow> magic out = kMessageMagic \<and> version out = kMessageVersion
     \<and> unat (det_count out) \<le> kMaxDetections"

text \<open>
  \<open>read\<close> with one attempt of the list per round of the loop; \<open>None\<close> is the answer \<open>false\<close>.
\<close>

fun read_loop :: "(nat \<Rightarrow> safety_message) \<Rightarrow> attempt list \<Rightarrow> safety_message option" where
  "read_loop mem [] = None"
| "read_loop mem (a # as) =
     (let before = msg_sequence (mem (before_at a)) in
      if odd (unat before) then read_loop mem as
      else let out = copy_message mem (copy_at a) in
      if msg_sequence (mem (after_at a)) \<noteq> before then read_loop mem as
      else if message_valid out then Some out else None)"

definition read_message ::
  "(nat \<Rightarrow> safety_message) \<Rightarrow> attempt list \<Rightarrow> nat \<Rightarrow> safety_message option" where
  "read_message mem attempts max_retries = read_loop mem (take (Suc max_retries) attempts)"

text \<open>The history of the shared message under a series of publications.\<close>

type_synonym publication = "detection list option \<times> nat \<times> u64"

definition stores :: "publication list \<Rightarrow> msg_store list" where
  "stores ps = concat (map (\<lambda>(items, count, time). publish_stores items count time) ps)"

definition history :: "safety_message \<Rightarrow> publication list \<Rightarrow> nat \<Rightarrow> safety_message" where
  "history m0 ps t = fold store_msg (take t (stores ps)) m0"

definition published :: "safety_message \<Rightarrow> publication list \<Rightarrow> safety_message" where
  "published m0 ps = fold (\<lambda>(items, count, time) m. publish_message m items count time) ps m0"

section \<open>The effect of one publication\<close>

lemma det_store_frame [simp]:
  "i < length ds \<Longrightarrow> fold store_msg (det_stores i d) (m\<lparr>detections := ds\<rparr>)
     = m\<lparr>detections := ds[i := d]\<rparr>"
proof -
  have eq: "e\<lparr>x1 := x1 d, y1 := y1 d, x2 := x2 d, y2 := y2 d, score := score d,
      class_id := class_id d\<rparr> = d" for e :: detection
    by simp
  then show "i < length ds \<Longrightarrow> ?thesis" by (simp add: det_stores_def eq)
qed

lemma fold_det_stores:
  assumes "n \<le> length (detections m)" "n \<le> length ds"
  shows "fold store_msg (concat (map (\<lambda>i. det_stores i (ds ! i)) [0..<n])) m
     = m\<lparr>detections := take n ds @ drop n (detections m)\<rparr>"
  using assms
proof (induction n)
  case (Suc n)
  have "(take n ds @ drop n (detections m))[n := ds ! n] = take (Suc n) ds @ drop (Suc n) (detections m)"
    using Suc.prems by (intro nth_equalityI)
      (auto simp: nth_append nth_list_update take_Suc_conv_app_nth less_Suc_eq)
  then show ?case using Suc by simp
qed simp

section \<open>The sequence number counts the bumps\<close>

definition bumps :: "msg_store list \<Rightarrow> nat" where
  "bumps ws = length (filter (\<lambda>w. w = BumpSequence) ws)"

lemma bumps_simps [simp]:
  "bumps [] = 0" "bumps (w # ws) = (if w = BumpSequence then Suc (bumps ws) else bumps ws)"
  "bumps (us @ ws) = bumps us + bumps ws"
  by (simp_all add: bumps_def)

lemma msg_sequence_fold: "msg_sequence (fold store_msg ws m) = msg_sequence m + word_of_nat (bumps ws)"
proof (induction ws arbitrary: m)
  case (Cons w ws)
  then show ?case by (cases w) (simp_all add: algebra_simps)
qed simp

lemma bumps_det_stores: "bumps (concat (map (\<lambda>i. det_stores i (f i)) is)) = 0"
  by (induction "is") (simp_all add: det_stores_def)

lemma publish_stores_shape:
  obtains ws where "publish_stores items count time = BumpSequence # ws @ [BumpSequence]" "bumps ws = 0"
proof
  let ?n = "if count > kMaxDetections then kMaxDetections else count"
  let ?ws = "[StMagic kMessageMagic, StVersion kMessageVersion, StCount (word_of_nat ?n), StTime time]
      @ (case items of None \<Rightarrow> [] | Some ds \<Rightarrow> concat (map (\<lambda>i. det_stores i (ds ! i)) [0..<?n]))"
  show "publish_stores items count time = BumpSequence # ?ws @ [BumpSequence]"
    by (simp add: publish_stores_def Let_def)
  show "bumps ?ws = 0" by (simp add: bumps_det_stores split: option.split)
qed

text \<open>With an even number of bumps done, a whole number of publications is done.\<close>

lemma stores_simps [simp]:
  "stores [] = []" "stores ((items, count, time) # ps) = publish_stores items count time @ stores ps"
  "stores (ps @ qs) = stores ps @ stores qs"
  by (simp_all add: stores_def)

lemma bumps_stores: "bumps (stores ps) = 2 * length ps"
proof (induction ps)
  case (Cons p ps)
  obtain items count time where p: "p = (items, count, time)" by (cases p)
  obtain ws where "publish_stores items count time = BumpSequence # ws @ [BumpSequence]" "bumps ws = 0"
    by (rule publish_stores_shape)
  then show ?case using Cons by (simp add: p)
qed simp

lemma stores_starts: "stores ps = [] \<or> (\<exists>ws. stores ps = BumpSequence # ws)"
proof (cases ps)
  case (Cons p qs)
  obtain items count time where "p = (items, count, time)" by (cases p)
  then show ?thesis using Cons by (simp add: publish_stores_def Let_def)
qed simp

lemma even_bumps_boundary:
  assumes "even (bumps (take t (stores ps)))" "t \<le> length (stores ps)"
  shows "\<exists>j\<le>length ps. take t (stores ps) = stores (take j ps)"
  using assms
proof (induction ps arbitrary: t)
  case (Cons p ps)
  obtain items count time where p: "p = (items, count, time)" by (cases p)
  obtain ws where ws: "publish_stores items count time = BumpSequence # ws @ [BumpSequence]" "bumps ws = 0"
    by (rule publish_stores_shape)
  consider "t = 0" | "0 < t" "t < length ws + 2" | "length ws + 2 \<le> t" by linarith
  then show ?case
  proof cases
    case 1 then show ?thesis by (intro exI [of _ 0]) simp
  next
    case 2
    then obtain n where n: "t = Suc n" "n \<le> length ws" by (cases t) auto
    have "bumps (take n ws) = 0"
      using ws(2) bumps_simps(3) [of "take n ws" "drop n ws"] by simp
    then have "bumps (take t (stores (p # ps))) = 1" using n by (simp add: p ws(1))
    then show ?thesis using Cons.prems by simp
  next
    case 3
    then obtain u where u: "t = length ws + 2 + u" using le_Suc_ex by blast
    have split: "take t (stores (p # ps)) = publish_stores items count time @ take u (stores ps)"
      by (simp add: p ws(1) u)
    have "even (bumps (take u (stores ps)))" "u \<le> length (stores ps)"
      using Cons.prems unfolding split by (simp_all add: ws p u)
    then obtain j where "j \<le> length ps" "take u (stores ps) = stores (take j ps)"
      using Cons.IH by blast
    then show ?thesis unfolding split by (intro exI [of _ "Suc j"]) (simp add: p)
  qed
qed (intro exI [of _ 0], simp)

lemma published_stores: "published m0 ps = fold store_msg (stores ps) m0"
  by (induction ps arbitrary: m0) (auto simp: published_def publish_message_def)

section \<open>A window without a bump is a window without a store\<close>

lemma even_unat_plus:
  "even (unat (w :: u32)) \<Longrightarrow> even (unat (w + word_of_nat b)) \<longleftrightarrow> even b"
  by (simp add: unat_word_ariths unat_of_nat dvd_mod_iff mod_add_right_eq)

lemma quiet_window:
  assumes "even (unat (msg_sequence m0))" "2 * length ps < 2 ^ 32" "t0 \<le> t1"
    and "even (unat (msg_sequence (history m0 ps t0)))"
    and "msg_sequence (history m0 ps t1) = msg_sequence (history m0 ps t0)"
  shows "\<exists>j\<le>length ps. \<forall>t\<in>{t0..t1}. history m0 ps t = published m0 (take j ps)"
proof -
  let ?W = "stores ps"
  have ev: "even (bumps (take t0 ?W))"
    using assms(4) even_unat_plus [OF assms(1)] by (simp add: history_def msg_sequence_fold)
  define s0 where "s0 = min t0 (length ?W)"
  have s0: "take t0 ?W = take s0 ?W" "s0 \<le> length ?W"
    by (simp_all add: s0_def min_def)
  obtain j where j: "j \<le> length ps" "take s0 ?W = stores (take j ps)"
    using even_bumps_boundary [of s0 ps] ev s0 by auto
  have rest: "drop s0 ?W = stores (drop j ps)"
  proof -
    have "stores (take j ps) @ stores (drop j ps) = ?W"
      by (simp flip: stores_simps(3))
    then show ?thesis using j(2) append_take_drop_id [of s0 ?W] by (metis same_append_eq)
  qed
  have lt: "bumps (take t1 ?W) < 2 ^ 32" "bumps (take t0 ?W) < 2 ^ 32"
    using bumps_simps(3) [of "take t1 ?W" "drop t1 ?W"] bumps_simps(3) [of "take t0 ?W" "drop t0 ?W"]
      bumps_stores [of ps] assms(2) by simp_all
  have "word_of_nat (bumps (take t1 ?W)) = (word_of_nat (bumps (take t0 ?W)) :: u32)"
    using assms(5) by (simp add: history_def msg_sequence_fold)
  then have same: "bumps (take t1 ?W) = bumps (take t0 ?W)"
    using lt by (simp add: word_of_nat_eq_iff take_bit_nat_eq_self)
  have "take t ?W = take s0 ?W" if t: "t0 \<le> t" "t \<le> t1" for t
  proof (cases "s0 = length ?W")
    case True then show ?thesis using t by (simp add: s0_def min_def split: if_splits)
  next
    case False
    then have eq: "s0 = t0" and lt0: "t0 < length ?W" by (auto simp: s0_def min_def split: if_splits)
    then obtain ws where ws: "drop t0 ?W = BumpSequence # ws"
      using rest stores_starts [of "drop j ps"] by auto
    have "take t1 ?W = take t0 ?W @ take (t1 - t0) (BumpSequence # ws)"
      using assms(3) ws by (metis le_add_diff_inverse take_add)
    then have "take (t1 - t0) (BumpSequence # ws) = []"
      using same by (cases "t1 - t0") auto
    then have "t1 = t0" using assms(3) by auto
    then show ?thesis using t eq by simp
  qed
  then show ?thesis
    using j by (intro exI [of _ j]) (auto simp: history_def published_stores)
qed

lemma copy_message_const:
  assumes "\<And>k. mem (tm k) = m" "length (detections m) = kMaxDetections"
  shows "copy_message mem tm = m"
proof -
  have "copy_det mem tm i = detections m ! i" for i
    by (simp add: copy_det_def assms(1))
  then have "map (copy_det mem tm) [0..<kMaxDetections] = detections m"
    using assms(2) by (intro nth_equalityI) simp_all
  then show ?thesis by (simp add: copy_message_def assms(1))
qed

lemma store_msg_length: "length (detections (fold store_msg ws m)) = length (detections m)"
proof (induction ws arbitrary: m)
  case (Cons w ws)
  then show ?case by (cases w) simp_all
qed simp

lemma publish_message_eq:
  assumes "count \<le> length ds" "length (detections m) = kMaxDetections"
  shows "publish_message m (Some ds) count time =
    (let n = min count kMaxDetections in
     m\<lparr>magic := kMessageMagic, version := kMessageVersion, det_count := word_of_nat n,
       msg_sequence := msg_sequence m + 2, capture_time_ns := time,
       detections := take n ds @ drop n (detections m)\<rparr>)"
proof -
  let ?n = "min count kMaxDetections"
  have n: "(if count > kMaxDetections then kMaxDetections else count) = ?n" by simp
  show ?thesis
    unfolding publish_message_def publish_stores_def n Let_def
    using assms by (simp add: fold_det_stores)
qed

section \<open>Properties\<close>

text \<open>
  C26: A successful read is never torn. However the loads of the reader fall between the stores of
  the writer, an answer \<open>true\<close> hands out the message as it stood after a whole number of
  publications, and one in the known format, as long as fewer than \<open>2 ^ 31\<close> publications fall
  into the history.
\<close>

theorem read_not_torn:
  assumes "length (detections m0) = kMaxDetections" "even (unat (msg_sequence m0))"
    and "2 * length ps < 2 ^ 32"
    and "\<forall>a\<in>set attempts. before_at a \<le> after_at a
           \<and> (\<forall>k. before_at a \<le> copy_at a k \<and> copy_at a k \<le> after_at a)"
    and "read_message (history m0 ps) attempts max_retries = Some out"
  shows "\<exists>j\<le>length ps. out = published m0 (take j ps) \<and> message_valid out"
proof -
  have "read_loop (history m0 ps) as = Some out \<Longrightarrow> set as \<subseteq> set attempts \<Longrightarrow> ?thesis" for as
  proof (induction as)
    case (Cons a as)
    let ?mem = "history m0 ps"
    show ?case
    proof (cases "odd (unat (msg_sequence (?mem (before_at a))))
        \<or> msg_sequence (?mem (after_at a)) \<noteq> msg_sequence (?mem (before_at a))")
      case True
      then have "read_loop ?mem as = Some out"
        using Cons.prems(1) by (auto simp: Let_def split: if_splits)
      then show ?thesis using Cons.IH Cons.prems(2) by simp
    next
      case False
      then have out: "out = copy_message ?mem (copy_at a)" "message_valid out"
        using Cons.prems(1) by (auto simp: Let_def split: if_splits)
      have a: "before_at a \<le> after_at a" "\<And>k. copy_at a k \<in> {before_at a..after_at a}"
        using assms(4) Cons.prems(2) by auto
      obtain j where j: "j \<le> length ps"
        "\<forall>t\<in>{before_at a..after_at a}. ?mem t = published m0 (take j ps)"
        using quiet_window [OF assms(2,3) a(1)] False by blast
      have "copy_message ?mem (copy_at a) = published m0 (take j ps)"
        using a(2) j(2) assms(1)
        by (intro copy_message_const) (auto simp: published_stores store_msg_length)
      then show ?thesis using out j(1) by auto
    qed
  qed simp
  then show ?thesis using assms(5) set_take_subset by (fastforce simp: read_message_def)
qed

text \<open>The first attempt falls into the publication and is given up, the second succeeds.\<close>

theorem read_not_torn_witness:
  "let d = \<lparr>x1 = Fin 0, y1 = Fin 0, x2 = Fin 0, y2 = Fin 0, score = Fin 0, class_id = 0\<rparr>;
       m0 = \<lparr>magic = 0, version = 0, det_count = 0, msg_sequence = 0, capture_time_ns = 0,
             detections = replicate 32 d\<rparr>;
       attempts = [\<lparr>before_at = 0, copy_at = (\<lambda>k. min k 3), after_at = 3\<rparr>,
                   \<lparr>before_at = 6, copy_at = (\<lambda>_. 6), after_at = 6\<rparr>]
   in \<exists>out. read_message (history m0 [(None, 0, 7)]) attempts 4 = Some out
        \<and> (\<exists>j\<le>1. out = published m0 (take j [(None, 0, 7)]) \<and> message_valid out)"
proof -
  let ?d = "\<lparr>x1 = Fin 0, y1 = Fin 0, x2 = Fin 0, y2 = Fin 0, score = Fin 0, class_id = 0\<rparr>"
  let ?m0 = "\<lparr>magic = 0, version = 0, det_count = 0, msg_sequence = 0, capture_time_ns = 0,
      detections = replicate 32 ?d\<rparr>"
  let ?as = "[\<lparr>before_at = 0, copy_at = (\<lambda>k. min k 3), after_at = 3\<rparr>,
      \<lparr>before_at = 6, copy_at = (\<lambda>_. 6), after_at = 6\<rparr>]"
  let ?out = "\<lparr>magic = kMessageMagic, version = kMessageVersion, det_count = 0, msg_sequence = 2,
      capture_time_ns = 7, detections = replicate 32 ?d\<rparr>"
  have h: "history ?m0 [(None, 0, 7)] 0 = ?m0"
    "msg_sequence (history ?m0 [(None, 0, 7)] 3) = 1" "history ?m0 [(None, 0, 7)] 6 = ?out"
    by (simp_all add: history_def publish_stores_def Let_def)
  have "copy_message (history ?m0 [(None, 0, 7)]) (\<lambda>_. 6) = ?out"
    using h(3) by (intro copy_message_const) (simp_all add: kMaxDetections_def)
  then have r: "read_message (history ?m0 [(None, 0, 7)]) ?as 4 = Some ?out"
    using h by (simp add: read_message_def Let_def message_valid_def)
  then have "\<exists>j\<le>length [(None, 0, 7) :: publication]. ?out = published ?m0 (take j [(None, 0, 7)]) \<and> message_valid ?out"
    by (rule read_not_torn [rotated 4]) (simp_all add: kMaxDetections_def)
  then show ?thesis using r by (simp add: Let_def)
qed

text \<open>
  What is published is read. After \<open>publish\<close> with \<open>count\<close> detections, a reader that meets
  no writer gets, at its first attempt, the message with the time, the count cut at
  \<open>kMaxDetections\<close>, and that many detections in order; the sequence number is two higher.
\<close>

theorem publish_then_read:
  assumes "count \<le> length ds" "length (detections m) = kMaxDetections"
    and "even (unat (msg_sequence m))"
  shows "\<exists>out. read_message (\<lambda>_. publish_message m (Some ds) count time) (a # as) max_retries = Some out
    \<and> unat (det_count out) = min count kMaxDetections \<and> capture_time_ns out = time
    \<and> take (min count kMaxDetections) (detections out) = take (min count kMaxDetections) ds
    \<and> msg_sequence out = msg_sequence m + 2"
proof -
  let ?m = "publish_message m (Some ds) count time"
  have n: "unat (word_of_nat (min count kMaxDetections) :: u16) = min count kMaxDetections"
    by (simp add: unat_of_nat kMaxDetections_def)
  note eq = publish_message_eq [OF assms(1,2), of time, unfolded Let_def]
  have "copy_message (\<lambda>_. ?m) (copy_at a) = ?m"
    using assms(1,2) by (intro copy_message_const) (auto simp: eq)
  moreover have "even (unat (msg_sequence ?m))"
    using even_unat_plus [OF assms(3), of 2] by (simp add: eq)
  moreover have "message_valid ?m" by (simp add: eq message_valid_def n)
  ultimately have "read_message (\<lambda>_. ?m) (a # as) max_retries = Some ?m"
    by (simp add: read_message_def Let_def)
  then show ?thesis using assms(1) by (simp add: eq n)
qed

theorem publish_then_read_witness:
  "let d = \<lparr>x1 = Fin 0, y1 = Fin 0, x2 = Fin 0, y2 = Fin 0, score = Fin 0, class_id = 0\<rparr>;
       m = \<lparr>magic = 0, version = 0, det_count = 0, msg_sequence = 6, capture_time_ns = 0,
            detections = replicate 32 d\<rparr>;
       e = d\<lparr>score := Fin 1\<rparr>
   in \<exists>out. read_message (\<lambda>_. publish_message m (Some [e]) 1 99)
          [\<lparr>before_at = 0, copy_at = (\<lambda>_. 0), after_at = 0\<rparr>] 4 = Some out
        \<and> unat (det_count out) = 1 \<and> take 1 (detections out) = [e] \<and> msg_sequence out = 8"
proof -
  let ?d = "\<lparr>x1 = Fin 0, y1 = Fin 0, x2 = Fin 0, y2 = Fin 0, score = Fin 0, class_id = 0\<rparr>"
  show ?thesis
    using publish_then_read [of 1 "[?d\<lparr>score := Fin 1\<rparr>]"
        "\<lparr>magic = 0, version = 0, det_count = 0, msg_sequence = 6, capture_time_ns = 0,
          detections = replicate 32 ?d\<rparr>" 99 "\<lparr>before_at = 0, copy_at = (\<lambda>_. 0), after_at = 0\<rparr>" "[]" 4]
    by (auto simp: kMaxDetections_def Let_def)
qed

end
