(* ===== verification/Safety_Judge.thy ===== *)
theory Safety_Judge
  imports Safety_Message
begin

text \<open>
  \<open>common/SafetyJudge\<close>: from the detections of one frame to a safety state. A pointer that
  may be null is an option; a pointer with a count is the option of the list and the count.
\<close>

section \<open>States\<close>

datatype safety_state = Clear | Slow | Stop

fun state_code :: "safety_state \<Rightarrow> u8" where
  "state_code Clear = 0"
| "state_code Slow = 1"
| "state_code Stop = 2"

text \<open>The source compares states by their code; the larger one is the more dangerous.\<close>

instantiation safety_state :: linorder
begin

definition less_eq_safety_state :: "safety_state \<Rightarrow> safety_state \<Rightarrow> bool" where
  "less_eq_safety_state a b \<longleftrightarrow> state_code a \<le> state_code b"

definition less_safety_state :: "safety_state \<Rightarrow> safety_state \<Rightarrow> bool" where
  "less_safety_state a b \<longleftrightarrow> state_code a < state_code b"

instance
proof
  fix a b :: safety_state
  show "a \<le> b \<Longrightarrow> b \<le> a \<Longrightarrow> a = b"
    by (cases a; cases b) (simp_all add: less_eq_safety_state_def word_le_nat_alt)
qed (auto simp: less_eq_safety_state_def less_safety_state_def)

end

lemma state_order [simp]:
  "Clear \<le> s" "s \<le> Stop" "s \<le> Clear \<longleftrightarrow> s = Clear" "Stop \<le> s \<longleftrightarrow> s = Stop"
  "s \<le> Slow \<longleftrightarrow> s \<noteq> Stop" "Slow \<le> s \<longleftrightarrow> s \<noteq> Clear"
  by (cases s; simp add: less_eq_safety_state_def word_le_nat_alt)+

lemma state_strict_order [simp]:
  "\<not> s < Clear" "\<not> Stop < s" "Clear < s \<longleftrightarrow> s \<noteq> Clear" "s < Stop \<longleftrightarrow> s \<noteq> Stop"
  "s < Slow \<longleftrightarrow> s = Clear" "Slow < s \<longleftrightarrow> s = Stop"
  by (cases s; simp add: less_safety_state_def word_less_nat_alt)+

section \<open>Classes and thresholds\<close>

record class_map =
  car :: i32
  person :: i32
  sign_warning :: i32
  sign_prohibition :: i32
  sign_mandatory :: i32
  background :: i32

definition ClassMap_default :: class_map where
  "ClassMap_default = \<lparr>car = 0, person = 1, sign_warning = 2, sign_prohibition = 3,
     sign_mandatory = 4, background = -1\<rparr>"

record judge_config =
  zone_x_min :: fp
  zone_x_max :: fp
  zone_y_min :: fp
  stop_height :: fp
  slow_height :: fp
  sign_slow_width :: fp
  min_score :: fp
  classes :: class_map

definition JudgeConfig_default :: judge_config where
  "JudgeConfig_default = \<lparr>zone_x_min = lit32 (25/100), zone_x_max = lit32 (75/100),
     zone_y_min = lit32 (55/100), stop_height = lit32 (45/100), slow_height = lit32 (25/100),
     sign_slow_width = lit32 (12/100), min_score = lit32 (25/100), classes = ClassMap_default\<rparr>"

section \<open>Judgement\<close>

definition isHazardClass :: "i32 \<Rightarrow> class_map \<Rightarrow> bool" where
  "isHazardClass cid cm \<longleftrightarrow> cid = car cm \<or> cid = person cm"

definition isSignClass :: "i32 \<Rightarrow> class_map \<Rightarrow> bool" where
  "isSignClass cid cm \<longleftrightarrow>
     cid = sign_warning cm \<or> cid = sign_prohibition cm \<or> cid = sign_mandatory cm"

definition judgeOne :: "detection \<Rightarrow> judge_config \<Rightarrow> safety_state" where
  "judgeOne det config =
     (if 0 \<le> sint (background (classes config))
         \<and> class_id det = background (classes config) then Clear
      else let is_sign = isSignClass (class_id det) (classes config) in
      if \<not> is_sign \<and> \<not> isHazardClass (class_id det) (classes config) then Clear
      else if fp_lt (score det) (min_score config) then Clear
      else let height = fsub32 (y2 det) (y1 det) in
      if fp_le height (Fin 0) \<or> fp_le (x2 det) (x1 det) then Clear
      else if is_sign then
        (let width = fsub32 (x2 det) (x1 det) in
         if fp_ge width (sign_slow_width config) then Slow else Clear)
      else let center_x = fmul32 (fadd32 (x1 det) (x2 det)) (Fin (1/2)) in
      if fp_lt center_x (zone_x_min config) \<or> fp_gt center_x (zone_x_max config) then Clear
      else if fp_lt (y2 det) (zone_y_min config) then Clear
      else if fp_ge height (stop_height config) then Stop
      else if fp_ge height (slow_height config) then Slow
      else Clear)"

text \<open>
  The loop of \<open>judgeWorst\<close>: the accumulators are the worst state so far and the class left
  in \<open>out_class\<close>; a Stop returns at once.
\<close>

fun judgeWorst_loop ::
  "detection list \<Rightarrow> judge_config \<Rightarrow> i32 \<Rightarrow> safety_state \<Rightarrow> i32 \<Rightarrow> safety_state \<times> i32" where
  "judgeWorst_loop [] config exclude worst out = (worst, out)"
| "judgeWorst_loop (d # ds) config exclude worst out =
     (if class_id d = exclude then judgeWorst_loop ds config exclude worst out
      else let level = judgeOne d config in
      if level = Stop then (Stop, class_id d)
      else if state_code level > state_code worst
      then judgeWorst_loop ds config exclude level (class_id d)
      else judgeWorst_loop ds config exclude worst out)"

definition judgeWorst ::
  "detection list option \<Rightarrow> nat \<Rightarrow> judge_config \<Rightarrow> i32 \<Rightarrow> safety_state \<times> i32" where
  "judgeWorst items count config exclude =
     (case items of None \<Rightarrow> (Clear, -1)
      | Some ds \<Rightarrow> if count = 0 then (Clear, -1)
                  else judgeWorst_loop (take count ds) config exclude Clear (-1))"

definition judge :: "detection list option \<Rightarrow> nat \<Rightarrow> judge_config \<Rightarrow> safety_state" where
  "judge items count config = fst (judgeWorst items count config (-1))"

definition classPresent ::
  "detection list option \<Rightarrow> nat \<Rightarrow> i32 \<Rightarrow> judge_config \<Rightarrow> bool" where
  "classPresent items count target config =
     (case items of None \<Rightarrow> False
      | Some ds \<Rightarrow> \<not> sint target < 0
          \<and> list_ex (\<lambda>d. class_id d = target \<and> judgeOne d config \<noteq> Clear) (take count ds))"

lemmas [judge_defs] = isHazardClass_def isSignClass_def judgeOne_def

lemma state_code_less_iff [simp]: "state_code a < state_code b \<longleftrightarrow> a < b"
  by (simp add: less_safety_state_def)

section \<open>One detection\<close>

lemma judgeOne_cases_raw:
  "judgeOne det config = Stop \<longleftrightarrow>
     \<not> (0 \<le> sint (background (classes config)) \<and> class_id det = background (classes config))
   \<and> isHazardClass (class_id det) (classes config) \<and> \<not> isSignClass (class_id det) (classes config)
   \<and> \<not> fp_lt (score det) (min_score config)
   \<and> \<not> fp_le (fsub32 (y2 det) (y1 det)) (Fin 0) \<and> \<not> fp_le (x2 det) (x1 det)
   \<and> \<not> fp_lt (fmul32 (fadd32 (x1 det) (x2 det)) (Fin (1/2))) (zone_x_min config)
   \<and> \<not> fp_gt (fmul32 (fadd32 (x1 det) (x2 det)) (Fin (1/2))) (zone_x_max config)
   \<and> \<not> fp_lt (y2 det) (zone_y_min config)
   \<and> fp_ge (fsub32 (y2 det) (y1 det)) (stop_height config)"
  by (auto simp: judgeOne_def Let_def)

lemma judgeOne_sign: 
  "isSignClass (class_id det) (classes config) \<Longrightarrow> judgeOne det config \<noteq> Stop"
  by (simp add: judgeOne_cases_raw)

section \<open>All detections of a frame\<close>


text \<open>The levels a frame offers: those of the detections that are not excluded.\<close>

definition levels :: "detection list \<Rightarrow> judge_config \<Rightarrow> i32 \<Rightarrow> safety_state set" where
  "levels ds config ex = (\<lambda>d. judgeOne d config) ` {d \<in> set ds. class_id d \<noteq> ex}"

lemma finite_levels [simp]: "finite (levels ds config ex)"
  by (simp add: levels_def)

lemma levels_Nil [simp]: "levels [] config ex = {}"
  by (simp add: levels_def)

lemma levels_Cons [simp]:
  "levels (d # ds) config ex =
     (if class_id d = ex then levels ds config ex
      else insert (judgeOne d config) (levels ds config ex))"
  by (auto simp: levels_def)

lemma Max_Clear_insert:
  "finite S \<Longrightarrow> Max (insert Clear (insert a S)) = max a (Max (insert Clear S))"
  by (simp add: insert_commute [of Clear a])

lemma judgeWorst_loop_state:
  "fst (judgeWorst_loop ds config ex worst out)
     = max worst (Max (insert Clear (levels ds config ex)))"
proof (induction ds arbitrary: worst out)
  case (Cons d ds)
  have "Clear \<le> Max (insert Clear (levels ds config ex))" by simp
  then show ?case
    using Cons.IH
    by (cases "judgeOne d config"; cases worst)
       (auto simp: Let_def Max_Clear_insert max_def simp del: Max_insert)
qed (simp add: max_def)

lemma judgeWorst_loop_class:
  assumes "judgeWorst_loop ds config ex worst out = (s, c)" "worst \<noteq> Stop"
  shows "(s = worst \<and> c = out \<and> (\<forall>d\<in>set ds. class_id d \<noteq> ex \<longrightarrow> judgeOne d config \<le> worst))
    \<or> (worst < s \<and> (\<exists>i<length ds. class_id (ds ! i) = c \<and> c \<noteq> ex \<and> judgeOne (ds ! i) config = s
         \<and> (\<forall>j<i. class_id (ds ! j) \<noteq> ex \<longrightarrow> judgeOne (ds ! j) config < s)))"
  using assms
proof (induction ds arbitrary: worst out)
  case (Cons d ds)
  have shift: "\<exists>i<length (d # ds). class_id ((d # ds) ! i) = c \<and> c \<noteq> ex
        \<and> judgeOne ((d # ds) ! i) config = s
        \<and> (\<forall>j<i. class_id ((d # ds) ! j) \<noteq> ex \<longrightarrow> judgeOne ((d # ds) ! j) config < s)"
    if "class_id d \<noteq> ex \<longrightarrow> judgeOne d config < s"
      "\<exists>i<length ds. class_id (ds ! i) = c \<and> c \<noteq> ex \<and> judgeOne (ds ! i) config = s
         \<and> (\<forall>j<i. class_id (ds ! j) \<noteq> ex \<longrightarrow> judgeOne (ds ! j) config < s)"
  proof -
    from that(2) obtain i where "i < length ds" "class_id (ds ! i) = c" "c \<noteq> ex"
      "judgeOne (ds ! i) config = s"
      "\<forall>j<i. class_id (ds ! j) \<noteq> ex \<longrightarrow> judgeOne (ds ! j) config < s" by blast
    with that(1) show ?thesis
      by (intro exI [of _ "Suc i"]) (auto simp: less_Suc_eq_0_disj)
  qed
  consider (excl) "class_id d = ex" | (stop) "class_id d \<noteq> ex" "judgeOne d config = Stop"
    | (up) "class_id d \<noteq> ex" "judgeOne d config \<noteq> Stop" "worst < judgeOne d config"
    | (keep) "class_id d \<noteq> ex" "judgeOne d config \<noteq> Stop" "judgeOne d config \<le> worst"
    by fastforce
  then show ?case
  proof cases
    case excl
    then have "judgeWorst_loop ds config ex worst out = (s, c)" using Cons.prems by simp
    from Cons.IH [OF this] Cons.prems(2) show ?thesis using excl shift by auto
  next
    case stop
    then have "s = Stop" "c = class_id d" using Cons.prems(1) by auto
    then show ?thesis using stop Cons.prems(2) by (auto intro!: exI [of _ 0])
  next
    case up
    then have "judgeWorst_loop ds config ex (judgeOne d config) (class_id d) = (s, c)"
      using Cons.prems by (simp add: Let_def)
    from Cons.IH [OF this up(2)] show ?thesis
    proof
      assume "s = judgeOne d config \<and> c = class_id d
        \<and> (\<forall>e\<in>set ds. class_id e \<noteq> ex \<longrightarrow> judgeOne e config \<le> judgeOne d config)"
      then show ?thesis using up by (auto intro!: exI [of _ 0])
    qed (use up shift in \<open>auto dest: order.strict_trans\<close>)
  next
    case keep
    then have "judgeWorst_loop ds config ex worst out = (s, c)"
      using Cons.prems leD [OF keep(3)] by (simp add: Let_def)
    from Cons.IH [OF this] Cons.prems(2) show ?thesis using keep shift by (auto dest: order.strict_trans1)
  qed
qed simp

lemma judgeOne_exact_raw:
  assumes "isHazardClass (class_id det) (classes config)"
    "\<not> isSignClass (class_id det) (classes config)"
    "class_id det \<noteq> background (classes config)"
    and "det = \<lparr>x1 = Fin l, y1 = Fin a, x2 = Fin r, y2 = Fin b, score = sc, class_id = cid\<rparr>"
    and "zone_x_min config = Fin zl" "zone_x_max config = Fin zr" "stop_height config = Fin h"
    and "fp_ok binary32 (Fin zl)" "fp_ok binary32 (Fin zr)" "fp_ok binary32 (Fin h)"
    and "fp_ok binary32 (Fin (2 * zl))" "fp_ok binary32 (Fin (2 * zr))"
    and "0 < h" "a + h \<le> b" "l < r" "2 * zl \<le> l + r" "l + r \<le> 2 * zr"
    and "fp_le (zone_y_min config) (Fin b)" "\<not> fp_lt sc (min_score config)"
  shows "judgeOne det config = Stop"
proof -
  have p: "0 < prec binary32" by (simp add: binary32_def)
  have height: "fp_le (Fin h) (fsub32 (Fin b) (Fin a))"
    using round_fp_ge [OF p assms(10), of "b - a"] assms(14) by (simp add: fp_sub_def)
  then have pos: "\<not> fp_le (fsub32 (Fin b) (Fin a)) (Fin 0)"
    using assms(13) fp_le_trans [of "Fin h" "fsub32 (Fin b) (Fin a)" "Fin 0"] by auto
  have lo: "fp_le (Fin (2 * zl)) (round_fp binary32 (l + r))"
    and hi: "fp_le (round_fp binary32 (l + r)) (Fin (2 * zr))"
    using round_fp_ge [OF p assms(11,16)] round_fp_le [OF p assms(12,17)] .
  then obtain s where s: "round_fp binary32 (l + r) = Fin s" "2 * zl \<le> s" "s \<le> 2 * zr"
    by (cases "round_fp binary32 (l + r)") auto
  have c: "fp_le (Fin zl) (round_fp binary32 (s * (1/2)))" "fp_le (round_fp binary32 (s * (1/2))) (Fin zr)"
    using s(2,3) by (intro round_fp_ge round_fp_le p assms(8,9); simp)+
  have z: "\<not> fp_lt (Fin b) (zone_y_min config)"
    using assms(18) fp_lt_not_le by blast
  show ?thesis
    unfolding judgeOne_cases_raw using assms(1-7,15,19) height pos c z
    by (auto simp: s(1) dest: fp_lt_not_le)
qed

section \<open>Properties\<close>

text \<open>
  C28: No Stop is lost to rounding. A car or person whose exact height \<open>b - a\<close> reaches the
  stop height, whose exact centre lies in the lane zone and whose lower edge is low enough is
  judged Stop, although the code computes the height and the centre in \<open>float\<close>: the
  thresholds of the configuration only have to be \<open>float\<close> values themselves.
\<close>

theorem judgeOne_exact_Stop:
  assumes "isHazardClass (class_id det) (classes config)"
    "\<not> isSignClass (class_id det) (classes config)"
    "class_id det \<noteq> background (classes config)"
    and "det = \<lparr>x1 = Fin l, y1 = Fin a, x2 = Fin r, y2 = Fin b, score = sc, class_id = cid\<rparr>"
    and "zone_x_min config = Fin zl" "zone_x_max config = Fin zr" "stop_height config = Fin h"
    and "fp_ok binary32 (Fin zl)" "fp_ok binary32 (Fin zr)" "fp_ok binary32 (Fin h)"
    and "fp_ok binary32 (Fin (2 * zl))" "fp_ok binary32 (Fin (2 * zr))"
    and "0 < h" "a + h \<le> b" "l < r" "2 * zl \<le> l + r" "l + r \<le> 2 * zr"
    and "fp_le (zone_y_min config) (Fin b)" "\<not> fp_lt sc (min_score config)"
  shows "judgeOne det config = Stop"
  using assms by (rule judgeOne_exact_raw)

theorem judgeOne_exact_Stop_witness:
  "judgeOne \<lparr>x1 = Fin (1/4), y1 = Fin (1/4), x2 = Fin (3/4), y2 = Fin (3/4), score = Fin (1/2),
             class_id = 1\<rparr> JudgeConfig_default = Stop"
  by (rule judgeOne_exact_Stop [where zl = "1/4" and zr = "3/4" and h = "7549747/16777216"
        and l = "1/4" and a = "1/4" and r = "3/4" and b = "3/4" and sc = "Fin (1/2)" and cid = 1])
     (simp_all add: JudgeConfig_default_def ClassMap_default_def isHazardClass_def isSignClass_def)

text \<open>
  The judgement is monotone in the danger. Of two detections of one class at the same
  horizontal extent, the one that reaches at least as far up and down and has at least the
  score is never judged the less dangerous, whatever thresholds are configured, NaN included.
\<close>

theorem judgeOne_mono_height:
  assumes "class_id d = class_id d'" "x1 d = x1 d'" "x2 d = x2 d'"
    and "fp_isfinite (y1 d)" "fp_isfinite (y2 d)" "fp_isfinite (y1 d')" "fp_isfinite (y2 d')"
    and "fp_le (y1 d') (y1 d)" "fp_le (y2 d) (y2 d')" "fp_le (score d) (score d')"
  shows "judgeOne d config \<le> judgeOne d' config"
proof -
  have h: "fp_le (fsub32 (y2 d) (y1 d)) (fsub32 (y2 d') (y1 d'))"
    using assms by (intro fp_sub_mono2) simp_all
  have "fp_le (fsub32 (y2 d') (y1 d')) (Fin 0) \<Longrightarrow> fp_le (fsub32 (y2 d) (y1 d)) (Fin 0)"
    "fp_lt (score d') (min_score config) \<Longrightarrow> fp_lt (score d) (min_score config)"
    "fp_lt (y2 d') (zone_y_min config) \<Longrightarrow> fp_lt (y2 d) (zone_y_min config)"
    "fp_le t (fsub32 (y2 d) (y1 d)) \<Longrightarrow> fp_le t (fsub32 (y2 d') (y1 d'))" for t
    using assms h by (blast intro: fp_le_trans fp_le_lt_trans)+
  then show ?thesis
    using assms(1-3) by (auto simp: judgeOne_def Let_def)
qed

theorem judgeOne_mono_height_witness:
  "judgeOne \<lparr>x1 = Fin (1/4), y1 = Fin (1/4), x2 = Fin (3/4), y2 = Fin (5/8), score = Fin (1/2),
             class_id = 0\<rparr> JudgeConfig_default
   \<le> judgeOne \<lparr>x1 = Fin (1/4), y1 = Fin (1/4), x2 = Fin (3/4), y2 = Fin (3/4), score = Fin (1/2),
             class_id = 0\<rparr> JudgeConfig_default"
  by (rule judgeOne_mono_height) (simp_all add: fp_isfinite_def)

text \<open>
  \<open>judgeWorst\<close> returns the worst level among the first \<open>count\<close> detections whose class is
  not excluded (Clear when there is none), and the class it reports is that of the first
  detection of that level, or -1 for Clear; the early return on Stop loses nothing.
\<close>

theorem judgeWorst_spec:
  assumes "judgeWorst (Some ds) count config ex = (s, c)"
  shows "s = Max (insert Clear (levels (take count ds) config ex))
    \<and> (if s = Clear then c = -1
       else \<exists>i < min count (length ds). class_id (ds ! i) = c \<and> c \<noteq> ex
              \<and> judgeOne (ds ! i) config = s
              \<and> (\<forall>j<i. class_id (ds ! j) \<noteq> ex \<longrightarrow> judgeOne (ds ! j) config < s))"
proof -
  have loop: "judgeWorst_loop (take count ds) config ex Clear (-1) = (s, c)"
    using assms by (cases "count = 0") (simp_all add: judgeWorst_def)
  have "s = Max (insert Clear (levels (take count ds) config ex))"
    using judgeWorst_loop_state [of "take count ds" config ex Clear "-1"] loop
    by (simp add: max_def)
  then show ?thesis using judgeWorst_loop_class [OF loop] by (auto simp: min.commute)
qed

theorem judgeWorst_spec_witness:
  "let car_at = (\<lambda>y. \<lparr>x1 = Fin (1/4), y1 = Fin (1/4), x2 = Fin (3/4), y2 = Fin y,
                     score = Fin (1/2), class_id = 0\<rparr>)
   in judgeWorst (Some [car_at (5/8), car_at (3/4)]) 2 JudgeConfig_default (-1) = (Stop, 0)
      \<and> Stop = Max (insert Clear (levels [car_at (5/8), car_at (3/4)] JudgeConfig_default (-1)))"
proof -
  have "judgeWorst (Some [\<lparr>x1 = Fin (1/4), y1 = Fin (1/4), x2 = Fin (3/4), y2 = Fin (5/8),
                           score = Fin (1/2), class_id = 0\<rparr>,
                          \<lparr>x1 = Fin (1/4), y1 = Fin (1/4), x2 = Fin (3/4), y2 = Fin (3/4),
                           score = Fin (1/2), class_id = 0\<rparr>]) 2 JudgeConfig_default (-1) = (Stop, 0)"
    by (simp add: judgeWorst_def judgeOne_def JudgeConfig_default_def ClassMap_default_def
        isHazardClass_def isSignClass_def fp_sub_def Let_def)
  from this judgeWorst_spec [OF this] show ?thesis by (simp add: Let_def)
qed

text \<open>
  \<open>classPresent\<close> agrees with \<open>judgeWorst\<close>: a class is present exactly when it is not
  negative and the frame restricted to that class is judged Slow or Stop.
\<close>

theorem classPresent_iff_judged:
  "classPresent (Some ds) count target config \<longleftrightarrow>
     0 \<le> sint target \<and> judge (Some (filter (\<lambda>d. class_id d = target) (take count ds))) count config \<noteq> Clear"
proof (cases "0 \<le> sint target")
  case True
  then have "target \<noteq> -1" by auto
  let ?ds = "filter (\<lambda>d. class_id d = target) (take count ds)"
  have len: "take count ?ds = ?ds"
    by (simp add: order.trans [OF length_filter_le])
  have "judge (Some ?ds) count config = Max (insert Clear (levels ?ds config (-1)))"
    by (cases "count = 0")
       (simp_all add: judge_def judgeWorst_def judgeWorst_loop_state len max_def)
  moreover have "Max (insert Clear S) = Clear \<longleftrightarrow> S \<subseteq> {Clear}" if "finite S" for S
    using that by (auto simp: Max_eq_iff subset_iff)
  ultimately have "judge (Some ?ds) count config \<noteq> Clear
      \<longleftrightarrow> (\<exists>d \<in> set ?ds. class_id d \<noteq> -1 \<and> judgeOne d config \<noteq> Clear)"
    by (auto simp: levels_def)
  then show ?thesis using True \<open>target \<noteq> -1\<close>
    by (auto simp: classPresent_def list_ex_iff)
qed (simp add: classPresent_def)

end
