(* ===== verification/Safety_Filter.thy ===== *)
theory Safety_Filter
  imports Safety_Judge
begin

text \<open>
  The interface that the stages of the safety pipeline share. A stage is a step function on a
  state of its own that answers every input with a safety state. What its clients rely on is
  that, from a good state, the answer is at least as dangerous as what the input demands.
\<close>

section \<open>Runs of a stage\<close>

fun run :: "('s \<Rightarrow> 'i \<Rightarrow> 's \<times> 'o) \<Rightarrow> 's \<Rightarrow> 'i list \<Rightarrow> 's \<times> 'o list" where
  "run step s [] = (s, [])"
| "run step s (i # xs) =
     (case step s i of (s', out) \<Rightarrow> case run step s' xs of (s'', outs) \<Rightarrow> (s'', out # outs))"

lemma run_Cons_simps [simp]:
  "fst (run step s (i # xs)) = fst (run step (fst (step s i)) xs)"
  "snd (run step s (i # xs)) = snd (step s i) # snd (run step (fst (step s i)) xs)"
  by (simp_all split: prod.splits)

declare run.simps(2) [simp del]

lemma length_run [simp]: "length (snd (run step s xs)) = length xs"
  by (induction xs arbitrary: s) (simp_all)

lemma run_append:
  "fst (run step s (xs @ ys)) = fst (run step (fst (run step s xs)) ys)"
  "snd (run step s (xs @ ys)) = snd (run step s xs) @ snd (run step (fst (run step s xs)) ys)"
  by (induction xs arbitrary: s) (simp_all)

lemma run_nth:
  "n < length xs \<Longrightarrow> snd (run step s xs) ! n = snd (step (fst (run step s (take n xs))) (xs ! n))"
proof (induction xs arbitrary: s n)
  case (Cons i xs)
  then show ?case by (cases n) (simp_all)
qed simp

lemma run_invariant:
  assumes "P s" "\<And>s i. P s \<Longrightarrow> i \<in> set xs \<Longrightarrow> P (fst (step s i))"
  shows "P (fst (run step s xs))"
  using assms by (induction xs arbitrary: s) (simp_all)

section \<open>Stages that never answer below the demand\<close>

locale safety_filter =
  fixes step :: "'s \<Rightarrow> 'i \<Rightarrow> 's \<times> safety_state"
    and good :: "'s \<Rightarrow> bool"
    and demand :: "'s \<Rightarrow> 'i \<Rightarrow> safety_state"
  assumes good_step: "good s \<Longrightarrow> good (fst (step s i))"
    and meets: "good s \<Longrightarrow> demand s i \<le> snd (step s i)"
begin

lemma good_run: "good s \<Longrightarrow> good (fst (run step s xs))"
  by (induction xs arbitrary: s) (simp_all add: good_step)

lemma run_meets:
  assumes "good s" "n < length xs"
  shows "demand (fst (run step s (take n xs))) (xs ! n) \<le> snd (run step s xs) ! n"
  using assms by (simp add: run_nth meets good_run)

lemma run_Stop:
  assumes "good s" "n < length xs" "demand (fst (run step s (take n xs))) (xs ! n) = Stop"
  shows "snd (run step s xs) ! n = Stop"
  using run_meets [OF assms(1,2)] assms(3) by simp

end

text \<open>
  A stage that holds: in the states and inputs where \<open>held\<close> xs true it answers Stop and
  keeps the state, but for what \<open>held\<close> does not depend on.
\<close>

locale holding_filter = safety_filter step good demand
  for step :: "'s \<Rightarrow> 'i \<Rightarrow> 's \<times> safety_state"
    and good :: "'s \<Rightarrow> bool"
    and demand :: "'s \<Rightarrow> 'i \<Rightarrow> safety_state" +
  fixes held :: "'s \<Rightarrow> 'i \<Rightarrow> bool"
  assumes held_Stop: "held s i \<Longrightarrow> snd (step s i) = Stop"
    and held_keeps: "held s i \<Longrightarrow> held (fst (step s i)) j = held s j"
begin

lemma run_held:
  "(\<forall>i\<in>set xs. held s i) \<Longrightarrow> snd (run step s xs) = replicate (length xs) Stop"
  by (induction xs arbitrary: s) (simp_all add: held_Stop held_keeps)

end

end
