(* ===== verification/Debounce.thy ===== *)
theory Debounce
  imports Safety_Filter
begin

text \<open>
  \<open>common/SafetyDebounce\<close>: danger is passed on at once, relief only after enough equal frames
  over enough time.
\<close>

section \<open>State and update\<close>

record debounce_config =
  relief_frames :: u32
  release_hold_ms :: u32

definition DebounceConfig_default :: debounce_config where
  "DebounceConfig_default = \<lparr>relief_frames = 10, release_hold_ms = 500\<rparr>"

record debounce =
  dconfig :: debounce_config
  dstate :: safety_state
  pending :: safety_state
  pending_frames :: u32
  pending_since :: u64

definition Debounce :: "debounce_config \<Rightarrow> debounce" where
  "Debounce config = \<lparr>dconfig = config, dstate = Stop, pending = Stop, pending_frames = 0,
     pending_since = 0\<rparr>"

definition debounce_reset :: "debounce \<Rightarrow> debounce" where
  "debounce_reset D = D\<lparr>dstate := Stop, pending := Stop, pending_frames := 0, pending_since := 0\<rparr>"

definition moreDangerous :: "safety_state \<Rightarrow> safety_state \<Rightarrow> bool" where
  "moreDangerous a b \<longleftrightarrow> state_code a > state_code b"

definition debounce_update :: "debounce \<Rightarrow> safety_state \<Rightarrow> u64 \<Rightarrow> debounce \<times> safety_state" where
  "debounce_update D raw now =
     (if moreDangerous raw (dstate D)
      then (D\<lparr>dstate := raw, pending := raw, pending_frames := 0, pending_since := now\<rparr>, raw)
      else if raw = dstate D
      then (D\<lparr>pending := dstate D, pending_frames := 0, pending_since := now\<rparr>, dstate D)
      else if raw \<noteq> pending D
      then (D\<lparr>pending := raw, pending_frames := 1, pending_since := now\<rparr>, dstate D)
      else let D = D\<lparr>pending_frames := pending_frames D + 1\<rparr>;
               enough_frames = pending_frames D \<ge> relief_frames (dconfig D);
               elapsed = (if now \<ge> pending_since D then now - pending_since D else 0);
               enough_time = elapsed \<ge> ucast (release_hold_ms (dconfig D))
           in if enough_frames \<and> enough_time
              then (D\<lparr>dstate := pending D, pending_frames := 0, pending_since := now\<rparr>, pending D)
              else (D, dstate D))"

fun debounce_step :: "debounce \<Rightarrow> safety_state \<times> u64 \<Rightarrow> debounce \<times> safety_state" where
  "debounce_step D (raw, now) = debounce_update D raw now"

section \<open>The stage contract\<close>

lemma debounce_update_ge: "raw \<le> snd (debounce_update D raw now)"
  by (auto simp: debounce_update_def moreDangerous_def Let_def)

lemma debounce_update_state: "dstate (fst (debounce_update D raw now)) = snd (debounce_update D raw now)"
  by (simp add: debounce_update_def Let_def)

interpretation deb: safety_filter debounce_step "\<lambda>D. True" "\<lambda>D (raw, now). raw"
  by unfold_locales (auto simp: debounce_update_ge)

section \<open>What a release rests on\<close>

text \<open>
  The candidate for release, with the inputs so far: the last \<open>pending_frames\<close> of them carry
  the candidate level, and the first of these came at \<open>pending_since\<close>.
\<close>

definition candidate_ok :: "(safety_state \<times> u64) list \<Rightarrow> debounce \<Rightarrow> bool" where
  "candidate_ok past D \<longleftrightarrow>
     (let m = unat (pending_frames D) in
      m \<le> length past \<and> (\<forall>i\<in>set (drop (length past - m) past). fst i = pending D)
      \<and> (0 < m \<longrightarrow> snd (past ! (length past - m)) = pending_since D)
      \<and> (m = 0 \<longrightarrow> pending D = dstate D))"

lemma candidate_okI:
  assumes "pending D = dstate D" "pending_frames D = 0" shows "candidate_ok past D"
  using assms by (simp add: candidate_ok_def)

lemma candidate_ok_one:
  assumes "pending_frames D = 1" "pending D = raw" "pending_since D = now"
  shows "candidate_ok (past @ [(raw, now)]) D"
  using assms by (simp add: candidate_ok_def)

lemma candidate_ok_more:
  assumes "candidate_ok past D" "pending D = raw" "pending D \<noteq> dstate D" "length past < 2 ^ 32 - 1"
  shows "candidate_ok (past @ [(raw, now)]) (D\<lparr>pending_frames := pending_frames D + 1\<rparr>)"
proof -
  have m: "unat (pending_frames D) \<le> length past" "0 < unat (pending_frames D)"
    using assms(1,3) by (auto simp: candidate_ok_def Let_def)
  then have "unat (pending_frames D + 1) = unat (pending_frames D) + 1"
    using assms(4) by (simp add: unat_word_ariths)
  then show ?thesis using assms(1,2) m
    by (auto simp: candidate_ok_def Let_def nth_append)
qed

lemma debounce_update_cases:
  obtains (danger) "dstate D < raw" "debounce_update D raw now
        = (D\<lparr>dstate := raw, pending := raw, pending_frames := 0, pending_since := now\<rparr>, raw)"
  | (same) "raw = dstate D" "debounce_update D raw now
        = (D\<lparr>pending := dstate D, pending_frames := 0, pending_since := now\<rparr>, dstate D)"
  | (candidate) "raw < dstate D" "raw \<noteq> pending D" "debounce_update D raw now
        = (D\<lparr>pending := raw, pending_frames := 1, pending_since := now\<rparr>, dstate D)"
  | (wait) "raw < dstate D" "raw = pending D" "debounce_update D raw now
        = (D\<lparr>pending_frames := pending_frames D + 1\<rparr>, dstate D)"
  | (release) "raw < dstate D" "raw = pending D" "debounce_update D raw now
        = (D\<lparr>dstate := raw, pending_frames := 0, pending_since := now\<rparr>, raw)"
    "relief_frames (dconfig D) \<le> pending_frames D + 1"
    "ucast (release_hold_ms (dconfig D))
       \<le> (if now \<ge> pending_since D then now - pending_since D else 0)"
proof -
  note defs = debounce_update_def moreDangerous_def Let_def
  consider "dstate D < raw" | "raw = dstate D" | "raw < dstate D" "raw \<noteq> pending D"
    | "raw < dstate D" "raw = pending D" by fastforce
  then show thesis
  proof cases
    case 1 then show thesis by (intro danger) (simp_all add: defs)
  next
    case 2 then show thesis by (intro same) (simp_all add: defs)
  next
    case 3 then show thesis by (intro candidate) (auto simp: defs)
  next
    case 4
    show thesis
    proof (cases "relief_frames (dconfig D) \<le> pending_frames D + 1
        \<and> ucast (release_hold_ms (dconfig D))
            \<le> (if now \<ge> pending_since D then now - pending_since D else 0)")
      case True with 4 show thesis by (intro release) (auto simp: defs)
    next
      case False with 4 show thesis by (intro wait) (auto simp: defs)
    qed
  qed
qed

lemma candidate_ok_update:
  assumes "candidate_ok past D" "length past < 2 ^ 32 - 1"
  shows "candidate_ok (past @ [(raw, now)]) (fst (debounce_update D raw now))"
  using assms
  by (cases rule: debounce_update_cases [of D raw now])
     (auto intro: candidate_okI candidate_ok_one candidate_ok_more)

lemma candidate_ok_run:
  "length is < 2 ^ 32 \<Longrightarrow> candidate_ok is (fst (run debounce_step (Debounce cfg) is))"
proof (induction "is" rule: rev_induct)
  case (snoc i "is")
  then show ?case
    by (cases i) (simp add: run_append candidate_ok_update)
qed (simp add: candidate_ok_def Debounce_def)

lemma dconfig_run [simp]: "dconfig (fst (run debounce_step D is)) = dconfig D"
proof (rule run_invariant [where P = "\<lambda>E. dconfig E = dconfig D"])
  fix E :: debounce and i assume "dconfig E = dconfig D"
  then show "dconfig (fst (debounce_step E i)) = dconfig D"
    by (cases i; cases rule: debounce_update_cases [of E "fst i" "snd i"]) simp_all
qed simp

text \<open>A candidate that keeps coming is released at the first frame that meets both bounds.\<close>

definition relief_due :: "debounce \<Rightarrow> nat \<Rightarrow> u64 \<Rightarrow> bool" where
  "relief_due D frames now \<longleftrightarrow> unat (relief_frames (dconfig D)) \<le> frames
     \<and> (release_hold_ms (dconfig D) = 0
        \<or> unat (pending_since D) + unat (release_hold_ms (dconfig D)) \<le> unat now)"

lemma relief_due_iff:
  "relief_due D (unat f) now \<longleftrightarrow> relief_frames (dconfig D) \<le> f
     \<and> ucast (release_hold_ms (dconfig D))
         \<le> (if now \<ge> pending_since D then now - pending_since D else 0)"
proof -
  let ?h = "ucast (release_hold_ms (dconfig D)) :: u64"
  have h: "unat ?h = unat (release_hold_ms (dconfig D))" "?h = 0 \<longleftrightarrow> release_hold_ms (dconfig D) = 0"
    by simp_all
  show ?thesis
    using word_diff_ge_iff_unat [of "pending_since D" now ?h] h
    by (auto simp: relief_due_def word_le_nat_alt unat_eq_zero)
qed

lemma debounce_settled:
  assumes "dstate D = r" "\<forall>i\<in>set is. fst i = r"
  shows "dstate (fst (run debounce_step D is)) = r"
proof (rule run_invariant [where P = "\<lambda>E. dstate E = r"])
  fix E :: debounce and i assume "dstate E = r" "i \<in> set is"
  then show "dstate (fst (debounce_step E i)) = r"
    using assms(2) by (cases i) (auto simp: debounce_update_def moreDangerous_def)
qed (rule assms(1))

lemma debounce_run_release:
  assumes "r < dstate D" "pending D = r" "\<forall>i\<in>set is. fst i = r"
    and "unat (pending_frames D) + length is < 2 ^ 32"
  shows "dstate (fst (run debounce_step D is)) = r \<longleftrightarrow>
     (\<exists>k<length is. relief_due D (unat (pending_frames D) + k + 1) (snd (is ! k)))"
  using assms
proof (induction "is" arbitrary: D)
  case (Cons i "is")
  obtain now where i: "i = (r, now)" using Cons.prems(3) by (cases i) simp
  have u: "unat (pending_frames D + 1) = unat (pending_frames D) + 1"
    using Cons.prems(4) by (simp add: unat_word_ariths)
  have due: "relief_due D (unat (pending_frames D) + 1) now
      \<longleftrightarrow> relief_due D (unat (pending_frames D + 1)) now"
    by (simp add: u)
  show ?case
  proof (cases "relief_due D (unat (pending_frames D) + 1) now")
    case True
    then have "dstate (fst (debounce_step D i)) = r"
      using Cons.prems(1,2) unfolding due relief_due_iff
      by (auto simp: i debounce_update_def moreDangerous_def Let_def)
    then have "dstate (fst (run debounce_step D (i # is))) = r"
      using debounce_settled [of "fst (debounce_step D i)" r "is"] Cons.prems(3)
      by simp
    then show ?thesis using True by (auto simp: i)
  next
    case False
    let ?D = "D\<lparr>pending_frames := pending_frames D + 1\<rparr>"
    have step: "debounce_step D i = (?D, dstate D)"
      using False Cons.prems(1,2) unfolding due relief_due_iff
      by (auto simp: i debounce_update_def moreDangerous_def Let_def)
    have "dstate (fst (run debounce_step ?D is)) = r
        \<longleftrightarrow> (\<exists>k<length is. relief_due ?D (unat (pending_frames ?D) + k + 1) (snd (is ! k)))"
      using Cons.prems u by (intro Cons.IH) auto
    also have "\<dots> \<longleftrightarrow> (\<exists>k<length (i # is).
        relief_due D (unat (pending_frames D) + k + 1) (snd ((i # is) ! k)))"
      using False by (auto simp: ex_nat_less_Suc_shift u relief_due_def i)
    finally show ?thesis using step by simp
  qed
qed simp

section \<open>Properties\<close>

text \<open>
  Danger is never delayed. Over any sequence of judgements and times, whatever the
  configuration, the state sent for a frame is at least as dangerous as the judgement of that
  frame.
\<close>

theorem debounce_never_below:
  "n < length is \<Longrightarrow> fst (is ! n) \<le> snd (run debounce_step (Debounce cfg) is) ! n"
  using deb.run_meets [where s = "Debounce cfg" and n = n and xs = "is"] by (simp split: prod.splits)

theorem debounce_never_below_witness:
  "Slow \<le> snd (run debounce_step (Debounce DebounceConfig_default) [(Clear, 0), (Slow, 9)]) ! 1"
  using debounce_never_below [of 1 "[(Clear, 0), (Slow, 9)]" DebounceConfig_default] by simp

text \<open>
  C36: Relief rests on evidence. Whenever the state sent drops, to a level \<open>r\<close> say, the last \<open>k\<close>
  judgements were all \<open>r\<close>, with \<open>k\<close> at least 2 and at least \<open>release_frames\<close>, and the first
  and the last of them are \<open>release_hold_ms\<close> apart.
\<close>

theorem debounce_release_needs:
  assumes "n < length is" "length is < 2 ^ 32"
    and "snd (run debounce_step (Debounce cfg) is) ! n
           < dstate (fst (run debounce_step (Debounce cfg) (take n is)))"
  shows "\<exists>k. 2 \<le> k \<and> unat (relief_frames cfg) \<le> k \<and> k \<le> n + 1
    \<and> (\<forall>j\<in>{n + 1 - k..n}. fst (is ! j) = snd (run debounce_step (Debounce cfg) is) ! n)
    \<and> (release_hold_ms cfg = 0
       \<or> unat (snd (is ! (n + 1 - k))) + unat (release_hold_ms cfg) \<le> unat (snd (is ! n)))"
proof -
  let ?D = "fst (run debounce_step (Debounce cfg) (take n is))"
  let ?m = "unat (pending_frames ?D)"
  obtain raw now where i: "is ! n = (raw, now)" by fastforce
  have out: "snd (run debounce_step (Debounce cfg) is) ! n = snd (debounce_update ?D raw now)"
    using assms(1) by (simp add: run_nth i)
  have ok: "candidate_ok (take n is) ?D"
    using assms(1,2) by (intro candidate_ok_run) simp
  have cfg: "dconfig ?D = cfg" by (simp add: Debounce_def)
  have rel: "raw < dstate ?D" "raw = pending ?D" "snd (debounce_update ?D raw now) = raw"
    "relief_due ?D (unat (pending_frames ?D + 1)) now"
    using assms(3) unfolding out relief_due_iff
    by (cases rule: debounce_update_cases [of ?D raw now]; simp)+
  have m: "?m \<le> n" "0 < ?m" "\<forall>i\<in>set (drop (n - ?m) (take n is)). fst i = raw"
    "snd (is ! (n - ?m)) = pending_since ?D"
    using ok rel(1,2) assms(1) by (auto simp: candidate_ok_def Let_def min_def)
  have u: "unat (pending_frames ?D + 1) = ?m + 1"
    using m(1) assms(1,2) by (simp add: unat_word_ariths)
  have "fst (is ! j) = raw" if "n - ?m \<le> j" "j \<le> n" for j
  proof (cases "j = n")
    case False
    then have "is ! j \<in> set (drop (n - ?m) (take n is))"
      using that assms(1) by (auto simp: in_set_conv_nth intro!: exI [of _ "j - (n - ?m)"])
    then show ?thesis using m(3) by simp
  qed (simp add: i)
  then show ?thesis
    using m rel(3,4) u cfg i out
    by (intro exI [of _ "?m + 1"]) (auto simp: relief_due_def)
qed

theorem debounce_release_needs_witness:
  "let cfg = \<lparr>relief_frames = 2, release_hold_ms = 50\<rparr>; is = [(Clear, 100), (Clear, 150)]
   in \<exists>k. 2 \<le> k \<and> unat (relief_frames cfg) \<le> k \<and> k \<le> 1 + 1
    \<and> (\<forall>j\<in>{1 + 1 - k..1}. fst (is ! j) = snd (run debounce_step (Debounce cfg) is) ! 1)
    \<and> (release_hold_ms cfg = 0
       \<or> unat (snd (is ! (1 + 1 - k))) + unat (release_hold_ms cfg) \<le> unat (snd (is ! 1)))"
  unfolding Let_def
  by (rule debounce_release_needs)
     (simp_all add: Debounce_def debounce_update_def moreDangerous_def Let_def)

text \<open>
  The release is exact and does come. From a state whose last judgement was its own level,
  a series of judgements at a lower level \<open>r\<close> has brought the state down to \<open>r\<close> exactly when
  one of them, the second at the earliest, is at least the \<open>release_frames\<close>-th and lies at
  least \<open>release_hold_ms\<close> after the first. In particular a \<open>release_frames\<close> of 0 or 1 acts as 2.
\<close>

theorem debounce_release_exact:
  assumes "pending D = dstate D" "r < dstate D" "\<forall>i\<in>set is. fst i = r" "length is < 2 ^ 32"
  shows "dstate (fst (run debounce_step D is)) = r \<longleftrightarrow>
    (\<exists>k<length is. 1 \<le> k \<and> unat (relief_frames (dconfig D)) \<le> k + 1
       \<and> (release_hold_ms (dconfig D) = 0
          \<or> unat (snd (is ! 0)) + unat (release_hold_ms (dconfig D)) \<le> unat (snd (is ! k))))"
proof (cases "is")
  case (Cons i js)
  obtain t where i: "i = (r, t)" using assms(3) Cons by (cases i) simp
  let ?D = "D\<lparr>pending := r, pending_frames := 1, pending_since := t\<rparr>"
  have "debounce_step D i = (?D, dstate D)"
    using assms(1,2) by (auto simp: i debounce_update_def moreDangerous_def)
  moreover have "dstate (fst (run debounce_step ?D js)) = r \<longleftrightarrow>
     (\<exists>k<length js. relief_due ?D (unat (pending_frames ?D) + k + 1) (snd (js ! k)))"
    using assms Cons by (intro debounce_run_release) auto
  ultimately show ?thesis
    by (simp add: Cons i ex_nat_less_Suc_shift relief_due_def)
qed (use assms in simp)

theorem debounce_release_exact_witness:
  "dstate (fst (run debounce_step (Debounce \<lparr>relief_frames = 1, release_hold_ms = 0\<rparr>) [(Clear, 5)]))
     \<noteq> Clear"
proof -
  have "dstate (fst (run debounce_step (Debounce \<lparr>relief_frames = 1, release_hold_ms = 0\<rparr>)
      [(Clear, 5)])) = Clear \<longleftrightarrow> (\<exists>k<length [(Clear, 5 :: u64)]. 1 \<le> k
        \<and> unat (relief_frames (dconfig (Debounce \<lparr>relief_frames = 1, release_hold_ms = 0\<rparr>))) \<le> k + 1
        \<and> (release_hold_ms (dconfig (Debounce \<lparr>relief_frames = 1, release_hold_ms = 0\<rparr>)) = 0
          \<or> unat (snd ([(Clear, 5 :: u64)] ! 0))
              + unat (release_hold_ms (dconfig (Debounce \<lparr>relief_frames = 1, release_hold_ms = 0\<rparr>)))
              \<le> unat (snd ([(Clear, 5 :: u64)] ! k))))"
    by (rule debounce_release_exact) (simp_all add: Debounce_def)
  then show ?thesis by (simp add: Debounce_def)
qed

end
