(* ===== verification/Hls_Loops.thy ===== *)
theory Hls_Loops
  imports Prelude
begin

text \<open>
  What the PL engine is written with: counted loops over arrays. An array of the C++ code is a
  function of its indices; the lemmas turn nested loops that write or accumulate into closed
  forms, and tiled loops into flat ones.
\<close>

section \<open>Loops and arrays\<close>

text \<open>\<open>for (i = 0; i < n; i++)\<close> and \<open>for (i = 0; i < n; i += p)\<close>.\<close>

definition for_loop :: "nat \<Rightarrow> (nat \<Rightarrow> 's \<Rightarrow> 's) \<Rightarrow> 's \<Rightarrow> 's" where
  "for_loop n body s = fold body [0..<n] s"

definition for_step :: "nat \<Rightarrow> nat \<Rightarrow> (nat \<Rightarrow> 's \<Rightarrow> 's) \<Rightarrow> 's \<Rightarrow> 's" where
  "for_step n p body s = for_loop ((n + p - 1) div p) (\<lambda>k. body (k * p)) s"

definition upd2 :: "(nat \<Rightarrow> nat \<Rightarrow> 'a) \<Rightarrow> nat \<Rightarrow> nat \<Rightarrow> 'a \<Rightarrow> nat \<Rightarrow> nat \<Rightarrow> 'a" where
  "upd2 a i j v = a(i := (a i)(j := v))"

definition upd3 ::
  "(nat \<Rightarrow> nat \<Rightarrow> nat \<Rightarrow> 'a) \<Rightarrow> nat \<Rightarrow> nat \<Rightarrow> nat \<Rightarrow> 'a \<Rightarrow> nat \<Rightarrow> nat \<Rightarrow> nat \<Rightarrow> 'a" where
  "upd3 a i j k v = a(i := upd2 (a i) j k v)"

definition upd4 ::
  "(nat \<Rightarrow> nat \<Rightarrow> nat \<Rightarrow> nat \<Rightarrow> 'a) \<Rightarrow> nat \<Rightarrow> nat \<Rightarrow> nat \<Rightarrow> nat \<Rightarrow> 'a
     \<Rightarrow> nat \<Rightarrow> nat \<Rightarrow> nat \<Rightarrow> nat \<Rightarrow> 'a" where
  "upd4 a i j k l v = a(i := upd3 (a i) j k l v)"

lemma for_loop_0 [simp]: "for_loop 0 body s = s"
  by (simp add: for_loop_def)

lemma for_loop_Suc [simp]: "for_loop (Suc n) body s = body n (for_loop n body s)"
  by (simp add: for_loop_def)

lemma for_loop_cong [fundef_cong]:
  "n = m \<Longrightarrow> (\<And>i t. i < m \<Longrightarrow> f i t = g i t) \<Longrightarrow> s = s' \<Longrightarrow> for_loop n f s = for_loop m g s'"
proof -
  assume n: "n = m" and s: "s = s'" and fg: "\<And>i t. i < m \<Longrightarrow> f i t = g i t"
  have "k \<le> m \<Longrightarrow> for_loop k f s = for_loop k g s" for k by (induction k) (auto simp: fg)
  then show ?thesis using n s by simp
qed

lemma for_loop_add: "for_loop (m + n) body s = for_loop n (\<lambda>i. body (m + i)) (for_loop m body s)"
  by (induction n) simp_all

text \<open>A tiled loop is the flat one.\<close>

lemma for_loop_tile: "for_loop m (\<lambda>k. for_loop p (\<lambda>l. body (k * p + l))) s = for_loop (m * p) body s"
  by (induction m) (simp_all add: for_loop_add add.commute [of p])

lemma for_step_count:
  assumes "0 < p"
  shows "for_step (m * p) p body s = for_loop m (\<lambda>k. body (k * p)) s"
proof -
  have "(m * p + p - 1) div p = m" using assms by (intro div_nat_eqI) (simp_all add: algebra_simps)
  then show ?thesis by (simp add: for_step_def)
qed

lemma for_step_tile:
  assumes "p dvd n" "0 < p"
  shows "for_step n p (\<lambda>b. for_loop p (\<lambda>l. body (b + l))) s = for_loop n body s"
proof -
  obtain m where m: "n = m * p" using assms(1) by (metis dvd_def mult.commute)
  show ?thesis unfolding m for_step_count [OF assms(2)] by (rule for_loop_tile)
qed

section \<open>Closed forms\<close>

lemma for_loop_write:
  "for_loop n (\<lambda>i a. a(i := f i)) a = (\<lambda>i. if i < n then f i else a i)"
  by (induction n) (auto simp: less_Suc_eq)

lemma for_loop_write3:
  "for_loop n (\<lambda>k a. upd3 a i j k (f k)) a
     = (\<lambda>i' j' k'. if i' = i \<and> j' = j \<and> k' < n then f k' else a i' j' k')"
  by (induction n) (auto simp: upd3_def upd2_def less_Suc_eq fun_eq_iff)

text \<open>Loops whose rounds write disjoint parts of an array of three indices.\<close>

lemma for_loop_write3_mid:
  "for_loop n (\<lambda>j a. (\<lambda>i' j' k'. if i' = i \<and> j' = j \<and> Q k' then f j k' else a i' j' k')) a
     = (\<lambda>i' j' k'. if i' = i \<and> j' < n \<and> Q k' then f j' k' else a i' j' k')"
  by (induction n) (auto simp: less_Suc_eq fun_eq_iff)

lemma for_loop_write3_outer:
  "for_loop n (\<lambda>i a. (\<lambda>i' j' k'. if i' = i \<and> Q j' k' then f i j' k' else a i' j' k')) a
     = (\<lambda>i' j' k'. if i' < n \<and> Q j' k' then f i' j' k' else a i' j' k')"
  by (induction n) (auto simp: less_Suc_eq fun_eq_iff)

lemma copy3:
  "for_loop n (\<lambda>i a. for_loop m (\<lambda>j a. for_loop l (\<lambda>k a. upd3 a i j k (f i j k)) a) a) a
     = (\<lambda>i j k. if i < n \<and> j < m \<and> k < l then f i j k else a i j k)"
  by (simp add: for_loop_write3 for_loop_write3_mid for_loop_write3_outer
      [where Q = "\<lambda>j k. j < m \<and> k < l"])

lemma upd4_write3:
  "for_loop n (\<lambda>j a. for_loop m (\<lambda>k a. for_loop l (\<lambda>x a. upd4 a i j k x (f j k x)) a) a) a
     = a(i := for_loop n (\<lambda>j a. for_loop m (\<lambda>k a. for_loop l (\<lambda>x a. upd3 a j k x (f j k x)) a) a) (a i))"
proof -
  note keep = fun_upd_same fun_upd_upd
  have 1: "for_loop l (\<lambda>x a. upd4 a i j k x (g x)) a = a(i := for_loop l (\<lambda>x a. upd3 a j k x (g x)) (a i))"
    for j k g and a :: "nat \<Rightarrow> nat \<Rightarrow> nat \<Rightarrow> nat \<Rightarrow> 'a"
    by (induction l) (simp_all only: for_loop_0 for_loop_Suc upd4_def keep fun_upd_triv)
  have 2: "for_loop m (\<lambda>k a. a(i := h k (a i))) a = a(i := for_loop m h (a i))"
    for h and a :: "nat \<Rightarrow> nat \<Rightarrow> nat \<Rightarrow> nat \<Rightarrow> 'a" and m
    by (induction m) (simp_all only: for_loop_0 for_loop_Suc keep fun_upd_triv)
  have 3: "for_loop m (\<lambda>k a. a(i := for_loop l (\<lambda>x a. upd3 a j k x (f j k x)) (a i))) a
      = a(i := for_loop m (\<lambda>k. for_loop l (\<lambda>x a. upd3 a j k x (f j k x))) (a i))"
    for j and a :: "nat \<Rightarrow> nat \<Rightarrow> nat \<Rightarrow> nat \<Rightarrow> 'a" by (rule 2)
  show ?thesis unfolding 1 3 by (rule 2)
qed

lemma copy4:
  "for_loop q (\<lambda>h a. for_loop n (\<lambda>i a. for_loop m (\<lambda>j a. for_loop l (\<lambda>k a.
       upd4 a h i j k (f h i j k)) a) a) a) a
     = (\<lambda>h i j k. if h < q \<and> i < n \<and> j < m \<and> k < l then f h i j k else a h i j k)"
  by (induction q) (auto simp: upd4_write3 copy3 less_Suc_eq fun_eq_iff)

text \<open>Loops that add to an array of two indices.\<close>

lemma for_loop_acc:
  fixes T :: "nat \<Rightarrow> nat \<Rightarrow> nat \<Rightarrow> 'a :: comm_monoid_add"
  shows "for_loop n (\<lambda>k a. (\<lambda>o' i. if Q o' i then a o' i + T k o' i else a o' i)) a
     = (\<lambda>o' i. if Q o' i then a o' i + (\<Sum>k<n. T k o' i) else a o' i)"
  by (induction n) (auto simp: fun_eq_iff add.assoc)

lemma for_loop_acc_fun:
  fixes T :: "nat \<Rightarrow> nat \<Rightarrow> nat \<Rightarrow> 'a :: comm_monoid_add"
  shows "for_loop n (\<lambda>k a. (\<lambda>o' i. if Q o' i then a o' i + T k o' i else a o' i))
     = (\<lambda>a o' i. if Q o' i then a o' i + (\<Sum>k<n. T k o' i) else a o' i)"
  by (rule ext) (rule for_loop_acc)

lemma for_loop_acc_row:
  fixes T :: "nat \<Rightarrow> 'a :: comm_monoid_add"
  shows "for_loop n (\<lambda>i a. upd2 a r i (a r i + T i)) a
     = (\<lambda>o' i. if o' = r \<and> i < n then a o' i + T i else a o' i)"
  by (induction n) (auto simp: upd2_def less_Suc_eq fun_eq_iff)

lemma for_loop_acc_rows:
  fixes T :: "nat \<Rightarrow> nat \<Rightarrow> 'a :: comm_monoid_add"
  shows "for_loop m (\<lambda>r a. for_loop n (\<lambda>i a. upd2 a r i (a r i + T r i)) a) a
     = (\<lambda>o' i. if o' < m \<and> i < n then a o' i + T o' i else a o' i)"
  by (induction m) (auto simp: for_loop_acc_row less_Suc_eq fun_eq_iff)

lemma for_loop_acc_pair:
  fixes T U :: "nat \<Rightarrow> 'a :: comm_monoid_add"
  assumes "r \<noteq> q"
  shows "for_loop n (\<lambda>i a. let a = upd2 a r i (a r i + T i) in upd2 a q i (a q i + U i)) a
     = (\<lambda>o' i. if o' = r \<and> i < n then a o' i + T i
          else if o' = q \<and> i < n then a o' i + U i else a o' i)"
  using assms by (induction n) (auto simp: upd2_def less_Suc_eq fun_eq_iff Let_def)

text \<open>Rows in pairs.\<close>

lemma for_loop_acc_pairs:
  fixes T :: "nat \<Rightarrow> nat \<Rightarrow> 'a :: comm_monoid_add"
  shows "for_loop m (\<lambda>p a. for_loop n (\<lambda>i a.
        let a = upd2 a (p * 2) i (a (p * 2) i + T (p * 2) i)
        in upd2 a (p * 2 + 1) i (a (p * 2 + 1) i + T (p * 2 + 1) i)) a) a
     = (\<lambda>o' i. if o' < 2 * m \<and> i < n then a o' i + T o' i else a o' i)"
proof (induction m)
  case (Suc m)
  have ne: "m * 2 \<noteq> m * 2 + 1" by simp
  show ?case unfolding for_loop_Suc Suc for_loop_acc_pair [OF ne]
    by (auto simp: fun_eq_iff)
qed simp

text \<open>A sum in tiles, first over the lanes, then over the tiles.\<close>

lemma sum_lanes:
  fixes f :: "nat \<Rightarrow> 'a :: comm_monoid_add"
  shows "(\<Sum>i<p. \<Sum>k<m. f (k * p + i)) = (\<Sum>j<m * p. f j)"
proof -
  have "(\<Sum>k<m. \<Sum>i<p. f (k * p + i)) = (\<Sum>k<m. sum f {k * p..<k * p + p})"
  proof (rule sum.cong [OF refl])
    fix k
    have "(\<Sum>i<p. f (k * p + i)) = (\<Sum>i\<in>{0..<p}. f (i + k * p))" by (simp add: lessThan_atLeast0 add.commute)
    also have "\<dots> = sum f {k * p..<k * p + p}"
      using sum.shift_bounds_nat_ivl [of f 0 "k * p" p] by (simp add: add.commute)
    finally show "(\<Sum>i<p. f (k * p + i)) = sum f {k * p..<k * p + p}" .
  qed
  also have "\<dots> = (\<Sum>j<m * p. f j)" by (rule sum.nat_group)
  finally show ?thesis by (subst sum.swap) 
qed

end
