(* ===== verification/Engine_Arith.thy ===== *)
theory Engine_Arith
  imports Hls_Loops
begin

text \<open>
  The arithmetic of \<open>pl_db/hls/HW/classifier_engine.cpp\<close>: signed words of the declared widths
  for \<open>ap_int\<close>, the reduction trees, the packed multiplier and the requantisers. A value
  assigned to a narrower \<open>ap_int\<close> keeps its low bits (\<open>scast\<close>, \<open>ucast\<close>); operands are widened
  as far as the result can need.
\<close>

unbundle bit_operations_syntax

section \<open>Types\<close>

type_synonym act = "8 word"
type_synonym weight = "8 word"
type_synonym bias = "32 word"
type_synonym accum = "32 word"

definition K :: nat where "K = 3"
definition C0_PAD_SIZE :: nat where "C0_PAD_SIZE = 98"
definition C0_IN_CH :: nat where "C0_IN_CH = 3"
definition C0_OUT_CH :: nat where "C0_OUT_CH = 16"
definition C0_OUT_SIZE :: nat where "C0_OUT_SIZE = 96"
definition P0_OUT_SIZE :: nat where "P0_OUT_SIZE = 48"
definition C1_IN_CH :: nat where "C1_IN_CH = 16"
definition C1_OUT_CH :: nat where "C1_OUT_CH = 32"
definition C1_SIZE :: nat where "C1_SIZE = 48"
definition P1_OUT_SIZE :: nat where "P1_OUT_SIZE = 24"
definition C2_IN_CH :: nat where "C2_IN_CH = 32"
definition C2_OUT_CH :: nat where "C2_OUT_CH = 64"
definition C2_SIZE :: nat where "C2_SIZE = 24"
definition P2_OUT_SIZE :: nat where "P2_OUT_SIZE = 12"
definition C0_OC_PAR :: nat where "C0_OC_PAR = 2"
definition CS_IC_PAR :: nat where "CS_IC_PAR = 8"
definition C1_OC_PAR :: nat where "C1_OC_PAR = 16"
definition C2_OC_PAR :: nat where "C2_OC_PAR = 16"

lemmas layer_sizes = K_def C0_PAD_SIZE_def C0_IN_CH_def C0_OUT_CH_def C0_OUT_SIZE_def
  P0_OUT_SIZE_def C1_IN_CH_def C1_OUT_CH_def C1_SIZE_def P1_OUT_SIZE_def C2_IN_CH_def
  C2_OUT_CH_def C2_SIZE_def P2_OUT_SIZE_def C0_OC_PAR_def CS_IC_PAR_def C1_OC_PAR_def C2_OC_PAR_def

record requant =
  rq_multiplier :: "32 word"
  rq_shift :: "8 word"

section \<open>Operations\<close>

definition reduce8 :: "(nat \<Rightarrow> accum) \<Rightarrow> accum" where
  "reduce8 v = (let s01 = v 0 + v 1; s23 = v 2 + v 3; s45 = v 4 + v 5; s67 = v 6 + v 7;
                    s0123 = s01 + s23; s4567 = s45 + s67 in s0123 + s4567)"

text \<open>One multiplication for two products that share the operand \<open>a\<close>.\<close>

definition mac_pair :: "act \<Rightarrow> weight \<Rightarrow> weight \<Rightarrow> accum \<times> accum" where
  "mac_pair a w_lo w_hi =
     (let w_lo_biased = (ucast ((scast w_lo :: 9 word) + 128) :: 8 word);
          y = push_bit 16 (ucast (scast w_hi :: 9 word) :: 25 word) OR ucast w_lo_biased;
          p = (scast a :: 33 word) * scast y;
          lo16 = (ucast p :: 16 word);
          hi33 = (scast (signed_drop_bit 16 ((scast p :: 34 word) - scast lo16)) :: 33 word);
          prod_lo = (scast lo16 :: accum) - scast a * 128;
          prod_hi = (scast hi33 :: accum)
      in (prod_lo, prod_hi))"

definition reduce27 :: "(nat \<Rightarrow> accum) \<Rightarrow> accum" where
  "reduce27 p =
     (let s1 = for_loop 13 (\<lambda>i s. s(i := p (2 * i) + p (2 * i + 1))) (\<lambda>_. 0);
          s1 = s1(13 := p 26);
          s2 = for_loop 7 (\<lambda>i s. s(i := s1 (2 * i) + s1 (2 * i + 1))) (\<lambda>_. 0);
          s3 = for_loop 3 (\<lambda>i s. s(i := s2 (2 * i) + s2 (2 * i + 1))) (\<lambda>_. 0);
          s3 = s3(3 := s2 6);
          s4_0 = s3 0 + s3 1;
          s4_1 = s3 2 + s3 3
      in s4_0 + s4_1)"

definition tap :: "nat \<Rightarrow> nat \<Rightarrow> nat \<Rightarrow> nat" where
  "tap ky kx ic = (ky * K + kx) * C0_IN_CH + ic"

definition dot27 :: "(nat \<Rightarrow> nat \<Rightarrow> nat \<Rightarrow> act) \<Rightarrow> (nat \<Rightarrow> nat \<Rightarrow> nat \<Rightarrow> weight) \<Rightarrow> accum" where
  "dot27 px w = reduce27
     (for_loop K (\<lambda>ky. for_loop K (\<lambda>kx. for_loop C0_IN_CH (\<lambda>ic p.
        p(tap ky kx ic := scast (px ky kx ic) * scast (w ky kx ic))))) (\<lambda>_. 0))"

definition dot27_pair ::
  "(nat \<Rightarrow> nat \<Rightarrow> nat \<Rightarrow> act) \<Rightarrow> (nat \<Rightarrow> nat \<Rightarrow> nat \<Rightarrow> weight) \<Rightarrow> (nat \<Rightarrow> nat \<Rightarrow> nat \<Rightarrow> weight)
     \<Rightarrow> accum \<times> accum" where
  "dot27_pair px w_lo w_hi =
     (case for_loop K (\<lambda>ky. for_loop K (\<lambda>kx. for_loop C0_IN_CH (\<lambda>ic (p_lo, p_hi).
         case mac_pair (px ky kx ic) (w_lo ky kx ic) (w_hi ky kx ic) of (lo, hi) \<Rightarrow>
           (p_lo(tap ky kx ic := lo), p_hi(tap ky kx ic := hi))))) (\<lambda>_. 0, \<lambda>_. 0) of
        (p_lo, p_hi) \<Rightarrow> (reduce27 p_lo, reduce27 p_hi))"

definition requant_relu_c0 :: "accum \<Rightarrow> requant \<Rightarrow> act" where
  "requant_relu_c0 acc rq =
     (let scaled = (scast acc :: 64 word) * scast (rq_multiplier rq);
          requantized = (ucast (signed_drop_bit (unat (rq_shift rq)) scaled) :: 32 word);
          requantized = (if sint requantized < 0 then 0 else requantized);
          requantized = (if sint requantized > 127 then 127 else requantized)
      in ucast requantized)"

definition requant_relu_c1 :: "accum \<Rightarrow> requant \<Rightarrow> act" where
  "requant_relu_c1 acc rq =
     (let scaled = (scast acc :: 64 word) * scast (rq_multiplier rq);
          requantized = (ucast (signed_drop_bit (unat (rq_shift rq)) scaled) :: 32 word);
          requantized = (if sint requantized < 0 then 0 else requantized);
          requantized = (if sint requantized > 127 then 127 else requantized)
      in ucast requantized)"

definition requant_relu_c2 :: "accum \<Rightarrow> requant \<Rightarrow> act" where
  "requant_relu_c2 acc rq =
     (let scaled = (scast acc :: 64 word) * scast (rq_multiplier rq);
          requantized = (ucast (signed_drop_bit (unat (rq_shift rq)) scaled) :: 32 word);
          requantized = (if sint requantized < 0 then 0 else requantized);
          requantized = (if sint requantized > 127 then 127 else requantized)
      in ucast requantized)"

section \<open>Signed words as integers\<close>

lemma sint_range8: "- 128 \<le> sint (a :: 8 word)" "sint a \<le> 127"
  using sint_range_size [of a] by (simp_all add: word_size)

lemma sint_eq_of_range:
  fixes w :: "'a :: len word"
  assumes "w = word_of_int i" "- (2 ^ (LENGTH('a) - 1)) \<le> i" "i < 2 ^ (LENGTH('a) - 1)"
  shows "sint w = i"
  using assms by (simp add: sint_sbintrunc' signed_take_bit_int_eq_self)

lemma sum_upt: "(\<Sum>i<n. f i) = sum_list (map f [0..<n])"
  for f :: "nat \<Rightarrow> 'a :: comm_monoid_add"
  by (simp add: interv_sum_list_conv_sum_set_nat lessThan_atLeast0)

lemma upt_8: "[0..<8] = [0, 1, 2, 3, 4, 5, 6, 7]"
  and upt_27: "[0..<27] = [0, 1, 2, 3, 4, 5, 6, 7, 8, 9, 10, 11, 12, 13, 14, 15, 16, 17, 18, 19,
    20, 21, 22, 23, 24, 25, 26]"
  by code_simp+

lemma reduce8_sum: "reduce8 v = (\<Sum>i<8. v i)"
  by (simp add: reduce8_def Let_def sum_upt upt_8 ac_simps)

lemma reduce27_sum: "reduce27 p = (\<Sum>i<27. p i)"
  by (simp add: reduce27_def Let_def for_loop_write sum_upt upt_27 ac_simps del: One_nat_def)

text \<open>The packed operand: the two weights do not overlap.\<close>

lemma ucast_down_word_of_int:
  "LENGTH('b) \<le> LENGTH('a) \<Longrightarrow> (ucast (word_of_int x :: 'a :: len word) :: 'b :: len word) = word_of_int x"
  by transfer simp

lemma ucast_scast_down:
  "(ucast (w :: 64 word) :: 32 word) = word_of_int (sint w)"
proof -
  have "(ucast (word_of_int (sint w) :: 64 word) :: 32 word) = word_of_int (sint w)"
    by (rule ucast_down_word_of_int) simp
  then show ?thesis by (simp only: of_int_sint scast_id)
qed

lemma ucast_up_word_of_int:
  "0 \<le> x \<Longrightarrow> x < 2 ^ LENGTH('a) \<Longrightarrow> (ucast (word_of_int x :: 'a :: len word) :: 'b :: len word) = word_of_int x"
  by transfer (simp add: take_bit_int_eq_self)

lemma packed_operand:
  "sint (push_bit 16 (ucast (scast w_hi :: 9 word) :: 25 word)
      OR ucast (ucast ((scast (w_lo :: 8 word) :: 9 word) + 128) :: 8 word))
    = sint (w_hi :: 8 word) * 65536 + (sint w_lo + 128)"
proof -
  define l where "l = sint w_lo + 128"
  have l: "0 \<le> l" "l < 256" using sint_range8 [of w_lo] unfolding l_def by linarith+
  have "(scast w_lo :: 9 word) + 128 = word_of_int l"
    by (simp only: scast_eq of_int_add of_int_numeral l_def)
  then have lo: "(ucast (ucast ((scast w_lo :: 9 word) + 128) :: 8 word) :: 25 word) = word_of_int l"
    using l by (simp add: ucast_down_word_of_int ucast_up_word_of_int)
  have m: "h mod 512 * 65536 = h * 65536 mod 33554432" for h :: int
    using mod_mult_mult2 [of h 65536 512] by simp
  have shifted: "push_bit 16 (ucast (word_of_int h :: 9 word) :: 25 word) = word_of_int (h * 65536)" for h
    by transfer (simp add: push_bit_eq_mult take_bit_eq_mod m)
  have hi: "push_bit 16 (ucast (scast w_hi :: 9 word) :: 25 word) = word_of_int (sint w_hi * 65536)"
    by (simp only: scast_eq shifted)
  have "(word_of_int (sint w_hi * 65536) :: 25 word) = push_bit 16 (word_of_int (sint w_hi))"
    by (simp only: push_bit_eq_mult of_int_mult of_int_numeral) simp
  moreover have "(word_of_int l :: 25 word) = word_of_int (take_bit 8 l)"
    using l by (simp add: take_bit_int_eq_self)
  ultimately have "(word_of_int (sint w_hi * 65536) :: 25 word) AND word_of_int l = 0"
    by (simp only:) (auto intro!: bit_word_eqI simp: bit_simps)
  then have "(word_of_int (sint w_hi * 65536) :: 25 word) OR word_of_int l
      = word_of_int (sint w_hi * 65536 + l)"
    by (simp only: disjunctive_add_eq_or [symmetric] of_int_add)
  moreover have "sint (word_of_int (sint w_hi * 65536 + l) :: 25 word) = sint w_hi * 65536 + l"
    by (rule sint_eq_of_range [OF refl]) (use sint_range8 [of w_hi] l in simp_all)
  ultimately show ?thesis unfolding lo hi by (simp add: l_def)
qed

lemma abs_mult_bound:
  "\<bar>x\<bar> \<le> m \<Longrightarrow> \<bar>y\<bar> \<le> n \<Longrightarrow> \<bar>x * y\<bar> \<le> m * n" for x y m n :: int
  by (simp add: abs_mult mult_mono)

lemma word_of_int_sint_cast:
  "(ucast (word_of_int x :: 33 word) :: 16 word) = word_of_int x"
  by (rule ucast_down_word_of_int) simp

lemma mac_pair_products: "mac_pair a w_lo w_hi = (scast a * scast w_lo, scast a * scast w_hi)"
proof -
  define A H L where "A = sint a" and "H = sint w_hi" and "L = sint w_lo + 128"
  have A: "- 128 \<le> A" "A \<le> 127" and H: "- 128 \<le> H" "H \<le> 127" and L: "0 \<le> L" "L \<le> 255"
    using sint_range8 [of a] sint_range8 [of w_hi] sint_range8 [of w_lo]
    unfolding A_def H_def L_def by linarith+
  have "\<bar>A * L\<bar> \<le> 128 * 255" "\<bar>A * H\<bar> \<le> 128 * 128"
    by (rule abs_mult_bound; use A H L in linarith)+
  then have AL: "- 32640 \<le> A * L" "A * L \<le> 32640" and AH: "- 16384 \<le> A * H" "A * H \<le> 16384"
    by linarith+
  define y where "y = push_bit 16 (ucast (scast w_hi :: 9 word) :: 25 word)
      OR ucast (ucast ((scast w_lo :: 9 word) + 128) :: 8 word)"
  have y: "sint y = H * 65536 + L" unfolding y_def packed_operand by (simp add: H_def L_def)
  define p where "p = (scast a :: 33 word) * scast y"
  have p: "p = word_of_int (A * H * 65536 + A * L)"
    unfolding p_def scast_eq y of_int_mult [symmetric] by (simp only: A_def [symmetric] algebra_simps)
  have sp: "sint p = A * H * 65536 + A * L"
    by (rule sint_eq_of_range [OF p]) (use AL AH in simp_all)
  define lo16 where "lo16 = (ucast p :: 16 word)"
  have "lo16 = word_of_int (A * H * 65536 + A * L)"
    unfolding lo16_def p by (rule word_of_int_sint_cast)
  also have "\<dots> = word_of_int (A * L)" by transfer (simp add: take_bit_eq_mod)
  finally have lo: "sint lo16 = A * L" by (rule sint_eq_of_range) (use AL in simp_all)
  have "(scast p :: 34 word) - scast lo16 = word_of_int (A * H * 65536)"
    unfolding scast_eq sp lo of_int_diff [symmetric] by simp
  then have "sint ((scast p :: 34 word) - scast lo16) = A * H * 65536"
    by (rule sint_eq_of_range) (use AH in simp_all)
  then have "sint (signed_drop_bit 16 ((scast p :: 34 word) - scast lo16)) = A * H"
    by (simp add: sint_signed_drop_bit_eq drop_bit_eq_div)
  then have hi: "sint (scast (signed_drop_bit 16 ((scast p :: 34 word) - scast lo16)) :: 33 word) = A * H"
    by (intro sint_eq_of_range [OF trans [OF scast_eq]]) (use AH in simp_all)
  have "(scast (scast (signed_drop_bit 16 ((scast p :: 34 word) - scast lo16)) :: 33 word) :: accum)
      = word_of_int (A * H)" by (subst scast_eq) (simp only: hi)
  also have "\<dots> = scast a * scast w_hi" by (simp only: A_def H_def of_int_mult scast_eq)
  finally have prod_hi: "(scast (scast (signed_drop_bit 16 ((scast p :: 34 word) - scast lo16)) :: 33 word) :: accum)
      = scast a * scast w_hi" .
  have "(scast lo16 :: accum) = word_of_int (A * L)" by (subst scast_eq) (simp only: lo)
  also have "\<dots> = scast a * scast w_lo + scast a * 128"
    by (simp only: A_def L_def of_int_mult of_int_add of_int_numeral scast_eq ring_distribs)
  finally have "(scast lo16 :: accum) - scast a * 128 = scast a * scast w_lo" by simp
  then show ?thesis
    by (simp only: mac_pair_def Let_def y_def [symmetric] p_def [symmetric] lo16_def [symmetric] prod_hi)
qed

section \<open>Dot products\<close>

text \<open>The flat index of a tap runs through 0 to 26 in the order of the loops.\<close>

lemma tap_loops:
  "for_loop K (\<lambda>ky. for_loop K (\<lambda>kx. for_loop C0_IN_CH (\<lambda>ic. body (tap ky kx ic)))) s
     = for_loop 27 body s"
proof -
  have flat: "for_loop 3 (\<lambda>ky. for_loop 3 (\<lambda>kx. for_loop 3 (\<lambda>ic. body ((ky * 3 + kx) * 3 + ic)))) s
      = for_loop (3 * 3) (\<lambda>k. for_loop 3 (\<lambda>ic. body (k * 3 + ic))) s"
    by (rule for_loop_tile)
  show ?thesis unfolding tap_def K_def C0_IN_CH_def flat for_loop_tile by simp
qed

definition untap :: "(nat \<Rightarrow> nat \<Rightarrow> nat \<Rightarrow> 'a) \<Rightarrow> nat \<Rightarrow> 'a" where
  "untap f i = f (i div 9) (i div 3 mod 3) (i mod 3)"

lemma untap_tap: "kx < K \<Longrightarrow> ic < C0_IN_CH \<Longrightarrow> untap f (tap ky kx ic) = f ky kx ic"
proof -
  assume "kx < K" "ic < C0_IN_CH"
  then have split: "(X * 3 + ic) div 3 = X" "(X * 3 + ic) mod 3 = ic" "(Y * 3 + kx) div 3 = Y" "(Y * 3 + kx) mod 3 = kx"
    for X Y by (simp_all add: K_def C0_IN_CH_def)
  have "tap ky kx ic div 3 = ky * 3 + kx" "tap ky kx ic mod 3 = ic"
    unfolding tap_def K_def C0_IN_CH_def by (simp_all only: split)
  moreover have "tap ky kx ic div 9 = ky"
    using div_mult2_eq [of "tap ky kx ic" 3 3] calculation(1) split(3) [of ky] by simp
  ultimately show ?thesis using split(4) [of ky] by (simp add: untap_def)
qed

lemma sum_untap:
  fixes f :: "nat \<Rightarrow> nat \<Rightarrow> nat \<Rightarrow> 'a :: comm_monoid_add"
  shows "(\<Sum>i<27. untap f i) = (\<Sum>ky<K. \<Sum>kx<K. \<Sum>ic<C0_IN_CH. f ky kx ic)"
proof -
  have "[0..<3] = [0, 1, 2 :: nat]" by code_simp
  then show ?thesis
    by (simp add: sum_upt upt_27 untap_def K_def C0_IN_CH_def) (simp add: numeral_eq_Suc ac_simps)
qed

lemma tap_products:
  "for_loop K (\<lambda>ky. for_loop K (\<lambda>kx. for_loop C0_IN_CH (\<lambda>ic p. p(tap ky kx ic := f ky kx ic)))) p
     = (\<lambda>i. if i < 27 then untap f i else p i)"
proof -
  have "for_loop K (\<lambda>ky. for_loop K (\<lambda>kx. for_loop C0_IN_CH (\<lambda>ic p. p(tap ky kx ic := f ky kx ic)))) p
     = for_loop K (\<lambda>ky. for_loop K (\<lambda>kx. for_loop C0_IN_CH (\<lambda>ic p.
         p(tap ky kx ic := untap f (tap ky kx ic))))) p"
    by (intro for_loop_cong refl) (simp add: untap_tap)
  then show ?thesis
    unfolding tap_loops [where body = "\<lambda>i p. p(i := untap f i)"] for_loop_write .
qed

lemma dot27_sum:
  "dot27 px w = (\<Sum>ky<K. \<Sum>kx<K. \<Sum>ic<C0_IN_CH. scast (px ky kx ic) * scast (w ky kx ic))"
  unfolding dot27_def tap_products reduce27_sum
  by (subst sum_untap [symmetric]) (rule sum.cong, auto simp: untap_def)

lemma dot27_pair_dots: "dot27_pair px w_lo w_hi = (dot27 px w_lo, dot27 px w_hi)"
proof -
  have inner: "for_loop n (\<lambda>ic (p, q). (p(t ic := f ic), q(t ic := g ic))) (p, q)
      = (for_loop n (\<lambda>ic p. p(t ic := f ic)) p, for_loop n (\<lambda>ic q. q(t ic := g ic)) q)"
    for n and t :: "nat \<Rightarrow> nat" and f g :: "nat \<Rightarrow> accum" and p q
    by (induction n) simp_all
  have pair: "for_loop n (\<lambda>k (p, q). (F k p, G k q)) (p, q) = (for_loop n F p, for_loop n G q)"
    for n and F G :: "nat \<Rightarrow> (nat \<Rightarrow> accum) \<Rightarrow> nat \<Rightarrow> accum" and p q
    by (induction n) simp_all
  have eta: "for_loop n (\<lambda>ic (p, q). (p(t ic := f ic), q(t ic := g ic)))
      = (\<lambda>(p, q). (for_loop n (\<lambda>ic p. p(t ic := f ic)) p, for_loop n (\<lambda>ic q. q(t ic := g ic)) q))"
    for n and t :: "nat \<Rightarrow> nat" and f g :: "nat \<Rightarrow> accum" by (rule ext) (auto simp: inner)
  have eta2: "for_loop n (\<lambda>k (p, q). (F k p, G k q)) = (\<lambda>(p, q). (for_loop n F p, for_loop n G q))"
    for n and F G :: "nat \<Rightarrow> (nat \<Rightarrow> accum) \<Rightarrow> nat \<Rightarrow> accum" by (rule ext) (auto simp: pair)
  show ?thesis unfolding dot27_pair_def mac_pair_products prod.case eta eta2 dot27_def ..
qed

section \<open>Requantisation\<close>

lemma requant_same: "requant_relu_c1 = requant_relu_c0" "requant_relu_c2 = requant_relu_c0"
  by (rule ext, rule ext, simp only: requant_relu_c0_def requant_relu_c1_def requant_relu_c2_def)+

lemma requant_clamps:
  "sint (requant_relu_c0 acc rq) = max 0 (min 127
     (sint (ucast (signed_drop_bit (unat (rq_shift rq)) ((scast acc :: 64 word) * scast (rq_multiplier rq))) :: 32 word)))"
proof -
  have "sint (ucast r :: 8 word) = sint r" if "0 \<le> sint r" "sint r \<le> 127" for r :: "32 word"
  proof -
    have "(ucast (word_of_int (sint r) :: 32 word) :: 8 word) = word_of_int (sint r)"
      by (rule ucast_down_word_of_int) simp
    then have "(ucast r :: 8 word) = word_of_int (sint r)" by (simp only: of_int_sint scast_id)
    then show ?thesis by (rule sint_eq_of_range) (use that in simp_all)
  qed
  then show ?thesis by (auto simp: requant_relu_c0_def Let_def)
qed

text \<open>The multiplier is a factor of at most one: nothing wraps.\<close>

definition rq_ok :: "requant \<Rightarrow> bool" where
  "rq_ok rq \<longleftrightarrow> 0 \<le> sint (rq_multiplier rq) \<and> sint (rq_multiplier rq) \<le> 2 ^ unat (rq_shift rq)"

lemma requant_int:
  assumes "rq_ok rq"
  shows "sint (requant_relu_c0 acc rq)
     = max 0 (min 127 (sint acc * sint (rq_multiplier rq) div 2 ^ unat (rq_shift rq)))"
proof -
  define A M where "A = sint acc" and "M = sint (rq_multiplier rq)"
  let ?s = "unat (rq_shift rq)"
  have A: "- (2 ^ 31) \<le> A" "A < 2 ^ 31" and M: "0 \<le> M" "M \<le> 2 ^ ?s" "M \<le> 2 ^ 31"
    using sint_range_size [of acc] sint_range_size [of "rq_multiplier rq"] assms
    by (simp_all add: A_def M_def rq_ok_def word_size)
  have "\<bar>A * M\<bar> \<le> 2 ^ 31 * 2 ^ 31" by (rule abs_mult_bound) (use A M in linarith)+
  then have AM: "sint ((scast acc :: 64 word) * scast (rq_multiplier rq)) = A * M"
    by (intro sint_eq_of_range) (simp_all only: scast_eq of_int_mult A_def M_def, simp_all)
  have b: "(0 :: int) < 2 ^ ?s" by simp
  have "A * M \<le> (2 ^ 31 - 1) * M" by (rule mult_right_mono) (use A M in simp_all)
  also have "\<dots> \<le> (2 ^ 31 - 1) * 2 ^ ?s" by (rule mult_left_mono [OF M(2)]) simp
  finally have hi: "A * M \<le> (2 ^ 31 - 1) * 2 ^ ?s" .
  have "- (2 ^ 31) * 2 ^ ?s \<le> - (2 ^ 31) * M" by (rule mult_left_mono_neg [OF M(2)]) simp
  also have "\<dots> \<le> A * M" by (rule mult_right_mono) (use A M in simp_all)
  finally have lo: "- (2 ^ 31) * 2 ^ ?s \<le> A * M" .
  from zdiv_mono1 [OF lo b] zdiv_mono1 [OF hi b]
  have range: "- (2 ^ 31) \<le> A * M div 2 ^ ?s" "A * M div 2 ^ ?s \<le> 2 ^ 31 - 1"
    unfolding nonzero_mult_div_cancel_right [OF less_imp_neq [OF b, symmetric]] .
  then have "sint (word_of_int (A * M div 2 ^ ?s) :: 32 word) = A * M div 2 ^ ?s"
    by (intro sint_eq_of_range [OF refl]) simp_all
  moreover have "(ucast (signed_drop_bit ?s ((scast acc :: 64 word) * scast (rq_multiplier rq))) :: 32 word)
      = word_of_int (A * M div 2 ^ ?s)"
  proof -
    have "sint (signed_drop_bit ?s ((scast acc :: 64 word) * scast (rq_multiplier rq))) = A * M div 2 ^ ?s"
      by (simp only: sint_signed_drop_bit_eq AM drop_bit_eq_div)
    then show ?thesis
      by (metis ucast_scast_down)
  qed
  ultimately have "sint (ucast (signed_drop_bit ?s ((scast acc :: 64 word) * scast (rq_multiplier rq))) :: 32 word)
      = A * M div 2 ^ ?s" by simp
  then show ?thesis unfolding requant_clamps by (simp add: A_def M_def)
qed

section \<open>Properties\<close>

text \<open>
  One DSP multiplication gives two exact products. For all operands, the packed product of
  \<open>mac_pair\<close> splits into exactly the two signed 8 x 8 products, with no carry from one field
  into the other.
\<close>

theorem mac_pair_exact:
  "map_prod sint sint (mac_pair a w_lo w_hi) = (sint a * sint w_lo, sint a * sint w_hi)"
proof -
  have "sint ((scast a :: accum) * scast w) = sint a * sint w" for w :: weight
  proof (rule sint_eq_of_range)
    show "(scast a :: accum) * scast w = word_of_int (sint a * sint w)" by (simp only: scast_eq of_int_mult)
    have "\<bar>sint a * sint w\<bar> \<le> 128 * 128"
      by (rule abs_mult_bound) (use sint_range8 [of a] sint_range8 [of w] in linarith)+
    then show "- (2 ^ (LENGTH(32) - 1)) \<le> sint a * sint w" "sint a * sint w < 2 ^ (LENGTH(32) - 1)"
      by simp_all
  qed
  then show ?thesis by (simp add: mac_pair_products)
qed

text \<open>Without the bound on the multiplier the clamp comes too late: the cut to 32 bits wraps.\<close>

lemma requant_wraps:
  "requant_relu_c0 0x10000 \<lparr>rq_multiplier = 0x10000, rq_shift = 0\<rparr> = 0"
  "0x10000 * 0x10000 div 2 ^ 0 > (127 :: int)"
  by (simp_all add: requant_relu_c0_def Let_def)

end
