(* ===== verification/Classifier_Engine.thy ===== *)
theory Classifier_Engine
  imports Engine_Arith
begin

text \<open>
  The layers of \<open>pl_db/hls/HW/classifier_engine.cpp\<close>: three convolutions fused with their
  pooling through two-row buffers, and \<open>classifier_top\<close>. The \<open>static\<close> buffers keep what an
  earlier call left in them, so they are arguments; small local arrays that an unrolled loop fills
  are functions of the loop's index.
\<close>

type_synonym 'a arr3 = "nat \<Rightarrow> nat \<Rightarrow> nat \<Rightarrow> 'a"
type_synonym 'a arr4 = "nat \<Rightarrow> nat \<Rightarrow> nat \<Rightarrow> nat \<Rightarrow> 'a"

section \<open>Pooling of a row pair\<close>

definition pool4 :: "act \<Rightarrow> act \<Rightarrow> act \<Rightarrow> act \<Rightarrow> act" where
  "pool4 v00 v01 v10 v11 =
     (let m = v00;
          m = (if sint v01 > sint m then v01 else m);
          m = (if sint v10 > sint m then v10 else m);
          m = (if sint v11 > sint m then v11 else m)
      in m)"

definition pool_row ::
  "nat \<Rightarrow> nat \<Rightarrow> act arr3 \<Rightarrow> nat \<Rightarrow> act arr3 \<Rightarrow> act arr3" where
  "pool_row cols chans row_buf out_row pooled_out =
     for_loop cols (\<lambda>out_col. for_loop chans (\<lambda>c pooled_out.
       upd3 pooled_out out_row out_col c
         (pool4 (row_buf 0 (out_col * 2) c) (row_buf 0 (out_col * 2 + 1) c)
                (row_buf 1 (out_col * 2) c) (row_buf 1 (out_col * 2 + 1) c)))) pooled_out"

section \<open>conv0\<close>

definition conv0_pixel ::
  "act arr3 \<Rightarrow> weight arr4 \<Rightarrow> (nat \<Rightarrow> bias) \<Rightarrow> requant \<Rightarrow> nat \<Rightarrow> nat \<Rightarrow> act arr3 \<Rightarrow> act arr3" where
  "conv0_pixel ifmap_local w_local b rq oy ox row_buf =
     for_step C0_OUT_CH C0_OC_PAR (\<lambda>oc_base row_buf.
       let px = (\<lambda>ky kx ic. ifmap_local (oy + ky) (ox + kx) ic) in
       for_loop C0_OC_PAR (\<lambda>lane row_buf.
         let wr = (\<lambda>ky kx ic. w_local (oc_base + lane) ic ky kx);
             acc = b (oc_base + lane) + dot27 px wr
         in upd3 row_buf (oy mod 2) ox (oc_base + lane) (requant_relu_c0 acc rq)) row_buf) row_buf"

definition conv0_pool0_fused ::
  "act arr3 \<Rightarrow> weight arr4 \<Rightarrow> act arr3 \<Rightarrow> act arr3 \<Rightarrow> weight arr4 \<Rightarrow> (nat \<Rightarrow> bias) \<Rightarrow> requant
     \<Rightarrow> act arr3 \<Rightarrow> act arr3" where
  "conv0_pool0_fused ifmap_local w_local row_buf ifmap w b rq pooled_out =
     (let ifmap_local = for_loop C0_PAD_SIZE (\<lambda>y. for_loop C0_PAD_SIZE (\<lambda>x. for_loop C0_IN_CH (\<lambda>c a.
            upd3 a y x c (ifmap y x c)))) ifmap_local;
          w_local = for_loop C0_OUT_CH (\<lambda>oc. for_loop C0_IN_CH (\<lambda>ic. for_loop K (\<lambda>ky. for_loop K (\<lambda>kx a.
            upd4 a oc ic ky kx (w oc ic ky kx))))) w_local
      in snd (for_loop C0_OUT_SIZE (\<lambda>oy (row_buf, pooled_out).
           let row_buf = for_loop C0_OUT_SIZE (\<lambda>ox. conv0_pixel ifmap_local w_local b rq oy ox) row_buf
           in (row_buf, if oy mod 2 = 1 then pool_row P0_OUT_SIZE C0_OUT_CH row_buf (oy div 2) pooled_out
                        else pooled_out)) (row_buf, pooled_out)))"

section \<open>The SAME convolutions\<close>

text \<open>The pixel lanes that one step loads: the padding is zero.\<close>

definition same_px :: "nat \<Rightarrow> act arr3 \<Rightarrow> nat \<Rightarrow> nat \<Rightarrow> nat \<Rightarrow> nat \<Rightarrow> nat \<Rightarrow> nat \<Rightarrow> act" where
  "same_px sz ifmap oy ox ky kx ic_base i =
     (let iy = int oy - 1 + int ky; ix = int ox - 1 + int kx;
          in_bounds = (iy \<ge> 0 \<and> iy < int sz \<and> ix \<ge> 0 \<and> ix < int sz)
      in if in_bounds then ifmap (nat iy) (nat ix) (ic_base + i) else 0)"

text \<open>The generic layer: one product per multiplication.\<close>

definition conv_same_pixel ::
  "nat \<Rightarrow> nat \<Rightarrow> nat \<Rightarrow> nat \<Rightarrow> act arr3 \<Rightarrow> weight arr4 \<Rightarrow> (nat \<Rightarrow> bias) \<Rightarrow> requant
     \<Rightarrow> nat \<Rightarrow> nat \<Rightarrow> act arr3 \<Rightarrow> act arr3" where
  "conv_same_pixel in_ch out_ch sz oc_par ifmap w_local b rq oy ox ofmap =
     for_step out_ch oc_par (\<lambda>oc_base ofmap.
       let partial = for_loop oc_par (\<lambda>o'. for_loop CS_IC_PAR (\<lambda>i a. upd2 a o' i 0)) (\<lambda>_ _. 0);
           partial = for_loop K (\<lambda>ky. for_loop K (\<lambda>kx. for_step in_ch CS_IC_PAR (\<lambda>ic_base.
             for_loop oc_par (\<lambda>o'. for_loop CS_IC_PAR (\<lambda>i a.
               upd2 a o' i (a o' i + scast (same_px sz ifmap oy ox ky kx ic_base i)
                 * scast (w_local (oc_base + o') ky kx (ic_base + i)))))))) partial
       in for_loop oc_par (\<lambda>o' ofmap.
            let acc = b (oc_base + o') + reduce8 (partial o')
            in upd3 ofmap oy ox (oc_base + o') (requant_relu_c2 acc rq)) ofmap) ofmap"

definition conv_same_parallel ::
  "nat \<Rightarrow> nat \<Rightarrow> nat \<Rightarrow> nat \<Rightarrow> weight arr4 \<Rightarrow> act arr3 \<Rightarrow> weight arr4 \<Rightarrow> (nat \<Rightarrow> bias) \<Rightarrow> requant
     \<Rightarrow> act arr3 \<Rightarrow> act arr3" where
  "conv_same_parallel in_ch out_ch sz oc_par w_local ifmap w b rq ofmap =
     (let w_local = for_loop out_ch (\<lambda>oc. for_loop K (\<lambda>ky. for_loop K (\<lambda>kx. for_loop in_ch (\<lambda>ic a.
            upd4 a oc ky kx ic (w oc ky kx ic))))) w_local
      in for_loop sz (\<lambda>oy. for_loop sz (\<lambda>ox.
           conv_same_pixel in_ch out_ch sz oc_par ifmap w_local b rq oy ox)) ofmap)"

text \<open>
  The sums of one block of output channels, two channels per multiplication. The code of conv1
  and conv2 differs in the sizes and the requantiser only.
\<close>

definition packed_partial ::
  "nat \<Rightarrow> nat \<Rightarrow> nat \<Rightarrow> act arr3 \<Rightarrow> weight arr4 \<Rightarrow> nat \<Rightarrow> nat \<Rightarrow> nat \<Rightarrow> nat \<Rightarrow> nat \<Rightarrow> accum" where
  "packed_partial in_ch sz oc_par ifmap w_local oy ox oc_base =
     (let partial = for_loop oc_par (\<lambda>o'. for_loop CS_IC_PAR (\<lambda>i a. upd2 a o' i 0)) (\<lambda>_ _. 0)
      in for_loop K (\<lambda>ky. for_loop K (\<lambda>kx. for_step in_ch CS_IC_PAR (\<lambda>ic_base.
           for_loop (oc_par div 2) (\<lambda>op. for_loop CS_IC_PAR (\<lambda>i a.
             case mac_pair (same_px sz ifmap oy ox ky kx ic_base i)
                    (w_local (oc_base + op * 2) ky kx (ic_base + i))
                    (w_local (oc_base + (op * 2 + 1)) ky kx (ic_base + i)) of (prod_lo, prod_hi) \<Rightarrow>
               let a = upd2 a (op * 2) i (a (op * 2) i + prod_lo)
               in upd2 a (op * 2 + 1) i (a (op * 2 + 1) i + prod_hi)))))) partial)"

definition conv1_pool1_fused ::
  "weight arr4 \<Rightarrow> act arr3 \<Rightarrow> act arr3 \<Rightarrow> weight arr4 \<Rightarrow> (nat \<Rightarrow> bias) \<Rightarrow> requant
     \<Rightarrow> act arr3 \<Rightarrow> act arr3" where
  "conv1_pool1_fused w_local row_buf ifmap w b rq pooled_out =
     (let w_local = for_loop C1_OUT_CH (\<lambda>oc. for_loop K (\<lambda>ky. for_loop K (\<lambda>kx. for_loop C1_IN_CH (\<lambda>ic a.
            upd4 a oc ky kx ic (w oc ky kx ic))))) w_local
      in snd (for_loop C1_SIZE (\<lambda>oy (row_buf, pooled_out).
           let row_buf = for_loop C1_SIZE (\<lambda>ox. for_step C1_OUT_CH C1_OC_PAR (\<lambda>oc_base row_buf.
                 let partial = packed_partial C1_IN_CH C1_SIZE C1_OC_PAR ifmap w_local oy ox oc_base
                 in for_loop C1_OC_PAR (\<lambda>o' row_buf.
                      let acc = b (oc_base + o') + reduce8 (partial o')
                      in upd3 row_buf (oy mod 2) ox (oc_base + o') (requant_relu_c1 acc rq)) row_buf)) row_buf
           in (row_buf, if oy mod 2 = 1 then pool_row P1_OUT_SIZE C1_OUT_CH row_buf (oy div 2) pooled_out
                        else pooled_out)) (row_buf, pooled_out)))"

definition conv2_pool2_fused ::
  "weight arr4 \<Rightarrow> act arr3 \<Rightarrow> act arr3 \<Rightarrow> weight arr4 \<Rightarrow> (nat \<Rightarrow> bias) \<Rightarrow> requant
     \<Rightarrow> act arr3 \<Rightarrow> act arr3" where
  "conv2_pool2_fused w_local row_buf ifmap w b rq out =
     (let w_local = for_loop C2_OUT_CH (\<lambda>oc. for_loop K (\<lambda>ky. for_loop K (\<lambda>kx. for_loop C2_IN_CH (\<lambda>ic a.
            upd4 a oc ky kx ic (w oc ky kx ic))))) w_local
      in snd (for_loop C2_SIZE (\<lambda>oy (row_buf, out).
           let br = oy mod 2;
               row_buf = for_loop C2_SIZE (\<lambda>ox. for_step C2_OUT_CH C2_OC_PAR (\<lambda>ob row_buf.
                 let partial = packed_partial C2_IN_CH C2_SIZE C2_OC_PAR ifmap w_local oy ox ob
                 in for_loop C2_OC_PAR (\<lambda>o' row_buf.
                      upd3 row_buf br ox (ob + o')
                        (requant_relu_c2 (b (ob + o') + reduce8 (partial o')) rq)) row_buf)) row_buf
           in (row_buf, if br = 1 then pool_row P2_OUT_SIZE C2_OUT_CH row_buf (oy div 2) out
                        else out)) (row_buf, out)))"

section \<open>The top function\<close>

text \<open>What the static storage of the engine holds when it is called.\<close>

record engine_mem =
  c0_ifmap :: "act arr3"
  c0_w :: "weight arr4"
  c0_rows :: "act arr3"
  c1_w :: "weight arr4"
  c1_rows :: "act arr3"
  c2_w :: "weight arr4"
  c2_rows :: "act arr3"
  fmap0p :: "act arr3"
  fmap1p :: "act arr3"

record layer =
  weights :: "weight arr4"
  biases :: "nat \<Rightarrow> bias"
  requantizer :: requant

definition classifier_top ::
  "engine_mem \<Rightarrow> act arr3 \<Rightarrow> layer \<Rightarrow> layer \<Rightarrow> layer \<Rightarrow> act arr3 \<Rightarrow> act arr3" where
  "classifier_top M ifmap_padded l0 l1 l2 out =
     (let f0 = conv0_pool0_fused (c0_ifmap M) (c0_w M) (c0_rows M) ifmap_padded
                 (weights l0) (biases l0) (requantizer l0) (fmap0p M);
          f1 = conv1_pool1_fused (c1_w M) (c1_rows M) f0
                 (weights l1) (biases l1) (requantizer l1) (fmap1p M)
      in conv2_pool2_fused (c2_w M) (c2_rows M) f1
           (weights l2) (biases l2) (requantizer l2) out)"
section \<open>The network as it is meant\<close>

text \<open>
  A convolution over a picture that carries its border, the border of a SAME convolution, and
  maximum pooling; first over the machine words.
\<close>

definition conv_valid ::
  "nat \<Rightarrow> act arr3 \<Rightarrow> weight arr4 \<Rightarrow> (nat \<Rightarrow> bias) \<Rightarrow> requant \<Rightarrow> act arr3" where
  "conv_valid in_ch img w b rq oy ox oc = requant_relu_c0
     (b oc + (\<Sum>ky<K. \<Sum>kx<K. \<Sum>ic<in_ch. scast (img (oy + ky) (ox + kx) ic) * scast (w oc ky kx ic))) rq"

definition pad_same :: "nat \<Rightarrow> 'a :: zero arr3 \<Rightarrow> 'a arr3" where
  "pad_same sz img y x c =
     (if 1 \<le> y \<and> y \<le> sz \<and> 1 \<le> x \<and> x \<le> sz then img (y - 1) (x - 1) c else 0)"

definition max_pool :: "act arr3 \<Rightarrow> act arr3" where
  "max_pool f y x c = pool4 (f (2 * y) (2 * x) c) (f (2 * y) (2 * x + 1) c)
     (f (2 * y + 1) (2 * x) c) (f (2 * y + 1) (2 * x + 1) c)"

definition network :: "act arr3 \<Rightarrow> layer \<Rightarrow> layer \<Rightarrow> layer \<Rightarrow> act arr3" where
  "network img l0 l1 l2 =
     (let f0 = max_pool (conv_valid C0_IN_CH img (\<lambda>oc ky kx ic. weights l0 oc ic ky kx) (biases l0) (requantizer l0));
          f1 = max_pool (conv_valid C1_IN_CH (pad_same C1_SIZE f0) (weights l1) (biases l1) (requantizer l1))
      in max_pool (conv_valid C2_IN_CH (pad_same C2_SIZE f1) (weights l2) (biases l2) (requantizer l2)))"

section \<open>Streaming through the row buffer\<close>

lemma pool_row_closed:
  "pool_row cols chans rb r po = (\<lambda>y x c. if y = r \<and> x < cols \<and> c < chans
     then pool4 (rb 0 (x * 2) c) (rb 0 (x * 2 + 1) c) (rb 1 (x * 2) c) (rb 1 (x * 2 + 1) c) else po y x c)"
  unfolding pool_row_def for_loop_write3 for_loop_write3_mid ..

text \<open>
  Rows that are computed one after the other into two buffers and pooled after every second one
  give the pooled picture, whatever the buffers held.
\<close>

lemma stream_pool:
  assumes rows: "\<And>oy rb. rows oy rb
      = (\<lambda>r x c. if r = oy mod 2 \<and> x < 2 * n \<and> c < chans then F oy x c else rb r x c)"
  shows "snd (for_loop (2 * n) (\<lambda>oy (rb, po). let rb = rows oy rb
      in (rb, if oy mod 2 = 1 then pool_row n chans rb (oy div 2) po else po)) (rb, po))
    = (\<lambda>y x c. if y < n \<and> x < n \<and> c < chans then max_pool F y x c else po y x c)"
proof -
  let ?body = "\<lambda>oy (rb, po). let rb = rows oy rb
      in (rb, if oy mod 2 = 1 then pool_row n chans rb (oy div 2) po else po)"
  have "\<exists>rb'. for_loop (2 * m) ?body (rb, po)
      = (rb', \<lambda>y x c. if y < m \<and> x < n \<and> c < chans then max_pool F y x c else po y x c)" for m
  proof (induction m)
    case (Suc m)
    then obtain rb' where IH: "for_loop (2 * m) ?body (rb, po)
      = (rb', \<lambda>y x c. if y < m \<and> x < n \<and> c < chans then max_pool F y x c else po y x c)" by blast
    have two: "2 * Suc m = Suc (Suc (2 * m))" by simp
    show ?case unfolding two for_loop_Suc IH
      by (rule exI [of _ "rows (Suc (2 * m)) (rows (2 * m) rb')"]) (auto simp: Let_def rows pool_row_closed max_pool_def fun_eq_iff less_Suc_eq mult.commute [of 2])
  qed (auto simp: fun_eq_iff)
  then show ?thesis by (metis snd_conv)
qed

section \<open>The layers\<close>

lemma pixel_lanes:
  assumes "p dvd n" "0 < p"
  shows "for_step n p (\<lambda>ob rb. for_loop p (\<lambda>l rb. upd3 rb r ox (ob + l) (G (ob + l))) rb) rb
    = (\<lambda>r' x c. if r' = r \<and> x = ox \<and> c < n then G c else rb r' x c)"
  using for_step_tile [OF assms, of "\<lambda>c rb. upd3 rb r ox c (G c)" rb] by (simp add: for_loop_write3)

lemma row_closed:
  assumes "\<And>ox rb. pixel ox rb = (\<lambda>r' x c. if r' = r \<and> x = ox \<and> c < n then G ox c else rb r' x c)"
  shows "for_loop sz pixel rb = (\<lambda>r' x c. if r' = r \<and> x < sz \<and> c < n then G x c else rb r' x c)"
proof -
  have "pixel = (\<lambda>ox rb r' x c. if r' = r \<and> x = ox \<and> c < n then G ox c else rb r' x c)"
    using assms by (intro ext) simp
  then show ?thesis by (simp only: for_loop_write3_mid)
qed

lemma conv_valid_cong:
  assumes "\<And>y x c. y < oy + K \<Longrightarrow> x < ox + K \<Longrightarrow> c < in_ch \<Longrightarrow> img y x c = img' y x c"
    and "\<And>ky kx c. ky < K \<Longrightarrow> kx < K \<Longrightarrow> c < in_ch \<Longrightarrow> w oc ky kx c = w' oc ky kx c"
  shows "conv_valid in_ch img w b rq oy ox oc = conv_valid in_ch img' w' b rq oy ox oc"
proof -
  have "(\<Sum>ky<K. \<Sum>kx<K. \<Sum>ic<in_ch. (scast (img (oy + ky) (ox + kx) ic) :: accum) * scast (w oc ky kx ic))
      = (\<Sum>ky<K. \<Sum>kx<K. \<Sum>ic<in_ch. scast (img' (oy + ky) (ox + kx) ic) * scast (w' oc ky kx ic))"
    using assms by (intro sum.cong refl) simp
  then show ?thesis by (simp add: conv_valid_def)
qed

lemma same_px_padded: "same_px sz ifmap oy ox ky kx cb i = pad_same sz ifmap (oy + ky) (ox + kx) (cb + i)"
proof -
  have "int oy - 1 + int ky \<ge> 0 \<longleftrightarrow> 1 \<le> oy + ky" "int ox - 1 + int kx \<ge> 0 \<longleftrightarrow> 1 \<le> ox + kx"
    "int oy - 1 + int ky < int sz \<longleftrightarrow> oy + ky \<le> sz" "int ox - 1 + int kx < int sz \<longleftrightarrow> ox + kx \<le> sz"
    "nat (int oy - 1 + int ky) = oy + ky - 1" "nat (int ox - 1 + int kx) = ox + kx - 1"
    by auto
  then show ?thesis unfolding same_px_def Let_def pad_same_def by auto
qed

text \<open>Both schedules leave the same sums: each lane has the channels of its residue.\<close>

definition lane_sums ::
  "nat \<Rightarrow> nat \<Rightarrow> act arr3 \<Rightarrow> weight arr4 \<Rightarrow> nat \<Rightarrow> nat \<Rightarrow> nat \<Rightarrow> nat \<Rightarrow> nat \<Rightarrow> accum" where
  "lane_sums blocks sz ifmap w oy ox ob o' i = (\<Sum>ky<K. \<Sum>kx<K. \<Sum>kb<blocks.
     scast (pad_same sz ifmap (oy + ky) (ox + kx) (kb * CS_IC_PAR + i))
     * scast (w (ob + o') ky kx (kb * CS_IC_PAR + i)))"

lemma partial_zero:
  "for_loop m (\<lambda>o'. for_loop n (\<lambda>i a. upd2 a o' i 0)) (\<lambda>_ _. 0 :: accum) = (\<lambda>_ _. 0)"
proof -
  have "for_loop n (\<lambda>i a. upd2 a o' i 0) (\<lambda>_ _. 0 :: accum) = (\<lambda>_ _. 0)" for o'
    by (induction n) (auto simp: upd2_def fun_eq_iff)
  then show ?thesis by (induction m) auto
qed

lemma packed_partial_closed:
  assumes "even p"
  shows "packed_partial (blocks * CS_IC_PAR) sz p ifmap w oy ox ob
    = (\<lambda>o' i. if o' < p \<and> i < CS_IC_PAR then lane_sums blocks sz ifmap w oy ox ob o' i else 0)"
proof -
  have p: "2 * (p div 2) = p" using assms by simp
  have pos: "0 < CS_IC_PAR" by (simp add: CS_IC_PAR_def)
  let ?T = "\<lambda>ky kx k o' i. (scast (pad_same sz ifmap (oy + ky) (ox + kx) (k * CS_IC_PAR + i)) :: accum)
    * scast (w (ob + o') ky kx (k * CS_IC_PAR + i))"
  have step: "for_loop (p div 2) (\<lambda>op. for_loop CS_IC_PAR (\<lambda>i a.
       let a = upd2 a (op * 2) i (a (op * 2) i + ?T ky kx k (op * 2) i)
       in upd2 a (op * 2 + 1) i (a (op * 2 + 1) i + ?T ky kx k (op * 2 + 1) i)))
     = (\<lambda>a o' i. if o' < p \<and> i < CS_IC_PAR then a o' i + ?T ky kx k o' i else a o' i)" for ky kx k
    using for_loop_acc_pairs [of "p div 2" CS_IC_PAR "?T ky kx k"] unfolding p by (intro ext) simp
  show ?thesis
    unfolding packed_partial_def partial_zero mac_pair_products prod.case same_px_padded
      for_step_count [OF pos] 
    unfolding Let_def [of "\<lambda>_ _. 0 :: accum"] step for_loop_acc_fun for_loop_acc
    by (simp add: lane_sums_def fun_eq_iff)
qed

lemma reduce_lanes:
  assumes "\<And>i. i < CS_IC_PAR \<Longrightarrow> v i = lane_sums blocks sz ifmap w oy ox ob o' i"
  shows "requant_relu_c0 (b (ob + o') + reduce8 v) rq
    = conv_valid (blocks * CS_IC_PAR) (pad_same sz ifmap) w b rq oy ox (ob + o')"
proof -
  let ?f = "\<lambda>ky kx ic. (scast (pad_same sz ifmap (oy + ky) (ox + kx) ic) :: accum) * scast (w (ob + o') ky kx ic)"
  have lanes: "(\<Sum>i<CS_IC_PAR. \<Sum>kb<blocks. ?f ky kx (kb * CS_IC_PAR + i)) = (\<Sum>ic<blocks * CS_IC_PAR. ?f ky kx ic)"
    for ky kx by (rule sum_lanes)
  have "reduce8 v = (\<Sum>i<CS_IC_PAR. \<Sum>ky<K. \<Sum>kx<K. \<Sum>kb<blocks. ?f ky kx (kb * CS_IC_PAR + i))"
    unfolding reduce8_sum using assms by (simp add: lane_sums_def CS_IC_PAR_def)
  also have "\<dots> = (\<Sum>ky<K. \<Sum>kx<K. \<Sum>i<CS_IC_PAR. \<Sum>kb<blocks. ?f ky kx (kb * CS_IC_PAR + i))"
    by (subst sum.swap, rule sum.cong [OF refl], rule sum.swap)
  also have "\<dots> = (\<Sum>ky<K. \<Sum>kx<K. \<Sum>ic<blocks * CS_IC_PAR. ?f ky kx ic)"
    by (simp only: lanes)
  finally show ?thesis by (simp add: conv_valid_def)
qed

lemma for_step_cong:
  assumes "\<And>i t. f i t = g i t"
  shows "for_step n p f s = for_step n p g s"
proof -
  have "f = g" using assms by (intro ext)
  then show ?thesis by simp
qed

lemma conv0_pixel_closed:
  "conv0_pixel il wl b rq oy ox rb = (\<lambda>r x c. if r = oy mod 2 \<and> x = ox \<and> c < C0_OUT_CH
     then conv_valid C0_IN_CH il (\<lambda>oc ky kx ic. wl oc ic ky kx) b rq oy ox c else rb r x c)"
proof -
  have "C0_OC_PAR dvd C0_OUT_CH" "0 < C0_OC_PAR" by (simp_all add: layer_sizes)
  from pixel_lanes [OF this, of "oy mod 2" ox "conv_valid C0_IN_CH il (\<lambda>oc ky kx ic. wl oc ic ky kx) b rq oy ox"]
  show ?thesis by (simp add: conv0_pixel_def Let_def dot27_sum conv_valid_def)
qed

lemma conv0_pool0_closed:
  "conv0_pool0_fused il wl rb ifmap w b rq po = (\<lambda>y x c. if y < P0_OUT_SIZE \<and> x < P0_OUT_SIZE \<and> c < C0_OUT_CH
     then max_pool (conv_valid C0_IN_CH ifmap (\<lambda>oc ky kx ic. w oc ic ky kx) b rq) y x c else po y x c)"
proof -
  let ?il = "\<lambda>y x c. if y < C0_PAD_SIZE \<and> x < C0_PAD_SIZE \<and> c < C0_IN_CH then ifmap y x c else il y x c"
  let ?wl = "\<lambda>oc ic ky kx. if oc < C0_OUT_CH \<and> ic < C0_IN_CH \<and> ky < K \<and> kx < K then w oc ic ky kx else wl oc ic ky kx"
  let ?F = "conv_valid C0_IN_CH ?il (\<lambda>oc ky kx ic. ?wl oc ic ky kx) b rq"
  let ?rows = "\<lambda>oy. for_loop C0_OUT_SIZE (\<lambda>ox. conv0_pixel ?il ?wl b rq oy ox)"
  have n: "C0_OUT_SIZE = 2 * P0_OUT_SIZE" by (simp add: layer_sizes)
  have rows: "?rows oy rb = (\<lambda>r x c. if r = oy mod 2 \<and> x < 2 * P0_OUT_SIZE \<and> c < C0_OUT_CH
      then ?F oy x c else rb r x c)" for oy rb
    unfolding n [symmetric] by (rule row_closed) (rule conv0_pixel_closed)
  have same: "?F y x c = conv_valid C0_IN_CH ifmap (\<lambda>oc ky kx ic. w oc ic ky kx) b rq y x c"
    if "y < C0_OUT_SIZE" "x < C0_OUT_SIZE" "c < C0_OUT_CH" for y x c
    using that by (intro conv_valid_cong) (auto simp: layer_sizes)
  show ?thesis
    unfolding conv0_pool0_fused_def copy3 copy4 Let_def n
    unfolding stream_pool [of ?rows, unfolded Let_def n, OF rows [unfolded n]]
    by (intro ext) (auto simp: max_pool_def same n)
qed

lemma conv_same_pixel_closed:
  assumes "p dvd out_ch" "0 < p" "CS_IC_PAR dvd in_ch"
  shows "conv_same_pixel in_ch out_ch sz p ifmap wl b rq oy ox ofmap = (\<lambda>y x c.
     if y = oy \<and> x = ox \<and> c < out_ch then conv_valid in_ch (pad_same sz ifmap) wl b rq oy ox c else ofmap y x c)"
proof -
  obtain blocks where m: "in_ch = blocks * CS_IC_PAR" using assms(3) by (metis dvd_def mult.commute)
  have pos: "0 < CS_IC_PAR" by (simp add: CS_IC_PAR_def)
  let ?T = "\<lambda>ob ky kx k o' i. (scast (pad_same sz ifmap (oy + ky) (ox + kx) (k * CS_IC_PAR + i)) :: accum)
    * scast (wl (ob + o') ky kx (k * CS_IC_PAR + i))"
  have step: "for_loop p (\<lambda>o'. for_loop CS_IC_PAR (\<lambda>i a. upd2 a o' i (a o' i + ?T ob ky kx k o' i)))
     = (\<lambda>a o' i. if o' < p \<and> i < CS_IC_PAR then a o' i + ?T ob ky kx k o' i else a o' i)" for ob ky kx k
    by (rule ext) (rule for_loop_acc_rows)
  have lanes: "requant_relu_c0 (b (ob + l) + reduce8 ((\<lambda>o' i. if o' < p \<and> i < CS_IC_PAR
      then 0 + (\<Sum>ky<K. \<Sum>kx<K. \<Sum>k<blocks. ?T ob ky kx k o' i) else 0) l)) rq
      = conv_valid in_ch (pad_same sz ifmap) wl b rq oy ox (ob + l)" if "l < p" for ob l
    unfolding m by (rule reduce_lanes) (use that in \<open>simp add: lane_sums_def\<close>)
  have "conv_same_pixel in_ch out_ch sz p ifmap wl b rq oy ox ofmap
      = for_step out_ch p (\<lambda>ob rb. for_loop p (\<lambda>l rb. upd3 rb oy ox (ob + l)
          (conv_valid in_ch (pad_same sz ifmap) wl b rq oy ox (ob + l))) rb) ofmap"
    unfolding conv_same_pixel_def partial_zero same_px_padded m for_step_count [OF pos]
    unfolding Let_def step for_loop_acc_fun requant_same
    by (rule for_step_cong, rule for_loop_cong [OF refl _ refl], rule arg_cong, rule lanes [unfolded m])
  also have "\<dots> = (\<lambda>y x c. if y = oy \<and> x = ox \<and> c < out_ch
      then conv_valid in_ch (pad_same sz ifmap) wl b rq oy ox c else ofmap y x c)"
    by (rule pixel_lanes [OF assms(1,2)])
  finally show ?thesis .
qed

text \<open>One row of a packed layer; \<open>rq_fun\<close> is the requantiser of the layer.\<close>

lemma packed_row_closed:
  assumes "p dvd out_ch" "0 < p" "even p" "in_ch = blocks * CS_IC_PAR"
  shows "for_loop sz' (\<lambda>ox. for_step out_ch p (\<lambda>ob row_buf.
      for_loop p (\<lambda>o' row_buf. upd3 row_buf r ox (ob + o')
        (requant_relu_c0 (b (ob + o') + reduce8 (packed_partial in_ch sz p ifmap wl oy ox ob o')) rq)) row_buf)) rb
    = (\<lambda>r' x c. if r' = r \<and> x < sz' \<and> c < out_ch
        then conv_valid in_ch (pad_same sz ifmap) wl b rq oy x c else rb r' x c)"
proof -
  have lanes: "requant_relu_c0 (b (ob + l) + reduce8 (packed_partial in_ch sz p ifmap wl oy ox ob l)) rq
      = conv_valid in_ch (pad_same sz ifmap) wl b rq oy ox (ob + l)" if "l < p" for ob l ox
    unfolding assms(4) packed_partial_closed [OF assms(3)]
    by (rule reduce_lanes) (use that in simp)
  have "for_step out_ch p (\<lambda>ob row_buf.
      for_loop p (\<lambda>o' row_buf. upd3 row_buf r ox (ob + o')
        (requant_relu_c0 (b (ob + o') + reduce8 (packed_partial in_ch sz p ifmap wl oy ox ob o')) rq)) row_buf) rb
    = for_step out_ch p (\<lambda>ob row_buf. for_loop p (\<lambda>o' row_buf. upd3 row_buf r ox (ob + o')
        (conv_valid in_ch (pad_same sz ifmap) wl b rq oy ox (ob + o'))) row_buf) rb" for ox rb
    by (rule for_step_cong, rule for_loop_cong [OF refl _ refl], rule arg_cong, rule lanes)
  then show ?thesis
    by (intro row_closed) (simp only: pixel_lanes [OF assms(1,2)])
qed

lemma packed_layer_closed:
  fixes wl w :: "weight arr4"
  assumes "p dvd out_ch" "0 < p" "even p" "in_ch = blocks * CS_IC_PAR"
  defines "wl' \<equiv> (\<lambda>oc ky kx ic. if oc < out_ch \<and> ky < K \<and> kx < K \<and> ic < in_ch then w oc ky kx ic else wl oc ky kx ic)"
  shows "snd (for_loop (2 * n) (\<lambda>oy (row_buf, po).
      let row_buf = for_loop (2 * n) (\<lambda>ox. for_step out_ch p (\<lambda>ob row_buf.
        for_loop p (\<lambda>o' row_buf. upd3 row_buf (oy mod 2) ox (ob + o')
          (requant_relu_c0 (b (ob + o') + reduce8 (packed_partial in_ch sz p ifmap wl' oy ox ob o')) rq)) row_buf)) row_buf
      in (row_buf, if oy mod 2 = 1 then pool_row n out_ch row_buf (oy div 2) po else po)) (row_buf, po))
    = (\<lambda>y x c. if y < n \<and> x < n \<and> c < out_ch
        then max_pool (conv_valid in_ch (pad_same sz ifmap) w b rq) y x c else po y x c)"
proof -
  have same: "conv_valid in_ch (pad_same sz ifmap) wl' b rq y x c = conv_valid in_ch (pad_same sz ifmap) w b rq y x c"
    if "c < out_ch" for y x c using that by (intro conv_valid_cong) (auto simp: wl'_def)
  show ?thesis
    unfolding stream_pool [of "\<lambda>oy rb. for_loop (2 * n) (\<lambda>ox. for_step out_ch p (\<lambda>ob row_buf.
        for_loop p (\<lambda>o' row_buf. upd3 row_buf (oy mod 2) ox (ob + o')
          (requant_relu_c0 (b (ob + o') + reduce8 (packed_partial in_ch sz p ifmap wl' oy ox ob o')) rq)) row_buf)) rb",
        OF packed_row_closed [OF assms(1-4)]]
    by (intro ext) (auto simp: max_pool_def same)
qed

lemma conv1_pool1_closed:
  "conv1_pool1_fused wl rb ifmap w b rq po = (\<lambda>y x c. if y < P1_OUT_SIZE \<and> x < P1_OUT_SIZE \<and> c < C1_OUT_CH
     then max_pool (conv_valid C1_IN_CH (pad_same C1_SIZE ifmap) w b rq) y x c else po y x c)"
proof -
  have n: "C1_SIZE = 2 * P1_OUT_SIZE" by (simp add: layer_sizes)
  have "C1_OC_PAR dvd C1_OUT_CH" "0 < C1_OC_PAR" "even C1_OC_PAR" "C1_IN_CH = 2 * CS_IC_PAR"
    by (simp_all add: layer_sizes)
  from packed_layer_closed [OF this, where n = P1_OUT_SIZE and sz = C1_SIZE, folded n]
  show ?thesis unfolding conv1_pool1_fused_def copy4 requant_same by (simp only: Let_def)
qed

lemma conv2_pool2_closed:
  "conv2_pool2_fused wl rb ifmap w b rq po = (\<lambda>y x c. if y < P2_OUT_SIZE \<and> x < P2_OUT_SIZE \<and> c < C2_OUT_CH
     then max_pool (conv_valid C2_IN_CH (pad_same C2_SIZE ifmap) w b rq) y x c else po y x c)"
proof -
  have n: "C2_SIZE = 2 * P2_OUT_SIZE" by (simp add: layer_sizes)
  have "C2_OC_PAR dvd C2_OUT_CH" "0 < C2_OC_PAR" "even C2_OC_PAR" "C2_IN_CH = 4 * CS_IC_PAR"
    by (simp_all add: layer_sizes)
  from packed_layer_closed [OF this, where n = P2_OUT_SIZE and sz = C2_SIZE, folded n]
  show ?thesis unfolding conv2_pool2_fused_def copy4 requant_same by (simp only: Let_def)
qed

lemma pad_same_cong:
  assumes "\<And>y x. y < sz \<Longrightarrow> x < sz \<Longrightarrow> f y x c = g y x c"
  shows "pad_same sz f y x c = pad_same sz g y x c"
  by (auto simp: pad_same_def intro!: assms)

lemma engine_network:
  "classifier_top M img l0 l1 l2 out y x c =
     (if y < 12 \<and> x < 12 \<and> c < 64 then network img l0 l1 l2 y x c else out y x c)"
proof -
  let ?f0 = "max_pool (conv_valid C0_IN_CH img (\<lambda>oc ky kx ic. weights l0 oc ic ky kx) (biases l0) (requantizer l0))"
  let ?f1 = "max_pool (conv_valid C1_IN_CH (pad_same C1_SIZE ?f0) (weights l1) (biases l1) (requantizer l1))"
  let ?g0 = "\<lambda>y x c. if y < P0_OUT_SIZE \<and> x < P0_OUT_SIZE \<and> c < C0_OUT_CH then ?f0 y x c else fmap0p M y x c"
  let ?g1 = "\<lambda>y x c. if y < P1_OUT_SIZE \<and> x < P1_OUT_SIZE \<and> c < C1_OUT_CH
      then max_pool (conv_valid C1_IN_CH (pad_same C1_SIZE ?g0) (weights l1) (biases l1) (requantizer l1)) y x c
      else fmap1p M y x c"
  have sizes: "P0_OUT_SIZE = C1_SIZE" "C0_OUT_CH = C1_IN_CH" "P1_OUT_SIZE = C2_SIZE" "C1_OUT_CH = C2_IN_CH"
    by (simp_all add: layer_sizes)
  have c1: "conv_valid C1_IN_CH (pad_same C1_SIZE ?g0) w b rq y x c = conv_valid C1_IN_CH (pad_same C1_SIZE ?f0) w b rq y x c"
    for w b rq y x c by (intro conv_valid_cong pad_same_cong) (simp_all add: sizes)
  have m1: "max_pool (conv_valid C1_IN_CH (pad_same C1_SIZE ?g0) w b rq) y x c
      = max_pool (conv_valid C1_IN_CH (pad_same C1_SIZE ?f0) w b rq) y x c" for w b rq y x c
    by (simp only: max_pool_def [of "conv_valid C1_IN_CH _ _ _ _"] c1)
  have c2: "conv_valid C2_IN_CH (pad_same C2_SIZE ?g1) w b rq y x c = conv_valid C2_IN_CH (pad_same C2_SIZE ?f1) w b rq y x c"
    for w b rq y x c by (intro conv_valid_cong pad_same_cong) (simp_all add: sizes(3,4) m1)
  have m2: "max_pool (conv_valid C2_IN_CH (pad_same C2_SIZE ?g1) w b rq) y x c
      = max_pool (conv_valid C2_IN_CH (pad_same C2_SIZE ?f1) w b rq) y x c" for w b rq y x c
    by (simp only: max_pool_def [of "conv_valid C2_IN_CH _ _ _ _"] c2)
  have "P2_OUT_SIZE = 12" "C2_OUT_CH = 64" by (simp_all add: layer_sizes)
  then show ?thesis
    unfolding classifier_top_def Let_def conv0_pool0_closed conv1_pool1_closed conv2_pool2_closed
    by (simp only: network_def m2 Let_def)
qed

section \<open>Properties\<close>

text \<open>
  C10: The engine computes the network. Whatever the static buffers and the output buffer held, the
  tiled, packed and streamed computation of the PL writes exactly the outputs of the three
  convolution, requantisation and pooling layers as they are meant, and nothing else.
\<close>

theorem engine_computes_network:
  "classifier_top M img l0 l1 l2 out y x c =
     (if y < 12 \<and> x < 12 \<and> c < 64 then network img l0 l1 l2 y x c else out y x c)"
  by (rule engine_network)

text \<open>
  The unfused layer keeps its promise. For any sizes in which the channels come in whole blocks,
  \<open>conv_same_parallel\<close> writes exactly the SAME convolution of its input, one requantised value per
  pixel and channel.
\<close>

theorem conv_same_parallel_is_conv:
  assumes "oc_par dvd out_ch" "0 < oc_par" "8 dvd in_ch"
  shows "conv_same_parallel in_ch out_ch sz oc_par wl ifmap w b rq ofmap y x c =
     (if y < sz \<and> x < sz \<and> c < out_ch then conv_valid in_ch (pad_same sz ifmap) w b rq y x c
      else ofmap y x c)"
proof -
  let ?wl = "\<lambda>oc ky kx ic. if oc < out_ch \<and> ky < K \<and> kx < K \<and> ic < in_ch then w oc ky kx ic else wl oc ky kx ic"
  have ch: "CS_IC_PAR dvd in_ch" using assms(3) by (simp add: CS_IC_PAR_def)
  have row: "for_loop sz (\<lambda>ox. conv_same_pixel in_ch out_ch sz oc_par ifmap ?wl b rq oy ox)
      = (\<lambda>ofmap y x c. if y = oy \<and> x < sz \<and> c < out_ch
           then conv_valid in_ch (pad_same sz ifmap) ?wl b rq oy x c else ofmap y x c)" for oy
    by (rule ext) (rule row_closed, rule conv_same_pixel_closed [OF assms(1,2) ch])
  have same: "conv_valid in_ch (pad_same sz ifmap) ?wl b rq y x c = conv_valid in_ch (pad_same sz ifmap) w b rq y x c"
    if "c < out_ch" using that by (intro conv_valid_cong) auto
  show ?thesis
    unfolding conv_same_parallel_def copy4 Let_def row
      for_loop_write3_outer [where Q = "\<lambda>x c. x < sz \<and> c < out_ch"]
    using same by simp
qed

theorem conv_same_parallel_is_conv_witness:
  "conv_same_parallel 8 2 3 1 (\<lambda>_ _ _ _. 99) (\<lambda>y x c. if y = 1 \<and> x = 1 then 2 else 0) (\<lambda>oc ky kx ic. of_nat (3 * ky + kx))
     (\<lambda>_. 4) \<lparr>rq_multiplier = 1, rq_shift = 1\<rparr> (\<lambda>_ _ _. 5) 7 0 0 = 5"
  by (subst conv_same_parallel_is_conv) simp_all

section \<open>Over the integers\<close>

text \<open>The layers with exact arithmetic: no width, no wrap-around.\<close>

definition conv_int ::
  "nat \<Rightarrow> int arr3 \<Rightarrow> weight arr4 \<Rightarrow> (nat \<Rightarrow> bias) \<Rightarrow> requant \<Rightarrow> int arr3" where
  "conv_int in_ch img w b rq oy ox oc = max 0 (min 127
     ((sint (b oc) + (\<Sum>ky<K. \<Sum>kx<K. \<Sum>ic<in_ch. img (oy + ky) (ox + kx) ic * sint (w oc ky kx ic)))
      * sint (rq_multiplier rq) div 2 ^ unat (rq_shift rq)))"

definition pool_int :: "int arr3 \<Rightarrow> int arr3" where
  "pool_int f y x c = max (max (f (2 * y) (2 * x) c) (f (2 * y) (2 * x + 1) c))
     (max (f (2 * y + 1) (2 * x) c) (f (2 * y + 1) (2 * x + 1) c))"

definition network_int :: "int arr3 \<Rightarrow> layer \<Rightarrow> layer \<Rightarrow> layer \<Rightarrow> int arr3" where
  "network_int img l0 l1 l2 =
     (let f0 = pool_int (conv_int 3 img (\<lambda>oc ky kx ic. weights l0 oc ic ky kx) (biases l0) (requantizer l0));
          f1 = pool_int (conv_int 16 (pad_same 48 f0) (weights l1) (biases l1) (requantizer l1))
      in pool_int (conv_int 32 (pad_same 24 f1) (weights l2) (biases l2) (requantizer l2)))"

text \<open>A layer whose accumulators cannot leave 32 bits and whose multiplier is a factor of at most 1.\<close>

definition layer_ok :: "nat \<Rightarrow> nat \<Rightarrow> layer \<Rightarrow> bool" where
  "layer_ok in_ch out_ch l \<longleftrightarrow> rq_ok (requantizer l)
     \<and> (\<forall>oc<out_ch. \<bar>sint (biases l oc)\<bar> + int (9 * in_ch) * 16384 < 2 ^ 31)"

lemma dot_bound:
  fixes img :: "act arr3" and w :: "weight arr4"
  shows "\<bar>\<Sum>ky<K. \<Sum>kx<K. \<Sum>ic<n. sint (img (oy + ky) (ox + kx) ic) * sint (w oc ky kx ic)\<bar> \<le> int (9 * n) * 16384"
proof -
  have abs_sum: "\<bar>\<Sum>i<m. f i\<bar> \<le> int m * B" if "\<And>i. \<bar>f i\<bar> \<le> B" for m B and f :: "nat \<Rightarrow> int"
  proof -
    have "\<bar>\<Sum>i<m. f i\<bar> \<le> (\<Sum>i<m. \<bar>f i\<bar>)" by (rule sum_abs)
    also have "\<dots> \<le> of_nat (card {..<m}) * B" by (rule sum_bounded_above) (rule that)
    finally show ?thesis by simp
  qed
  have "\<bar>sint (img y x ic) * sint (w oc ky kx ic)\<bar> \<le> 128 * 128" for y x ic ky kx
    by (rule abs_mult_bound) (use sint_range8 [of "img y x ic"] sint_range8 [of "w oc ky kx ic"] in linarith)+
  then have "\<bar>\<Sum>ic<n. sint (img y x ic) * sint (w oc ky kx ic)\<bar> \<le> int n * (128 * 128)" for y x ky kx
    by (rule abs_sum)
  then have "\<bar>\<Sum>kx<K. \<Sum>ic<n. sint (img y (ox + kx) ic) * sint (w oc ky kx ic)\<bar> \<le> int K * (int n * (128 * 128))" for y ky
    by (rule abs_sum)
  then have "\<bar>\<Sum>ky<K. \<Sum>kx<K. \<Sum>ic<n. sint (img (oy + ky) (ox + kx) ic) * sint (w oc ky kx ic)\<bar>
      \<le> int K * (int K * (int n * (128 * 128)))" by (rule abs_sum)
  then show ?thesis by (simp add: K_def)
qed

lemma conv_valid_int:
  assumes "rq_ok rq" "\<bar>sint (b oc)\<bar> + int (9 * in_ch) * 16384 < 2 ^ 31"
  shows "sint (conv_valid in_ch img w b rq oy ox oc) = conv_int in_ch (\<lambda>y x c. sint (img y x c)) w b rq oy ox oc"
proof -
  let ?acc = "b oc + (\<Sum>ky<K. \<Sum>kx<K. \<Sum>ic<in_ch. scast (img (oy + ky) (ox + kx) ic) * scast (w oc ky kx ic))"
  let ?dot = "\<Sum>ky<K. \<Sum>kx<K. \<Sum>ic<in_ch. sint (img (oy + ky) (ox + kx) ic) * sint (w oc ky kx ic)"
  have "\<bar>?dot\<bar> \<le> int (9 * in_ch) * 16384" by (rule dot_bound)
  then have bound: "- (2 ^ 31) \<le> sint (b oc) + ?dot" "sint (b oc) + ?dot < 2 ^ 31"
    using assms(2) by linarith+
  have "?acc = scast (b oc) + (\<Sum>ky<K. \<Sum>kx<K. \<Sum>ic<in_ch. scast (img (oy + ky) (ox + kx) ic) * scast (w oc ky kx ic))"
    by (simp only: scast_id)
  also have "\<dots> = word_of_int (sint (b oc) + ?dot)"
    by (simp only: scast_eq of_int_add of_int_sum of_int_mult)
  finally have "sint ?acc = sint (b oc) + ?dot"
    by (rule sint_eq_of_range) (use bound in simp_all)
  then show ?thesis by (simp add: conv_valid_def requant_int [OF assms(1)] conv_int_def)
qed

lemma max_pool_int:
  "sint (max_pool f y x c) = pool_int (\<lambda>y x c. sint (f y x c)) y x c"
  by (simp add: max_pool_def pool4_def pool_int_def Let_def max_def)

lemma pad_same_int: "sint (pad_same sz f y x c) = pad_same sz (\<lambda>y x c. sint (f y x c)) y x c"
  by (simp add: pad_same_def)

lemma conv_int_cong:
  assumes "\<And>y x c. c < in_ch \<Longrightarrow> img y x c = img' y x c"
  shows "conv_int in_ch img w b rq oy ox oc = conv_int in_ch img' w b rq oy ox oc"
proof -
  have "(\<Sum>ky<K. \<Sum>kx<K. \<Sum>ic<in_ch. img (oy + ky) (ox + kx) ic * sint (w oc ky kx ic))
      = (\<Sum>ky<K. \<Sum>kx<K. \<Sum>ic<in_ch. img' (oy + ky) (ox + kx) ic * sint (w oc ky kx ic))"
    using assms by (intro sum.cong refl) simp
  then show ?thesis by (simp add: conv_int_def)
qed

lemma layer_int:
  assumes "layer_ok in_ch out_ch l" "c < out_ch"
    and "\<And>y x c. c < in_ch \<Longrightarrow> sint (img y x c) = img' y x c"
  shows "sint (max_pool (conv_valid in_ch img w (biases l) (requantizer l)) y x c)
    = pool_int (conv_int in_ch img' w (biases l) (requantizer l)) y x c"
proof -
  have ok: "rq_ok (requantizer l)" "\<bar>sint (biases l c)\<bar> + int (9 * in_ch) * 16384 < 2 ^ 31"
    using assms(1,2) by (simp_all add: layer_ok_def)
  have e: "sint (conv_valid in_ch img w (biases l) (requantizer l) oy ox c)
      = conv_int in_ch img' w (biases l) (requantizer l) oy ox c" for oy ox
    by (rule trans [OF conv_valid_int [of "requantizer l" "biases l", OF ok] conv_int_cong]) (rule assms(3))
  show ?thesis by (simp only: max_pool_int pool_int_def e)
qed

lemma engine_network_int:
  assumes "layer_ok 3 16 l0" "layer_ok 16 32 l1" "layer_ok 32 64 l2" "y < 12" "x < 12" "c < 64"
  shows "sint (classifier_top M img l0 l1 l2 out y x c)
    = network_int (\<lambda>y x c. sint (img y x c)) l0 l1 l2 y x c"
proof -
  have sizes: "C0_IN_CH = 3" "C1_IN_CH = 16" "C2_IN_CH = 32" "C1_SIZE = 48" "C2_SIZE = 24"
    "P2_OUT_SIZE = 12" "C2_OUT_CH = 64" by (simp_all add: layer_sizes)
  let ?f0 = "max_pool (conv_valid 3 img (\<lambda>oc ky kx ic. weights l0 oc ic ky kx) (biases l0) (requantizer l0))"
  let ?f1 = "max_pool (conv_valid 16 (pad_same 48 ?f0) (weights l1) (biases l1) (requantizer l1))"
  let ?i0 = "pool_int (conv_int 3 (\<lambda>y x c. sint (img y x c)) (\<lambda>oc ky kx ic. weights l0 oc ic ky kx)
      (biases l0) (requantizer l0))"
  let ?i1 = "pool_int (conv_int 16 (pad_same 48 ?i0) (weights l1) (biases l1) (requantizer l1))"
  have 0: "sint (pad_same 48 ?f0 y x c) = pad_same 48 ?i0 y x c" if "c < 16" for y x c
    unfolding pad_same_int by (rule pad_same_cong) (rule layer_int [OF assms(1) that refl])
  have 1: "sint (pad_same 24 ?f1 y x c) = pad_same 24 ?i1 y x c" if "c < 32" for y x c
    unfolding pad_same_int by (rule pad_same_cong) (rule layer_int [OF assms(2) that 0])
  have closed: "classifier_top M img l0 l1 l2 out y x c = network img l0 l1 l2 y x c"
    unfolding engine_network using assms(4-6) by simp
  show ?thesis unfolding closed network_def network_int_def Let_def sizes
    by (rule layer_int [OF assms(3,6) 1])
qed

text \<open>
  C5: The engine is the integer network. For layers with biases below \<open>2 ^ 31\<close> less the largest
  possible dot product and multipliers of at most one, no intermediate value of the machine
  arithmetic wraps, and every output is the exact one: the maximum over four pixels of
  \<open>floor((bias + sum of products) * multiplier / 2 ^ shift)\<close> clamped to 0..127, three layers deep.
\<close>

theorem engine_is_integer_network:
  assumes "layer_ok 3 16 l0" "layer_ok 16 32 l1" "layer_ok 32 64 l2" "y < 12" "x < 12" "c < 64"
  shows "sint (classifier_top M img l0 l1 l2 out y x c)
    = network_int (\<lambda>y x c. sint (img y x c)) l0 l1 l2 y x c"
  using assms by (rule engine_network_int)

theorem engine_is_integer_network_witness:
  "let l = \<lparr>weights = (\<lambda>oc ky kx ic. if ky = 1 \<and> kx = 1 \<and> ic = 0 then 2 else 0), biases = (\<lambda>oc. - 6),
         requantizer = \<lparr>rq_multiplier = 3, rq_shift = 2\<rparr>\<rparr>;
       z = (\<lambda>_ _ _. 7); zw = (\<lambda>_ _ _ _. 8);
       M = \<lparr>c0_ifmap = z, c0_w = zw, c0_rows = z, c1_w = zw, c1_rows = z, c2_w = zw, c2_rows = z,
         fmap0p = z, fmap1p = z\<rparr>
   in sint (classifier_top M (\<lambda>y x c. - 5) l l l z 0 0 0) = network_int (\<lambda>y x c. - 5) l l l 0 0 0"
proof -
  let ?l = "\<lparr>weights = (\<lambda>oc ky kx ic. if ky = 1 \<and> kx = 1 \<and> ic = (0 :: nat) then 2 else 0), biases = (\<lambda>oc :: nat. - 6),
         requantizer = \<lparr>rq_multiplier = 3, rq_shift = 2\<rparr>\<rparr>"
  have ok: "layer_ok 3 16 ?l" "layer_ok 16 32 ?l" "layer_ok 32 64 ?l"
    by (simp_all add: layer_ok_def rq_ok_def)
  show ?thesis unfolding Let_def
    using engine_is_integer_network [OF ok, of 0 0 0 _ "\<lambda>y x c. - 5" "\<lambda>_ _ _. 7"] by simp
qed

end
