(* ===== verification/Classifier_Driver.thy ===== *)
theory Classifier_Driver
  imports Classifier_Engine
begin

text \<open>
  The kernel driver \<open>adas-classifier.c\<close>: register writes, the polling loop, the ioctl dispatch,
  probe and remove. A register block is a function from byte offsets; user memory that cannot be
  copied is None; the answers of the kernel's services, the reads of the control register and the
  clock are arguments. \<open>unsigned long\<close> is 32 bits on the Zynq.
\<close>

unbundle bit_operations_syntax

section \<open>The interface to user space\<close>

definition DMA_SPAN :: u32 where "DMA_SPAN = 0x13000"
definition IFMAP_OFFSET :: u32 where "IFMAP_OFFSET = 0x00000"
definition W_CONV0_OFFSET :: u32 where "W_CONV0_OFFSET = 0x08000"
definition W_CONV1_OFFSET :: u32 where "W_CONV1_OFFSET = 0x09000"
definition W_CONV2_OFFSET :: u32 where "W_CONV2_OFFSET = 0x0b000"
definition OUTPUT_OFFSET :: u32 where "OUTPUT_OFFSET = 0x10000"
definition ABI_VERSION :: u32 where "ABI_VERSION = 1"

lemmas dma_offsets = IFMAP_OFFSET_def W_CONV0_OFFSET_def W_CONV1_OFFSET_def W_CONV2_OFFSET_def
  OUTPUT_OFFSET_def DMA_SPAN_def

record requant_uapi =
  u_multiplier :: u32
  u_shift :: u32

record parameters_uapi =
  u_requant :: "nat \<Rightarrow> requant_uapi"
  u_bias0 :: "nat \<Rightarrow> u32"
  u_bias1 :: "nat \<Rightarrow> u32"
  u_bias2 :: "nat \<Rightarrow> u32"

record run_uapi =
  timeout_ms :: u32
  reserved :: u32

record info_uapi =
  abi_version :: u32
  dma_span :: u32
  ifmap_offset :: u32
  output_offset :: u32

text \<open>The numbers of \<open>_IOR\<close> and \<open>_IOW\<close>: direction, size, magic, number.\<close>

definition ioc :: "u32 \<Rightarrow> u32 \<Rightarrow> u32 \<Rightarrow> u32" where
  "ioc dir nr sz = push_bit 30 dir OR push_bit 16 sz OR push_bit 8 0x41 OR nr"

definition IOC_GET_INFO :: u32 where "IOC_GET_INFO = ioc 2 0 16"
definition IOC_SET_PARAMETERS :: u32 where "IOC_SET_PARAMETERS = ioc 1 1 472"
definition IOC_RUN :: u32 where "IOC_RUN = ioc 1 2 8"

datatype errno = EFAULT | EINVAL | ETIMEDOUT | ENOTTY | ENOMEM | EOTHER

text \<open>None is 0, success.\<close>

type_synonym kresult = "errno option"

section \<open>State and registers\<close>

record classifier_dev =
  kargs :: "nat \<Rightarrow> u32"
  kexec :: "nat \<Rightarrow> u32"
  dma_handle :: u64
  parameters_set :: bool

definition REG_IFMAP_LO :: nat where "REG_IFMAP_LO = 0x10"
definition REG_IFMAP_HI :: nat where "REG_IFMAP_HI = 0x14"
definition REG_W0_LO :: nat where "REG_W0_LO = 0x1c"
definition REG_W0_HI :: nat where "REG_W0_HI = 0x20"
definition REG_W1_LO :: nat where "REG_W1_LO = 0x28"
definition REG_W1_HI :: nat where "REG_W1_HI = 0x2c"
definition REG_W2_LO :: nat where "REG_W2_LO = 0x34"
definition REG_W2_HI :: nat where "REG_W2_HI = 0x38"
definition REG_OUTPUT_LO :: nat where "REG_OUTPUT_LO = 0x40"
definition REG_OUTPUT_HI :: nat where "REG_OUTPUT_HI = 0x44"
definition REG_AP_CTRL :: nat where "REG_AP_CTRL = 0x000"
definition REG_RQ0_MUL :: nat where "REG_RQ0_MUL = 0x010"
definition REG_RQ0_SHIFT :: nat where "REG_RQ0_SHIFT = 0x014"
definition REG_RQ1_MUL :: nat where "REG_RQ1_MUL = 0x01c"
definition REG_RQ1_SHIFT :: nat where "REG_RQ1_SHIFT = 0x020"
definition REG_RQ2_MUL :: nat where "REG_RQ2_MUL = 0x028"
definition REG_RQ2_SHIFT :: nat where "REG_RQ2_SHIFT = 0x02c"
definition REG_B0 :: nat where "REG_B0 = 0x040"
definition REG_B1 :: nat where "REG_B1 = 0x080"
definition REG_B2 :: nat where "REG_B2 = 0x100"
definition AP_START :: u32 where "AP_START = 1"
definition AP_DONE :: u32 where "AP_DONE = 2"

lemmas arg_regs = REG_IFMAP_LO_def REG_IFMAP_HI_def REG_W0_LO_def REG_W0_HI_def REG_W1_LO_def
  REG_W1_HI_def REG_W2_LO_def REG_W2_HI_def REG_OUTPUT_LO_def REG_OUTPUT_HI_def
lemmas exec_regs = REG_AP_CTRL_def REG_RQ0_MUL_def REG_RQ0_SHIFT_def REG_RQ1_MUL_def
  REG_RQ1_SHIFT_def REG_RQ2_MUL_def REG_RQ2_SHIFT_def REG_B0_def REG_B1_def REG_B2_def

definition write_dma_address :: "nat \<Rightarrow> nat \<Rightarrow> u64 \<Rightarrow> (nat \<Rightarrow> u32) \<Rightarrow> nat \<Rightarrow> u32" where
  "write_dma_address lo hi address base =
     (let base = base(lo := ucast address) in base(hi := ucast (drop_bit 32 address)))"

definition configure_dma_addresses :: "classifier_dev \<Rightarrow> classifier_dev" where
  "configure_dma_addresses classifier =
     (let base = dma_handle classifier;
          r = kargs classifier;
          r = write_dma_address REG_IFMAP_LO REG_IFMAP_HI (base + ucast IFMAP_OFFSET) r;
          r = write_dma_address REG_W0_LO REG_W0_HI (base + ucast W_CONV0_OFFSET) r;
          r = write_dma_address REG_W1_LO REG_W1_HI (base + ucast W_CONV1_OFFSET) r;
          r = write_dma_address REG_W2_LO REG_W2_HI (base + ucast W_CONV2_OFFSET) r;
          r = write_dma_address REG_OUTPUT_LO REG_OUTPUT_HI (base + ucast OUTPUT_OFFSET) r
      in classifier\<lparr>kargs := r\<rparr>)"

definition write_bias :: "nat \<Rightarrow> (nat \<Rightarrow> u32) \<Rightarrow> nat \<Rightarrow> (nat \<Rightarrow> u32) \<Rightarrow> nat \<Rightarrow> u32" where
  "write_bias off bias n base = for_loop n (\<lambda>i base. base(off + i * 4 := bias i)) base"

section \<open>Operations\<close>

definition set_parameters ::
  "classifier_dev \<Rightarrow> parameters_uapi option \<Rightarrow> classifier_dev \<times> kresult" where
  "set_parameters classifier argument = (case argument of None \<Rightarrow> (classifier, Some EFAULT)
   | Some p \<Rightarrow>
       if u_shift (u_requant p 0) > 63 \<or> u_shift (u_requant p 1) > 63 \<or> u_shift (u_requant p 2) > 63
       then (classifier, Some EINVAL)
       else let r = kexec classifier;
                r = r(REG_RQ0_MUL := u_multiplier (u_requant p 0));
                r = r(REG_RQ0_SHIFT := u_shift (u_requant p 0));
                r = r(REG_RQ1_MUL := u_multiplier (u_requant p 1));
                r = r(REG_RQ1_SHIFT := u_shift (u_requant p 1));
                r = r(REG_RQ2_MUL := u_multiplier (u_requant p 2));
                r = r(REG_RQ2_SHIFT := u_shift (u_requant p 2));
                r = write_bias REG_B0 (u_bias0 p) 16 r;
                r = write_bias REG_B1 (u_bias1 p) 32 r;
                r = write_bias REG_B2 (u_bias2 p) 64 r
            in (classifier\<lparr>kexec := r, parameters_set := True\<rparr>, None))"

text \<open>\<open>time_before\<close>: the sign of the wrapped difference.\<close>

definition time_before :: "u32 \<Rightarrow> u32 \<Rightarrow> bool" where
  "time_before a b \<longleftrightarrow> sint (a - b) < 0"

text \<open>
  The polling loop over what it meets: in each round the value of the control register and the
  clock after the sleep. None: the loop is still running when the list ends.
\<close>

fun poll_done :: "(u32 \<times> u32) list \<Rightarrow> u32 \<Rightarrow> kresult option" where
  "poll_done [] deadline = None"
| "poll_done ((ctrl, jiffies) # rounds) deadline =
     (if ctrl AND AP_DONE \<noteq> 0 then Some None
      else if time_before jiffies deadline then poll_done rounds deadline
      else Some (Some ETIMEDOUT))"

definition run_classifier ::
  "(u32 \<Rightarrow> u32) \<Rightarrow> classifier_dev \<Rightarrow> run_uapi option \<Rightarrow> u32 \<Rightarrow> (u32 \<times> u32) list
     \<Rightarrow> classifier_dev \<times> kresult option" where
  "run_classifier msecs_to_jiffies classifier argument jiffies rounds =
     (case argument of None \<Rightarrow> (classifier, Some (Some EFAULT))
      | Some run \<Rightarrow>
          if \<not> parameters_set classifier \<or> timeout_ms run = 0 then (classifier, Some (Some EINVAL))
          else let classifier = configure_dma_addresses classifier;
                   classifier = classifier\<lparr>kexec := (kexec classifier)(REG_AP_CTRL := AP_START)\<rparr>;
                   deadline = jiffies + msecs_to_jiffies (timeout_ms run)
               in (classifier, poll_done rounds deadline))"

text \<open>What an ioctl meets; the mutex makes the calls one after the other.\<close>

record ioctl_env =
  in_parameters :: "parameters_uapi option"
  in_run :: "run_uapi option"
  copy_out_ok :: bool
  jiffies0 :: u32
  poll_rounds :: "(u32 \<times> u32) list"

definition ioc_type :: "u32 \<Rightarrow> u32" where
  "ioc_type command = drop_bit 8 command AND 0xff"

definition driver_info :: info_uapi where
  "driver_info = \<lparr>abi_version = ABI_VERSION, dma_span = DMA_SPAN, ifmap_offset = IFMAP_OFFSET,
     output_offset = OUTPUT_OFFSET\<rparr>"

definition classifier_ioctl ::
  "(u32 \<Rightarrow> u32) \<Rightarrow> classifier_dev \<Rightarrow> u32 \<Rightarrow> ioctl_env
     \<Rightarrow> classifier_dev \<times> kresult option \<times> info_uapi option" where
  "classifier_ioctl msecs_to_jiffies classifier command env =
     (if ioc_type command \<noteq> 0x41 then (classifier, Some (Some ENOTTY), None)
      else if command = IOC_GET_INFO then
        (if copy_out_ok env then (classifier, Some None, Some driver_info)
         else (classifier, Some (Some EFAULT), None))
      else if command = IOC_SET_PARAMETERS then
        (case set_parameters classifier (in_parameters env) of (c, r) \<Rightarrow> (c, Some r, None))
      else if command = IOC_RUN then
        (case run_classifier msecs_to_jiffies classifier (in_run env) (jiffies0 env) (poll_rounds env)
         of (c, r) \<Rightarrow> (c, r, None))
      else (classifier, Some (Some ENOTTY), None))"

text \<open>\<open>mmap\<close> passes a request that fits to the DMA layer, whose answer is an argument.\<close>

definition classifier_mmap :: "u32 \<Rightarrow> u32 \<Rightarrow> u32 \<Rightarrow> kresult \<Rightarrow> kresult" where
  "classifier_mmap vm_pgoff vm_start vm_end coherent =
     (let requested = vm_end - vm_start
      in if vm_pgoff \<noteq> 0 \<or> requested > DMA_SPAN then Some EINVAL else coherent)"

section \<open>Probe and remove\<close>

text \<open>The resources the driver must give back itself; \<open>devm\<close> ones are freed by the core.\<close>

record kernel_world =
  dma_buffers :: "u64 list"
  misc_devices :: nat
  driver_data :: "classifier_dev option"

record probe_reply =
  kzalloc_ok :: bool
  mask_result :: kresult
  ioremap_args :: "(nat \<Rightarrow> u32) + errno"
  ioremap_exec :: "(nat \<Rightarrow> u32) + errno"
  dma_alloc :: "u64 option"
  misc_register_result :: kresult

definition classifier_probe :: "kernel_world \<Rightarrow> probe_reply \<Rightarrow> kernel_world \<times> kresult" where
  "classifier_probe W sys =
     (if \<not> kzalloc_ok sys then (W, Some ENOMEM)
      else if mask_result sys \<noteq> None then (W, mask_result sys)
      else case ioremap_args sys of Inr e \<Rightarrow> (W, Some e)
      | Inl args \<Rightarrow> (case ioremap_exec sys of Inr e \<Rightarrow> (W, Some e)
        | Inl exec \<Rightarrow> (case dma_alloc sys of None \<Rightarrow> (W, Some ENOMEM)
          | Some h \<Rightarrow>
              let W = W\<lparr>dma_buffers := h # dma_buffers W\<rparr>;
                  classifier = \<lparr>kargs = args, kexec = exec, dma_handle = h, parameters_set = False\<rparr>
              in if misc_register_result sys \<noteq> None
                 then (W\<lparr>dma_buffers := remove1 h (dma_buffers W)\<rparr>, misc_register_result sys)
                 else (W\<lparr>misc_devices := misc_devices W + 1, driver_data := Some classifier\<rparr>, None))))"

definition classifier_remove :: "kernel_world \<Rightarrow> kernel_world" where
  "classifier_remove W = (case driver_data W of None \<Rightarrow> W
   | Some classifier \<Rightarrow> W\<lparr>misc_devices := misc_devices W - 1,
                         dma_buffers := remove1 (dma_handle classifier) (dma_buffers W)\<rparr>)"

section \<open>Registers after a call\<close>

lemma write_bias_at:
  "write_bias off bias n base r
     = (if \<exists>i<n. r = off + i * 4 then bias ((r - off) div 4) else base r)"
  unfolding write_bias_def by (induction n) (auto simp: less_Suc_eq)

text \<open>What the PL reads from its registers.\<close>

definition reg_layer :: "(nat \<Rightarrow> u32) \<Rightarrow> nat \<Rightarrow> nat \<Rightarrow> nat \<Rightarrow> weight arr4 \<Rightarrow> layer" where
  "reg_layer r mul_reg shift_reg bias_reg w =
     \<lparr>weights = w, biases = (\<lambda>i. r (bias_reg + i * 4)),
      requantizer = \<lparr>rq_multiplier = r mul_reg, rq_shift = ucast (r shift_reg)\<rparr>\<rparr>"

definition reg_address :: "(nat \<Rightarrow> u32) \<Rightarrow> nat \<Rightarrow> nat \<Rightarrow> nat" where
  "reg_address r lo hi = unat (r lo) + 2 ^ 32 * unat (r hi)"

lemma uint_int_unat: "uint x = int (unat x)"
  by (simp only: unat_eq_nat_uint nat_0_le uint_ge_0)

lemma split_address: "unat (ucast (a :: u64) :: u32) + 2 ^ 32 * unat (ucast (drop_bit 32 a) :: u32) = unat a"
proof -
  have lo: "unat (ucast a :: u32) = unat a mod 2 ^ 32" by (simp add: unsigned_ucast_eq take_bit_eq_mod)
  have "unat (drop_bit 32 a) = unat a div 2 ^ 32" by (simp add: drop_bit_eq_div unat_div_distrib)
  moreover have "unat a div 2 ^ 32 < 2 ^ 32" using unsigned_less [where ?'a = nat and w = a] by simp
  ultimately have hi: "unat (ucast (drop_bit 32 a) :: u32) = unat a div 2 ^ 32"
    by (simp add: unsigned_ucast_eq take_bit_eq_mod)
  show ?thesis unfolding lo hi by simp
qed

lemma configured_address:
  assumes "unat (dma_handle c) + unat off < 2 ^ 64"
  shows "unat (ucast (dma_handle c + ucast (off :: u32)) :: u32)
    + 2 ^ 32 * unat (ucast (drop_bit 32 (dma_handle c + ucast off)) :: u32) = unat (dma_handle c) + unat off"
proof -
  have "unat (ucast off :: u64) = unat off" by (simp add: unat_ucast_up)
  then show ?thesis unfolding split_address using assms by (simp add: unat_word_ariths)
qed

lemma configured_addresses:
  assumes "r = kargs (configure_dma_addresses c)" "unat (dma_handle c) + 0x13000 < 2 ^ 64"
  shows "reg_address r REG_IFMAP_LO REG_IFMAP_HI = unat (dma_handle c)"
    "reg_address r REG_W0_LO REG_W0_HI = unat (dma_handle c) + 0x8000"
    "reg_address r REG_W1_LO REG_W1_HI = unat (dma_handle c) + 0x9000"
    "reg_address r REG_W2_LO REG_W2_HI = unat (dma_handle c) + 0xb000"
    "reg_address r REG_OUTPUT_LO REG_OUTPUT_HI = unat (dma_handle c) + 0x10000"
proof -
  have "unat (dma_handle c) + unat off < 2 ^ 64" if "unat off \<le> 0x13000" for off :: u32
    using assms(2) that by simp
  note at = configured_address [OF this]
  show "reg_address r REG_IFMAP_LO REG_IFMAP_HI = unat (dma_handle c)"
    "reg_address r REG_W0_LO REG_W0_HI = unat (dma_handle c) + 0x8000"
    "reg_address r REG_W1_LO REG_W1_HI = unat (dma_handle c) + 0x9000"
    "reg_address r REG_W2_LO REG_W2_HI = unat (dma_handle c) + 0xb000"
    "reg_address r REG_OUTPUT_LO REG_OUTPUT_HI = unat (dma_handle c) + 0x10000"
    using at [of IFMAP_OFFSET] at [of W_CONV0_OFFSET] at [of W_CONV1_OFFSET] at [of W_CONV2_OFFSET]
      at [of OUTPUT_OFFSET]
    by (simp_all add: assms(1) configure_dma_addresses_def Let_def write_dma_address_def
        reg_address_def arg_regs dma_offsets)
qed

lemma set_parameters_registers:
  assumes "set_parameters c (Some p) = (c', None)"
  shows "kexec c' REG_RQ0_MUL = u_multiplier (u_requant p 0)" "kexec c' REG_RQ0_SHIFT = u_shift (u_requant p 0)"
    "kexec c' REG_RQ1_MUL = u_multiplier (u_requant p 1)" "kexec c' REG_RQ1_SHIFT = u_shift (u_requant p 1)"
    "kexec c' REG_RQ2_MUL = u_multiplier (u_requant p 2)" "kexec c' REG_RQ2_SHIFT = u_shift (u_requant p 2)"
    "i < 16 \<Longrightarrow> kexec c' (REG_B0 + i * 4) = u_bias0 p i"
    "i < 32 \<Longrightarrow> kexec c' (REG_B1 + i * 4) = u_bias1 p i"
    "i < 64 \<Longrightarrow> kexec c' (REG_B2 + i * 4) = u_bias2 p i"
    "kexec c' REG_AP_CTRL = kexec c REG_AP_CTRL" "parameters_set c'" "kargs c' = kargs c" "dma_handle c' = dma_handle c"
proof -
  have gap: "0x40 + i * 4 \<noteq> 0x80 + j * 4" "0x40 + i * 4 \<noteq> 0x100 + k * 4" "0x80 + j * 4 \<noteq> 0x100 + k * 4"
    if "i < 16" "j < 32" for i j k :: nat using that by simp_all
  show "kexec c' REG_RQ0_MUL = u_multiplier (u_requant p 0)" "kexec c' REG_RQ0_SHIFT = u_shift (u_requant p 0)"
    "kexec c' REG_RQ1_MUL = u_multiplier (u_requant p 1)" "kexec c' REG_RQ1_SHIFT = u_shift (u_requant p 1)"
    "kexec c' REG_RQ2_MUL = u_multiplier (u_requant p 2)" "kexec c' REG_RQ2_SHIFT = u_shift (u_requant p 2)"
    "i < 16 \<Longrightarrow> kexec c' (REG_B0 + i * 4) = u_bias0 p i"
    "i < 32 \<Longrightarrow> kexec c' (REG_B1 + i * 4) = u_bias1 p i"
    "i < 64 \<Longrightarrow> kexec c' (REG_B2 + i * 4) = u_bias2 p i"
    "kexec c' REG_AP_CTRL = kexec c REG_AP_CTRL" "parameters_set c'" "kargs c' = kargs c" "dma_handle c' = dma_handle c"
    using assms gap
    by (auto simp: set_parameters_def Let_def write_bias_at exec_regs split: if_splits)
qed

lemma time_before_elapsed:
  assumes "unat (j - j0) < 2 ^ 31" "unat d < 2 ^ 31"
  shows "time_before j (j0 + d) \<longleftrightarrow> unat (j - j0) < unat d"
proof -
  define e where "e = j - j0"
  have "word_of_int (uint e - uint d) = e - d" by (simp only: of_int_diff of_int_uint ucast_id)
  also have "\<dots> = j - (j0 + d)" by (simp add: e_def diff_diff_eq)
  finally have eq: "j - (j0 + d) = word_of_int (uint e - uint d)" ..
  define n m where "n = unat e" and "m = unat d"
  have "n < 2 ^ 31" "m < 2 ^ 31" using assms by (simp_all only: n_def m_def e_def)
  then have "sint (j - (j0 + d)) = int n - int m"
    by (intro sint_eq_of_range [OF eq [unfolded uint_int_unat, folded n_def m_def]]) simp_all
  then show ?thesis
    unfolding time_before_def e_def [symmetric] n_def [symmetric] m_def [symmetric] by simp
qed

lemma poll_done_find:
  assumes "\<forall>(ctrl, j) \<in> set rounds. unat (j - j0) < 2 ^ 31" "unat d < 2 ^ 31"
  shows "poll_done rounds (j0 + d) = map_option (\<lambda>(ctrl, j). if ctrl AND AP_DONE \<noteq> 0 then None else Some ETIMEDOUT)
    (find (\<lambda>(ctrl, j). ctrl AND AP_DONE \<noteq> 0 \<or> unat d \<le> unat (j - j0)) rounds)"
  using assms(1)
  by (induction rounds) (auto simp: time_before_elapsed [OF _ assms(2)] not_le not_less split: if_splits)

section \<open>Properties\<close>

text \<open>
  The registers hold what was asked for. Parameters are taken exactly when every shift is at
  most 63; then the three multipliers, the three shifts and the 16, 32 and 64 biases stand in their
  registers, none overwritten by another and the control register untouched; otherwise nothing at
  all has changed.
\<close>

theorem driver_parameters_exact:
  "case set_parameters c (Some p) of (c', res) \<Rightarrow>
     res = (if \<exists>i<3. 63 < u_shift (u_requant p i) then Some EINVAL else None)
     \<and> (if res = None
        then parameters_set c'
          \<and> [kexec c' REG_RQ0_MUL, kexec c' REG_RQ1_MUL, kexec c' REG_RQ2_MUL] = map (u_multiplier \<circ> u_requant p) [0, 1, 2]
          \<and> [kexec c' REG_RQ0_SHIFT, kexec c' REG_RQ1_SHIFT, kexec c' REG_RQ2_SHIFT] = map (u_shift \<circ> u_requant p) [0, 1, 2]
          \<and> map (\<lambda>i. kexec c' (0x40 + i * 4)) [0..<16] = map (u_bias0 p) [0..<16]
          \<and> map (\<lambda>i. kexec c' (0x80 + i * 4)) [0..<32] = map (u_bias1 p) [0..<32]
          \<and> map (\<lambda>i. kexec c' (0x100 + i * 4)) [0..<64] = map (u_bias2 p) [0..<64]
          \<and> kexec c' 0 = kexec c 0
        else c' = c)"
proof -
  obtain c' res where r: "set_parameters c (Some p) = (c', res)" by fastforce
  have three: "(\<exists>i<3. 63 < u_shift (u_requant p i)) \<longleftrightarrow> u_shift (u_requant p 0) > 63
      \<or> u_shift (u_requant p 1) > 63 \<or> u_shift (u_requant p 2) > 63"
    by (auto simp: numeral_3_eq_3 less_Suc_eq numeral_2_eq_2)
  have res: "res = (if \<exists>i<3. 63 < u_shift (u_requant p i) then Some EINVAL else None)" "res \<noteq> None \<Longrightarrow> c' = c"
    using r unfolding three by (auto simp: set_parameters_def Let_def split: if_splits)
  show ?thesis
  proof (cases "res = None")
    case True
    note regs = set_parameters_registers [OF r [unfolded True]]
    show ?thesis unfolding map_upt_eq_iff r prod.case
      using True res regs(1-6,11) regs(7-9) [unfolded exec_regs] regs(10) [unfolded exec_regs] by simp
  qed (use r res three in auto)
qed

text \<open>
  A run ends. With a timeout below half the clock's range, whatever the clock's value and
  wherever it wraps, the polling loop ends with the first round that sees DONE or comes after the
  timeout, and then answers success exactly when this round saw DONE; it is still running only when
  no round did either.
\<close>

theorem driver_run_ends:
  assumes "parameters_set c" "timeout_ms run \<noteq> 0" "unat (msecs_to_jiffies (timeout_ms run)) < 2 ^ 31"
    and "\<forall>(ctrl, j) \<in> set rounds. unat (j - j0) < 2 ^ 31"
  shows "snd (run_classifier msecs_to_jiffies c (Some run) j0 rounds)
    = map_option (\<lambda>(ctrl, j). if ctrl AND 2 \<noteq> 0 then None else Some ETIMEDOUT)
        (find (\<lambda>(ctrl, j). ctrl AND 2 \<noteq> 0 \<or> unat (msecs_to_jiffies (timeout_ms run)) \<le> unat (j - j0)) rounds)"
  using poll_done_find [OF assms(4,3)] assms(1,2) by (simp add: run_classifier_def Let_def AP_DONE_def)

theorem driver_run_ends_witness:
  "snd (run_classifier (\<lambda>ms. ms) \<lparr>kargs = (\<lambda>_. 0), kexec = (\<lambda>_. 0), dma_handle = 0x1000, parameters_set = True\<rparr>
     (Some \<lparr>timeout_ms = 100, reserved = 0\<rparr>) 0xfffffff0 [(1, 0xfffffff9), (4, 5), (0, 90)]) = Some (Some ETIMEDOUT)"
  by (subst driver_run_ends) simp_all

text \<open>
  A DONE that is left from a run that had timed out ends the next run in its first round.
\<close>

lemma driver_stale_done:
  assumes "parameters_set c" "timeout_ms run \<noteq> 0" "ctrl AND AP_DONE \<noteq> 0"
  shows "snd (run_classifier m c (Some run) j0 ((ctrl, j) # rounds)) = Some None"
  using assms by (simp add: run_classifier_def Let_def)

lemma probe_keeps_resources:
  assumes "classifier_probe W sys = (W', res)"
  shows "res \<noteq> None \<Longrightarrow> W' = W"
    and "res = None \<Longrightarrow> classifier_remove W' = W\<lparr>driver_data := driver_data W'\<rparr>"
  using assms by (auto simp: classifier_probe_def classifier_remove_def Let_def split: if_splits option.splits sum.splits)

end
