(* ===== verification/Classifier_Device.thy ===== *)
theory Classifier_Device
  imports Classifier_Driver
begin

text \<open>
  User space below the server: \<open>accelerator/classifier_buffers\<close> lays the buffers out,
  \<open>driver/classifier_device\<close> opens, maps, configures and runs the device through the driver's
  ioctls. Pointers into the mapping are byte offsets, NULL is None; \<open>uintptr_t\<close> is 32 bits on the
  Zynq. What the process holds (descriptors, mappings) is a state of its own.
\<close>

section \<open>The buffer layout\<close>

definition BUFFER_ALIGNMENT :: u32 where "BUFFER_ALIGNMENT = 0x1000"
definition BUFFER_SPAN :: u32 where "BUFFER_SPAN = 0x13000"
definition IFMAP_SIZE :: nat where "IFMAP_SIZE = 98 * 98 * 3"
definition W_CONV0_SIZE :: nat where "W_CONV0_SIZE = 16 * 3 * 3 * 3"
definition W_CONV1_SIZE :: nat where "W_CONV1_SIZE = 32 * 16 * 3 * 3"
definition W_CONV2_SIZE :: nat where "W_CONV2_SIZE = 64 * 32 * 3 * 3"
definition OUTPUT_SIZE :: nat where "OUTPUT_SIZE = 12 * 12 * 64"

lemmas buffer_sizes = IFMAP_SIZE_def W_CONV0_SIZE_def W_CONV1_SIZE_def W_CONV2_SIZE_def OUTPUT_SIZE_def

datatype buffer_status = BufferOk | BufferInvalidArgument | BufferTooSmall | BufferAddressOverflow

record buffer_addresses =
  at_ifmap :: u32
  at_w_conv0 :: u32
  at_w_conv1 :: u32
  at_w_conv2 :: u32
  at_output :: u32

record buffer_layout =
  reserved_base :: u32
  reserved_span :: u32
  addresses :: buffer_addresses

definition address_add_would_overflow :: "u32 \<Rightarrow> u32 \<Rightarrow> bool" where
  "address_add_would_overflow base offset \<longleftrightarrow> offset > - 1 - base"

definition make_layout ::
  "u32 \<Rightarrow> u32 \<Rightarrow> buffer_layout option \<Rightarrow> buffer_layout option \<times> buffer_status" where
  "make_layout base span layout =
     (if layout = None \<or> base = 0 then (layout, BufferInvalidArgument)
      else if base mod BUFFER_ALIGNMENT \<noteq> 0 then (layout, BufferInvalidArgument)
      else if span < BUFFER_SPAN then (layout, BufferTooSmall)
      else if address_add_would_overflow base (BUFFER_SPAN - 1) then (layout, BufferAddressOverflow)
      else (Some \<lparr>reserved_base = base, reserved_span = span,
              addresses = \<lparr>at_ifmap = base + IFMAP_OFFSET, at_w_conv0 = base + W_CONV0_OFFSET,
                at_w_conv1 = base + W_CONV1_OFFSET, at_w_conv2 = base + W_CONV2_OFFSET,
                at_output = base + OUTPUT_OFFSET\<rparr>\<rparr>, BufferOk))"

text \<open>The buffers as regions: where each starts and how many bytes it has.\<close>

definition layout_regions :: "buffer_layout \<Rightarrow> (nat \<times> nat) list" where
  "layout_regions L = (let a = addresses L in
     [(unat (at_ifmap a), IFMAP_SIZE), (unat (at_w_conv0 a), W_CONV0_SIZE), (unat (at_w_conv1 a), W_CONV1_SIZE),
      (unat (at_w_conv2 a), W_CONV2_SIZE), (unat (at_output a), OUTPUT_SIZE)])"

section \<open>The device\<close>

datatype device_status = DeviceOk | DeviceInvalidArgument | DeviceIoError | DeviceAbiMismatch

record device =
  dev_fd :: int
  dev_dma :: "nat option"
  dev_span :: u32

text \<open>What the process has open and mapped.\<close>

record process =
  proc_fds :: "int list"
  proc_maps :: "(nat \<times> u32) list"

definition device_null :: device where
  "device_null = \<lparr>dev_fd = - 1, dev_dma = None, dev_span = 0\<rparr>"

definition device_init :: "device option \<Rightarrow> device option" where
  "device_init d = map_option (\<lambda>_. device_null) d"

definition device_close :: "process \<Rightarrow> device \<Rightarrow> process \<times> device" where
  "device_close P d =
     (let P = (case dev_dma d of None \<Rightarrow> P
               | Some a \<Rightarrow> P\<lparr>proc_maps := remove1 (a, dev_span d) (proc_maps P)\<rparr>);
          P = (if dev_fd d \<ge> 0 then P\<lparr>proc_fds := remove1 (dev_fd d) (proc_fds P)\<rparr> else P)
      in (P, device_null))"

record device_sys =
  open_result :: int
  info_result :: "info_uapi option"
  mmap_result :: "nat option"

definition device_open ::
  "process \<Rightarrow> device option \<Rightarrow> string option \<Rightarrow> device_sys \<Rightarrow> process \<times> device option \<times> device_status" where
  "device_open P dev path sys =
     (case (dev, path) of
        (Some d, Some p) \<Rightarrow>
          if p = [] \<or> dev_fd d \<ge> 0 \<or> dev_dma d \<noteq> None then (P, dev, DeviceInvalidArgument)
          else let d = d\<lparr>dev_fd := open_result sys\<rparr> in
            if dev_fd d < 0 then (P, Some d, DeviceIoError)
            else let P = P\<lparr>proc_fds := dev_fd d # proc_fds P\<rparr> in
              (case info_result sys of
                 None \<Rightarrow> (case device_close P d of (P, d) \<Rightarrow> (P, Some d, DeviceIoError))
               | Some info \<Rightarrow>
                   if abi_version info \<noteq> ABI_VERSION \<or> dma_span info \<noteq> DMA_SPAN
                      \<or> ifmap_offset info \<noteq> IFMAP_OFFSET \<or> output_offset info \<noteq> OUTPUT_OFFSET
                   then (case device_close P d of (P, d) \<Rightarrow> (P, Some d, DeviceAbiMismatch))
                   else (case mmap_result sys of
                       None \<Rightarrow> (case device_close P d of (P, d) \<Rightarrow> (P, Some d, DeviceIoError))
                     | Some a \<Rightarrow> (P\<lparr>proc_maps := (a, dma_span info) # proc_maps P\<rparr>,
                                  Some (d\<lparr>dev_dma := Some a, dev_span := dma_span info\<rparr>), DeviceOk)))
      | _ \<Rightarrow> (P, dev, DeviceInvalidArgument))"

record pl_parameters =
  b_conv0 :: "nat \<Rightarrow> u32"
  b_conv1 :: "nat \<Rightarrow> u32"
  b_conv2 :: "nat \<Rightarrow> u32"
  rq_conv0 :: requant
  rq_conv1 :: requant
  rq_conv2 :: requant

definition requant_request :: "requant \<Rightarrow> requant_uapi" where
  "requant_request rq = \<lparr>u_multiplier = rq_multiplier rq, u_shift = ucast (rq_shift rq)\<rparr>"

text \<open>The request is cleared, then filled.\<close>

definition parameters_request :: "pl_parameters \<Rightarrow> parameters_uapi" where
  "parameters_request p =
     \<lparr>u_requant = (\<lambda>_. \<lparr>u_multiplier = 0, u_shift = 0\<rparr>)(0 := requant_request (rq_conv0 p),
        1 := requant_request (rq_conv1 p), 2 := requant_request (rq_conv2 p)),
      u_bias0 = (\<lambda>i. if i < 16 then b_conv0 p i else 0),
      u_bias1 = (\<lambda>i. if i < 32 then b_conv1 p i else 0),
      u_bias2 = (\<lambda>i. if i < 64 then b_conv2 p i else 0)\<rparr>"

text \<open>The calls reach the driver; a call that does not return has no status.\<close>

definition device_load_parameters ::
  "(u32 \<Rightarrow> u32) \<Rightarrow> device option \<Rightarrow> pl_parameters option \<Rightarrow> ioctl_env \<Rightarrow> classifier_dev
     \<Rightarrow> classifier_dev \<times> device_status option" where
  "device_load_parameters msecs_to_jiffies dev parameters env c =
     (case (dev, parameters) of
        (Some d, Some p) \<Rightarrow>
          if dev_fd d < 0 then (c, Some DeviceInvalidArgument)
          else (case classifier_ioctl msecs_to_jiffies c IOC_SET_PARAMETERS
                       (env\<lparr>in_parameters := Some (parameters_request p)\<rparr>) of
                  (c, r, _) \<Rightarrow> (c, map_option (\<lambda>e. if e = None then DeviceOk else DeviceIoError) r))
      | _ \<Rightarrow> (c, Some DeviceInvalidArgument))"

definition device_run ::
  "(u32 \<Rightarrow> u32) \<Rightarrow> device option \<Rightarrow> u32 \<Rightarrow> ioctl_env \<Rightarrow> classifier_dev
     \<Rightarrow> classifier_dev \<times> device_status option" where
  "device_run msecs_to_jiffies dev timeout env c =
     (case dev of
        Some d \<Rightarrow>
          if dev_fd d < 0 \<or> timeout = 0 then (c, Some DeviceInvalidArgument)
          else (case classifier_ioctl msecs_to_jiffies c IOC_RUN
                       (env\<lparr>in_run := Some \<lparr>timeout_ms = timeout, reserved = 0\<rparr>\<rparr>) of
                  (c, r, _) \<Rightarrow> (c, map_option (\<lambda>e. if e = None then DeviceOk else DeviceIoError) r))
      | None \<Rightarrow> (c, Some DeviceInvalidArgument))"

definition buffer_at :: "device option \<Rightarrow> u32 \<Rightarrow> nat option" where
  "buffer_at dev offset =
     (case dev of Some d \<Rightarrow> if dev_dma d \<noteq> None \<and> offset < dev_span d then Some (unat offset) else None
      | None \<Rightarrow> None)"

definition device_ifmap :: "device option \<Rightarrow> nat option" where
  "device_ifmap dev = buffer_at dev IFMAP_OFFSET"
definition device_w_conv0 :: "device option \<Rightarrow> nat option" where
  "device_w_conv0 dev = buffer_at dev W_CONV0_OFFSET"
definition device_w_conv1 :: "device option \<Rightarrow> nat option" where
  "device_w_conv1 dev = buffer_at dev W_CONV1_OFFSET"
definition device_w_conv2 :: "device option \<Rightarrow> nat option" where
  "device_w_conv2 dev = buffer_at dev W_CONV2_OFFSET"
definition device_output :: "device option \<Rightarrow> nat option" where
  "device_output dev = buffer_at dev OUTPUT_OFFSET"

lemmas device_buffers = device_ifmap_def device_w_conv0_def device_w_conv1_def device_w_conv2_def
  device_output_def

section \<open>The calls on the driver\<close>

lemma ioc_commands [simp]:
  "ioc_type IOC_SET_PARAMETERS = 0x41" "ioc_type IOC_RUN = 0x41" "IOC_SET_PARAMETERS \<noteq> IOC_GET_INFO"
  "IOC_RUN \<noteq> IOC_GET_INFO" "IOC_RUN \<noteq> IOC_SET_PARAMETERS" "ioc_type IOC_GET_INFO = 0x41"
  by (simp_all add: ioc_type_def IOC_SET_PARAMETERS_def IOC_RUN_def IOC_GET_INFO_def ioc_def)

lemma open_buffers:
  assumes "dev_dma d = Some a" "dev_span d = DMA_SPAN"
  shows "device_ifmap (Some d) = Some 0" "device_w_conv0 (Some d) = Some 0x8000"
    "device_w_conv1 (Some d) = Some 0x9000" "device_w_conv2 (Some d) = Some 0xb000"
    "device_output (Some d) = Some 0x10000"
  using assms by (simp_all add: device_buffers buffer_at_def dma_offsets)

lemma load_parameters_ok:
  assumes "device_load_parameters m (Some d) (Some p) env c = (c', Some DeviceOk)"
  shows "set_parameters c (Some (parameters_request p)) = (c', None)"
  using assms
  by (auto simp: device_load_parameters_def classifier_ioctl_def split: if_splits prod.splits option.splits)

lemma run_ok:
  assumes "device_run m (Some d) t env c = (c', Some DeviceOk)"
  shows "parameters_set c \<and> 0 \<le> dev_fd d \<and> t \<noteq> 0
    \<and> c' = (configure_dma_addresses c)\<lparr>kexec := (kexec (configure_dma_addresses c))(REG_AP_CTRL := AP_START)\<rparr>"
  using assms
  by (auto simp: device_run_def classifier_ioctl_def run_classifier_def Let_def split: if_splits prod.splits option.splits)


section \<open>The layout in numbers\<close>

lemma add_offset:
  assumes "unat base + 0x13000 \<le> 2 ^ 32" "unat off < 0x13000"
  shows "unat (base + off :: u32) = unat base + unat off"
proof -
  have "unat base + unat off < 2 ^ 32" using assms by linarith
  then show ?thesis by (simp add: unat_word_ariths)
qed

lemma span_fits: "address_add_would_overflow base (BUFFER_SPAN - 1) \<longleftrightarrow> 2 ^ 32 < unat base + 0x13000"
proof -
  have m: "unat (- 1 :: u32) = 2 ^ 32 - 1" by (simp only: unsigned_minus_1_eq_mask) (simp add: mask_eq_exp_minus_1)
  have lt: "unat base < 2 ^ 32" using unsigned_less [where ?'a = nat and w = base] by simp
  then have "unat (- 1 - base) = 2 ^ 32 - 1 - unat base"
    by (subst unat_sub) (simp_all only: m word_order.extremum)
  then show ?thesis
    using lt by (simp add: address_add_would_overflow_def word_less_nat_alt BUFFER_SPAN_def) linarith
qed

lemma aligned_nat: "base mod BUFFER_ALIGNMENT = 0 \<longleftrightarrow> 4096 dvd unat base"
proof -
  have "base mod BUFFER_ALIGNMENT = 0 \<longleftrightarrow> unat (base mod BUFFER_ALIGNMENT) = 0" by (simp only: unat_eq_zero)
  also have "unat (base mod BUFFER_ALIGNMENT) = unat base mod 4096"
    by (simp only: unat_mod_distrib) (simp add: BUFFER_ALIGNMENT_def)
  finally show ?thesis by (simp only: dvd_eq_mod_eq_0)
qed

lemma layout_status:
  "snd (make_layout base span (Some L)) = BufferOk
    \<longleftrightarrow> base \<noteq> 0 \<and> 4096 dvd unat base \<and> 0x13000 \<le> unat span \<and> unat base + 0x13000 \<le> 2 ^ 32"
  unfolding make_layout_def aligned_nat span_fits
  by (simp add: BUFFER_SPAN_def word_less_nat_alt not_less)

section \<open>Properties\<close>

text \<open>
  The buffers are apart. A layout is made exactly for a base that is not 0, on a page boundary,
  with room for the span and without running over the address space; then the five buffers begin
  on page boundaries, lie one behind the other without overlapping, and all their bytes lie in the
  reserved region. Otherwise the caller's layout is left as it was.
\<close>

theorem layout_regions_apart:
  "case make_layout base span (Some L) of (R, st) \<Rightarrow>
     (st = BufferOk \<longleftrightarrow> base \<noteq> 0 \<and> 4096 dvd unat base \<and> 0x13000 \<le> unat span \<and> unat base + 0x13000 \<le> 2 ^ 32)
     \<and> (if st = BufferOk
        then sorted_wrt (\<lambda>(a, n) (b, m). a + n \<le> b) (layout_regions (the R))
          \<and> list_all (\<lambda>(a, n). 4096 dvd a \<and> unat base \<le> a \<and> a + n \<le> unat base + unat span) (layout_regions (the R))
          \<and> map snd (layout_regions (the R)) = [98 * 98 * 3, 16 * 3 * 3 * 3, 32 * 16 * 3 * 3, 64 * 32 * 3 * 3, 12 * 12 * 64]
        else R = Some L)"
proof (cases "snd (make_layout base span (Some L)) = BufferOk")
  case True
  then have ok: "4096 dvd unat base" "0x13000 \<le> unat span" "unat base + 0x13000 \<le> 2 ^ 32" by (simp_all add: layout_status)
  have at: "unat (base + IFMAP_OFFSET) = unat base" "unat (base + W_CONV0_OFFSET) = unat base + 0x8000"
    "unat (base + W_CONV1_OFFSET) = unat base + 0x9000" "unat (base + W_CONV2_OFFSET) = unat base + 0xb000"
    "unat (base + OUTPUT_OFFSET) = unat base + 0x10000"
    by (simp_all add: add_offset [OF ok(3)] dma_offsets)
  have made: "make_layout base span (Some L) = (Some \<lparr>reserved_base = base, reserved_span = span,
              addresses = \<lparr>at_ifmap = base + IFMAP_OFFSET, at_w_conv0 = base + W_CONV0_OFFSET,
                at_w_conv1 = base + W_CONV1_OFFSET, at_w_conv2 = base + W_CONV2_OFFSET,
                at_output = base + OUTPUT_OFFSET\<rparr>\<rparr>, BufferOk)"
    using True by (auto simp: make_layout_def split: if_splits)
  then show ?thesis using True ok layout_status [of base span L]
    by (simp add: layout_regions_def at buffer_sizes)
next
  case False
  moreover have "fst (make_layout base span (Some L)) = Some L"
    using False by (auto simp: make_layout_def split: if_splits)
  ultimately show ?thesis using layout_status [of base span L] by (auto split: prod.split)
qed

lemma device_open_result:
  "case device_open P (Some device_null) path sys of (P', d, st) \<Rightarrow>
     (if st = DeviceOk
      then [device_ifmap d, device_w_conv0 d, device_w_conv1 d, device_w_conv2 d, device_output d]
             = map Some [0, 0x8000, 0x9000, 0xb000, 0x10000]
        \<and> proc_maps P' \<noteq> proc_maps P \<and> device_close P' (the d) = (P, device_null)
      else P' = P \<and> dev_fd (the d) < 0 \<and> device_ifmap d = None \<and> device_output d = None)"
proof -
  have "map_option dev_dma d = Some None" if "st \<noteq> DeviceOk" "device_open P (Some device_null) path sys = (P', d, st)" for P' d st
    using that by (auto simp: device_open_def device_null_def Let_def device_close_def split: if_splits option.splits prod.splits)
  then show ?thesis
    by (auto simp: device_open_def device_null_def Let_def device_close_def device_buffers buffer_at_def dma_offsets
        split: if_splits option.splits prod.splits)
qed

text \<open>
  Opening is all or nothing. From an unused device, a failed open leaves no descriptor and no
  mapping behind and no pointer to use; after a successful one the five buffers are there, at the
  offsets the driver programs, and closing gives back exactly what was opened.
\<close>

theorem device_open_close:
  "case device_open P (Some device_null) path sys of (P', d, st) \<Rightarrow>
     (if st = DeviceOk
      then [device_ifmap d, device_w_conv0 d, device_w_conv1 d, device_w_conv2 d, device_output d]
             = map Some [0, 0x8000, 0x9000, 0xb000, 0x10000]
        \<and> proc_maps P' \<noteq> proc_maps P \<and> device_close P' (the d) = (P, device_null)
      else P' = P \<and> dev_fd (the d) < 0 \<and> device_ifmap d = None \<and> device_output d = None)"
  by (rule device_open_result)

end
