(* ===== verification/Classifier_Model.thy ===== *)
theory Classifier_Model
  imports Classifier_Device
begin

text \<open>
  \<open>model/classifier_model\<close>: the eight files of a model are read with their exact sizes or not at
  all. A file is what its stream gives: bytes, then the end or a read error; \<open>malloc\<close> answers are
  arguments, and the number of live allocations is a state, so that a leak would show.
\<close>

unbundle bit_operations_syntax

section \<open>State\<close>

datatype model_status = ModelOk | ModelInvalidArgument | ModelIoError | ModelSizeMismatch | ModelOutOfMemory

record model_metadata =
  md_class_count :: u32
  md_gap_divisor :: u32
  md_rq_conv0 :: requant
  md_rq_conv1 :: requant
  md_rq_conv2 :: requant

record model =
  m_w_conv0 :: "nat \<Rightarrow> 8 word"
  m_w_conv1 :: "nat \<Rightarrow> 8 word"
  m_w_conv2 :: "nat \<Rightarrow> 8 word"
  m_pl_parameters :: pl_parameters
  m_fc_weights :: "(nat \<Rightarrow> 8 word) option"
  m_fc_biases :: "(nat \<Rightarrow> u32) option"
  m_class_count :: u32
  m_gap_divisor :: u32

definition requant_null :: requant where
  "requant_null = \<lparr>rq_multiplier = 0, rq_shift = 0\<rparr>"

definition model_null :: model where
  "model_null = \<lparr>m_w_conv0 = (\<lambda>_. 0), m_w_conv1 = (\<lambda>_. 0), m_w_conv2 = (\<lambda>_. 0),
     m_pl_parameters = \<lparr>b_conv0 = (\<lambda>_. 0), b_conv1 = (\<lambda>_. 0), b_conv2 = (\<lambda>_. 0),
       rq_conv0 = requant_null, rq_conv1 = requant_null, rq_conv2 = requant_null\<rparr>,
     m_fc_weights = None, m_fc_biases = None, m_class_count = 0, m_gap_divisor = 0\<rparr>"

definition model_init :: "model option \<Rightarrow> model option" where
  "model_init m = map_option (\<lambda>_. model_null) m"

record disk_file =
  content :: "8 word list"
  read_fails :: bool
  close_ok :: bool

text \<open>\<open>content\<close> is what can be read; \<open>read_fails\<close>: an error, not the end, comes behind it.\<close>

type_synonym file_system = "string \<Rightarrow> disk_file option"

section \<open>Reading a file\<close>

definition PATH_CAPACITY :: nat where "PATH_CAPACITY = 4096"

definition make_path :: "string \<Rightarrow> string \<Rightarrow> string option" where
  "make_path directory filename =
     (let separator = (if length directory > 0 \<and> directory ! (length directory - 1) = CHR ''/'' then '''' else ''/'');
          path = directory @ separator @ filename
      in if length path \<ge> PATH_CAPACITY then None else Some path)"

text \<open>What reaches the destination, and the status.\<close>

definition read_exact_file ::
  "file_system \<Rightarrow> string \<Rightarrow> string \<Rightarrow> nat \<Rightarrow> 8 word list \<times> model_status" where
  "read_exact_file fs directory filename expected_size =
     (case make_path directory filename of
        None \<Rightarrow> ([], ModelInvalidArgument)
      | Some path \<Rightarrow> (case fs path of
          None \<Rightarrow> ([], ModelIoError)
        | Some f \<Rightarrow>
            let bytes = take expected_size (content f) in
            if length bytes \<noteq> expected_size
            then (bytes, if read_fails f then ModelIoError else ModelSizeMismatch)
            else if length (content f) > expected_size then (bytes, ModelSizeMismatch)
            else if read_fails f then (bytes, ModelIoError)
            else if \<not> close_ok f then (bytes, ModelIoError)
            else (bytes, ModelOk)))"

definition store :: "8 word list \<Rightarrow> (nat \<Rightarrow> 8 word) \<Rightarrow> nat \<Rightarrow> 8 word" where
  "store bytes dest = (\<lambda>i. if i < length bytes then bytes ! i else dest i)"

text \<open>\<open>int32_t\<close> arrays: the Zynq is little-endian. An entry that is only partly read is left out; a
  short read is an error, after which the model is cleared.\<close>

definition le32 :: "8 word list \<Rightarrow> nat \<Rightarrow> u32" where
  "le32 bytes i = ucast (bytes ! (4 * i)) OR push_bit 8 (ucast (bytes ! (4 * i + 1)))
     OR push_bit 16 (ucast (bytes ! (4 * i + 2))) OR push_bit 24 (ucast (bytes ! (4 * i + 3)))"

definition store32 :: "8 word list \<Rightarrow> (nat \<Rightarrow> u32) \<Rightarrow> nat \<Rightarrow> u32" where
  "store32 bytes dest = (\<lambda>i. if 4 * i + 3 < length bytes then le32 bytes i else dest i)"

section \<open>Loading and unloading\<close>

definition model_unload :: "nat \<Rightarrow> model \<Rightarrow> nat \<times> model" where
  "model_unload live m =
     (let live = (if m_fc_weights m \<noteq> None then live - 1 else live);
          live = (if m_fc_biases m \<noteq> None then live - 1 else live)
      in (live, model_null))"

text \<open>One file after the other, each only when all before it were read.\<close>

definition next_file ::
  "file_system \<Rightarrow> string \<Rightarrow> string \<Rightarrow> nat \<Rightarrow> (8 word list \<Rightarrow> model \<Rightarrow> model) \<Rightarrow> model \<times> model_status
     \<Rightarrow> model \<times> model_status" where
  "next_file fs directory filename len put = (\<lambda>(m, status).
     if status \<noteq> ModelOk then (m, status)
     else (case read_exact_file fs directory filename len of (bytes, status) \<Rightarrow> (put bytes m, status)))"

definition put_pl :: "(pl_parameters \<Rightarrow> pl_parameters) \<Rightarrow> model \<Rightarrow> model" where
  "put_pl f m = m\<lparr>m_pl_parameters := f (m_pl_parameters m)\<rparr>"

definition read_model :: "file_system \<Rightarrow> string \<Rightarrow> nat \<Rightarrow> nat \<Rightarrow> model \<Rightarrow> model \<times> model_status" where
  "read_model fs dir fc_weight_size fc_bias_size m =
     (let r = (m, ModelOk);
          r = next_file fs dir ''w_conv0.bin'' W_CONV0_SIZE (\<lambda>b m. m\<lparr>m_w_conv0 := store b (m_w_conv0 m)\<rparr>) r;
          r = next_file fs dir ''w_conv1.bin'' W_CONV1_SIZE (\<lambda>b m. m\<lparr>m_w_conv1 := store b (m_w_conv1 m)\<rparr>) r;
          r = next_file fs dir ''w_conv2.bin'' W_CONV2_SIZE (\<lambda>b m. m\<lparr>m_w_conv2 := store b (m_w_conv2 m)\<rparr>) r;
          r = next_file fs dir ''b_conv0.bin'' (16 * 4) (\<lambda>b. put_pl (\<lambda>p. p\<lparr>b_conv0 := store32 b (b_conv0 p)\<rparr>)) r;
          r = next_file fs dir ''b_conv1.bin'' (32 * 4) (\<lambda>b. put_pl (\<lambda>p. p\<lparr>b_conv1 := store32 b (b_conv1 p)\<rparr>)) r;
          r = next_file fs dir ''b_conv2.bin'' (64 * 4) (\<lambda>b. put_pl (\<lambda>p. p\<lparr>b_conv2 := store32 b (b_conv2 p)\<rparr>)) r;
          r = next_file fs dir ''fc_weight.bin'' fc_weight_size
                (\<lambda>b m. m\<lparr>m_fc_weights := map_option (store b) (m_fc_weights m)\<rparr>) r;
          r = next_file fs dir ''fc_bias.bin'' fc_bias_size
                (\<lambda>b m. m\<lparr>m_fc_biases := map_option (store32 b) (m_fc_biases m)\<rparr>) r
      in r)"

text \<open>The answers of the two \<open>malloc\<close> calls: what the block holds, or None.\<close>

definition model_load ::
  "file_system \<Rightarrow> (nat \<Rightarrow> 8 word) option \<Rightarrow> (nat \<Rightarrow> u32) option \<Rightarrow> nat \<Rightarrow> model option \<Rightarrow> string option
     \<Rightarrow> model_metadata option \<Rightarrow> nat \<times> model option \<times> model_status" where
  "model_load fs malloc_weights malloc_biases live mp directory metadata =
     (case (mp, directory, metadata) of
        (Some m, Some dir, Some md) \<Rightarrow>
          if dir = [] \<or> md_class_count md = 0 \<or> md_gap_divisor md = 0
             \<or> m_fc_weights m \<noteq> None \<or> m_fc_biases m \<noteq> None then (live, mp, ModelInvalidArgument)
          else if md_class_count md > - 1 div 64 \<or> md_class_count md > - 1 div 4
          then (live, mp, ModelInvalidArgument)
          else let fc_weight_size = md_class_count md * 64;
                   fc_bias_size = md_class_count md * 4;
                   m = m\<lparr>m_fc_weights := malloc_weights, m_fc_biases := malloc_biases\<rparr>;
                   live = live + (if malloc_weights \<noteq> None then 1 else 0)
                               + (if malloc_biases \<noteq> None then 1 else 0)
               in if m_fc_weights m = None \<or> m_fc_biases m = None
                  then (case model_unload live m of (live, m) \<Rightarrow> (live, Some m, ModelOutOfMemory))
                  else (case read_model fs dir (unat fc_weight_size) (unat fc_bias_size) m of (m, status) \<Rightarrow>
                    if status \<noteq> ModelOk
                    then (case model_unload live m of (live, m) \<Rightarrow> (live, Some m, status))
                    else (live, Some (put_pl (\<lambda>p. p\<lparr>rq_conv0 := md_rq_conv0 md, rq_conv1 := md_rq_conv1 md,
                                                   rq_conv2 := md_rq_conv2 md\<rparr>) m
                                  \<lparr>m_class_count := md_class_count md, m_gap_divisor := md_gap_divisor md\<rparr>), ModelOk))
      | _ \<Rightarrow> (live, mp, ModelInvalidArgument))"

section \<open>The files of a model\<close>

definition model_files :: "nat \<Rightarrow> (string \<times> nat) list" where
  "model_files n = [(''w_conv0.bin'', 16 * 3 * 3 * 3), (''w_conv1.bin'', 32 * 16 * 3 * 3),
     (''w_conv2.bin'', 64 * 32 * 3 * 3), (''b_conv0.bin'', 64), (''b_conv1.bin'', 128),
     (''b_conv2.bin'', 256), (''fc_weight.bin'', 64 * n), (''fc_bias.bin'', 4 * n)]"

definition file_status :: "file_system \<Rightarrow> string \<Rightarrow> string \<times> nat \<Rightarrow> model_status" where
  "file_status fs dir = (\<lambda>(name, n). snd (read_exact_file fs dir name n))"

definition file_bytes :: "file_system \<Rightarrow> string \<Rightarrow> string \<Rightarrow> 8 word list" where
  "file_bytes fs dir name = (case make_path dir name of None \<Rightarrow> []
     | Some path \<Rightarrow> (case fs path of None \<Rightarrow> [] | Some f \<Rightarrow> content f))"

lemma read_exact_file_ok:
  "snd (read_exact_file fs dir name n) = ModelOk
    \<longleftrightarrow> (\<exists>path f. make_path dir name = Some path \<and> fs path = Some f \<and> length (content f) = n
          \<and> \<not> read_fails f \<and> close_ok f)"
  by (auto simp: read_exact_file_def Let_def split: option.splits if_splits)

lemma read_exact_file_bytes:
  assumes "read_exact_file fs dir name n = (bytes, ModelOk)"
  shows "bytes = file_bytes fs dir name" "length bytes = n"
  using assms by (auto simp: read_exact_file_def file_bytes_def Let_def split: option.splits if_splits)

lemma next_file_simps:
  "status \<noteq> ModelOk \<Longrightarrow> next_file fs dir name n put (m, status) = (m, status)"
  "read_exact_file fs dir name n = (bytes, st) \<Longrightarrow> next_file fs dir name n put (m, ModelOk) = (put bytes m, st)"
  by (simp_all add: next_file_def)

text \<open>The chain stops at the first file that cannot be read, with its status.\<close>

definition chain_status :: "file_system \<Rightarrow> string \<Rightarrow> (string \<times> nat) list \<Rightarrow> model_status" where
  "chain_status fs dir files =
     (case find (\<lambda>f. file_status fs dir f \<noteq> ModelOk) files of None \<Rightarrow> ModelOk | Some f \<Rightarrow> file_status fs dir f)"

lemma next_file_status:
  "snd (next_file fs dir name n put r) = (if snd r \<noteq> ModelOk then snd r else file_status fs dir (name, n))"
  by (auto simp: next_file_def file_status_def split: prod.splits)

lemma next_file_model:
  "snd (next_file fs dir name n put r) = ModelOk
    \<Longrightarrow> fst (next_file fs dir name n put r) = put (file_bytes fs dir name) (fst r) \<and> snd r = ModelOk
      \<and> length (file_bytes fs dir name) = n"
  by (cases r) (auto simp: next_file_def dest: read_exact_file_bytes split: prod.splits if_splits)

lemma read_model_status:
  "snd (read_model fs dir (64 * n) (4 * n) m) = chain_status fs dir (model_files n)"
  by (simp add: read_model_def Let_def next_file_status chain_status_def model_files_def buffer_sizes)

lemma store_map: "length b = n \<Longrightarrow> map (store b d) [0..<n] = b"
  by (rule nth_equalityI) (simp_all add: store_def)

lemma store32_at: "length b = 4 * n \<Longrightarrow> i < n \<Longrightarrow> store32 b d i = le32 b i"
  by (simp add: store32_def)

lemma next_file_allocated:
  assumes "\<And>b m. (m_fc_weights (put b m) = None \<longleftrightarrow> m_fc_weights m = None)
      \<and> (m_fc_biases (put b m) = None \<longleftrightarrow> m_fc_biases m = None)"
  shows "(m_fc_weights (fst (next_file fs dir name n put r)) = None \<longleftrightarrow> m_fc_weights (fst r) = None)
    \<and> (m_fc_biases (fst (next_file fs dir name n put r)) = None \<longleftrightarrow> m_fc_biases (fst r) = None)"
  using assms by (auto simp: next_file_def split: prod.splits)

lemma read_model_allocated:
  assumes "read_model fs dir a b (m\<lparr>m_fc_weights := Some mw, m_fc_biases := Some mb\<rparr>) = (m', st)"
  shows "m_fc_weights m' \<noteq> None" "m_fc_biases m' \<noteq> None"
proof -
  have "m' = fst (read_model fs dir a b (m\<lparr>m_fc_weights := Some mw, m_fc_biases := Some mb\<rparr>))"
    using assms by simp
  then show "m_fc_weights m' \<noteq> None" "m_fc_biases m' \<noteq> None"
    unfolding read_model_def Let_def by (simp_all add: next_file_allocated put_pl_def)
qed

lemma read_model_ok:
  assumes "read_model fs dir (64 * n) (4 * n) m = (m', ModelOk)" "m_fc_weights m = Some mw" "m_fc_biases m = Some mb"
  shows "m' = \<lparr>m_w_conv0 = store (file_bytes fs dir ''w_conv0.bin'') (m_w_conv0 m),
      m_w_conv1 = store (file_bytes fs dir ''w_conv1.bin'') (m_w_conv1 m),
      m_w_conv2 = store (file_bytes fs dir ''w_conv2.bin'') (m_w_conv2 m),
      m_pl_parameters = (m_pl_parameters m)
        \<lparr>b_conv0 := store32 (file_bytes fs dir ''b_conv0.bin'') (b_conv0 (m_pl_parameters m)),
         b_conv1 := store32 (file_bytes fs dir ''b_conv1.bin'') (b_conv1 (m_pl_parameters m)),
         b_conv2 := store32 (file_bytes fs dir ''b_conv2.bin'') (b_conv2 (m_pl_parameters m))\<rparr>,
      m_fc_weights = Some (store (file_bytes fs dir ''fc_weight.bin'') mw),
      m_fc_biases = Some (store32 (file_bytes fs dir ''fc_bias.bin'') mb),
      m_class_count = m_class_count m, m_gap_divisor = m_gap_divisor m\<rparr>"
    and "list_all (\<lambda>(name, k). length (file_bytes fs dir name) = k) (model_files n)"
proof -
  have ok: "snd (read_model fs dir (64 * n) (4 * n) m) = ModelOk" using assms(1) by simp
  note steps = ok [unfolded read_model_def Let_def, THEN next_file_model]
  note m7 = steps [THEN conjunct2, THEN conjunct1, THEN next_file_model]
  note m6 = m7 [THEN conjunct2, THEN conjunct1, THEN next_file_model]
  note m5 = m6 [THEN conjunct2, THEN conjunct1, THEN next_file_model]
  note m4 = m5 [THEN conjunct2, THEN conjunct1, THEN next_file_model]
  note m3 = m4 [THEN conjunct2, THEN conjunct1, THEN next_file_model]
  note m2 = m3 [THEN conjunct2, THEN conjunct1, THEN next_file_model]
  note m1 = m2 [THEN conjunct2, THEN conjunct1, THEN next_file_model]
  note lens = m1 m2 m3 m4 m5 m6 m7 steps
  have "m' = fst (read_model fs dir (64 * n) (4 * n) m)" using assms(1) by simp
  also have "\<dots> = \<lparr>m_w_conv0 = store (file_bytes fs dir ''w_conv0.bin'') (m_w_conv0 m),
      m_w_conv1 = store (file_bytes fs dir ''w_conv1.bin'') (m_w_conv1 m),
      m_w_conv2 = store (file_bytes fs dir ''w_conv2.bin'') (m_w_conv2 m),
      m_pl_parameters = (m_pl_parameters m)
        \<lparr>b_conv0 := store32 (file_bytes fs dir ''b_conv0.bin'') (b_conv0 (m_pl_parameters m)),
         b_conv1 := store32 (file_bytes fs dir ''b_conv1.bin'') (b_conv1 (m_pl_parameters m)),
         b_conv2 := store32 (file_bytes fs dir ''b_conv2.bin'') (b_conv2 (m_pl_parameters m))\<rparr>,
      m_fc_weights = Some (store (file_bytes fs dir ''fc_weight.bin'') mw),
      m_fc_biases = Some (store32 (file_bytes fs dir ''fc_bias.bin'') mb),
      m_class_count = m_class_count m, m_gap_divisor = m_gap_divisor m\<rparr>"
    unfolding read_model_def Let_def
    by (simp only: steps m7 m6 m5 m4 m3 m2 m1 fst_conv) (simp add: put_pl_def assms(2,3))
  finally show "m' = \<dots>" .
  show "list_all (\<lambda>(name, k). length (file_bytes fs dir name) = k) (model_files n)"
    using lens by (simp add: model_files_def buffer_sizes)
qed

lemma chain_status_ok:
  "chain_status fs dir files = ModelOk \<longleftrightarrow> (\<forall>(name, n) \<in> set files.
     \<exists>path f. make_path dir name = Some path \<and> fs path = Some f \<and> length (content f) = n \<and> \<not> read_fails f \<and> close_ok f)"
proof -
  have "chain_status fs dir files = ModelOk \<longleftrightarrow> (\<forall>f \<in> set files. file_status fs dir f = ModelOk)"
    by (auto simp: chain_status_def find_None_iff find_Some_iff split: option.splits)
  then show ?thesis by (auto simp: file_status_def read_exact_file_ok split: prod.splits)
qed

lemma class_count_fits: "\<not> (c > - 1 div 64 \<or> c > - 1 div 4) \<longleftrightarrow> 64 * unat c < 2 ^ 32" for c :: u32
proof -
  have "unat (- 1 div k :: u32) = (2 ^ 32 - 1) div unat k" for k :: u32
    by (simp only: unat_div_distrib unsigned_minus_1_eq_mask) (simp add: mask_eq_exp_minus_1)
  then show ?thesis by (simp add: word_less_nat_alt not_less) linarith
qed

section \<open>Properties\<close>

lemma model_load_result:
  "case model_load fs mw mb live (Some model_null) (Some dir) (Some md) of (live', m', st) \<Rightarrow>
     st = (if dir = [] \<or> md_class_count md = 0 \<or> md_gap_divisor md = 0 \<or> 2 ^ 32 \<le> 64 * unat (md_class_count md)
           then ModelInvalidArgument
           else if mw = None \<or> mb = None then ModelOutOfMemory
           else chain_status fs dir (model_files (unat (md_class_count md))))
     \<and> (if st = ModelOk
        then live' = live + 2 \<and> m' \<noteq> None
          \<and> m_fc_weights (the m') \<noteq> None \<and> m_fc_biases (the m') \<noteq> None
          \<and> map (m_w_conv0 (the m')) [0..<432] = file_bytes fs dir ''w_conv0.bin''
          \<and> map (m_w_conv1 (the m')) [0..<4608] = file_bytes fs dir ''w_conv1.bin''
          \<and> map (m_w_conv2 (the m')) [0..<18432] = file_bytes fs dir ''w_conv2.bin''
          \<and> (\<forall>i<16. b_conv0 (m_pl_parameters (the m')) i = le32 (file_bytes fs dir ''b_conv0.bin'') i)
          \<and> (\<forall>i<32. b_conv1 (m_pl_parameters (the m')) i = le32 (file_bytes fs dir ''b_conv1.bin'') i)
          \<and> (\<forall>i<64. b_conv2 (m_pl_parameters (the m')) i = le32 (file_bytes fs dir ''b_conv2.bin'') i)
          \<and> map (the (m_fc_weights (the m'))) [0..<64 * unat (md_class_count md)] = file_bytes fs dir ''fc_weight.bin''
          \<and> (\<forall>i<unat (md_class_count md). the (m_fc_biases (the m')) i = le32 (file_bytes fs dir ''fc_bias.bin'') i)
          \<and> m_class_count (the m') = md_class_count md \<and> m_gap_divisor (the m') = md_gap_divisor md
          \<and> rq_conv0 (m_pl_parameters (the m')) = md_rq_conv0 md
          \<and> rq_conv1 (m_pl_parameters (the m')) = md_rq_conv1 md
          \<and> rq_conv2 (m_pl_parameters (the m')) = md_rq_conv2 md
        else live' = live \<and> m' = Some model_null)"
proof -
  have null: "m_fc_weights model_null = None" "m_fc_biases model_null = None" by (simp_all add: model_null_def)
  let ?c = "md_class_count md"
  show ?thesis
  proof (cases "dir = [] \<or> ?c = 0 \<or> md_gap_divisor md = 0 \<or> 2 ^ 32 \<le> 64 * unat ?c")
    case True
    then show ?thesis using class_count_fits [of ?c] by (auto simp: model_load_def null split: if_splits)
  next
    case args: False
    then have fits: "64 * unat ?c < 2 ^ 32" "\<not> (?c > - 1 div 64 \<or> ?c > - 1 div 4)"
      using class_count_fits [of ?c] by auto
    have sizes: "unat (?c * 64) = 64 * unat ?c" "unat (?c * 4) = 4 * unat ?c"
      using fits(1) by (simp_all add: unat_word_ariths)
    show ?thesis
    proof (cases "mw = None \<or> mb = None")
      case True
      then show ?thesis using args fits
        by (auto simp: model_load_def null model_unload_def Let_def)
    next
      case False
      then obtain w b where wb: "mw = Some w" "mb = Some b" by auto
      let ?m = "model_null\<lparr>m_fc_weights := Some w, m_fc_biases := Some b\<rparr>"
      obtain m1 st where r: "read_model fs dir (64 * unat ?c) (4 * unat ?c) ?m = (m1, st)" by fastforce
      have st: "st = chain_status fs dir (model_files (unat ?c))"
        using read_model_status [of fs dir "unat ?c" ?m] r by simp
      show ?thesis
      proof (cases "st = ModelOk")
        case True
        have ld: "model_load fs mw mb live (Some model_null) (Some dir) (Some md) = (live + 2,
            Some (put_pl (\<lambda>p. p\<lparr>rq_conv0 := md_rq_conv0 md, rq_conv1 := md_rq_conv1 md,
                 rq_conv2 := md_rq_conv2 md\<rparr>) m1 \<lparr>m_class_count := ?c, m_gap_divisor := md_gap_divisor md\<rparr>), ModelOk)"
          using args fits r True by (simp add: model_load_def null wb Let_def sizes)
        have some: "m_fc_weights ?m = Some w" "m_fc_biases ?m = Some b" by simp_all
        note m1 = read_model_ok(1) [OF r [unfolded True] some]
        have lens: "length (file_bytes fs dir ''w_conv0.bin'') = 432" "length (file_bytes fs dir ''w_conv1.bin'') = 4608"
          "length (file_bytes fs dir ''w_conv2.bin'') = 18432" "length (file_bytes fs dir ''b_conv0.bin'') = 64"
          "length (file_bytes fs dir ''b_conv1.bin'') = 128" "length (file_bytes fs dir ''b_conv2.bin'') = 256"
          "length (file_bytes fs dir ''fc_weight.bin'') = 64 * unat ?c" "length (file_bytes fs dir ''fc_bias.bin'') = 4 * unat ?c"
          using read_model_ok(2) [OF r [unfolded True] some] by (simp_all add: model_files_def)
        have st': "chain_status fs dir (model_files (unat ?c)) = ModelOk" using st True by simp
        show ?thesis
          unfolding ld m1 prod.case put_pl_def using args wb
          by (simp add: st' store_map store32_at lens)
      next
        case False
        moreover obtain k where "model_unload (live + 1 + 1) m1 = (k, model_null)" "k = live"
          using read_model_allocated [OF r] by (simp add: model_unload_def Let_def)
        ultimately show ?thesis
          using args fits r st by (simp add: model_load_def null wb Let_def sizes)
      qed
    qed
  qed
qed

text \<open>
  C38: A model is loaded whole or not at all. From an empty model, the status is the one of the first
  thing that is wrong: the arguments, memory, or the first of the eight files that is missing,
  unreadable or not of its exact size. On success the model holds the bytes of these files, the
  integers in the target's byte order, and the metadata; on any failure it is empty again and
  nothing is allocated.
\<close>

theorem model_load_exact:
  "case model_load fs mw mb live (Some model_null) (Some dir) (Some md) of (live', m', st) \<Rightarrow>
     st = (if dir = [] \<or> md_class_count md = 0 \<or> md_gap_divisor md = 0 \<or> 2 ^ 32 \<le> 64 * unat (md_class_count md)
           then ModelInvalidArgument
           else if mw = None \<or> mb = None then ModelOutOfMemory
           else chain_status fs dir (model_files (unat (md_class_count md))))
     \<and> (if st = ModelOk
        then live' = live + 2 \<and> m' \<noteq> None
          \<and> m_fc_weights (the m') \<noteq> None \<and> m_fc_biases (the m') \<noteq> None
          \<and> map (m_w_conv0 (the m')) [0..<432] = file_bytes fs dir ''w_conv0.bin''
          \<and> map (m_w_conv1 (the m')) [0..<4608] = file_bytes fs dir ''w_conv1.bin''
          \<and> map (m_w_conv2 (the m')) [0..<18432] = file_bytes fs dir ''w_conv2.bin''
          \<and> map (b_conv0 (m_pl_parameters (the m'))) [0..<16] = map (le32 (file_bytes fs dir ''b_conv0.bin'')) [0..<16]
          \<and> map (b_conv1 (m_pl_parameters (the m'))) [0..<32] = map (le32 (file_bytes fs dir ''b_conv1.bin'')) [0..<32]
          \<and> map (b_conv2 (m_pl_parameters (the m'))) [0..<64] = map (le32 (file_bytes fs dir ''b_conv2.bin'')) [0..<64]
          \<and> map (the (m_fc_weights (the m'))) [0..<64 * unat (md_class_count md)] = file_bytes fs dir ''fc_weight.bin''
          \<and> map (the (m_fc_biases (the m'))) [0..<unat (md_class_count md)] = map (le32 (file_bytes fs dir ''fc_bias.bin'')) [0..<unat (md_class_count md)]
          \<and> m_class_count (the m') = md_class_count md \<and> m_gap_divisor (the m') = md_gap_divisor md
          \<and> rq_conv0 (m_pl_parameters (the m')) = md_rq_conv0 md
          \<and> rq_conv1 (m_pl_parameters (the m')) = md_rq_conv1 md
          \<and> rq_conv2 (m_pl_parameters (the m')) = md_rq_conv2 md
        else live' = live \<and> m' = Some model_null)"
  unfolding map_upt_eq_iff by (rule model_load_result)

end
