(* ===== verification/Roi_Protocol.thy ===== *)
theory Roi_Protocol
  imports Float32
begin

unbundle bit_operations_syntax

text \<open>
  \<open>shared/roi_protocol.h\<close>: the wire format between the Jetson and the Arty PS. All integers are
  sent in network byte order; a \<open>float\<close> travels as its bit pattern, so the float fields of the
  bounding box are bit patterns here, and \<open>f32_of_bits\<close> gives the value where one is computed with.
\<close>

section \<open>Constants\<close>

definition ROI_MAGIC :: u32 where "ROI_MAGIC = 0x524F4931"
definition ROI_VERSION :: u16 where "ROI_VERSION = 2"
definition MESSAGE_REQUEST :: u16 where "MESSAGE_REQUEST = 1"
definition MESSAGE_RESPONSE :: u16 where "MESSAGE_RESPONSE = 2"
definition IMAGE_PAYLOAD_SIZE :: nat where "IMAGE_PAYLOAD_SIZE = 96 * 96 * 3"
definition BBOX_PAYLOAD_SIZE :: nat where "BBOX_PAYLOAD_SIZE = 28"
definition REQUEST_PAYLOAD_SIZE :: nat where
  "REQUEST_PAYLOAD_SIZE = BBOX_PAYLOAD_SIZE + IMAGE_PAYLOAD_SIZE"
definition HEADER_SIZE :: nat where "HEADER_SIZE = 20"
definition RESULT_PAYLOAD_SIZE :: nat where "RESULT_PAYLOAD_SIZE = 12"

definition STATUS_OK :: u32 where "STATUS_OK = 0"
definition STATUS_INVALID_HEADER :: u32 where "STATUS_INVALID_HEADER = 1"
definition STATUS_INVALID_PAYLOAD :: u32 where "STATUS_INVALID_PAYLOAD = 2"
definition STATUS_ACCELERATOR_ERROR :: u32 where "STATUS_ACCELERATOR_ERROR = 3"
definition STATUS_POSTPROCESS_ERROR :: u32 where "STATUS_POSTPROCESS_ERROR = 4"
definition INVALID_CLASS_ID :: u32 where "INVALID_CLASS_ID = - 1"
definition CONFIDENCE_PPM_MAX :: u32 where "CONFIDENCE_PPM_MAX = 1000000"

lemmas size_defs [codec_defs] = IMAGE_PAYLOAD_SIZE_def BBOX_PAYLOAD_SIZE_def
  REQUEST_PAYLOAD_SIZE_def HEADER_SIZE_def RESULT_PAYLOAD_SIZE_def

lemmas wire_constants [codec_defs] = ROI_MAGIC_def ROI_VERSION_def MESSAGE_REQUEST_def
  MESSAGE_RESPONSE_def

section \<open>Host records\<close>

record roi_header =
  h_magic :: u32
  h_version :: u16
  h_type :: u16
  h_frame_id :: u32
  h_roi_id :: u32
  h_payload_size :: u32

record roi_result =
  r_status :: u32
  r_class_id :: u32
  r_confidence_ppm :: u32

record roi_bbox =
  b_x :: u32
  b_y :: u32
  b_width :: u32
  b_height :: u32
  b_objectness :: u32
  b_frame_width :: u32
  b_frame_height :: u32

section \<open>Reading and writing fields\<close>

text \<open>\<open>memcpy\<close> of bytes to, and from, an offset of a buffer.\<close>

definition poke :: "u8 list \<Rightarrow> nat \<Rightarrow> u8 list \<Rightarrow> u8 list" where
  "poke dest off bs = take off dest @ bs @ drop (off + length bs) dest"

text \<open>The bytes of \<open>htons\<close> and \<open>htonl\<close> in memory, most significant first.\<close>

definition be16 :: "u16 \<Rightarrow> u8 list" where
  "be16 v = [ucast (drop_bit 8 v), ucast v]"

definition be32 :: "u32 \<Rightarrow> u8 list" where
  "be32 v = [ucast (drop_bit 24 v), ucast (drop_bit 16 v), ucast (drop_bit 8 v), ucast v]"

definition write_u16 :: "u8 list \<Rightarrow> nat \<Rightarrow> u16 \<Rightarrow> u8 list" where
  "write_u16 dest off v = poke dest off (be16 v)"

definition write_u32 :: "u8 list \<Rightarrow> nat \<Rightarrow> u32 \<Rightarrow> u8 list" where
  "write_u32 dest off v = poke dest off (be32 v)"

definition write_f32 :: "u8 list \<Rightarrow> nat \<Rightarrow> u32 \<Rightarrow> u8 list" where
  "write_f32 dest off bits = write_u32 dest off bits"

definition read_u16 :: "u8 list \<Rightarrow> nat \<Rightarrow> u16" where
  "read_u16 src off = push_bit 8 (ucast (src ! off)) OR ucast (src ! (off + 1))"

definition read_u32 :: "u8 list \<Rightarrow> nat \<Rightarrow> u32" where
  "read_u32 src off = push_bit 24 (ucast (src ! off)) OR push_bit 16 (ucast (src ! (off + 1)))
     OR push_bit 8 (ucast (src ! (off + 2))) OR ucast (src ! (off + 3))"

definition read_f32 :: "u8 list \<Rightarrow> nat \<Rightarrow> u32" where
  "read_f32 src off = read_u32 src off"

section \<open>Messages\<close>

definition encode_header :: "u8 list \<Rightarrow> roi_header \<Rightarrow> u8 list" where
  "encode_header dest h =
     (let d = write_u32 dest 0 (h_magic h); d = write_u16 d 4 (h_version h);
          d = write_u16 d 6 (h_type h); d = write_u32 d 8 (h_frame_id h);
          d = write_u32 d 12 (h_roi_id h)
      in write_u32 d 16 (h_payload_size h))"

definition decode_header :: "u8 list \<Rightarrow> roi_header" where
  "decode_header src = \<lparr>h_magic = read_u32 src 0, h_version = read_u16 src 4,
     h_type = read_u16 src 6, h_frame_id = read_u32 src 8, h_roi_id = read_u32 src 12,
     h_payload_size = read_u32 src 16\<rparr>"

definition is_valid_request_header :: "roi_header \<Rightarrow> bool" where
  "is_valid_request_header h \<longleftrightarrow> h_magic h = ROI_MAGIC \<and> h_version h = ROI_VERSION
     \<and> h_type h = MESSAGE_REQUEST \<and> h_payload_size h = word_of_nat REQUEST_PAYLOAD_SIZE"

definition encode_bbox :: "u8 list \<Rightarrow> roi_bbox \<Rightarrow> u8 list" where
  "encode_bbox dest b =
     (let d = write_f32 dest 0 (b_x b); d = write_f32 d 4 (b_y b);
          d = write_f32 d 8 (b_width b); d = write_f32 d 12 (b_height b);
          d = write_f32 d 16 (b_objectness b); d = write_u32 d 20 (b_frame_width b)
      in write_u32 d 24 (b_frame_height b))"

definition decode_bbox :: "u8 list \<Rightarrow> roi_bbox" where
  "decode_bbox src = \<lparr>b_x = read_f32 src 0, b_y = read_f32 src 4, b_width = read_f32 src 8,
     b_height = read_f32 src 12, b_objectness = read_f32 src 16, b_frame_width = read_u32 src 20,
     b_frame_height = read_u32 src 24\<rparr>"

definition is_valid_response_header :: "roi_header \<Rightarrow> bool" where
  "is_valid_response_header h \<longleftrightarrow> h_magic h = ROI_MAGIC \<and> h_version h = ROI_VERSION
     \<and> h_type h = MESSAGE_RESPONSE \<and> h_payload_size h = word_of_nat RESULT_PAYLOAD_SIZE"

definition encode_result :: "u8 list \<Rightarrow> roi_result \<Rightarrow> u8 list" where
  "encode_result dest r =
     (let d = write_u32 dest 0 (r_status r); d = write_u32 d 4 (r_class_id r)
      in write_u32 d 8 (r_confidence_ppm r))"

definition decode_result :: "u8 list \<Rightarrow> roi_result" where
  "decode_result src = \<lparr>r_status = read_u32 src 0, r_class_id = read_u32 src 4,
     r_confidence_ppm = read_u32 src 8\<rparr>"

section \<open>Fields: writing then reading, reading then writing\<close>

lemma length_be [simp]: "length (be16 v) = 2" "length (be32 w) = 4"
  by (simp_all add: be16_def be32_def)

lemma read_be16: "read_u16 (p @ be16 v @ q) (length p) = v"
proof -
  have "push_bit 8 (ucast (ucast (drop_bit 8 v) :: u8)) OR ucast (ucast v :: u8) = v"
    by (rule bit_word_eqI) (auto simp: bit_simps)
  then show ?thesis by (simp add: read_u16_def be16_def nth_append)
qed

lemma read_be32: "read_u32 (p @ be32 v @ q) (length p) = v"
proof -
  have "push_bit 24 (ucast (ucast (drop_bit 24 v) :: u8)) OR push_bit 16 (ucast (ucast (drop_bit 16 v) :: u8))
     OR push_bit 8 (ucast (ucast (drop_bit 8 v) :: u8)) OR ucast (ucast v :: u8) = v" (is "?l = v")
  proof (rule bit_word_eqI)
    fix n assume "n < LENGTH(32)"
    then consider "n < 8" | "8 \<le> n" "n < 16" | "16 \<le> n" "n < 24" | "24 \<le> n" "n < 32" by force
    then show "bit ?l n = bit v n" by cases (auto simp: bit_simps)
  qed
  then show ?thesis by (simp add: read_u32_def be32_def nth_append)
qed

lemma bit_u8_high [simp]: "8 \<le> n \<Longrightarrow> \<not> bit (b :: u8) n"
  using bit_imp_le_length [of b n] by auto

lemma be16_read: "be16 (push_bit 8 (ucast (a :: u8)) OR ucast (b :: u8)) = [a, b]"
  by (auto simp: be16_def bit_simps intro!: bit_word_eqI)

lemma be32_read: "be32 (push_bit 24 (ucast (a :: u8)) OR push_bit 16 (ucast (b :: u8))
    OR push_bit 8 (ucast (c :: u8)) OR ucast (d :: u8)) = [a, b, c, d]"
  by (auto simp: be32_def bit_simps intro!: bit_word_eqI)

lemma poke_0: "poke d 0 bs = bs @ drop (length bs) d"
  by (simp add: poke_def)

lemma poke_append: "length p \<le> off \<Longrightarrow> poke (p @ d) off bs = p @ poke d (off - length p) bs"
  by (simp add: poke_def)

lemma read_u16_append: "length p \<le> off \<Longrightarrow> read_u16 (p @ src) off = read_u16 src (off - length p)"
  by (simp add: read_u16_def nth_append Suc_diff_le)

lemma read_u32_append: "length p \<le> off \<Longrightarrow> read_u32 (p @ src) off = read_u32 src (off - length p)"
  by (simp add: read_u32_def nth_append Suc_diff_le)

lemmas read_be = read_be16 [of "[]", simplified] read_be32 [of "[]", simplified]

section \<open>The codec interface\<close>

text \<open>
  What the two ends of the connection rely on: an encoder fills exactly the first \<open>size\<close> bytes
  of a buffer that is long enough, whatever was there; a decoder looks at no other bytes; the
  two are inverse to each other, in both directions.
\<close>

locale codec =
  fixes enc :: "u8 list \<Rightarrow> 'm \<Rightarrow> u8 list"
    and dec :: "u8 list \<Rightarrow> 'm"
    and size :: nat
  assumes enc_prefix: "size \<le> length d \<Longrightarrow> enc d m = enc (replicate size 0) m @ drop size d"
    and enc_length: "length (enc (replicate size 0) m) = size"
    and dec_enc: "dec (enc (replicate size 0) m @ rest) = m"
    and enc_dec: "length bs = size \<Longrightarrow> enc (replicate size 0) (dec (bs @ rest)) = bs"
begin

definition bytes :: "'m \<Rightarrow> u8 list" where "bytes m = enc (replicate size 0) m"

lemma length_bytes [simp]: "length (bytes m) = size"
  by (simp add: bytes_def enc_length)

lemma enc_bytes: "size \<le> length d \<Longrightarrow> enc d m = bytes m @ drop size d"
  unfolding bytes_def by (rule enc_prefix)

lemma dec_bytes [simp]: "dec (bytes m @ rest) = m"
  by (simp add: bytes_def dec_enc)

lemma bytes_dec: "size \<le> length src \<Longrightarrow> bytes (dec src) = take size src"
  using enc_dec [of "take size src" "drop size src"] by (simp add: bytes_def)

lemma bytes_inj: "bytes m = bytes m' \<longleftrightarrow> m = m'"
  using dec_bytes [of m "[]"] dec_bytes [of m' "[]"] by metis

lemma dec_take: "size \<le> length src \<Longrightarrow> dec (take size src) = dec src"
  using bytes_dec [of src] dec_bytes [of "dec src" "[]"] by simp

lemma roundtrip: "size \<le> length d \<Longrightarrow> dec (enc d m) = m"
  by (simp add: enc_bytes)

end

text \<open>The messages as lists of fields.\<close>

definition header_bytes :: "roi_header \<Rightarrow> u8 list" where
  "header_bytes h = be32 (h_magic h) @ be16 (h_version h) @ be16 (h_type h) @ be32 (h_frame_id h)
     @ be32 (h_roi_id h) @ be32 (h_payload_size h)"

definition bbox_bytes :: "roi_bbox \<Rightarrow> u8 list" where
  "bbox_bytes b = be32 (b_x b) @ be32 (b_y b) @ be32 (b_width b) @ be32 (b_height b)
     @ be32 (b_objectness b) @ be32 (b_frame_width b) @ be32 (b_frame_height b)"

definition result_bytes :: "roi_result \<Rightarrow> u8 list" where
  "result_bytes r = be32 (r_status r) @ be32 (r_class_id r) @ be32 (r_confidence_ppm r)"

lemma encode_header_bytes:
  "HEADER_SIZE \<le> length d \<Longrightarrow> encode_header d h = header_bytes h @ drop HEADER_SIZE d"
  by (simp add: encode_header_def write_u32_def write_u16_def poke_0 poke_append HEADER_SIZE_def header_bytes_def Let_def)

lemma encode_bbox_bytes:
  "BBOX_PAYLOAD_SIZE \<le> length d \<Longrightarrow> encode_bbox d b = bbox_bytes b @ drop BBOX_PAYLOAD_SIZE d"
  by (simp add: encode_bbox_def write_u32_def write_f32_def poke_0 poke_append BBOX_PAYLOAD_SIZE_def bbox_bytes_def Let_def)

lemma encode_result_bytes:
  "RESULT_PAYLOAD_SIZE \<le> length d \<Longrightarrow> encode_result d r = result_bytes r @ drop RESULT_PAYLOAD_SIZE d"
  by (simp add: encode_result_def write_u32_def poke_0 poke_append RESULT_PAYLOAD_SIZE_def result_bytes_def Let_def)


lemma be_read_fields:
  assumes "off + 4 \<le> length src"
  shows "be32 (read_u32 src off) = take 4 (drop off src)"
    and "be16 (read_u16 src off) = take 2 (drop off src)"
proof -
  have nths: "take 4 (drop off src) = [src ! off, src ! (off + 1), src ! (off + 2), src ! (off + 3)]"
    "take 2 (drop off src) = [src ! off, src ! (off + 1)]"
    using assms by (simp_all add: numeral_eq_Suc take_Suc_conv_app_nth Cons_nth_drop_Suc [symmetric])
  show "be32 (read_u32 src off) = take 4 (drop off src)"
    unfolding nths read_u32_def by (rule be32_read)
  show "be16 (read_u16 src off) = take 2 (drop off src)"
    unfolding nths read_u16_def by (rule be16_read)
qed

lemma decode_header_bytes [simp]: "decode_header (header_bytes h @ rest) = h"
  by (simp add: decode_header_def header_bytes_def read_u32_append read_u16_append read_be)

lemma decode_bbox_bytes [simp]: "decode_bbox (bbox_bytes b @ rest) = b"
  by (simp add: decode_bbox_def bbox_bytes_def read_f32_def read_u32_append read_be)

lemma decode_result_bytes [simp]: "decode_result (result_bytes r @ rest) = r"
  by (simp add: decode_result_def result_bytes_def read_u32_append read_be)


lemma take_glue:
  "take n src @ take m (drop n src) = take (n + m) src"
  "take n src @ take m (drop n src) @ rest = take (n + m) src @ rest"
  by (simp_all add: take_add)

lemma header_bytes_decode:
  assumes "HEADER_SIZE \<le> length src" shows "header_bytes (decode_header src) = take HEADER_SIZE src"
  using assms
  by (simp add: header_bytes_def decode_header_def be_read_fields HEADER_SIZE_def)
     (simp add: take_glue)

lemma bbox_bytes_decode:
  assumes "BBOX_PAYLOAD_SIZE \<le> length src"
  shows "bbox_bytes (decode_bbox src) = take BBOX_PAYLOAD_SIZE src"
  using assms
  by (simp add: bbox_bytes_def decode_bbox_def read_f32_def be_read_fields BBOX_PAYLOAD_SIZE_def)
     (simp add: take_glue)

lemma result_bytes_decode:
  assumes "RESULT_PAYLOAD_SIZE \<le> length src"
  shows "result_bytes (decode_result src) = take RESULT_PAYLOAD_SIZE src"
  using assms
  by (simp add: result_bytes_def decode_result_def be_read_fields RESULT_PAYLOAD_SIZE_def)
     (simp add: take_glue)

lemma length_bytes_fields [simp]:
  "length (header_bytes h) = HEADER_SIZE" "length (bbox_bytes b) = BBOX_PAYLOAD_SIZE"
  "length (result_bytes r) = RESULT_PAYLOAD_SIZE"
  by (simp_all add: header_bytes_def bbox_bytes_def result_bytes_def size_defs)

interpretation header: codec encode_header decode_header HEADER_SIZE
  rewrites "codec.bytes encode_header HEADER_SIZE = header_bytes"
proof -
  show c: "codec encode_header decode_header HEADER_SIZE"
    by unfold_locales (simp_all add: encode_header_bytes header_bytes_decode)
  show "codec.bytes encode_header HEADER_SIZE = header_bytes"
    by (rule ext) (simp add: codec.bytes_def [OF c] encode_header_bytes)
qed

interpretation bbox: codec encode_bbox decode_bbox BBOX_PAYLOAD_SIZE
  rewrites "codec.bytes encode_bbox BBOX_PAYLOAD_SIZE = bbox_bytes"
proof -
  show c: "codec encode_bbox decode_bbox BBOX_PAYLOAD_SIZE"
    by unfold_locales (simp_all add: encode_bbox_bytes bbox_bytes_decode)
  show "codec.bytes encode_bbox BBOX_PAYLOAD_SIZE = bbox_bytes"
    by (rule ext) (simp add: codec.bytes_def [OF c] encode_bbox_bytes)
qed

interpretation result: codec encode_result decode_result RESULT_PAYLOAD_SIZE
  rewrites "codec.bytes encode_result RESULT_PAYLOAD_SIZE = result_bytes"
proof -
  show c: "codec encode_result decode_result RESULT_PAYLOAD_SIZE"
    by unfold_locales (simp_all add: encode_result_bytes result_bytes_decode)
  show "codec.bytes encode_result RESULT_PAYLOAD_SIZE = result_bytes"
    by (rule ext) (simp add: codec.bytes_def [OF c] encode_result_bytes)
qed

section \<open>Properties\<close>

text \<open>
  All three messages round-trip. Encoding into a buffer that is long enough, whatever it
  held, and decoding it again gives the message back, for every value of every field, and the
  bytes behind the message are left alone.
\<close>

theorem protocol_roundtrip:
  assumes "HEADER_SIZE \<le> length dh" "BBOX_PAYLOAD_SIZE \<le> length db"
    "RESULT_PAYLOAD_SIZE \<le> length dr"
  shows "decode_header (encode_header dh h) = h
      \<and> drop HEADER_SIZE (encode_header dh h) = drop HEADER_SIZE dh
    \<and> decode_bbox (encode_bbox db b) = b
      \<and> drop BBOX_PAYLOAD_SIZE (encode_bbox db b) = drop BBOX_PAYLOAD_SIZE db
    \<and> decode_result (encode_result dr r) = r
      \<and> drop RESULT_PAYLOAD_SIZE (encode_result dr r) = drop RESULT_PAYLOAD_SIZE dr"
  using assms by (simp add: header.enc_bytes bbox.enc_bytes result.enc_bytes)

theorem protocol_roundtrip_witness:
  "let r = \<lparr>r_status = 0, r_class_id = 5, r_confidence_ppm = 999999\<rparr>
   in decode_result (encode_result (replicate 13 7) r) = r
      \<and> drop 12 (encode_result (replicate 13 7) r) = [7]"
  using protocol_roundtrip [of "replicate 20 0" "replicate 28 0" "replicate 13 7"]
  by (simp add: size_defs Let_def numeral_eq_Suc)

text \<open>
  The format has no slack. Encoding what was decoded from a buffer writes back the bytes it
  was decoded from, so two buffers decode to the same message exactly when they agree on it; and
  a header is a valid request exactly when its bytes are "ROI1", version 2, type 1 and the
  payload size 28 + 96 * 96 * 3 = 0x6C1C in network order.
\<close>

theorem protocol_exact:
  assumes "HEADER_SIZE \<le> length src" "HEADER_SIZE \<le> length src'"
  shows "encode_header src' (decode_header src) = take HEADER_SIZE src @ drop HEADER_SIZE src'
    \<and> (decode_header src = decode_header src' \<longleftrightarrow> take HEADER_SIZE src = take HEADER_SIZE src')
    \<and> (is_valid_request_header (decode_header src) \<longleftrightarrow>
         take 8 src = [0x52, 0x4F, 0x49, 0x31, 0, 2, 0, 1] \<and> take 4 (drop 16 src) = [0, 0, 0x6C, 0x1C])"
proof -
  have inj32: "v = w \<longleftrightarrow> be32 v = be32 w" for v w using read_be(2) by metis
  have inj16: "v = w \<longleftrightarrow> be16 v = be16 w" for v w using read_be(1) by metis
  have size: "word_of_nat REQUEST_PAYLOAD_SIZE = (27676 :: u32)" by (simp add: size_defs)
  have bytes: "be32 ROI_MAGIC = [0x52, 0x4F, 0x49, 0x31]" "be16 ROI_VERSION = [0, 2]"
    "be16 MESSAGE_REQUEST = [0, 1]" "be32 (word_of_nat REQUEST_PAYLOAD_SIZE) = [0, 0, 0x6C, 0x1C]"
    unfolding size by code_simp+
  have len: "20 \<le> length src" using assms(1) by (simp add: HEADER_SIZE_def)
  have "is_valid_request_header (decode_header src) \<longleftrightarrow>
     take 4 src = [0x52, 0x4F, 0x49, 0x31] \<and> take 2 (drop 4 src) = [0, 2]
     \<and> take 2 (drop 6 src) = [0, 1] \<and> take 4 (drop 16 src) = [0, 0, 0x6C, 0x1C]"
    unfolding is_valid_request_header_def inj32 inj16 bytes decode_header_def
    using len by (simp add: be_read_fields)
  moreover have "take 8 src = take 4 src @ take 2 (drop 4 src) @ take 2 (drop 6 src)"
    by (simp add: take_glue)
  moreover have "xs @ ys @ zs = us @ vs @ ws \<longleftrightarrow> xs = us \<and> ys = vs \<and> zs = ws"
    if "length xs = length us" "length ys = length vs" for xs ys zs us vs ws :: "u8 list"
    using that by simp
  from this [of "take 4 src" "[0x52, 0x4F, 0x49, 0x31]" "take 2 (drop 4 src)" "[0, 2]"
      "take 2 (drop 6 src)" "[0, 1]"] len
  have "take 4 src @ take 2 (drop 4 src) @ take 2 (drop 6 src) = [0x52, 0x4F, 0x49, 0x31, 0, 2, 0, 1]
    \<longleftrightarrow> take 4 src = [0x52, 0x4F, 0x49, 0x31] \<and> take 2 (drop 4 src) = [0, 2]
        \<and> take 2 (drop 6 src) = [0, 1]"
    by (simp add: min_absorb2)
  ultimately have "is_valid_request_header (decode_header src) \<longleftrightarrow>
      take 8 src = [0x52, 0x4F, 0x49, 0x31, 0, 2, 0, 1] \<and> take 4 (drop 16 src) = [0, 0, 0x6C, 0x1C]"
    by (simp only: conj_assoc)
  then show ?thesis
    using assms header.bytes_dec [of src] header.bytes_dec [of src']
      header.bytes_inj [of "decode_header src" "decode_header src'"]
    by (simp add: header.enc_bytes)
qed

theorem protocol_exact_witness:
  "is_valid_request_header (decode_header
     ([0x52, 0x4F, 0x49, 0x31, 0, 2, 0, 1, 0, 0, 0, 9, 0, 0, 0, 3, 0, 0, 0x6C, 0x1C]))"
  using protocol_exact [of "[0x52, 0x4F, 0x49, 0x31, 0, 2, 0, 1, 0, 0, 0, 9, 0, 0, 0, 3, 0, 0, 0x6C, 0x1C]"
      "replicate 20 0"]
  by (simp add: HEADER_SIZE_def)

end
