(* ===== verification/Ps_Preprocess.thy ===== *)
theory Ps_Preprocess
  imports Engine_Arith Roi_Protocol
begin

text \<open>
  \<open>preprocess/roi_preprocessor\<close>: the PS turns the received RGB bytes into the signed, zero-padded
  input of the PL engine.
\<close>

definition ROI_WIDTH :: nat where "ROI_WIDTH = 96"
definition ROI_HEIGHT :: nat where "ROI_HEIGHT = 96"
definition ROI_CHANNELS :: nat where "ROI_CHANNELS = 3"
definition PL_INPUT_BORDER :: nat where "PL_INPUT_BORDER = 1"
definition PL_INPUT_WIDTH :: nat where "PL_INPUT_WIDTH = ROI_WIDTH + 2 * PL_INPUT_BORDER"
definition PL_INPUT_HEIGHT :: nat where "PL_INPUT_HEIGHT = ROI_HEIGHT + 2 * PL_INPUT_BORDER"
definition PL_INPUT_SIZE :: nat where
  "PL_INPUT_SIZE = PL_INPUT_WIDTH * PL_INPUT_HEIGHT * ROI_CHANNELS"

lemmas roi_sizes = ROI_WIDTH_def ROI_HEIGHT_def ROI_CHANNELS_def PL_INPUT_BORDER_def
  PL_INPUT_WIDTH_def PL_INPUT_HEIGHT_def PL_INPUT_SIZE_def

definition quantize_pixel :: "u8 \<Rightarrow> 8 word" where
  "quantize_pixel pixel =
     (let scaled = (ucast pixel :: u32) * 127 in ucast ((scaled + 127) div 255))"

definition input_index :: "nat \<Rightarrow> nat \<Rightarrow> nat \<Rightarrow> nat" where
  "input_index y x channel = (y * ROI_WIDTH + x) * ROI_CHANNELS + channel"

definition output_index :: "nat \<Rightarrow> nat \<Rightarrow> nat \<Rightarrow> nat" where
  "output_index y x channel =
     ((y + PL_INPUT_BORDER) * PL_INPUT_WIDTH + (x + PL_INPUT_BORDER)) * ROI_CHANNELS + channel"

definition roi_preprocess :: "(nat \<Rightarrow> u8) \<Rightarrow> (nat \<Rightarrow> 8 word) \<Rightarrow> nat \<Rightarrow> 8 word" where
  "roi_preprocess input out =
     (let out = (\<lambda>i. if i < PL_INPUT_SIZE then 0 else out i)
      in for_loop ROI_HEIGHT (\<lambda>y. for_loop ROI_WIDTH (\<lambda>x. for_loop ROI_CHANNELS (\<lambda>channel out.
           out(output_index y x channel := quantize_pixel (input (input_index y x channel)))))) out)"

section \<open>Loops that write through an index\<close>

lemma for_loop_hit:
  assumes "\<And>k a. k < n \<Longrightarrow> body k a j = (if C k then v else a j)"
  shows "for_loop n body a j = (if \<exists>k<n. C k then v else a j)"
proof -
  have "m \<le> n \<Longrightarrow> for_loop m body a j = (if \<exists>k<m. C k then v else a j)" for m
  proof (induction m)
    case (Suc m)
    then show ?case using assms [of m] by (auto simp: less_Suc_eq)
  qed simp
  then show ?thesis by blast
qed

lemma rect_index_eq:
  fixes w n :: nat
  assumes "(y * w + x) * n + c = (y' * w + x') * n + c'" "x < w" "x' < w" "c < n" "c' < n"
  shows "y = y' \<and> x = x' \<and> c = c'"
proof -
  have cs: "((y * w + x) * n + c) mod n = c" "((y' * w + x') * n + c') mod n = c'"
    "((y * w + x) * n + c) div n = y * w + x" "((y' * w + x') * n + c') div n = y' * w + x'"
    using assms(4,5) by simp_all
  then have c: "c = c'" and yx: "y * w + x = y' * w + x'" using assms(1) by metis+
  have "(y * w + x) mod w = x" "(y' * w + x') mod w = x'" "(y * w + x) div w = y" "(y' * w + x') div w = y'"
    using assms(2,3) by simp_all
  then show ?thesis using c yx by metis
qed

lemma preprocess_at:
  assumes "y < PL_INPUT_HEIGHT" "x < PL_INPUT_WIDTH" "c < ROI_CHANNELS"
  shows "roi_preprocess input out ((y * PL_INPUT_WIDTH + x) * ROI_CHANNELS + c)
    = (if 1 \<le> y \<and> y \<le> ROI_HEIGHT \<and> 1 \<le> x \<and> x \<le> ROI_WIDTH
       then quantize_pixel (input (input_index (y - 1) (x - 1) c)) else 0)"
proof -
  define j where "j = (y * PL_INPUT_WIDTH + x) * ROI_CHANNELS + c"
  let ?v = "quantize_pixel (input (input_index (y - 1) (x - 1) c))"
  have hit: "output_index y' x' c' = j \<longleftrightarrow> y = Suc y' \<and> x = Suc x' \<and> c = c'"
    if "x' < ROI_WIDTH" "c' < ROI_CHANNELS" for y' x' c'
  proof
    assume "output_index y' x' c' = j"
    then show "y = Suc y' \<and> x = Suc x' \<and> c = c'"
      using rect_index_eq [of "y' + 1" PL_INPUT_WIDTH "x' + 1" ROI_CHANNELS c' y x c] assms that
      by (simp add: output_index_def PL_INPUT_WIDTH_def PL_INPUT_BORDER_def j_def)
  qed (simp add: output_index_def PL_INPUT_BORDER_def j_def)
  have "j < PL_INPUT_SIZE"
    using assms by (simp add: roi_sizes j_def)
  moreover have "for_loop ROI_HEIGHT (\<lambda>y. for_loop ROI_WIDTH (\<lambda>x. for_loop ROI_CHANNELS (\<lambda>channel out.
       out(output_index y x channel := quantize_pixel (input (input_index y x channel)))))) a j
     = (if \<exists>y'<ROI_HEIGHT. \<exists>x'<ROI_WIDTH. \<exists>c'<ROI_CHANNELS. output_index y' x' c' = j then ?v else a j)" for a
    by (intro for_loop_hit) (auto simp: hit eq_commute [of j])
  moreover have "(\<exists>y'<ROI_HEIGHT. \<exists>x'<ROI_WIDTH. \<exists>c'<ROI_CHANNELS. output_index y' x' c' = j)
     \<longleftrightarrow> 1 \<le> y \<and> y \<le> ROI_HEIGHT \<and> 1 \<le> x \<and> x \<le> ROI_WIDTH" (is "?L \<longleftrightarrow> ?R")
  proof
    assume ?R
    then have "output_index (y - 1) (x - 1) c = j" "y - 1 < ROI_HEIGHT" "x - 1 < ROI_WIDTH"
      using assms(3) hit [of "x - 1" c "y - 1"] by auto
    then show ?L using assms(3) by blast
  qed (auto simp: hit eq_commute [of j])
  ultimately show ?thesis unfolding j_def [symmetric] by (simp add: roi_preprocess_def Let_def)
qed

text \<open>The quantised value is \<open>pixel * 127 / 255\<close>, rounded to the nearest integer.\<close>

lemma quantize_value: "sint (quantize_pixel p) = (127 * uint p + 127) div 255"
proof -
  define u where "u = uint p"
  have u: "0 \<le> u" "u < 256" using uint_lt2p [of p] by (simp_all add: u_def)
  have d: "uint (w div 255) = uint w div 255" for w :: u32 by (simp add: uint_div_distrib)
  have "(ucast p :: u32) * 127 + 127 = word_of_int (127 * u + 127)"
    by (simp only: ucast_eq u_def of_int_add of_int_mult of_int_numeral mult.commute)
  moreover have "uint (word_of_int (127 * u + 127) :: u32) = 127 * u + 127"
    using u by (simp only: uint_word_of_int) simp
  ultimately have "uint (((ucast p :: u32) * 127 + 127) div 255) = (127 * u + 127) div 255"
    by (simp only: d)
  then have q: "quantize_pixel p = word_of_int ((127 * u + 127) div 255)"
    by (simp only: quantize_pixel_def Let_def ucast_eq)
  have "0 \<le> (127 * u + 127) div 255" "(127 * u + 127) div 255 < 128" using u by auto
  then show ?thesis
    unfolding u_def [symmetric] by (intro sint_eq_of_range [OF q]) simp_all
qed

lemma quantize_rounds: "sint (quantize_pixel p) = (2 * 127 * uint p + 255) div (2 * 255)"
proof -
  have "(2 * 127 * uint p + 255) div (2 * 255) = ((2 * 127 * uint p + 255) div 2) div 255"
    by (simp add: zdiv_zmult2_eq)
  also have "(2 * 127 * uint p + 255) div 2 = 127 * uint p + 127" by simp
  finally show ?thesis using quantize_value by simp
qed

lemma preprocess_behind:
  assumes "98 * 98 * 3 \<le> i"
  shows "roi_preprocess input out i = out i"
proof -
  have "for_loop ROI_HEIGHT (\<lambda>y. for_loop ROI_WIDTH (\<lambda>x. for_loop ROI_CHANNELS (\<lambda>channel out.
       out(output_index y x channel := quantize_pixel (input (input_index y x channel)))))) a i
     = (if \<exists>y'<ROI_HEIGHT. \<exists>x'<ROI_WIDTH. \<exists>c'<ROI_CHANNELS. False then 0 else a i)" for a
    by (intro for_loop_hit) (use assms in \<open>auto simp: output_index_def roi_sizes\<close>)
  then show ?thesis
    using assms by (simp add: roi_preprocess_def Let_def PL_INPUT_SIZE_def) (simp add: roi_sizes)
qed

section \<open>Properties\<close>

text \<open>
  The input of the engine is the picture. In the 98 x 98 x 3 buffer every inner pixel is the
  received pixel scaled by 127 / 255 and rounded to the nearest integer, the border is zero, and
  nothing behind the buffer is touched, whatever the buffer held.
\<close>

theorem preprocess_quantises_and_pads:
  "(\<forall>y < 98. \<forall>x < 98. \<forall>c < 3. sint (roi_preprocess input out ((y * 98 + x) * 3 + c))
      = (if y \<in> {1..96} \<and> x \<in> {1..96}
         then (2 * 127 * uint (input (((y - 1) * 96 + (x - 1)) * 3 + c)) + 255) div (2 * 255) else 0))
   \<and> (\<forall>i \<ge> 98 * 98 * 3. roi_preprocess input out i = out i)"
proof (intro conjI allI impI)
  fix y x c :: nat
  assume "y < 98" "x < 98" "c < 3"
  then show "sint (roi_preprocess input out ((y * 98 + x) * 3 + c))
      = (if y \<in> {1..96} \<and> x \<in> {1..96}
         then (2 * 127 * uint (input (((y - 1) * 96 + (x - 1)) * 3 + c)) + 255) div (2 * 255) else 0)"
    using preprocess_at [of y x c input out] by (auto simp: roi_sizes input_index_def quantize_rounds)
qed (rule preprocess_behind)

theorem preprocess_quantises_and_pads_witness:
  "sint (roi_preprocess (\<lambda>_. 200) (\<lambda>_. 9) ((1 * 98 + 1) * 3 + 0)) = 100
   \<and> roi_preprocess (\<lambda>_. 200) (\<lambda>_. 9) 30000 = 9"
  using preprocess_quantises_and_pads [of "\<lambda>_. 200" "\<lambda>_. 9", THEN conjunct1, rule_format, of 1 1 0]
    preprocess_quantises_and_pads [of "\<lambda>_. 200" "\<lambda>_. 9", THEN conjunct2, rule_format, of 30000]
  by simp

end
