(* ===== verification/Ps_Postprocess.thy ===== *)
theory Ps_Postprocess
  imports Engine_Arith Float32
begin

text \<open>
  \<open>postprocess/classifier_postprocess\<close>: the PS turns the feature map of the PL into a class and a
  confidence. Sums are integers, which the code's widths hold (\<open>gap_fc_argmax_exact\<close>); the softmax is
  computed in binary64 as written, with the library function \<open>exp\<close> as an argument.
\<close>

definition OUTPUT_WIDTH :: nat where "OUTPUT_WIDTH = 12"
definition OUTPUT_HEIGHT :: nat where "OUTPUT_HEIGHT = 12"
definition OUTPUT_CHANNELS :: nat where "OUTPUT_CHANNELS = 64"

lemmas output_sizes = OUTPUT_WIDTH_def OUTPUT_HEIGHT_def OUTPUT_CHANNELS_def

datatype post_status = PostOk | PostInvalidArgument | PostOverflow

section \<open>Sums and logits\<close>

definition gap_sum :: "(nat \<Rightarrow> 8 word) \<Rightarrow> (nat \<Rightarrow> int) \<Rightarrow> nat \<Rightarrow> int" where
  "gap_sum pl_output channel_sums =
     (let channel_sums = for_loop OUTPUT_CHANNELS (\<lambda>channel s. s(channel := 0)) channel_sums
      in for_loop OUTPUT_HEIGHT (\<lambda>y. for_loop OUTPUT_WIDTH (\<lambda>x. for_loop OUTPUT_CHANNELS (\<lambda>channel s.
           s(channel := s channel
               + sint (pl_output ((y * OUTPUT_WIDTH + x) * OUTPUT_CHANNELS + channel)))))) channel_sums)"

text \<open>The division of C, which cuts towards zero.\<close>

definition c_div :: "int \<Rightarrow> int \<Rightarrow> int" where
  "c_div a b = sgn a * sgn b * (\<bar>a\<bar> div \<bar>b\<bar>)"

definition fc_accumulator ::
  "(nat \<Rightarrow> int) \<Rightarrow> u32 \<Rightarrow> (nat \<Rightarrow> 8 word) \<Rightarrow> (nat \<Rightarrow> u32) \<Rightarrow> nat \<Rightarrow> int" where
  "fc_accumulator channel_sums divisor weights biases class_index =
     for_loop OUTPUT_CHANNELS (\<lambda>channel accumulator.
       let feature = c_div (channel_sums channel) (sint divisor)
       in accumulator + feature * sint (weights (class_index * OUTPUT_CHANNELS + channel)))
       (sint (biases class_index))"

definition in_int32 :: "int \<Rightarrow> bool" where
  "in_int32 a \<longleftrightarrow> \<not> (a < - (2 ^ 31) \<or> a > 2 ^ 31 - 1)"

text \<open>The classes from \<open>i\<close> on, \<open>n\<close> of them.\<close>

fun fc_classes :: "(nat \<Rightarrow> int) \<Rightarrow> nat \<Rightarrow> nat \<Rightarrow> (nat \<Rightarrow> int) \<Rightarrow> post_status \<times> (nat \<Rightarrow> int)" where
  "fc_classes accumulator i 0 logits = (PostOk, logits)"
| "fc_classes accumulator i (Suc n) logits =
     (if \<not> in_int32 (accumulator i) then (PostOverflow, logits)
      else fc_classes accumulator (Suc i) n (logits(i := accumulator i)))"

definition fc ::
  "(nat \<Rightarrow> int) \<Rightarrow> u32 \<Rightarrow> (nat \<Rightarrow> 8 word) \<Rightarrow> (nat \<Rightarrow> u32) \<Rightarrow> nat \<Rightarrow> (nat \<Rightarrow> int)
     \<Rightarrow> post_status \<times> (nat \<Rightarrow> int)" where
  "fc channel_sums divisor weights biases class_count logits =
     (if divisor = 0 \<or> class_count = 0 then (PostInvalidArgument, logits)
      else fc_classes (fc_accumulator channel_sums divisor weights biases) 0 class_count logits)"

definition argmax_index :: "(nat \<Rightarrow> int) \<Rightarrow> nat \<Rightarrow> nat" where
  "argmax_index logits class_count =
     for_loop (class_count - 1) (\<lambda>k best_index.
       let i = k + 1 in if logits i > logits best_index then i else best_index) 0"

definition argmax :: "(nat \<Rightarrow> int) \<Rightarrow> nat \<Rightarrow> u32 \<Rightarrow> post_status \<times> u32" where
  "argmax logits class_count class_id =
     (if class_count = 0 then (PostInvalidArgument, class_id)
      else (PostOk, word_of_nat (argmax_index logits class_count)))"

section \<open>Confidence\<close>

definition real_logit :: "(nat \<Rightarrow> int) \<Rightarrow> fp \<Rightarrow> nat \<Rightarrow> fp" where
  "real_logit logits logits_scale i = fp_mul binary64 (Fin (of_int (logits i))) logits_scale"

definition max_real_logit :: "(nat \<Rightarrow> int) \<Rightarrow> fp \<Rightarrow> nat \<Rightarrow> fp" where
  "max_real_logit logits logits_scale class_count =
     for_loop class_count (\<lambda>i m.
       if fp_lt m (real_logit logits logits_scale i) then real_logit logits logits_scale i else m) NInf"

definition exp_sums ::
  "(fp \<Rightarrow> fp) \<Rightarrow> (nat \<Rightarrow> int) \<Rightarrow> fp \<Rightarrow> fp \<Rightarrow> nat \<Rightarrow> nat \<Rightarrow> fp \<times> fp" where
  "exp_sums exp64 logits logits_scale m argmax_class_id class_count =
     for_loop class_count (\<lambda>i (sum_exp, argmax_exp).
       let t = exp64 (fp_sub binary64 (real_logit logits logits_scale i) m)
       in (fp_add binary64 sum_exp t, if i = argmax_class_id then t else argmax_exp)) (Fin 0, Fin 0)"

text \<open>The conversion to \<open>uint32_t\<close>; C leaves it undefined (None) out of range.\<close>

definition u32_of_fp :: "fp \<Rightarrow> u32 option" where
  "u32_of_fp v = (case v of Fin x \<Rightarrow>
       if - 1 < x \<and> x < 2 ^ 32 then Some (word_of_int \<lfloor>x\<rfloor>) else None | _ \<Rightarrow> None)"

text \<open>The status and what is stored: None when nothing is, Some None when it is undefined.\<close>

definition confidence_ppm ::
  "(fp \<Rightarrow> fp) \<Rightarrow> (nat \<Rightarrow> int) \<Rightarrow> nat \<Rightarrow> u32 \<Rightarrow> fp \<Rightarrow> post_status \<times> u32 option option" where
  "confidence_ppm exp64 logits class_count argmax_class_id logits_scale =
     (if class_count = 0 \<or> unat argmax_class_id \<ge> class_count \<or> \<not> fp_lt (Fin 0) logits_scale
      then (PostInvalidArgument, None)
      else let m = max_real_logit logits logits_scale class_count in
        case exp_sums exp64 logits logits_scale m (unat argmax_class_id) class_count of
          (sum_exp, argmax_exp) \<Rightarrow>
            let probability = fp_div binary64 argmax_exp sum_exp;
                ppm = fp_mul binary64 probability (Fin 1000000);
                ppm = (if fp_lt ppm (Fin 0) then Fin 0
                       else if fp_lt (Fin 1000000) ppm then Fin 1000000 else ppm)
            in (PostOk, Some (u32_of_fp (fp_add binary64 ppm (Fin (1/2))))))"

section \<open>What the integers are\<close>

lemma gap_sum_value:
  assumes "c < OUTPUT_CHANNELS"
  shows "gap_sum o' s c = (\<Sum>y<OUTPUT_HEIGHT. \<Sum>x<OUTPUT_WIDTH.
    sint (o' ((y * OUTPUT_WIDTH + x) * OUTPUT_CHANNELS + c)))"
proof -
  have inner: "for_loop n (\<lambda>ch s. s(ch := s ch + f ch)) s = (\<lambda>ch. if ch < n then s ch + f ch else s ch)"
    for n and f s :: "nat \<Rightarrow> int" by (induction n) (auto simp: less_Suc_eq fun_eq_iff)
  have outer: "for_loop n (\<lambda>k s. (\<lambda>ch. if ch < m then s ch + g k ch else s ch))
      = (\<lambda>s ch. if ch < m then s ch + (\<Sum>k<n. g k ch) else s ch)" for n m and g :: "nat \<Rightarrow> nat \<Rightarrow> int"
  proof
    show "for_loop n (\<lambda>k s ch. if ch < m then s ch + g k ch else s ch) s
        = (\<lambda>ch. if ch < m then s ch + (\<Sum>k<n. g k ch) else s ch)" for s
      by (induction n) (auto simp: fun_eq_iff)
  qed
  have inner_fun: "for_loop n (\<lambda>ch s. s(ch := s ch + f ch)) = (\<lambda>s ch. if ch < n then s ch + f ch else s ch)"
    for n and f :: "nat \<Rightarrow> int" by (rule ext) (rule inner)
  show ?thesis
    using assms unfolding gap_sum_def Let_def inner_fun outer by (simp add: for_loop_write)
qed

lemma fc_accumulator_value:
  "fc_accumulator s d w b i = sint (b i)
     + (\<Sum>c<OUTPUT_CHANNELS. c_div (s c) (sint d) * sint (w (i * OUTPUT_CHANNELS + c)))"
proof -
  have "for_loop n (\<lambda>c a. a + f c) a = a + (\<Sum>c<n. f c)" for n a and f :: "nat \<Rightarrow> int"
    by (induction n) simp_all
  then show ?thesis by (simp add: fc_accumulator_def Let_def)
qed

lemma fc_classes_spec:
  "fc_classes A i n logits = (st, logits') \<Longrightarrow>
     (st = PostOk \<or> st = PostOverflow)
     \<and> (st = PostOk \<longleftrightarrow> (\<forall>k<n. in_int32 (A (i + k))))
     \<and> (st = PostOk \<longrightarrow> logits' = (\<lambda>j. if i \<le> j \<and> j < i + n then A j else logits j))"
proof (induction n arbitrary: i logits)
  case (Suc n)
  show ?case
  proof (cases "in_int32 (A i)")
    case True
    then have "fc_classes A (Suc i) n (logits(i := A i)) = (st, logits')" using Suc.prems by simp
    note IH = Suc.IH [OF this]
    have all: "(\<forall>k<Suc n. in_int32 (A (i + k))) \<longleftrightarrow> (\<forall>k<n. in_int32 (A (Suc i + k)))"
      using True by (auto simp: less_Suc_eq_0_disj)
    have "(\<lambda>j. if Suc i \<le> j \<and> j < Suc i + n then A j else (logits(i := A i)) j)
        = (\<lambda>j. if i \<le> j \<and> j < i + Suc n then A j else logits j)" by auto
    then show ?thesis using IH unfolding all by auto
  next
    case False
    then show ?thesis using Suc.prems by (auto intro: exI [of _ 0])
  qed
qed auto

lemma argmax_index_first:
  assumes "0 < n"
  shows "argmax_index f n < n \<and> (\<forall>j<n. f j \<le> f (argmax_index f n))
    \<and> (\<forall>j<argmax_index f n. f j < f (argmax_index f n))"
proof -
  let ?m = "\<lambda>k. for_loop k (\<lambda>k b. let i = k + 1 in if f i > f b then i else b) 0"
  have "?m k \<le> k \<and> (\<forall>j\<le>k. f j \<le> f (?m k)) \<and> (\<forall>j<?m k. f j < f (?m k))" for k
  proof (induction k)
    case (Suc k)
    then show ?case by (auto simp: Let_def le_Suc_eq less_Suc_eq_le intro: le_less_trans order_trans)
  qed simp
  from this [of "n - 1"] show ?thesis
    using assms by (auto simp: argmax_index_def less_eq_Suc_le [symmetric]) 
qed

section \<open>What the doubles are\<close>

lemma round64_between:
  assumes "fp_ok binary64 (Fin a)" "fp_ok binary64 (Fin b)" "a \<le> x" "x \<le> b"
  shows "\<exists>y. round_fp binary64 x = Fin y \<and> a \<le> y \<and> y \<le> b \<and> fp_ok binary64 (Fin y)"
proof -
  have "fp_le (Fin a) (round_fp binary64 x)" "fp_le (round_fp binary64 x) (Fin b)"
    using assms by (auto intro: round_fp_ge round_fp_le)
  then show ?thesis
    using fp_ok_round [of binary64 x] by (cases "round_fp binary64 x") auto
qed

lemma ok64_scaled:
  assumes "0 \<le> j" "j \<le> 2 ^ 53" "k \<le> 900" "x = of_int j * 2 ^ k"
  shows "fp_ok binary64 (Fin x)"
proof -
  have "j * 2 ^ (1074 + k) \<le> 2 ^ 53 * 2 ^ (1074 + k)"
    by (rule mult_right_mono [OF assms(2)]) simp
  also have "\<dots> = 2 ^ (53 + (1074 + k))" by (simp only: power_add)
  also have "\<dots> < (2 :: int) ^ (emax binary64 + qexp binary64)"
    by (rule power_strict_increasing) (use assms(3) in simp_all)
  finally have lt: "j * 2 ^ (1074 + k) < 2 ^ (emax binary64 + qexp binary64)" .
  have "x * 2 ^ qexp binary64 = of_int (j * 2 ^ (1074 + k))"
    unfolding assms(4) binary64_simps of_int_mult of_int_power of_int_numeral power_add
    by (simp only: mult.assoc mult.commute [of "2 ^ k"])
  then show ?thesis
    using round_fp_exact [OF assms(1) _ _ lt] assms(2) by simp
qed

lemma ok64_frac:
  assumes "0 \<le> j" "j \<le> 2 ^ 53" "x * 2 ^ k = of_int j" "k \<le> 1000"
  shows "fp_ok binary64 (Fin x)"
proof -
  have "j * 2 ^ (1074 - k) \<le> 2 ^ 53 * 2 ^ (1074 - k)"
    by (rule mult_right_mono [OF assms(2)]) simp
  also have "\<dots> = 2 ^ (53 + (1074 - k))" by (simp only: power_add)
  also have "\<dots> < (2 :: int) ^ (emax binary64 + qexp binary64)"
    by (rule power_strict_increasing) simp_all
  finally have lt: "j * 2 ^ (1074 - k) < 2 ^ (emax binary64 + qexp binary64)" .
  have "x * 2 ^ qexp binary64 = x * (2 ^ k * 2 ^ (1074 - k))"
    unfolding power_add [symmetric] using assms(4) by simp
  also have "\<dots> = of_int (j * 2 ^ (1074 - k))"
    unfolding of_int_mult of_int_power of_int_numeral assms(3) [symmetric] by (simp only: mult.assoc)
  finally show ?thesis using round_fp_exact [OF assms(1) _ _ lt] assms(2) by simp
qed

lemma ok64_nat: "n \<le> 2 ^ 53 \<Longrightarrow> fp_ok binary64 (Fin (of_nat n))"
  by (rule ok64_scaled [of "int n" 0]) simp_all

lemma fp_ok_neg: "fp_ok F (Fin (- x)) \<longleftrightarrow> fp_ok F (Fin x)"
  by (simp add: round_fp_uminus)

lemma ok64_pow: "k \<le> 900 \<Longrightarrow> fp_ok binary64 (Fin (2 ^ k))"
  by (rule ok64_scaled [of 1 k]) simp_all

text \<open>What the C library promises of \<open>exp\<close> for the arguments that occur.\<close>

definition exp_ok :: "(fp \<Rightarrow> fp) \<Rightarrow> bool" where
  "exp_ok e \<longleftrightarrow> e (Fin 0) = Fin 1
     \<and> (\<forall>d\<le>0. \<exists>t. e (Fin d) = Fin t \<and> 0 \<le> t \<and> t \<le> 1 \<and> fp_ok binary64 (Fin t))"

lemma real_logit_fin:
  assumes "in_int32 (logits i)" "0 < s" "s < 2 ^ 128"
  shows "\<exists>r. real_logit logits (Fin s) i = Fin r \<and> \<bar>r\<bar> \<le> 2 ^ 159"
proof -
  have "\<bar>logits i\<bar> \<le> 2 ^ 31" using assms(1) by (auto simp: in_int32_def abs_le_iff)
  then have "\<bar>of_int (logits i)\<bar> \<le> (2 ^ 31 :: rat)"
    by (metis of_int_abs of_int_le_iff of_int_numeral of_int_power)
  then have "\<bar>of_int (logits i) * s\<bar> \<le> 2 ^ 31 * 2 ^ 128"
    unfolding abs_mult using assms(2,3) by (intro mult_mono) simp_all
  also have "\<dots> = (2 :: rat) ^ 159" by (simp only: power_add [symmetric]) simp
  finally have "- (2 ^ 159) \<le> of_int (logits i) * s" "of_int (logits i) * s \<le> 2 ^ 159"
    by (simp_all only: abs_le_iff) linarith+
  moreover have "fp_ok binary64 (Fin (2 ^ 159))" "fp_ok binary64 (Fin (- (2 ^ 159)))"
    by (simp_all only: fp_ok_neg) (rule ok64_pow; simp)+
  ultimately show ?thesis
    using round64_between [of "- (2 ^ 159)" "2 ^ 159" "of_int (logits i) * s"]
    by (auto simp: real_logit_def abs_le_iff)
qed

lemma max_real_logit_is_max:
  assumes "\<And>i. i < n \<Longrightarrow> real_logit logits s i = Fin (r i)" "0 < n"
  shows "\<exists>j<n. max_real_logit logits s n = Fin (r j) \<and> (\<forall>i<n. r i \<le> r j)"
proof -
  have "\<exists>j<Suc k. max_real_logit logits s (Suc k) = Fin (r j) \<and> (\<forall>i<Suc k. r i \<le> r j)" if "k < n" for k
    using that
  proof (induction k)
    case 0
    then show ?case using assms(1) [of 0] by (simp add: max_real_logit_def)
  next
    case (Suc k)
    then obtain j where j: "j < Suc k" "max_real_logit logits s (Suc k) = Fin (r j)" "\<forall>i<Suc k. r i \<le> r j"
      by auto
    have step: "max_real_logit logits s (Suc (Suc k))
        = (if r j < r (Suc k) then Fin (r (Suc k)) else Fin (r j))"
      using j(2) assms(1) [of "Suc k"] Suc.prems by (simp add: max_real_logit_def)
    show ?case
    proof (cases "r j < r (Suc k)")
      case True
      then have "\<forall>i<Suc (Suc k). r i \<le> r (Suc k)" using j(3) by (auto simp: less_Suc_eq intro: less_imp_le order_trans)
      then show ?thesis using step True by (intro exI [of _ "Suc k"]) simp
    next
      case False
      then have "\<forall>i<Suc (Suc k). r i \<le> r j" using j(3) by (auto simp: less_Suc_eq)
      then show ?thesis using step False j(1) by (intro exI [of _ j]) simp
    qed
  qed
  from this [of "n - 1"] show ?thesis using assms(2) by simp
qed

text \<open>The running sum stays between its largest term and the number of terms.\<close>

lemma exp_sums_bounds:
  assumes "\<And>i. i < n \<Longrightarrow> exp64 (fp_sub binary64 (real_logit logits s i) m) = Fin (t i)
      \<and> 0 \<le> t i \<and> t i \<le> 1 \<and> fp_ok binary64 (Fin (t i))" "n \<le> 2 ^ 53"
  shows "\<exists>S. exp_sums exp64 logits s m c n = (Fin S, if c < n then Fin (t c) else Fin 0)
    \<and> 0 \<le> S \<and> S \<le> of_nat n \<and> fp_ok binary64 (Fin S) \<and> (\<forall>i<n. t i \<le> S)"
  using assms
proof (induction n)
  case (Suc n)
  obtain S where S: "exp_sums exp64 logits s m c n = (Fin S, if c < n then Fin (t c) else Fin 0)"
    "0 \<le> S" "S \<le> of_nat n" "fp_ok binary64 (Fin S)" "\<forall>i<n. t i \<le> S"
    using Suc.IH Suc.prems by auto
  have tn: "exp64 (fp_sub binary64 (real_logit logits s n) m) = Fin (t n)" "0 \<le> t n" "t n \<le> 1"
    "fp_ok binary64 (Fin (t n))" using Suc.prems(1) by simp_all
  have okn: "fp_ok binary64 (Fin (of_nat (Suc n)))" using Suc.prems(2) by (rule ok64_nat)
  obtain S' where S': "round_fp binary64 (S + t n) = Fin S'" "S \<le> S'" "S' \<le> of_nat (Suc n)" "fp_ok binary64 (Fin S')"
    using round64_between [OF S(4) okn, of "S + t n"] S tn by auto
  moreover have "t n \<le> S'"
    using round64_between [OF tn(4) okn, of "S + t n"] S tn S'(1) by auto
  moreover have "exp_sums exp64 logits s m c (Suc n)
      = (Fin S', if n = c then Fin (t n) else if c < n then Fin (t c) else Fin 0)"
    using S(1) tn(1) S'(1) by (simp add: exp_sums_def)
  moreover have "\<forall>i<Suc n. t i \<le> S'" using S(5) S'(2) \<open>t n \<le> S'\<close> by (auto simp: less_Suc_eq)
  ultimately show ?case using S(2) by (intro exI [of _ S']) auto
qed (simp add: exp_sums_def ok64_nat [of 0, simplified])

lemma confidence_value:
  assumes "exp_ok exp64" "0 < s" "s < 2 ^ 128" "unat c < n" "n \<le> 2 ^ 53"
    and "\<And>i. i < n \<Longrightarrow> in_int32 (logits i)"
  shows "\<exists>S t. 0 \<le> t \<and> t \<le> S \<and> 1 \<le> S \<and> S \<le> of_nat n
      \<and> ((\<forall>i<n. logits i \<le> logits (unat c)) \<longrightarrow> t = 1) \<and> fp_ok binary64 (Fin S)
      \<and> exp_sums exp64 logits (Fin s) (max_real_logit logits (Fin s) n) (unat c) n = (Fin S, Fin t)"
proof -
  have "\<exists>r. i < n \<longrightarrow> real_logit logits (Fin s) i = Fin r \<and> \<bar>r\<bar> \<le> 2 ^ 159" for i
    using real_logit_fin [of logits i s] assms(2,3,6) by blast
  then obtain r where r: "\<And>i. i < n \<Longrightarrow> real_logit logits (Fin s) i = Fin (r i)" "\<And>i. i < n \<Longrightarrow> \<bar>r i\<bar> \<le> 2 ^ 159"
    by metis
  have "0 < n" using assms(4) by simp
  from max_real_logit_is_max [OF r(1) this] obtain j where
    j: "j < n" "max_real_logit logits (Fin s) n = Fin (r j)" "\<And>i. i < n \<Longrightarrow> r i \<le> r j" by auto
  have diff: "\<exists>d\<le>0. fp_sub binary64 (Fin (r i)) (Fin (r j)) = Fin d \<and> (r i = r j \<longrightarrow> d = 0)" if "i < n" for i
  proof -
    have "- (2 ^ 160) \<le> r i - r j" using r(2) [OF that] r(2) [OF j(1)] by (simp add: abs_le_iff)
    moreover have "fp_ok binary64 (Fin (- (2 ^ 160)))" "fp_ok binary64 (Fin (of_nat 0))"
      by (simp only: fp_ok_neg, rule ok64_pow, simp, rule ok64_nat, simp)
    ultimately show ?thesis
      using round64_between [of "- (2 ^ 160)" 0 "r i - r j"] j(3) [OF that] by (auto simp: fp_sub_def)
  qed
  have "\<exists>t. i < n \<longrightarrow> exp64 (fp_sub binary64 (real_logit logits (Fin s) i) (Fin (r j))) = Fin t
      \<and> 0 \<le> t \<and> t \<le> 1 \<and> fp_ok binary64 (Fin t) \<and> (r i = r j \<longrightarrow> t = 1)" for i
    using diff [of i] assms(1) r(1) [of i] unfolding exp_ok_def by (metis fp.inject)
  then obtain t where t: "\<And>i. i < n \<Longrightarrow> exp64 (fp_sub binary64 (real_logit logits (Fin s) i) (Fin (r j))) = Fin (t i)
      \<and> 0 \<le> t i \<and> t i \<le> 1 \<and> fp_ok binary64 (Fin (t i))" "\<And>i. i < n \<Longrightarrow> r i = r j \<Longrightarrow> t i = 1"
    by metis
  obtain S where S: "exp_sums exp64 logits (Fin s) (Fin (r j)) (unat c) n = (Fin S, Fin (t (unat c)))"
    "S \<le> of_nat n" "fp_ok binary64 (Fin S)" "\<forall>i<n. t i \<le> S"
    using exp_sums_bounds [of n exp64 logits "Fin s" "Fin (r j)" t "unat c", OF t(1) assms(5)] assms(4) by auto
  have "r (unat c) = r j" if "\<forall>i<n. logits i \<le> logits (unat c)"
  proof -
    have "fp_le (real_logit logits (Fin s) j) (real_logit logits (Fin s) (unat c))"
      using that j(1) assms(2) by (simp add: real_logit_def round_fp_mono mult_right_mono)
    then show ?thesis using r(1) [OF j(1)] r(1) [OF assms(4)] j(3) [OF assms(4)] by simp
  qed
  then show ?thesis
    using S t(1) [OF assms(4)] t(2) [OF assms(4)] t(2) [OF j(1) refl] j(1,2) assms(4)
    by (intro exI [of _ S] exI [of _ "t (unat c)"]) auto
qed

section \<open>Properties\<close>

lemma head_exact:
  assumes "feat = gap_sum pl_output junk" "d \<noteq> 0" "0 < n" "n < 2 ^ 32"
    and "score = (\<lambda>i. sint (b i) + (\<Sum>c<64. c_div (feat c) (sint d) * sint (w (i * 64 + c))))"
    and "fc feat d w b n logits = (st, logits')"
  shows "(\<forall>c<64. feat c = (\<Sum>y<12. \<Sum>x<12. sint (pl_output ((y * 12 + x) * 64 + c)))
        \<and> - 18432 \<le> feat c \<and> feat c \<le> 18288)
    \<and> st = (if \<forall>i<n. - (2 ^ 31) \<le> score i \<and> score i < 2 ^ 31 then PostOk else PostOverflow)
    \<and> (st = PostOk \<longrightarrow> (\<forall>i<n. logits' i = score i)
        \<and> (\<exists>best<n. argmax logits' n c0 = (PostOk, word_of_nat best) \<and> unat (word_of_nat best :: u32) = best
             \<and> (\<forall>i<n. score i \<le> score best) \<and> (\<forall>i<best. score i < score best)))"
proof (intro conjI impI)
  have sum: "feat c = (\<Sum>y<12. \<Sum>x<12. sint (pl_output ((y * 12 + x) * 64 + c)))" if "c < 64" for c
    using that gap_sum_value [of c] unfolding assms(1) output_sizes by simp
  show "\<forall>c<64. feat c = (\<Sum>y<12. \<Sum>x<12. sint (pl_output ((y * 12 + x) * 64 + c)))
        \<and> - 18432 \<le> feat c \<and> feat c \<le> 18288"
  proof (intro allI impI conjI)
    fix c :: nat assume c: "c < 64"
    let ?f = "\<lambda>y x. sint (pl_output ((y * 12 + x) * 64 + c))"
    have row: "- 1536 \<le> (\<Sum>x<12. ?f y x)" "(\<Sum>x<12. ?f y x) \<le> 1524" for y
      using sum_bounded_below [of "{..<12 :: nat}" "- 128" "?f y"] sum_bounded_above [of "{..<12 :: nat}" "?f y" 127]
        sint_range8 by simp_all
    show "- 18432 \<le> feat c" "feat c \<le> 18288"
      unfolding sum [OF c]
      using sum_bounded_below [of "{..<12 :: nat}" "- 1536" "\<lambda>y. \<Sum>x<12. ?f y x"]
        sum_bounded_above [of "{..<12 :: nat}" "\<lambda>y. \<Sum>x<12. ?f y x" 1524] row by simp_all
  qed (rule sum)
  have A: "fc_accumulator feat d w b = score"
    unfolding assms(5) fun_eq_iff fc_accumulator_value by (simp add: OUTPUT_CHANNELS_def)
  have spec: "st = PostOk \<or> st = PostOverflow" "st = PostOk \<longleftrightarrow> (\<forall>i<n. in_int32 (score i))"
    "st = PostOk \<Longrightarrow> logits' = (\<lambda>j. if j < n then score j else logits j)"
    using fc_classes_spec [of score 0 n logits st logits'] assms(2,3,6) by (auto simp: fc_def A)
  show "st = (if \<forall>i<n. - (2 ^ 31) \<le> score i \<and> score i < 2 ^ 31 then PostOk else PostOverflow)"
    using spec(1,2) by (auto simp: in_int32_def)
  assume ok: "st = PostOk"
  show same: "\<forall>i<n. logits' i = score i" using spec(3) [OF ok] by simp
  let ?b = "argmax_index logits' n"
  have "?b < n" "\<forall>i<n. score i \<le> score ?b" "\<forall>i<?b. score i < score ?b"
    using argmax_index_first [OF assms(3), of logits'] same by auto
  then show "\<exists>best<n. argmax logits' n c0 = (PostOk, word_of_nat best) \<and> unat (word_of_nat best :: u32) = best
             \<and> (\<forall>i<n. score i \<le> score best) \<and> (\<forall>i<best. score i < score best)"
    using assms(3,4) by (intro exI [of _ ?b]) (simp add: argmax_def unat_of_nat)
qed

text \<open>
  The classifier head is exact. From any feature map, the channel sums are the true sums and
  fit in 32 bits; \<open>fc\<close> succeeds exactly when every exact class score fits in 32 bits, and then
  stores exactly these scores; \<open>argmax\<close> then answers the first class of the highest score.
\<close>

theorem gap_fc_argmax_exact:
  assumes "feat = gap_sum pl_output junk" "d \<noteq> 0" "0 < n" "n < 2 ^ 32"
    and "score = (\<lambda>i. sint (b i) + (\<Sum>c<64. c_div (feat c) (sint d) * sint (w (i * 64 + c))))"
    and "fc feat d w b n logits = (st, logits')"
  shows "(\<forall>c<64. feat c = (\<Sum>y<12. \<Sum>x<12. sint (pl_output ((y * 12 + x) * 64 + c)))
        \<and> - 18432 \<le> feat c \<and> feat c \<le> 18288)
    \<and> st = (if \<forall>i<n. - (2 ^ 31) \<le> score i \<and> score i < 2 ^ 31 then PostOk else PostOverflow)
    \<and> (st = PostOk \<longrightarrow> (\<forall>i<n. logits' i = score i)
        \<and> (\<exists>best<n. argmax logits' n c0 = (PostOk, word_of_nat best) \<and> unat (word_of_nat best :: u32) = best
             \<and> (\<forall>i<n. score i \<le> score best) \<and> (\<forall>i<best. score i < score best)))"
  using assms by (rule head_exact)

theorem gap_fc_argmax_exact_witness:
  "let feat = gap_sum (\<lambda>_. 2) (\<lambda>_. 7); r = fc feat 144 (\<lambda>i. if i = 64 then 5 else 0) (\<lambda>_. 1) 2 (\<lambda>_. 0)
   in feat 3 = 288 \<and> fst r = PostOk \<and> snd r 1 = 11"
proof -
  let ?feat = "gap_sum (\<lambda>_. 2) (\<lambda>_. 7)" and ?w = "\<lambda>i :: nat. if i = 64 then 5 else 0 :: 8 word"
  obtain st logits where r: "fc ?feat 144 ?w (\<lambda>_. 1) 2 (\<lambda>_. 0) = (st, logits)" by fastforce
  define score where
    "score = (\<lambda>i. sint (1 :: u32) + (\<Sum>c<64. c_div (?feat c) (sint (144 :: u32)) * sint (?w (i * 64 + c))))"
  have c: "(\<forall>c<64. ?feat c = 288 \<and> - 18432 \<le> ?feat c \<and> ?feat c \<le> 18288)
      \<and> st = (if \<forall>i<2. - (2 ^ 31) \<le> score i \<and> score i < 2 ^ 31 then PostOk else PostOverflow)
      \<and> (st = PostOk \<longrightarrow> (\<forall>i<2. logits i = score i))"
    using gap_fc_argmax_exact [OF refl _ _ _ score_def r, where ?c0.0 = 0] by simp
  have score: "score 0 = 1" "score 1 = 11"
  proof -
    have "score i = 1 + (\<Sum>c<64. if c = (0 :: nat) \<and> i = 1 then 10 else 0)" if "i < 2" for i :: nat
      unfolding score_def using that c by (intro arg_cong2 [of _ _ _ _ "(+)"] sum.cong) (auto simp: c_div_def less_2_cases_iff)
    from this [of 0] this [of 1] show "score 0 = 1" "score 1 = 11" by simp_all
  qed
  then have "st = PostOk" using c by (auto simp: less_2_cases_iff)
  then show ?thesis using c score(2) r by (simp add: Let_def)
qed

lemma confidence_bounds:
  assumes "exp_ok exp64" "0 < s" "s < 2 ^ 128" "unat c < n" "n < 2 ^ 32"
    and "\<And>i. i < n \<Longrightarrow> - (2 ^ 31) \<le> logits i \<and> logits i < 2 ^ 31"
  shows "\<exists>ppm. confidence_ppm exp64 logits n c (Fin s) = (PostOk, Some (Some ppm)) \<and> unat ppm \<le> 1000000
    \<and> (n \<le> 1000000 \<and> (\<forall>i<n. logits i \<le> logits (unat c)) \<longrightarrow> 1 \<le> unat ppm)"
proof -
  have "in_int32 (logits i)" if "i < n" for i using assms(6) [OF that] by (simp add: in_int32_def)
  then obtain S t where S: "0 \<le> t" "t \<le> S" "1 \<le> S" "S \<le> of_nat n"
    "(\<forall>i<n. logits i \<le> logits (unat c)) \<Longrightarrow> t = 1"
    "exp_sums exp64 logits (Fin s) (max_real_logit logits (Fin s) n) (unat c) n = (Fin S, Fin t)"
    using confidence_value [OF assms(1-4), of logits] assms(5) by auto
  have nat_ok: "fp_ok binary64 (Fin 0)" "fp_ok binary64 (Fin 1)" "fp_ok binary64 (Fin 1000000)"
    using ok64_nat [of 0] ok64_nat [of 1] ok64_nat [of 1000000] by simp_all
  obtain p where p: "round_fp binary64 (t / S) = Fin p" "0 \<le> p" "p \<le> 1"
    using round64_between [OF nat_ok(1,2), of "t / S"] S(1-3) by (auto simp: divide_le_eq)
  obtain q where q: "round_fp binary64 (p * 1000000) = Fin q" "0 \<le> q" "q \<le> 1000000"
    using round64_between [OF nat_ok(1,3), of "p * 1000000"] p by auto
  have half: "fp_ok binary64 (Fin (1/2))" "fp_ok binary64 (Fin (2000001/2))" "fp_ok binary64 (Fin (1 / 2 ^ 20))"
    using ok64_frac [of 1 "1 / 2" 1] ok64_frac [of 2000001 "2000001 / 2" 1] ok64_frac [of 1 "1 / 2 ^ 20" 20] by simp_all
  obtain v where v: "round_fp binary64 (q + 1/2) = Fin v" "1/2 \<le> v" "v \<le> 2000001/2"
    using round64_between [OF half(1,2), of "q + 1/2"] q by auto
  have fl: "0 \<le> \<lfloor>v\<rfloor>" "\<lfloor>v\<rfloor> \<le> 1000000" using v(2,3) by (simp_all add: le_floor_iff floor_le_iff)
  have "confidence_ppm exp64 logits n c (Fin s) = (PostOk, Some (Some (word_of_int \<lfloor>v\<rfloor>)))"
    using S q v assms(2,4) p by (simp add: confidence_ppm_def Let_def u32_of_fp_def not_le fp_mul.simps)
  moreover have "unat (word_of_int \<lfloor>v\<rfloor> :: u32) = nat \<lfloor>v\<rfloor>"
    using fl by (simp add: unat_eq_nat_uint uint_word_of_int)
  moreover have "1 \<le> \<lfloor>v\<rfloor>" if "n \<le> 1000000" "\<forall>i<n. logits i \<le> logits (unat c)"
  proof -
    have "of_nat n \<le> (of_nat 1000000 :: rat)" using that(1) by (simp only: of_nat_le_iff)
    then have "S \<le> 1000000" using S(4) by simp
    then have "1 / 2 ^ 20 \<le> t / S" using S(3,5) that(2) by (simp add: field_simps)
    then have p20: "1 / 2 ^ 20 \<le> p"
      using round64_between [OF half(3) nat_ok(2), of "t / S"] S(1-3) p(1) by (auto simp: divide_le_eq)
    then have "1/2 \<le> p * 1000000" by simp
    then have "1/2 \<le> q"
      using round64_between [OF half(1) nat_ok(3), of "p * 1000000"] p q(1) by auto
    then have "1 \<le> v" using round64_between [OF nat_ok(2) half(2), of "q + 1/2"] q v(1) by auto
    then show ?thesis by (simp add: le_floor_iff)
  qed
  moreover have nv: "nat \<lfloor>v\<rfloor> \<le> 1000000" "1 \<le> \<lfloor>v\<rfloor> \<Longrightarrow> 1 \<le> nat \<lfloor>v\<rfloor>" using fl by linarith+
  ultimately show ?thesis
    by (intro exI [of _ "word_of_int \<lfloor>v\<rfloor>"]) (use nv in auto)
qed

text \<open>
  The confidence is a confidence. For a finite positive scale and a library \<open>exp\<close> that is 1 at
  0 and between 0 and 1 below, the softmax in doubles never divides by zero, overflows or converts
  out of range: the answer is at most 1000000, so it is never refused on the wire, and it is at
  least 1 for the class of the highest score among up to a million classes.
\<close>

theorem confidence_in_range:
  assumes "exp_ok exp64" "0 < s" "s < 2 ^ 128" "unat c < n" "n < 2 ^ 32"
    and "\<And>i. i < n \<Longrightarrow> - (2 ^ 31) \<le> logits i \<and> logits i < 2 ^ 31"
  shows "\<exists>ppm. confidence_ppm exp64 logits n c (Fin s) = (PostOk, Some (Some ppm)) \<and> unat ppm \<le> 1000000
    \<and> (n \<le> 1000000 \<and> (\<forall>i<n. logits i \<le> logits (unat c)) \<longrightarrow> 1 \<le> unat ppm)"
  using assms by (rule confidence_bounds)

theorem confidence_in_range_witness:
  "\<exists>ppm. confidence_ppm (\<lambda>v. if v = Fin 0 then Fin 1 else Fin 0) (\<lambda>i. if i = 2 then 7 else - 5) 4 2 (Fin (1/8))
     = (PostOk, Some (Some ppm)) \<and> 1 \<le> unat ppm \<and> unat ppm \<le> 1000000"
proof -
  have logits: "- (2 ^ 31) \<le> (if i = 2 then 7 else - 5 :: int) \<and> (if i = 2 then 7 else - 5) < (2 ^ 31 :: int)" for i :: nat
    by simp
  have "fp_ok binary64 (Fin 0)" "fp_ok binary64 (Fin 1)"
    using ok64_nat [of 0] ok64_nat [of 1] by simp_all
  then have "exp_ok (\<lambda>v. if v = Fin 0 then Fin 1 else Fin 0)" by (auto simp: exp_ok_def)
  from confidence_in_range [where s = "1/8" and c = 2 and n = 4 and logits = "\<lambda>i. if i = 2 then 7 else - 5",
      OF this _ _ _ _ logits]
  have "\<exists>ppm. confidence_ppm (\<lambda>v. if v = Fin 0 then Fin 1 else Fin 0) (\<lambda>i. if i = 2 then 7 else - 5) 4 2 (Fin (1/8))
      = (PostOk, Some (Some ppm)) \<and> unat ppm \<le> 1000000 \<and> 1 \<le> unat ppm" by (simp split: if_splits)
  then show ?thesis by blast
qed

text \<open>An infinite scale, which the server's parser lets pass, makes every value a NaN.\<close>

lemma confidence_infinite_scale:
  assumes "exp64 NaN = NaN"
  shows "confidence_ppm exp64 (\<lambda>_. 3) 1 0 PInf = (PostOk, Some None)"
  using assms by (simp add: confidence_ppm_def exp_sums_def max_real_logit_def real_logit_def
      fp_sub_def u32_of_fp_def signed_inf_def)

end
