(* ===== verification/Ps_Classify.thy ===== *)
theory Ps_Classify
  imports Classifier_Model Ps_Preprocess Ps_Postprocess
begin

text \<open>
  The part of \<open>tools/ps_classifier_server.c\<close> that handles one request: the time measurement, the
  session's statistics and \<open>classify_one\<close>, which runs preprocessing, driver, PL and postprocessing
  on the mapped buffers. The mapping is a function from byte offsets; what the PL leaves in it, the
  clock and \<open>malloc\<close> are arguments. \<open>pl_engine\<close> is the PL on the other side of the driver's
  registers.
\<close>

section \<open>Time\<close>

record timespec =
  tv_sec :: int
  tv_nsec :: int

definition elapsed_us :: "timespec \<Rightarrow> timespec \<Rightarrow> u64" where
  "elapsed_us start end_time =
     (let seconds = tv_sec end_time - tv_sec start;
          nanoseconds = tv_nsec end_time - tv_nsec start;
          total = seconds * 1000000 + c_div nanoseconds 1000
      in if total > 0 then word_of_int total else 0)"

record request_timing =
  t_preprocess_us :: u64
  t_pl_run_us :: u64
  t_postprocess_us :: u64
  t_server_us :: u64

record stat_accumulator =
  stat_count :: u64
  sum_us :: u64
  min_us :: u64
  max_us :: u64

definition stat_reset :: stat_accumulator where
  "stat_reset = \<lparr>stat_count = 0, sum_us = 0, min_us = - 1, max_us = 0\<rparr>"

definition stat_add :: "u64 \<Rightarrow> stat_accumulator \<Rightarrow> stat_accumulator" where
  "stat_add value_us s =
     (let s = s\<lparr>stat_count := stat_count s + 1\<rparr>;
          s = s\<lparr>sum_us := sum_us s + value_us\<rparr>;
          s = (if value_us < min_us s then s\<lparr>min_us := value_us\<rparr> else s);
          s = (if value_us > max_us s then s\<lparr>max_us := value_us\<rparr> else s)
      in s)"

definition fp_of_u64 :: "u64 \<Rightarrow> fp" where
  "fp_of_u64 v = round_fp binary64 (of_nat (unat v))"

definition stat_mean_ms :: "stat_accumulator \<Rightarrow> fp" where
  "stat_mean_ms s = (if stat_count s = 0 then Fin 0
     else fp_div binary64 (fp_div binary64 (fp_of_u64 (sum_us s)) (fp_of_u64 (stat_count s))) (Fin 1000))"

definition stat_min_ms :: "stat_accumulator \<Rightarrow> fp" where
  "stat_min_ms s = (if stat_count s = 0 then Fin 0 else fp_div binary64 (fp_of_u64 (min_us s)) (Fin 1000))"

definition stat_max_ms :: "stat_accumulator \<Rightarrow> fp" where
  "stat_max_ms s = fp_div binary64 (fp_of_u64 (max_us s)) (Fin 1000)"

record session_metrics =
  mt_preprocess :: stat_accumulator
  mt_pl_run :: stat_accumulator
  mt_postprocess :: stat_accumulator
  mt_server :: stat_accumulator
  ok_count :: u64
  error_count :: u64
  first_request :: timespec
  last_request :: timespec

definition session_metrics_reset :: session_metrics where
  "session_metrics_reset = \<lparr>mt_preprocess = stat_reset, mt_pl_run = stat_reset, mt_postprocess = stat_reset,
     mt_server = stat_reset, ok_count = 0, error_count = 0,
     first_request = \<lparr>tv_sec = 0, tv_nsec = 0\<rparr>, last_request = \<lparr>tv_sec = 0, tv_nsec = 0\<rparr>\<rparr>"

definition session_metrics_add ::
  "session_metrics \<Rightarrow> request_timing \<Rightarrow> roi_result \<Rightarrow> timespec \<Rightarrow> timespec \<Rightarrow> session_metrics" where
  "session_metrics_add M timing result started finished =
     (let M = (if stat_count (mt_server M) = 0 then M\<lparr>first_request := started\<rparr> else M);
          M = M\<lparr>last_request := finished\<rparr>;
          M = M\<lparr>mt_preprocess := stat_add (t_preprocess_us timing) (mt_preprocess M)\<rparr>;
          M = M\<lparr>mt_pl_run := stat_add (t_pl_run_us timing) (mt_pl_run M)\<rparr>;
          M = M\<lparr>mt_postprocess := stat_add (t_postprocess_us timing) (mt_postprocess M)\<rparr>;
          M = M\<lparr>mt_server := stat_add (t_server_us timing) (mt_server M)\<rparr>
      in if r_status result = STATUS_OK then M\<lparr>ok_count := ok_count M + 1\<rparr>
         else M\<lparr>error_count := error_count M + 1\<rparr>)"

section \<open>One request\<close>

definition failed_result :: "u32 \<Rightarrow> roi_result" where
  "failed_result status = \<lparr>r_status = status, r_class_id = INVALID_CLASS_ID, r_confidence_ppm = 0\<rparr>"

text \<open>
  What \<open>classify_one\<close> meets: the clock, what the driver's call meets, the buffers after the PL has
  worked on them, the uninitialised sums, the block that \<open>malloc\<close> gives for the logits, and the
  value that an undefined conversion would yield.
\<close>

record classify_env =
  mark_start :: timespec
  mark_preprocess :: timespec
  mark_pl :: timespec
  mark_post :: timespec
  run_env :: ioctl_env
  pl_effect :: "(nat \<Rightarrow> 8 word) \<Rightarrow> nat \<Rightarrow> 8 word"
  sums_block :: "nat \<Rightarrow> int"
  logits_block :: "(nat \<Rightarrow> int) option"
  undefined_ppm :: u32

text \<open>The parts of the arguments that a request changes.\<close>

record classify_state =
  cl_mem :: "nat \<Rightarrow> 8 word"
  cl_driver :: classifier_dev
  cl_timing :: request_timing

definition postprocess ::
  "(fp \<Rightarrow> fp) \<Rightarrow> (nat \<Rightarrow> 8 word) \<Rightarrow> model \<Rightarrow> fp \<Rightarrow> classify_env \<Rightarrow> roi_result" where
  "postprocess exp64 pl_output model logits_scale env =
     (let channel_sums = gap_sum pl_output (sums_block env) in
      case logits_block env of None \<Rightarrow> failed_result STATUS_POSTPROCESS_ERROR
      | Some logits \<Rightarrow>
          let n = unat (m_class_count model) in
          case (case (m_fc_weights model, m_fc_biases model) of
                  (Some w, Some b) \<Rightarrow> fc channel_sums (m_gap_divisor model) w b n logits
                | _ \<Rightarrow> (PostInvalidArgument, logits)) of
            (fc_status, logits) \<Rightarrow>
          (case (if fc_status = PostOk then argmax logits n INVALID_CLASS_ID else (fc_status, INVALID_CLASS_ID)) of
             (argmax_status, class_id) \<Rightarrow>
               if argmax_status \<noteq> PostOk then failed_result STATUS_POSTPROCESS_ERROR
               else \<lparr>r_status = STATUS_OK, r_class_id = class_id,
                      r_confidence_ppm = (case snd (confidence_ppm exp64 logits n class_id logits_scale) of
                        None \<Rightarrow> 0 | Some None \<Rightarrow> undefined_ppm env | Some (Some v) \<Rightarrow> v)\<rparr>))"

text \<open>None: the run does not return.\<close>

definition classify_one ::
  "(u32 \<Rightarrow> u32) \<Rightarrow> (fp \<Rightarrow> fp) \<Rightarrow> (nat \<Rightarrow> u8) \<Rightarrow> device option \<Rightarrow> model \<Rightarrow> fp \<Rightarrow> classify_env
     \<Rightarrow> classify_state \<Rightarrow> (classify_state \<times> roi_result) option" where
  "classify_one msecs_to_jiffies exp64 img dev model logits_scale env s =
     (let s = s\<lparr>cl_timing := (cl_timing s)\<lparr>t_preprocess_us := 0, t_pl_run_us := 0, t_postprocess_us := 0\<rparr>\<rparr> in
      case (device_ifmap dev, device_output dev) of
        (Some ifmap, Some pl_output) \<Rightarrow>
          let padded = roi_preprocess img (\<lambda>i. cl_mem s (ifmap + i));
              s = s\<lparr>cl_mem := (\<lambda>i. if ifmap \<le> i then padded (i - ifmap) else cl_mem s i)\<rparr>;
              s = s\<lparr>cl_timing := (cl_timing s)\<lparr>t_preprocess_us := elapsed_us (mark_start env) (mark_preprocess env)\<rparr>\<rparr>
          in (case device_run msecs_to_jiffies dev 1000 (run_env env) (cl_driver s) of
                (c, None) \<Rightarrow> None
              | (c, Some run_status) \<Rightarrow>
                  let s = s\<lparr>cl_driver := c, cl_mem := pl_effect env (cl_mem s)\<rparr>;
                      s = s\<lparr>cl_timing := (cl_timing s)\<lparr>t_pl_run_us := elapsed_us (mark_preprocess env) (mark_pl env)\<rparr>\<rparr>
                  in if run_status \<noteq> DeviceOk then Some (s, failed_result STATUS_ACCELERATOR_ERROR)
                     else let result = postprocess exp64 (\<lambda>i. cl_mem s (pl_output + i)) model logits_scale env;
                              s = s\<lparr>cl_timing := (cl_timing s)\<lparr>t_postprocess_us := elapsed_us (mark_pl env) (mark_post env)\<rparr>\<rparr>
                          in Some (s, result))
      | _ \<Rightarrow> Some (s, failed_result STATUS_INVALID_PAYLOAD))"

section \<open>The PL behind the registers\<close>

text \<open>
  The registers give the base addresses of the five arrays, the biases and the requantisers;
  \<open>m\<close> is the memory from the DMA handle on; the arrays are in row-major order.
\<close>

definition dma_at :: "classifier_dev \<Rightarrow> (nat \<Rightarrow> 8 word) \<Rightarrow> nat \<Rightarrow> nat \<Rightarrow> nat \<Rightarrow> 8 word" where
  "dma_at c m lo hi i = m (reg_address (kargs c) lo hi + i - unat (dma_handle c))"

definition dma_layer0 :: "classifier_dev \<Rightarrow> (nat \<Rightarrow> 8 word) \<Rightarrow> layer" where
  "dma_layer0 c m = reg_layer (kexec c) REG_RQ0_MUL REG_RQ0_SHIFT REG_B0
     (\<lambda>oc ic ky kx. dma_at c m REG_W0_LO REG_W0_HI (((oc * 3 + ic) * 3 + ky) * 3 + kx))"

definition dma_layer1 :: "classifier_dev \<Rightarrow> (nat \<Rightarrow> 8 word) \<Rightarrow> layer" where
  "dma_layer1 c m = reg_layer (kexec c) REG_RQ1_MUL REG_RQ1_SHIFT REG_B1
     (\<lambda>oc ky kx ic. dma_at c m REG_W1_LO REG_W1_HI (((oc * 3 + ky) * 3 + kx) * 16 + ic))"

definition dma_layer2 :: "classifier_dev \<Rightarrow> (nat \<Rightarrow> 8 word) \<Rightarrow> layer" where
  "dma_layer2 c m = reg_layer (kexec c) REG_RQ2_MUL REG_RQ2_SHIFT REG_B2
     (\<lambda>oc ky kx ic. dma_at c m REG_W2_LO REG_W2_HI (((oc * 3 + ky) * 3 + kx) * 32 + ic))"

definition pl_engine :: "engine_mem \<Rightarrow> classifier_dev \<Rightarrow> (nat \<Rightarrow> 8 word) \<Rightarrow> nat \<Rightarrow> 8 word" where
  "pl_engine M c m =
     (let out = classifier_top M (\<lambda>y x ch. dma_at c m REG_IFMAP_LO REG_IFMAP_HI ((y * 98 + x) * 3 + ch))
                  (dma_layer0 c m) (dma_layer1 c m) (dma_layer2 c m)
                  (\<lambda>y x ch. dma_at c m REG_OUTPUT_LO REG_OUTPUT_HI ((y * 12 + x) * 64 + ch));
          base = reg_address (kargs c) REG_OUTPUT_LO REG_OUTPUT_HI - unat (dma_handle c)
      in (\<lambda>i. if base \<le> i \<and> i < base + OUTPUT_SIZE
              then let j = i - base in out (j div 64 div 12) (j div 64 mod 12) (j mod 64) else m i))"

section \<open>Congruence of the integer network\<close>

text \<open>Its value depends on the picture, the weights and the biases within their sizes only.\<close>

definition layers_agree :: "nat \<Rightarrow> nat \<Rightarrow> nat \<Rightarrow> nat \<Rightarrow> layer \<Rightarrow> layer \<Rightarrow> bool" where
  "layers_agree d0 d1 d2 d3 l l' \<longleftrightarrow> requantizer l = requantizer l' \<and> (\<forall>oc<d0. biases l oc = biases l' oc)
     \<and> (\<forall>a<d0. \<forall>b<d1. \<forall>c<d2. \<forall>d<d3. weights l a b c d = weights l' a b c d)"

lemma conv_int_agree:
  assumes "\<And>y x c. y < oy + 3 \<Longrightarrow> x < ox + 3 \<Longrightarrow> c < in_ch \<Longrightarrow> img y x c = img' y x c"
    and "\<And>ky kx ic. ky < 3 \<Longrightarrow> kx < 3 \<Longrightarrow> ic < in_ch \<Longrightarrow> w oc ky kx ic = w' oc ky kx ic" "b oc = b' oc"
  shows "conv_int in_ch img w b rq oy ox oc = conv_int in_ch img' w' b' rq oy ox oc"
proof -
  have "(\<Sum>ky<K. \<Sum>kx<K. \<Sum>ic<in_ch. img (oy + ky) (ox + kx) ic * sint (w oc ky kx ic))
      = (\<Sum>ky<K. \<Sum>kx<K. \<Sum>ic<in_ch. img' (oy + ky) (ox + kx) ic * sint (w' oc ky kx ic))"
    using assms(1,2) by (intro sum.cong refl arg_cong2 [of _ _ _ _ "(*)"] arg_cong [of _ _ sint]) (simp_all add: K_def)
  then show ?thesis by (simp add: conv_int_def assms(3))
qed

lemma pool_int_agree:
  assumes "\<And>y x. y < 2 * n \<Longrightarrow> x < 2 * n \<Longrightarrow> f y x c = g y x c" "y < n" "x < n"
  shows "pool_int f y x c = pool_int g y x c"
  using assms by (simp add: pool_int_def)

lemma pad_same_agree:
  assumes "\<And>y x c. y < n \<Longrightarrow> x < n \<Longrightarrow> c < ch \<Longrightarrow> f y x c = g y x c" "c < ch"
  shows "pad_same n f y x c = pad_same n g y x c"
  using assms by (auto simp: pad_same_def)

lemma network_int_agree:
  assumes "\<And>y x c. y < 98 \<Longrightarrow> x < 98 \<Longrightarrow> c < 3 \<Longrightarrow> img y x c = img' y x c"
    and "layers_agree 16 3 3 3 l0 l0'" "layers_agree 32 3 3 16 l1 l1'" "layers_agree 64 3 3 32 l2 l2'"
    and "y < 12" "x < 12" "c < 64"
  shows "network_int img l0 l1 l2 y x c = network_int img' l0' l1' l2' y x c"
proof -
  let ?c0 = "\<lambda>img l. pool_int (conv_int 3 img (\<lambda>oc ky kx ic. weights l oc ic ky kx) (biases l) (requantizer l))"
  let ?c1 = "\<lambda>f l. pool_int (conv_int 16 (pad_same 48 f) (weights l) (biases l) (requantizer l))"
  have 0: "?c0 img l0 y x c = ?c0 img' l0' y x c" if "y < 48" "x < 48" "c < 16" for y x c
    using assms(1,2) that by (intro pool_int_agree [of 48]) (auto simp: layers_agree_def intro!: conv_int_agree)
  have 1: "?c1 (?c0 img l0) l1 y x c = ?c1 (?c0 img' l0') l1' y x c" if "y < 24" "x < 24" "c < 32" for y x c
    using assms(3) that by (intro pool_int_agree [of 24])
      (auto simp: layers_agree_def intro!: conv_int_agree pad_same_agree 0)
  show ?thesis unfolding network_int_def Let_def
    using assms(4-7) by (intro pool_int_agree [of 12])
      (auto simp: layers_agree_def intro!: conv_int_agree pad_same_agree 1)
qed

section \<open>The model as layers\<close>

definition model_layer0 :: "model \<Rightarrow> layer" where
  "model_layer0 md = \<lparr>weights = (\<lambda>oc ic ky kx. m_w_conv0 md (((oc * 3 + ic) * 3 + ky) * 3 + kx)),
     biases = b_conv0 (m_pl_parameters md), requantizer = rq_conv0 (m_pl_parameters md)\<rparr>"

definition model_layer1 :: "model \<Rightarrow> layer" where
  "model_layer1 md = \<lparr>weights = (\<lambda>oc ky kx ic. m_w_conv1 md (((oc * 3 + ky) * 3 + kx) * 16 + ic)),
     biases = b_conv1 (m_pl_parameters md), requantizer = rq_conv1 (m_pl_parameters md)\<rparr>"

definition model_layer2 :: "model \<Rightarrow> layer" where
  "model_layer2 md = \<lparr>weights = (\<lambda>oc ky kx ic. m_w_conv2 md (((oc * 3 + ky) * 3 + kx) * 32 + ic)),
     biases = b_conv2 (m_pl_parameters md), requantizer = rq_conv2 (m_pl_parameters md)\<rparr>"

definition model_ok :: "model \<Rightarrow> bool" where
  "model_ok md \<longleftrightarrow> layer_ok 3 16 (model_layer0 md) \<and> layer_ok 16 32 (model_layer1 md)
     \<and> layer_ok 32 64 (model_layer2 md) \<and> m_class_count md \<noteq> 0 \<and> m_gap_divisor md \<noteq> 0
     \<and> m_fc_weights md \<noteq> None \<and> m_fc_biases md \<noteq> None"

text \<open>The picture as the engine's input, exactly: the nearest integer to \<open>pixel * 127 / 255\<close>.\<close>

definition quantised :: "(nat \<Rightarrow> u8) \<Rightarrow> int arr3" where
  "quantised img y x c = (if y \<in> {1..96} \<and> x \<in> {1..96}
     then (2 * 127 * uint (img (((y - 1) * 96 + (x - 1)) * 3 + c)) + 255) div (2 * 255) else 0)"

definition features :: "model \<Rightarrow> (nat \<Rightarrow> u8) \<Rightarrow> int arr3" where
  "features md img = network_int (quantised img) (model_layer0 md) (model_layer1 md) (model_layer2 md)"

text \<open>The exact score of a class.\<close>

definition class_score :: "model \<Rightarrow> (nat \<Rightarrow> u8) \<Rightarrow> nat \<Rightarrow> int" where
  "class_score md img i = sint (the (m_fc_biases md) i)
     + (\<Sum>c<64. c_div (\<Sum>y<12. \<Sum>x<12. features md img y x c) (sint (m_gap_divisor md))
          * sint (the (m_fc_weights md) (i * 64 + c)))"

section \<open>A device that is ready for requests\<close>

definition registers_hold :: "model \<Rightarrow> (nat \<Rightarrow> u32) \<Rightarrow> bool" where
  "registers_hold md r \<longleftrightarrow> (let p = m_pl_parameters md in
     r REG_RQ0_MUL = rq_multiplier (rq_conv0 p) \<and> r REG_RQ0_SHIFT = ucast (rq_shift (rq_conv0 p))
     \<and> r REG_RQ1_MUL = rq_multiplier (rq_conv1 p) \<and> r REG_RQ1_SHIFT = ucast (rq_shift (rq_conv1 p))
     \<and> r REG_RQ2_MUL = rq_multiplier (rq_conv2 p) \<and> r REG_RQ2_SHIFT = ucast (rq_shift (rq_conv2 p))
     \<and> (\<forall>i<16. r (REG_B0 + i * 4) = b_conv0 p i) \<and> (\<forall>i<32. r (REG_B1 + i * 4) = b_conv1 p i)
     \<and> (\<forall>i<64. r (REG_B2 + i * 4) = b_conv2 p i))"

definition weights_hold :: "model \<Rightarrow> (nat \<Rightarrow> 8 word) \<Rightarrow> bool" where
  "weights_hold md m \<longleftrightarrow> (\<forall>i<432. m (0x8000 + i) = m_w_conv0 md i)
     \<and> (\<forall>i<4608. m (0x9000 + i) = m_w_conv1 md i) \<and> (\<forall>i<18432. m (0xb000 + i) = m_w_conv2 md i)"

definition device_ready :: "device \<Rightarrow> model \<Rightarrow> classify_state \<Rightarrow> bool" where
  "device_ready d md s \<longleftrightarrow> 0 \<le> dev_fd d \<and> dev_dma d \<noteq> None \<and> dev_span d = DMA_SPAN
     \<and> parameters_set (cl_driver s) \<and> unat (dma_handle (cl_driver s)) + 0x13000 < 2 ^ 64
     \<and> registers_hold md (kexec (cl_driver s)) \<and> weights_hold md (cl_mem s)"

text \<open>What is relied on of the PL: it writes to the output buffer only, and when the driver has seen
  DONE this holds what \<open>classifier_top\<close> computes.\<close>

definition pl_contract ::
  "engine_mem \<Rightarrow> (u32 \<Rightarrow> u32) \<Rightarrow> device \<Rightarrow> classify_env \<Rightarrow> classify_state \<Rightarrow> bool" where
  "pl_contract M msecs d env s \<longleftrightarrow>
     (\<forall>m i. \<not> (0x10000 \<le> i \<and> i < 0x10000 + 9216) \<longrightarrow> pl_effect env m i = m i)
     \<and> (case device_run msecs (Some d) 1000 (run_env env) (cl_driver s) of (c, st) \<Rightarrow>
          st = Some DeviceOk \<longrightarrow> pl_effect env = pl_engine M c)"

lemma run_keeps:
  assumes "device_run m dev t env c = (c', st)"
  shows "parameters_set c' = parameters_set c" "dma_handle c' = dma_handle c"
    "r \<noteq> REG_AP_CTRL \<Longrightarrow> kexec c' r = kexec c r"
  using assms
  by (auto simp: device_run_def classifier_ioctl_def run_classifier_def configure_dma_addresses_def Let_def
      split: option.splits prod.splits if_splits)

lemma registers_hold_cong:
  assumes "\<And>r. r \<noteq> REG_AP_CTRL \<Longrightarrow> f r = g r"
  shows "registers_hold md f = registers_hold md g"
proof -
  have "REG_RQ0_MUL \<noteq> REG_AP_CTRL" "REG_RQ0_SHIFT \<noteq> REG_AP_CTRL" "REG_RQ1_MUL \<noteq> REG_AP_CTRL"
    "REG_RQ1_SHIFT \<noteq> REG_AP_CTRL" "REG_RQ2_MUL \<noteq> REG_AP_CTRL" "REG_RQ2_SHIFT \<noteq> REG_AP_CTRL"
    "REG_B0 + k \<noteq> REG_AP_CTRL" "REG_B1 + k \<noteq> REG_AP_CTRL" "REG_B2 + k \<noteq> REG_AP_CTRL" for k
    by (simp_all add: exec_regs)
  then show ?thesis using assms by (simp add: registers_hold_def Let_def)
qed

lemma classify_one_ready:
  assumes "device_ready d md s" "pl_contract M msecs d env s"
    and "classify_one msecs exp64 img (Some d) model sc env s = Some (s', r)"
  shows "device_ready d md s'"
proof -
  obtain a where open_d: "dev_dma d = Some a" "dev_span d = DMA_SPAN" using assms(1) by (auto simp: device_ready_def)
  obtain c st where run: "device_run msecs (Some d) 1000 (run_env env) (cl_driver s) = (c, st)" by fastforce
  have regs: "registers_hold md (kexec c)"
    using registers_hold_cong [of "kexec c" "kexec (cl_driver s)"] run_keeps(3) [OF run] assms(1) by (auto simp: device_ready_def)
  have untouched: "roi_preprocess img (cl_mem s) i = cl_mem s i" if "28812 \<le> i" for i
    using preprocess_behind [of i] that by simp
  have s': "cl_driver s' = c \<and> cl_mem s' = pl_effect env (roi_preprocess img (cl_mem s))"
    using assms(3) run
    by (auto simp: classify_one_def open_buffers [OF open_d] Let_def split: option.splits if_splits)
  show ?thesis
    using assms(1,2) regs run_keeps(1,2) [OF run] s' untouched
    by (simp add: device_ready_def weights_hold_def pl_contract_def)
qed

section \<open>What a run computes\<close>

lemma dma_reads:
  assumes "unat (dma_handle c) + 0x13000 < 2 ^ 64" "c' = configure_dma_addresses c"
  shows "dma_at (c'\<lparr>kexec := r\<rparr>) m REG_IFMAP_LO REG_IFMAP_HI i = m i"
    "dma_at (c'\<lparr>kexec := r\<rparr>) m REG_W0_LO REG_W0_HI i = m (0x8000 + i)"
    "dma_at (c'\<lparr>kexec := r\<rparr>) m REG_W1_LO REG_W1_HI i = m (0x9000 + i)"
    "dma_at (c'\<lparr>kexec := r\<rparr>) m REG_W2_LO REG_W2_HI i = m (0xb000 + i)"
    "reg_address (kargs (c'\<lparr>kexec := r\<rparr>)) REG_OUTPUT_LO REG_OUTPUT_HI - unat (dma_handle (c'\<lparr>kexec := r\<rparr>)) = 0x10000"
proof -
  have h: "dma_handle c' = dma_handle c" by (simp add: assms(2) configure_dma_addresses_def Let_def)
  have at: "reg_address (kargs c') REG_IFMAP_LO REG_IFMAP_HI = unat (dma_handle c)"
    "reg_address (kargs c') REG_W0_LO REG_W0_HI = unat (dma_handle c) + 0x8000"
    "reg_address (kargs c') REG_W1_LO REG_W1_HI = unat (dma_handle c) + 0x9000"
    "reg_address (kargs c') REG_W2_LO REG_W2_HI = unat (dma_handle c) + 0xb000"
    "reg_address (kargs c') REG_OUTPUT_LO REG_OUTPUT_HI = unat (dma_handle c) + 0x10000"
    using configured_addresses [of _ c, OF _ assms(1)] assms(2) by simp_all
  show "dma_at (c'\<lparr>kexec := r\<rparr>) m REG_IFMAP_LO REG_IFMAP_HI i = m i"
    "dma_at (c'\<lparr>kexec := r\<rparr>) m REG_W0_LO REG_W0_HI i = m (0x8000 + i)"
    "dma_at (c'\<lparr>kexec := r\<rparr>) m REG_W1_LO REG_W1_HI i = m (0x9000 + i)"
    "dma_at (c'\<lparr>kexec := r\<rparr>) m REG_W2_LO REG_W2_HI i = m (0xb000 + i)"
    "reg_address (kargs (c'\<lparr>kexec := r\<rparr>)) REG_OUTPUT_LO REG_OUTPUT_HI - unat (dma_handle (c'\<lparr>kexec := r\<rparr>)) = 0x10000"
    by (simp_all add: dma_at_def at h add.assoc)
qed

lemma row_major_step: "a < k \<Longrightarrow> b < m \<Longrightarrow> a * m + b < k * m" for a b k m :: nat
  using mult_le_mono1 [of "Suc a" k m] by simp

lemma row_major3: "a < u \<Longrightarrow> b < v \<Longrightarrow> c < w \<Longrightarrow> (a * v + b) * w + c < u * v * w" for a b c u v w :: nat
  by (intro row_major_step)

lemma row_major4:
  "a < u \<Longrightarrow> b < v \<Longrightarrow> c < w \<Longrightarrow> d < n \<Longrightarrow> ((a * v + b) * w + c) * n + d < u * v * w * n" for a b c d u v w n :: nat
  by (intro row_major_step)

lemma requant_through_register [simp]:
  "\<lparr>rq_multiplier = rq_multiplier q, rq_shift = ucast (ucast (rq_shift q) :: u32)\<rparr> = q"
  by (simp add: ucast_up_ucast_id is_up)

lemma dma_layers_agree:
  assumes "unat (dma_handle c) + 0x13000 < 2 ^ 64" "c' = (configure_dma_addresses c)\<lparr>kexec := r\<rparr>"
    "registers_hold md r" "weights_hold md m"
  shows "layers_agree 16 3 3 3 (dma_layer0 c' m) (model_layer0 md)"
    "layers_agree 32 3 3 16 (dma_layer1 c' m) (model_layer1 md)"
    "layers_agree 64 3 3 32 (dma_layer2 c' m) (model_layer2 md)"
proof -
  have rd: "dma_at c' m REG_W0_LO REG_W0_HI i = m (0x8000 + i)" "dma_at c' m REG_W1_LO REG_W1_HI i = m (0x9000 + i)"
    "dma_at c' m REG_W2_LO REG_W2_HI i = m (0xb000 + i)" for i
    unfolding assms(2) by (simp_all only: dma_reads [OF assms(1) refl])
  have kx: "kexec c' = r" by (simp add: assms(2))
  have idx0: "((a * 3 + b) * 3 + cc) * 3 + d < 432" if "a < 16" "b < 3" "cc < 3" "d < 3" for a b cc d :: nat
    using row_major4 [OF that] by simp
  have idx1: "((a * 3 + b) * 3 + cc) * 16 + d < 4608" if "a < 32" "b < 3" "cc < 3" "d < 16" for a b cc d :: nat
    using row_major4 [OF that] by simp
  have idx2: "((a * 3 + b) * 3 + cc) * 32 + d < 18432" if "a < 64" "b < 3" "cc < 3" "d < 32" for a b cc d :: nat
    using row_major4 [OF that] by simp
  show "layers_agree 16 3 3 3 (dma_layer0 c' m) (model_layer0 md)"
    using assms(3,4) idx0 unfolding layers_agree_def dma_layer0_def model_layer0_def reg_layer_def rd kx
    by (simp add: registers_hold_def Let_def weights_hold_def)
  show "layers_agree 32 3 3 16 (dma_layer1 c' m) (model_layer1 md)"
    using assms(3,4) idx1 unfolding layers_agree_def dma_layer1_def model_layer1_def reg_layer_def rd kx
    by (simp add: registers_hold_def Let_def weights_hold_def)
  show "layers_agree 64 3 3 32 (dma_layer2 c' m) (model_layer2 md)"
    using assms(3,4) idx2 unfolding layers_agree_def dma_layer2_def model_layer2_def reg_layer_def rd kx
    by (simp add: registers_hold_def Let_def weights_hold_def)
qed

lemma layer_ok_agree: "layers_agree out_ch d1 d2 d3 l l' \<Longrightarrow> layer_ok in_ch out_ch l = layer_ok in_ch out_ch l'"
  by (simp add: layer_ok_def layers_agree_def)

lemma index_parts:
  fixes x c :: nat
  assumes "x < w" "c < n"
  shows "((y * w + x) * n + c) div n div w = y" "((y * w + x) * n + c) div n mod w = x"
    "((y * w + x) * n + c) mod n = c"
  using assms by simp_all

text \<open>The output buffer after a run of the PL on a prepared picture.\<close>

lemma pl_engine_features:
  assumes "unat (dma_handle c) + 0x13000 < 2 ^ 64" "c' = (configure_dma_addresses c)\<lparr>kexec := r\<rparr>"
    "registers_hold md r" "weights_hold md m" "model_ok md"
    "\<And>y x ch. y < 98 \<Longrightarrow> x < 98 \<Longrightarrow> ch < 3 \<Longrightarrow> sint (m ((y * 98 + x) * 3 + ch)) = quantised img y x ch"
    "y < 12" "x < 12" "ch < 64"
  shows "sint (pl_engine M c' m (0x10000 + ((y * 12 + x) * 64 + ch))) = features md img y x ch"
proof -
  have base: "reg_address (kargs c') REG_OUTPUT_LO REG_OUTPUT_HI - unat (dma_handle c') = 0x10000"
    unfolding assms(2) by (rule dma_reads [OF assms(1) refl])
  have rd: "dma_at c' m REG_IFMAP_LO REG_IFMAP_HI i = m i" for i
    unfolding assms(2) by (simp only: dma_reads [OF assms(1) refl])
  define j where "j = (y * 12 + x) * 64 + ch"
  have j: "j < 9216" using row_major3 [OF assms(7-9)] by (simp add: j_def)
  have parts: "j div 64 div 12 = y" "j div 64 mod 12 = x" "j mod 64 = ch"
    unfolding j_def by (rule index_parts [OF assms(8,9)])+
  note agree = dma_layers_agree [OF assms(1-4)]
  have ok: "layer_ok 3 16 (dma_layer0 c' m)" "layer_ok 16 32 (dma_layer1 c' m)" "layer_ok 32 64 (dma_layer2 c' m)"
    using agree [THEN layer_ok_agree] assms(5) by (simp_all add: model_ok_def)
  have "sint (pl_engine M c' m (0x10000 + j))
      = sint (classifier_top M (\<lambda>y x ch. m ((y * 98 + x) * 3 + ch)) (dma_layer0 c' m) (dma_layer1 c' m) (dma_layer2 c' m)
          (\<lambda>y x ch. dma_at c' m REG_OUTPUT_LO REG_OUTPUT_HI ((y * 12 + x) * 64 + ch)) y x ch)"
    unfolding pl_engine_def Let_def base rd using j by (simp add: OUTPUT_SIZE_def parts)
  also have "\<dots> = network_int (\<lambda>y x ch. sint (m ((y * 98 + x) * 3 + ch)))
      (dma_layer0 c' m) (dma_layer1 c' m) (dma_layer2 c' m) y x ch"
    by (rule engine_network_int [OF ok assms(7-9)])
  also have "\<dots> = features md img y x ch"
    unfolding features_def by (rule network_int_agree [OF _ agree assms(7-9)]) (rule assms(6))
  finally show ?thesis unfolding j_def .
qed

lemma prepared_picture:
  assumes "y < 98" "x < 98" "c < 3"
  shows "sint (roi_preprocess img m ((y * 98 + x) * 3 + c)) = quantised img y x c"
  using preprocess_at [of y x c img m] assms
  by (auto simp: roi_sizes input_index_def quantize_rounds quantised_def)

section \<open>The answer\<close>

definition in_range32 :: "int \<Rightarrow> bool" where
  "in_range32 v \<longleftrightarrow> - (2 ^ 31) \<le> v \<and> v < 2 ^ 31"

text \<open>The answer that a model gives to a picture: the first of the classes of the highest score.\<close>

definition model_answers :: "model \<Rightarrow> (nat \<Rightarrow> u8) \<Rightarrow> roi_result \<Rightarrow> bool" where
  "model_answers md img r \<longleftrightarrow> r_status r = STATUS_OK
     \<and> (\<exists>best < unat (m_class_count md). r_class_id r = word_of_nat best
          \<and> (\<forall>i < unat (m_class_count md). class_score md img i \<le> class_score md img best)
          \<and> (\<forall>i < best. class_score md img i < class_score md img best))
     \<and> r_confidence_ppm r \<le> CONFIDENCE_PPM_MAX"

lemma postprocess_exact:
  assumes "model_ok md" "logits_block env = Some block" "exp_ok exp64" "0 < sc" "sc < 2 ^ 128"
    and feat: "\<And>y x c. y < 12 \<Longrightarrow> x < 12 \<Longrightarrow> c < 64 \<Longrightarrow> sint (out ((y * 12 + x) * 64 + c)) = features md img y x c"
  shows "if \<forall>i<unat (m_class_count md). in_range32 (class_score md img i)
    then model_answers md img (postprocess exp64 out md (Fin sc) env)
    else postprocess exp64 out md (Fin sc) env = failed_result STATUS_POSTPROCESS_ERROR"
proof -
  obtain w b where wb: "m_fc_weights md = Some w" "m_fc_biases md = Some b" using assms(1) by (auto simp: model_ok_def)
  define n where "n = unat (m_class_count md)"
  have n: "0 < n" "n < 2 ^ 32"
    using assms(1) unsigned_less [where ?'a = nat and w = "m_class_count md"]
    by (simp_all add: n_def model_ok_def unat_gt_0)
  have d: "m_gap_divisor md \<noteq> 0" using assms(1) by (simp add: model_ok_def)
  define g where "g = gap_sum out (sums_block env)"
  obtain st logits where fc: "fc g (m_gap_divisor md) w b n block = (st, logits)" by fastforce
  define score where "score = (\<lambda>i. sint (b i) + (\<Sum>c<64. c_div (g c) (sint (m_gap_divisor md)) * sint (w (i * 64 + c))))"
  note head = head_exact [OF g_def d n score_def fc]
  have g: "g c = (\<Sum>y<12. \<Sum>x<12. features md img y x c)" if "c < 64" for c
    using head that feat by (auto intro!: sum.cong)
  have score: "score i = class_score md img i" for i
    unfolding score_def class_score_def wb option.sel by (intro arg_cong2 [of _ _ _ _ "(+)"] sum.cong refl) (simp add: g)
  have st: "st = (if \<forall>i<n. in_range32 (score i) then PostOk else PostOverflow)"
    using head by (simp add: in_range32_def)
  show ?thesis
  proof (cases "\<forall>i<n. in_range32 (score i)")
    case True
    then have ok: "st = PostOk" using st by simp
    obtain best where best: "best < n" "argmax logits n INVALID_CLASS_ID = (PostOk, word_of_nat best)"
      "unat (word_of_nat best :: u32) = best" "\<forall>i<n. score i \<le> score best" "\<forall>i<best. score i < score best"
      and logits: "\<forall>i<n. logits i = score i"
      using head [where ?c0.0 = INVALID_CLASS_ID] ok by blast
    have "- (2 ^ 31) \<le> logits i \<and> logits i < 2 ^ 31" if "i < n" for i
      using True logits that by (simp add: in_range32_def)
    then obtain ppm where "confidence_ppm exp64 logits n (word_of_nat best) (Fin sc) = (PostOk, Some (Some ppm))"
      "unat ppm \<le> 1000000"
      using confidence_bounds [OF assms(3-5), of "word_of_nat best" n logits] best(1,3) n(2) by auto
    then have "postprocess exp64 out md (Fin sc) env
        = \<lparr>r_status = STATUS_OK, r_class_id = word_of_nat best, r_confidence_ppm = ppm\<rparr>" "ppm \<le> CONFIDENCE_PPM_MAX"
      using fc ok best(2) assms(2) wb
      by (simp_all add: postprocess_def Let_def g_def n_def CONFIDENCE_PPM_MAX_def word_le_nat_alt)
    then show ?thesis using True best n_def score by (auto simp: model_answers_def)
  next
    case False
    then have "st = PostOverflow" by (subst st) (simp only: if_False)
    then have "postprocess exp64 out md (Fin sc) env = failed_result STATUS_POSTPROCESS_ERROR"
      using fc assms(2) wb by (simp add: postprocess_def Let_def g_def n_def)
    moreover have "\<not> (\<forall>i<unat (m_class_count md). in_range32 (class_score md img i))"
      using False by (simp only: n_def score not_False_eq_True)
    ultimately show ?thesis by (simp only: if_False)
  qed
qed

lemma classify_one_answer:
  assumes "device_ready d md s" "model_ok md" "pl_contract M msecs d env s" "logits_block env = Some block"
    "exp_ok exp64" "0 < sc" "sc < 2 ^ 128"
    and "classify_one msecs exp64 img (Some d) md (Fin sc) env s = Some (s', r)"
  shows "r = failed_result STATUS_ACCELERATOR_ERROR
        \<and> snd (device_run msecs (Some d) 1000 (run_env env) (cl_driver s)) \<noteq> Some DeviceOk
    \<or> snd (device_run msecs (Some d) 1000 (run_env env) (cl_driver s)) = Some DeviceOk
        \<and> (if \<forall>i<unat (m_class_count md). in_range32 (class_score md img i) then model_answers md img r
           else r = failed_result STATUS_POSTPROCESS_ERROR)"
proof -
  obtain a where open_d: "dev_dma d = Some a" "dev_span d = DMA_SPAN" using assms(1) by (auto simp: device_ready_def)
  obtain c st where run: "device_run msecs (Some d) 1000 (run_env env) (cl_driver s) = (c, st)" by fastforce
  show ?thesis
  proof (cases "st = Some DeviceOk")
    case True
    let ?m = "roi_preprocess img (cl_mem s)"
    have c: "c = (configure_dma_addresses (cl_driver s))\<lparr>kexec := kexec c\<rparr>"
      using run_ok [OF run [unfolded True]] by (cases "configure_dma_addresses (cl_driver s)") simp
    have pl: "pl_effect env = pl_engine M c" using assms(3) run True by (simp add: pl_contract_def)
    have regs: "registers_hold md (kexec c)"
      using registers_hold_cong [of "kexec c" "kexec (cl_driver s)"] run_keeps(3) [OF run] assms(1) by (auto simp: device_ready_def)
    have handle: "unat (dma_handle (cl_driver s)) + 0x13000 < 2 ^ 64" using assms(1) by (simp add: device_ready_def)
    have w: "weights_hold md ?m"
      using assms(1) preprocess_behind by (simp add: device_ready_def weights_hold_def)
    have out: "sint (pl_engine M c ?m (0x10000 + ((y * 12 + x) * 64 + ch))) = features md img y x ch"
      if "y < 12" "x < 12" "ch < 64" for y x ch
      by (rule pl_engine_features [OF handle c regs w assms(2) prepared_picture that])
    have "r = postprocess exp64 (\<lambda>i. pl_engine M c ?m (0x10000 + i)) md (Fin sc) env"
      using assms(8) run True by (simp add: classify_one_def open_buffers [OF open_d] pl Let_def)
    then show ?thesis
      using postprocess_exact [OF assms(2,4-7) out] True run by simp
  next
    case False
    then show ?thesis using assms(8) run
      by (auto simp: classify_one_def open_buffers [OF open_d] Let_def split: option.splits)
  qed
qed

lemma pl_engine_elsewhere:
  assumes "unat (dma_handle c) + 0x13000 < 2 ^ 64" "c' = (configure_dma_addresses c)\<lparr>kexec := r\<rparr>"
    "\<not> (0x10000 \<le> i \<and> i < 0x10000 + 9216)"
  shows "pl_engine M c' m i = m i"
proof -
  have base: "reg_address (kargs c') REG_OUTPUT_LO REG_OUTPUT_HI - unat (dma_handle c') = 0x10000"
    unfolding assms(2) by (rule dma_reads [OF assms(1) refl])
  show ?thesis unfolding pl_engine_def Let_def base using assms(3) by (auto simp: OUTPUT_SIZE_def)
qed

section \<open>Properties\<close>

text \<open>
  C4: The server answers for the model. On a device that is ready, with a PL that keeps its
  contract, the answer to a picture is the first class of the highest exact score: the score over
  the exact means of the integer network's feature map of the picture quantised to the nearest
  integer, in the weights and biases of the loaded model. A run that the driver reports as failed
  is answered ACCELERATOR_ERROR, a score that does not fit 32 bits POSTPROCESS_ERROR; and the device
  is ready for the next request.
\<close>

theorem classify_one_is_model:
  assumes "device_ready d md s" "model_ok md" "pl_contract M msecs d env s" "logits_block env = Some block"
    and "exp_ok exp64" "0 < sc" "sc < 2 ^ 128"
    and "classify_one msecs exp64 img (Some d) md (Fin sc) env s = Some (s', r)"
  shows "device_ready d md s'
    \<and> (if snd (device_run msecs (Some d) 1000 (run_env env) (cl_driver s)) \<noteq> Some DeviceOk
       then r = failed_result STATUS_ACCELERATOR_ERROR
       else if \<forall>i<unat (m_class_count md). in_range32 (class_score md img i) then model_answers md img r
       else r = failed_result STATUS_POSTPROCESS_ERROR)"
  using classify_one_answer [OF assms] classify_one_ready [OF assms(1,3,8)]
  by (cases "snd (device_run msecs (Some d) 1000 (run_env env) (cl_driver s)) = Some DeviceOk") simp_all

definition witness_model :: model where
  "witness_model = model_null\<lparr>m_fc_weights := Some (\<lambda>_. 0), m_fc_biases := Some (\<lambda>i. if i = 1 then 7 else 3),
     m_class_count := 3, m_gap_divisor := 144\<rparr>"

definition witness_state :: classify_state where
  "witness_state = \<lparr>cl_mem = (\<lambda>_. 0),
     cl_driver = \<lparr>kargs = (\<lambda>_. 0), kexec = (\<lambda>_. 0), dma_handle = 0x1000, parameters_set = True\<rparr>,
     cl_timing = \<lparr>t_preprocess_us = 0, t_pl_run_us = 0, t_postprocess_us = 0, t_server_us = 0\<rparr>\<rparr>"

definition witness_env :: "engine_mem \<Rightarrow> classify_env" where
  "witness_env M = (let t = \<lparr>tv_sec = 0, tv_nsec = 0\<rparr>;
       io = \<lparr>in_parameters = None, in_run = None, copy_out_ok = True, jiffies0 = 0, poll_rounds = [(2, 1)]\<rparr>;
       c = fst (device_run (\<lambda>m. m) (Some \<lparr>dev_fd = 3, dev_dma = Some 0, dev_span = DMA_SPAN\<rparr>) 1000 io (cl_driver witness_state))
     in \<lparr>mark_start = t, mark_preprocess = t, mark_pl = t, mark_post = t, run_env = io,
          pl_effect = pl_engine M c, sums_block = (\<lambda>_. 9), logits_block = Some (\<lambda>_. 5), undefined_ppm = 0\<rparr>)"

lemma witness_run:
  "device_run (\<lambda>m. m) (Some \<lparr>dev_fd = 3, dev_dma = Some 0, dev_span = DMA_SPAN\<rparr>) 1000
     (run_env (witness_env M)) (cl_driver witness_state)
   = ((configure_dma_addresses (cl_driver witness_state))
        \<lparr>kexec := (kexec (configure_dma_addresses (cl_driver witness_state)))(REG_AP_CTRL := AP_START)\<rparr>, Some DeviceOk)"
  by (simp add: witness_env_def witness_state_def device_run_def classifier_ioctl_def run_classifier_def Let_def AP_DONE_def)

theorem classify_one_is_model_witness:
  "\<forall>M. \<exists>s' r. classify_one (\<lambda>m. m) (\<lambda>v. if v = Fin 0 then Fin 1 else Fin 0) (\<lambda>i. of_nat i)
     (Some \<lparr>dev_fd = 3, dev_dma = Some 0, dev_span = DMA_SPAN\<rparr>) witness_model (Fin (1/8)) (witness_env M) witness_state
     = Some (s', r) \<and> r_status r = STATUS_OK \<and> r_class_id r = 1"
proof
  fix M
  let ?d = "\<lparr>dev_fd = 3, dev_dma = Some 0, dev_span = DMA_SPAN\<rparr>" and ?exp = "\<lambda>v. if v = Fin 0 then Fin 1 else Fin 0"
  have "fp_ok binary64 (Fin 0)" "fp_ok binary64 (Fin 1)" using ok64_nat [of 0] ok64_nat [of 1] by simp_all
  then have exp: "exp_ok ?exp" by (auto simp: exp_ok_def)
  have ready: "device_ready ?d witness_model witness_state"
    by (simp add: device_ready_def witness_state_def witness_model_def model_null_def requant_null_def registers_hold_def
        weights_hold_def)
  have ok: "model_ok witness_model"
    by (simp add: model_ok_def witness_model_def model_null_def requant_null_def model_layer0_def model_layer1_def
        model_layer2_def layer_ok_def rq_ok_def)
  have contract: "pl_contract M (\<lambda>m. m) ?d (witness_env M) witness_state"
    using pl_engine_elsewhere [of "cl_driver witness_state", OF _ refl]
    unfolding pl_contract_def witness_run prod.case
    by (simp add: witness_env_def Let_def witness_run [unfolded witness_env_def Let_def, simplified])
      (simp add: witness_state_def)
  obtain s' r where run: "classify_one (\<lambda>m. m) ?exp (\<lambda>i. of_nat i) (Some ?d) witness_model (Fin (1/8)) (witness_env M)
      witness_state = Some (s', r)"
    using witness_run by (auto simp: classify_one_def open_buffers Let_def split: option.splits)
  have score: "class_score witness_model (\<lambda>i. of_nat i) = (\<lambda>i. if i = 1 then 7 else 3)"
    by (simp add: class_score_def witness_model_def fun_eq_iff)
  have logits: "logits_block (witness_env M) = Some (\<lambda>_. 5)" by (simp add: witness_env_def Let_def)
  have scale: "0 < (1/8 :: rat)" "1/8 < (2 ^ 128 :: rat)" by simp_all
  have range: "\<forall>i<unat (m_class_count witness_model). in_range32 (class_score witness_model (\<lambda>i. of_nat i) i)"
    by (simp add: score in_range32_def)
  have n: "unat (m_class_count witness_model) = 3" by (simp add: witness_model_def)
  have "model_answers witness_model (\<lambda>i. of_nat i) r"
    using classify_one_is_model [OF ready ok contract logits exp scale run] range
    unfolding witness_run snd_conv by (simp only: simp_thms if_True if_False)
  then obtain best where best: "r_status r = STATUS_OK" "best < 3" "r_class_id r = word_of_nat best"
    "\<forall>i<(3 :: nat). (if i = 1 then 7 else 3 :: int) \<le> (if best = 1 then 7 else 3)"
    unfolding model_answers_def score n by blast
  then have "best = 1" using best(4) [rule_format, of 1] by (simp split: if_splits)
  then show "\<exists>s' r. classify_one (\<lambda>m. m) ?exp (\<lambda>i. of_nat i) (Some ?d) witness_model (Fin (1/8)) (witness_env M) witness_state
     = Some (s', r) \<and> r_status r = STATUS_OK \<and> r_class_id r = 1" using run best by auto
qed

section \<open>The statistics of a session\<close>

lemma stat_add_eq:
  "stat_add v s = \<lparr>stat_count = stat_count s + 1, sum_us = sum_us s + v, min_us = min v (min_us s),
     max_us = max v (max_us s)\<rparr>"
  by (cases s) (auto simp: stat_add_def Let_def min_def max_def)

lemma stat_fold:
  "fold stat_add vs s = \<lparr>stat_count = stat_count s + of_nat (length vs), sum_us = sum_us s + sum_list vs,
     min_us = fold min vs (min_us s), max_us = fold max vs (max_us s)\<rparr>"
  by (induction vs arbitrary: s) (simp_all add: stat_add_eq algebra_simps)

lemma min_max_word: "min (- 1) v = v" "max 0 v = v" for v :: u64
  by (simp_all add: min_def max_def) (metis word_order.extremum_unique)

lemma stat_exact:
  "fold stat_add (v # vs) stat_reset = \<lparr>stat_count = of_nat (length (v # vs)), sum_us = sum_list (v # vs),
     min_us = Min (set (v # vs)), max_us = Max (set (v # vs))\<rparr>"
proof -
  have "fold min (v # vs) (- 1) = fold min vs v" "fold max (v # vs) 0 = fold max vs v"
    by (simp_all add: min_max_word min.commute [of v] max.commute [of v])
  then show ?thesis
    unfolding stat_fold stat_reset_def by (simp only: Min.set_eq_fold Max.set_eq_fold) simp
qed

type_synonym request_log = "request_timing \<times> roi_result \<times> timespec \<times> timespec"

fun metrics_step :: "request_log \<Rightarrow> session_metrics \<Rightarrow> session_metrics" where
  "metrics_step (timing, result, started, finished) M = session_metrics_add M timing result started finished"

definition log_timing :: "request_log \<Rightarrow> request_timing" where
  "log_timing l = fst l"
definition log_ok :: "request_log \<Rightarrow> bool" where
  "log_ok l \<longleftrightarrow> r_status (fst (snd l)) = STATUS_OK"

lemma metrics_step_fields:
  "mt_preprocess (metrics_step l M) = stat_add (t_preprocess_us (log_timing l)) (mt_preprocess M)"
  "mt_pl_run (metrics_step l M) = stat_add (t_pl_run_us (log_timing l)) (mt_pl_run M)"
  "mt_postprocess (metrics_step l M) = stat_add (t_postprocess_us (log_timing l)) (mt_postprocess M)"
  "mt_server (metrics_step l M) = stat_add (t_server_us (log_timing l)) (mt_server M)"
  "ok_count (metrics_step l M) = ok_count M + (if log_ok l then 1 else 0)"
  "error_count (metrics_step l M) = error_count M + (if log_ok l then 0 else 1)"
  "last_request (metrics_step l M) = snd (snd (snd l))"
  "first_request (metrics_step l M) = (if stat_count (mt_server M) = 0 then fst (snd (snd l)) else first_request M)"
  by (cases l; simp add: session_metrics_add_def log_timing_def log_ok_def Let_def)+

lemma metrics_fold:
  "mt_preprocess (fold metrics_step ls M) = fold stat_add (map (t_preprocess_us \<circ> log_timing) ls) (mt_preprocess M)"
  "mt_pl_run (fold metrics_step ls M) = fold stat_add (map (t_pl_run_us \<circ> log_timing) ls) (mt_pl_run M)"
  "mt_postprocess (fold metrics_step ls M) = fold stat_add (map (t_postprocess_us \<circ> log_timing) ls) (mt_postprocess M)"
  "mt_server (fold metrics_step ls M) = fold stat_add (map (t_server_us \<circ> log_timing) ls) (mt_server M)"
  "ok_count (fold metrics_step ls M) = ok_count M + of_nat (length (filter log_ok ls))"
  "error_count (fold metrics_step ls M) = error_count M + of_nat (length (filter (\<lambda>l. \<not> log_ok l) ls))"
  "ls \<noteq> [] \<Longrightarrow> last_request (fold metrics_step ls M) = snd (snd (snd (last ls)))"
proof (induction ls arbitrary: M)
  case (Cons l ls)
  { case 1 show ?case using Cons.IH(1) by (simp add: metrics_step_fields) }
  { case 2 show ?case using Cons.IH(2) by (simp add: metrics_step_fields) }
  { case 3 show ?case using Cons.IH(3) by (simp add: metrics_step_fields) }
  { case 4 show ?case using Cons.IH(4) by (simp add: metrics_step_fields) }
  { case 5 show ?case using Cons.IH(5) by (simp add: metrics_step_fields) }
  { case 6 show ?case using Cons.IH(6) by (simp add: metrics_step_fields) }
  { case 7 show ?case using Cons.IH(7) by (cases ls) (simp_all add: metrics_step_fields) }
qed simp_all

lemma metrics_first:
  assumes "stat_count (mt_server M) = of_nat k" "0 < k" "k + length ls < 2 ^ 64"
  shows "first_request (fold metrics_step ls M) = first_request M"
  using assms
proof (induction ls arbitrary: M k)
  case (Cons l ls)
  have "unat (of_nat k :: u64) = k" using Cons.prems(3) by (simp add: unat_of_nat)
  then have "(of_nat k :: u64) \<noteq> 0" using Cons.prems(2) by auto
  then have "first_request (metrics_step l M) = first_request M"
    "stat_count (mt_server (metrics_step l M)) = of_nat (Suc k)"
    using Cons.prems(1) by (simp_all add: metrics_step_fields stat_add_eq)
  then show ?case using Cons.IH [of "metrics_step l M" "Suc k"] Cons.prems(3) by simp
qed simp

text \<open>
  The summary of a session is true. After any number of requests below \<open>2 ^ 64\<close> each of the four
  rows has the number, the sum, the least and the greatest of the times measured for it, the two
  counters add up the answers that are OK and that are not, and the span runs from the start of the
  first request to the end of the last.
\<close>

theorem session_metrics_exact:
  assumes "ls \<noteq> []" "length ls < 2 ^ 64" "M = fold metrics_step ls session_metrics_reset"
  shows "(\<forall>(row, t) \<in> {(mt_preprocess M, t_preprocess_us), (mt_pl_run M, t_pl_run_us),
            (mt_postprocess M, t_postprocess_us), (mt_server M, t_server_us)}.
        let vs = map (t \<circ> log_timing) ls in
        row = \<lparr>stat_count = of_nat (length ls), sum_us = sum_list vs, min_us = Min (set vs), max_us = Max (set vs)\<rparr>)
    \<and> ok_count M = of_nat (length (filter log_ok ls))
    \<and> ok_count M + error_count M = of_nat (length ls)
    \<and> first_request M = fst (snd (snd (hd ls))) \<and> last_request M = snd (snd (snd (last ls)))"
proof -
  obtain l rest where ls: "ls = l # rest" using assms(1) by (cases ls) auto
  have zero: "stat_count (mt_server session_metrics_reset) = 0"
    by (simp add: session_metrics_reset_def stat_reset_def)
  then have "stat_count (mt_server (metrics_step l session_metrics_reset)) = of_nat 1"
    by (simp add: metrics_step_fields stat_add_eq)
  then have "first_request M = first_request (metrics_step l session_metrics_reset)"
    unfolding assms(3) ls fold_simps by (rule metrics_first) (use assms(2) ls in simp_all)
  then have first: "first_request M = fst (snd (snd (hd ls)))" by (simp add: ls metrics_step_fields zero)
  have counts: "ok_count M = of_nat (length (filter log_ok ls))"
    "error_count M = of_nat (length (filter (\<lambda>l. \<not> log_ok l) ls))"
    unfolding assms(3) metrics_fold by (simp_all add: session_metrics_reset_def)
  have sum: "ok_count M + error_count M = of_nat (length ls)"
    unfolding counts of_nat_add [symmetric] using sum_length_filter_compl [of log_ok ls] by simp
  have row: "fold stat_add (map f ls) stat_reset = \<lparr>stat_count = of_nat (length ls), sum_us = sum_list (map f ls),
      min_us = Min (set (map f ls)), max_us = Max (set (map f ls))\<rparr>" for f
    using stat_exact [of "f l" "map f rest"] by (simp add: ls)
  have rows: "mt_preprocess M = fold stat_add (map (t_preprocess_us \<circ> log_timing) ls) stat_reset"
    "mt_pl_run M = fold stat_add (map (t_pl_run_us \<circ> log_timing) ls) stat_reset"
    "mt_postprocess M = fold stat_add (map (t_postprocess_us \<circ> log_timing) ls) stat_reset"
    "mt_server M = fold stat_add (map (t_server_us \<circ> log_timing) ls) stat_reset"
    unfolding assms(3) metrics_fold by (simp_all add: session_metrics_reset_def)
  have last: "last_request M = snd (snd (snd (last ls)))"
    unfolding assms(3) by (rule metrics_fold(7) [OF assms(1)])
  show ?thesis
    using counts(1) sum first last by (simp only: rows row Let_def ball_simps prod.case simp_thms)
qed

theorem session_metrics_exact_witness:
  "let T = (\<lambda>t. \<lparr>t_preprocess_us = 1, t_pl_run_us = 2, t_postprocess_us = 3, t_server_us = t\<rparr>);
       sec = (\<lambda>s. \<lparr>tv_sec = s, tv_nsec = 0\<rparr>);
       M = fold metrics_step [(T 9, \<lparr>r_status = 0, r_class_id = 4, r_confidence_ppm = 7\<rparr>, sec 1, sec 2),
             (T 7, failed_result 3, sec 5, sec 6)] session_metrics_reset
   in ok_count M = 1 \<and> first_request M = sec 1 \<and> min_us (mt_server M) = 7 \<and> max_us (mt_server M) = 9"
proof -
  let ?T = "\<lambda>t. \<lparr>t_preprocess_us = 1, t_pl_run_us = 2, t_postprocess_us = 3, t_server_us = t\<rparr>"
    and ?sec = "\<lambda>s. \<lparr>tv_sec = s, tv_nsec = 0\<rparr>"
  define ls where "ls = [(?T 9, \<lparr>r_status = 0, r_class_id = 4, r_confidence_ppm = 7\<rparr>, ?sec 1, ?sec 2),
             (?T 7, failed_result 3, ?sec 5, ?sec 6)]"
  have ls: "ls \<noteq> []" "length ls < 2 ^ 64" by (simp_all add: ls_def)
  define M where "M = fold metrics_step ls session_metrics_reset"
  have "log_ok (?T 9, \<lparr>r_status = 0, r_class_id = 4, r_confidence_ppm = 7\<rparr>, ?sec 1, ?sec 2)"
    "\<not> log_ok (?T 7, failed_result 3, ?sec 5, ?sec 6)"
    by (simp_all add: log_ok_def failed_result_def STATUS_OK_def)
  then have len: "length (filter log_ok ls) = 1" "length ls = 2" by (simp_all add: ls_def)
  have vals: "map (t_server_us \<circ> log_timing) ls = [9, 7]" "fst (snd (snd (hd ls))) = ?sec 1"
    "(\<lambda>x. t_server_us (log_timing x)) ` set ls = {9, 7}"
    by (simp_all add: ls_def log_timing_def)
  have "ok_count M = 1" "first_request M = ?sec 1"
    "mt_server M = \<lparr>stat_count = 2, sum_us = 16, min_us = 7, max_us = 9\<rparr>"
    using session_metrics_exact [OF ls M_def] len vals by simp_all
  then show ?thesis unfolding Let_def ls_def [symmetric] M_def [symmetric] by simp
qed

end
