(* ===== verification/Hazard_Latch.thy ===== *)
theory Hazard_Latch
  imports Safety_Filter
begin

text \<open>
  \<open>common/SafetyHazardLatch\<close>: a Stop is held for a fixed time, and the class that caused it
  is then ignored until it has been absent for long enough. The latch remembers one event.
\<close>

section \<open>State\<close>

datatype phase = Idle | Holding | Released

record latch_config =
  hold_ms :: u64
  release_frames :: u32
  release_ms :: u64

definition LatchConfig_default :: latch_config where
  "LatchConfig_default = \<lparr>hold_ms = 3000, release_frames = 10, release_ms = 0\<rparr>"

record hazard_latch =
  lconfig :: latch_config
  phase :: phase
  latched_class :: i32
  hold_until_ms :: u64
  absent_frames :: u32
  absent_since_ms :: u64
  last_state :: safety_state

definition HazardLatch :: "latch_config \<Rightarrow> hazard_latch" where
  "HazardLatch config = \<lparr>lconfig = config, phase = Idle, latched_class = -1, hold_until_ms = 0,
     absent_frames = 0, absent_since_ms = 0, last_state = Clear\<rparr>"

definition latch_reset :: "hazard_latch \<Rightarrow> hazard_latch" where
  "latch_reset L = L\<lparr>phase := Idle, latched_class := -1, hold_until_ms := 0, absent_frames := 0,
     absent_since_ms := 0, last_state := Clear\<rparr>"

section \<open>update\<close>

text \<open>The hold has run out: the event is released and its class watched for absence.\<close>

definition latch_expire :: "hazard_latch \<Rightarrow> u64 \<Rightarrow> hazard_latch" where
  "latch_expire L now =
     (if phase L = Holding
      then L\<lparr>phase := Released, absent_frames := 0, absent_since_ms := now\<rparr> else L)"

definition latch_watch ::
  "hazard_latch \<Rightarrow> detection list option \<Rightarrow> nat \<Rightarrow> judge_config \<Rightarrow> u64 \<Rightarrow> hazard_latch" where
  "latch_watch L items count config now =
     (if phase L = Released then
        if classPresent items count (latched_class L) config
        then L\<lparr>absent_frames := 0, absent_since_ms := now\<rparr>
        else let L = L\<lparr>absent_frames := absent_frames L + 1\<rparr>;
                 frames_ok = absent_frames L \<ge> release_frames (lconfig L);
                 time_ok = release_ms (lconfig L) = 0
                   \<or> now \<ge> absent_since_ms L \<and> now - absent_since_ms L \<ge> release_ms (lconfig L)
             in if frames_ok \<and> time_ok then L\<lparr>phase := Idle, latched_class := -1\<rparr> else L
      else L)"

definition latch_decide ::
  "hazard_latch \<Rightarrow> detection list option \<Rightarrow> nat \<Rightarrow> judge_config \<Rightarrow> u64 \<Rightarrow> hazard_latch \<times> safety_state" where
  "latch_decide L items count config now =
     (let exclude = (if phase L = Released then latched_class L else -1) in
      case judgeWorst items count config exclude of (worst, worst_class) \<Rightarrow>
        if worst = Stop
        then (L\<lparr>phase := Holding, latched_class := worst_class,
                hold_until_ms := now + hold_ms (lconfig L), last_state := Stop\<rparr>, Stop)
        else (L\<lparr>last_state := worst\<rparr>, worst))"

definition latch_update ::
  "hazard_latch \<Rightarrow> detection list option \<Rightarrow> nat \<Rightarrow> judge_config \<Rightarrow> u64 \<Rightarrow> hazard_latch \<times> safety_state" where
  "latch_update L items count config now =
     (if phase L = Holding \<and> now < hold_until_ms L then (L\<lparr>last_state := Stop\<rparr>, Stop)
      else latch_decide (latch_watch (latch_expire L now) items count config now)
             items count config now)"

type_synonym latch_input = "detection list option \<times> nat \<times> judge_config \<times> u64"

fun latch_step :: "hazard_latch \<Rightarrow> latch_input \<Rightarrow> hazard_latch \<times> safety_state" where
  "latch_step L (items, count, config, now) = latch_update L items count config now"

section \<open>Well-formed states\<close>

definition latch_ok :: "hazard_latch \<Rightarrow> bool" where
  "latch_ok L \<longleftrightarrow> (phase L = Idle \<longrightarrow> latched_class L = -1)
     \<and> (phase L = Holding \<longrightarrow> last_state L = Stop)"

text \<open>What a frame demands whatever event is latched: the worst of the other classes.\<close>

definition seen :: "detection list option \<Rightarrow> nat \<Rightarrow> detection list" where
  "seen items count = (case items of None \<Rightarrow> [] | Some ds \<Rightarrow> take count ds)"

fun latch_demand :: "hazard_latch \<Rightarrow> latch_input \<Rightarrow> safety_state" where
  "latch_demand L (items, count, config, now) =
     Max (insert Clear (levels (filter (\<lambda>d. class_id d \<noteq> -1) (seen items count)) config
                          (latched_class L)))"

lemma judgeWorst_state:
  "fst (judgeWorst items count config ex) = Max (insert Clear (levels (seen items count) config ex))"
  by (cases items)
     (auto simp: judgeWorst_def seen_def judgeWorst_loop_state max_def)

lemma Max_Clear_mono:
  "finite T \<Longrightarrow> S \<subseteq> T \<Longrightarrow> Max (insert Clear S) \<le> Max (insert Clear T)"
  by (rule Max_mono) auto

lemma levels_filter_subset:
  "levels (filter P ds) config ex \<subseteq> levels ds config ex"
  "levels (filter (\<lambda>d. class_id d \<noteq> -1) ds) config ex \<subseteq> levels ds config (-1)"
  by (auto simp: levels_def)

lemma latch_decide_simps [simp]:
  "snd (latch_decide L items count config now)
     = fst (judgeWorst items count config (if phase L = Released then latched_class L else -1))"
  "phase (fst (latch_decide L items count config now))
     = (if snd (latch_decide L items count config now) = Stop then Holding else phase L)"
  "last_state (fst (latch_decide L items count config now))
     = snd (latch_decide L items count config now)"
  "lconfig (fst (latch_decide L items count config now)) = lconfig L"
  by (auto simp: latch_decide_def Let_def split: prod.splits)

lemma latch_watch_cases:
  "latch_watch L items count config now = L\<lparr>absent_frames := absent_frames L + 1,
     phase := Idle, latched_class := -1\<rparr> \<and> phase L = Released
   \<or> phase (latch_watch L items count config now) = phase L
     \<and> latched_class (latch_watch L items count config now) = latched_class L"
  by (simp add: latch_watch_def Let_def)

lemma latch_watch_simps [simp]:
  "lconfig (latch_watch L items count config now) = lconfig L"
  "hold_until_ms (latch_watch L items count config now) = hold_until_ms L"
  "last_state (latch_watch L items count config now) = last_state L"
  by (simp_all add: latch_watch_def Let_def)

lemma latch_expire_simps [simp]:
  "phase (latch_expire L now) = (if phase L = Holding then Released else phase L)"
  "latched_class (latch_expire L now) = latched_class L"
  "lconfig (latch_expire L now) = lconfig L"
  by (simp_all add: latch_expire_def)

lemma latch_update_demand:
  assumes "latch_ok L"
  shows "latch_demand L (items, count, config, now) \<le> snd (latch_update L items count config now)"
proof (cases "phase L = Holding \<and> now < hold_until_ms L")
  case False
  let ?L = "latch_watch (latch_expire L now) items count config now"
  have "(if phase ?L = Released then latched_class ?L else -1) \<in> {latched_class L, -1}"
    using latch_watch_cases [of "latch_expire L now" items count config now] by auto
  then show ?thesis using False
    by (auto simp: latch_update_def judgeWorst_state intro!: Max_Clear_mono
        dest: levels_filter_subset [THEN subsetD])
qed (simp add: latch_update_def)

lemma latch_ok_update:
  assumes "latch_ok L" shows "latch_ok (fst (latch_update L items count config now))"
proof (cases "phase L = Holding \<and> now < hold_until_ms L")
  case False
  let ?L = "latch_watch (latch_expire L now) items count config now"
  have "phase ?L = Idle \<longrightarrow> latched_class ?L = -1" "phase ?L \<noteq> Holding"
    using latch_watch_cases [of "latch_expire L now" items count config now] assms
    by (auto simp: latch_ok_def split: if_splits)
  moreover have "latched_class (fst (latch_decide ?L items count config now))
      = (if snd (latch_decide ?L items count config now) = Stop
         then snd (judgeWorst items count config (if phase ?L = Released then latched_class ?L else -1))
         else latched_class ?L)"
    by (auto simp: latch_decide_def Let_def split: prod.splits)
  ultimately show ?thesis using False by (simp add: latch_update_def latch_ok_def)
qed (use assms in \<open>simp add: latch_update_def latch_ok_def\<close>)

interpretation latch: holding_filter latch_step latch_ok latch_demand
  "\<lambda>L (_, _, _, now). phase L = Holding \<and> now < hold_until_ms L"
proof
  fix L :: hazard_latch and i :: latch_input
  assume "latch_ok L"
  then show "latch_ok (fst (latch_step L i))" "latch_demand L i \<le> snd (latch_step L i)"
    by (cases i; simp add: latch_ok_update latch_update_demand del: latch_demand.simps)+
qed (auto simp: latch_update_def split: prod.splits)

section \<open>Release\<close>

fun latch_time :: "latch_input \<Rightarrow> u64" where
  "latch_time (items, count, config, now) = now"

text \<open>A frame in which class \<open>c\<close> is absent and nothing is judged Stop.\<close>

fun quiet :: "i32 \<Rightarrow> latch_input \<Rightarrow> bool" where
  "quiet c (items, count, config, now) \<longleftrightarrow>
     \<not> classPresent items count c config
     \<and> (\<forall>d\<in>set (seen items count). judgeOne d config \<noteq> Stop)"

definition release_due :: "hazard_latch \<Rightarrow> nat \<Rightarrow> latch_input \<Rightarrow> bool" where
  "release_due L frames i \<longleftrightarrow> unat (release_frames (lconfig L)) \<le> frames
     \<and> (release_ms (lconfig L) = 0
        \<or> unat (absent_since_ms L) + unat (release_ms (lconfig L)) \<le> unat (latch_time i))"

lemma judgeWorst_not_Stop:
  assumes "\<forall>d\<in>set (seen items count). judgeOne d config \<noteq> Stop"
  shows "fst (judgeWorst items count config ex) \<noteq> Stop"
proof -
  have "Stop \<notin> insert Clear (levels (seen items count) config ex)"
    using assms by (auto simp: levels_def)
  then show ?thesis unfolding judgeWorst_state
    using Max_in [of "insert Clear (levels (seen items count) config ex)"] by (metis
        finite_insert finite_levels insert_not_empty)
qed

lemma latch_decide_quiet:
  assumes "quiet c (items, count, config, now)"
  shows "fst (latch_decide L items count config now)
     = L\<lparr>last_state := snd (latch_decide L items count config now)\<rparr>"
proof -
  let ?ex = "if phase L = Released then latched_class L else -1"
  obtain w wc where w: "judgeWorst items count config ?ex = (w, wc)" by fastforce
  with judgeWorst_not_Stop [of items count config ?ex] assms have "w \<noteq> Stop" by simp
  then show ?thesis by (simp add: latch_decide_def Let_def w)
qed

lemma latch_step_Idle:
  assumes "phase L = Idle" "quiet c i" shows "phase (fst (latch_step L i)) = Idle"
  using assms
  by (cases i) (simp add: latch_update_def latch_expire_def latch_watch_def latch_decide_quiet
      del: quiet.simps)

lemma latch_run_Idle:
  "phase L = Idle \<Longrightarrow> \<forall>i\<in>set is. quiet c i \<Longrightarrow> phase (fst (run latch_step L is)) = Idle"
  by (rule run_invariant [where P = "\<lambda>L. phase L = Idle"]) (auto intro: latch_step_Idle)

lemma release_due_iff:
  "release_due L (unat f) (items, count, config, now) \<longleftrightarrow>
     f \<ge> release_frames (lconfig L) \<and> (release_ms (lconfig L) = 0
       \<or> now \<ge> absent_since_ms L \<and> now - absent_since_ms L \<ge> release_ms (lconfig L))"
  using word_diff_ge_iff_unat [of "absent_since_ms L" now "release_ms (lconfig L)"]
  by (auto simp: release_due_def word_le_nat_alt)

lemma latch_step_Released:
  assumes "phase L = Released" "quiet (latched_class L) i" "unat (absent_frames L) + 1 < 2 ^ 32"
  defines "L' \<equiv> fst (latch_step L i)"
  shows "phase L' = (if release_due L (unat (absent_frames L) + 1) i then Idle else Released)"
    and "lconfig L' = lconfig L" "absent_since_ms L' = absent_since_ms L"
    and "unat (absent_frames L') = unat (absent_frames L) + 1"
    and "phase L' = Released \<Longrightarrow> latched_class L' = latched_class L"
proof -
  obtain items count config now where i: "i = (items, count, config, now)" by (cases i)
  have u: "unat (absent_frames L + 1) = unat (absent_frames L) + 1"
    using assms(3) by (simp add: unat_word_ariths)
  have absent: "\<not> classPresent items count (latched_class L) config" using assms(2) i by simp
  have due: "release_due L (unat (absent_frames L) + 1) i \<longleftrightarrow> release_due L (unat (absent_frames L + 1)) i"
    by (simp add: u)
  have "L' = (if release_due L (unat (absent_frames L) + 1) i
     then L\<lparr>absent_frames := absent_frames L + 1, phase := Idle, latched_class := -1,
            last_state := last_state L'\<rparr>
     else L\<lparr>absent_frames := absent_frames L + 1, last_state := last_state L'\<rparr>)"
    using assms(1) absent unfolding L'_def due unfolding i release_due_iff
    by (auto simp: latch_update_def latch_expire_def latch_watch_def Let_def
        latch_decide_quiet [OF assms(2) [unfolded i]] del: quiet.simps latch_decide_simps)
  then obtain x where "L' = (if release_due L (unat (absent_frames L) + 1) i
     then L\<lparr>absent_frames := absent_frames L + 1, phase := Idle, latched_class := -1, last_state := x\<rparr>
     else L\<lparr>absent_frames := absent_frames L + 1, last_state := x\<rparr>)"
    by blast
  then show "phase L' = (if release_due L (unat (absent_frames L) + 1) i then Idle else Released)"
    "lconfig L' = lconfig L" "absent_since_ms L' = absent_since_ms L"
    "unat (absent_frames L') = unat (absent_frames L) + 1"
    "phase L' = Released \<Longrightarrow> latched_class L' = latched_class L"
    using assms(1) u by (auto split: if_splits)
qed

lemma latch_run_release:
  assumes "phase L = Released" "\<forall>i\<in>set is. quiet (latched_class L) i"
    "unat (absent_frames L) + length is < 2 ^ 32"
  shows "phase (fst (run latch_step L is)) = Idle \<longleftrightarrow>
     (\<exists>k<length is. release_due L (unat (absent_frames L) + k + 1) (is ! k))"
  using assms
proof (induction "is" arbitrary: L)
  case (Cons i "is")
  let ?L = "fst (latch_step L i)"
  note step = latch_step_Released [of L i]
  have q: "quiet (latched_class L) i" and small: "unat (absent_frames L) + 1 < 2 ^ 32"
    using Cons.prems by auto
  show ?case
  proof (cases "release_due L (unat (absent_frames L) + 1) i")
    case True
    then have "phase ?L = Idle" using step(1) [OF Cons.prems(1) q small] by simp
    then have "phase (fst (run latch_step ?L is)) = Idle"
      using Cons.prems(2) by (intro latch_run_Idle [where c = "latched_class L"]) auto
    then show ?thesis using True by (auto)
  next
    case False
    then have rel: "phase ?L = Released" using step(1) [OF Cons.prems(1) q small] by simp
    have due: "release_due ?L (unat (absent_frames ?L) + k + 1) j
        = release_due L (unat (absent_frames L) + Suc k + 1) j" for k j
      using step(2-4) [OF Cons.prems(1) q small] by (simp add: release_due_def)
    have "phase (fst (run latch_step ?L is)) = Idle
        \<longleftrightarrow> (\<exists>k<length is. release_due ?L (unat (absent_frames ?L) + k + 1) (is ! k))"
      using Cons.prems(2,3) step(4,5) [OF Cons.prems(1) q small] rel
      by (intro Cons.IH) auto
    also have "\<dots> \<longleftrightarrow> (\<exists>k<length (i # is). release_due L (unat (absent_frames L) + k + 1) ((i # is) ! k))"
      unfolding due using False by (simp add: ex_nat_less_Suc_shift)
    finally show ?thesis by simp
  qed
qed simp

section \<open>The abstract event machine\<close>

text \<open>
  The contract: at most one event, with the time its hold ends or the count and the start of
  its absence, over unbounded integers and without the fields that are dead in a phase.
  \<open>present\<close> and \<open>worst\<close> are the two views of the frame that the latch asks for.
\<close>

datatype event = NoEvent | Hold i32 nat | Watch i32 nat nat

definition event_watch :: "latch_config \<Rightarrow> (i32 \<Rightarrow> bool) \<Rightarrow> nat \<Rightarrow> i32 \<Rightarrow> nat \<Rightarrow> nat \<Rightarrow> event" where
  "event_watch cfg present t c n since =
     (if present c then Watch c 0 t
      else if unat (release_frames cfg) \<le> n + 1
              \<and> (release_ms cfg = 0 \<or> since + unat (release_ms cfg) \<le> t) then NoEvent
      else Watch c (n + 1) since)"

definition event_judge ::
  "latch_config \<Rightarrow> (i32 \<Rightarrow> safety_state \<times> i32) \<Rightarrow> nat \<Rightarrow> event \<Rightarrow> event \<times> safety_state" where
  "event_judge cfg worst t e =
     (let (s, c) = worst (case e of Watch c _ _ \<Rightarrow> c | _ \<Rightarrow> -1)
      in if s = Stop then (Hold c (t + unat (hold_ms cfg)), Stop) else (e, s))"

definition event_step ::
  "latch_config \<Rightarrow> (i32 \<Rightarrow> bool) \<Rightarrow> (i32 \<Rightarrow> safety_state \<times> i32) \<Rightarrow> nat \<Rightarrow> event
     \<Rightarrow> event \<times> safety_state" where
  "event_step cfg present worst t e =
     (case e of NoEvent \<Rightarrow> event_judge cfg worst t NoEvent
      | Hold c u \<Rightarrow> if t < u then (e, Stop)
                    else event_judge cfg worst t (event_watch cfg present t c 0 t)
      | Watch c n since \<Rightarrow> event_judge cfg worst t (event_watch cfg present t c n since))"

definition latch_abs :: "hazard_latch \<Rightarrow> event" where
  "latch_abs L = (case phase L of Idle \<Rightarrow> NoEvent
     | Holding \<Rightarrow> Hold (latched_class L) (unat (hold_until_ms L))
     | Released \<Rightarrow> Watch (latched_class L) (unat (absent_frames L)) (unat (absent_since_ms L)))"

lemma latch_abs_expire:
  "latch_abs (latch_expire L now) =
     (if phase L = Holding then Watch (latched_class L) 0 (unat now) else latch_abs L)"
  by (cases "phase L") (simp_all add: latch_abs_def latch_expire_def)

lemma latch_abs_watch:
  assumes "phase L = Released" "unat (absent_frames L) + 1 < 2 ^ 32"
  shows "latch_abs (latch_watch L items count config now) =
     event_watch (lconfig L) (\<lambda>c. classPresent items count c config) (unat now)
       (latched_class L) (unat (absent_frames L)) (unat (absent_since_ms L))"
proof -
  have u: "unat (absent_frames L + 1) = unat (absent_frames L) + 1"
    using assms(2) by (simp add: unat_word_ariths)
  have "release_due L (unat (absent_frames L + 1)) (items, count, config, now) \<longleftrightarrow>
     unat (release_frames (lconfig L)) \<le> unat (absent_frames L) + 1
     \<and> (release_ms (lconfig L) = 0
        \<or> unat (absent_since_ms L) + unat (release_ms (lconfig L)) \<le> unat now)"
    by (simp add: release_due_def u)
  then show ?thesis
    using assms(1) unfolding release_due_iff event_watch_def
    by (auto simp: latch_watch_def Let_def latch_abs_def u)
qed

lemma latch_abs_decide:
  assumes "phase L \<noteq> Holding" "unat now + unat (hold_ms (lconfig L)) < 2 ^ 64"
  shows "map_prod latch_abs id (latch_decide L items count config now) =
     event_judge (lconfig L) (judgeWorst items count config) (unat now) (latch_abs L)"
proof -
  have u: "unat (now + hold_ms (lconfig L)) = unat now + unat (hold_ms (lconfig L))"
    using assms(2) by (simp add: unat_word_ariths)
  show ?thesis using assms(1)
    by (cases "phase L")
       (simp_all add: latch_decide_def event_judge_def latch_abs_def u split: prod.splits)
qed

section \<open>Properties\<close>

text \<open>
  T milliseconds are T milliseconds. When an update at \<open>t0\<close> starts a Stop event, every
  later update at a time below \<open>t0 + hold_ms\<close> answers Stop, whatever the frames show and in
  whatever order the times come, as long as \<open>t0 + hold_ms\<close> does not wrap.
\<close>

theorem latch_holds_Stop:
  assumes "latch_update L items count config t0 = (L', Stop)"
    and "\<not> (phase L = Holding \<and> t0 < hold_until_ms L)"
    and "unat t0 + unat (hold_ms (lconfig L)) < 2 ^ 64"
    and "\<forall>i\<in>set is. unat (latch_time i) < unat t0 + unat (hold_ms (lconfig L))"
  shows "snd (run latch_step L' is) = replicate (length is) Stop"
proof -
  let ?L = "latch_watch (latch_expire L t0) items count config t0"
  have dec: "latch_decide ?L items count config t0 = (L', Stop)"
    using assms(1,2) by (simp add: latch_update_def)
  then have "phase L' = Holding" using latch_decide_simps(2) [of ?L items count config t0] by simp
  moreover have "hold_until_ms L' = t0 + hold_ms (lconfig L)"
    using dec by (auto simp: latch_decide_def Let_def split: prod.splits if_splits)
  ultimately show ?thesis using assms(3,4)
    by (intro latch.run_held) (auto simp: word_less_plus_iff_unat)
qed

theorem latch_holds_Stop_witness:
  "let child = \<lparr>x1 = Fin (1/4), y1 = Fin (1/4), x2 = Fin (3/4), y2 = Fin (3/4),
                score = Fin (1/2), class_id = 1\<rparr>;
       L = fst (latch_update (HazardLatch LatchConfig_default) (Some [child]) 1 JudgeConfig_default 100)
   in snd (run latch_step L [(None, 0, JudgeConfig_default, 120), (None, 0, JudgeConfig_default, 3099)])
      = [Stop, Stop]"
proof -
  let ?child = "\<lparr>x1 = Fin (1/4), y1 = Fin (1/4), x2 = Fin (3/4), y2 = Fin (3/4),
                 score = Fin (1/2), class_id = 1\<rparr> :: detection"
  have "snd (latch_update (HazardLatch LatchConfig_default) (Some [?child]) 1 JudgeConfig_default 100)
      = Stop"
    by (simp add: latch_update_def latch_decide_def latch_watch_def latch_expire_def HazardLatch_def
        judgeWorst_def judgeOne_def JudgeConfig_default_def ClassMap_default_def
        isHazardClass_def isSignClass_def fp_sub_def Let_def)
  then have "latch_update (HazardLatch LatchConfig_default) (Some [?child]) 1 JudgeConfig_default 100
      = (fst (latch_update (HazardLatch LatchConfig_default) (Some [?child]) 1
                JudgeConfig_default 100), Stop)"
    by (simp add: prod_eq_iff)
  then have "snd (run latch_step (fst (latch_update (HazardLatch LatchConfig_default)
        (Some [?child]) 1 JudgeConfig_default 100))
      [(None, 0, JudgeConfig_default, 120), (None, 0, JudgeConfig_default, 3099)])
    = replicate (length [(None, 0, JudgeConfig_default, 120) :: latch_input,
                         (None, 0, JudgeConfig_default, 3099)]) Stop"
    by (rule latch_holds_Stop) (simp_all add: HazardLatch_def LatchConfig_default_def)
  then show ?thesis by (simp add: Let_def numeral_2_eq_2)
qed

text \<open>
  C27: No Stop of another class is missed. Over any sequence of frames from a new latch, a frame
  that holds a detection judged Stop whose class is not the one latched at that moment is
  answered Stop, in every phase of the latch.
\<close>

theorem latch_no_missed_Stop:
  assumes "n < length is" "is ! n = (Some ds, count, config, now)"
    and "k < count" "k < length ds" "judgeOne (ds ! k) config = Stop" "class_id (ds ! k) \<noteq> -1"
    and "class_id (ds ! k) \<noteq> latched_class (fst (run latch_step (HazardLatch cfg) (take n is)))"
  shows "snd (run latch_step (HazardLatch cfg) is) ! n = Stop"
proof (rule latch.run_Stop)
  have "ds ! k \<in> set (take count ds)" using assms(3,4)
    by (auto simp: in_set_conv_nth intro!: exI [of _ k])
  then have "Stop \<in> levels (filter (\<lambda>d. class_id d \<noteq> -1) (take count ds)) config
      (latched_class (fst (run latch_step (HazardLatch cfg) (take n is))))"
    using assms(5-7) by (force simp: levels_def)
  then have "Stop \<le> Max (insert Clear (levels (filter (\<lambda>d. class_id d \<noteq> -1) (take count ds)) config
      (latched_class (fst (run latch_step (HazardLatch cfg) (take n is))))))"
    by (intro Max_ge) auto
  then show "latch_demand (fst (run latch_step (HazardLatch cfg) (take n is))) (is ! n) = Stop"
    using assms(2) by (simp add: seen_def del: Max_insert)
qed (use assms(1) in \<open>simp_all add: latch_ok_def HazardLatch_def\<close>)

theorem latch_no_missed_Stop_witness:
  "snd (run latch_step (HazardLatch LatchConfig_default)
     [(None, 0, JudgeConfig_default, 5),
      (Some [\<lparr>x1 = Fin (1/4), y1 = Fin (1/4), x2 = Fin (3/4), y2 = Fin (3/4),
              score = Fin (1/2), class_id = 1\<rparr>], 1, JudgeConfig_default, 10)]) ! 1 = Stop"
  by (rule latch_no_missed_Stop [where k = 0 and count = 1 and config = JudgeConfig_default
        and now = 10 and ds = "[\<lparr>x1 = Fin (1/4), y1 = Fin (1/4), x2 = Fin (3/4), y2 = Fin (3/4),
              score = Fin (1/2), class_id = 1\<rparr>]"])
     (simp_all add: latch_update_def latch_decide_def latch_watch_def latch_expire_def
        HazardLatch_def judgeWorst_def judgeOne_def JudgeConfig_default_def ClassMap_default_def
        isHazardClass_def isSignClass_def fp_sub_def Let_def)

text \<open>
  The release is exact. A latch that has just entered its watch, or just seen its class,
  and then gets frames without the class and without a Stop returns to Idle exactly when one of
  those frames is at least the \<open>release_frames\<close>-th in a row and comes at least \<open>release_ms\<close>
  after the watch began (no time condition for 0): never before, and never stuck after.
\<close>

theorem latch_release_exact:
  assumes "phase L = Released" "absent_frames L = 0" "length is < 2 ^ 32"
    and "\<forall>i\<in>set is. quiet (latched_class L) i"
  shows "phase (fst (run latch_step L is)) = Idle \<longleftrightarrow>
    (\<exists>k<length is. unat (release_frames (lconfig L)) \<le> k + 1
       \<and> (release_ms (lconfig L) = 0
          \<or> unat (absent_since_ms L) + unat (release_ms (lconfig L)) \<le> unat (latch_time (is ! k))))"
  using latch_run_release [of L "is"] assms by (simp add: release_due_def)

theorem latch_release_exact_witness:
  "let cfg = \<lparr>hold_ms = 3000, release_frames = 2, release_ms = 200\<rparr>;
       L = \<lparr>lconfig = cfg, phase = Released, latched_class = 1, hold_until_ms = 0,
            absent_frames = 0, absent_since_ms = 1000, last_state = Clear\<rparr>
   in phase (fst (run latch_step L [(None, 0, JudgeConfig_default, 1100),
        (None, 0, JudgeConfig_default, 1150), (None, 0, JudgeConfig_default, 1200)])) = Idle"
proof -
  let ?L = "\<lparr>lconfig = \<lparr>hold_ms = 3000, release_frames = 2, release_ms = 200\<rparr>, phase = Released,
    latched_class = 1, hold_until_ms = 0, absent_frames = 0, absent_since_ms = 1000,
    last_state = Clear\<rparr>"
  let ?is = "[(None, 0, JudgeConfig_default, 1100), (None, 0, JudgeConfig_default, 1150),
    (None, 0, JudgeConfig_default, 1200)] :: latch_input list"
  have "\<exists>k<length ?is. unat (release_frames (lconfig ?L)) \<le> k + 1
       \<and> (release_ms (lconfig ?L) = 0
          \<or> unat (absent_since_ms ?L) + unat (release_ms (lconfig ?L)) \<le> unat (latch_time (?is ! k)))"
    by (rule exI [of _ 2]) simp
  then show ?thesis
    unfolding Let_def
    by (subst latch_release_exact) (simp_all add: classPresent_def seen_def)
qed

text \<open>
  C37: The latch implements the abstract event machine. One update maps, state and answer, to one
  step of the machine that keeps a single event over unbounded time, provided the hold end and
  the absence counter do not wrap.
\<close>

theorem latch_refines_event:
  assumes "unat now + unat (hold_ms (lconfig L)) < 2 ^ 64" "unat (absent_frames L) + 1 < 2 ^ 32"
  shows "map_prod latch_abs id (latch_update L items count config now) =
    event_step (lconfig L) (\<lambda>c. classPresent items count c config) (judgeWorst items count config)
      (unat now) (latch_abs L)"
proof (cases "phase L")
  case Idle
  then have "latch_watch (latch_expire L now) items count config now = L"
    by (simp add: latch_watch_def latch_expire_def)
  then show ?thesis
    using Idle latch_abs_decide [of L now items count config] assms(1)
    by (simp add: latch_update_def event_step_def latch_abs_def)
next
  case Holding
  let ?L = "latch_expire L now"
  have w: "latch_abs (latch_watch ?L items count config now) = event_watch (lconfig L)
      (\<lambda>c. classPresent items count c config) (unat now) (latched_class L) 0 (unat now)"
    using latch_abs_watch [of ?L items count config now] Holding by (simp add: latch_expire_def)
  have "phase (latch_watch ?L items count config now) \<noteq> Holding"
    using latch_watch_cases [of ?L items count config now] Holding by auto
  then show ?thesis
    using Holding latch_abs_decide [of "latch_watch ?L items count config now" now items count config]
      assms(1) w
    by (simp add: latch_update_def event_step_def latch_abs_def word_less_nat_alt)
next
  case Released
  then have "latch_expire L now = L" by (simp add: latch_expire_def)
  moreover have "phase (latch_watch L items count config now) \<noteq> Holding"
    using latch_watch_cases [of L items count config now] Released by auto
  ultimately show ?thesis
    using Released latch_abs_decide [of "latch_watch L items count config now" now items count config]
      latch_abs_watch [OF Released assms(2), of items count config now] assms(1)
    by (simp add: latch_update_def event_step_def latch_abs_def)
qed

theorem latch_refines_event_witness:
  "map_prod latch_abs id (latch_update (HazardLatch LatchConfig_default) None 0 JudgeConfig_default 7)
     = (NoEvent, Clear)"
  by (subst latch_refines_event)
     (simp_all add: HazardLatch_def LatchConfig_default_def latch_abs_def event_step_def
       event_judge_def judgeWorst_def)

end
