(* ===== verification/Uart_Frame.thy ===== *)
theory Uart_Frame
  imports Safety_Judge
begin

unbundle bit_operations_syntax

text \<open>
  \<open>common/UartFrame\<close>, the three byte frame that carries a safety state over the UART, and the
  receiver of the TurtleBot (\<open>uart_safety_receiver.py\<close>) that takes the byte stream apart.
\<close>

section \<open>The sender: crc8 and encode\<close>

definition kMagic :: u8 where "kMagic = 0xA5"
definition kFrameSize :: nat where "kFrameSize = 3"

definition crc8_bit :: "u8 \<Rightarrow> u8" where
  "crc8_bit crc = (if crc AND 0x80 \<noteq> 0 then push_bit 1 crc XOR 0x07 else push_bit 1 crc)"

definition crc8_byte :: "u8 \<Rightarrow> u8 \<Rightarrow> u8" where
  "crc8_byte b crc = (crc8_bit ^^ 8) (crc XOR b)"

definition crc8 :: "u8 list option \<Rightarrow> nat \<Rightarrow> u8" where
  "crc8 data len = (case data of None \<Rightarrow> 0 | Some bs \<Rightarrow> fold crc8_byte (take len bs) 0)"

text \<open>
  The buffer of the caller, if any, with the size it states: what \<open>encode\<close> leaves in it and
  what it returns.
\<close>

definition encode :: "safety_state \<Rightarrow> u8 list option \<Rightarrow> nat \<Rightarrow> u8 list option \<times> bool" where
  "encode state out out_size =
     (case out of None \<Rightarrow> (None, False)
      | Some buf \<Rightarrow>
          if out_size < kFrameSize then (Some buf, False)
          else let buf = buf[0 := kMagic];
                   buf = buf[1 := state_code state];
                   buf = buf[2 := crc8 (Some buf) 2]
               in (Some buf, True))"

text \<open>The frame of a state, as \<open>encode\<close> writes it.\<close>

definition frame :: "safety_state \<Rightarrow> u8 list" where
  "frame state = [kMagic, state_code state, crc8 (Some [kMagic, state_code state]) 2]"

section \<open>The receiver\<close>

text \<open>\<open>crc8_atm\<close> computes on Python's unbounded integers and masks after each shift.\<close>

definition crc8_atm_bit :: "int \<Rightarrow> int" where
  "crc8_atm_bit crc =
     (if crc AND 0x80 \<noteq> 0 then (push_bit 1 crc XOR 0x07) AND 0xFF else push_bit 1 crc AND 0xFF)"

definition crc8_atm :: "int list \<Rightarrow> int" where
  "crc8_atm data = fold (\<lambda>value crc. (crc8_atm_bit ^^ 8) (crc XOR value)) data 0"

text \<open>
  The loop of \<open>_poll\<close>: the bytes left in the buffer and the states published, an unknown
  state byte as STOP.
\<close>

function drain :: "int list \<Rightarrow> int list \<times> int list" where
  "drain buf =
     (if length buf < 3 then (buf, [])
      else if buf ! 0 \<noteq> 0xA5 then drain (drop 1 buf)
      else if crc8_atm (take 2 buf) \<noteq> buf ! 2 then drain (drop 1 buf)
      else let safe_state = (if buf ! 1 \<in> {0, 1, 2} then buf ! 1 else 2)
           in case drain (drop 3 buf) of (rest, out) \<Rightarrow> (rest, safe_state # out))"
  by pat_completeness auto
termination by (relation "measure length") auto

declare drain.simps [simp del]

definition poll :: "int list \<Rightarrow> int list \<Rightarrow> int list \<times> int list" where
  "poll buf waiting = drain (if waiting = [] then buf else buf @ waiting)"

fun polls :: "int list \<Rightarrow> int list list \<Rightarrow> int list \<times> int list" where
  "polls buf [] = (buf, [])"
| "polls buf (w # ws) =
     (case poll buf w of (buf', out) \<Rightarrow>
        case polls buf' ws of (buf'', out') \<Rightarrow> (buf'', out @ out'))"

section \<open>The two checksums agree\<close>

lemma crc8_atm_bit_uint: "crc8_atm_bit (uint c) = uint (crc8_bit c)"
proof -
  have a: "uint (c AND 0x80) = uint c AND 0x80" by (simp add: unsigned_and_eq)
  have "uint c AND 0x80 \<noteq> 0 \<longleftrightarrow> c AND 0x80 \<noteq> 0"
    unfolding a [symmetric] by (metis unsigned_0 word_uint_eq_iff)
  moreover have m: "x AND 0xFF = take_bit 8 x" for x :: int
    by (simp add: take_bit_eq_mask mask_eq_exp_minus_1)
  have "push_bit 1 (uint c) AND 0xFF = uint (push_bit 1 c)"
    unfolding m by (simp only: unsigned_push_bit_eq) simp
  moreover have "(push_bit 1 (uint c) XOR 7) AND 0xFF = uint (push_bit 1 c XOR 7)"
    unfolding m by (simp only: unsigned_xor_eq unsigned_push_bit_eq take_bit_xor) simp
  ultimately show ?thesis by (simp add: crc8_atm_bit_def crc8_bit_def)
qed


lemma crc8_atm_bits_uint: "(crc8_atm_bit ^^ n) (uint c) = uint ((crc8_bit ^^ n) c)"
  by (induction n) (simp_all add: crc8_atm_bit_uint)

lemma crc8_atm_fold_uint:
  "fold (\<lambda>value crc. (crc8_atm_bit ^^ 8) (crc XOR value)) (map uint bs) (uint c)
     = uint (fold crc8_byte bs c)"
proof (induction bs arbitrary: c)
  case (Cons b bs)
  have "(crc8_atm_bit ^^ 8) (uint c XOR uint b) = uint (crc8_byte b c)"
    by (simp add: crc8_byte_def crc8_atm_bits_uint unsigned_xor_eq [symmetric])
  then show ?case using Cons.IH by simp
qed simp

lemma crc8_atm_uint: "crc8_atm (map uint bs) = uint (crc8 (Some bs) (length bs))"
  using crc8_atm_fold_uint [of bs 0] by (simp add: crc8_atm_def crc8_def)

section \<open>The checksum is linear\<close>

lemma push_bit_word_xor: "push_bit n (a XOR b) = push_bit n a XOR push_bit n (b :: 'a::len word)"
  by (rule bit_word_eqI) (auto simp: bit_simps)

lemma crc8_bit_test: "c AND 0x80 \<noteq> 0 \<longleftrightarrow> bit (c :: u8) 7"
  using and_exp_eq_0_iff_not_bit [of c 7] by simp

lemma crc8_bit_xor: "crc8_bit (a XOR b) = crc8_bit a XOR crc8_bit b"
  unfolding crc8_bit_def crc8_bit_test by (auto simp: push_bit_word_xor bit_xor_iff ac_simps)

lemma crc8_bits_xor: "(crc8_bit ^^ n) (a XOR b) = (crc8_bit ^^ n) a XOR (crc8_bit ^^ n) b"
  by (induction n) (simp_all add: crc8_bit_xor)

lemma crc8_pair:
  "crc8 (Some (x # y # zs)) 2 = crc8_byte y (crc8_byte x 0)"
  by (simp add: crc8_def)

lemma crc8_pair_xor:
  "crc8_byte (y XOR e) c = crc8_byte y c XOR crc8_byte e 0"
  using crc8_bits_xor [of 8 "c XOR y" e] by (simp add: crc8_byte_def ac_simps)

section \<open>The error patterns that pass\<close>

definition weight :: "u8 \<Rightarrow> nat" where
  "weight w = length (filter (bit w) [0..<8])"

lemma weight_zero_iff: "weight w = 0 \<longleftrightarrow> w = 0"
proof
  assume "weight w = 0"
  then have "\<forall>n<8. \<not> bit w n" by (simp add: weight_def filter_empty_conv)
  then show "w = 0" by (intro bit_word_eqI) simp
qed (simp add: weight_def)

text \<open>
  The division step on the bits of the register. Every pattern in the state byte, together with
  the pattern that it leaves in the checksum, has no bit or at least four.
\<close>

fun crc8_bools :: "bool list \<Rightarrow> bool list" where
  "crc8_bools [b0, b1, b2, b3, b4, b5, b6, b7] = [b7, b0 \<noteq> b7, b1 \<noteq> b7, b2, b3, b4, b5, b6]"
| "crc8_bools bs = bs"

lemma bits8: "map P [0..<8] = [P 0, P 1, P 2, P 3, P 4, P 5, P 6, P (7::nat)]"
  by (simp add: upt_rec numeral_eq_Suc)

lemma bit_push1: "bit (push_bit 1 (c :: u8)) n \<longleftrightarrow> 0 < n \<and> n < 8 \<and> bit c (n - 1)"
  by (simp only: bit_push_bit_iff) auto

lemma crc8_bools_bits:
  "map (bit ((crc8_bit ^^ n) c)) [0..<8] = (crc8_bools ^^ n) (map (bit c) [0..<8])"
proof (induction n)
  case (Suc n)
  have "map (bit (crc8_bit c)) [0..<8] = crc8_bools (map (bit c) [0..<8])" for c
    unfolding crc8_bit_def crc8_bit_test bits8
    by (cases "bit c 7"; simp only: if_True if_False bit_push1 bit_xor_iff)
       (simp_all add: bit_numeral_rec)
  then show ?case using Suc by simp
qed simp

lemma burst_table:
  "list_all (\<lambda>bs. True \<notin> set bs
      \<or> 4 \<le> length (filter id bs) + length (filter id ((crc8_bools ^^ 8) bs)))
    (List.n_lists 8 [False, True])"
  by code_simp

lemma weight_bits: "weight w = length (filter id (map (bit w) [0..<8]))"
  by (simp add: weight_def filter_map comp_def)

lemma burst_weight:
  assumes "e \<noteq> 0" shows "4 \<le> weight e + weight (crc8_byte e 0)"
proof -
  let ?bs = "map (bit e) [0..<8]"
  have "?bs \<in> set (List.n_lists 8 [False, True])" by (auto simp: set_n_lists)
  then have "True \<notin> set ?bs \<or> 4 \<le> weight e + weight (crc8_byte e 0)"
    using burst_table unfolding weight_bits crc8_byte_def xor.left_neutral crc8_bools_bits
    by (auto simp: list_all_iff)
  moreover have "True \<in> set ?bs"
    using assms weight_zero_iff [of e] by (auto simp: weight_def filter_empty_conv)
  ultimately show ?thesis by blast
qed

section \<open>Draining a stream\<close>

lemma drain_short: "length buf < 3 \<Longrightarrow> drain buf = (buf, [])"
  by (simp add: drain.simps)

lemma drain_left: "length (fst (drain buf)) < 3"
proof (induction buf rule: drain.induct)
  case (1 buf)
  then show ?case by (subst drain.simps) (auto simp: Let_def split: prod.splits)
qed

lemma drain_skip:
  "3 \<le> length buf \<Longrightarrow> buf ! 0 \<noteq> 0xA5 \<or> crc8_atm (take 2 buf) \<noteq> buf ! 2 \<Longrightarrow>
     drain buf = drain (drop 1 buf)"
  by (subst drain.simps) auto

lemma drain_take:
  "3 \<le> length buf \<Longrightarrow> buf ! 0 = 0xA5 \<Longrightarrow> crc8_atm (take 2 buf) = buf ! 2 \<Longrightarrow>
     drain buf = (case drain (drop 3 buf) of (rest, out) \<Rightarrow>
       (rest, (if buf ! 1 \<in> {0, 1, 2} then buf ! 1 else 2) # out))"
  by (subst drain.simps) (simp add: Let_def)

text \<open>Draining what has come and then the rest is draining the whole.\<close>

lemma drain_append:
  "drain (xs @ ys) = (case drain xs of (rest, out) \<Rightarrow>
     case drain (rest @ ys) of (rest', out') \<Rightarrow> (rest', out @ out'))"
proof (induction xs rule: drain.induct)
  case (1 xs)
  consider "length xs < 3" | "3 \<le> length xs" "xs ! 0 \<noteq> 0xA5"
    | "3 \<le> length xs" "xs ! 0 = 0xA5" "crc8_atm (take 2 xs) \<noteq> xs ! 2"
    | "3 \<le> length xs" "xs ! 0 = 0xA5" "crc8_atm (take 2 xs) = xs ! 2" by fastforce
  then show ?case
  proof cases
    case 2
    then have "drain (xs @ ys) = drain (drop 1 xs @ ys)"
      by (subst drain_skip) (auto simp: nth_append)
    then show ?thesis using "1.IH"(1) 2 drain_skip [of xs] by simp
  next
    case 3
    then have "drain (xs @ ys) = drain (drop 1 xs @ ys)"
      by (subst drain_skip) (auto simp: nth_append)
    then show ?thesis using "1.IH"(2) 3 drain_skip [of xs] by simp
  next
    case 4
    then have "drain (xs @ ys) = (case drain (drop 3 xs @ ys) of (rest, out) \<Rightarrow>
       (rest, (if xs ! 1 \<in> {0, 1, 2} then xs ! 1 else 2) # out))"
      by (subst drain_take) (auto simp: nth_append)
    then show ?thesis using "1.IH"(3) 4 drain_take [of xs] by (simp split: prod.splits)
  qed (simp add: drain_short)
qed

lemma polls_drain:
  assumes "length buf < 3"
  shows "polls buf ws = drain (buf @ concat ws)"
  using assms
proof (induction ws arbitrary: buf)
  case (Cons w ws)
  obtain rest out where d: "drain (buf @ w) = (rest, out)" by fastforce
  then have "length rest < 3" using drain_left [of "buf @ w"] by simp
  moreover have "poll buf w = (rest, out)" using d by (auto simp: poll_def)
  ultimately show ?case
    using drain_append [of "buf @ w" "concat ws"] Cons.IH [of rest] by (simp add: d)
qed (simp add: drain_short)

lemma frame_ints:
  "map uint (frame s) = [0xA5, uint (state_code s), crc8_atm [0xA5, uint (state_code s)]]"
  using crc8_atm_uint [of "[kMagic, state_code s]"]
  by (simp add: frame_def kMagic_def flip: numeral_2_eq_2)

lemma drain_frame:
  "drain (map uint (frame s) @ ys) = (case drain ys of (rest, out) \<Rightarrow>
     (rest, uint (state_code s) # out))"
  unfolding frame_ints by (subst drain.simps) (cases s; simp split: prod.splits)

section \<open>Properties\<close>

text \<open>
  \<open>encode\<close> succeeds exactly when there is a buffer of at least three bytes. It then leaves
  the frame of the state in the first three bytes, with a checksum the receiver's own routine
  accepts, and does not touch the others; otherwise it touches nothing.
\<close>

theorem encode_frame:
  assumes "\<And>buf. out = Some buf \<Longrightarrow> out_size \<le> length buf"
  shows "encode state out out_size =
     (case out of Some buf \<Rightarrow> if 3 \<le> out_size then (Some (frame state @ drop 3 buf), True)
                            else (out, False)
      | None \<Rightarrow> (None, False))
    \<and> uint (frame state ! 2) = crc8_atm (map uint (take 2 (frame state)))"
proof
  show "encode state out out_size =
     (case out of Some buf \<Rightarrow> if 3 \<le> out_size then (Some (frame state @ drop 3 buf), True)
                            else (out, False)
      | None \<Rightarrow> (None, False))"
  proof (cases out)
    case (Some buf)
    show ?thesis
    proof (cases "3 \<le> out_size")
      case True
      then have "3 \<le> length buf" using assms [OF Some] by simp
      then obtain a b c rest where "buf = a # b # c # rest"
        by (auto simp: numeral_3_eq_3 Suc_le_length_iff)
      then show ?thesis using Some True
        by (simp add: encode_def kFrameSize_def frame_def crc8_pair Let_def)
    qed (use Some in \<open>simp add: encode_def kFrameSize_def\<close>)
  qed (simp add: encode_def)
  show "uint (frame state ! 2) = crc8_atm (map uint (take 2 (frame state)))"
    using crc8_atm_uint [of "[kMagic, state_code state]"]
    by (simp add: frame_def flip: numeral_2_eq_2)
qed

theorem encode_frame_witness:
  "encode Stop (Some [7, 7, 7, 7]) 4 = (Some [0xA5, 2, 0x57, 7], True)"
proof -
  have "frame Stop = [0xA5, 2, 0x57]" by code_simp
  then show ?thesis using encode_frame [of "Some [7, 7, 7, 7]" 4 Stop] by simp
qed

text \<open>
  C29: What the transmitter encodes the receiver publishes. However the UART cuts the stream of
  any sequence of frames into chunks, the polls publish exactly the states sent, in order, and
  leave no byte in the buffer.
\<close>

theorem receiver_roundtrip:
  assumes "concat ws = concat (map (\<lambda>s. map uint (frame s)) ss)"
  shows "polls [] ws = ([], map (\<lambda>s. uint (state_code s)) ss)"
proof -
  have "drain (concat (map (\<lambda>s. map uint (frame s)) ss)) = ([], map (\<lambda>s. uint (state_code s)) ss)"
    by (induction ss) (simp_all add: drain_frame drain_short)
  then show ?thesis by (simp add: polls_drain assms)
qed

theorem receiver_roundtrip_witness:
  "polls [] [[0xA5], [0, 0x59, 0xA5, 2], [], [0x57]] = ([], [0, 2])"
proof -
  have "frame Clear = [0xA5, 0, 0x59]" "frame Stop = [0xA5, 2, 0x57]" by code_simp+
  then show ?thesis
    using receiver_roundtrip [of "[[0xA5], [0, 0x59, 0xA5, 2], [], [0x57]]" "[Clear, Stop]"] by simp
qed

text \<open>
  C40: No frame with up to three flipped bits is taken for another. If the three bytes of a frame
  reach the receiver with some bits flipped and are still published, then at least four bits of
  the frame were flipped.
\<close>

theorem receiver_detects_errors:
  assumes "length es = 3" "es \<noteq> [0, 0, 0]"
    and "drain (map2 (\<lambda>b e. uint (b XOR e)) (frame s) es) = ([], [st])"
  shows "4 \<le> sum_list (map weight es)"
proof -
  obtain a b c where es: "es = [a, b, c]"
    using assms(1) by (auto simp: numeral_3_eq_3 length_Suc_conv)
  let ?f = "[kMagic XOR a, state_code s XOR b, crc8 (Some [kMagic, state_code s]) 2 XOR c]"
  have dr: "drain (map uint ?f) = ([], [st])"
    using assms(3) by (simp add: es frame_def)
  have hd: "uint (kMagic XOR a) = uint kMagic"
    and crc: "crc8_atm (map uint [kMagic XOR a, state_code s XOR b]) = uint (?f ! 2)"
    using dr by (subst (asm) drain.simps; simp add: kMagic_def drain_short Let_def split: if_splits)+
  have "a = 0" using hd by (metis word_uint_eq_iff xor_self_eq xor.assoc xor.left_neutral)
  then have "crc8_byte (state_code s XOR b) (crc8_byte kMagic 0)
      = crc8 (Some [kMagic, state_code s]) 2 XOR c"
    using crc unfolding crc8_atm_uint
    by (intro word_uint_eq_iff [THEN iffD2]) (simp add: crc8_pair flip: numeral_2_eq_2)
  then have "crc8_byte b 0 = c"
    by (simp add: crc8_pair crc8_pair_xor xor_word_left_cancel)
  moreover from this have "b \<noteq> 0"
    using assms(2) \<open>a = 0\<close> crc8_pair_xor [of 0 0 0] by (auto simp: es)
  ultimately show ?thesis using burst_weight [of b] by (simp add: es)
qed

text \<open>The pattern of four bits that does pass: the generator itself.\<close>

theorem receiver_detects_errors_witness:
  "4 \<le> sum_list (map weight [0, 1, 7])"
proof (rule receiver_detects_errors [where s = Clear and st = 1])
  have "map2 (\<lambda>b e. uint (b XOR e)) (frame Clear) [0, 1, 7] = map uint (frame Slow)" by code_simp
  then show "drain (map2 (\<lambda>b e. uint (b XOR e)) (frame Clear) [0, 1, 7]) = ([], [1])"
    using drain_frame [of Slow "[]"] by (simp add: drain_short)
qed simp_all

end
