(* ===== verification/Safety_Transmitter.thy ===== *)
theory Safety_Transmitter
  imports Uart_Frame Safety_Filter
begin

text \<open>
  \<open>control/UartPort\<close> and \<open>control/SafetyTransmitter\<close>: the byte port and the thread that sends
  the safety state every 20 ms. The transmitter holds a mutex in \<open>publish\<close> and in \<open>tick\<close>, so
  the two threads interleave as a sequence of these operations. The port is an interface in the
  source, with \<open>PosixUartPort\<close> as the implementation; the transmitter takes its \<open>write\<close> as an
  argument here.
\<close>

section \<open>PosixUartPort\<close>

text \<open>
  The answers of the kernel to the successive \<open>write\<close> calls: a number of bytes taken (at most
  those offered), an interruption, or a failure. After the last one every call fails.
\<close>

datatype write_reply = Wrote nat | WEintr | WFailed

datatype speed = B9600 | B19200 | B38400 | B57600 | B115200 | B230400

definition toSpeed :: "u32 \<Rightarrow> speed option" where
  "toSpeed baud =
     (if baud = 9600 then Some B9600 else if baud = 19200 then Some B19200
      else if baud = 38400 then Some B38400 else if baud = 57600 then Some B57600
      else if baud = 115200 then Some B115200 else if baud = 230400 then Some B230400
      else None)"

text \<open>
  \<open>wire\<close> is what has gone out; \<open>open_fds\<close> are the descriptors the process holds on the device.
\<close>

record posix_port =
  fd :: int
  replies :: "write_reply list"
  wire :: "u8 list"
  open_fds :: "int list"

definition isOpen :: "posix_port \<Rightarrow> bool" where
  "isOpen P \<longleftrightarrow> 0 \<le> fd P"

text \<open>What the system answers to \<open>open\<close>, \<open>tcgetattr\<close> and \<open>tcsetattr\<close>.\<close>

record open_reply =
  new_fd :: int
  getattr_ok :: bool
  setattr_ok :: bool

definition uart_open ::
  "posix_port \<Rightarrow> string \<Rightarrow> u32 \<Rightarrow> open_reply \<Rightarrow> posix_port \<times> bool" where
  "uart_open P path baud sys =
     (if isOpen P \<or> path = [] then (P, False)
      else case toSpeed baud of None \<Rightarrow> (P, False)
      | Some speed \<Rightarrow>
          if new_fd sys < 0 then (P, False)
          else let P = P\<lparr>open_fds := new_fd sys # open_fds P\<rparr>;
                   close_fd = (\<lambda>P. P\<lparr>open_fds := remove1 (new_fd sys) (open_fds P)\<rparr>) in
          if \<not> getattr_ok sys then (close_fd P, False)
          else if \<not> setattr_ok sys then (close_fd P, False)
          else (P\<lparr>fd := new_fd sys\<rparr>, True))"

definition uart_close :: "posix_port \<Rightarrow> posix_port" where
  "uart_close P = (if 0 \<le> fd P then P\<lparr>open_fds := remove1 (fd P) (open_fds P), fd := -1\<rparr> else P)"

text \<open>The loop: the bytes that went out, the answers not yet used, and the result.\<close>

fun uart_write_loop :: "u8 list \<Rightarrow> write_reply list \<Rightarrow> u8 list \<times> write_reply list \<times> bool" where
  "uart_write_loop [] rs = ([], rs, True)"
| "uart_write_loop (b # data) [] = ([], [], False)"
| "uart_write_loop (b # data) (WEintr # rs) = uart_write_loop (b # data) rs"
| "uart_write_loop (b # data) (WFailed # rs) = ([], rs, False)"
| "uart_write_loop (b # data) (Wrote n # rs) =
     (case uart_write_loop (drop n (b # data)) rs of (out, rs', ok) \<Rightarrow>
        (take n (b # data) @ out, rs', ok))"

definition uart_write :: "posix_port \<Rightarrow> u8 list option \<Rightarrow> posix_port \<times> bool" where
  "uart_write P data =
     (case data of None \<Rightarrow> (P, False)
      | Some bs \<Rightarrow>
          if fd P < 0 \<or> bs = [] then (P, False)
          else case uart_write_loop bs (replies P) of (out, rs, ok) \<Rightarrow>
                 (P\<lparr>replies := rs, wire := wire P @ out\<rparr>, ok))"

text \<open>The \<open>write\<close> that the transmitter calls, with a buffer that is never null.\<close>

definition posix_write :: "posix_port \<Rightarrow> u8 list \<Rightarrow> posix_port \<times> bool" where
  "posix_write P bs = uart_write P (Some bs)"

section \<open>SafetyTransmitter\<close>

record tx_config =
  period_ms :: u32
  decision_timeout_ms :: u64

definition TxConfig_default :: tx_config where
  "TxConfig_default = \<lparr>period_ms = 20, decision_timeout_ms = 500\<rparr>"

record tx_stats =
  frames_sent :: u64
  send_failures :: u64
  stale_events :: u64
  immediate_stops :: u64

record 'p transmitter =
  port :: 'p
  tx_config :: tx_config
  published_state :: safety_state
  last_sent :: safety_state
  decided_at_ms :: u64
  decision_seen :: bool
  stats :: tx_stats

definition SafetyTransmitter :: "'p \<Rightarrow> tx_config \<Rightarrow> 'p transmitter" where
  "SafetyTransmitter p config = \<lparr>port = p, tx_config = config, published_state = Stop,
     last_sent = Stop, decided_at_ms = 0, decision_seen = False,
     stats = \<lparr>frames_sent = 0, send_failures = 0, stale_events = 0, immediate_stops = 0\<rparr>\<rparr>"

definition send_failed :: "'p transmitter \<Rightarrow> 'p transmitter" where
  "send_failed T = T\<lparr>stats := (stats T)\<lparr>send_failures := send_failures (stats T) + 1\<rparr>\<rparr>"

definition sendLocked ::
  "('p \<Rightarrow> u8 list \<Rightarrow> 'p \<times> bool) \<Rightarrow> 'p transmitter \<Rightarrow> safety_state \<Rightarrow> 'p transmitter \<times> bool" where
  "sendLocked wr T state =
     (case encode state (Some (replicate kFrameSize 0)) kFrameSize of
        (Some bytes, True) \<Rightarrow>
          (case wr (port T) bytes of (p, ok) \<Rightarrow>
             let T = T\<lparr>port := p\<rparr> in
             if \<not> ok then (send_failed T, False)
             else (T\<lparr>stats := (stats T)\<lparr>frames_sent := frames_sent (stats T) + 1\<rparr>,
                     last_sent := state\<rparr>, True))
      | _ \<Rightarrow> (send_failed T, False))"

definition tx_publish ::
  "('p \<Rightarrow> u8 list \<Rightarrow> 'p \<times> bool) \<Rightarrow> 'p transmitter \<Rightarrow> safety_state \<Rightarrow> u64 \<Rightarrow> 'p transmitter" where
  "tx_publish wr T state decided_at =
     (let entering_stop = (state = Stop \<and> published_state T \<noteq> Stop);
          T = T\<lparr>published_state := state, decided_at_ms := decided_at, decision_seen := True\<rparr>
      in if entering_stop
         then fst (sendLocked wr
                (T\<lparr>stats := (stats T)\<lparr>immediate_stops := immediate_stops (stats T) + 1\<rparr>\<rparr>) state)
         else T)"

definition tx_stale :: "'p transmitter \<Rightarrow> u64 \<Rightarrow> bool" where
  "tx_stale T now \<longleftrightarrow> \<not> decision_seen T
     \<or> (now \<ge> decided_at_ms T \<and> now - decided_at_ms T \<ge> decision_timeout_ms (tx_config T))"

definition tx_tick ::
  "('p \<Rightarrow> u8 list \<Rightarrow> 'p \<times> bool) \<Rightarrow> 'p transmitter \<Rightarrow> u64 \<Rightarrow> 'p transmitter \<times> safety_state" where
  "tx_tick wr T now =
     (if tx_stale T now
      then let T = (if published_state T \<noteq> Stop
                    then T\<lparr>stats := (stats T)\<lparr>stale_events := stale_events (stats T) + 1\<rparr>\<rparr> else T)
           in (fst (sendLocked wr T Stop), Stop)
      else (fst (sendLocked wr T (published_state T)), published_state T))"

text \<open>
  The thread body. Each round reads the stop flag, then the clock before, in and after the tick;
  the list holds the three readings of the rounds before the flag is set. The second component
  is the sleep asked for in each round, if any.
\<close>

fun tx_run ::
  "('p \<Rightarrow> u8 list \<Rightarrow> 'p \<times> bool) \<Rightarrow> 'p transmitter \<Rightarrow> (u64 \<times> u64 \<times> u64) list
     \<Rightarrow> 'p transmitter \<times> u32 option list" where
  "tx_run wr T [] = (T, [])"
| "tx_run wr T ((started, now, after) # rounds) =
     (let T' = fst (tx_tick wr T now);
          spent = after - started;
          sleep = (if spent < ucast (period_ms (tx_config T'))
                   then Some (ucast (ucast (period_ms (tx_config T')) - spent)) else None)
      in case tx_run wr T' rounds of (T'', sleeps) \<Rightarrow> (T'', sleep # sleeps))"

section \<open>Interleavings\<close>

datatype tx_event = Publish safety_state u64 | Tick u64

text \<open>One operation, with the state put on the wire completely, if any.\<close>

fun tx_op ::
  "('p \<Rightarrow> u8 list \<Rightarrow> 'p \<times> bool) \<Rightarrow> 'p transmitter \<Rightarrow> tx_event \<Rightarrow> 'p transmitter" where
  "tx_op wr T (Publish s t) = tx_publish wr T s t"
| "tx_op wr T (Tick now) = fst (tx_tick wr T now)"

definition tx_step ::
  "('p \<Rightarrow> u8 list \<Rightarrow> 'p \<times> bool) \<Rightarrow> 'p transmitter \<Rightarrow> tx_event \<Rightarrow> 'p transmitter \<times> safety_state list" where
  "tx_step wr T e = (let T' = tx_op wr T e in
     (T', if frames_sent (stats T') = frames_sent (stats T) then [] else [last_sent T']))"

section \<open>The port interface\<close>

text \<open>A port puts out all bytes and says so, or a proper prefix of them and says so.\<close>

locale byte_port =
  fixes wr :: "'p \<Rightarrow> u8 list \<Rightarrow> 'p \<times> bool"
    and on_wire :: "'p \<Rightarrow> u8 list"
  assumes write_ok: "wr p bs = (p', True) \<Longrightarrow> on_wire p' = on_wire p @ bs"
    and write_fails: "wr p bs = (p', False) \<Longrightarrow> bs \<noteq> [] \<Longrightarrow>
          \<exists>n<length bs. on_wire p' = on_wire p @ take n bs"

lemma encode_eq: "encode s (Some (replicate kFrameSize 0)) kFrameSize = (Some (frame s), True)"
  by (simp add: encode_def kFrameSize_def frame_def numeral_3_eq_3 crc8_def Let_def)

lemma length_frame [simp]: "length (frame s) = 3"
  by (simp add: frame_def)

lemma sendLocked_eq:
  "sendLocked wr T s = (case wr (port T) (frame s) of (p, ok) \<Rightarrow>
     if ok then (T\<lparr>port := p, stats := (stats T)\<lparr>frames_sent := frames_sent (stats T) + 1\<rparr>,
                   last_sent := s\<rparr>, True)
     else (send_failed (T\<lparr>port := p\<rparr>), False))"
  by (simp add: sendLocked_def encode_eq Let_def split: prod.splits)

text \<open>A torn or a whole frame, with the state it carries when it is whole.\<close>

inductive chunk :: "u8 list \<Rightarrow> safety_state list \<Rightarrow> bool" where
  whole: "chunk (frame s) [s]"
| torn: "n < 3 \<Longrightarrow> chunk (take n (frame s)) []"
| idle: "chunk [] []"

inductive chunks :: "u8 list \<Rightarrow> safety_state list \<Rightarrow> bool" where
  none: "chunks [] []"
| more: "chunks bs ss \<Longrightarrow> chunk cs ts \<Longrightarrow> chunks (bs @ cs) (ss @ ts)"

context byte_port
begin

lemma send_chunk:
  "\<exists>cs. on_wire (port (fst (sendLocked wr T s))) = on_wire (port T) @ cs
     \<and> chunk cs (if snd (sendLocked wr T s) then [s] else [])"
proof -
  obtain p ok where w: "wr (port T) (frame s) = (p, ok)" by fastforce
  show ?thesis
  proof (cases ok)
    case True
    then show ?thesis using w write_ok [of "port T" "frame s" p]
      by (auto simp: sendLocked_eq intro: chunk.intros)
  next
    case False
    then obtain n where "n < length (frame s)" "on_wire p = on_wire (port T) @ take n (frame s)"
      using w write_fails [of "port T" "frame s" p] by (auto simp: frame_def)
    then show ?thesis using w False
      by (auto simp: sendLocked_eq send_failed_def intro: chunk.intros)
  qed
qed

lemma send_count:
  "frames_sent (stats (fst (sendLocked wr T s)))
     = (if snd (sendLocked wr T s) then frames_sent (stats T) + 1 else frames_sent (stats T))"
  "snd (sendLocked wr T s) \<Longrightarrow> last_sent (fst (sendLocked wr T s)) = s"
  by (auto simp: sendLocked_eq send_failed_def split: prod.splits)

lemma op_cases:
  obtains (sends) U s where "port U = port T" "frames_sent (stats U) = frames_sent (stats T)"
      "tx_op wr T e = fst (sendLocked wr U s)"
  | (silent) "port (tx_op wr T e) = port T" "frames_sent (stats (tx_op wr T e)) = frames_sent (stats T)"
proof (cases e)
  case (Publish s t)
  let ?U = "T\<lparr>published_state := s, decided_at_ms := t, decision_seen := True,
     stats := (stats T)\<lparr>immediate_stops := immediate_stops (stats T) + 1\<rparr>\<rparr>"
  show ?thesis
  proof (cases "s = Stop \<and> published_state T \<noteq> Stop")
    case True
    then show ?thesis using Publish by (intro sends [of ?U s]) (simp_all add: tx_publish_def)
  next
    case False
    then show ?thesis using Publish by (intro silent) (auto simp: tx_publish_def)
  qed
next
  case (Tick now)
  let ?U = "if tx_stale T now \<and> published_state T \<noteq> Stop
    then T\<lparr>stats := (stats T)\<lparr>stale_events := stale_events (stats T) + 1\<rparr>\<rparr> else T"
  let ?s = "if tx_stale T now then Stop else published_state T"
  show ?thesis using Tick
    by (intro sends [of ?U ?s]) (simp_all add: tx_tick_def Let_def)
qed

lemma op_chunk:
  "\<exists>cs. on_wire (port (fst (tx_step wr T e))) = on_wire (port T) @ cs \<and> chunk cs (snd (tx_step wr T e))"
proof (cases rule: op_cases [of T e])
  case (sends U s)
  then show ?thesis using send_chunk [of U s] send_count [of U s] by (auto simp: tx_step_def Let_def)
next
  case silent
  then show ?thesis by (auto simp: tx_step_def Let_def intro: chunk.intros)
qed

lemma run_chunks:
  "\<exists>bs. on_wire (port (fst (run (tx_step wr) T es))) = on_wire (port T) @ bs
     \<and> chunks bs (concat (snd (run (tx_step wr) T es)))"
proof (induction es rule: rev_induct)
  case (snoc e es)
  then obtain bs where bs: "on_wire (port (fst (run (tx_step wr) T es))) = on_wire (port T) @ bs"
    "chunks bs (concat (snd (run (tx_step wr) T es)))" by blast
  obtain cs where "on_wire (port (fst (tx_step wr (fst (run (tx_step wr) T es)) e)))
      = on_wire (port (fst (run (tx_step wr) T es))) @ cs"
    "chunk cs (snd (tx_step wr (fst (run (tx_step wr) T es)) e))"
    using op_chunk by blast
  then show ?case using bs by (auto simp: run_append intro: chunks.more)
qed (auto intro: chunks.none)

end

section \<open>PosixUartPort is such a port\<close>

lemma uart_write_loop_out:
  "uart_write_loop bs rs = (out, rs', ok) \<Longrightarrow>
     (if ok then out = bs else \<exists>n<length bs. out = take n bs)"
proof (induction bs rs arbitrary: out rs' ok rule: uart_write_loop.induct)
  case (5 b data n rs)
  obtain out' rs'' ok' where l: "uart_write_loop (drop n (b # data)) rs = (out', rs'', ok')"
    using prod_cases3 by blast
  have out: "out = take n (b # data) @ out'" "ok = ok'" using 5(2) l by simp_all
  show ?case
  proof (cases ok)
    case True then show ?thesis using 5(1) [OF l] out by simp
  next
    case False
    then obtain k where k: "k < length (b # data) - n" "out' = take k (drop n (b # data))"
      using 5(1) [OF l] out(2) by auto
    then have "out = take (n + k) (b # data)" "n + k < length (b # data)"
      using out(1) by (simp_all add: take_add)
    then show ?thesis using False by auto
  qed
qed auto

interpretation posix: byte_port posix_write wire
proof
  fix P P' :: posix_port and bs
  show "posix_write P bs = (P', True) \<Longrightarrow> wire P' = wire P @ bs"
    using uart_write_loop_out [of bs "replies P"]
    by (auto simp: posix_write_def uart_write_def split: if_splits prod.splits)
  show "posix_write P bs = (P', False) \<Longrightarrow> bs \<noteq> [] \<Longrightarrow> \<exists>n<length bs. wire P' = wire P @ take n bs"
    using uart_write_loop_out [of bs "replies P"]
    by (auto simp: posix_write_def uart_write_def split: if_splits prod.splits intro: exI [of _ 0])
qed

section \<open>The receiver on a stream of whole and torn frames\<close>

lemma crc8_atm_values:
  "crc8_atm [165, 0] = 0x59" "crc8_atm [165, 1] = 0x5E" "crc8_atm [165, 2] = 0x57"
  "crc8_atm [165, 165] = 0x2b"
  by code_simp+

text \<open>What can be left in the receiver's buffer.\<close>

definition residue :: "int list \<Rightarrow> bool" where
  "residue r \<longleftrightarrow> r \<in> {[], [165], [165, 0], [165, 1], [165, 2], [165, 165], [0, 165], [1, 165], [2, 165]}"

lemma chunk_ints:
  assumes "chunk cs ts"
  shows "(map uint cs, ts) \<in> {([], []), ([165], []), ([165, 0], []), ([165, 1], []), ([165, 2], []),
     ([165, 0, 0x59], [Clear]), ([165, 1, 0x5E], [Slow]), ([165, 2, 0x57], [Stop])}"
  using assms
proof (cases rule: chunk.cases)
  case (whole s)
  then show ?thesis by (cases s) (simp_all add: frame_ints crc8_atm_values)
next
  case (torn n s)
  then have "n = 0 \<or> n = 1 \<or> n = 2" by auto
  then show ?thesis using torn
    by (cases s) (auto simp: frame_ints crc8_atm_values simp flip: take_map)
qed simp

lemma drain_chunk:
  assumes "residue r" "chunk cs ts"
  shows "\<exists>r'. drain (r @ map uint cs) = (r', map (\<lambda>s. uint (state_code s)) ts) \<and> residue r'"
  using assms(1) chunk_ints [OF assms(2)] unfolding residue_def
  by (elim insertE emptyE; simp add: drain.simps crc8_atm_values)

lemma drain_chunks:
  "chunks bs ss \<Longrightarrow> \<exists>r. drain (map uint bs) = (r, map (\<lambda>s. uint (state_code s)) ss) \<and> residue r"
proof (induction rule: chunks.induct)
  case (more bs ss cs ts)
  then obtain r where r: "drain (map uint bs) = (r, map (\<lambda>s. uint (state_code s)) ss)" "residue r"
    by blast
  obtain r' where "drain (r @ map uint cs) = (r', map (\<lambda>s. uint (state_code s)) ts)" "residue r'"
    using drain_chunk [OF r(2) more.hyps(2)] by blast
  then show ?case using r(1) drain_append [of "map uint bs" "map uint cs"] by simp
qed (simp add: residue_def drain_short)

section \<open>What the transmitter remembers\<close>

text \<open>The latest decision published in a sequence of operations.\<close>

definition last_decision :: "tx_event list \<Rightarrow> (safety_state \<times> u64) option" where
  "last_decision es =
     fold (\<lambda>e d. case e of Publish s t \<Rightarrow> Some (s, t) | Tick _ \<Rightarrow> d) es None"

lemma last_decision_simps [simp]:
  "last_decision [] = None" "last_decision (es @ [Publish s t]) = Some (s, t)"
  "last_decision (es @ [Tick now]) = last_decision es"
  by (simp_all add: last_decision_def)

lemma sendLocked_keeps [simp]:
  "published_state (fst (sendLocked wr T s)) = published_state T"
  "decided_at_ms (fst (sendLocked wr T s)) = decided_at_ms T"
  "decision_seen (fst (sendLocked wr T s)) = decision_seen T"
  "tx_config (fst (sendLocked wr T s)) = tx_config T"
  by (simp_all add: sendLocked_eq send_failed_def split: prod.splits)

lemma tx_tick_keeps [simp]:
  "published_state (fst (tx_tick wr T now)) = published_state T"
  "decided_at_ms (fst (tx_tick wr T now)) = decided_at_ms T"
  "decision_seen (fst (tx_tick wr T now)) = decision_seen T"
  "tx_config (fst (tx_tick wr T now)) = tx_config T"
  by (simp_all add: tx_tick_def Let_def)

lemma tx_publish_sets [simp]:
  "published_state (tx_publish wr T s t) = s" "decided_at_ms (tx_publish wr T s t) = t"
  "decision_seen (tx_publish wr T s t)" "tx_config (tx_publish wr T s t) = tx_config T"
  by (simp_all add: tx_publish_def Let_def)

lemma tx_memory:
  fixes wr :: "'p \<Rightarrow> u8 list \<Rightarrow> 'p \<times> bool"
  shows "tx_config (fst (run (tx_step wr) (SafetyTransmitter p cfg) es)) = cfg
    \<and> (let T = fst (run (tx_step wr) (SafetyTransmitter p cfg) es) in case last_decision es of
      None \<Rightarrow> \<not> decision_seen T \<and> published_state T = Stop
    | Some (s, t) \<Rightarrow> decision_seen T \<and> published_state T = s \<and> decided_at_ms T = t)"
proof (induction es rule: rev_induct)
  case (snoc e es)
  let ?T = "\<lambda>es. fst (run (tx_step wr) (SafetyTransmitter p cfg) es)"
  have "?T (es @ [e]) = tx_op wr (?T es) e"
    by (simp add: run_append tx_step_def Let_def)
  then show ?case using snoc by (cases e) (auto simp: Let_def split: option.splits)
qed (simp add: SafetyTransmitter_def)

text \<open>The state that is due at a time: the watchdog in front of the latest decision.\<close>

definition due_state :: "tx_config \<Rightarrow> tx_event list \<Rightarrow> u64 \<Rightarrow> safety_state" where
  "due_state cfg es now = (case last_decision es of None \<Rightarrow> Stop
     | Some (s, t) \<Rightarrow> if unat t + unat (decision_timeout_ms cfg) \<le> unat now then Stop else s)"

lemma tx_tick_due:
  "snd (tx_tick wr (fst (run (tx_step wr) (SafetyTransmitter p cfg) es)) now) = due_state cfg es now"
proof -
  let ?T = "fst (run (tx_step wr) (SafetyTransmitter p cfg) es)"
  note mem = tx_memory [of wr p cfg es, unfolded Let_def]
  show ?thesis
  proof (cases "last_decision es")
    case None
    then show ?thesis using mem by (simp add: tx_tick_def tx_stale_def due_state_def)
  next
    case (Some d)
    obtain s t where "d = (s, t)" by (cases d)
    then show ?thesis
      using mem Some word_diff_ge_iff_unat [of "decided_at_ms ?T" now "decision_timeout_ms cfg"]
      by (auto simp: tx_tick_def tx_stale_def due_state_def word_le_nat_alt)
  qed
qed

lemma sendLocked_delivers:
  assumes "port U = port T" "frames_sent (stats U) = frames_sent (stats T)"
    and "T' = fst (sendLocked wr U s)"
  shows "(if frames_sent (stats T') = frames_sent (stats T) then [] else [last_sent T'])
     = (if snd (wr (port T) (frame s)) then [s] else [])"
  using assms by (auto simp: sendLocked_eq send_failed_def split: prod.splits)

lemma tx_step_delivers:
  "snd (tx_step wr T (Tick now)) =
     (if snd (wr (port T) (frame (snd (tx_tick wr T now)))) then [snd (tx_tick wr T now)] else [])"
  "snd (tx_step wr T (Publish s t)) =
     (if s = Stop \<and> published_state T \<noteq> Stop \<and> snd (wr (port T) (frame Stop)) then [Stop] else [])"
proof -
  let ?U = "if tx_stale T now \<and> published_state T \<noteq> Stop
    then T\<lparr>stats := (stats T)\<lparr>stale_events := stale_events (stats T) + 1\<rparr>\<rparr> else T"
  have "tx_op wr T (Tick now) = fst (sendLocked wr ?U (snd (tx_tick wr T now)))"
    by (simp add: tx_tick_def Let_def)
  moreover have "port ?U = port T" "frames_sent (stats ?U) = frames_sent (stats T)" by simp_all
  ultimately show "snd (tx_step wr T (Tick now)) =
     (if snd (wr (port T) (frame (snd (tx_tick wr T now)))) then [snd (tx_tick wr T now)] else [])"
    using sendLocked_delivers [of ?U T] unfolding tx_step_def Let_def snd_conv by blast
  let ?V = "T\<lparr>published_state := s, decided_at_ms := t, decision_seen := True,
     stats := (stats T)\<lparr>immediate_stops := immediate_stops (stats T) + 1\<rparr>\<rparr>"
  have V: "port ?V = port T" "frames_sent (stats ?V) = frames_sent (stats T)" by simp_all
  show "snd (tx_step wr T (Publish s t)) =
     (if s = Stop \<and> published_state T \<noteq> Stop \<and> snd (wr (port T) (frame Stop)) then [Stop] else [])"
  proof (cases "s = Stop \<and> published_state T \<noteq> Stop")
    case True
    then have op: "tx_op wr T (Publish s t) = fst (sendLocked wr ?V s)"
      by (simp add: tx_publish_def)
    show ?thesis using sendLocked_delivers [OF V op] True
      by (auto simp: tx_step_def Let_def split: if_splits)
  next
    case False
    then show ?thesis by (auto simp: tx_step_def tx_publish_def Let_def)
  qed
qed

text \<open>The thread body performs ticks, so that what holds of interleavings holds of it.\<close>

lemma tx_run_ticks:
  "fst (tx_run wr T rounds) = fst (run (tx_step wr) T (map (\<lambda>(_, now, _). Tick now) rounds))"
  by (induction wr T rounds rule: tx_run.induct)
     (auto simp: tx_step_def Let_def split: prod.splits)

lemma tx_run_sleeps:
  "snd (tx_run wr T rounds) = map (\<lambda>(started, now, after).
     if after - started < ucast (period_ms (tx_config T))
     then Some (ucast (ucast (period_ms (tx_config T)) - (after - started))) else None) rounds"
  by (induction wr T rounds rule: tx_run.induct) (auto simp: Let_def split: prod.splits)

section \<open>Properties\<close>

text \<open>
  C14: End to end over a faulty line. Let the two threads interleave in any way on a UART whose
  \<open>write\<close> takes few bytes, is interrupted or fails at any point, even in the middle of a frame;
  the receiver, however it gets the bytes, publishes exactly the states whose frames the
  transmitter counted as sent, in order. Torn frames neither forge a state nor swallow one.
\<close>

theorem tx_end_to_end:
  assumes "wire P = []"
    and "concat ws = map uint (wire (port (fst (run (tx_step posix_write) (SafetyTransmitter P cfg) es))))"
  shows "snd (polls [] ws) = map (\<lambda>s. uint (state_code s))
     (concat (snd (run (tx_step posix_write) (SafetyTransmitter P cfg) es)))"
proof -
  have "port (SafetyTransmitter P cfg) = P" by (simp add: SafetyTransmitter_def)
  then obtain bs where bs: "concat ws = map uint bs"
    "chunks bs (concat (snd (run (tx_step posix_write) (SafetyTransmitter P cfg) es)))"
    using posix.run_chunks [of "SafetyTransmitter P cfg" es] assms by auto
  then show ?thesis using drain_chunks [OF bs(2)] by (auto simp: polls_drain)
qed

text \<open>One byte of a Slow frame goes out, then a whole Stop frame.\<close>

theorem tx_end_to_end_witness:
  "let P = \<lparr>fd = 3, replies = [WEintr, Wrote 1, WFailed, Wrote 2, Wrote 9], wire = [], open_fds = [3]\<rparr>;
       es = [Publish Slow 10, Tick 20, Publish Stop 30]
   in concat (snd (run (tx_step posix_write) (SafetyTransmitter P TxConfig_default) es)) = [Stop]
      \<and> snd (polls [] [[0xA5, 0xA5], [2], [0x57]]) = [2]"
proof -
  let ?P = "\<lparr>fd = 3, replies = [WEintr, Wrote 1, WFailed, Wrote 2, Wrote 9], wire = [], open_fds = [3]\<rparr>"
  let ?r = "run (tx_step posix_write) (SafetyTransmitter ?P TxConfig_default)
    [Publish Slow 10, Tick 20, Publish Stop 30]"
  have f: "frame Slow = [0xA5, 1, 0x5E]" "frame Stop = [0xA5, 2, 0x57]" by code_simp+
  have r: "wire (port (fst ?r)) = [0xA5, 0xA5, 2, 0x57]" "concat (snd ?r) = [Stop]"
    by (simp_all add: tx_step_def Let_def SafetyTransmitter_def tx_publish_def tx_tick_def
        tx_stale_def TxConfig_default_def sendLocked_eq send_failed_def f posix_write_def
        uart_write_def numeral_2_eq_2)
  have p: "snd (polls [] [[0xA5, 0xA5], [2], [0x57]]) = map (\<lambda>s. uint (state_code s)) (concat (snd ?r))"
  proof (rule tx_end_to_end)
    show "concat [[0xA5, 0xA5], [2], [0x57]] = map uint (wire (port (fst ?r)))"
      unfolding r(1) by simp
  qed simp
  show ?thesis unfolding Let_def p r(2) by simp
qed

text \<open>
  The watchdog. Whatever has been published and sent before, a tick answers Stop until the
  first decision and from \<open>decision_timeout_ms\<close> after the latest one on, and otherwise the
  latest decision.
\<close>

theorem tx_tick_watchdog:
  "snd (tx_tick wr (fst (run (tx_step wr) (SafetyTransmitter p cfg) es)) now) =
     (case last_decision es of None \<Rightarrow> Stop
      | Some (s, t) \<Rightarrow> if unat t + unat (decision_timeout_ms cfg) \<le> unat now then Stop else s)"
  by (simp add: tx_tick_due due_state_def)

text \<open>
  C15: No stale permission to move. Over any interleaving and any port, a frame other than Stop
  goes out only in a tick, it carries the latest decision, and that decision is younger than
  \<open>decision_timeout_ms\<close>.
\<close>

theorem tx_no_stale_go:
  assumes "n < length es" "s \<noteq> Stop"
    and "s \<in> set (snd (run (tx_step wr) (SafetyTransmitter p cfg) es) ! n)"
  shows "\<exists>now t. es ! n = Tick now \<and> last_decision (take n es) = Some (s, t)
     \<and> unat now < unat t + unat (decision_timeout_ms cfg)"
proof -
  let ?T = "fst (run (tx_step wr) (SafetyTransmitter p cfg) (take n es))"
  have sent: "s \<in> set (snd (tx_step wr ?T (es ! n)))"
    using assms(1,3) by (simp add: run_nth)
  show ?thesis
  proof (cases "es ! n")
    case (Publish s' t')
    then show ?thesis using sent assms(2) by (simp add: tx_step_delivers split: if_splits)
  next
    case (Tick now)
    then have "s = due_state cfg (take n es) now"
      using sent by (simp add: tx_step_delivers tx_tick_due split: if_splits)
    then show ?thesis using assms(2) Tick
      by (auto simp: due_state_def not_le split: option.splits prod.splits if_splits)
  qed
qed

theorem tx_no_stale_go_witness:
  "let P = \<lparr>fd = 3, replies = [Wrote 3, Wrote 3], wire = [], open_fds = [3]\<rparr>;
       es = [Publish Clear 100, Tick 120]
   in Clear \<in> set (snd (run (tx_step posix_write) (SafetyTransmitter P TxConfig_default) es) ! 1)
      \<and> (\<exists>now t. es ! 1 = Tick now \<and> last_decision (take 1 es) = Some (Clear, t)
           \<and> unat now < unat t + unat (decision_timeout_ms TxConfig_default))"
proof -
  let ?P = "\<lparr>fd = 3, replies = [Wrote 3, Wrote 3], wire = [], open_fds = [3]\<rparr>"
  let ?es = "[Publish Clear 100, Tick 120]"
  have "frame Clear = [0xA5, 0, 0x59]" by code_simp
  then have s: "Clear \<in> set (snd (run (tx_step posix_write) (SafetyTransmitter ?P TxConfig_default) ?es) ! 1)"
    by (simp add: tx_step_def Let_def SafetyTransmitter_def tx_publish_def tx_tick_def
        tx_stale_def TxConfig_default_def sendLocked_eq posix_write_def uart_write_def numeral_3_eq_3)
  have "\<exists>now t. ?es ! 1 = Tick now \<and> last_decision (take 1 ?es) = Some (Clear, t)
      \<and> unat now < unat t + unat (decision_timeout_ms TxConfig_default)"
    by (rule tx_no_stale_go [OF _ _ s]) simp_all
  with s show ?thesis by (simp add: Let_def)
qed

text \<open>
  A Stop does not wait for the period. When the port works, publishing Stop after another
  state puts a whole Stop frame on the wire at once, whatever happened before, and a repeated
  Stop does not.
\<close>

theorem tx_immediate_Stop:
  "snd (tx_step wr (fst (run (tx_step wr) (SafetyTransmitter p cfg) es)) (Publish s t)) =
     (let T = fst (run (tx_step wr) (SafetyTransmitter p cfg) es) in
      if s = Stop \<and> (\<exists>s' t'. last_decision es = Some (s', t') \<and> s' \<noteq> Stop)
         \<and> snd (wr (port T) (frame Stop))
      then [Stop] else [])"
proof -
  have "published_state (fst (run (tx_step wr) (SafetyTransmitter p cfg) es)) \<noteq> Stop
      \<longleftrightarrow> (\<exists>s' t'. last_decision es = Some (s', t') \<and> s' \<noteq> Stop)"
    using tx_memory [of wr p cfg es] by (auto simp: Let_def split: option.splits)
  then show ?thesis by (simp add: tx_step_delivers Let_def)
qed

text \<open>
  The rhythm of the thread. \<open>run\<close> performs one tick per round, and a round that took less
  than the period sleeps for exactly the rest of it, one that took longer does not sleep; the
  casts to 32 bits lose nothing.
\<close>

theorem tx_run_rhythm:
  "fst (tx_run wr T rounds) = fst (run (tx_step wr) T (map (\<lambda>(_, now, _). Tick now) rounds))
   \<and> map (map_option unat) (snd (tx_run wr T rounds)) = map (\<lambda>(started, now, after).
       let spent = unat (after - started); period = unat (period_ms (tx_config T)) in
       if spent < period then Some (period - spent) else None) rounds"
proof
  have "unat (ucast (ucast p - d) :: u32) = unat p - unat d" if "d < ucast p" for p :: u32 and d :: u64
  proof -
    have le: "unat d < unat p" using that by (simp add: word_less_nat_alt)
    then have "unat (ucast p - d) = unat p - unat d" by (simp add: unat_sub word_le_nat_alt)
    moreover have "unat p - unat d < 2 ^ 32" using unsigned_less [of p, where ?'a = nat] by simp
    ultimately show ?thesis by (simp add: unsigned_ucast_eq take_bit_nat_eq_self)
  qed
  then show "map (map_option unat) (snd (tx_run wr T rounds)) = map (\<lambda>(started, now, after).
       let spent = unat (after - started); period = unat (period_ms (tx_config T)) in
       if spent < period then Some (period - spent) else None) rounds"
    by (auto simp: tx_run_sleeps Let_def word_less_nat_alt split: prod.splits)
qed (rule tx_run_ticks)

text \<open>
  The port holds its descriptor and no other. Whatever the system answers, \<open>open\<close> and
  \<open>close\<close> keep the invariant that the process holds exactly the descriptor of an open port;
  \<open>open\<close> succeeds exactly on a closed port with a path, a known baud rate and a cooperating
  system, and no failure path leaks a descriptor.
\<close>

theorem uart_descriptors:
  assumes "open_fds P = (if isOpen P then [fd P] else [])"
  shows "open_fds (fst (uart_open P path baud sys))
      = (if isOpen (fst (uart_open P path baud sys)) then [fd (fst (uart_open P path baud sys))] else [])
    \<and> (snd (uart_open P path baud sys) \<longleftrightarrow> \<not> isOpen P \<and> path \<noteq> []
        \<and> baud \<in> {9600, 19200, 38400, 57600, 115200, 230400}
        \<and> 0 \<le> new_fd sys \<and> getattr_ok sys \<and> setattr_ok sys)
    \<and> open_fds (uart_close P) = [] \<and> \<not> isOpen (uart_close P)"
  using assms
  by (auto simp: uart_open_def uart_close_def isOpen_def toSpeed_def Let_def split: if_splits)

theorem uart_descriptors_witness:
  "let P = \<lparr>fd = -1, replies = [], wire = [], open_fds = []\<rparr>;
       sys = \<lparr>new_fd = 4, getattr_ok = True, setattr_ok = False\<rparr>
   in \<not> snd (uart_open P ''/dev/ttyPS1'' 115200 sys) \<and> open_fds (uart_close P) = []"
  using uart_descriptors [of "\<lparr>fd = -1, replies = [], wire = [], open_fds = []\<rparr>"
      "''/dev/ttyPS1''" 115200 "\<lparr>new_fd = 4, getattr_ok = True, setattr_ok = False\<rparr>"]
  by (simp add: isOpen_def)

end
