(* ===== verification/Safety_Bridge.thy ===== *)
theory Safety_Bridge
  imports Hazard_Latch Roi_Protocol Safety_Transmitter
begin

text \<open>
  \<open>control/ps_safety_bridge\<close>: collects the classified regions of a frame, judges the frame
  through the hazard latch, adds the two rules that may raise Clear to Slow, and hands the result
  to the transmitter. A handle that may be null is an option; environment variables and the
  number parsers of the C library are arguments.
\<close>

section \<open>Configuration\<close>

text \<open>
  The answers of \<open>strtof\<close> and \<open>strtoull\<close> to a text: the value, the number of characters
  consumed, and whether \<open>errno\<close> was set.
\<close>

type_synonym 'v parser = "string \<Rightarrow> 'v \<times> nat \<times> bool"
type_synonym environment = "string \<Rightarrow> string option"

definition ratioFromEnvironment :: "environment \<Rightarrow> fp parser \<Rightarrow> string \<Rightarrow> fp \<Rightarrow> fp" where
  "ratioFromEnvironment env strtof name fallback =
     (case env name of None \<Rightarrow> fallback
      | Some text \<Rightarrow>
          if text = [] then fallback
          else case strtof text of (v, end_pos, err) \<Rightarrow>
            if err \<or> end_pos = 0 \<or> end_pos \<noteq> length text \<or> \<not> fp_isfinite v
               \<or> fp_lt v (Fin 0) \<or> fp_gt v (Fin 1)
            then fallback else v)"

definition millisecondsFromEnvironment :: "environment \<Rightarrow> u64 parser \<Rightarrow> string \<Rightarrow> u64 \<Rightarrow> u64" where
  "millisecondsFromEnvironment env strtoull name fallback =
     (case env name of None \<Rightarrow> fallback
      | Some text \<Rightarrow>
          if text = [] then fallback
          else case strtoull text of (v, end_pos, err) \<Rightarrow>
            if err \<or> end_pos = 0 \<or> end_pos \<noteq> length text \<or> v > 600000 then fallback else v)"

definition projectClassMap :: class_map where
  "projectClassMap = \<lparr>car = 1, person = 2, sign_warning = 3, sign_prohibition = 4,
     sign_mandatory = 5, background = 0\<rparr>"

definition environment_config :: "environment \<Rightarrow> fp parser \<Rightarrow> judge_config" where
  "environment_config env strtof =
     (let c = JudgeConfig_default\<lparr>classes := projectClassMap\<rparr>;
          ratio = ratioFromEnvironment env strtof
      in c\<lparr>sign_slow_width := ratio ''ADAS_SIGN_SLOW_WIDTH'' (sign_slow_width c),
           stop_height := ratio ''ADAS_STOP_HEIGHT'' (stop_height c),
           slow_height := ratio ''ADAS_SLOW_HEIGHT'' (slow_height c),
           zone_y_min := ratio ''ADAS_ZONE_Y_MIN'' (zone_y_min c),
           zone_x_min := ratio ''ADAS_ZONE_X_MIN'' (zone_x_min c),
           zone_x_max := ratio ''ADAS_ZONE_X_MAX'' (zone_x_max c),
           min_score := ratio ''ADAS_MIN_SCORE'' (min_score c)\<rparr>)"

section \<open>The handle\<close>

text \<open>The pending observations are the first \<open>pending_count\<close> elements of the array.\<close>

record 'p handle =
  hlatch :: hazard_latch
  jconfig :: judge_config
  min_objectness :: fp
  frame_width :: fp
  frame_height :: fp
  pending_dets :: "detection list"
  pending_background_slow :: bool
  sign_hold_ms :: u64
  sign_slow_until_ms :: u64
  hstate :: safety_state
  htx :: "'p transmitter"

definition latch_settings :: latch_config where
  "latch_settings = LatchConfig_default\<lparr>release_ms := 200, release_frames := 3\<rparr>"

definition initial_handle :: "judge_config \<Rightarrow> u64 \<Rightarrow> 'p \<Rightarrow> 'p handle" where
  "initial_handle config hold p = \<lparr>hlatch = HazardLatch latch_settings, jconfig = config,
     min_objectness = Fin (1/4), frame_width = Fin 640, frame_height = Fin 360,
     pending_dets = [], pending_background_slow = False, sign_hold_ms = hold,
     sign_slow_until_ms = 0, hstate = Stop, htx = SafetyTransmitter p TxConfig_default\<rparr>"

text \<open>
  \<open>ps_safety_start\<close>: the handle, if any, and the port that is left when there is none (its
  destructor closes it).
\<close>

definition ps_safety_start ::
  "string option \<Rightarrow> u32 \<Rightarrow> posix_port \<Rightarrow> open_reply \<Rightarrow> environment \<Rightarrow> fp parser \<Rightarrow> u64 parser
     \<Rightarrow> posix_port handle option \<times> posix_port" where
  "ps_safety_start uart_port baud P sys env strtof strtoull =
     (case uart_port of None \<Rightarrow> (None, P)
      | Some path \<Rightarrow>
          if path = [] then (None, P)
          else case uart_open P path baud sys of (P, ok) \<Rightarrow>
            if \<not> ok then (None, uart_close P)
            else let config = environment_config env strtof;
                     hold = millisecondsFromEnvironment env strtoull ''ADAS_SIGN_HOLD_MS'' 5000
                 in if fp_gt (zone_x_min config) (zone_x_max config) then (None, uart_close P)
                    else (Some (initial_handle config hold P), P))"

section \<open>Observations\<close>

definition record_of :: "'p handle \<Rightarrow> roi_bbox \<Rightarrow> detection" where
  "record_of H b =
     \<lparr>x1 = fdiv32 (f32_of_bits (b_x b)) (frame_width H),
      y1 = fdiv32 (f32_of_bits (b_y b)) (frame_height H),
      x2 = fdiv32 (fadd32 (f32_of_bits (b_x b)) (f32_of_bits (b_width b))) (frame_width H),
      y2 = fdiv32 (fadd32 (f32_of_bits (b_y b)) (f32_of_bits (b_height b))) (frame_height H),
      score = f32_of_bits (b_objectness b), class_id = 0\<rparr>"

definition background_hazard :: "'p handle \<Rightarrow> detection \<Rightarrow> bool" where
  "background_hazard H d \<longleftrightarrow>
     (let center_x = fmul32 (fadd32 (x1 d) (x2 d)) (Fin (1/2)); height = fsub32 (y2 d) (y1 d)
      in fp_ge (score d) (min_objectness H) \<and> fp_ge center_x (zone_x_min (jconfig H))
         \<and> fp_le center_x (zone_x_max (jconfig H)) \<and> fp_ge (y2 d) (zone_y_min (jconfig H))
         \<and> fp_ge height (slow_height (jconfig H)))"

definition add_observation :: "'p handle \<Rightarrow> roi_bbox \<Rightarrow> roi_result \<Rightarrow> 'p handle" where
  "add_observation H b r =
     (if length (pending_dets H) \<ge> kMaxDetections then H
      else if fp_lt (f32_of_bits (b_objectness b)) (min_objectness H)
              \<or> \<not> fp_gt (f32_of_bits (b_width b)) (Fin 0) \<or> \<not> fp_gt (f32_of_bits (b_height b)) (Fin 0)
              \<or> \<not> fp_gt (frame_width H) (Fin 0) \<or> \<not> fp_gt (frame_height H) (Fin 0) then H
      else let d = record_of H b; classification_ok = (r_status r = STATUS_OK) in
      if \<not> classification_ok
      then H\<lparr>pending_dets := pending_dets H @ [d\<lparr>class_id := person (classes (jconfig H))\<rparr>]\<rparr>
      else let cid = r_class_id r;
               is_background = (0 \<le> sint (background (classes (jconfig H)))
                                \<and> cid = background (classes (jconfig H)))
           in if is_background
              then (if background_hazard H d then H\<lparr>pending_background_slow := True\<rparr> else H)
              else H\<lparr>pending_dets := pending_dets H @ [d\<lparr>class_id := cid\<rparr>]\<rparr>)"

definition ps_safety_add_observation ::
  "'p handle option \<Rightarrow> roi_bbox option \<Rightarrow> roi_result option \<Rightarrow> 'p handle option" where
  "ps_safety_add_observation h bbox result =
     (case (h, bbox, result) of (Some H, Some b, Some r) \<Rightarrow> Some (add_observation H b r) | _ \<Rightarrow> h)"

section \<open>The end of a frame\<close>

definition sign_seen :: "'p handle \<Rightarrow> bool" where
  "sign_seen H \<longleftrightarrow> list_ex (\<lambda>d. isSignClass (class_id d) (classes (jconfig H))
     \<and> judgeOne d (jconfig H) = Slow) (pending_dets H)"

definition flush_frame ::
  "('p \<Rightarrow> u8 list \<Rightarrow> 'p \<times> bool) \<Rightarrow> 'p handle \<Rightarrow> u64 \<Rightarrow> 'p handle" where
  "flush_frame wr H now =
     (let H = (if sign_seen H then H\<lparr>sign_slow_until_ms := now + sign_hold_ms H\<rparr> else H);
          items = (if pending_dets H = [] then None else Some (pending_dets H))
      in case latch_update (hlatch H) items (length (pending_dets H)) (jconfig H) now of (L, s) \<Rightarrow>
         let H = H\<lparr>hlatch := L, hstate := s\<rparr>;
             H = (if pending_background_slow H \<and> hstate H = Clear then H\<lparr>hstate := Slow\<rparr> else H);
             H = (if now < sign_slow_until_ms H \<and> state_code (hstate H) < state_code Slow
                  then H\<lparr>hstate := Slow\<rparr> else H);
             H = H\<lparr>pending_dets := [], pending_background_slow := False\<rparr>
         in H\<lparr>htx := tx_publish wr (htx H) (hstate H) now\<rparr>)"

definition ps_safety_flush_frame ::
  "('p \<Rightarrow> u8 list \<Rightarrow> 'p \<times> bool) \<Rightarrow> 'p handle option \<Rightarrow> u64 \<Rightarrow> 'p handle option" where
  "ps_safety_flush_frame wr h now = map_option (\<lambda>H. flush_frame wr H now) h"

definition force_stop ::
  "('p \<Rightarrow> u8 list \<Rightarrow> 'p \<times> bool) \<Rightarrow> 'p handle \<Rightarrow> u64 \<Rightarrow> 'p handle" where
  "force_stop wr H now = H\<lparr>pending_dets := [], pending_background_slow := False,
     sign_slow_until_ms := 0, hstate := Stop, htx := tx_publish wr (htx H) Stop now\<rparr>"

definition ps_safety_force_stop ::
  "('p \<Rightarrow> u8 list \<Rightarrow> 'p \<times> bool) \<Rightarrow> 'p handle option \<Rightarrow> u64 \<Rightarrow> 'p handle option" where
  "ps_safety_force_stop wr h now = map_option (\<lambda>H. force_stop wr H now) h"

text \<open>
  \<open>ps_safety_stop\<close>: the last Stop, the rounds the thread still makes before it sees the flag
  and is joined, and the port closed with the handle.
\<close>

definition ps_safety_stop ::
  "posix_port handle option \<Rightarrow> u64 \<Rightarrow> (u64 \<times> u64 \<times> u64) list \<Rightarrow> posix_port option" where
  "ps_safety_stop h now rounds = map_option (\<lambda>H.
     uart_close (port (fst (tx_run posix_write (htx (force_stop posix_write H now)) rounds)))) h"

section \<open>The operations in sequence\<close>

datatype bridge_op = Observe roi_bbox roi_result | Flush u64 | ForceStop u64 | TxTick u64

fun bridge_do ::
  "('p \<Rightarrow> u8 list \<Rightarrow> 'p \<times> bool) \<Rightarrow> 'p handle \<Rightarrow> bridge_op \<Rightarrow> 'p handle" where
  "bridge_do wr H (Observe b r) = add_observation H b r"
| "bridge_do wr H (Flush now) = flush_frame wr H now"
| "bridge_do wr H (ForceStop now) = force_stop wr H now"
| "bridge_do wr H (TxTick now) = H\<lparr>htx := fst (tx_tick wr (htx H) now)\<rparr>"

definition bridge_step ::
  "('p \<Rightarrow> u8 list \<Rightarrow> 'p \<times> bool) \<Rightarrow> 'p handle \<Rightarrow> bridge_op \<Rightarrow> 'p handle \<times> safety_state" where
  "bridge_step wr H op = (let H' = bridge_do wr H op in (H', hstate H'))"

section \<open>What is kept of an observation\<close>

text \<open>The detection that an observation adds, if it passes the gates and is not background.\<close>

definition usable :: "'p handle \<Rightarrow> roi_bbox \<Rightarrow> bool" where
  "usable H b \<longleftrightarrow> \<not> (fp_lt (f32_of_bits (b_objectness b)) (min_objectness H)
     \<or> \<not> fp_gt (f32_of_bits (b_width b)) (Fin 0) \<or> \<not> fp_gt (f32_of_bits (b_height b)) (Fin 0)
     \<or> \<not> fp_gt (frame_width H) (Fin 0) \<or> \<not> fp_gt (frame_height H) (Fin 0))"

definition is_background :: "'p handle \<Rightarrow> roi_result \<Rightarrow> bool" where
  "is_background H r \<longleftrightarrow> r_status r = STATUS_OK \<and> 0 \<le> sint (background (classes (jconfig H)))
     \<and> r_class_id r = background (classes (jconfig H))"

definition judged_class :: "'p handle \<Rightarrow> roi_result \<Rightarrow> i32" where
  "judged_class H r = (if r_status r = STATUS_OK then r_class_id r else person (classes (jconfig H)))"

fun kept :: "'p handle \<Rightarrow> roi_bbox \<times> roi_result \<Rightarrow> detection option" where
  "kept H (b, r) = (if usable H b \<and> \<not> is_background H r
     then Some ((record_of H b)\<lparr>class_id := judged_class H r\<rparr>) else None)"

definition observe :: "roi_bbox \<times> roi_result \<Rightarrow> 'p handle \<Rightarrow> 'p handle" where
  "observe br H = add_observation H (fst br) (snd br)"

lemma add_observation_kept:
  "add_observation H b r =
     (if length (pending_dets H) \<ge> kMaxDetections then H
      else case kept H (b, r) of
        Some d \<Rightarrow> H\<lparr>pending_dets := pending_dets H @ [d]\<rparr>
      | None \<Rightarrow> if usable H b \<and> background_hazard H (record_of H b)
                then H\<lparr>pending_background_slow := True\<rparr> else H)"
  by (auto simp: add_observation_def usable_def is_background_def judged_class_def Let_def)

lemma add_observation_keeps [simp]:
  "hlatch (add_observation H b r) = hlatch H" "jconfig (add_observation H b r) = jconfig H"
  "min_objectness (add_observation H b r) = min_objectness H"
  "frame_width (add_observation H b r) = frame_width H"
  "frame_height (add_observation H b r) = frame_height H"
  "sign_hold_ms (add_observation H b r) = sign_hold_ms H"
  "sign_slow_until_ms (add_observation H b r) = sign_slow_until_ms H"
  "hstate (add_observation H b r) = hstate H" "htx (add_observation H b r) = htx H"
  by (auto simp: add_observation_def Let_def)

lemma observe_keeps [simp]:
  "hlatch (fold observe obs H) = hlatch H" "jconfig (fold observe obs H) = jconfig H"
  "sign_hold_ms (fold observe obs H) = sign_hold_ms H"
  "sign_slow_until_ms (fold observe obs H) = sign_slow_until_ms H"
  "hstate (fold observe obs H) = hstate H" "htx (fold observe obs H) = htx H"
  by (induction obs arbitrary: H) (simp_all add: observe_def)

lemma kept_add: "kept (add_observation H b r) = kept H"
proof
  fix br show "kept (add_observation H b r) br = kept H br"
    by (cases br) (simp add: usable_def is_background_def judged_class_def record_of_def)
qed

lemma pending_observe:
  assumes "length (pending_dets H) \<le> kMaxDetections"
  shows "pending_dets (fold observe obs H)
    = take kMaxDetections (pending_dets H @ List.map_filter (kept H) obs)"
  using assms
proof (induction obs arbitrary: H)
  case (Cons br obs)
  obtain b r where br: "br = (b, r)" by (cases br)
  let ?H = "add_observation H b r"
  have obs: "observe br H = ?H" by (simp add: br observe_def)
  have "length (pending_dets ?H) \<le> kMaxDetections" using Cons.prems
    by (auto simp: add_observation_kept split: option.split)
  then have "pending_dets (fold observe (br # obs) H)
      = take kMaxDetections (pending_dets ?H @ List.map_filter (kept H) obs)"
    using Cons.IH [of ?H] by (simp add: obs kept_add)
  also have "\<dots> = take kMaxDetections (pending_dets H @ List.map_filter (kept H) (br # obs))"
    using Cons.prems
    by (auto simp: add_observation_kept br map_filter_simps take_Cons' simp del: kept.simps
        split: option.split)
  finally show ?case .
qed (simp add: map_filter_simps)

section \<open>The flush\<close>

definition sign_until :: "'p handle \<Rightarrow> u64 \<Rightarrow> u64" where
  "sign_until H now = (if sign_seen H then now + sign_hold_ms H else sign_slow_until_ms H)"

definition frame_judgement :: "'p handle \<Rightarrow> u64 \<Rightarrow> hazard_latch \<times> safety_state" where
  "frame_judgement H now = latch_update (hlatch H)
     (if pending_dets H = [] then None else Some (pending_dets H)) (length (pending_dets H)) (jconfig H) now"

lemma flush_frame_eq:
  "flush_frame wr H now =
     (let s = max (snd (frame_judgement H now))
                (if pending_background_slow H \<or> now < sign_until H now then Slow else Clear) in
      H\<lparr>hlatch := fst (frame_judgement H now), pending_dets := [], pending_background_slow := False,
        sign_slow_until_ms := sign_until H now, hstate := s, htx := tx_publish wr (htx H) s now\<rparr>)"
proof -
  obtain L s where j: "frame_judgement H now = (L, s)" by fastforce
  show ?thesis
    using j unfolding flush_frame_def frame_judgement_def
    by (cases s; cases "pending_dets H = []"; cases "sign_seen H"; cases "pending_background_slow H";
        cases "now < sign_until H now")
       (simp_all add: frame_judgement_def sign_until_def Let_def max_def)
qed

lemma seen_pending:
  "seen (if ds = [] then None else Some ds) (length ds) = ds"
  by (simp add: seen_def)

lemma force_stop_simps [simp]:
  "hlatch (force_stop wr H now) = hlatch H" "jconfig (force_stop wr H now) = jconfig H"
  "pending_dets (force_stop wr H now) = []" "hstate (force_stop wr H now) = Stop"
  "htx (force_stop wr H now) = tx_publish wr (htx H) Stop now"
  by (simp_all add: force_stop_def)

section \<open>A frame as one step\<close>

definition bridge_frame ::
  "('p \<Rightarrow> u8 list \<Rightarrow> 'p \<times> bool) \<Rightarrow> 'p handle \<Rightarrow> (roi_bbox \<times> roi_result) list \<times> u64
     \<Rightarrow> 'p handle \<times> safety_state" where
  "bridge_frame wr H f = (let H' = flush_frame wr (fold observe (fst f) H) (snd f) in (H', hstate H'))"

definition bridge_demand :: "'p handle \<Rightarrow> (roi_bbox \<times> roi_result) list \<times> u64 \<Rightarrow> safety_state" where
  "bridge_demand H f = latch_demand (hlatch H)
     (Some (pending_dets (fold observe (fst f) H)), length (pending_dets (fold observe (fst f) H)),
      jconfig H, snd f)"

definition bridge_good :: "'p handle \<Rightarrow> bool" where
  "bridge_good H \<longleftrightarrow> latch_ok (hlatch H) \<and> pending_dets H = []"

interpretation bridge: safety_filter "bridge_frame wr" bridge_good bridge_demand
proof
  fix H :: "'a handle" and f :: "(roi_bbox \<times> roi_result) list \<times> u64"
  assume good: "bridge_good H"
  let ?H = "fold observe (fst f) H"
  let ?ds = "pending_dets ?H"
  show "bridge_good (fst (bridge_frame wr H f))"
    using good by (simp add: bridge_good_def bridge_frame_def flush_frame_eq frame_judgement_def
        latch_ok_update Let_def)
  have "bridge_demand H f = latch_demand (hlatch H)
      (if ?ds = [] then None else Some ?ds, length ?ds, jconfig H, snd f)"
    by (simp add: bridge_demand_def seen_def)
  also have "\<dots> \<le> snd (frame_judgement ?H (snd f))"
    unfolding frame_judgement_def observe_keeps
    using good by (intro latch_update_demand) (simp add: bridge_good_def)
  also have "\<dots> \<le> snd (bridge_frame wr H f)"
    by (simp add: bridge_frame_def flush_frame_eq Let_def)
  finally show "bridge_demand H f \<le> snd (bridge_frame wr H f)" .
qed

lemma flush_state:
  "hstate (flush_frame wr H now) = max (snd (frame_judgement H now))
     (if pending_background_slow H \<or> now < sign_until H now then Slow else Clear)"
  by (simp add: flush_frame_eq Let_def)

lemma latch_update_Stop_cause:
  assumes "snd (latch_update L items count config now) = Stop"
  shows "phase L = Holding \<and> now < hold_until_ms L
    \<or> (\<exists>d\<in>set (seen items count). judgeOne d config = Stop)"
proof (rule ccontr)
  assume "\<not> ?thesis"
  then have no: "\<not> (phase L = Holding \<and> now < hold_until_ms L)"
    "\<forall>d\<in>set (seen items count). judgeOne d config \<noteq> Stop" by auto
  show False using assms no(1) judgeWorst_not_Stop [OF no(2)] by (auto simp: latch_update_def)
qed

lemma kept_set:
  "d \<in> set (List.map_filter (kept H) obs) \<longleftrightarrow> (\<exists>br\<in>set obs. kept H br = Some d)"
  by (induction obs) (auto simp: map_filter_simps simp del: kept.simps split: option.split)

lemma judgeOne_class:
  assumes "judgeOne d config = Stop"
  shows "class_id d = car (classes config) \<or> class_id d = person (classes config)"
  using assms by (simp add: judgeOne_cases_raw isHazardClass_def)

section \<open>Invariants of every sequence of operations\<close>

definition bridge_inv :: "judge_config \<Rightarrow> 'p handle \<Rightarrow> bool" where
  "bridge_inv config H \<longleftrightarrow> jconfig H = config \<and> length (pending_dets H) \<le> kMaxDetections
     \<and> latch_ok (hlatch H) \<and> published_state (htx H) = hstate H
     \<and> (\<forall>d\<in>set (pending_dets H). 0 \<le> sint (background (classes config))
          \<longrightarrow> class_id d = background (classes config) \<longrightarrow> person (classes config) = class_id d)"

lemma pending_add:
  "set (pending_dets (add_observation H b r))
     \<subseteq> set (pending_dets H) \<union> (case kept H (b, r) of None \<Rightarrow> {} | Some d \<Rightarrow> {d})"
  "length (pending_dets H) \<le> kMaxDetections \<Longrightarrow>
     length (pending_dets (add_observation H b r)) \<le> kMaxDetections"
  unfolding add_observation_kept by (auto simp del: kept.simps split: option.split)

lemma kept_class:
  "kept H (b, r) = Some d \<Longrightarrow> class_id d = judged_class H r \<and> \<not> is_background H r"
  by (auto split: if_splits)

lemma bridge_inv_do:
  assumes "bridge_inv config H" shows "bridge_inv config (bridge_do wr H op)"
proof (cases op)
  case (Observe b r)
  have "person (classes config) = class_id d"
    if d: "d \<in> set (pending_dets (add_observation H b r))"
      "0 \<le> sint (background (classes config))" "class_id d = background (classes config)" for d
  proof (cases "d \<in> set (pending_dets H)")
    case True
    then show ?thesis using assms d by (auto simp: bridge_inv_def)
  next
    case False
    then have "kept H (b, r) = Some d"
      using d(1) pending_add(1) [of H b r] by (auto simp del: kept.simps split: option.splits)
    from kept_class [OF this] show ?thesis
      using d(2,3) assms by (auto simp: bridge_inv_def is_background_def judged_class_def split: if_splits)
  qed
  then show ?thesis using assms Observe by (auto simp: bridge_inv_def pending_add(2))
next
  case (Flush now)
  then show ?thesis using assms
    by (simp add: bridge_inv_def flush_frame_eq frame_judgement_def latch_ok_update Let_def)
qed (use assms in \<open>simp_all add: bridge_inv_def\<close>)

lemma bridge_inv_run:
  assumes "bridge_inv config H" shows "bridge_inv config (fst (run (bridge_step wr) H ops))"
  by (rule run_invariant [where P = "bridge_inv config"])
     (simp_all add: assms bridge_step_def Let_def bridge_inv_do del: bridge_do.simps)

section \<open>Concrete inputs\<close>

text \<open>Coordinates of a near obstacle in the middle of the picture, as they travel on the wire.\<close>

lemma f32_bits_values [simp]:
  "f32_of_bits 0x43200000 = Fin 160" "f32_of_bits 0x43A00000 = Fin 320"
  "f32_of_bits 0x42B40000 = Fin 90" "f32_of_bits 0x43610000 = Fin 225"
  "f32_of_bits 0x3F000000 = Fin (1/2)" "f32_of_bits 0 = Fin 0"
  by (simp_all add: f32_of_bits_def Let_def)

definition near_box :: roi_bbox where
  "near_box = \<lparr>b_x = 0x43200000, b_y = 0x42B40000, b_width = 0x43A00000, b_height = 0x43610000,
     b_objectness = 0x3F000000, b_frame_width = 640, b_frame_height = 360\<rparr>"

definition lost_result :: roi_result where
  "lost_result = \<lparr>r_status = STATUS_ACCELERATOR_ERROR, r_class_id = INVALID_CLASS_ID,
     r_confidence_ppm = 0\<rparr>"

definition project_config :: judge_config where
  "project_config = JudgeConfig_default\<lparr>classes := projectClassMap\<rparr>"

lemma initial_handle_simps [simp]:
  "hlatch (initial_handle config hold p) = HazardLatch latch_settings"
  "jconfig (initial_handle config hold p) = config" "pending_dets (initial_handle config hold p) = []"
  by (simp_all add: initial_handle_def)

lemma near_box_initial:
  "usable (initial_handle project_config hold p) near_box"
  "judged_class (initial_handle project_config hold p) lost_result = 2"
  "record_of (initial_handle project_config hold p) near_box =
     \<lparr>x1 = Fin (1/4), y1 = Fin (1/4), x2 = Fin (3/4), y2 = Fin (7/8), score = Fin (1/2), class_id = 0\<rparr>"
  "kept (initial_handle project_config hold p) (near_box, lost_result) = Some
     \<lparr>x1 = Fin (1/4), y1 = Fin (1/4), x2 = Fin (3/4), y2 = Fin (7/8), score = Fin (1/2), class_id = 2\<rparr>"
  by (simp_all add: usable_def judged_class_def record_of_def initial_handle_def near_box_def
      lost_result_def STATUS_OK_def STATUS_ACCELERATOR_ERROR_def project_config_def
      projectClassMap_def is_background_def)

lemma near_box_Stop:
  "judgeOne \<lparr>x1 = Fin (1/4), y1 = Fin (1/4), x2 = Fin (3/4), y2 = Fin (7/8), score = Fin (1/2),
     class_id = 2\<rparr> project_config = Stop"
  by (simp add: judgeOne_def project_config_def JudgeConfig_default_def projectClassMap_def
      isHazardClass_def isSignClass_def fp_sub_def Let_def)

section \<open>Properties\<close>

text \<open>
  The outcome of a frame is a maximum. A flush takes the more dangerous of what the latch
  answers for the frame and of the Slow that a background obstacle of the frame or the sign hold
  asks for; it publishes exactly this state with this time, and starts the next frame empty.
\<close>

theorem flush_is_maximum:
  "let H' = flush_frame wr H now;
       (L, s) = latch_update (hlatch H) (if pending_dets H = [] then None else Some (pending_dets H))
                  (length (pending_dets H)) (jconfig H) now;
       sign_until' = (if \<exists>d\<in>set (pending_dets H). isSignClass (class_id d) (classes (jconfig H))
                           \<and> judgeOne d (jconfig H) = Slow
                      then now + sign_hold_ms H else sign_slow_until_ms H)
   in hstate H' = Max {s, if pending_background_slow H then Slow else Clear,
                       if now < sign_until' then Slow else Clear}
      \<and> published_state (htx H') = hstate H' \<and> decided_at_ms (htx H') = now
      \<and> hlatch H' = L \<and> sign_slow_until_ms H' = sign_until'
      \<and> pending_dets H' = [] \<and> \<not> pending_background_slow H'"
proof -
  obtain L s where j: "frame_judgement H now = (L, s)" by fastforce
  have u: "sign_until H now = (if \<exists>d\<in>set (pending_dets H). isSignClass (class_id d) (classes (jconfig H))
      \<and> judgeOne d (jconfig H) = Slow then now + sign_hold_ms H else sign_slow_until_ms H)"
    by (simp add: sign_until_def sign_seen_def list_ex_iff)
  have m: "max s (if A \<or> B then Slow else Clear)
      = Max {s, if A then Slow else Clear, if B then Slow else Clear}" for A B
    by (cases s) (simp_all add: max_def)
  show ?thesis
    unfolding u [symmetric] frame_judgement_def [symmetric] Let_def flush_frame_eq j
    by (simp add: m)
qed

text \<open>
  C8: No dangerous region among the first 32 of a frame is lost. In any sequence of frames from the start,
  if a usable region comes after fewer than 32 others that are kept (a frame has room for
  \<open>kMaxDetections\<close>; what comes later is dropped, and nothing is claimed of it), and, read as a person when
  its classification failed and as its class otherwise, is judged Stop and is not of the class the latch holds at
  that moment, then the frame ends in Stop, whatever comes after it.
\<close>

theorem bridge_no_missed_Stop:
  fixes wr :: "'p \<Rightarrow> u8 list \<Rightarrow> 'p \<times> bool" and config hold and p :: 'p
  defines "H0 \<equiv> initial_handle config hold p"
  assumes "n < length frames" "frames ! n = (earlier @ (b, r) # later, now)"
    and "length (List.map_filter (kept H0) earlier) < kMaxDetections"
    and "usable H0 b" "judged_class H0 r = c" "c \<noteq> -1"
    and "judgeOne ((record_of H0 b)\<lparr>class_id := c\<rparr>) config = Stop"
    and "c \<noteq> latched_class (hlatch (fst (run (bridge_frame wr) H0 (take n frames))))"
  shows "snd (run (bridge_frame wr) H0 frames) ! n = Stop"
proof (rule bridge.run_Stop)
  let ?H = "fst (run (bridge_frame wr) H0 (take n frames))"
  let ?same = "\<lambda>H :: 'p handle. jconfig H = config \<and> pending_dets H = []
    \<and> min_objectness H = min_objectness H0 \<and> frame_width H = frame_width H0 \<and> frame_height H = frame_height H0"
  have fields: "min_objectness (fold observe obs H) = min_objectness H
      \<and> frame_width (fold observe obs H) = frame_width H
      \<and> frame_height (fold observe obs H) = frame_height H" for obs and H :: "'p handle"
    by (induction obs arbitrary: H) (simp_all add: observe_def)
  have same: "?same ?H"
    by (rule run_invariant)
       (simp_all add: bridge_frame_def flush_frame_eq Let_def fields H0_def initial_handle_def)
  then have k: "kept ?H = kept H0"
    by (intro ext) (auto simp: usable_def is_background_def judged_class_def record_of_def H0_def
        initial_handle_def)
  let ?d = "(record_of H0 b)\<lparr>class_id := c\<rparr>" and ?obs = "earlier @ (b, r) # later"
  have "\<not> is_background H0 r"
    using assms(6,8) by (auto simp: judgeOne_cases_raw is_background_def judged_class_def H0_def
        initial_handle_def)
  then have "kept H0 (b, r) = Some ?d" using assms(5,6) by simp
  then have "?d \<in> set (take kMaxDetections (List.map_filter (kept H0) ?obs))"
    using assms(4) by (auto simp: map_filter_def take_Cons' simp del: kept.simps)
  then have "?d \<in> set (pending_dets (fold observe ?obs ?H))"
    using same pending_observe [of ?H ?obs] by (simp only: k) simp
  then have "Stop \<in> levels (filter (\<lambda>d. class_id d \<noteq> -1) (pending_dets (fold observe ?obs ?H))) config
      (latched_class (hlatch ?H))"
    using assms(7-9) by (force simp: levels_def)
  then have "Stop \<le> Max (insert Clear (levels (filter (\<lambda>d. class_id d \<noteq> -1)
      (pending_dets (fold observe ?obs ?H))) config (latched_class (hlatch ?H))))"
    by (intro Max_ge) auto
  then show "bridge_demand ?H (frames ! n) = Stop"
    using assms(3) same by (simp add: bridge_demand_def seen_def del: Max_insert)
qed (use assms(2) in \<open>simp_all add: bridge_good_def latch_ok_def H0_def initial_handle_def
       HazardLatch_def\<close>)

theorem bridge_no_missed_Stop_witness:
  "snd (run (bridge_frame posix_write)
      (initial_handle project_config 5000 \<lparr>fd = 3, replies = [Wrote 3], wire = [], open_fds = [3]\<rparr>)
      [([(near_box, lost_result)], 100)]) ! 0 = Stop"
  by (rule bridge_no_missed_Stop [where c = 2 and b = near_box and r = lost_result
        and earlier = "[]" and later = "[]" and now = 100])
     (simp_all add: near_box_initial near_box_Stop map_filter_simps kMaxDetections_def
        HazardLatch_def del: kept.simps)

text \<open>
  C23: Only cars, persons and failed classifications stop the robot. A frame that ends in Stop
  falls into the hold of an earlier event, or contains a usable region judged Stop whose
  classification failed or gave car or person: never a background region, a sign, or the hold
  of a sign.
\<close>

theorem bridge_Stop_cause:
  assumes "pending_dets H = []" "snd (bridge_frame wr H (obs, now)) = Stop"
  shows "phase (hlatch H) = Holding \<and> now < hold_until_ms (hlatch H)
    \<or> (\<exists>(b, r)\<in>set obs. usable H b
         \<and> judgeOne ((record_of H b)\<lparr>class_id := judged_class H r\<rparr>) (jconfig H) = Stop
         \<and> (r_status r \<noteq> STATUS_OK \<or> r_class_id r = car (classes (jconfig H))
            \<or> r_class_id r = person (classes (jconfig H))))"
proof -
  let ?H = "fold observe obs H"
  let ?ds = "pending_dets ?H"
  have "snd (frame_judgement ?H now) = Stop"
    using assms(2) by (simp add: bridge_frame_def flush_state Let_def max_def split: if_splits)
  then have "snd (latch_update (hlatch H) (if ?ds = [] then None else Some ?ds) (length ?ds)
      (jconfig H) now) = Stop"
    by (simp add: frame_judgement_def)
  from latch_update_Stop_cause [OF this] consider
    "phase (hlatch H) = Holding \<and> now < hold_until_ms (hlatch H)"
    | d where "d \<in> set ?ds" "judgeOne d (jconfig H) = Stop"
    unfolding seen_pending by blast
  then show ?thesis
  proof cases
    case (2 d)
    then have "d \<in> set (List.map_filter (kept H) obs)"
      using assms(1) set_take_subset by (fastforce simp: pending_observe)
    then obtain b r where br: "(b, r) \<in> set obs" "kept H (b, r) = Some d"
      unfolding kept_set by auto
    then have d: "usable H b" "d = (record_of H b)\<lparr>class_id := judged_class H r\<rparr>"
      by (auto split: if_splits)
    then have "r_status r \<noteq> STATUS_OK \<or> r_class_id r = car (classes (jconfig H))
        \<or> r_class_id r = person (classes (jconfig H))"
      using judgeOne_class [OF 2(2)] by (auto simp: judged_class_def split: if_splits)
    then show ?thesis using br(1) d 2(2) by auto
  qed blast
qed

theorem bridge_Stop_cause_witness:
  "let H = initial_handle project_config 5000 \<lparr>fd = 3, replies = [], wire = [], open_fds = [3]\<rparr>
   in snd (bridge_frame posix_write H ([(near_box, lost_result)], 100)) = Stop
      \<and> (\<exists>(b, r)\<in>set [(near_box, lost_result)]. r_status r \<noteq> STATUS_OK)"
proof -
  let ?H = "initial_handle project_config 5000 \<lparr>fd = 3, replies = [], wire = [], open_fds = [3]\<rparr>"
  have "snd (run (bridge_frame posix_write) ?H [([(near_box, lost_result)], 100)]) ! 0 = Stop"
  proof (rule bridge.run_Stop)
    have "pending_dets (fold observe [(near_box, lost_result)] ?H)
        = [\<lparr>x1 = Fin (1/4), y1 = Fin (1/4), x2 = Fin (3/4), y2 = Fin (7/8), score = Fin (1/2), class_id = 2\<rparr>]"
      by (subst pending_observe)
         (simp_all add: near_box_initial map_filter_simps kMaxDetections_def del: kept.simps)
    then show "bridge_demand (fst (run (bridge_frame posix_write) ?H (take 0 [([(near_box, lost_result)], 100)])))
        ([([(near_box, lost_result)], 100)] ! 0) = Stop"
      by (simp add: bridge_demand_def seen_def near_box_Stop HazardLatch_def max_def)
  qed (simp_all add: bridge_good_def latch_ok_def HazardLatch_def)
  then have s: "snd (bridge_frame posix_write ?H ([(near_box, lost_result)], 100)) = Stop"
    by simp
  from bridge_Stop_cause [OF _ s] show ?thesis
    using s by (auto simp: HazardLatch_def lost_result_def STATUS_OK_def
        STATUS_ACCELERATOR_ERROR_def)
qed

text \<open>
  The buffer is a prefix. After the observations of a frame the pending detections are the
  usable regions that are not background, in order, cut after the first 32: what comes later is
  not judged, however dangerous it is.
\<close>

theorem bridge_pending_prefix:
  assumes "pending_dets H = []"
  shows "pending_dets (fold (\<lambda>(b, r) H. add_observation H b r) obs H)
    = take 32 (List.map_filter (kept H) obs)"
proof -
  have "(\<lambda>(b, r) H. add_observation H b r) = (observe :: _ \<Rightarrow> 'a handle \<Rightarrow> _)"
    by (auto simp: observe_def fun_eq_iff)
  then show ?thesis using pending_observe [of H obs] assms by (simp add: kMaxDetections_def)
qed

theorem bridge_pending_prefix_witness:
  "let H = initial_handle project_config 5000 \<lparr>fd = 3, replies = [], wire = [], open_fds = [3]\<rparr>
   in length (pending_dets (fold (\<lambda>(b, r) H. add_observation H b r)
        (replicate 33 (near_box, lost_result)) H)) = 32"
proof -
  let ?H = "initial_handle project_config 5000 \<lparr>fd = 3, replies = [], wire = [], open_fds = [3]\<rparr>"
  have "List.map_filter (kept ?H) (replicate n (near_box, lost_result))
      = replicate n (the (kept ?H (near_box, lost_result)))" for n
    by (induction n) (simp_all add: map_filter_simps near_box_initial del: kept.simps)
  then show ?thesis
    using bridge_pending_prefix [of ?H "replicate 33 (near_box, lost_result)"]
    by (simp add: Let_def)
qed

text \<open>
  Invariants of the bridge. From the start, through any interleaving of observations,
  flushes, forced stops and ticks: the buffer holds at most 32 detections and none of the
  background class, the configuration is never touched, the latch is well formed, and the state
  that the bridge holds is the state that the transmitter was given.
\<close>

theorem bridge_invariants:
  fixes wr :: "'p \<Rightarrow> u8 list \<Rightarrow> 'p \<times> bool" and config hold and p :: 'p and ops
  assumes "classes config = projectClassMap"
  defines "H \<equiv> fst (run (bridge_step wr) (initial_handle config hold p) ops)"
  shows "length (pending_dets H) \<le> 32 \<and> (\<forall>d\<in>set (pending_dets H). class_id d \<noteq> 0)
    \<and> jconfig H = config \<and> latch_ok (hlatch H) \<and> published_state (htx H) = hstate H"
proof -
  have "bridge_inv config (initial_handle config hold p)"
    by (simp add: bridge_inv_def initial_handle_def latch_ok_def HazardLatch_def
        SafetyTransmitter_def kMaxDetections_def)
  from bridge_inv_run [OF this, of wr ops] show ?thesis
    unfolding H_def bridge_inv_def using assms(1)
    by (auto simp: kMaxDetections_def projectClassMap_def)
qed

lemma project_config_classes: "classes project_config = projectClassMap"
  by (simp add: project_config_def)

theorem bridge_invariants_witness:
  "let H = fst (run (bridge_step posix_write)
        (initial_handle project_config 5000 \<lparr>fd = 3, replies = [], wire = [], open_fds = [3]\<rparr>)
        [Observe near_box lost_result, TxTick 3, Flush 5, ForceStop 9])
   in length (pending_dets H) \<le> 32 \<and> published_state (htx H) = hstate H"
  unfolding Let_def
  using bridge_invariants [OF project_config_classes, of posix_write 5000
      "\<lparr>fd = 3, replies = [], wire = [], open_fds = [3]\<rparr>"
      "[Observe near_box lost_result, TxTick 3, Flush 5, ForceStop 9]"]
  by (simp only: simp_thms)

text \<open>
  The sign hold. Once a frame at time \<open>t\<close> held a sign that is judged Slow, no flush before
  \<open>t + sign_hold_ms\<close> ends in Clear, whatever is observed and sent in between, until a forced stop
  discards the history (times not before \<open>t\<close> and no wrap-around).
\<close>

theorem bridge_sign_hold:
  assumes "sign_seen H" "unat t + unat (sign_hold_ms H) < 2 ^ 64"
    and "\<forall>op\<in>set ops. case op of
           Flush u \<Rightarrow> unat t \<le> unat u \<and> unat u + unat (sign_hold_ms H) < 2 ^ 64
         | ForceStop _ \<Rightarrow> False | _ \<Rightarrow> True"
    and "n < length ops" "ops ! n = Flush u" "unat u < unat t + unat (sign_hold_ms H)"
  shows "snd (run (bridge_step wr) (flush_frame wr H t) ops) ! n \<noteq> Clear"
proof -
  let ?hold = "sign_hold_ms H"
  let ?P = "\<lambda>G :: 'a handle. sign_hold_ms G = ?hold \<and> unat t + unat ?hold \<le> unat (sign_slow_until_ms G)"
  have until: "unat t + unat ?hold \<le> unat (sign_until G v)"
    if "?P G" "unat t \<le> unat v" "unat v + unat ?hold < 2 ^ 64" for G v
    using that by (simp add: sign_until_def unat_word_ariths)
  have start: "?P (flush_frame wr H t)"
    using assms(1,2) by (simp add: flush_frame_eq Let_def sign_until_def unat_word_ariths)
  have step: "?P (fst (bridge_step wr G op))" if "?P G" "op \<in> set ops" for G :: "'a handle" and op
    using that assms(3) until [of G]
    by (cases op) (fastforce simp: bridge_step_def flush_frame_eq Let_def)+
  let ?G = "fst (run (bridge_step wr) (flush_frame wr H t) (take n ops))"
  have "?P ?G"
    using start step set_take_subset [of n ops] by (intro run_invariant [where P = ?P]) auto
  then have "unat t + unat ?hold \<le> unat (sign_until ?G u)"
    using assms(3-5) nth_mem [OF assms(4)] by (intro until) force+
  then have "u < sign_until ?G u"
    using assms(6) by (simp add: word_less_nat_alt)
  then have "hstate (flush_frame wr ?G u) \<noteq> Clear"
    by (auto simp: flush_state max_def)
  then show ?thesis
    using assms(4,5) by (simp add: run_nth bridge_step_def Let_def)
qed

theorem bridge_sign_hold_witness:
  "let d = \<lparr>x1 = Fin (1/4), y1 = Fin (1/4), x2 = Fin (3/4), y2 = Fin (7/8), score = Fin (1/2), class_id = 3\<rparr>;
       H = (initial_handle project_config 5000 \<lparr>fd = 3, replies = [], wire = [], open_fds = [3]\<rparr>)
             \<lparr>pending_dets := [d]\<rparr>
   in snd (run (bridge_step posix_write) (flush_frame posix_write H 100) [Flush 120, TxTick 130, Flush 5099]) ! 2
      \<noteq> Clear"
  unfolding Let_def
  by (rule bridge_sign_hold [where u = 5099])
     (simp_all add: sign_seen_def initial_handle_def isSignClass_def project_config_def
        projectClassMap_def judgeOne_def JudgeConfig_default_def isHazardClass_def fp_sub_def Let_def)

text \<open>
  A forced stop lasts until the next frame is judged. After \<open>ps_safety_force_stop\<close>, through
  any observations, ticks and further forced stops, the state is Stop and every tick at any time
  answers Stop.
\<close>

theorem bridge_force_stop_lasts:
  assumes "\<forall>op\<in>set ops. \<forall>now. op \<noteq> Flush now"
  shows "hstate (fst (run (bridge_step wr) (force_stop wr H t) ops)) = Stop
    \<and> snd (tx_tick wr (htx (fst (run (bridge_step wr) (force_stop wr H t) ops))) now) = Stop"
proof -
  let ?P = "\<lambda>G :: 'a handle. hstate G = Stop \<and> published_state (htx G) = Stop"
  have "?P (fst (run (bridge_step wr) (force_stop wr H t) ops))"
  proof (rule run_invariant [where P = ?P])
    fix G :: "'a handle" and op assume "?P G" "op \<in> set ops"
    then show "?P (fst (bridge_step wr G op))"
      using assms by (cases op) (auto simp: bridge_step_def Let_def)
  qed simp
  then show ?thesis by (simp add: tx_tick_def Let_def)
qed

theorem bridge_force_stop_lasts_witness:
  "let H = force_stop posix_write
        (initial_handle project_config 5000 \<lparr>fd = 3, replies = [], wire = [], open_fds = [3]\<rparr>) 7
   in hstate (fst (run (bridge_step posix_write) H [Observe near_box lost_result, TxTick 8])) = Stop"
  unfolding Let_def by (rule bridge_force_stop_lasts [THEN conjunct1]) simp

lemma Fin_range: "Fin q \<in> Fin ` {0..1} \<longleftrightarrow> 0 \<le> q \<and> q \<le> 1"
  by auto

lemma ratio_in_range:
  assumes "fallback \<in> Fin ` {0..1}"
  shows "ratioFromEnvironment env strtof name fallback \<in> Fin ` {0..1}"
proof -
  have "w \<in> Fin ` {0..1}" if "fp_isfinite w" "\<not> fp_lt w (Fin 0)" "\<not> fp_gt w (Fin 1)" for w
    using that by (cases w) (auto simp: fp_isfinite_def not_less)
  then show ?thesis using assms
    by (auto simp: ratioFromEnvironment_def split: option.splits prod.splits)
qed

lemma safety_start_result:
  assumes "fd P = -1" "open_fds P = []"
  shows "case ps_safety_start uart_port baud P sys env strtof strtoull of
      (None, P') \<Rightarrow> open_fds P' = []
    | (Some H, P') \<Rightarrow> isOpen P' \<and> port (htx H) = P' \<and> hstate H = Stop \<and> published_state (htx H) = Stop
        \<and> {stop_height (jconfig H), slow_height (jconfig H), sign_slow_width (jconfig H),
            zone_x_min (jconfig H), zone_x_max (jconfig H), zone_y_min (jconfig H), min_score (jconfig H)}
          \<subseteq> Fin ` {0..1}
        \<and> fp_le (zone_x_min (jconfig H)) (zone_x_max (jconfig H))
        \<and> unat (sign_hold_ms H) \<le> 600000"
proof -
  let ?c = "environment_config env strtof"
  have range: "{stop_height ?c, slow_height ?c, sign_slow_width ?c, zone_x_min ?c, zone_x_max ?c,
      zone_y_min ?c, min_score ?c} \<subseteq> Fin ` {0..1}"
    by (simp add: environment_config_def Let_def JudgeConfig_default_def ratio_in_range Fin_range)
  then have le: "\<not> fp_gt (zone_x_min ?c) (zone_x_max ?c) \<Longrightarrow> fp_le (zone_x_min ?c) (zone_x_max ?c)"
    by (auto simp: not_less)
  have hold: "unat (millisecondsFromEnvironment env strtoull name 5000) \<le> 600000" for name
    by (auto simp: millisecondsFromEnvironment_def not_less word_le_nat_alt
        split: option.split prod.split)
  have fds: "open_fds P = (if isOpen P then [fd P] else [])" using assms by (simp add: isOpen_def)
  show ?thesis
  proof (cases uart_port)
    case (Some path)
    obtain P' ok where o: "uart_open P path baud sys = (P', ok)" by fastforce
    have fds': "open_fds P' = (if isOpen P' then [fd P'] else [])" "ok \<Longrightarrow> isOpen P'"
      using o assms
      by (auto simp: uart_open_def isOpen_def Let_def split: if_splits option.splits)
    then have "open_fds (uart_close P') = []" by (simp add: uart_close_def isOpen_def)
    then show ?thesis
      using Some o fds' range le hold assms(2)
      by (simp add: ps_safety_start_def Let_def initial_handle_def SafetyTransmitter_def)
  qed (use assms(2) in \<open>simp add: ps_safety_start_def\<close>)
qed

text \<open>
  The configuration cannot be poisoned. Whatever the environment holds and whatever the
  number parsers of the library answer, a start that succeeds has an open port, judges with
  thresholds that are numbers in 0..1 with a non-empty lane zone, holds a sign for at most ten
  minutes, and begins in Stop; a start that fails holds no descriptor.
\<close>

theorem bridge_start_config:
  assumes "fd P = -1" "open_fds P = []"
  shows "case ps_safety_start uart_port baud P sys env strtof strtoull of
      (None, P') \<Rightarrow> open_fds P' = []
    | (Some H, P') \<Rightarrow> isOpen P' \<and> port (htx H) = P' \<and> hstate H = Stop \<and> published_state (htx H) = Stop
        \<and> {stop_height (jconfig H), slow_height (jconfig H), sign_slow_width (jconfig H),
            zone_x_min (jconfig H), zone_x_max (jconfig H), zone_y_min (jconfig H), min_score (jconfig H)}
          \<subseteq> Fin ` {0..1}
        \<and> fp_le (zone_x_min (jconfig H)) (zone_x_max (jconfig H))
        \<and> unat (sign_hold_ms H) \<le> 600000"
  using assms by (rule safety_start_result)

theorem bridge_start_config_witness:
  "open_fds (snd (ps_safety_start (Some ''/dev/ttyPS1'') 115200
      \<lparr>fd = -1, replies = [], wire = [], open_fds = []\<rparr>
      \<lparr>new_fd = 4, getattr_ok = False, setattr_ok = True\<rparr> (\<lambda>_. None) (\<lambda>_. (Fin 0, 0, False)) (\<lambda>_. (0, 0, False)))) = []"
  using bridge_start_config [of "\<lparr>fd = -1, replies = [], wire = [], open_fds = []\<rparr>"
      "Some ''/dev/ttyPS1''" 115200 "\<lparr>new_fd = 4, getattr_ok = False, setattr_ok = True\<rparr>"
      "\<lambda>_. None" "\<lambda>_. (Fin 0, 0, False)" "\<lambda>_. (0, 0, False)"]
  by (simp add: ps_safety_start_def uart_open_def isOpen_def toSpeed_def Let_def)

end
