(* ===== verification/Tcp_Socket.thy ===== *)
theory Tcp_Socket
  imports Safety_Transmitter Roi_Protocol
begin

text \<open>
  A connected stream socket as both ends of the ROI connection see it: the bytes that arrive,
  cut and interrupted as the network pleases, the answers of the kernel to \<open>send\<close>, and the bytes
  that went out. The loops that read and write whole blocks on it stand in \<open>Tcp_Server\<close> and
  \<open>Tcp_Client\<close>; here is the interface their users rely on.
\<close>

section \<open>The socket\<close>

text \<open>
  What \<open>recv\<close> meets next: a segment (it hands out as much of it as it is asked for), an
  interruption, the end of the stream, or an error; after the last item the peer has closed.
\<close>

datatype arrival = Segment "u8 list" | RIntr | REnd | RError

text \<open>What \<open>send\<close> answers: a number of bytes taken, an interruption, 0, or an error.\<close>

datatype send_reply = Took nat | SIntr | SZero | SError

record sock =
  incoming :: "arrival list"
  send_replies :: "send_reply list"
  outgoing :: "u8 list"

datatype io_result = IoOk | IoClosed | IoError

text \<open>The bytes that can still be received, and how the stream ends.\<close>

fun stream_of :: "arrival list \<Rightarrow> u8 list" where
  "stream_of [] = []"
| "stream_of (Segment bs # as) = bs @ stream_of as"
| "stream_of (RIntr # as) = stream_of as"
| "stream_of (REnd # as) = []"
| "stream_of (RError # as) = []"

fun stream_end :: "arrival list \<Rightarrow> io_result" where
  "stream_end [] = IoClosed"
| "stream_end (Segment bs # as) = stream_end as"
| "stream_end (RIntr # as) = stream_end as"
| "stream_end (REnd # as) = IoClosed"
| "stream_end (RError # as) = IoError"

section \<open>Whole blocks\<close>

text \<open>
  A source of bytes, of which \<open>rd\<close> reads blocks of a given size: it delivers the next bytes of
  the stream however they arrive, or, when the stream ends too early, the reason.
\<close>

locale byte_source =
  fixes rd :: "'s \<Rightarrow> nat \<Rightarrow> 's \<times> u8 list \<times> io_result"
    and input :: "'s \<Rightarrow> u8 list"
    and ending :: "'s \<Rightarrow> io_result"
    and live :: "'s \<Rightarrow> bool"
  assumes rd_ok: "live s \<Longrightarrow> n \<le> length (input s) \<Longrightarrow>
      rd s n = (s', bs, r) \<Longrightarrow> r = IoOk \<and> bs = take n (input s)
        \<and> live s' \<and> input s' = drop n (input s) \<and> ending s' = ending s"
    and rd_short: "live s \<Longrightarrow> length (input s) < n \<Longrightarrow>
      rd s n = (s', bs, r) \<Longrightarrow> r = ending s \<and> r \<noteq> IoOk \<and> bs = input s"
begin

lemma rd_cases [consumes 1, case_names ok short]:
  assumes "live s"
  obtains (ok) s' where "n \<le> length (input s)" "rd s n = (s', take n (input s), IoOk)" "live s'"
      "input s' = drop n (input s)" "ending s' = ending s"
  | (short) s' where "length (input s) < n" "rd s n = (s', input s, ending s)" "ending s \<noteq> IoOk"
proof (cases "n \<le> length (input s)")
  case True
  obtain s' bs r where r: "rd s n = (s', bs, r)" by (metis prod_cases3)
  show ?thesis using rd_ok [OF assms True r] r True by (intro ok [of s']) simp_all
next
  case False
  obtain s' bs r where r: "rd s n = (s', bs, r)" by (metis prod_cases3)
  have less: "length (input s) < n" using False by simp
  show ?thesis using rd_short [OF assms less r] r less by (intro short [of s']) auto
qed

text \<open>A block that stands at the front of the stream is what is read.\<close>

lemma rd_block:
  assumes "live s" "input s = bs @ rest"
  obtains s' where "rd s (length bs) = (s', bs, IoOk)" "live s'" "input s' = rest" "ending s' = ending s"
using assms(1)
proof (cases rule: rd_cases [where n = "length bs"])
  case (ok s')
  then show ?thesis using assms(2) that [of s'] by simp
next
  case (short s')
  then show ?thesis using assms(2) by simp
qed

end

section \<open>The loops\<close>

text \<open>
  The two loops that the server and the client share up to the handling of their results: the
  bytes received before it ended, the arrivals left, and how it ended.
\<close>

fun recv_loop :: "nat \<Rightarrow> arrival list \<Rightarrow> u8 list \<times> arrival list \<times> io_result" where
  "recv_loop 0 as = ([], as, IoOk)"
| "recv_loop (Suc n) [] = ([], [], IoClosed)"
| "recv_loop (Suc n) (RIntr # as) = recv_loop (Suc n) as"
| "recv_loop (Suc n) (REnd # as) = ([], as, IoClosed)"
| "recv_loop (Suc n) (RError # as) = ([], as, IoError)"
| "recv_loop (Suc n) (Segment bs # as) =
     (if Suc n < length bs then (take (Suc n) bs, Segment (drop (Suc n) bs) # as, IoOk)
      else case recv_loop (Suc n - length bs) as of (got, as', r) \<Rightarrow> (bs @ got, as', r))"

fun send_loop :: "u8 list \<Rightarrow> send_reply list \<Rightarrow> u8 list \<times> send_reply list \<times> io_result" where
  "send_loop [] rs = ([], rs, IoOk)"
| "send_loop (b # data) [] = ([], [], IoError)"
| "send_loop (b # data) (SIntr # rs) = send_loop (b # data) rs"
| "send_loop (b # data) (SZero # rs) = ([], rs, IoClosed)"
| "send_loop (b # data) (SError # rs) = ([], rs, IoError)"
| "send_loop (b # data) (Took n # rs) =
     (if n = 0 then ([], rs, IoClosed)
      else case send_loop (drop n (b # data)) rs of (out, rs', r) \<Rightarrow>
        (take n (b # data) @ out, rs', r))"

lemma recv_loop_ok:
  "n \<le> length (stream_of as) \<Longrightarrow> recv_loop n as = (bs, as', r) \<Longrightarrow>
     r = IoOk \<and> bs = take n (stream_of as) \<and> stream_of as' = drop n (stream_of as)
     \<and> stream_end as' = stream_end as"
proof (induction n as arbitrary: bs as' r rule: recv_loop.induct)
  case (6 n seg as)
  show ?case
  proof (cases "Suc n < length seg")
    case True
    then show ?thesis using 6(3) by auto
  next
    case False
    obtain got bs' r' where l: "recv_loop (Suc n - length seg) as = (got, bs', r')" by (metis prod_cases3)
    have "Suc n - length seg \<le> length (stream_of as)" using 6(2) False by simp
    from 6(1) [OF False this l] show ?thesis using 6(3) l False by auto
  qed
qed auto

lemma recv_loop_short:
  "length (stream_of as) < n \<Longrightarrow> recv_loop n as = (bs, as', r) \<Longrightarrow>
     r = stream_end as \<and> bs = stream_of as"
proof (induction n as arbitrary: bs as' r rule: recv_loop.induct)
  case (6 n seg as)
  have False': "\<not> Suc n < length seg" using 6(2) by simp
  obtain got bs' r' where l: "recv_loop (Suc n - length seg) as = (got, bs', r')" by (metis prod_cases3)
  have "length (stream_of as) < Suc n - length seg" using 6(2) by simp
  from 6(1) [OF False' this l] show ?case using 6(3) l False' by auto
qed auto

lemma stream_end_not_ok [simp]: "stream_end as \<noteq> IoOk" "IoOk \<noteq> stream_end as"
  by (induction as rule: stream_end.induct) auto

lemma send_loop_out:
  "send_loop bs rs = (out, rs', r) \<Longrightarrow>
     (if r = IoOk then out = bs else \<exists>n<length bs. out = take n bs)"
proof (induction bs rs arbitrary: out rs' r rule: send_loop.induct)
  case (6 b data n rs)
  show ?case
  proof (cases "n = 0")
    case False
    obtain out' rs'' r' where l: "send_loop (drop n (b # data)) rs = (out', rs'', r')"
      by (metis prod_cases3)
    have out: "out = take n (b # data) @ out'" "r = r'" using 6(2) l False by simp_all
    show ?thesis
    proof (cases "r = IoOk")
      case True then show ?thesis using 6(1) [OF False l] out by simp
    next
      case bad: False
      then obtain k where k: "k < length (b # data) - n" "out' = take k (drop n (b # data))"
        using 6(1) [OF False l] out(2) by auto
      then have "out = take (n + k) (b # data)" "n + k < length (b # data)"
        using out(1) by (simp_all add: take_add)
      then show ?thesis using bad by auto
    qed
  qed (use 6(2) in auto)
qed auto

end
