(* ===== verification/Tcp_Server.thy ===== *)
theory Tcp_Server
  imports Tcp_Socket
begin

text \<open>
  \<open>network/tcp_roi_server\<close>: the server end on the Arty PS. The answers of the socket calls are
  arguments; the descriptors that the process holds are kept to show that no path leaks one.
\<close>

section \<open>State\<close>

datatype tcp_status = TcpOk | PeerClosed | InvalidArgument | SystemError | ProtocolError

fun io_status :: "io_result \<Rightarrow> tcp_status" where
  "io_status IoOk = TcpOk"
| "io_status IoClosed = PeerClosed"
| "io_status IoError = SystemError"

record tcp_server =
  listen_fd :: int
  client_fd :: int
  held_fds :: "int list"
  client :: sock

record server_config =
  bind_address :: "string option"
  server_port :: u16
  backlog :: int

text \<open>The answers to \<open>socket\<close>, \<open>setsockopt\<close>, \<open>inet_pton\<close>, \<open>bind\<close> and \<open>listen\<close>.\<close>

record listen_reply =
  socket_fd :: int
  reuse_ok :: bool
  pton_ok :: bool
  bind_ok :: bool
  listen_ok :: bool

section \<open>Reading and writing whole blocks\<close>

text \<open>\<open>receive_all\<close>: the bytes put into the buffer, and the status.\<close>

definition receive_all :: "sock \<Rightarrow> nat \<Rightarrow> sock \<times> u8 list \<times> tcp_status" where
  "receive_all k n = (case recv_loop n (incoming k) of (bs, as, r) \<Rightarrow>
     (k\<lparr>incoming := as\<rparr>, bs, io_status r))"

definition send_all :: "sock \<Rightarrow> u8 list \<Rightarrow> sock \<times> tcp_status" where
  "send_all k buffer = (case send_loop buffer (send_replies k) of (out, rs, r) \<Rightarrow>
     (k\<lparr>send_replies := rs, outgoing := outgoing k @ out\<rparr>, io_status r))"

section \<open>Operations\<close>

definition server_init :: "tcp_server \<Rightarrow> tcp_server" where
  "server_init S = S\<lparr>listen_fd := -1, client_fd := -1\<rparr>"

definition server_listen ::
  "tcp_server \<Rightarrow> server_config \<Rightarrow> listen_reply \<Rightarrow> tcp_server \<times> tcp_status" where
  "server_listen S config sys =
     (if backlog config \<le> 0 then (S, InvalidArgument)
      else if listen_fd S \<noteq> -1 then (S, InvalidArgument)
      else if socket_fd sys < 0 then (S, SystemError)
      else let S = S\<lparr>held_fds := socket_fd sys # held_fds S\<rparr>;
               close_socket = S\<lparr>held_fds := remove1 (socket_fd sys) (held_fds S)\<rparr> in
      if \<not> reuse_ok sys then (close_socket, SystemError)
      else if bind_address config \<noteq> None \<and> \<not> pton_ok sys then (close_socket, InvalidArgument)
      else if \<not> bind_ok sys then (close_socket, SystemError)
      else if \<not> listen_ok sys then (close_socket, SystemError)
      else (S\<lparr>listen_fd := socket_fd sys\<rparr>, TcpOk))"

text \<open>\<open>accept\<close> answers a descriptor and the connection behind it.\<close>

definition server_accept :: "tcp_server \<Rightarrow> int \<Rightarrow> sock \<Rightarrow> tcp_server \<times> tcp_status" where
  "server_accept S conn_fd conn =
     (if listen_fd S < 0 then (S, InvalidArgument)
      else if client_fd S \<ge> 0 then (S, InvalidArgument)
      else if conn_fd < 0 then (S, SystemError)
      else (S\<lparr>client_fd := conn_fd, client := conn, held_fds := conn_fd # held_fds S\<rparr>, TcpOk))"

definition server_set_no_delay :: "tcp_server \<Rightarrow> bool \<Rightarrow> bool \<Rightarrow> tcp_status" where
  "server_set_no_delay S enable setsockopt_ok =
     (if client_fd S < 0 then InvalidArgument
      else if \<not> setsockopt_ok then SystemError else TcpOk)"

text \<open>What \<open>receive_request\<close> has written through its out parameters when it returns.\<close>

record request =
  req_header :: "roi_header option"
  req_bbox :: "roi_bbox option"
  req_image :: "u8 list"

definition receive_request :: "tcp_server \<Rightarrow> tcp_server \<times> tcp_status \<times> request" where
  "receive_request S =
     (let q = \<lparr>req_header = None, req_bbox = None, req_image = []\<rparr> in
      if client_fd S < 0 then (S, InvalidArgument, q)
      else case receive_all (client S) HEADER_SIZE of (k, header_buffer, status) \<Rightarrow>
        let S = S\<lparr>client := k\<rparr> in
        if status \<noteq> TcpOk then (S, status, q)
        else let h = decode_header header_buffer; q = q\<lparr>req_header := Some h\<rparr> in
        if \<not> is_valid_request_header h then (S, ProtocolError, q)
        else case receive_all (client S) BBOX_PAYLOAD_SIZE of (k, bbox_buffer, status) \<Rightarrow>
          let S = S\<lparr>client := k\<rparr> in
          if status \<noteq> TcpOk then (S, status, q)
          else let q = q\<lparr>req_bbox := Some (decode_bbox bbox_buffer)\<rparr> in
          case receive_all (client S) IMAGE_PAYLOAD_SIZE of (k, img, status) \<Rightarrow>
            (S\<lparr>client := k\<rparr>, status, q\<lparr>req_image := img\<rparr>))"

definition response_header :: "roi_header \<Rightarrow> roi_header" where
  "response_header rh = \<lparr>h_magic = ROI_MAGIC, h_version = ROI_VERSION, h_type = MESSAGE_RESPONSE,
     h_frame_id = h_frame_id rh, h_roi_id = h_roi_id rh,
     h_payload_size = word_of_nat RESULT_PAYLOAD_SIZE\<rparr>"

text \<open>\<open>buf\<close> is the uninitialised \<open>response_buffer\<close>.\<close>

definition send_result ::
  "u8 list \<Rightarrow> tcp_server \<Rightarrow> roi_header \<Rightarrow> roi_result \<Rightarrow> tcp_server \<times> tcp_status" where
  "send_result buf S rh result =
     (if client_fd S < 0 then (S, InvalidArgument)
      else if r_confidence_ppm result > CONFIDENCE_PPM_MAX then (S, InvalidArgument)
      else let b = encode_header buf (response_header rh);
               b = take HEADER_SIZE b @ encode_result (drop HEADER_SIZE b) result
           in case send_all (client S) b of (k, status) \<Rightarrow> (S\<lparr>client := k\<rparr>, status))"

definition server_disconnect :: "tcp_server \<Rightarrow> tcp_server" where
  "server_disconnect S =
     (if client_fd S \<ge> 0 then S\<lparr>held_fds := remove1 (client_fd S) (held_fds S), client_fd := -1\<rparr> else S)"

definition server_close :: "tcp_server \<Rightarrow> tcp_server" where
  "server_close S =
     (let S = server_disconnect S in
      if listen_fd S \<ge> 0 then S\<lparr>held_fds := remove1 (listen_fd S) (held_fds S), listen_fd := -1\<rparr> else S)"

section \<open>The server's loops provide the interfaces\<close>

fun status_io :: "tcp_status \<Rightarrow> io_result" where
  "status_io TcpOk = IoOk"
| "status_io PeerClosed = IoClosed"
| "status_io _ = IoError"

lemma io_status_inverse [simp]: "status_io (io_status r) = r" "io_status r = TcpOk \<longleftrightarrow> r = IoOk"
  by (cases r; simp)+

definition server_read :: "sock \<Rightarrow> nat \<Rightarrow> sock \<times> u8 list \<times> io_result" where
  "server_read k n = (case receive_all k n of (k', bs, st) \<Rightarrow> (k', bs, status_io st))"

definition server_write :: "sock \<Rightarrow> u8 list \<Rightarrow> sock \<times> bool" where
  "server_write k bs = (case send_all k bs of (k', st) \<Rightarrow> (k', st = TcpOk))"

interpretation server_in: byte_source server_read "\<lambda>k. stream_of (incoming k)"
  "\<lambda>k. stream_end (incoming k)" "\<lambda>_. True"
proof
  fix k k' :: sock and n bs r
  show "n \<le> length (stream_of (incoming k)) \<Longrightarrow> server_read k n = (k', bs, r) \<Longrightarrow>
      r = IoOk \<and> bs = take n (stream_of (incoming k)) \<and> True
      \<and> stream_of (incoming k') = drop n (stream_of (incoming k))
      \<and> stream_end (incoming k') = stream_end (incoming k)"
    using recv_loop_ok [of n "incoming k"]
    by (auto simp: server_read_def receive_all_def split: prod.splits)
  show "length (stream_of (incoming k)) < n \<Longrightarrow> server_read k n = (k', bs, r) \<Longrightarrow>
      r = stream_end (incoming k) \<and> r \<noteq> IoOk \<and> bs = stream_of (incoming k)"
    using recv_loop_short [of "incoming k" n]
    by (auto simp: server_read_def receive_all_def split: prod.splits)
qed

interpretation server_out: byte_port server_write outgoing
proof
  fix k k' :: sock and bs
  show "server_write k bs = (k', True) \<Longrightarrow> outgoing k' = outgoing k @ bs"
    using send_loop_out [of bs "send_replies k"]
    by (auto simp: server_write_def send_all_def split: prod.splits if_splits)
  show "server_write k bs = (k', False) \<Longrightarrow> bs \<noteq> [] \<Longrightarrow> \<exists>n<length bs. outgoing k' = outgoing k @ take n bs"
    using send_loop_out [of bs "send_replies k"]
    by (auto simp: server_write_def send_all_def split: prod.splits if_splits)
qed

section \<open>Requests and responses as bytes\<close>

definition response_bytes :: "roi_header \<Rightarrow> roi_result \<Rightarrow> u8 list" where
  "response_bytes rh r = header_bytes (response_header rh) @ result_bytes r"

lemma receive_all_server_read:
  "server_read k n = (k', bs, r) \<Longrightarrow> receive_all k n = (k', bs, io_status r)"
  by (auto simp: server_read_def receive_all_def split: prod.splits)

lemma send_result_bytes:
  assumes "length buf = HEADER_SIZE + RESULT_PAYLOAD_SIZE" "0 \<le> client_fd S"
    "r_confidence_ppm r \<le> CONFIDENCE_PPM_MAX"
  shows "send_result buf S rh r = (case send_all (client S) (response_bytes rh r) of (k, status) \<Rightarrow>
     (S\<lparr>client := k\<rparr>, status))"
  using assms leD [OF assms(3)]
  by (simp add: send_result_def Let_def header.enc_bytes result.enc_bytes response_bytes_def
      RESULT_PAYLOAD_SIZE_def)

text \<open>A block read that fails has found too little; one that succeeds has the next bytes.\<close>

lemma receive_all_cases:
  fixes k :: sock
  defines "s \<equiv> stream_of (incoming k)"
  obtains (ok) k' where "n \<le> length s" "receive_all k n = (k', take n s, TcpOk)"
      "stream_of (incoming k') = drop n s" "stream_end (incoming k') = stream_end (incoming k)"
      "k' = k\<lparr>incoming := incoming k'\<rparr>"
  | (short) k' where "length s < n" "receive_all k n = (k', s, io_status (stream_end (incoming k)))"
      "io_status (stream_end (incoming k)) \<noteq> TcpOk" "k' = k\<lparr>incoming := incoming k'\<rparr>"
proof -
  have keep: "k' = k\<lparr>incoming := incoming k'\<rparr>" if "server_read k n = (k', bs, r)" for k' bs r
    using that by (auto simp: server_read_def receive_all_def split: prod.splits)
  show ?thesis using TrueI
  proof (cases rule: server_in.rd_cases [where s = k and n = n])
    case (ok k')
    then show ?thesis using keep [OF ok(2)] receive_all_server_read [OF ok(2)] that(1) [of k']
      by (simp add: s_def)
  next
    case (short k')
    then show ?thesis using keep [OF short(2)] receive_all_server_read [OF short(2)] that(2) [of k']
      by (simp add: s_def)
  qed
qed

lemma receive_request_stream:
  fixes S :: tcp_server
  defines "s \<equiv> stream_of (incoming (client S))"
    and "e \<equiv> io_status (stream_end (incoming (client S)))"
  assumes "0 \<le> client_fd S" "receive_request S = (S', st, q)"
  shows "st = (if length s < HEADER_SIZE then e
      else if \<not> is_valid_request_header (decode_header s) then ProtocolError
      else if length s < HEADER_SIZE + REQUEST_PAYLOAD_SIZE then e else TcpOk)
    \<and> (st = TcpOk \<longrightarrow> q = \<lparr>req_header = Some (decode_header s),
          req_bbox = Some (decode_bbox (drop HEADER_SIZE s)),
          req_image = take IMAGE_PAYLOAD_SIZE (drop (HEADER_SIZE + BBOX_PAYLOAD_SIZE) s)\<rparr>
        \<and> stream_of (incoming (client S')) = drop (HEADER_SIZE + REQUEST_PAYLOAD_SIZE) s
        \<and> S' = S\<lparr>client := (client S)\<lparr>incoming := incoming (client S')\<rparr>\<rparr>)"
proof (cases rule: receive_all_cases [where k = "client S" and n = HEADER_SIZE])
  case (short k')
  then show ?thesis using assms(3,4)
    by (auto simp: receive_request_def Let_def s_def e_def split: if_splits)
next
  case (ok k1)
  note h = this [folded s_def]
  show ?thesis
  proof (cases "is_valid_request_header (decode_header s)")
    case False
    then show ?thesis using assms(3,4) h
      by (auto simp: receive_request_def Let_def header.dec_take)
  next
    case valid: True
    show ?thesis
    proof (cases rule: receive_all_cases [where k = k1 and n = BBOX_PAYLOAD_SIZE])
      case (short k2)
      then show ?thesis using assms(3,4) h valid
        by (auto simp: receive_request_def Let_def header.dec_take e_def REQUEST_PAYLOAD_SIZE_def)
    next
      case (ok k2)
      note b = this [unfolded h(3)]
      show ?thesis
      proof (cases rule: receive_all_cases [where k = k2 and n = IMAGE_PAYLOAD_SIZE])
        case (short k3)
        then show ?thesis using assms(3,4) h valid b
          by (auto simp: receive_request_def Let_def header.dec_take bbox.dec_take e_def
              REQUEST_PAYLOAD_SIZE_def)
      next
        case (ok k3)
        then have "length s \<ge> HEADER_SIZE + REQUEST_PAYLOAD_SIZE"
          using b h(1) by (simp add: REQUEST_PAYLOAD_SIZE_def)
        moreover have "client S' = k3" "S' = S\<lparr>client := k3\<rparr>" "st = TcpOk"
          "q = \<lparr>req_header = Some (decode_header s), req_bbox = Some (decode_bbox (drop HEADER_SIZE s)),
             req_image = take IMAGE_PAYLOAD_SIZE (drop (HEADER_SIZE + BBOX_PAYLOAD_SIZE) s)\<rparr>"
          using assms(3,4) h valid b ok
          by (auto simp: receive_request_def Let_def header.dec_take bbox.dec_take add.commute)
        moreover have "stream_of (incoming k3) = drop (HEADER_SIZE + REQUEST_PAYLOAD_SIZE) s"
          using ok(3) b(3) by (simp add: REQUEST_PAYLOAD_SIZE_def add.commute add.left_commute)
        moreover have "k3 = (client S)\<lparr>incoming := incoming k3\<rparr>"
          using ok(5) b(5) h(5) by (metis sock.surjective sock.update_convs(1))
        ultimately show ?thesis using h(1) valid by simp
      qed
    qed
  qed
qed

section \<open>Properties\<close>

text \<open>
  The request parser depends on the byte stream alone. However the network cuts, delays and
  interrupts the stream, \<open>receive_request\<close> answers by what the bytes say: a short stream gives the
  way it ended, a bad header a protocol error, and a whole request is delivered with its header,
  box and picture, leaving exactly the bytes behind it for the next request.
\<close>

theorem receive_request_stream_only:
  assumes "0 \<le> client_fd S" "receive_request S = (S', st, q)"
    and "s = stream_of (incoming (client S))" "e = io_status (stream_end (incoming (client S)))"
  shows "st = (if length s < HEADER_SIZE then e
      else if \<not> is_valid_request_header (decode_header s) then ProtocolError
      else if length s < HEADER_SIZE + REQUEST_PAYLOAD_SIZE then e else TcpOk)
    \<and> (st = TcpOk \<longrightarrow> q = \<lparr>req_header = Some (decode_header s),
          req_bbox = Some (decode_bbox (drop HEADER_SIZE s)),
          req_image = take IMAGE_PAYLOAD_SIZE (drop (HEADER_SIZE + BBOX_PAYLOAD_SIZE) s)\<rparr>
        \<and> stream_of (incoming (client S')) = drop (HEADER_SIZE + REQUEST_PAYLOAD_SIZE) s)"
  using receive_request_stream [OF assms(1,2)] unfolding assms(3,4) by blast

theorem receive_request_stream_only_witness:
  "fst (snd (receive_request \<lparr>listen_fd = 3, client_fd = 4, held_fds = [4, 3],
      client = \<lparr>incoming = [Segment [0x52], RIntr, Segment (replicate 12 0), Segment (replicate 9 1)],
                send_replies = [], outgoing = []\<rparr>\<rparr>)) = ProtocolError"
proof -
  let ?S = "\<lparr>listen_fd = 3, client_fd = 4, held_fds = [4, 3],
      client = \<lparr>incoming = [Segment [0x52], RIntr, Segment (replicate 12 0), Segment (replicate 9 1)],
                send_replies = [], outgoing = []\<rparr>\<rparr>"
  let ?s = "[0x52] @ replicate 12 0 @ replicate 9 (1 :: u8)"
  have "\<not> is_valid_request_header (decode_header ?s)"
    using protocol_exact [of ?s ?s] by (simp add: HEADER_SIZE_def numeral_eq_Suc)
  then show ?thesis
    using receive_request_stream_only [of ?S "fst (receive_request ?S)" "fst (snd (receive_request ?S))"
        "snd (snd (receive_request ?S))" ?s PeerClosed]
    by (simp add: HEADER_SIZE_def)
qed

end
