(* ===== verification/Tcp_Client.thy ===== *)
theory Tcp_Client
  imports Tcp_Server
begin

text \<open>
  \<open>network/TcpRoiClient\<close>: the Jetson end of the connection. A picture is OpenCV's matrix as the
  client uses it: its shape, whether its rows lie without gaps, and the pixel bytes in order; a
  clone has the same pixels without gaps. Any failure of a transfer closes the connection.
\<close>

section \<open>State\<close>

datatype client_status =
    Ok | CInvalidArgument | NotConnected | CSystemError | CPeerClosed | CProtocolError

record classification =
  c_frame_id :: u32
  c_roi_id :: u32
  c_status :: u32
  c_class_id :: u32
  c_confidence_ppm :: u32

record pixel_mat =
  is_8uc3 :: bool
  cols :: int
  rows :: int
  continuous :: bool
  pixels :: "u8 list"

definition mat_empty :: "pixel_mat \<Rightarrow> bool" where
  "mat_empty m \<longleftrightarrow> pixels m = []"

definition mat_clone :: "pixel_mat \<Rightarrow> pixel_mat" where
  "mat_clone m = m\<lparr>continuous := True\<rparr>"

text \<open>The float members are bit patterns, as they are sent.\<close>

record prepared_roi =
  p_frame_id :: u32
  p_roi_id :: u32
  p_x :: u32
  p_y :: u32
  p_width :: u32
  p_height :: u32
  p_objectness :: u32
  p_frame_width :: u32
  p_frame_height :: u32
  rgb_pixels :: pixel_mat

record tcp_client =
  sock_fd :: int
  c_held :: "int list"
  peer :: sock

section \<open>Connection\<close>

definition isConnected :: "tcp_client \<Rightarrow> bool" where
  "isConnected C \<longleftrightarrow> 0 \<le> sock_fd C"

definition client_disconnect :: "tcp_client \<Rightarrow> tcp_client" where
  "client_disconnect C =
     (if sock_fd C \<ge> 0 then C\<lparr>c_held := remove1 (sock_fd C) (c_held C), sock_fd := -1\<rparr> else C)"

text \<open>The answers to \<open>socket\<close>, \<open>inet_pton\<close> and \<open>connect\<close>, and the connection behind it.\<close>

record connect_reply =
  c_new_fd :: int
  c_pton_ok :: bool
  c_connect_ok :: bool
  c_conn :: sock

definition connectToServer ::
  "tcp_client \<Rightarrow> string \<Rightarrow> u16 \<Rightarrow> connect_reply \<Rightarrow> tcp_client \<times> client_status" where
  "connectToServer C address remote_port sys =
     (if address = [] \<or> remote_port = 0 then (C, CInvalidArgument)
      else if isConnected C then (C, CInvalidArgument)
      else if c_new_fd sys < 0 then (C, CSystemError)
      else let C = C\<lparr>c_held := c_new_fd sys # c_held C\<rparr>;
               close_new = C\<lparr>c_held := remove1 (c_new_fd sys) (c_held C)\<rparr> in
      if \<not> c_pton_ok sys then (close_new, CInvalidArgument)
      else if \<not> c_connect_ok sys then (close_new, CSystemError)
      else (C\<lparr>sock_fd := c_new_fd sys, peer := c_conn sys\<rparr>, Ok))"

definition setNoDelay :: "tcp_client \<Rightarrow> bool \<Rightarrow> bool \<Rightarrow> client_status" where
  "setNoDelay C enable setsockopt_ok =
     (if \<not> isConnected C then NotConnected else if \<not> setsockopt_ok then CSystemError else Ok)"

section \<open>Transfers\<close>

definition sendAll :: "tcp_client \<Rightarrow> u8 list \<Rightarrow> tcp_client \<times> client_status" where
  "sendAll C data =
     (if \<not> isConnected C then (C, NotConnected)
      else case send_loop data (send_replies (peer C)) of (out, rs, r) \<Rightarrow>
        let C = C\<lparr>peer := (peer C)\<lparr>send_replies := rs, outgoing := outgoing (peer C) @ out\<rparr>\<rparr> in
        (case r of IoOk \<Rightarrow> (C, Ok)
         | IoClosed \<Rightarrow> (client_disconnect C, CPeerClosed)
         | IoError \<Rightarrow> (client_disconnect C, CSystemError)))"

definition receiveAll :: "tcp_client \<Rightarrow> nat \<Rightarrow> tcp_client \<times> u8 list \<times> client_status" where
  "receiveAll C n =
     (if \<not> isConnected C then (C, [], NotConnected)
      else case recv_loop n (incoming (peer C)) of (bs, as, r) \<Rightarrow>
        let C = C\<lparr>peer := (peer C)\<lparr>incoming := as\<rparr>\<rparr> in
        (case r of IoOk \<Rightarrow> (C, bs, Ok)
         | IoClosed \<Rightarrow> (client_disconnect C, bs, CPeerClosed)
         | IoError \<Rightarrow> (client_disconnect C, bs, CSystemError)))"

section \<open>classify\<close>

definition request_header :: "prepared_roi \<Rightarrow> roi_header" where
  "request_header roi = \<lparr>h_magic = ROI_MAGIC, h_version = ROI_VERSION, h_type = MESSAGE_REQUEST,
     h_frame_id = p_frame_id roi, h_roi_id = p_roi_id roi,
     h_payload_size = word_of_nat REQUEST_PAYLOAD_SIZE\<rparr>"

definition request_bbox :: "prepared_roi \<Rightarrow> roi_bbox" where
  "request_bbox roi = \<lparr>b_x = p_x roi, b_y = p_y roi, b_width = p_width roi, b_height = p_height roi,
     b_objectness = p_objectness roi, b_frame_width = p_frame_width roi,
     b_frame_height = p_frame_height roi\<rparr>"

text \<open>The checks and the three transfers of the request.\<close>

definition classify_send :: "tcp_client \<Rightarrow> prepared_roi \<Rightarrow> tcp_client \<times> client_status" where
  "classify_send C roi =
     (if \<not> isConnected C then (C, NotConnected)
      else if mat_empty (rgb_pixels roi) \<or> \<not> is_8uc3 (rgb_pixels roi)
              \<or> cols (rgb_pixels roi) \<noteq> 96 \<or> rows (rgb_pixels roi) \<noteq> 96 then (C, CInvalidArgument)
      else let continuous_roi = (if continuous (rgb_pixels roi) then rgb_pixels roi
                                 else mat_clone (rgb_pixels roi)) in
      if mat_empty continuous_roi then (C, CSystemError)
      else case sendAll C (encode_header (replicate HEADER_SIZE 0) (request_header roi)) of (C, st) \<Rightarrow>
        if st \<noteq> Ok then (C, st)
        else case sendAll C (encode_bbox (replicate BBOX_PAYLOAD_SIZE 0) (request_bbox roi)) of (C, st) \<Rightarrow>
          if st \<noteq> Ok then (C, st)
          else sendAll C (take IMAGE_PAYLOAD_SIZE (pixels continuous_roi)))"

definition response_acceptable :: "roi_result \<Rightarrow> bool" where
  "response_acceptable w \<longleftrightarrow>
     \<not> (r_status w > STATUS_POSTPROCESS_ERROR \<or> r_confidence_ppm w > CONFIDENCE_PPM_MAX)
     \<and> \<not> (r_status w = STATUS_OK \<and> r_class_id w = INVALID_CLASS_ID)
     \<and> \<not> (r_status w \<noteq> STATUS_OK \<and> (r_class_id w \<noteq> INVALID_CLASS_ID \<or> r_confidence_ppm w \<noteq> 0))"

definition classify_receive ::
  "tcp_client \<Rightarrow> prepared_roi \<Rightarrow> classification \<Rightarrow> tcp_client \<times> client_status \<times> classification" where
  "classify_receive C roi result =
     (case receiveAll C HEADER_SIZE of (C, hb, st) \<Rightarrow>
        if st \<noteq> Ok then (C, st, result)
        else let h = decode_header hb in
        if \<not> is_valid_response_header h \<or> h_frame_id h \<noteq> p_frame_id roi \<or> h_roi_id h \<noteq> p_roi_id roi
        then (client_disconnect C, CProtocolError, result)
        else case receiveAll C RESULT_PAYLOAD_SIZE of (C, rb, st) \<Rightarrow>
          if st \<noteq> Ok then (C, st, result)
          else let w = decode_result rb in
          if \<not> response_acceptable w then (client_disconnect C, CProtocolError, result)
          else (C, Ok, \<lparr>c_frame_id = h_frame_id h, c_roi_id = h_roi_id h, c_status = r_status w,
                        c_class_id = r_class_id w, c_confidence_ppm = r_confidence_ppm w\<rparr>))"

definition classify ::
  "tcp_client \<Rightarrow> prepared_roi \<Rightarrow> classification \<Rightarrow> tcp_client \<times> client_status \<times> classification" where
  "classify C roi result = (case classify_send C roi of (C, st) \<Rightarrow>
     if st \<noteq> Ok then (C, st, result) else classify_receive C roi result)"

section \<open>The client's loops provide the interfaces\<close>

fun client_io :: "client_status \<Rightarrow> io_result" where
  "client_io Ok = IoOk"
| "client_io CPeerClosed = IoClosed"
| "client_io _ = IoError"

definition client_read :: "tcp_client \<Rightarrow> nat \<Rightarrow> tcp_client \<times> u8 list \<times> io_result" where
  "client_read C n = (case receiveAll C n of (C', bs, st) \<Rightarrow> (C', bs, client_io st))"

definition client_write :: "tcp_client \<Rightarrow> u8 list \<Rightarrow> tcp_client \<times> bool" where
  "client_write C bs = (case sendAll C bs of (C', st) \<Rightarrow> (C', st = Ok))"

lemma client_disconnect_simps [simp]:
  "peer (client_disconnect C) = peer C" "\<not> isConnected (client_disconnect C)"
  by (simp_all add: client_disconnect_def isConnected_def)

interpretation client_in: byte_source client_read "\<lambda>C. stream_of (incoming (peer C))"
  "\<lambda>C. stream_end (incoming (peer C))" isConnected
proof
  fix C C' :: tcp_client and n bs r
  assume live: "isConnected C" and r: "client_read C n = (C', bs, r)"
  obtain got as q where l: "recv_loop n (incoming (peer C)) = (got, as, q)" by (metis prod_cases3)
  show "r = IoOk \<and> bs = take n (stream_of (incoming (peer C))) \<and> isConnected C'
      \<and> stream_of (incoming (peer C')) = drop n (stream_of (incoming (peer C)))
      \<and> stream_end (incoming (peer C')) = stream_end (incoming (peer C))"
    if "n \<le> length (stream_of (incoming (peer C)))"
    using recv_loop_ok [OF that l] live r l
    by (auto simp: client_read_def receiveAll_def isConnected_def Let_def)
  show "r = stream_end (incoming (peer C)) \<and> r \<noteq> IoOk \<and> bs = stream_of (incoming (peer C))"
    if "length (stream_of (incoming (peer C))) < n"
    using recv_loop_short [OF that l] live r l
    by (auto simp: client_read_def receiveAll_def Let_def split: io_result.splits)
qed

interpretation client_out: byte_port client_write "\<lambda>C. outgoing (peer C)"
proof
  fix C C' :: tcp_client and bs
  obtain out rs q where l: "send_loop bs (send_replies (peer C)) = (out, rs, q)" by (metis prod_cases3)
  show "client_write C bs = (C', True) \<Longrightarrow> outgoing (peer C') = outgoing (peer C) @ bs"
    using send_loop_out [OF l] l
    by (auto simp: client_write_def sendAll_def Let_def split: if_splits io_result.splits)
  show "client_write C bs = (C', False) \<Longrightarrow> bs \<noteq> [] \<Longrightarrow>
      \<exists>n<length bs. outgoing (peer C') = outgoing (peer C) @ take n bs"
    using send_loop_out [OF l] l
    by (auto simp: client_write_def sendAll_def Let_def split: if_splits io_result.splits intro: exI [of _ 0])
qed

section \<open>Both directions as bytes\<close>

definition request_bytes :: "prepared_roi \<Rightarrow> u8 list" where
  "request_bytes roi = header_bytes (request_header roi) @ bbox_bytes (request_bbox roi)
     @ pixels (rgb_pixels roi)"

lemma sendAll_ok:
  assumes "sendAll C bs = (C', Ok)"
  shows "outgoing (peer C') = outgoing (peer C) @ bs" "isConnected C'"
    "incoming (peer C') = incoming (peer C)"
  using client_out.write_ok [of C bs C'] assms
  by (auto simp: client_write_def sendAll_def isConnected_def Let_def split: if_splits prod.splits io_result.splits)

lemma classify_send_ok:
  assumes "classify_send C roi = (C', Ok)" "length (pixels (rgb_pixels roi)) = IMAGE_PAYLOAD_SIZE"
  shows "outgoing (peer C') = outgoing (peer C) @ request_bytes roi" "isConnected C'"
    "incoming (peer C') = incoming (peer C)"
proof -
  obtain C1 C2 where
    "sendAll C (encode_header (replicate HEADER_SIZE 0) (request_header roi)) = (C1, Ok)"
    "sendAll C1 (encode_bbox (replicate BBOX_PAYLOAD_SIZE 0) (request_bbox roi)) = (C2, Ok)"
    "sendAll C2 (pixels (rgb_pixels roi)) = (C', Ok)"
    using assms
    by (auto simp: classify_send_def Let_def mat_clone_def split: if_splits prod.splits)
  then show "outgoing (peer C') = outgoing (peer C) @ request_bytes roi" "isConnected C'"
    "incoming (peer C') = incoming (peer C)"
    using sendAll_ok by (simp_all add: request_bytes_def header.enc_bytes bbox.enc_bytes)
qed

text \<open>A kernel that takes whatever it is given.\<close>

lemma send_loop_taken:
  "bs \<noteq> [] \<Longrightarrow> length bs \<le> n \<Longrightarrow> send_loop bs (Took n # rs) = (bs, rs, IoOk)"
  by (cases bs) auto

lemma sendAll_taken:
  assumes "isConnected C" "send_replies (peer C) = Took n # rs" "bs \<noteq> []" "length bs \<le> n"
  shows "sendAll C bs =
    (C\<lparr>peer := (peer C)\<lparr>send_replies := rs, outgoing := outgoing (peer C) @ bs\<rparr>\<rparr>, Ok)"
  using assms by (simp add: sendAll_def send_loop_taken)

lemma bytes_not_Nil [simp]: "header_bytes h \<noteq> []" "bbox_bytes b \<noteq> []"
  using length_bytes_fields(1) [of h] length_bytes_fields(2) [of b]
  unfolding size_defs by (metis list.size(3) zero_neq_numeral)+

lemma classify_send_taken:
  assumes "isConnected C" "send_replies (peer C) = [Took a, Took b, Took c]"
    and "is_8uc3 (rgb_pixels roi)" "cols (rgb_pixels roi) = 96" "rows (rgb_pixels roi) = 96"
    and "length (pixels (rgb_pixels roi)) = IMAGE_PAYLOAD_SIZE"
    and "HEADER_SIZE \<le> a" "BBOX_PAYLOAD_SIZE \<le> b" "IMAGE_PAYLOAD_SIZE \<le> c"
  shows "classify_send C roi =
    (C\<lparr>peer := (peer C)\<lparr>send_replies := [], outgoing := outgoing (peer C) @ request_bytes roi\<rparr>\<rparr>, Ok)"
proof -
  have "pixels (rgb_pixels roi) \<noteq> []" using assms(6) by (auto simp: IMAGE_PAYLOAD_SIZE_def)
  then show ?thesis
    using assms by (simp add: classify_send_def mat_empty_def Let_def mat_clone_def sendAll_taken
        header.enc_bytes bbox.enc_bytes request_bytes_def isConnected_def)
qed

lemma receiveAll_block:
  assumes "isConnected C" "stream_of (incoming (peer C)) = bs @ rest"
  obtains C' where "receiveAll C (length bs) = (C', bs, Ok)" "isConnected C'"
    "stream_of (incoming (peer C')) = rest"
proof -
  from client_in.rd_block [OF assms] obtain C' where C': "client_read C (length bs) = (C', bs, IoOk)"
    "isConnected C'" "stream_of (incoming (peer C')) = rest" .
  obtain C'' bs' st where r: "receiveAll C (length bs) = (C'', bs', st)" by (metis prod_cases3)
  have "st = Ok" using C'(1) r by (cases st) (simp_all add: client_read_def)
  then show ?thesis using that C' r by (simp add: client_read_def)
qed

lemma request_header_valid: "is_valid_request_header (request_header roi)"
  by (simp add: is_valid_request_header_def request_header_def)

lemma response_header_valid: "is_valid_response_header (response_header h)"
  by (simp add: is_valid_response_header_def response_header_def)

text \<open>A transfer on an open connection: Ok leaves it open, anything else closes it.\<close>

lemma sendAll_live:
  shows "sendAll D bs = (D', Ok) \<Longrightarrow> isConnected D'"
    and "sendAll D bs = (D', st) \<Longrightarrow> st \<noteq> Ok \<Longrightarrow> isConnected D \<Longrightarrow> \<not> isConnected D'"
  by (auto simp: sendAll_def isConnected_def Let_def client_disconnect_def
      split: if_splits prod.splits io_result.splits)

lemma receiveAll_live:
  shows "receiveAll D n = (D', bs, Ok) \<Longrightarrow> isConnected D'"
    and "receiveAll D n = (D', bs, st) \<Longrightarrow> st \<noteq> Ok \<Longrightarrow> isConnected D \<Longrightarrow> \<not> isConnected D'"
  by (auto simp: receiveAll_def isConnected_def Let_def client_disconnect_def
      split: if_splits prod.splits io_result.splits)

lemma accepted_result:
  assumes "response_acceptable w"
  shows "r_status w \<le> STATUS_POSTPROCESS_ERROR"
    "r_status w = STATUS_OK \<longleftrightarrow> r_class_id w \<noteq> INVALID_CLASS_ID"
    "unat (r_confidence_ppm w) \<le> 1000000"
    "r_status w \<noteq> STATUS_OK \<Longrightarrow> r_confidence_ppm w = 0"
  using assms by (auto simp: response_acceptable_def not_less CONFIDENCE_PPM_MAX_def word_le_nat_alt)

lemma classify_receive_response:
  assumes "isConnected C" "stream_of (incoming (peer C)) = response_bytes rh w @ rest"
    and "h_frame_id rh = p_frame_id roi" "h_roi_id rh = p_roi_id roi" "response_acceptable w"
  shows "\<exists>C'. classify_receive C roi result = (C', Ok, \<lparr>c_frame_id = p_frame_id roi,
      c_roi_id = p_roi_id roi, c_status = r_status w, c_class_id = r_class_id w,
      c_confidence_ppm = r_confidence_ppm w\<rparr>) \<and> isConnected C'
      \<and> stream_of (incoming (peer C')) = rest"
proof -
  have s: "stream_of (incoming (peer C)) = header_bytes (response_header rh) @ result_bytes w @ rest"
    using assms(2) by (simp add: response_bytes_def)
  obtain C1 where C1: "receiveAll C HEADER_SIZE = (C1, header_bytes (response_header rh), Ok)"
    "isConnected C1" "stream_of (incoming (peer C1)) = result_bytes w @ rest"
    using receiveAll_block [OF assms(1) s] by auto
  obtain C2 where C2: "receiveAll C1 RESULT_PAYLOAD_SIZE = (C2, result_bytes w, Ok)"
    "isConnected C2" "stream_of (incoming (peer C2)) = rest"
    using receiveAll_block [OF C1(2,3)] by auto
  have h: "decode_header (header_bytes (response_header rh)) = response_header rh"
    "decode_result (result_bytes w) = w"
    using decode_header_bytes [of _ "[]"] decode_result_bytes [of _ "[]"] by simp_all
  have ids: "h_frame_id (response_header rh) = p_frame_id roi" "h_roi_id (response_header rh) = p_roi_id roi"
    using assms(3,4) by (simp_all add: response_header_def)
  show ?thesis
    unfolding classify_receive_def C1(1) C2(1) prod.case Let_def h
    using C1(1) C2 assms(5) ids response_header_valid [of rh] by (simp add: h)
qed

lemma classify_send_live:
  shows "classify_send C roi = (C', Ok) \<Longrightarrow> isConnected C'"
    and "classify_send C roi = (C', st) \<Longrightarrow> st \<noteq> Ok \<Longrightarrow>
      C' = C \<and> (\<not> isConnected C \<or> st = CInvalidArgument) \<or> \<not> isConnected C'"
  by (auto simp: classify_send_def Let_def mat_clone_def mat_empty_def split: if_splits prod.splits
      dest: sendAll_live)

lemma classify_receive_live:
  shows "classify_receive D roi result = (D', Ok, r) \<Longrightarrow> isConnected D' \<and> c_frame_id r = p_frame_id roi
      \<and> c_roi_id r = p_roi_id roi \<and> (\<exists>w. response_acceptable w \<and> c_status r = r_status w
        \<and> c_class_id r = r_class_id w \<and> c_confidence_ppm r = r_confidence_ppm w)"
    and "classify_receive D roi result = (D', st, r) \<Longrightarrow> st \<noteq> Ok \<Longrightarrow> isConnected D \<Longrightarrow>
      r = result \<and> \<not> isConnected D'"
  by (auto simp: classify_receive_def Let_def split: if_splits prod.splits dest: receiveAll_live)

section \<open>Properties\<close>

text \<open>
  C7: One classification, end to end. If the client's three writes of a 96 x 96 picture get
  through, then the server, however the network cuts and interrupts the stream, receives exactly
  the ids, the box and the pixels that were sent; and when the server's result for this request
  gets through, the client, again under any fragmentation, ends with Ok and exactly this result,
  provided the result keeps the contract of the protocol.
\<close>

theorem roi_request_response:
  assumes "classify_send C roi = (C1, Ok)" "length (pixels (rgb_pixels roi)) = IMAGE_PAYLOAD_SIZE"
    and "outgoing (peer C) = []"
    and "0 \<le> client_fd S" "stream_of (incoming (client S)) = outgoing (peer C1) @ later"
    and "receive_request S = (S1, st, q)"
    and "outgoing (client S) = []" "length buf = HEADER_SIZE + RESULT_PAYLOAD_SIZE"
    and "response_acceptable w" "send_result buf S1 (the (req_header q)) w = (S2, TcpOk)"
    and "stream_of (incoming (peer C)) = outgoing (client S2) @ later'"
  shows "st = TcpOk
    \<and> q = \<lparr>req_header = Some (request_header roi), req_bbox = Some (request_bbox roi),
           req_image = pixels (rgb_pixels roi)\<rparr>
    \<and> stream_of (incoming (client S1)) = later
    \<and> (\<exists>C2. classify C roi result = (C2, Ok, \<lparr>c_frame_id = p_frame_id roi, c_roi_id = p_roi_id roi,
         c_status = r_status w, c_class_id = r_class_id w, c_confidence_ppm = r_confidence_ppm w\<rparr>)
         \<and> isConnected C2 \<and> stream_of (incoming (peer C2)) = later')"
proof -
  note sent = classify_send_ok [OF assms(1,2)]
  let ?s = "stream_of (incoming (client S))"
  have s: "?s = header_bytes (request_header roi) @ bbox_bytes (request_bbox roi)
      @ pixels (rgb_pixels roi) @ later"
    using sent(1) assms(3,5) by (simp add: request_bytes_def)
  have len: "\<not> length ?s < HEADER_SIZE" "\<not> length ?s < HEADER_SIZE + REQUEST_PAYLOAD_SIZE"
    using assms(2) by (simp_all add: s REQUEST_PAYLOAD_SIZE_def)
  have dec: "decode_header ?s = request_header roi" "decode_bbox (drop HEADER_SIZE ?s) = request_bbox roi"
    "take IMAGE_PAYLOAD_SIZE (drop (HEADER_SIZE + BBOX_PAYLOAD_SIZE) ?s) = pixels (rgb_pixels roi)"
    "drop (HEADER_SIZE + REQUEST_PAYLOAD_SIZE) ?s = later"
    using assms(2) by (simp_all add: s REQUEST_PAYLOAD_SIZE_def)
  have req: "st = TcpOk" "q = \<lparr>req_header = Some (request_header roi),
      req_bbox = Some (request_bbox roi), req_image = pixels (rgb_pixels roi)\<rparr>"
    "stream_of (incoming (client S1)) = later" "S1 = S\<lparr>client := (client S)\<lparr>incoming := incoming (client S1)\<rparr>\<rparr>"
    using receive_request_stream [OF assms(4,6)] len dec request_header_valid by auto
  have "client_fd S1 = client_fd S" "outgoing (client S1) = []"
    by (subst req(4), simp add: assms(7))+
  moreover have "r_confidence_ppm w \<le> CONFIDENCE_PPM_MAX"
    using assms(9) by (auto simp: response_acceptable_def not_less)
  ultimately have "send_all (client S1) (response_bytes (request_header roi) w) = (client S2, TcpOk)"
    using assms(4,8,10) send_result_bytes [of buf S1 w "request_header roi"] req(2)
    by (auto split: prod.splits)
  then have "outgoing (client S2) = response_bytes (request_header roi) w"
    using server_out.write_ok [of "client S1" "response_bytes (request_header roi) w" "client S2"]
      \<open>outgoing (client S1) = []\<close> by (simp add: server_write_def)
  then have "stream_of (incoming (peer C1)) = response_bytes (request_header roi) w @ later'"
    using sent(3) assms(11) by simp
  from classify_receive_response [OF sent(2) this _ _ assms(9)]
  have "\<exists>C2. classify_receive C1 roi result = (C2, Ok, \<lparr>c_frame_id = p_frame_id roi,
      c_roi_id = p_roi_id roi, c_status = r_status w, c_class_id = r_class_id w,
      c_confidence_ppm = r_confidence_ppm w\<rparr>) \<and> isConnected C2
      \<and> stream_of (incoming (peer C2)) = later'"
    by (simp add: request_header_def)
  then show ?thesis using req(1-3) assms(1) by (simp add: classify_def)
qed

theorem roi_request_response_witness:
  "let roi = \<lparr>p_frame_id = 9, p_roi_id = 2, p_x = 0, p_y = 0, p_width = 5, p_height = 5,
         p_objectness = 0, p_frame_width = 640, p_frame_height = 480,
         rgb_pixels = \<lparr>is_8uc3 = True, cols = 96, rows = 96, continuous = True,
           pixels = replicate IMAGE_PAYLOAD_SIZE 7\<rparr>\<rparr>;
       w = \<lparr>r_status = STATUS_OK, r_class_id = 3, r_confidence_ppm = 900000\<rparr>;
       C = \<lparr>sock_fd = 5, c_held = [5], peer = \<lparr>incoming = [RIntr, Segment (response_bytes (request_header roi) w)],
         send_replies = replicate 3 (Took IMAGE_PAYLOAD_SIZE), outgoing = []\<rparr>\<rparr>;
       res = \<lparr>c_frame_id = 0, c_roi_id = 0, c_status = 0, c_class_id = 0, c_confidence_ppm = 0\<rparr>
   in \<exists>C2. classify C roi res = (C2, Ok, \<lparr>c_frame_id = 9, c_roi_id = 2, c_status = STATUS_OK, c_class_id = 3,
         c_confidence_ppm = 900000\<rparr>)"
proof -
  define roi where "roi = \<lparr>p_frame_id = 9, p_roi_id = 2, p_x = 0, p_y = 0, p_width = 5, p_height = 5,
         p_objectness = 0, p_frame_width = 640, p_frame_height = 480,
         rgb_pixels = \<lparr>is_8uc3 = True, cols = 96, rows = 96, continuous = True,
           pixels = replicate IMAGE_PAYLOAD_SIZE 7\<rparr>\<rparr>"
  define w where "w = \<lparr>r_status = STATUS_OK, r_class_id = 3, r_confidence_ppm = 900000\<rparr>"
  define C where "C = \<lparr>sock_fd = 5, c_held = [5], peer =
    \<lparr>incoming = [RIntr, Segment (response_bytes (request_header roi) w)],
     send_replies = replicate 3 (Took IMAGE_PAYLOAD_SIZE), outgoing = []\<rparr>\<rparr>"
  define C1 where "C1 = C\<lparr>peer := (peer C)\<lparr>send_replies := [], outgoing := request_bytes roi\<rparr>\<rparr>"
  define S where "S = \<lparr>listen_fd = 3, client_fd = 4, held_fds = [4, 3],
    client = \<lparr>incoming = [Segment (request_bytes roi)], send_replies = [Took IMAGE_PAYLOAD_SIZE], outgoing = []\<rparr>\<rparr>"
  have pix: "length (pixels (rgb_pixels roi)) = IMAGE_PAYLOAD_SIZE" by (simp add: roi_def)
  have roi: "is_8uc3 (rgb_pixels roi)" "cols (rgb_pixels roi) = 96" "rows (rgb_pixels roi) = 96"
    by (simp_all add: roi_def)
  have sizes: "HEADER_SIZE \<le> IMAGE_PAYLOAD_SIZE" "BBOX_PAYLOAD_SIZE \<le> IMAGE_PAYLOAD_SIZE"
    "HEADER_SIZE + RESULT_PAYLOAD_SIZE \<le> IMAGE_PAYLOAD_SIZE" "0 < HEADER_SIZE"
    by (simp_all add: size_defs)
  have C: "isConnected C"
    "send_replies (peer C) = [Took IMAGE_PAYLOAD_SIZE, Took IMAGE_PAYLOAD_SIZE, Took IMAGE_PAYLOAD_SIZE]"
    "outgoing (peer C) = []"
    by (simp_all add: C_def isConnected_def numeral_3_eq_3)
  have sent: "classify_send C roi = (C1, Ok)"
    using classify_send_taken [OF C(1,2) roi pix sizes(1,2) order_refl] by (simp add: C1_def C(3))
  have fd: "0 \<le> client_fd S" by (simp add: S_def)
  obtain S1 st q where r: "receive_request S = (S1, st, q)" by (metis prod_cases3)
  have s: "stream_of (incoming (client S)) = header_bytes (request_header roi) @ bbox_bytes (request_bbox roi)
      @ pixels (rgb_pixels roi)" by (simp add: S_def request_bytes_def)
  have "the (req_header q) = request_header roi \<and> (\<exists>as. S1 = S\<lparr>client := (client S)\<lparr>incoming := as\<rparr>\<rparr>)"
    using receive_request_stream [OF fd r] pix request_header_valid [of roi]
    unfolding s by (auto simp: REQUEST_PAYLOAD_SIZE_def)
  then obtain as where q: "the (req_header q) = request_header roi"
    and S1: "S1 = S\<lparr>client := (client S)\<lparr>incoming := as\<rparr>\<rparr>" by blast
  define S2 where "S2 = S1\<lparr>client := (client S1)\<lparr>send_replies := [], outgoing := response_bytes (request_header roi) w\<rparr>\<rparr>"
  define buf where "buf = replicate (HEADER_SIZE + RESULT_PAYLOAD_SIZE) (0 :: u8)"
  have w: "response_acceptable w" "r_confidence_ppm w \<le> CONFIDENCE_PPM_MAX"
    by (simp_all add: w_def response_acceptable_def CONFIDENCE_PPM_MAX_def STATUS_OK_def
        STATUS_POSTPROCESS_ERROR_def INVALID_CLASS_ID_def)
  have "send_loop (response_bytes (request_header roi) w) (send_replies (client S1))
      = (response_bytes (request_header roi) w, [], IoOk)"
    using sizes by (simp add: S1 S_def send_loop_taken response_bytes_def)
  then have answered: "send_result buf S1 (the (req_header q)) w = (S2, TcpOk)"
    using send_result_bytes [of buf S1 w] w(2) q
    by (simp add: buf_def send_all_def S2_def) (simp add: S1 S_def)
  have "stream_of (incoming (client S)) = outgoing (peer C1) @ []" "outgoing (client S) = []"
    by (simp_all add: S_def C1_def)
  moreover have "stream_of (incoming (peer C)) = outgoing (client S2) @ []"
    by (simp add: C_def S2_def)
  moreover have "length buf = HEADER_SIZE + RESULT_PAYLOAD_SIZE" by (simp add: buf_def)
  ultimately have "\<exists>C2. classify C roi res = (C2, Ok, \<lparr>c_frame_id = p_frame_id roi, c_roi_id = p_roi_id roi,
         c_status = r_status w, c_class_id = r_class_id w, c_confidence_ppm = r_confidence_ppm w\<rparr>)" for res
    using roi_request_response [OF sent pix C(3) fd _ r _ _ w(1) answered] by blast
  moreover have "p_frame_id roi = 9" "p_roi_id roi = 2" "r_status w = STATUS_OK" "r_class_id w = 3"
    "r_confidence_ppm w = 900000" by (simp_all add: roi_def w_def)
  ultimately show ?thesis unfolding Let_def C_def roi_def w_def by simp
qed

text \<open>
  The client never reports what it did not get. When \<open>classify\<close> ends with Ok, the connection
  is open and the result carries the ids of the request and keeps the contract (a known status, a
  class exactly on success, a confidence of at most a million, zero on failure); otherwise the
  caller's result is untouched, and the connection is closed unless the call was refused before
  anything was sent.
\<close>

theorem classify_contract:
  assumes "classify C roi result = (C', st, result')"
  shows "if st = Ok
    then isConnected C' \<and> c_frame_id result' = p_frame_id roi \<and> c_roi_id result' = p_roi_id roi
      \<and> c_status result' \<le> STATUS_POSTPROCESS_ERROR
      \<and> (c_status result' = STATUS_OK \<longleftrightarrow> c_class_id result' \<noteq> INVALID_CLASS_ID)
      \<and> unat (c_confidence_ppm result') \<le> 1000000
      \<and> (c_status result' \<noteq> STATUS_OK \<longrightarrow> c_confidence_ppm result' = 0)
    else result' = result \<and> (C' = C \<and> (\<not> isConnected C \<or> st = CInvalidArgument) \<or> \<not> isConnected C')"
proof -
  have "\<not> isConnected C' \<and> result' = result"
    if "classify_send C roi = (C1, Ok)" "st \<noteq> Ok" for C1
    using assms that classify_receive_live(2) [OF _ that(2) classify_send_live(1) [OF that(1)]]
    by (simp add: classify_def)
  moreover have "st \<noteq> Ok \<Longrightarrow> classify_send C roi = (C1, st1) \<Longrightarrow> st1 \<noteq> Ok \<Longrightarrow>
      C' = C1 \<and> st = st1 \<and> result' = result" for C1 st1
    using assms by (simp add: classify_def)
  moreover have "st = Ok \<Longrightarrow> \<exists>D. classify_receive D roi result = (C', Ok, result')"
    using assms by (auto simp: classify_def split: if_splits prod.splits)
  ultimately show ?thesis
    using classify_send_live(2) [of C roi] classify_receive_live(1) [of _ roi result C' result'] accepted_result
    by (cases "classify_send C roi") fastforce
qed

theorem classify_contract_witness:
  "let roi = \<lparr>p_frame_id = 9, p_roi_id = 2, p_x = 0, p_y = 0, p_width = 5, p_height = 5,
         p_objectness = 0, p_frame_width = 640, p_frame_height = 480,
         rgb_pixels = \<lparr>is_8uc3 = True, cols = 1, rows = 2, continuous = True, pixels = replicate 6 7\<rparr>\<rparr>;
       C = \<lparr>sock_fd = 5, c_held = [5], peer = \<lparr>incoming = [], send_replies = [Took 9], outgoing = []\<rparr>\<rparr>;
       res = \<lparr>c_frame_id = 1, c_roi_id = 1, c_status = 0, c_class_id = 4, c_confidence_ppm = 5\<rparr>
   in fst (snd (classify C roi res)) = CInvalidArgument \<and> snd (snd (classify C roi res)) = res
      \<and> fst (classify C roi res) = C"
proof -
  let ?roi = "\<lparr>p_frame_id = 9, p_roi_id = 2, p_x = 0, p_y = 0, p_width = 5, p_height = 5,
         p_objectness = 0, p_frame_width = 640, p_frame_height = 480,
         rgb_pixels = \<lparr>is_8uc3 = True, cols = 1, rows = 2, continuous = True, pixels = replicate 6 7\<rparr>\<rparr>"
  let ?C = "\<lparr>sock_fd = 5, c_held = [5], peer = \<lparr>incoming = [], send_replies = [Took 9], outgoing = []\<rparr>\<rparr>"
  let ?res = "\<lparr>c_frame_id = 1, c_roi_id = 1, c_status = 0, c_class_id = 4, c_confidence_ppm = 5\<rparr>"
  have c: "classify ?C ?roi ?res = (?C, CInvalidArgument, ?res)"
    by (simp add: classify_def classify_send_def isConnected_def mat_empty_def)
  show ?thesis using classify_contract [OF c] c by (simp add: Let_def)
qed

end
