(* ===== verification/Ps_Server.thy ===== *)
theory Ps_Server
  imports Ps_Classify Safety_Bridge Tcp_Client
begin

text \<open>
  \<open>tools/ps_classifier_server.c\<close>: the arguments, the start of the server, the session loop that ties
  the TCP server, the classifier and the safety bridge together, and the shutdown. Printing is left
  out; the CSV is the list of its rows, and what a failed start leaves says whether its stream is still open. The loop is given both as functions over what it meets and
  as a step relation, in which the transmitter's thread takes its ticks between any two steps.
\<close>

section \<open>Arguments\<close>

definition parse_u64 :: "u64 parser \<Rightarrow> string \<Rightarrow> u64 option" where
  "parse_u64 strtoull text = (case strtoull text of (parsed, end_pos, err) \<Rightarrow>
     if err \<or> end_pos = 0 \<or> end_pos \<noteq> length text then None else Some parsed)"

definition parse_i32 :: "int parser \<Rightarrow> string \<Rightarrow> u32 option" where
  "parse_i32 strtoll text = (case strtoll text of (parsed, end_pos, err) \<Rightarrow>
     if err \<or> end_pos = 0 \<or> end_pos \<noteq> length text \<or> parsed < - (2 ^ 31) \<or> parsed > 2 ^ 31 - 1
     then None else Some (word_of_int parsed))"

definition parse_positive_float :: "fp parser \<Rightarrow> string \<Rightarrow> fp option" where
  "parse_positive_float strtof text = (case strtof text of (parsed, end_pos, err) \<Rightarrow>
     if err \<or> end_pos = 0 \<or> end_pos \<noteq> length text \<or> \<not> fp_gt parsed (Fin 0) then None else Some parsed)"

definition env_ulong :: "environment \<Rightarrow> u32 parser \<Rightarrow> string \<Rightarrow> u32 \<Rightarrow> u32" where
  "env_ulong env strtoul name fallback = (case env name of None \<Rightarrow> fallback
     | Some text \<Rightarrow> if text = [] then fallback
         else case strtoul text of (v, end_pos, err) \<Rightarrow>
           if err \<or> end_pos = 0 \<or> end_pos \<noteq> length text then fallback else v)"

record ps_args =
  arg_bind :: "string option"
  arg_port :: u16
  arg_model_dir :: string
  arg_metadata :: model_metadata
  arg_scale :: fp

definition parse_args ::
  "u64 parser \<Rightarrow> int parser \<Rightarrow> fp parser \<Rightarrow> string list \<Rightarrow> ps_args option" where
  "parse_args strtoull strtoll strtof argv =
     (if length argv \<noteq> 13 then None
      else case (parse_u64 strtoull (argv ! 2), parse_u64 strtoull (argv ! 4), parse_u64 strtoull (argv ! 5)) of
        (Some n0, Some n1, Some n2) \<Rightarrow>
          if n0 = 0 \<or> n0 > 0xffff \<or> n1 = 0 \<or> n1 > 0xffffffff \<or> n2 = 0 \<or> n2 > 0xffffffff then None
          else (case (parse_i32 strtoll (argv ! 6), parse_u64 strtoull (argv ! 7), parse_i32 strtoll (argv ! 8)) of
            (Some m0, Some n3, Some m1) \<Rightarrow>
              if n3 > 0xff then None
              else (case (parse_u64 strtoull (argv ! 9), parse_i32 strtoll (argv ! 10), parse_u64 strtoull (argv ! 11)) of
                (Some n4, Some m2, Some n5) \<Rightarrow>
                  if n4 > 0xff \<or> n5 > 0xff then None
                  else (case parse_positive_float strtof (argv ! 12) of
                    Some scale \<Rightarrow> Some \<lparr>arg_bind = (if argv ! 1 = ''*'' then None else Some (argv ! 1)),
                      arg_port = ucast n0, arg_model_dir = argv ! 3,
                      arg_metadata = \<lparr>md_class_count = ucast n1, md_gap_divisor = ucast n2,
                        md_rq_conv0 = \<lparr>rq_multiplier = m0, rq_shift = ucast n3\<rparr>,
                        md_rq_conv1 = \<lparr>rq_multiplier = m1, rq_shift = ucast n4\<rparr>,
                        md_rq_conv2 = \<lparr>rq_multiplier = m2, rq_shift = ucast n5\<rparr>\<rparr>,
                      arg_scale = scale\<rparr>
                  | None \<Rightarrow> None)
              | _ \<Rightarrow> None)
          | _ \<Rightarrow> None)
      | _ \<Rightarrow> None)"

section \<open>State\<close>

record csv_row =
  csv_frame_id :: u32
  csv_roi_id :: u32
  csv_result :: roi_result
  csv_timing :: request_timing

record ps_server =
  sv_live :: nat
  sv_process :: process
  sv_tcp :: tcp_server
  sv_device :: device
  sv_model :: model
  sv_cl :: classify_state
  sv_safety :: "posix_port handle option"
  sv_metrics :: session_metrics
  have_current_frame :: bool
  current_frame_id :: u32
  sv_csv :: "csv_row list option"

text \<open>What stays the same while the server runs.\<close>

record ps_config =
  cf_scale :: fp
  cf_no_delay :: bool
  cf_msecs :: "u32 \<Rightarrow> u32"
  cf_exp :: "fp \<Rightarrow> fp"

section \<open>The session loop\<close>

text \<open>What one request meets: the classifier's surroundings, the clock, and the buffer on the stack.\<close>

record request_env =
  rq_classify :: classify_env
  rq_started :: timespec
  rq_finished :: timespec
  flush_now :: u64
  stop_now :: u64
  response_block :: "u8 list"

definition server_force_stop :: "u64 \<Rightarrow> ps_server \<Rightarrow> ps_server" where
  "server_force_stop now S =
     (if sv_safety S \<noteq> None then S\<lparr>sv_safety := ps_safety_force_stop posix_write (sv_safety S) now\<rparr> else S)"

definition note_frame :: "u32 \<Rightarrow> u64 \<Rightarrow> ps_server \<Rightarrow> ps_server" where
  "note_frame frame_id now S =
     (if sv_safety S \<noteq> None
      then if \<not> have_current_frame S then S\<lparr>current_frame_id := frame_id, have_current_frame := True\<rparr>
           else if frame_id \<noteq> current_frame_id S
                then S\<lparr>sv_safety := ps_safety_flush_frame posix_write (sv_safety S) now, current_frame_id := frame_id\<rparr>
                else S
      else S)"

text \<open>
  One round of the inner loop; the flag is False when the loop is left. None: the run of the PL
  does not return.
\<close>

definition serve_request :: "ps_config \<Rightarrow> request_env \<Rightarrow> ps_server \<Rightarrow> (ps_server \<times> bool) option" where
  "serve_request cf e S =
     (case receive_request (sv_tcp S) of (T, status, q) \<Rightarrow>
        let S = S\<lparr>sv_tcp := T\<rparr> in
        if status \<noteq> TcpOk then Some (server_force_stop (stop_now e) S, False)
        else let h = the (req_header q);
                 bbox = req_bbox q;
                 S = note_frame (h_frame_id h) (flush_now e) S
             in case classify_one (cf_msecs cf) (cf_exp cf) (\<lambda>i. req_image q ! i) (Some (sv_device S)) (sv_model S)
                       (cf_scale cf) (rq_classify e) (sv_cl S) of
                  None \<Rightarrow> None
                | Some (cl, result) \<Rightarrow>
                    let timing = (cl_timing cl)\<lparr>t_server_us := elapsed_us (rq_started e) (rq_finished e)\<rparr>;
                        S = S\<lparr>sv_cl := cl\<lparr>cl_timing := timing\<rparr>\<rparr>;
                        S = (if sv_safety S \<noteq> None
                             then S\<lparr>sv_safety := ps_safety_add_observation (sv_safety S) bbox (Some result)\<rparr> else S);
                        S = S\<lparr>sv_metrics := session_metrics_add (sv_metrics S) timing result (rq_started e) (rq_finished e)\<rparr>;
                        S = S\<lparr>sv_csv := map_option (\<lambda>rows. rows @ [\<lparr>csv_frame_id = h_frame_id h, csv_roi_id = h_roi_id h,
                               csv_result = result, csv_timing = timing\<rparr>]) (sv_csv S)\<rparr>
                    in (case send_result (response_block e) (sv_tcp S) h result of (T, status) \<Rightarrow>
                          let S = S\<lparr>sv_tcp := T\<rparr> in
                          if status \<noteq> TcpOk then Some (server_force_stop (stop_now e) S, False) else Some (S, True)))"

definition accept_client :: "int \<Rightarrow> sock \<Rightarrow> ps_server \<Rightarrow> ps_server \<times> tcp_status" where
  "accept_client conn_fd conn S =
     (case server_accept (sv_tcp S) conn_fd conn of (T, status) \<Rightarrow>
        if status \<noteq> TcpOk then (S\<lparr>sv_tcp := T\<rparr>, status)
        else (S\<lparr>sv_tcp := T, sv_metrics := session_metrics_reset, have_current_frame := False, current_frame_id := 0\<rparr>, TcpOk))"

definition end_session :: "ps_server \<Rightarrow> ps_server" where
  "end_session S = S\<lparr>sv_tcp := server_disconnect (sv_tcp S)\<rparr>"

text \<open>
  The inner loop. \<open>world\<close> is what the next request meets in a state; None: the loop has not ended
  after so many rounds, or a run of the PL does not return.
\<close>

fun serve_session :: "ps_config \<Rightarrow> (ps_server \<Rightarrow> request_env) \<Rightarrow> nat \<Rightarrow> ps_server \<Rightarrow> ps_server option" where
  "serve_session cf world 0 S = None"
| "serve_session cf world (Suc n) S = (case serve_request cf (world S) S of
     None \<Rightarrow> None
   | Some (S, go) \<Rightarrow> if go then serve_session cf world n S else Some (end_session S))"

section \<open>Start and shutdown\<close>

record start_sys =
  st_files :: file_system
  malloc_weights :: "(nat \<Rightarrow> 8 word) option"
  malloc_biases :: "(nat \<Rightarrow> u32) option"
  st_device :: device_sys
  st_driver :: classifier_dev
  st_memory :: "nat \<Rightarrow> 8 word"
  st_set_env :: ioctl_env
  st_listen :: listen_reply
  st_environment :: environment
  st_strtoul :: "u32 parser"
  st_strtof :: "fp parser"
  st_strtoull :: "u64 parser"
  st_csv_opens :: bool
  st_port :: posix_port
  st_uart :: open_reply
  st_stack_model :: model
  st_stack_device :: device
  st_stack_tcp :: tcp_server

text \<open>
  What the process holds when it ends: allocations, descriptors and mappings, sockets, the UART, and whether the
  stream of the CSV file is open.
\<close>

record leftovers =
  left_live :: nat
  left_process :: process
  left_sockets :: "int list"
  left_uart :: "int list"
  left_csv :: bool

definition copy_to :: "nat option \<Rightarrow> nat \<Rightarrow> (nat \<Rightarrow> 8 word) \<Rightarrow> (nat \<Rightarrow> 8 word) \<Rightarrow> nat \<Rightarrow> 8 word" where
  "copy_to dest n src m = (\<lambda>i. case dest of None \<Rightarrow> m i
     | Some a \<Rightarrow> if a \<le> i \<and> i < a + n then src (i - a) else m i)"

text \<open>The handle, if the environment asks for one; or the port, when it could not be opened.\<close>

definition start_safety :: "start_sys \<Rightarrow> posix_port handle option + posix_port" where
  "start_safety sys = (let env = st_environment sys in
     case env ''ADAS_UART_PORT'' of None \<Rightarrow> Inl None
     | Some path \<Rightarrow> if path = [] then Inl None
         else (case ps_safety_start (Some path) (env_ulong env (st_strtoul sys) ''ADAS_UART_BAUD'' 115200)
                      (st_port sys) (st_uart sys) env (st_strtof sys) (st_strtoull sys) of
                 (None, p) \<Rightarrow> Inr p
               | (Some H, p) \<Rightarrow> Inl (Some H)))"

text \<open>The rows of the CSV file, when its stream is open.\<close>

definition open_csv :: "start_sys \<Rightarrow> csv_row list option" where
  "open_csv sys = (case st_environment sys ''ADAS_PS_CSV'' of None \<Rightarrow> None
     | Some path \<Rightarrow> if path \<noteq> [] \<and> st_csv_opens sys then Some [] else None)"

definition DEFAULT_BACKLOG :: int where "DEFAULT_BACKLOG = 1"

text \<open>
  \<open>main\<close> up to the accept loop. The structures on its stack hold anything before they are
  initialised; nothing is allocated and no socket is held; \<open>P\<close> is what the process has open.
\<close>

definition server_start ::
  "(u32 \<Rightarrow> u32) \<Rightarrow> ps_args \<Rightarrow> start_sys \<Rightarrow> process \<Rightarrow> ps_server + leftovers" where
  "server_start msecs args sys P =
     (let fail = (\<lambda>live P sockets uart csv. Inr \<lparr>left_live = live, left_process = P, left_sockets = sockets, left_uart = uart,
              left_csv = csv \<noteq> None\<rparr>)
      in case model_load (st_files sys) (malloc_weights sys) (malloc_biases sys) 0
              (model_init (Some (st_stack_model sys))) (Some (arg_model_dir args)) (Some (arg_metadata args)) of
        (live, mp, mstatus) \<Rightarrow>
      if mstatus \<noteq> ModelOk then fail live P [] [] None
      else let model = the mp in
      case device_open P (device_init (Some (st_stack_device sys))) (Some ''/dev/adas_classifier'') (st_device sys) of
        (P, dev, dstatus) \<Rightarrow>
      if dstatus \<noteq> DeviceOk then fail (fst (model_unload live model)) P [] [] None
      else let mem = copy_to (device_w_conv0 dev) W_CONV0_SIZE (m_w_conv0 model) (st_memory sys);
               mem = copy_to (device_w_conv1 dev) W_CONV1_SIZE (m_w_conv1 model) mem;
               mem = copy_to (device_w_conv2 dev) W_CONV2_SIZE (m_w_conv2 model) mem
      in case device_load_parameters msecs dev (Some (m_pl_parameters model)) (st_set_env sys) (st_driver sys) of
        (c, pstatus) \<Rightarrow>
      if pstatus \<noteq> Some DeviceOk
      then fail (fst (model_unload live model)) (fst (device_close P (the dev))) [] [] None
      else case server_listen (server_init (st_stack_tcp sys)\<lparr>held_fds := []\<rparr>)
             \<lparr>bind_address = arg_bind args, server_port = arg_port args, backlog = DEFAULT_BACKLOG\<rparr> (st_listen sys) of
        (T, lstatus) \<Rightarrow>
      if lstatus \<noteq> TcpOk
      then fail (fst (model_unload live model)) (fst (device_close P (the dev))) (held_fds T) [] None
      else let csv = open_csv sys in
      case start_safety sys of
        Inr uart_port \<Rightarrow> fail (fst (model_unload live model)) (fst (device_close P (the dev))) (held_fds (server_close T))
                      (open_fds uart_port) csv
      | Inl safety \<Rightarrow>
          Inl \<lparr>sv_live = live, sv_process = P, sv_tcp = T, sv_device = the dev, sv_model = model,
                sv_cl = \<lparr>cl_mem = mem, cl_driver = c, cl_timing =
                  \<lparr>t_preprocess_us = 0, t_pl_run_us = 0, t_postprocess_us = 0, t_server_us = 0\<rparr>\<rparr>,
                sv_safety = safety, sv_metrics = session_metrics_reset, have_current_frame = False,
                current_frame_id = 0, sv_csv = csv\<rparr>)"

text \<open>
  The end of \<open>main\<close>, which closes the CSV file first; \<open>rounds\<close> are the last rounds of the transmitter's thread.
\<close>

definition server_shutdown :: "u64 \<Rightarrow> (u64 \<times> u64 \<times> u64) list \<Rightarrow> ps_server \<Rightarrow> leftovers" where
  "server_shutdown now rounds S =
     \<lparr>left_live = fst (model_unload (sv_live S) (sv_model S)),
      left_process = fst (device_close (sv_process S) (sv_device S)),
      left_sockets = held_fds (server_close (sv_tcp S)),
      left_uart = (case ps_safety_stop (sv_safety S) now rounds of None \<Rightarrow> [] | Some uart_port \<Rightarrow> open_fds uart_port),
      left_csv = False\<rparr>"

section \<open>The server as a state machine\<close>

datatype ps_phase = Accepting | Serving | Finished leftovers

text \<open>
  Between two steps of the main thread the transmitter's thread may take any number of ticks. \<open>ok\<close>
  restricts what the surroundings do.
\<close>

definition server_tick :: "u64 \<Rightarrow> ps_server \<Rightarrow> ps_server" where
  "server_tick now S = S\<lparr>sv_safety := map_option (\<lambda>H. H\<lparr>htx := fst (tx_tick posix_write (htx H) now)\<rparr>) (sv_safety S)\<rparr>"

inductive ps_step ::
  "(request_env \<Rightarrow> ps_server \<Rightarrow> bool) \<Rightarrow> ps_config \<Rightarrow> ps_phase \<times> ps_server \<Rightarrow> ps_phase \<times> ps_server \<Rightarrow> bool"
  for ok :: "request_env \<Rightarrow> ps_server \<Rightarrow> bool" and cf :: ps_config where
  accepted: "accept_client conn_fd conn S = (S', TcpOk) \<Longrightarrow> ps_step ok cf (Accepting, S) (Serving, S')"
| accept_failed: "accept_client conn_fd conn S = (S', st) \<Longrightarrow> st \<noteq> TcpOk \<Longrightarrow>
    ps_step ok cf (Accepting, S) (Finished (server_shutdown now rounds S'), S')"
| request: "ok e S \<Longrightarrow> serve_request cf e S = Some (S', True) \<Longrightarrow> ps_step ok cf (Serving, S) (Serving, S')"
| session_end: "ok e S \<Longrightarrow> serve_request cf e S = Some (S', False) \<Longrightarrow>
    ps_step ok cf (Serving, S) (Accepting, end_session S')"
| tick: "ph = Accepting \<or> ph = Serving \<Longrightarrow> ps_step ok cf (ph, S) (ph, server_tick now S)"

inductive_cases ps_stepE: "ps_step ok cf s s'"
inductive_simps ps_step_Accepting: "ps_step ok cf (Accepting, S) s'"
inductive_simps ps_step_Serving: "ps_step ok cf (Serving, S) s'"
inductive_simps ps_step_Finished: "ps_step ok cf (Finished L, S) s'"

inductive ps_reach ::
  "(request_env \<Rightarrow> ps_server \<Rightarrow> bool) \<Rightarrow> ps_config \<Rightarrow> ps_server \<Rightarrow> ps_phase \<times> ps_server \<Rightarrow> bool"
  for ok :: "request_env \<Rightarrow> ps_server \<Rightarrow> bool" and cf :: ps_config and S0 :: ps_server where
  start: "ps_reach ok cf S0 (Accepting, S0)"
| step: "ps_reach ok cf S0 s \<Longrightarrow> ps_step ok cf s s' \<Longrightarrow> ps_reach ok cf S0 s'"

end
