(* ===== verification/Ps_Sessions.thy ===== *)
theory Ps_Sessions
  imports Ps_Server
begin

text \<open>
  What holds of the sessions of the classifier server: the operations on the safety bridge that a
  request amounts to, the invariant of the server's states, the answers, and the end of a session.
\<close>

section \<open>What a request leaves alone\<close>

lemma receive_request_keeps:
  assumes "receive_request T = (T', st, q)"
  shows "listen_fd T' = listen_fd T" "client_fd T' = client_fd T" "held_fds T' = held_fds T"
    "outgoing (client T') = outgoing (client T)" "send_replies (client T') = send_replies (client T)"
  using assms by (auto simp: receive_request_def receive_all_def Let_def split: if_splits prod.splits)

lemma receive_request_fields:
  assumes "receive_request T = (T', TcpOk, q)"
  obtains h b where "req_header q = Some h" "req_bbox q = Some b"
  using assms by (auto simp: receive_request_def Let_def split: if_splits prod.splits)

lemma send_result_keeps:
  assumes "send_result buf T h r = (T', st)"
  shows "listen_fd T' = listen_fd T" "client_fd T' = client_fd T" "held_fds T' = held_fds T"
    "incoming (client T') = incoming (client T)"
  using assms by (auto simp: send_result_def send_all_def Let_def split: if_splits prod.splits)

lemma note_frame_keeps [simp]:
  "sv_live (note_frame f now S) = sv_live S" "sv_process (note_frame f now S) = sv_process S"
  "sv_tcp (note_frame f now S) = sv_tcp S" "sv_device (note_frame f now S) = sv_device S"
  "sv_model (note_frame f now S) = sv_model S" "sv_cl (note_frame f now S) = sv_cl S"
  "sv_metrics (note_frame f now S) = sv_metrics S" "sv_csv (note_frame f now S) = sv_csv S"
  by (simp_all add: note_frame_def)

lemma server_force_stop_keeps [simp]:
  "sv_live (server_force_stop now S) = sv_live S" "sv_process (server_force_stop now S) = sv_process S"
  "sv_tcp (server_force_stop now S) = sv_tcp S" "sv_device (server_force_stop now S) = sv_device S"
  "sv_model (server_force_stop now S) = sv_model S" "sv_cl (server_force_stop now S) = sv_cl S"
  "sv_metrics (server_force_stop now S) = sv_metrics S" "sv_csv (server_force_stop now S) = sv_csv S"
  by (simp_all add: server_force_stop_def)

section \<open>The request as operations of the bridge\<close>

definition bridge_ops :: "bridge_op list \<Rightarrow> posix_port handle \<Rightarrow> posix_port handle" where
  "bridge_ops ops H = fst (run (bridge_step posix_write) H ops)"

lemma bridge_ops_simps [simp]:
  "bridge_ops [] H = H" "bridge_ops (op # ops) H = bridge_ops ops (bridge_do posix_write H op)"
  by (simp_all add: bridge_ops_def bridge_step_def Let_def)

lemma bridge_ops_append: "bridge_ops (xs @ ys) H = bridge_ops ys (bridge_ops xs H)"
  by (induction xs arbitrary: H) simp_all

definition frame_flush :: "bool \<Rightarrow> u32 \<Rightarrow> u32 \<Rightarrow> u64 \<Rightarrow> bridge_op list" where
  "frame_flush have cur f now = (if have \<and> f \<noteq> cur then [Flush now] else [])"

text \<open>A request that was received: its header, box, classifier state and result.\<close>

definition request_received ::
  "ps_config \<Rightarrow> request_env \<Rightarrow> ps_server \<Rightarrow> roi_header \<Rightarrow> roi_bbox \<Rightarrow> classify_state \<Rightarrow> roi_result \<Rightarrow> bool" where
  "request_received cf e S h b cl r \<longleftrightarrow> (\<exists>T q. receive_request (sv_tcp S) = (T, TcpOk, q)
     \<and> req_header q = Some h \<and> req_bbox q = Some b
     \<and> classify_one (cf_msecs cf) (cf_exp cf) (\<lambda>i. req_image q ! i) (Some (sv_device S)) (sv_model S)
         (cf_scale cf) (rq_classify e) (sv_cl S) = Some (cl, r))"

text \<open>The two ways through a round: nothing usable was received, or a request was handled.\<close>

lemma serve_request_cases:
  assumes "serve_request cf e S = Some (S', go)"
  obtains (lost) T st q where "receive_request (sv_tcp S) = (T, st, q)" "st \<noteq> TcpOk" "go = False"
      "S' = server_force_stop (stop_now e) (S\<lparr>sv_tcp := T\<rparr>)"
  | (handled) h b cl r T T' q st timing where "request_received cf e S h b cl r"
      "receive_request (sv_tcp S) = (T, TcpOk, q)" "req_header q = Some h" "req_bbox q = Some b"
      "timing = (cl_timing cl)\<lparr>t_server_us := elapsed_us (rq_started e) (rq_finished e)\<rparr>"
      "send_result (response_block e) T h r = (T', st)" "go \<longleftrightarrow> st = TcpOk"
      "sv_live S' = sv_live S" "sv_process S' = sv_process S" "sv_tcp S' = T'" "sv_device S' = sv_device S"
      "sv_model S' = sv_model S" "sv_cl S' = cl\<lparr>cl_timing := timing\<rparr>"
      "sv_metrics S' = session_metrics_add (sv_metrics S) timing r (rq_started e) (rq_finished e)"
      "sv_safety S' = map_option (bridge_ops (frame_flush (have_current_frame S) (current_frame_id S)
         (h_frame_id h) (flush_now e) @ [Observe b r] @ (if go then [] else [ForceStop (stop_now e)]))) (sv_safety S)"
      "sv_safety S \<noteq> None \<Longrightarrow> have_current_frame S' \<and> current_frame_id S' = h_frame_id h"
proof -
  obtain T st q where rq: "receive_request (sv_tcp S) = (T, st, q)" by (metis prod_cases3)
  show ?thesis
  proof (cases "st = TcpOk")
    case False
    then show ?thesis using assms rq by (intro lost [OF rq False]) (simp_all add: serve_request_def Let_def)
  next
    case True
    obtain h b where hb: "req_header q = Some h" "req_bbox q = Some b"
      using receive_request_fields rq True by metis
    let ?img = "\<lambda>i. req_image q ! i"
    obtain cl r where cl: "classify_one (cf_msecs cf) (cf_exp cf) ?img (Some (sv_device S)) (sv_model S)
        (cf_scale cf) (rq_classify e) (sv_cl S) = Some (cl, r)"
      using assms rq True hb by (auto simp: serve_request_def Let_def split: option.splits prod.splits)
    have got: "request_received cf e S h b cl r" using rq True hb cl by (auto simp: request_received_def)
    obtain T' st' where send: "send_result (response_block e) T h r = (T', st')" by fastforce
    define timing where "timing = (cl_timing cl)\<lparr>t_server_us := elapsed_us (rq_started e) (rq_finished e)\<rparr>"
    show ?thesis
    proof (rule handled [OF got rq [unfolded True] hb timing_def send])
      show "go \<longleftrightarrow> st' = TcpOk"
        using assms rq True hb cl send by (auto simp: serve_request_def Let_def split: if_splits)
    qed (use assms rq True hb cl send in \<open>auto simp: serve_request_def Let_def timing_def note_frame_def frame_flush_def
        server_force_stop_def ps_safety_force_stop_def ps_safety_flush_frame_def ps_safety_add_observation_def
        split: if_splits option.splits\<close>)
  qed
qed

section \<open>The invariant\<close>

text \<open>Nothing of an earlier session is left, and what is sent is Stop.\<close>

definition idle_handle :: "'p handle \<Rightarrow> bool" where
  "idle_handle H \<longleftrightarrow> hstate H = Stop \<and> published_state (htx H) = Stop \<and> pending_dets H = []
     \<and> \<not> pending_background_slow H \<and> sign_slow_until_ms H = 0"

text \<open>A server as \<open>main\<close> hands it to the accept loop.\<close>

definition fresh_server :: "ps_server \<Rightarrow> bool" where
  "fresh_server S \<longleftrightarrow> 0 \<le> listen_fd (sv_tcp S) \<and> client_fd (sv_tcp S) = -1
     \<and> held_fds (sv_tcp S) = [listen_fd (sv_tcp S)] \<and> sv_metrics S = session_metrics_reset
     \<and> (\<forall>H. sv_safety S = Some H \<longrightarrow> bridge_inv (jconfig H) H \<and> idle_handle H)"

definition server_inv :: "ps_server \<Rightarrow> ps_phase \<Rightarrow> ps_server \<Rightarrow> bool" where
  "server_inv S0 ph S \<longleftrightarrow>
     sv_live S = sv_live S0 \<and> sv_process S = sv_process S0 \<and> sv_device S = sv_device S0 \<and> sv_model S = sv_model S0
     \<and> listen_fd (sv_tcp S) = listen_fd (sv_tcp S0)
     \<and> held_fds (sv_tcp S) = (if ph = Serving then [client_fd (sv_tcp S)] else []) @ [listen_fd (sv_tcp S0)]
     \<and> (if ph = Serving then 0 \<le> client_fd (sv_tcp S) else client_fd (sv_tcp S) = -1)
     \<and> stat_count (mt_server (sv_metrics S)) = ok_count (sv_metrics S) + error_count (sv_metrics S)
     \<and> (case (sv_safety S0, sv_safety S) of
          (None, None) \<Rightarrow> True
        | (Some H0, Some H) \<Rightarrow> bridge_inv (jconfig H0) H \<and> (ph \<noteq> Serving \<longrightarrow> idle_handle H)
        | _ \<Rightarrow> False)"

lemma bridge_inv_ops: "bridge_inv c H \<Longrightarrow> bridge_inv c (bridge_ops ops H)"
  by (induction ops arbitrary: H) (simp_all add: bridge_inv_do del: bridge_do.simps)

lemma force_stop_idle: "idle_handle (force_stop wr H now)"
  by (simp add: idle_handle_def force_stop_def)

lemma tick_inv:
  "bridge_inv c H \<Longrightarrow> bridge_inv c (H\<lparr>htx := fst (tx_tick wr (htx H) now)\<rparr>)"
  "idle_handle H \<Longrightarrow> idle_handle (H\<lparr>htx := fst (tx_tick wr (htx H) now)\<rparr>)"
  by (simp_all add: bridge_inv_def idle_handle_def)

lemma metrics_counts:
  assumes "stat_count (mt_server M) = ok_count M + error_count M"
  shows "stat_count (mt_server (session_metrics_add M t r a b))
    = ok_count (session_metrics_add M t r a b) + error_count (session_metrics_add M t r a b)"
proof -
  have "stat_count (mt_server (session_metrics_add M t r a b)) = ok_count M + error_count M + 1"
    by (simp only: metrics_step_fields(4) [of "(t, r, a, b)", simplified] stat_add_eq stat_accumulator.simps assms)
  then show ?thesis
    using metrics_step_fields(5,6) [of "(t, r, a, b)" M] by (simp add: log_ok_def add.assoc add.commute [of 1])
qed

lemma server_inv_request:
  assumes "server_inv S0 Serving S" "serve_request cf e S = Some (S', go)"
  shows "server_inv S0 Serving S'"
    and "\<not> go \<Longrightarrow> \<exists>H. sv_safety S' = map_option (\<lambda>_. H) (sv_safety S) \<and> idle_handle H"
    and "\<not> go \<Longrightarrow> server_inv S0 Accepting (end_session S')"
proof -
  show inv: "server_inv S0 Serving S'"
    using assms(2)
  proof (cases rule: serve_request_cases)
    case (lost T st q)
    show ?thesis using assms(1) receive_request_keeps [OF lost(1)]
      by (auto simp: server_inv_def lost(4) server_force_stop_def ps_safety_force_stop_def bridge_inv_def
          split: option.splits)
  next
    case (handled h b cl r T T' q st timing)
    show ?thesis
      using assms(1) receive_request_keeps [OF handled(2)] send_result_keeps [OF handled(6)]
      by (auto simp: server_inv_def handled(8-15) metrics_counts bridge_inv_ops split: option.splits)
  qed
  show idle: "\<exists>H. sv_safety S' = map_option (\<lambda>_. H) (sv_safety S) \<and> idle_handle H" if "\<not> go"
    using assms(2)
  proof (cases rule: serve_request_cases)
    case (lost T st q)
    show ?thesis
      by (cases "sv_safety S") (auto simp: lost(4) server_force_stop_def ps_safety_force_stop_def
          intro: force_stop_idle exI [of _ "force_stop posix_write undefined 0"])
  next
    case (handled h b cl r T T' q st timing)
    show ?thesis using that
      by (cases "sv_safety S") (auto simp: handled(15) bridge_ops_append intro: force_stop_idle
          exI [of _ "force_stop posix_write undefined 0"])
  qed
  show "\<not> go \<Longrightarrow> server_inv S0 Accepting (end_session S')"
    using inv idle
    by (auto simp: server_inv_def end_session_def server_disconnect_def split: option.splits)
qed

lemma accept_inv:
  assumes "server_inv S0 Accepting S" "0 \<le> listen_fd (sv_tcp S0)" "accept_client conn_fd conn S = (S', st)"
  shows "st = TcpOk \<Longrightarrow> server_inv S0 Serving S'" "st \<noteq> TcpOk \<Longrightarrow> S' = S"
  using assms
  by (auto simp: accept_client_def server_accept_def server_inv_def session_metrics_reset_def stat_reset_def
      split: if_splits option.splits prod.splits)

lemma fresh_inv: "fresh_server S0 \<Longrightarrow> server_inv S0 Accepting S0"
  by (auto simp: fresh_server_def server_inv_def session_metrics_reset_def stat_reset_def split: option.splits)

lemma server_inv_tick: "server_inv S0 ph S \<Longrightarrow> server_inv S0 ph (server_tick now S)"
  by (auto simp: server_inv_def server_tick_def tick_inv split: option.splits)

lemma server_inv_down: "server_inv S0 Accepting S \<Longrightarrow> server_inv S0 (Finished L) S"
  by (simp add: server_inv_def split: option.splits)

lemma reach_inv:
  assumes "ps_reach ok cf S0 (ph, S)" "fresh_server S0"
  shows "server_inv S0 ph S"
  using assms(1)
proof (induction "(ph, S)" arbitrary: ph S rule: ps_reach.induct)
  case start
  then show ?case using fresh_inv [OF assms(2)] by simp
next
  case (step s ph' S')
  obtain ph S where s: "s = (ph, S)" by fastforce
  have inv: "server_inv S0 ph S" using step s by simp
  have listen: "0 \<le> listen_fd (sv_tcp S0)" using assms(2) by (simp add: fresh_server_def)
  from step(3) [unfolded s] inv show ?case
    by (elim ps_stepE) (auto dest: accept_inv [OF _ listen] server_inv_request(1,3) server_inv_tick server_inv_down)
qed

section \<open>The start\<close>

definition nothing_left :: "process \<Rightarrow> leftovers" where
  "nothing_left P = \<lparr>left_live = 0, left_process = P, left_sockets = [], left_uart = [], left_csv = False\<rparr>"

text \<open>The CSV file is the one thing that a failing start may leave open: when the UART cannot be opened.\<close>

definition csv_left_open :: "start_sys \<Rightarrow> bool" where
  "csv_left_open sys \<longleftrightarrow> open_csv sys \<noteq> None \<and> (\<exists>p. start_safety sys = Inr p)"

lemma model_unload_null: "fst (model_unload live m) = live - (if m_fc_weights m \<noteq> None then 1 else 0)
    - (if m_fc_biases m \<noteq> None then 1 else 0)"
  by (simp add: model_unload_def Let_def)

text \<open>A port that nothing has opened yet.\<close>

definition closed_port :: "posix_port \<Rightarrow> bool" where
  "closed_port p \<longleftrightarrow> fd p = -1 \<and> open_fds p = []"

lemma start_safety_result:
  assumes "closed_port (st_port sys)"
  shows "case start_safety sys of Inr p \<Rightarrow> open_fds p = []
    | Inl None \<Rightarrow> True
    | Inl (Some H) \<Rightarrow> bridge_inv (jconfig H) H \<and> idle_handle H"
proof (cases "st_environment sys ''ADAS_UART_PORT''")
  case (Some path)
  let ?baud = "env_ulong (st_environment sys) (st_strtoul sys) ''ADAS_UART_BAUD'' 115200"
  obtain h p where st: "ps_safety_start (Some path) ?baud (st_port sys) (st_uart sys) (st_environment sys)
      (st_strtof sys) (st_strtoull sys) = (h, p)" by fastforce
  have "h = None \<Longrightarrow> open_fds p = []"
    using safety_start_result [of "st_port sys" "Some path" ?baud "st_uart sys" "st_environment sys" "st_strtof sys" "st_strtoull sys"]
      assms st by (simp add: closed_port_def)
  moreover have "bridge_inv (jconfig H) H \<and> idle_handle H" if "h = Some H" for H
    using st that
    by (auto simp: ps_safety_start_def Let_def initial_handle_def bridge_inv_def idle_handle_def latch_ok_def
        HazardLatch_def SafetyTransmitter_def kMaxDetections_def split: if_splits prod.splits)
  ultimately show ?thesis using Some st by (auto simp: start_safety_def Let_def split: option.splits)
qed (simp add: start_safety_def)

lemma listen_result:
  assumes "server_listen (server_init T\<lparr>held_fds := []\<rparr>) config sys = (T', st)"
  shows "st \<noteq> TcpOk \<Longrightarrow> held_fds T' = []"
    "st = TcpOk \<Longrightarrow> 0 \<le> listen_fd T' \<and> client_fd T' = -1 \<and> held_fds T' = [listen_fd T']"
  using assms by (auto simp: server_listen_def server_init_def Let_def split: if_splits)

lemma copied_weights:
  assumes "device_w_conv0 d = Some 0x8000" "device_w_conv1 d = Some 0x9000" "device_w_conv2 d = Some 0xb000"
  shows "weights_hold md (copy_to (device_w_conv2 d) W_CONV2_SIZE (m_w_conv2 md)
    (copy_to (device_w_conv1 d) W_CONV1_SIZE (m_w_conv1 md) (copy_to (device_w_conv0 d) W_CONV0_SIZE (m_w_conv0 md) m)))"
  by (auto simp: weights_hold_def copy_to_def assms buffer_sizes)

lemma loaded_registers:
  assumes "set_parameters c (Some (parameters_request p)) = (c', None)" "m_pl_parameters md = p"
  shows "registers_hold md (kexec c')" "parameters_set c'" "dma_handle c' = dma_handle c"
  using set_parameters_registers [OF assms(1)] assms(2)
  by (simp_all add: registers_hold_def parameters_request_def requant_request_def Let_def)

lemma load_stage:
  assumes "model_load fs mw mb 0 (model_init (Some m0)) (Some dir) (Some md) = (live, mp, st)"
  shows "st \<noteq> ModelOk \<Longrightarrow> live = 0"
    "st = ModelOk \<Longrightarrow> live = 2 \<and> (\<exists>m. mp = Some m \<and> m_fc_weights m \<noteq> None \<and> m_fc_biases m \<noteq> None)"
proof -
  have m: "model_load fs mw mb 0 (Some model_null) (Some dir) (Some md) = (live, mp, st)"
    using assms by (simp add: model_init_def)
  note r = model_load_result [where fs = fs and mw = mw and mb = mb and live = 0 and dir = dir and md = md, unfolded m prod.case]
  show "st \<noteq> ModelOk \<Longrightarrow> live = 0" using r by simp
  show "live = 2 \<and> (\<exists>m. mp = Some m \<and> m_fc_weights m \<noteq> None \<and> m_fc_biases m \<noteq> None)" if "st = ModelOk"
    using r that by (cases mp) simp_all
qed

lemma open_stage:
  assumes "device_open P (device_init (Some d0)) path sys = (P', d, st)"
  shows "st \<noteq> DeviceOk \<Longrightarrow> P' = P"
    "st = DeviceOk \<Longrightarrow> d \<noteq> None \<and> 0 \<le> dev_fd (the d) \<and> dev_dma (the d) \<noteq> None \<and> dev_span (the d) = DMA_SPAN
       \<and> device_close P' (the d) = (P, device_null)"
  using assms
  by (auto simp: device_init_def device_open_def device_null_def Let_def device_close_def
      split: if_splits option.splits prod.splits)

lemma server_start_result:
  assumes "closed_port (st_port sys)" "unat (dma_handle (st_driver sys)) + 0x13000 < 2 ^ 64"
  shows "case server_start msecs args sys P of
      Inr L \<Rightarrow> L = nothing_left P \<or> csv_left_open sys \<and> L = (nothing_left P)\<lparr>left_csv := True\<rparr>
    | Inl S \<Rightarrow> fresh_server S \<and> device_ready (sv_device S) (sv_model S) (sv_cl S)
        \<and> sv_live S = 2 \<and> m_fc_weights (sv_model S) \<noteq> None \<and> m_fc_biases (sv_model S) \<noteq> None
        \<and> device_close (sv_process S) (sv_device S) = (P, device_null)"
proof -
  obtain live mp mst where ml: "model_load (st_files sys) (malloc_weights sys) (malloc_biases sys) 0
      (model_init (Some (st_stack_model sys))) (Some (arg_model_dir args)) (Some (arg_metadata args)) = (live, mp, mst)"
    by (metis prod_cases3)
  obtain P1 dev dst where dv: "device_open P (device_init (Some (st_stack_device sys))) (Some ''/dev/adas_classifier'')
      (st_device sys) = (P1, dev, dst)" by (metis prod_cases3)
  show ?thesis
  proof (cases "mst = ModelOk \<and> dst = DeviceOk")
    case False
    then show ?thesis
      using load_stage [OF ml] open_stage [OF dv]
      by (auto simp: server_start_def ml dv Let_def nothing_left_def model_unload_null)
  next
    case True
    obtain m where m: "mp = Some m" "m_fc_weights m \<noteq> None" "m_fc_biases m \<noteq> None" "live = 2"
      using load_stage(2) [OF ml] True by auto
    obtain d where d: "dev = Some d" "0 \<le> dev_fd d" "dev_dma d \<noteq> None" "dev_span d = DMA_SPAN"
      "device_close P1 d = (P, device_null)" using open_stage(2) [OF dv] True by (cases dev) auto
    have unload: "fst (model_unload live m) = 0" using m by (simp add: model_unload_null)
    obtain c pst where lp: "device_load_parameters msecs (Some d) (Some (m_pl_parameters m)) (st_set_env sys)
        (st_driver sys) = (c, pst)" by fastforce
    obtain T lst where ls: "server_listen (server_init (st_stack_tcp sys)\<lparr>held_fds := []\<rparr>)
        \<lparr>bind_address = arg_bind args, server_port = arg_port args, backlog = DEFAULT_BACKLOG\<rparr> (st_listen sys) = (T, lst)"
      by fastforce
    note listen = listen_result [OF ls]
    show ?thesis
    proof (cases "pst = Some DeviceOk \<and> lst = TcpOk")
      case False
      then show ?thesis using True m(1) d(1,5) unload lp ls listen
        by (auto simp: server_start_def ml dv Let_def nothing_left_def)
    next
      case ok: True
      note regs = loaded_registers [OF load_parameters_ok [OF lp [unfolded ok [THEN conjunct1]]] refl]
      have weights: "weights_hold m (copy_to (device_w_conv2 dev) W_CONV2_SIZE (m_w_conv2 m)
          (copy_to (device_w_conv1 dev) W_CONV1_SIZE (m_w_conv1 m)
          (copy_to (device_w_conv0 dev) W_CONV0_SIZE (m_w_conv0 m) (st_memory sys))))"
        using d(1,3,4) open_buffers [of d] by (intro copied_weights) auto
      have close: "held_fds (server_close T) = []"
        using listen(2) ok by (simp add: server_close_def server_disconnect_def Let_def)
      show ?thesis
      proof (cases "start_safety sys")
        case (Inl h)
        then show ?thesis using start_safety_result [OF assms(1)] True ok m d lp ls listen(2) regs weights assms(2)
          by (auto simp: server_start_def ml dv Let_def fresh_server_def device_ready_def split: option.splits)
      next
        case (Inr p)
        then show ?thesis using start_safety_result [OF assms(1)] True ok m(1) d(1,5) unload lp ls close
          by (auto simp: server_start_def ml dv Let_def nothing_left_def csv_left_open_def)
      qed
    qed
  qed
qed

section \<open>The UART descriptor\<close>

definition port_ok :: "posix_port \<Rightarrow> bool" where
  "port_ok p \<longleftrightarrow> open_fds p = (if isOpen p then [fd p] else [])"

lemma posix_write_port: "port_ok p \<Longrightarrow> port_ok (fst (posix_write p bs))"
  by (auto simp: posix_write_def uart_write_def port_ok_def isOpen_def split: prod.splits)

lemma sendLocked_port:
  assumes "port_ok (port T)"
  shows "port_ok (port (fst (sendLocked posix_write T s)))"
proof -
  obtain bytes good where e: "encode s (Some (replicate kFrameSize 0)) kFrameSize = (bytes, good)" by fastforce
  have "sendLocked posix_write T s = (send_failed T, False)
      \<or> port (fst (sendLocked posix_write T s)) = fst (posix_write (port T) (the bytes))"
    unfolding sendLocked_def e
    by (cases bytes; cases good; cases "posix_write (port T) (the bytes)") (simp_all add: Let_def send_failed_def)
  then show ?thesis using assms posix_write_port by (auto simp: send_failed_def)
qed

lemma tx_port:
  "port_ok (port T) \<Longrightarrow> port_ok (port (tx_publish posix_write T s now))"
  "port_ok (port T) \<Longrightarrow> port_ok (port (fst (tx_tick posix_write T now)))"
  by (auto simp: tx_publish_def tx_tick_def Let_def intro!: sendLocked_port)

lemma tx_run_port: "port_ok (port T) \<Longrightarrow> port_ok (port (fst (tx_run posix_write T rounds)))"
proof (induction posix_write T rounds rule: tx_run.induct)
  case (2 T started now after rounds)
  then have "port_ok (port (fst (tx_run posix_write (fst (tx_tick posix_write T now)) rounds)))"
    by (simp add: tx_port)
  then show ?case by (simp add: Let_def case_prod_beta)
qed simp

lemma bridge_ops_port: "port_ok (port (htx H)) \<Longrightarrow> port_ok (port (htx (bridge_ops ops H)))"
proof (induction ops arbitrary: H)
  case (Cons op ops)
  then have "port_ok (port (htx (bridge_do posix_write H op)))"
    by (cases op) (simp_all add: flush_frame_eq Let_def tx_port)
  then show ?case using Cons.IH by simp
qed simp

lemma server_start_port:
  assumes "closed_port (st_port sys)" "server_start msecs args sys P = Inl S" "sv_safety S = Some H"
  shows "port_ok (port (htx H))"
proof -
  have "start_safety sys = Inl (Some H)"
    using assms(2,3) by (auto simp: server_start_def Let_def split: prod.splits if_splits sum.splits)
  then show ?thesis using assms(1)
    by (auto simp: start_safety_def ps_safety_start_def uart_open_def closed_port_def port_ok_def isOpen_def
        initial_handle_def SafetyTransmitter_def Let_def split: option.splits if_splits prod.splits)
qed

section \<open>A server that is ready\<close>

definition server_ready :: "process \<Rightarrow> ps_server \<Rightarrow> bool" where
  "server_ready P S \<longleftrightarrow> device_ready (sv_device S) (sv_model S) (sv_cl S)
     \<and> sv_live S = 2 \<and> m_fc_weights (sv_model S) \<noteq> None \<and> m_fc_biases (sv_model S) \<noteq> None
     \<and> device_close (sv_process S) (sv_device S) = (P, device_null)
     \<and> (\<forall>H. sv_safety S = Some H \<longrightarrow> port_ok (port (htx H)))"

text \<open>Every run of the PL keeps the contract.\<close>

definition pl_ok :: "engine_mem \<Rightarrow> ps_config \<Rightarrow> request_env \<Rightarrow> ps_server \<Rightarrow> bool" where
  "pl_ok M cf e S \<longleftrightarrow> pl_contract M (cf_msecs cf) (sv_device S) (rq_classify e) (sv_cl S)"

lemma server_ready_request:
  assumes "server_ready P S" "pl_ok M cf e S" "serve_request cf e S = Some (S', go)"
  shows "server_ready P S'" "server_ready P (end_session S')"
proof -
  show "server_ready P S'" using assms(3)
  proof (cases rule: serve_request_cases)
    case (lost T st q)
    have "port_ok (port (htx (bridge_ops [ForceStop now] H)))" if "port_ok (port (htx H))" for H now
      using bridge_ops_port [OF that] .
    then show ?thesis using assms(1)
      by (auto simp: server_ready_def lost(4) server_force_stop_def ps_safety_force_stop_def tx_port)
  next
    case (handled h b cl r T T' q st timing)
    have "device_ready (sv_device S) (sv_model S) cl"
      using handled(1) assms(1,2) classify_one_ready
      by (fastforce simp: request_received_def server_ready_def pl_ok_def)
    then have "device_ready (sv_device S) (sv_model S) (cl\<lparr>cl_timing := timing\<rparr>)" by (simp add: device_ready_def)
    then show ?thesis using assms(1)
      by (auto simp: server_ready_def handled(8-13,15) bridge_ops_port simp del: bridge_ops_simps)
  qed
  then show "server_ready P (end_session S')" by (simp add: server_ready_def end_session_def)
qed

lemma server_ready_other:
  "server_ready P S \<Longrightarrow> accept_client conn_fd conn S = (S', st) \<Longrightarrow> server_ready P S'"
  "server_ready P S \<Longrightarrow> server_ready P (server_tick now S)"
  by (auto simp: server_ready_def accept_client_def server_tick_def tx_port split: prod.splits if_splits)

lemma shutdown_clean:
  assumes "server_ready P S" "server_inv S0 Accepting S" "0 \<le> listen_fd (sv_tcp S0)"
  shows "server_shutdown now rounds S = nothing_left P"
proof -
  have "open_fds (uart_close p) = []" if "port_ok p" for p
    using that by (auto simp: uart_close_def port_ok_def isOpen_def)
  then have "left_uart (server_shutdown now rounds S) = []"
    using assms(1) bridge_ops_port [where ops = "[ForceStop now]"]
    by (auto simp: server_shutdown_def ps_safety_stop_def server_ready_def tx_run_port tx_port split: option.splits)
  then show ?thesis using assms
    by (auto simp: server_shutdown_def nothing_left_def server_ready_def server_inv_def model_unload_null
        server_close_def server_disconnect_def Let_def)
qed

lemma reach_ready:
  assumes "ps_reach (pl_ok M cf) cf S0 (ph, S)" "fresh_server S0" "server_ready P S0"
  shows "server_ready P S \<and> (\<forall>L. ph = Finished L \<longrightarrow> L = nothing_left P)"
  using assms(1)
proof (induction "(ph, S)" arbitrary: ph S rule: ps_reach.induct)
  case start
  then show ?case using assms(3) by simp
next
  case (step s ph' S')
  obtain ph S where s: "s = (ph, S)" by fastforce
  have ready: "server_ready P S" using step(2) s by blast
  have inv: "server_inv S0 ph S" using reach_inv [OF _ assms(2)] step(1) s by blast
  have listen: "0 \<le> listen_fd (sv_tcp S0)" using assms(2) by (simp add: fresh_server_def)
  from step(3) [unfolded s] ready inv show ?case
    by (elim ps_stepE) (auto dest: server_ready_other server_ready_request accept_inv(2) [OF _ listen]
        shutdown_clean [OF _ _ listen])
qed

section \<open>A concrete server\<close>

definition witness_server :: ps_server where
  "witness_server = \<lparr>sv_live = 2, sv_process = \<lparr>proc_fds = [3], proc_maps = [(0, DMA_SPAN)]\<rparr>,
     sv_tcp = \<lparr>listen_fd = 4, client_fd = -1, held_fds = [4],
       client = \<lparr>incoming = [], send_replies = [], outgoing = []\<rparr>\<rparr>,
     sv_device = \<lparr>dev_fd = 3, dev_dma = Some 0, dev_span = DMA_SPAN\<rparr>, sv_model = witness_model,
     sv_cl = witness_state,
     sv_safety = Some (initial_handle project_config 5000 \<lparr>fd = 6, replies = [], wire = [], open_fds = [6]\<rparr>),
     sv_metrics = session_metrics_reset, have_current_frame = False, current_frame_id = 0, sv_csv = None\<rparr>"

lemma witness_server_ok:
  "fresh_server witness_server" "server_ready \<lparr>proc_fds = [], proc_maps = []\<rparr> witness_server"
proof -
  show "fresh_server witness_server"
    by (simp add: fresh_server_def witness_server_def bridge_inv_def idle_handle_def initial_handle_def latch_ok_def
        HazardLatch_def SafetyTransmitter_def kMaxDetections_def)
  show "server_ready \<lparr>proc_fds = [], proc_maps = []\<rparr> witness_server"
    by (simp add: server_ready_def witness_server_def witness_state_def witness_model_def model_null_def requant_null_def
        device_ready_def registers_hold_def weights_hold_def device_close_def device_null_def initial_handle_def
        SafetyTransmitter_def port_ok_def isOpen_def)
qed

section \<open>Properties\<close>

text \<open>
  C24: Starting gives back what it took, but for one file. Whatever the files, the driver, the network and the
  environment answer, a start that fails leaves nothing allocated or mapped and no device, socket or UART open; the
  stream of the CSV file is closed too, unless one was asked for, could be opened, and the UART then failed: only
  then can it be left open. A start that succeeds
  hands on a ready server: the weights in the buffers and the parameters in the registers of the
  device are the model's, one socket is held, the listening one, and the bridge, if there is one,
  begins in Stop.
\<close>

theorem server_start_all_or_nothing:
  assumes "closed_port (st_port sys)" "unat (dma_handle (st_driver sys)) + 0x13000 < 2 ^ 64"
  shows "case server_start msecs args sys P of
      Inr L \<Rightarrow> left_live L = 0 \<and> left_process L = P \<and> left_sockets L = [] \<and> left_uart L = []
        \<and> (left_csv L \<longrightarrow> open_csv sys \<noteq> None \<and> (\<exists>p. start_safety sys = Inr p))
    | Inl S \<Rightarrow> fresh_server S \<and> server_ready P S"
  using server_start_result [OF assms, where msecs = msecs and args = args and P = P] server_start_port [OF assms(1)]
  by (auto simp: nothing_left_def csv_left_open_def server_ready_def split: sum.splits)

lemma start_cases: "case r of Inr L \<Rightarrow> A L \<and> B L \<and> C L \<and> D L \<and> (left_csv L \<longrightarrow> E) | Inl S \<Rightarrow> F S \<Longrightarrow> \<not> E \<Longrightarrow>
    case r of Inr L \<Rightarrow> A L \<and> B L \<and> C L \<and> D L \<and> \<not> left_csv L | Inl S \<Rightarrow> F S"
  by (auto split: sum.splits)

theorem server_start_all_or_nothing_witness:
  "let args = \<lparr>arg_bind = None, arg_port = 5000, arg_model_dir = ''/opt/model'',
         arg_metadata = \<lparr>md_class_count = 6, md_gap_divisor = 144, md_rq_conv0 = requant_null,
           md_rq_conv1 = requant_null, md_rq_conv2 = requant_null\<rparr>, arg_scale = Fin (1/8)\<rparr>;
       sys = \<lparr>st_files = (\<lambda>path. Some \<lparr>content = replicate 432 0, read_fails = False, close_ok = True\<rparr>),
         malloc_weights = Some (\<lambda>_. 9), malloc_biases = Some (\<lambda>_. 9),
         st_device = \<lparr>open_result = 3, info_result = Some driver_info, mmap_result = Some 0\<rparr>,
         st_driver = cl_driver witness_state, st_memory = (\<lambda>_. 5),
         st_set_env = \<lparr>in_parameters = None, in_run = None, copy_out_ok = True, jiffies0 = 0, poll_rounds = []\<rparr>,
         st_listen = \<lparr>socket_fd = 4, reuse_ok = True, pton_ok = True, bind_ok = True, listen_ok = True\<rparr>,
         st_environment = (\<lambda>_. None), st_strtoul = (\<lambda>_. (0, 0, False)), st_strtof = (\<lambda>_. (Fin 0, 0, False)),
         st_strtoull = (\<lambda>_. (0, 0, False)), st_csv_opens = True,
         st_port = \<lparr>fd = -1, replies = [], wire = [], open_fds = []\<rparr>,
         st_uart = \<lparr>new_fd = 6, getattr_ok = True, setattr_ok = True\<rparr>, st_stack_model = witness_model,
         st_stack_device = device_null, st_stack_tcp = sv_tcp witness_server\<rparr>
   in case server_start (\<lambda>m. m) args sys \<lparr>proc_fds = [0, 1, 2], proc_maps = []\<rparr> of
        Inr L \<Rightarrow> left_live L = 0 \<and> left_process L = \<lparr>proc_fds = [0, 1, 2], proc_maps = []\<rparr> \<and> left_sockets L = []
          \<and> left_uart L = [] \<and> \<not> left_csv L
      | Inl S \<Rightarrow> fresh_server S \<and> server_ready \<lparr>proc_fds = [0, 1, 2], proc_maps = []\<rparr> S"
  unfolding Let_def
  by (rule server_start_all_or_nothing [THEN start_cases]) (simp_all add: closed_port_def witness_state_def open_csv_def)

text \<open>
  C2: No client, no motion. Through any sequence of connections, requests, losses and ticks of the
  transmitter's thread, whenever no client is served the decided state and the published state are
  Stop, nothing observed is pending, no sign is held, and the thread sends Stop at any time.
\<close>

theorem no_client_no_motion:
  assumes "fresh_server S0" "ps_reach ok cf S0 (ph, S)" "ph \<noteq> Serving" "sv_safety S = Some H"
  shows "hstate H = Stop \<and> pending_dets H = [] \<and> sign_slow_until_ms H = 0
    \<and> snd (tx_tick posix_write (htx H) now) = Stop"
  using reach_inv [OF assms(2,1)] assms(3,4)
  by (auto simp: server_inv_def idle_handle_def tx_tick_def Let_def split: option.splits)

theorem no_client_no_motion_witness:
  "snd (tx_tick posix_write (htx (the (sv_safety (server_tick 7 witness_server)))) 9) = Stop"
proof -
  obtain H where H: "sv_safety (server_tick 7 witness_server) = Some H"
    by (simp add: server_tick_def witness_server_def)
  have "ps_reach (\<lambda>_ _. True) cf witness_server (Accepting, server_tick 7 witness_server)" for cf
    by (rule ps_reach.step [OF ps_reach.start]) (rule ps_step.tick, simp)
  from no_client_no_motion [OF witness_server_ok(1) this _ H] show ?thesis using H by simp
qed

text \<open>
  C21: The server's states are well typed. In every reachable state the server holds the listening
  socket and, exactly while it serves, one client; the device stays ready, with the model's weights
  and parameters in place; the bridge keeps its own invariant; every request is counted as OK or as
  an error; and when the server ends, nothing is left.
\<close>

theorem server_states_well_typed:
  assumes "fresh_server S0" "server_ready P S0" "ps_reach (pl_ok M cf) cf S0 (ph, S)"
  shows "held_fds (sv_tcp S) = (if ph = Serving then [client_fd (sv_tcp S)] else []) @ [listen_fd (sv_tcp S0)]
    \<and> (0 \<le> client_fd (sv_tcp S) \<longleftrightarrow> ph = Serving)
    \<and> device_ready (sv_device S0) (sv_model S0) (sv_cl S)
    \<and> (\<forall>H. sv_safety S = Some H \<longrightarrow> length (pending_dets H) \<le> 32 \<and> latch_ok (hlatch H) \<and> published_state (htx H) = hstate H)
    \<and> stat_count (mt_server (sv_metrics S)) = ok_count (sv_metrics S) + error_count (sv_metrics S)
    \<and> (\<forall>L. ph = Finished L \<longrightarrow> L = \<lparr>left_live = 0, left_process = P, left_sockets = [], left_uart = [], left_csv = False\<rparr>)"
  using reach_ready [OF assms(3,1,2)] reach_inv [OF assms(3,1)]
  by (cases "ph = Serving") (auto simp: server_inv_def server_ready_def nothing_left_def bridge_inv_def
      kMaxDetections_def split: option.splits)

theorem server_states_well_typed_witness:
  "\<forall>cf M. let S = fst (accept_client 5 (client (sv_tcp witness_server)) witness_server) in
     ps_reach (pl_ok M cf) cf witness_server (Serving, S) \<and> held_fds (sv_tcp S) = [5, 4]"
proof (intro allI)
  fix cf M
  let ?S = "fst (accept_client 5 (client (sv_tcp witness_server)) witness_server)"
  have acc: "accept_client 5 (client (sv_tcp witness_server)) witness_server = (?S, TcpOk)" "client_fd (sv_tcp ?S) = 5"
    "listen_fd (sv_tcp witness_server) = 4"
    by (simp_all add: accept_client_def server_accept_def witness_server_def)
  have "ps_reach (pl_ok M cf) cf witness_server (Serving, ?S)"
    by (rule ps_reach.step [OF ps_reach.start ps_step.accepted]) (rule acc(1))
  then show "let S = ?S in ps_reach (pl_ok M cf) cf witness_server (Serving, S) \<and> held_fds (sv_tcp S) = [5, 4]"
    using server_states_well_typed [OF witness_server_ok, of M cf Serving ?S] acc(2,3) by (simp add: Let_def)
qed

end
