(* ===== verification/Ps_Answers.thy ===== *)
theory Ps_Answers
  imports Ps_Sessions
begin

text \<open>
  What comes out of a session of the classifier server: every answer is one the client accepts, a
  session ends with the stream, every whole request is answered, in order and for the loaded model,
  and the safety bridge judges every frame but the last.
\<close>

section \<open>Answers that the client accepts\<close>

lemma acceptable_failed:
  "st \<in> {STATUS_INVALID_PAYLOAD, STATUS_ACCELERATOR_ERROR, STATUS_POSTPROCESS_ERROR} \<Longrightarrow>
     response_acceptable (failed_result st)"
  by (auto simp: response_acceptable_def failed_result_def STATUS_INVALID_PAYLOAD_def STATUS_OK_def
      STATUS_ACCELERATOR_ERROR_def STATUS_POSTPROCESS_ERROR_def CONFIDENCE_PPM_MAX_def)

lemma class_id_valid:
  assumes "i < unat (n :: u32)"
  shows "word_of_nat i \<noteq> INVALID_CLASS_ID"
proof
  assume "word_of_nat i = INVALID_CLASS_ID"
  moreover have n: "unat n < 2 ^ 32" using unsigned_less [where ?'a = nat and w = n] by simp
  moreover have "unat (word_of_nat i :: u32) = i" using assms n by (simp add: unat_of_nat)
  moreover have "unat INVALID_CLASS_ID = 2 ^ 32 - 1"
    by (simp only: INVALID_CLASS_ID_def unsigned_minus_1_eq_mask) (simp add: mask_eq_exp_minus_1)
  ultimately show False using assms by simp
qed

lemma postprocess_shape:
  "postprocess exp64 out md sc env = failed_result STATUS_POSTPROCESS_ERROR
   \<or> r_status (postprocess exp64 out md sc env) = STATUS_OK
     \<and> r_class_id (postprocess exp64 out md sc env) \<noteq> INVALID_CLASS_ID"
proof (cases "logits_block env")
  case (Some logits)
  let ?n = "unat (m_class_count md)"
  obtain st l where f: "(case (m_fc_weights md, m_fc_biases md) of
        (Some w, Some b) \<Rightarrow> fc (gap_sum out (sums_block env)) (m_gap_divisor md) w b ?n logits
      | _ \<Rightarrow> (PostInvalidArgument, logits)) = (st, l)" by fastforce
  have pos: "st = PostOk \<Longrightarrow> 0 < ?n" using f by (auto simp: fc_def split: option.splits if_splits)
  have "word_of_nat (argmax_index l ?n) \<noteq> INVALID_CLASS_ID" if "st = PostOk"
    using argmax_index_first [OF pos [OF that], of l] by (intro class_id_valid [where n = "m_class_count md"]) simp
  then show ?thesis using pos
    unfolding postprocess_def Let_def Some option.simps(5) unfolding f unfolding prod.case by (cases "st = PostOk") (simp_all add: argmax_def)
qed (simp add: postprocess_def)

lemma classify_one_shape:
  assumes "classify_one msecs exp64 img dev md sc env s = Some (s', r)"
  shows "r \<in> failed_result ` {STATUS_INVALID_PAYLOAD, STATUS_ACCELERATOR_ERROR, STATUS_POSTPROCESS_ERROR}
    \<or> r_status r = STATUS_OK \<and> r_class_id r \<noteq> INVALID_CLASS_ID"
proof -
  have "r = failed_result STATUS_INVALID_PAYLOAD \<or> r = failed_result STATUS_ACCELERATOR_ERROR
      \<or> (\<exists>out. r = postprocess exp64 out md sc env)"
    using assms unfolding classify_one_def Let_def
    by (auto split: option.splits prod.splits if_splits)
  then show ?thesis using postprocess_shape [of exp64 _ md sc env] by auto
qed

lemma acceptable:
  assumes "classify_one msecs exp64 img dev md sc env s = Some (s', r)" "r_confidence_ppm r \<le> CONFIDENCE_PPM_MAX"
  shows "response_acceptable r"
  using classify_one_shape [OF assms(1)]
proof
  assume "r_status r = STATUS_OK \<and> r_class_id r \<noteq> INVALID_CLASS_ID"
  then show ?thesis using assms(2) by (simp add: response_acceptable_def not_less STATUS_OK_def)
qed (use acceptable_failed in blast)

section \<open>What goes out\<close>

lemma serve_request_outgoing:
  assumes "serve_request cf e S = Some (S', go)" "length (response_block e) = HEADER_SIZE + RESULT_PAYLOAD_SIZE"
    "0 \<le> client_fd (sv_tcp S)"
  shows "(\<not> go \<and> outgoing (client (sv_tcp S')) = outgoing (client (sv_tcp S)))
    \<or> (\<exists>h b cl r sent. request_received cf e S h b cl r \<and> response_acceptable r
        \<and> outgoing (client (sv_tcp S')) = outgoing (client (sv_tcp S)) @ sent
        \<and> (if go then sent = response_bytes h r else \<exists>n < length (response_bytes h r). sent = take n (response_bytes h r)))"
  using assms(1)
proof (cases rule: serve_request_cases)
  case (lost T st q)
  then show ?thesis using receive_request_keeps(4) [OF lost(1)] by simp
next
  case (handled h b cl r T T' q st timing)
  note keep = receive_request_keeps [OF handled(2)]
  show ?thesis
  proof (cases "r_confidence_ppm r \<le> CONFIDENCE_PPM_MAX")
    case False
    then have "T' = T" "st \<noteq> TcpOk" using handled(6) assms(3) keep(2) by (auto simp: send_result_def not_le)
    then show ?thesis using handled keep(4) by simp
  next
    case True
    have ok: "response_acceptable r" using acceptable [OF _ True] handled(1) by (auto simp: request_received_def)
    have "send_result (response_block e) T h r = (case send_all (client T) (response_bytes h r) of
        (k, status) \<Rightarrow> (T\<lparr>client := k\<rparr>, status))"
      using send_result_bytes [OF assms(2) _ True, of T h] assms(3) keep(2) by simp
    then obtain k where k: "send_all (client T) (response_bytes h r) = (k, st)" "T' = T\<lparr>client := k\<rparr>"
      using handled(6) by (auto split: prod.splits)
    have ne: "response_bytes h r \<noteq> []" by (simp add: response_bytes_def)
    have "server_write (client T) (response_bytes h r) = (k, st = TcpOk)" using k(1) by (simp add: server_write_def)
    then obtain sent where sent: "outgoing k = outgoing (client T) @ sent"
      "if go then sent = response_bytes h r else \<exists>n<length (response_bytes h r). sent = take n (response_bytes h r)"
      using server_out.write_ok [of "client T" "response_bytes h r" k] server_out.write_fails [of "client T" "response_bytes h r" k]
        handled(7) ne by (cases go) fastforce+
    show ?thesis
      by (intro disjI2 exI [of _ h] exI [of _ b] exI [of _ cl] exI [of _ r] exI [of _ sent])
        (use handled(1,10) k(2) keep(4) ok sent in simp)
  qed
qed

section \<open>The end of a session\<close>

text \<open>The driver's polling loop returns in what it meets.\<close>

definition run_returns :: "(u32 \<Rightarrow> u32) \<Rightarrow> ioctl_env \<Rightarrow> bool" where
  "run_returns msecs io \<longleftrightarrow> poll_done (poll_rounds io) (jiffies0 io + msecs 1000) \<noteq> None"

lemma device_run_returns: "run_returns msecs io \<Longrightarrow> snd (device_run msecs dev 1000 io c) \<noteq> None"
  by (auto simp: run_returns_def device_run_def classifier_ioctl_def run_classifier_def Let_def
      split: option.splits prod.splits)

lemma classify_one_returns:
  "run_returns msecs (run_env env) \<Longrightarrow> classify_one msecs exp64 img dev md sc env s \<noteq> None"
  using device_run_returns [of msecs "run_env env" dev "cl_driver s"]
  by (auto simp: classify_one_def Let_def split: option.splits prod.splits)

lemma serve_request_returns:
  assumes "run_returns (cf_msecs cf) (run_env (rq_classify e))"
  shows "serve_request cf e S \<noteq> None"
  by (auto simp: serve_request_def Let_def classify_one_returns [OF assms] split: option.splits prod.splits)

definition request_size :: nat where
  "request_size = HEADER_SIZE + REQUEST_PAYLOAD_SIZE"

lemma request_size_value: "request_size = 27696"
  by (simp add: request_size_def size_defs)

lemma io_status_stream_end: "io_status (stream_end as) \<noteq> TcpOk"
  by (induction as rule: stream_end.induct) simp_all

text \<open>A round that goes on has taken a whole request from the stream.\<close>

lemma serve_request_consumes:
  assumes "serve_request cf e S = Some (S', True)" "0 \<le> client_fd (sv_tcp S)"
  shows "request_size \<le> length (stream_of (incoming (client (sv_tcp S))))
    \<and> stream_of (incoming (client (sv_tcp S'))) = drop request_size (stream_of (incoming (client (sv_tcp S))))
    \<and> client_fd (sv_tcp S') = client_fd (sv_tcp S)"
  using assms(1)
proof (cases rule: serve_request_cases)
  case (handled h b cl r T T' q st timing)
  show ?thesis
    using receive_request_stream [OF assms(2) handled(2)] send_result_keeps [OF handled(6)] handled(10)
      receive_request_keeps(2) [OF handled(2)]
    by (auto simp: request_size_def not_less dest: sym [of TcpOk] simp: io_status_stream_end split: if_splits)
qed simp

lemma serve_session_ends:
  assumes "\<And>S. run_returns (cf_msecs cf) (run_env (rq_classify (world S)))"
    and "0 \<le> client_fd (sv_tcp S)" "length (stream_of (incoming (client (sv_tcp S)))) < n * request_size"
  shows "\<exists>S'. serve_session cf world n S = Some S'"
  using assms(2,3)
proof (induction n arbitrary: S)
  case (Suc n)
  obtain S' go where r: "serve_request cf (world S) S = Some (S', go)"
    using serve_request_returns [OF assms(1)] by fastforce
  show ?case
  proof (cases go)
    case True
    then have "serve_request cf (world S) S = Some (S', True)" using r by simp
    note c = serve_request_consumes [OF this Suc.prems(1)]
    have "length (stream_of (incoming (client (sv_tcp S')))) < n * request_size"
      using c Suc.prems(2) by (auto simp: less_diff_conv2 add.commute)
    then show ?thesis using Suc.IH [of S'] c Suc.prems(1) r True by simp
  qed (use r in simp)
qed simp

section \<open>Scores that fit\<close>

text \<open>A model whose scores fit 32 bits whatever the picture.\<close>

definition scores_fit :: "model \<Rightarrow> bool" where
  "scores_fit md \<longleftrightarrow> (\<forall>i<unat (m_class_count md). \<bar>sint (the (m_fc_biases md) i)\<bar> < 2 ^ 31 - 64 * 18288 * 128)"

lemma conv_int_range: "0 \<le> conv_int n img w b rq y x c \<and> conv_int n img w b rq y x c \<le> 127"
  by (simp add: conv_int_def)

lemma pool_int_range: "(\<And>y x c. 0 \<le> f y x c \<and> f y x c \<le> 127) \<Longrightarrow> 0 \<le> pool_int f y x c \<and> pool_int f y x c \<le> 127"
  by (simp add: pool_int_def le_max_iff_disj)

lemma features_range: "0 \<le> features md img y x c \<and> features md img y x c \<le> 127"
  unfolding features_def network_int_def Let_def by (rule pool_int_range) (rule conv_int_range)

lemma c_div_bound: "\<bar>c_div a b\<bar> \<le> \<bar>a\<bar>" for a b :: int
proof -
  have "0 \<le> \<bar>a\<bar> div \<bar>b\<bar>" "\<bar>a\<bar> div \<bar>b\<bar> \<le> \<bar>a\<bar>"
    by (cases "b = 0"; simp add: pos_imp_zdiv_nonneg_iff zdiv_mono2 [of "\<bar>a\<bar>" 1, simplified])+
  then show ?thesis by (simp add: c_div_def abs_mult abs_sgn_eq)
qed

lemma score_in_range:
  assumes "model_ok md" "scores_fit md" "i < unat (m_class_count md)"
  shows "in_range32 (class_score md img i)"
proof -
  let ?g = "\<lambda>c. \<Sum>y<12. \<Sum>x<12. features md img y x c"
  let ?t = "\<lambda>c. c_div (?g c) (sint (m_gap_divisor md)) * sint (the (m_fc_weights md) (i * 64 + c))"
  have row: "0 \<le> (\<Sum>x<12. features md img y x c) \<and> (\<Sum>x<12. features md img y x c) \<le> 1524" if "y < 12" "c < 64" for y c
    using sum_nonneg [of "{..<12}" "\<lambda>x. features md img y x c"] features_range [of md img y _ c]
      sum_bounded_above [of "{..<12}" "\<lambda>x. features md img y x c" 127] by simp
  have g: "\<bar>?g c\<bar> \<le> 18288" if "c < 64" for c
    using sum_nonneg [of "{..<12}" "\<lambda>y. \<Sum>x<12. features md img y x c"]
      sum_bounded_above [of "{..<12}" "\<lambda>y. \<Sum>x<12. features md img y x c" 1524] row [OF _ that] by simp
  have "\<bar>?t c\<bar> \<le> 18288 * 128" if "c < 64" for c
    unfolding abs_mult using c_div_bound [of "?g c" "sint (m_gap_divisor md)"] g [OF that]
      sint_range8 [of "the (m_fc_weights md) (i * 64 + c)"] by (intro mult_mono) auto
  then have "(\<Sum>c<64. \<bar>?t c\<bar>) \<le> 64 * (18288 * 128)"
    using sum_bounded_above [of "{..<64 :: nat}" "\<lambda>c. \<bar>?t c\<bar>" "18288 * 128"] by simp
  then have "\<bar>\<Sum>c<64. ?t c\<bar> \<le> 64 * (18288 * 128)"
    by (rule order_trans [OF sum_abs])
  moreover have "\<bar>sint (the (m_fc_biases md) i)\<bar> < 2 ^ 31 - 64 * 18288 * 128"
    using assms(2,3) by (simp add: scores_fit_def)
  ultimately show ?thesis unfolding in_range32_def class_score_def by (simp add: abs_less_iff abs_le_iff)
qed

section \<open>Rounds that all go on\<close>

fun serve_rounds :: "ps_config \<Rightarrow> (ps_server \<Rightarrow> request_env) \<Rightarrow> nat \<Rightarrow> ps_server \<Rightarrow> ps_server option" where
  "serve_rounds cf world 0 S = Some S"
| "serve_rounds cf world (Suc n) S = (case serve_request cf (world S) S of
     Some (S', True) \<Rightarrow> serve_rounds cf world n S' | _ \<Rightarrow> None)"

definition run_done :: "(u32 \<Rightarrow> u32) \<Rightarrow> ioctl_env \<Rightarrow> bool" where
  "run_done msecs io \<longleftrightarrow> poll_done (poll_rounds io) (jiffies0 io + msecs 1000) = Some None"

text \<open>Surroundings in which everything works: the PL keeps its contract, the driver sees DONE.\<close>

definition works :: "engine_mem \<Rightarrow> ps_config \<Rightarrow> (ps_server \<Rightarrow> request_env) \<Rightarrow> ps_server \<Rightarrow> bool" where
  "works M cf world S \<longleftrightarrow> pl_ok M cf (world S) S \<and> run_done (cf_msecs cf) (run_env (rq_classify (world S)))
     \<and> logits_block (rq_classify (world S)) \<noteq> None
     \<and> length (response_block (world S)) = HEADER_SIZE + RESULT_PAYLOAD_SIZE"

definition scale_ok :: "ps_config \<Rightarrow> bool" where
  "scale_ok cf \<longleftrightarrow> exp_ok (cf_exp cf) \<and> (\<exists>sc. cf_scale cf = Fin sc \<and> 0 < sc \<and> sc < 2 ^ 128)"

lemma ready_run_done:
  assumes "device_ready d md s" "run_done msecs io"
  shows "snd (device_run msecs (Some d) 1000 io (cl_driver s)) = Some DeviceOk"
  using assms by (simp add: device_ready_def run_done_def device_run_def classifier_ioctl_def run_classifier_def Let_def)

lemma classify_one_works:
  assumes "device_ready d md s" "model_ok md" "scores_fit md" "pl_contract M msecs d env s"
    "run_done msecs (run_env env)" "logits_block env \<noteq> None" "exp_ok exp64" "0 < sc" "sc < 2 ^ 128"
  shows "\<exists>s' r. classify_one msecs exp64 img (Some d) md (Fin sc) env s = Some (s', r) \<and> model_answers md img r"
proof -
  obtain block where block: "logits_block env = Some block" using assms(6) by auto
  have "run_returns msecs (run_env env)" using assms(5) by (simp add: run_done_def run_returns_def)
  from classify_one_returns [OF this] obtain s' r where
    r: "classify_one msecs exp64 img (Some d) md (Fin sc) env s = Some (s', r)" by fastforce
  have "\<forall>i<unat (m_class_count md). in_range32 (class_score md img i)"
    using score_in_range [OF assms(2,3)] by blast
  then have "model_answers md img r"
    using classify_one_answer [OF assms(1,2,4) block assms(7-9) r] ready_run_done [OF assms(1,5)] by simp
  then show ?thesis using r by blast
qed

text \<open>One whole request at the front of the stream, and room for one response.\<close>

lemma serve_request_works:
  assumes "server_ready P S" "model_ok (sv_model S)" "scores_fit (sv_model S)" "scale_ok cf" "works M cf world S"
    and "0 \<le> client_fd (sv_tcp S)" "length (pixels (rgb_pixels roi)) = IMAGE_PAYLOAD_SIZE"
    and "stream_of (incoming (client (sv_tcp S))) = request_bytes roi @ rest"
    and "send_replies (client (sv_tcp S)) = Took n # later" "HEADER_SIZE + RESULT_PAYLOAD_SIZE \<le> n"
  shows "\<exists>S' r. serve_request cf (world S) S = Some (S', True)
    \<and> model_answers (sv_model S) (\<lambda>i. pixels (rgb_pixels roi) ! i) r
    \<and> outgoing (client (sv_tcp S')) = outgoing (client (sv_tcp S)) @ response_bytes (request_header roi) r
    \<and> stream_of (incoming (client (sv_tcp S'))) = rest \<and> send_replies (client (sv_tcp S')) = later
    \<and> client_fd (sv_tcp S') = client_fd (sv_tcp S) \<and> sv_model S' = sv_model S"
proof -
  let ?e = "world S" and ?s = "stream_of (incoming (client (sv_tcp S)))"
  obtain sc where sc: "cf_scale cf = Fin sc" "0 < sc" "sc < 2 ^ 128" "exp_ok (cf_exp cf)"
    using assms(4) by (auto simp: scale_ok_def)
  obtain T st q where rq: "receive_request (sv_tcp S) = (T, st, q)" by (metis prod_cases3)
  have s: "?s = header_bytes (request_header roi) @ bbox_bytes (request_bbox roi) @ pixels (rgb_pixels roi) @ rest"
    by (simp add: assms(8) request_bytes_def)
  have len: "\<not> length ?s < HEADER_SIZE" "\<not> length ?s < HEADER_SIZE + REQUEST_PAYLOAD_SIZE"
    using assms(7) by (simp_all add: s REQUEST_PAYLOAD_SIZE_def)
  have dec: "decode_header ?s = request_header roi" "decode_bbox (drop HEADER_SIZE ?s) = request_bbox roi"
    "take IMAGE_PAYLOAD_SIZE (drop (HEADER_SIZE + BBOX_PAYLOAD_SIZE) ?s) = pixels (rgb_pixels roi)"
    "drop (HEADER_SIZE + REQUEST_PAYLOAD_SIZE) ?s = rest"
    using assms(7) by (simp_all add: s REQUEST_PAYLOAD_SIZE_def)
  have req: "st = TcpOk" "q = \<lparr>req_header = Some (request_header roi),
      req_bbox = Some (request_bbox roi), req_image = pixels (rgb_pixels roi)\<rparr>"
    "stream_of (incoming (client T)) = rest"
    using receive_request_stream [OF assms(6) rq] len dec request_header_valid by auto
  note keep = receive_request_keeps [OF rq]
  obtain cl r where cl: "classify_one (cf_msecs cf) (cf_exp cf) (\<lambda>i. pixels (rgb_pixels roi) ! i) (Some (sv_device S))
      (sv_model S) (Fin sc) (rq_classify ?e) (sv_cl S) = Some (cl, r)"
    and ans: "model_answers (sv_model S) (\<lambda>i. pixels (rgb_pixels roi) ! i) r"
    using classify_one_works [of "sv_device S" "sv_model S" "sv_cl S" M "cf_msecs cf" "rq_classify ?e" "cf_exp cf" sc
        "\<lambda>i. pixels (rgb_pixels roi) ! i"] assms(1-3,5) sc by (auto simp: server_ready_def works_def pl_ok_def)
  have conf: "r_confidence_ppm r \<le> CONFIDENCE_PPM_MAX" using ans by (simp add: model_answers_def)
  have ne: "response_bytes (request_header roi) r \<noteq> []" by (simp add: response_bytes_def)
  have "send_all (client T) (response_bytes (request_header roi) r)
      = ((client T)\<lparr>send_replies := later, outgoing := outgoing (client T) @ response_bytes (request_header roi) r\<rparr>, TcpOk)"
    using assms(9,10) keep(5) ne by (simp add: send_all_def send_loop_taken response_bytes_def)
  then have send: "send_result (response_block ?e) T (request_header roi) r
      = (T\<lparr>client := (client T)\<lparr>send_replies := later,
           outgoing := outgoing (client T) @ response_bytes (request_header roi) r\<rparr>\<rparr>, TcpOk)"
    using send_result_bytes [OF _ _ conf, of "response_block ?e" T "request_header roi"] assms(5,6) keep(2)
    by (simp add: works_def)
  show ?thesis
    using rq req cl send keep(4) keep(2) ans sc(1)
    by (intro exI [of _ "fst (the (serve_request cf ?e S))"] exI [of _ r]) (simp add: serve_request_def Let_def)
qed

lemma serve_rounds_answer:
  assumes "scale_ok cf" "\<And>S. server_ready P S \<Longrightarrow> works M cf world S"
    and "server_ready P S" "model_ok (sv_model S)" "scores_fit (sv_model S)" "0 \<le> client_fd (sv_tcp S)"
    and "\<forall>roi \<in> set rois. length (pixels (rgb_pixels roi)) = IMAGE_PAYLOAD_SIZE"
    and "stream_of (incoming (client (sv_tcp S))) = concat (map request_bytes rois) @ rest"
    and "send_replies (client (sv_tcp S)) = map (\<lambda>_. Took (HEADER_SIZE + RESULT_PAYLOAD_SIZE)) rois @ later"
  shows "\<exists>S' rs. serve_rounds cf world (length rois) S = Some S'
    \<and> list_all2 (\<lambda>roi r. model_answers (sv_model S) (\<lambda>i. pixels (rgb_pixels roi) ! i) r) rois rs
    \<and> outgoing (client (sv_tcp S')) = outgoing (client (sv_tcp S))
        @ concat (map2 (\<lambda>roi r. response_bytes (request_header roi) r) rois rs)"
  using assms(3-9)
proof (induction rois arbitrary: S)
  case Nil
  then show ?case by (intro exI [of _ S] exI [of _ "[]"]) simp
next
  case (Cons roi rois)
  obtain S1 r where S1: "serve_request cf (world S) S = Some (S1, True)"
    "model_answers (sv_model S) (\<lambda>i. pixels (rgb_pixels roi) ! i) r"
    "outgoing (client (sv_tcp S1)) = outgoing (client (sv_tcp S)) @ response_bytes (request_header roi) r"
    "stream_of (incoming (client (sv_tcp S1))) = concat (map request_bytes rois) @ rest"
    "send_replies (client (sv_tcp S1)) = map (\<lambda>_. Took (HEADER_SIZE + RESULT_PAYLOAD_SIZE)) rois @ later"
    "client_fd (sv_tcp S1) = client_fd (sv_tcp S)" "sv_model S1 = sv_model S"
    using serve_request_works [OF Cons.prems(1-3) assms(1) assms(2) [OF Cons.prems(1)] Cons.prems(4), of roi "concat (map request_bytes rois) @ rest"]
      Cons.prems(5-7) by auto
  have ready: "server_ready P S1"
    using server_ready_request(1) [OF Cons.prems(1) _ S1(1), of M] assms(2) [OF Cons.prems(1)] by (simp add: works_def)
  obtain S' rs where "serve_rounds cf world (length rois) S1 = Some S'"
    "list_all2 (\<lambda>roi r. model_answers (sv_model S) (\<lambda>i. pixels (rgb_pixels roi) ! i) r) rois rs"
    "outgoing (client (sv_tcp S')) = outgoing (client (sv_tcp S1))
        @ concat (map2 (\<lambda>roi r. response_bytes (request_header roi) r) rois rs)"
    using Cons.IH [OF ready _ _ _ _ S1(4,5)] Cons.prems S1(6,7) by auto
  then show ?case using S1(1-3) by (intro exI [of _ S'] exI [of _ "r # rs"]) simp
qed

section \<open>The frames that a session judges\<close>

text \<open>What the bridge is told of a request: the frame, the time a flush would have, box and result.\<close>

type_synonym frame_log = "(u32 \<times> u64 \<times> roi_bbox \<times> roi_result) list"

definition handled_request :: "ps_config \<Rightarrow> request_env \<Rightarrow> ps_server \<Rightarrow> (u32 \<times> u64 \<times> roi_bbox \<times> roi_result) option" where
  "handled_request cf e S = (case receive_request (sv_tcp S) of (T, st, q) \<Rightarrow>
     if st \<noteq> TcpOk then None
     else map_option (\<lambda>(cl, r). (h_frame_id (the (req_header q)), flush_now e, the (req_bbox q), r))
            (classify_one (cf_msecs cf) (cf_exp cf) (\<lambda>i. req_image q ! i) (Some (sv_device S)) (sv_model S)
               (cf_scale cf) (rq_classify e) (sv_cl S)))"

fun session_log :: "ps_config \<Rightarrow> (ps_server \<Rightarrow> request_env) \<Rightarrow> nat \<Rightarrow> ps_server \<Rightarrow> frame_log" where
  "session_log cf world 0 S = []"
| "session_log cf world (Suc n) S = (case handled_request cf (world S) S of None \<Rightarrow> []
     | Some l \<Rightarrow> l # (case serve_request cf (world S) S of Some (S', True) \<Rightarrow> session_log cf world n S' | _ \<Rightarrow> []))"

text \<open>
  The frames of a log that are complete: a run of requests of one frame ends with the first request
  of another, at whose time it is judged.
\<close>

fun frames_of :: "u32 \<Rightarrow> (roi_bbox \<times> roi_result) list \<Rightarrow> frame_log \<Rightarrow> ((roi_bbox \<times> roi_result) list \<times> u64) list" where
  "frames_of f acc [] = []"
| "frames_of f acc ((g, now, b, r) # ls) =
     (if g = f then frames_of f (acc @ [(b, r)]) ls else (acc, now) # frames_of g [(b, r)] ls)"

fun judged_frames :: "frame_log \<Rightarrow> ((roi_bbox \<times> roi_result) list \<times> u64) list" where
  "judged_frames [] = []"
| "judged_frames ((f, now, b, r) # ls) = frames_of f [(b, r)] ls"

text \<open>The observations of the frame that is still open: those of the last run of requests.\<close>

fun open_of :: "u32 \<Rightarrow> (roi_bbox \<times> roi_result) list \<Rightarrow> frame_log \<Rightarrow> (roi_bbox \<times> roi_result) list" where
  "open_of f acc [] = acc"
| "open_of f acc ((g, now, b, r) # ls) = (if g = f then open_of f (acc @ [(b, r)]) ls else open_of g [(b, r)] ls)"

fun open_frame :: "frame_log \<Rightarrow> (roi_bbox \<times> roi_result) list" where
  "open_frame [] = []"
| "open_frame ((f, now, b, r) # ls) = open_of f [(b, r)] ls"

lemma frames_complete:
  "concat (map fst (frames_of f acc ls)) @ open_of f acc ls = acc @ map (\<lambda>(f, now, b, r). (b, r)) ls"
  by (induction f acc ls rule: frames_of.induct) simp_all

lemma log_complete: "concat (map fst (judged_frames ls)) @ open_frame ls = map (\<lambda>(f, now, b, r). (b, r)) ls"
  by (cases ls rule: judged_frames.cases) (simp_all add: frames_complete)

abbreviation judge_frames ::
  "posix_port handle \<Rightarrow> ((roi_bbox \<times> roi_result) list \<times> u64) list \<Rightarrow> posix_port handle" where
  "judge_frames H fs \<equiv> fst (run (bridge_frame posix_write) H fs)"

lemma force_stop_forgets: "force_stop wr (fold observe obs H) t = force_stop wr H t"
proof (induction obs arbitrary: H)
  case (Cons br obs)
  have "force_stop wr (add_observation H b r) t = force_stop wr H t" for b r
    by (cases H) (simp add: add_observation_def force_stop_def Let_def)
  then show ?case using Cons.IH by (simp add: observe_def)
qed simp

lemma bridge_ops_frame:
  "bridge_ops [Flush now] (fold observe obs H) = judge_frames H [(obs, now)]"
  by (simp add: bridge_frame_def Let_def)

text \<open>A request as the bridge sees it.\<close>

lemma serve_request_bridge:
  assumes "serve_request cf e S = Some (S', go)" "sv_safety S = Some H"
  shows "case handled_request cf e S of
      None \<Rightarrow> \<not> go \<and> sv_safety S' = Some (force_stop posix_write H (stop_now e))
    | Some (f, now, b, r) \<Rightarrow> now = flush_now e
        \<and> (let H' = add_observation (bridge_ops (frame_flush (have_current_frame S) (current_frame_id S) f now) H) b r
           in sv_safety S' = Some (if go then H' else force_stop posix_write H' (stop_now e)))
        \<and> have_current_frame S' \<and> current_frame_id S' = f"
  using assms(1)
proof (cases rule: serve_request_cases)
  case (lost T st q)
  then show ?thesis using assms(2)
    by (simp add: handled_request_def server_force_stop_def ps_safety_force_stop_def)
next
  case (handled h b cl r T T' q st timing)
  have "handled_request cf e S = Some (h_frame_id h, flush_now e, b, r)"
    using handled(1-4) by (auto simp: handled_request_def request_received_def)
  then show ?thesis
    using handled(15,16) assms(2) by (cases go) (simp_all add: bridge_ops_append Let_def)
qed

lemma judge_frames_Cons: "judge_frames H ((obs, now) # fs) = judge_frames (bridge_ops [Flush now] (fold observe obs H)) fs"
  by (simp add: bridge_frame_def Let_def)

text \<open>What one more request means for the open frame and the judged ones.\<close>

lemma round_frames:
  assumes "serve_request cf (world S) S = Some (S1, True)" "sv_safety S = Some (fold observe acc H)"
    "have_current_frame S" "current_frame_id S = f"
  obtains g now b r where "handled_request cf (world S) S = Some (g, now, b, r)" "have_current_frame S1" "current_frame_id S1 = g"
    "sv_safety S1 = Some (if g = f then fold observe (acc @ [(b, r)]) H else fold observe [(b, r)] (judge_frames H [(acc, now)]))"
proof -
  note b = serve_request_bridge [OF assms(1,2)]
  obtain g now bx res where l: "handled_request cf (world S) S = Some (g, now, bx, res)"
    using b by (cases "handled_request cf (world S) S") auto
  have "add_observation (bridge_ops (frame_flush (have_current_frame S) (current_frame_id S) g now) (fold observe acc H)) bx res
      = (if g = f then fold observe (acc @ [(bx, res)]) H else fold observe [(bx, res)] (judge_frames H [(acc, now)]))"
    using assms(3,4) bridge_ops_frame [of now acc H]
    by (auto simp: frame_flush_def observe_def simp del: bridge_ops_simps(2))
  then show thesis using that [OF l] b l by (simp add: Let_def)
qed

lemma rounds_frames:
  assumes "serve_rounds cf world n S = Some S'" "sv_safety S = Some (fold observe acc H)" "have_current_frame S" "current_frame_id S = f"
  shows "length (session_log cf world n S) = n
    \<and> sv_safety S' = Some (fold observe (open_of f acc (session_log cf world n S)) (judge_frames H (frames_of f acc (session_log cf world n S))))"
  using assms
proof (induction n arbitrary: S acc H f)
  case (Suc n)
  obtain S1 where S1: "serve_request cf (world S) S = Some (S1, True)" "serve_rounds cf world n S1 = Some S'"
    using Suc.prems(1) by (auto split: option.splits prod.splits bool.splits)
  obtain g now b r where l: "handled_request cf (world S) S = Some (g, now, b, r)" "have_current_frame S1" "current_frame_id S1 = g"
    "sv_safety S1 = Some (if g = f then fold observe (acc @ [(b, r)]) H else fold observe [(b, r)] (judge_frames H [(acc, now)]))"
    by (rule round_frames [where world = world and S = S and acc = acc and H = H and f = f]) (rule S1(1) Suc.prems(2-4))+
  define H1 acc1 where "H1 = (if g = f then H else judge_frames H [(acc, now)])"
    and "acc1 = (if g = f then acc @ [(b, r)] else [(b, r)])"
  have "sv_safety S1 = Some (fold observe acc1 H1)" using l(4) by (simp add: H1_def acc1_def)
  from Suc.IH [OF S1(2) this l(2,3)] show ?case by (simp add: l(1) S1(1) H1_def acc1_def)
qed simp

lemma session_frames:
  assumes "serve_session cf world n S = Some S'" "sv_safety S = Some (fold observe acc H)"
    "have_current_frame S" "current_frame_id S = f"
  shows "\<exists>t. sv_safety S' = Some (force_stop posix_write (judge_frames H (frames_of f acc (session_log cf world n S))) t)"
  using assms
proof (induction n arbitrary: S acc H f)
  case (Suc n)
  obtain S1 go where r: "serve_request cf (world S) S = Some (S1, go)"
    and rest: "(if go then serve_session cf world n S1 else Some (end_session S1)) = Some S'"
    using Suc.prems(1) by (auto split: option.splits prod.splits)
  note b = serve_request_bridge [OF r Suc.prems(2)]
  show ?case
  proof (cases "handled_request cf (world S) S")
    case None
    then show ?thesis using b rest
      by (auto simp: end_session_def force_stop_forgets)
  next
    case (Some l)
    obtain g now bx res where l: "l = (g, now, bx, res)" by (metis prod_cases4)
    define H1 acc1 where "H1 = (if g = f then H else judge_frames H [(acc, now)])"
      and "acc1 = (if g = f then acc @ [(bx, res)] else [(bx, res)])"
    have frames: "judge_frames H (frames_of f acc ((g, now, bx, res) # ls)) = judge_frames H1 (frames_of g acc1 ls)" for ls
      by (simp add: H1_def acc1_def)
    have "add_observation (bridge_ops (frame_flush (have_current_frame S) (current_frame_id S) g now) (fold observe acc H)) bx res
        = fold observe acc1 H1"
      using Suc.prems(3,4) bridge_ops_frame [of now acc H]
      by (auto simp: frame_flush_def H1_def acc1_def observe_def simp del: bridge_ops_simps(2))
    then have S1: "sv_safety S1 = Some (if go then fold observe acc1 H1 else force_stop posix_write (fold observe acc1 H1) (stop_now (world S)))"
      "have_current_frame S1" "current_frame_id S1 = g" using b Some l by (simp_all add: Let_def)
    show ?thesis
    proof (cases go)
      case True
      then have "serve_session cf world n S1 = Some S'" "sv_safety S1 = Some (fold observe acc1 H1)" using rest S1(1) by simp_all
      from Suc.IH [OF this S1(2,3)] show ?thesis using Some l r True frames by simp
    next
      case False
      then show ?thesis using rest S1(1) Some l r frames [of "[]"] by (auto simp: end_session_def force_stop_forgets)
    qed
  qed
qed simp

lemma session_judges_frames:
  assumes "serve_session cf world n S = Some S'" "sv_safety S = Some H" "\<not> have_current_frame S"
  shows "\<exists>t. sv_safety S' = Some (force_stop posix_write (judge_frames H (judged_frames (session_log cf world n S))) t)"
proof (cases n)
  case (Suc k)
  obtain S1 go where r: "serve_request cf (world S) S = Some (S1, go)"
    and rest: "(if go then serve_session cf world k S1 else Some (end_session S1)) = Some S'"
    using assms(1) Suc by (auto split: option.splits prod.splits)
  note b = serve_request_bridge [OF r assms(2)]
  show ?thesis
  proof (cases "handled_request cf (world S) S")
    case None
    then show ?thesis using b rest Suc by (auto simp: end_session_def)
  next
    case (Some l)
    obtain g now bx res where l: "l = (g, now, bx, res)" by (metis prod_cases4)
    have S1: "sv_safety S1 = Some (if go then fold observe [(bx, res)] H else force_stop posix_write (fold observe [(bx, res)] H) (stop_now (world S)))"
      "have_current_frame S1" "current_frame_id S1 = g"
      using b Some l assms(3) by (simp_all add: Let_def frame_flush_def observe_def)
    show ?thesis
    proof (cases go)
      case True
      then have "serve_session cf world k S1 = Some S'" "sv_safety S1 = Some (fold observe [(bx, res)] H)" using rest S1(1) by simp_all
      from session_frames [OF this S1(2,3)] show ?thesis using Some l r True Suc by simp
    next
      case False
      then show ?thesis
        using rest S1(1) Some l r Suc force_stop_forgets [of posix_write "[(bx, res)]" H "stop_now (world S)"]
        by (auto simp: end_session_def)
    qed
  qed
qed (use assms(1) in simp)

section \<open>A concrete session\<close>

definition witness_config :: ps_config where
  "witness_config = \<lparr>cf_scale = Fin (1/8), cf_no_delay = False, cf_msecs = (\<lambda>m. m),
     cf_exp = (\<lambda>v. if v = Fin 0 then Fin 1 else Fin 0)\<rparr>"

text \<open>The PL computes from the registers that the driver has written.\<close>

definition witness_world :: "engine_mem \<Rightarrow> ps_server \<Rightarrow> request_env" where
  "witness_world M S = (let t = \<lparr>tv_sec = 0, tv_nsec = 0\<rparr>;
       io = \<lparr>in_parameters = None, in_run = None, copy_out_ok = True, jiffies0 = 0, poll_rounds = [(2, 1)]\<rparr>;
       c = fst (device_run (\<lambda>m. m) (Some (sv_device S)) 1000 io (cl_driver (sv_cl S)))
     in \<lparr>rq_classify = \<lparr>mark_start = t, mark_preprocess = t, mark_pl = t, mark_post = t, run_env = io,
            pl_effect = pl_engine M c, sums_block = (\<lambda>_. 9), logits_block = Some (\<lambda>_. 5), undefined_ppm = 0\<rparr>,
          rq_started = t, rq_finished = t, flush_now = 100, stop_now = 200, response_block = replicate 32 0\<rparr>)"

definition witness_roi :: prepared_roi where
  "witness_roi = \<lparr>p_frame_id = 9, p_roi_id = 2, p_x = 0, p_y = 0, p_width = 5, p_height = 5,
     p_objectness = 0, p_frame_width = 640, p_frame_height = 480,
     rgb_pixels = \<lparr>is_8uc3 = True, cols = 96, rows = 96, continuous = True, pixels = replicate IMAGE_PAYLOAD_SIZE 7\<rparr>\<rparr>"

definition witness_serving :: "arrival list \<Rightarrow> ps_server" where
  "witness_serving as = witness_server\<lparr>sv_tcp := \<lparr>listen_fd = 4, client_fd = 5, held_fds = [5, 4],
     client = \<lparr>incoming = as, send_replies = [Took (HEADER_SIZE + RESULT_PAYLOAD_SIZE)], outgoing = []\<rparr>\<rparr>\<rparr>"

lemma witness_works:
  assumes "server_ready P S"
  shows "works M witness_config (witness_world M) S"
proof -
  let ?io = "\<lparr>in_parameters = None, in_run = None, copy_out_ok = True, jiffies0 = 0, poll_rounds = [(2, 1)]\<rparr>"
  have ready: "device_ready (sv_device S) (sv_model S) (sv_cl S)" using assms by (simp add: server_ready_def)
  obtain c st where run: "device_run (\<lambda>m. m) (Some (sv_device S)) 1000 ?io (cl_driver (sv_cl S)) = (c, st)" by fastforce
  have done': "run_done (\<lambda>m. m) ?io" by (simp add: run_done_def AP_DONE_def)
  from ready_run_done [OF ready this] have "st = Some DeviceOk" using run by simp
  then have c: "c = (configure_dma_addresses (cl_driver (sv_cl S)))\<lparr>kexec := kexec c\<rparr>"
    using run_ok run by (cases "configure_dma_addresses (cl_driver (sv_cl S))") fastforce
  have "unat (dma_handle (cl_driver (sv_cl S))) + 0x13000 < 2 ^ 64" using ready by (simp add: device_ready_def)
  then have "pl_engine M c m i = m i" if "\<not> (0x10000 \<le> i \<and> i < 0x10000 + 9216)" for m i
    using pl_engine_elsewhere [OF _ c that] by blast
  then show ?thesis
    using run done' by (simp add: works_def pl_ok_def pl_contract_def witness_config_def witness_world_def Let_def
        HEADER_SIZE_def RESULT_PAYLOAD_SIZE_def)
qed

lemma witness_serving_ok:
  "server_ready \<lparr>proc_fds = [], proc_maps = []\<rparr> (witness_serving as)" "model_ok (sv_model (witness_serving as))"
  "scores_fit (sv_model (witness_serving as))" "scale_ok witness_config" "0 \<le> client_fd (sv_tcp (witness_serving as))"
  "length (pixels (rgb_pixels witness_roi)) = IMAGE_PAYLOAD_SIZE"
proof -
  show "server_ready \<lparr>proc_fds = [], proc_maps = []\<rparr> (witness_serving as)"
    using witness_server_ok(2) by (simp add: server_ready_def witness_serving_def)
  show "model_ok (sv_model (witness_serving as))"
    by (simp add: witness_serving_def witness_server_def model_ok_def witness_model_def model_null_def requant_null_def
        model_layer0_def model_layer1_def model_layer2_def layer_ok_def rq_ok_def)
  show "scores_fit (sv_model (witness_serving as))"
    by (simp add: witness_serving_def witness_server_def scores_fit_def witness_model_def)
  have "fp_ok binary64 (Fin 0)" "fp_ok binary64 (Fin 1)" using ok64_nat [of 0] ok64_nat [of 1] by simp_all
  then show "scale_ok witness_config" by (auto simp: scale_ok_def witness_config_def exp_ok_def intro!: exI [of _ "1/8"])
qed (simp_all add: witness_serving_def witness_roi_def)

lemma witness_answered:
  "\<exists>S' r. serve_request witness_config (witness_world M (witness_serving [Segment (request_bytes witness_roi)]))
       (witness_serving [Segment (request_bytes witness_roi)]) = Some (S', True)
     \<and> outgoing (client (sv_tcp S')) = response_bytes (request_header witness_roi) r"
proof -
  let ?S = "witness_serving [Segment (request_bytes witness_roi)]"
  have facts: "stream_of (incoming (client (sv_tcp ?S))) = request_bytes witness_roi @ []"
    "send_replies (client (sv_tcp ?S)) = Took (HEADER_SIZE + RESULT_PAYLOAD_SIZE) # []"
    "outgoing (client (sv_tcp ?S)) = []" by (simp_all add: witness_serving_def)
  from serve_request_works [OF witness_serving_ok(1-4) witness_works [OF witness_serving_ok(1)] witness_serving_ok(5,6)
      facts(1,2) order_refl, of M] facts(3)
  show ?thesis by (metis append_Nil)
qed

section \<open>Properties\<close>

text \<open>
  C22: The client accepts what the server sends. Whatever the PL, the driver and memory do, a request
  that is answered gets exactly one response, which echoes its frame and region and keeps the rules
  the client checks; a connection that is given up has seen at most a proper prefix of one.
\<close>

theorem server_responses_acceptable:
  assumes "serve_request cf e S = Some (S', go)" "length (response_block e) = 32" "0 \<le> client_fd (sv_tcp S)"
  shows "\<exists>sent. outgoing (client (sv_tcp S')) = outgoing (client (sv_tcp S)) @ sent
    \<and> (if go then \<exists>h b cl r. request_received cf e S h b cl r \<and> response_acceptable r \<and> sent = response_bytes h r
       else sent = [] \<or> (\<exists>h r n. response_acceptable r \<and> n < 32 \<and> sent = take n (response_bytes h r)))"
proof -
  have len: "length (response_block e) = HEADER_SIZE + RESULT_PAYLOAD_SIZE" "length (response_bytes h r) = 32" for h r
    using assms(2) by (simp_all add: response_bytes_def) (simp_all add: HEADER_SIZE_def RESULT_PAYLOAD_SIZE_def)
  show ?thesis
    using serve_request_outgoing [OF assms(1) len(1) assms(3)] unfolding len(2) by (cases go) fastforce+
qed

theorem server_responses_acceptable_witness:
  "\<forall>M. \<exists>S' r. serve_request witness_config (witness_world M (witness_serving [Segment (request_bytes witness_roi)]))
       (witness_serving [Segment (request_bytes witness_roi)]) = Some (S', True)
     \<and> response_acceptable r \<and> outgoing (client (sv_tcp S')) \<noteq> []"
proof
  fix M
  obtain S' where S': "serve_request witness_config (witness_world M (witness_serving [Segment (request_bytes witness_roi)]))
       (witness_serving [Segment (request_bytes witness_roi)]) = Some (S', True)"
    "outgoing (client (sv_tcp S')) \<noteq> []" using witness_answered by (fastforce simp: response_bytes_def)
  have "length (response_block (witness_world M S)) = 32" for S by (simp add: witness_world_def Let_def)
  from server_responses_acceptable [OF S'(1) this witness_serving_ok(5)] S'
  show "\<exists>S' r. serve_request witness_config (witness_world M (witness_serving [Segment (request_bytes witness_roi)]))
       (witness_serving [Segment (request_bytes witness_roi)]) = Some (S', True)
     \<and> response_acceptable r \<and> outgoing (client (sv_tcp S')) \<noteq> []" by auto
qed

text \<open>
  C35: A session ends. When every run of the PL returns, the loop over a connection whose client sends
  any finite stream ends after at most one round for every 27696 bytes, and one more.
\<close>

theorem session_ends:
  assumes "\<And>S. run_returns (cf_msecs cf) (run_env (rq_classify (world S)))" "0 \<le> client_fd (sv_tcp S)"
    and "n = length (stream_of (incoming (client (sv_tcp S)))) div 27696 + 1"
  shows "\<exists>S'. serve_session cf world n S = Some S'"
proof (rule serve_session_ends [OF assms(1,2)])
  show "length (stream_of (incoming (client (sv_tcp S)))) < n * request_size"
    unfolding assms(3) request_size_value using dividend_less_div_times [of 27696 "length (stream_of (incoming (client (sv_tcp S))))"]
    by (simp add: add.commute)
qed

theorem session_ends_witness:
  "\<forall>M. \<exists>S'. serve_session witness_config (witness_world M) 1 (witness_serving [Segment [1, 2, 3], RIntr]) = Some S'"
proof
  fix M
  have "run_returns (cf_msecs witness_config) (run_env (rq_classify (witness_world M S)))" for S
    by (simp add: run_returns_def witness_world_def Let_def AP_DONE_def)
  from session_ends [OF this witness_serving_ok(5), of 1 "[Segment [1, 2, 3], RIntr]"]
  show "\<exists>S'. serve_session witness_config (witness_world M) 1 (witness_serving [Segment [1, 2, 3], RIntr]) = Some S'"
    by (simp add: witness_serving_def)
qed

text \<open>
  C1: Every whole request is answered for the model. On a ready server whose PL keeps its contract and
  finishes, with a model whose layers and scores fit, any number of requests that arrive whole,
  however cut, are all answered, in their order, each response with the ids of its request and the
  model's class for its picture.
\<close>

theorem every_request_answered:
  assumes "server_ready P S" "model_ok (sv_model S)" "scores_fit (sv_model S)" "scale_ok cf"
    and "\<And>S. server_ready P S \<Longrightarrow> works M cf world S" "0 \<le> client_fd (sv_tcp S)"
    and "\<forall>roi \<in> set rois. length (pixels (rgb_pixels roi)) = IMAGE_PAYLOAD_SIZE"
    and "stream_of (incoming (client (sv_tcp S))) = concat (map request_bytes rois) @ rest"
    and "send_replies (client (sv_tcp S)) = map (\<lambda>_. Took (HEADER_SIZE + RESULT_PAYLOAD_SIZE)) rois @ later"
  shows "\<exists>S' rs. serve_rounds cf world (length rois) S = Some S'
    \<and> list_all2 (\<lambda>roi r. model_answers (sv_model S) (\<lambda>i. pixels (rgb_pixels roi) ! i) r) rois rs
    \<and> outgoing (client (sv_tcp S')) = outgoing (client (sv_tcp S))
        @ concat (map2 (\<lambda>roi r. response_bytes (request_header roi) r) rois rs)"
  by (rule serve_rounds_answer [OF assms(4,5,1-3,6-9)])

theorem every_request_answered_witness:
  "\<forall>M. \<exists>S' r. serve_rounds witness_config (witness_world M) 1 (witness_serving [Segment (request_bytes witness_roi)]) = Some S'
     \<and> model_answers witness_model (\<lambda>i. pixels (rgb_pixels witness_roi) ! i) r
     \<and> outgoing (client (sv_tcp S')) = response_bytes (request_header witness_roi) r"
proof
  fix M
  let ?S = "witness_serving [Segment (request_bytes witness_roi)]"
  have facts: "stream_of (incoming (client (sv_tcp ?S))) = concat (map request_bytes [witness_roi]) @ []"
    "send_replies (client (sv_tcp ?S)) = map (\<lambda>_. Took (HEADER_SIZE + RESULT_PAYLOAD_SIZE)) [witness_roi] @ []"
    "outgoing (client (sv_tcp ?S)) = []" "sv_model ?S = witness_model"
    "\<forall>roi \<in> set [witness_roi]. length (pixels (rgb_pixels roi)) = IMAGE_PAYLOAD_SIZE"
    using witness_serving_ok(6) by (simp_all add: witness_serving_def witness_server_def)
  show "\<exists>S' r. serve_rounds witness_config (witness_world M) 1 ?S = Some S'
     \<and> model_answers witness_model (\<lambda>i. pixels (rgb_pixels witness_roi) ! i) r
     \<and> outgoing (client (sv_tcp S')) = response_bytes (request_header witness_roi) r"
    using every_request_answered [OF witness_serving_ok(1-4) witness_works [where M = M and P = "\<lparr>proc_fds = [], proc_maps = []\<rparr>"]
        witness_serving_ok(5) facts(5,1,2)] facts(3,4)
    by (auto simp del: serve_rounds.simps simp: list_all2_Cons1 list_all2_Nil)
qed

text \<open>
  C11: The bridge judges every frame that another frame follows. After any number of requests of a session, the safety
  handle has gone through exactly one judgement for each frame that a request of another frame has followed, at
  the time of that request, in order and with all the observations of the frame's requests and no others; it
  holds, unjudged, exactly the observations of the frame whose requests came last. Nothing is said of how the
  connection ends.
\<close>

theorem server_judges_frames:
  fixes cf world n S and lg :: frame_log
  defines "lg \<equiv> session_log cf world n S"
  assumes "serve_rounds cf world n S = Some S'" "sv_safety S = Some H" "\<not> have_current_frame S"
  shows "sv_safety S' = Some (fold observe (open_frame lg) (fst (run (bridge_frame posix_write) H (judged_frames lg))))
    \<and> concat (map fst (judged_frames lg)) @ open_frame lg = map (\<lambda>(f, now, b, r). (b, r)) lg \<and> length lg = n"
proof (cases n)
  case (Suc k)
  obtain S1 where S1: "serve_request cf (world S) S = Some (S1, True)" "serve_rounds cf world k S1 = Some S'"
    using assms(2) Suc by (auto split: option.splits prod.splits bool.splits)
  note b = serve_request_bridge [OF S1(1) assms(3)]
  obtain g now bx res where l: "handled_request cf (world S) S = Some (g, now, bx, res)"
    using b by (cases "handled_request cf (world S) S") auto
  have "sv_safety S1 = Some (fold observe [(bx, res)] H)" "have_current_frame S1" "current_frame_id S1 = g"
    using b l assms(4) by (simp_all add: Let_def frame_flush_def observe_def)
  from rounds_frames [OF S1(2) this] show ?thesis
    using log_complete [of lg] by (simp add: lg_def Suc l S1(1))
qed (use assms in \<open>simp add: lg_def\<close>)

text \<open>Two requests, of two frames.\<close>

definition second_roi :: prepared_roi where "second_roi = witness_roi\<lparr>p_frame_id := 10\<rparr>"

definition witness_twice :: ps_server where
  "witness_twice = (witness_serving [Segment (request_bytes witness_roi), RIntr, Segment (request_bytes second_roi)])
     \<lparr>sv_tcp := \<lparr>listen_fd = 4, client_fd = 5, held_fds = [5, 4],
        client = \<lparr>incoming = [Segment (request_bytes witness_roi), RIntr, Segment (request_bytes second_roi)],
          send_replies = [Took (HEADER_SIZE + RESULT_PAYLOAD_SIZE), Took (HEADER_SIZE + RESULT_PAYLOAD_SIZE)], outgoing = []\<rparr>\<rparr>\<rparr>"

lemma handled_frame:
  assumes "stream_of (incoming (client (sv_tcp S))) = request_bytes roi @ rest" "length (pixels (rgb_pixels roi)) = IMAGE_PAYLOAD_SIZE"
    and "0 \<le> client_fd (sv_tcp S)" "handled_request cf e S = Some (f, now, b, r)"
  shows "f = p_frame_id roi"
proof -
  obtain T st q where rq: "receive_request (sv_tcp S) = (T, st, q)" by (metis prod_cases3)
  have "req_header q = Some (request_header roi)"
    using receive_request_stream [OF assms(3) rq] assms(1,2) request_header_valid [of roi]
    by (auto simp: request_bytes_def REQUEST_PAYLOAD_SIZE_def)
  then show ?thesis using assms(4) rq
    by (auto simp: handled_request_def request_header_def split: if_splits)
qed

theorem server_judges_frames_witness:
  "\<forall>M. \<exists>S' obs now obs'. serve_rounds witness_config (witness_world M) 2 witness_twice = Some S' \<and> length obs = 1 \<and> length obs' = 1
     \<and> sv_safety S' = Some (fold observe obs' (fst (run (bridge_frame posix_write) (the (sv_safety witness_server)) [(obs, now)])))"
proof
  fix M
  let ?S = "witness_twice" and ?c = "witness_config" and ?w = "witness_world M"
  have ready: "server_ready \<lparr>proc_fds = [], proc_maps = []\<rparr> ?S" "model_ok (sv_model ?S)" "scores_fit (sv_model ?S)"
    using witness_serving_ok(1-3) [of "[]"] by (simp_all add: server_ready_def witness_twice_def witness_serving_def)
  have pix: "length (pixels (rgb_pixels witness_roi)) = IMAGE_PAYLOAD_SIZE" "length (pixels (rgb_pixels second_roi)) = IMAGE_PAYLOAD_SIZE"
    by (simp_all add: second_roi_def witness_roi_def)
  have fd: "0 \<le> client_fd (sv_tcp ?S)" by (simp add: witness_twice_def)
  have streams: "stream_of (incoming (client (sv_tcp ?S))) = request_bytes witness_roi @ request_bytes second_roi"
    "send_replies (client (sv_tcp ?S)) = Took (HEADER_SIZE + RESULT_PAYLOAD_SIZE) # [Took (HEADER_SIZE + RESULT_PAYLOAD_SIZE)]"
    by (simp_all add: witness_twice_def)
  obtain S1 where S1: "serve_request ?c (?w ?S) ?S = Some (S1, True)" "stream_of (incoming (client (sv_tcp S1))) = request_bytes second_roi"
    "client_fd (sv_tcp S1) = client_fd (sv_tcp ?S)"
    using serve_request_works [OF ready witness_serving_ok(4) witness_works [OF ready(1)] fd pix(1) streams order_refl, of M] by blast
  have "\<exists>S' rs. serve_rounds ?c ?w (length [witness_roi, second_roi]) ?S = Some S'
    \<and> list_all2 (\<lambda>roi r. model_answers (sv_model ?S) (\<lambda>i. pixels (rgb_pixels roi) ! i) r) [witness_roi, second_roi] rs
    \<and> outgoing (client (sv_tcp S')) = outgoing (client (sv_tcp ?S))
        @ concat (map2 (\<lambda>roi r. response_bytes (request_header roi) r) [witness_roi, second_roi] rs)"
    by (rule serve_rounds_answer [OF witness_serving_ok(4) witness_works ready fd, where rest = "[]" and later = "[]"])
      (use streams pix in simp_all)
  then obtain S' where S': "serve_rounds ?c ?w 2 ?S = Some S'" by (auto simp: numeral_2_eq_2)
  obtain S2 where S2: "serve_request ?c (?w S1) S1 = Some (S2, True)"
    using S' S1(1) by (auto simp: numeral_2_eq_2 split: option.splits prod.splits bool.splits)
  have H: "sv_safety ?S = Some (the (sv_safety witness_server))" "\<not> have_current_frame ?S"
    by (simp_all add: witness_twice_def witness_serving_def witness_server_def)
  let ?log = "session_log ?c ?w 2 ?S"
  note main = server_judges_frames [OF S' H]
  obtain f now b r where l1: "handled_request ?c (?w ?S) ?S = Some (f, now, b, r)"
    using serve_request_bridge [OF S1(1) H(1)] by (cases "handled_request ?c (?w ?S) ?S") auto
  obtain H1 where "sv_safety S1 = Some H1" using serve_request_bridge [OF S1(1) H(1)] l1 by (auto simp: Let_def)
  from serve_request_bridge [OF S2 this] obtain g now' b' r' where l2: "handled_request ?c (?w S1) S1 = Some (g, now', b', r')"
    by (cases "handled_request ?c (?w S1) S1") auto
  have "f = 9" "g = 10"
    using handled_frame [OF streams(1) pix(1) fd l1] handled_frame [OF _ pix(2) _ l2, of "[]"] S1(2,3) fd
    by (simp_all add: witness_roi_def second_roi_def)
  then have "?log = [(9, now, b, r), (10, now', b', r')]" using l1 l2 S1(1) S2 by (simp add: numeral_2_eq_2)
  then show "\<exists>S' obs now obs'. serve_rounds ?c ?w 2 ?S = Some S' \<and> length obs = 1 \<and> length obs' = 1
     \<and> sv_safety S' = Some (fold observe obs' (fst (run (bridge_frame posix_write) (the (sv_safety witness_server)) [(obs, now)])))"
    using main S' by (intro exI [of _ S'] exI [of _ "[(b, r)]"] exI [of _ now'] exI [of _ "[(b', r')]"]) simp
qed

section \<open>The summary of a session\<close>

text \<open>The numbers that \<open>print_session_summary\<close> prints; None: the line that says that there were no requests. A
  row has the count, the mean, the least and the greatest time.\<close>

record session_report =
  sr_requests :: u64
  sr_ok :: u64
  sr_errors :: u64
  sr_wall :: "(fp \<times> fp) option"
  sr_bound :: fp
  sr_rows :: "(u64 \<times> fp \<times> fp \<times> fp) list"

definition server_stat_row :: "stat_accumulator \<Rightarrow> u64 \<times> fp \<times> fp \<times> fp" where
  "server_stat_row s = (stat_count s, stat_mean_ms s, stat_min_ms s, stat_max_ms s)"

definition print_session_summary :: "session_metrics \<Rightarrow> session_report option" where
  "print_session_summary M =
     (if stat_count (mt_server M) = 0 then None
      else let span_us = elapsed_us (first_request M) (last_request M);
               span_s = fp_div binary64 (fp_of_u64 span_us) (Fin 1000000)
      in Some \<lparr>sr_requests = stat_count (mt_server M), sr_ok = ok_count M, sr_errors = error_count M,
           sr_wall = (if fp_gt span_s (Fin 0) then Some (span_s, fp_div binary64 (fp_of_u64 (stat_count (mt_server M))) span_s) else None),
           sr_bound = (if stat_count (mt_server M) > 0 \<and> fp_gt (stat_mean_ms (mt_server M)) (Fin 0)
                       then fp_div binary64 (Fin 1000) (stat_mean_ms (mt_server M)) else Fin 0),
           sr_rows = map server_stat_row [mt_preprocess M, mt_pl_run M, mt_postprocess M, mt_server M]\<rparr>)"

text \<open>The summary counts every request once, and in all of its rows.\<close>

lemma session_summary_counts:
  assumes "ls \<noteq> []" "length ls < 2 ^ 64" "M = fold metrics_step ls session_metrics_reset"
  obtains r where "print_session_summary M = Some r" "sr_requests r = of_nat (length ls)" "sr_ok r = of_nat (length (filter log_ok ls))"
    "sr_ok r + sr_errors r = sr_requests r" "map fst (sr_rows r) = replicate 4 (of_nat (length ls))"
proof -
  note e = session_metrics_exact [OF assms]
  have counts: "stat_count (mt_preprocess M) = of_nat (length ls)" "stat_count (mt_pl_run M) = of_nat (length ls)"
    "stat_count (mt_postprocess M) = of_nat (length ls)" "stat_count (mt_server M) = of_nat (length ls)"
    using e by (simp_all add: Let_def)
  have "(of_nat (length ls) :: u64) \<noteq> 0"
  proof
    assume "(of_nat (length ls) :: u64) = 0"
    then have "unat (of_nat (length ls) :: u64) = 0" by simp
    then show False using assms(1,2) by (simp add: unat_of_nat take_bit_nat_eq_self)
  qed
  then show thesis using that counts e by (auto simp: print_session_summary_def server_stat_row_def Let_def eval_nat_numeral)
qed

end
