(* ===== verification/Float32_Bits.thy ===== *)
theory Float32_Bits
  imports Float32
begin

text \<open>
  Two things the Jetson side needs of binary32: the bit pattern a value is sent as, which is the
  inverse of \<open>f32_of_bits\<close> on the values of the format, and how far a rounded result is from the
  exact one.
\<close>

section \<open>The pattern of a value\<close>

text \<open>A zero is sent as the positive one, a NaN as the quiet one; no receiver tells them apart.\<close>

definition f32_magnitude :: "nat \<Rightarrow> nat" where
  "f32_magnitude y = (if y < 2 ^ 23 then y
     else let k = floorlog 2 y - 24 in (k + 1) * 2 ^ 23 + (y div 2 ^ k - 2 ^ 23))"

definition f32_to_bits :: "fp \<Rightarrow> u32" where
  "f32_to_bits v = (case v of NaN \<Rightarrow> 0x7fc00000 | PInf \<Rightarrow> 0x7f800000 | NInf \<Rightarrow> 0xff800000
   | Fin x \<Rightarrow> word_of_nat ((if x < 0 then 2 ^ 31 else 0) + f32_magnitude (nat \<lfloor>\<bar>x\<bar> * 2 ^ 149\<rfloor>)))"

lemma pattern_parts:
  fixes e m s :: nat
  assumes "e < 256" "m < 2 ^ 23" "s < 2"
  defines "w \<equiv> (word_of_nat (s * 2 ^ 31 + e * 2 ^ 23 + m) :: u32)"
  shows "unat (drop_bit 23 w) mod 256 = e" "unat (take_bit 23 w) = m" "bit w 31 \<longleftrightarrow> s = 1"
proof -
  have n: "unat w = s * 2 ^ 31 + e * 2 ^ 23 + m"
  proof -
    have "s * 2 ^ 31 + e * 2 ^ 23 + m < 2 ^ 32" using assms(1-3) by simp
    then show ?thesis unfolding w_def by (intro of_nat_inverse [OF refl]) simp
  qed
  have s: "s = 0 \<or> s = 1" using assms(3) by linarith
  show "unat (drop_bit 23 w) mod 256 = e"
  proof -
    have "s * 2 ^ 31 + e * 2 ^ 23 + m = (s * 256 + e) * 2 ^ 23 + m" by simp
    then have "(s * 2 ^ 31 + e * 2 ^ 23 + m) div 2 ^ 23 = s * 256 + e" using assms(2) by simp
    then show ?thesis unfolding unat_drop_bit_eq unfolding n drop_bit_eq_div using assms(1) by simp
  qed
  show "unat (take_bit 23 w) = m"
  proof -
    have "s * 2 ^ 31 + e * 2 ^ 23 + m = (s * 256 + e) * 2 ^ 23 + m" by simp
    moreover have "((s * 256 + e) * 2 ^ 23 + m) mod 2 ^ 23 = m" using assms(2) by (simp only: mod_mult_self3 mod_less)
    ultimately have "(s * 2 ^ 31 + e * 2 ^ 23 + m) mod 2 ^ 23 = m" by (simp only:)
    then show ?thesis unfolding unsigned_take_bit_eq unfolding n take_bit_eq_mod by simp
  qed
  have "(s * 2 ^ 31 + e * 2 ^ 23 + m) div 2 ^ 31 = s"
    using s assms(1,2) by auto
  then have "bit (unat w) 31 \<longleftrightarrow> s = 1" using s unfolding n bit_iff_odd by auto
  then show "bit w 31 \<longleftrightarrow> s = 1" by (simp add: bit_unsigned_iff)
qed

lemma f32_round_trip:
  assumes "fp_ok binary32 v" shows "f32_of_bits (f32_to_bits v) = v"
proof (cases v)
  case (Fin x)
  define q where "q = \<bar>x\<bar> * 2 ^ 149"
  obtain n :: int where n: "x * 2 ^ 149 = of_int n" using fp_ok_quantum [of binary32 x] assms Fin by auto
  define y where "y = nat \<bar>n\<bar>"
  define k where "k = floorlog 2 y - 24"
  have qn: "q = of_int \<bar>n\<bar>" using n by (simp add: q_def abs_mult flip: of_int_abs)
  then have fl: "nat \<lfloor>q\<rfloor> = y" and qy: "q = of_nat y" by (simp_all only: y_def floor_of_int of_nat_nat abs_ge_zero)
  have kk: "ulp_exp binary32 q = k" by (simp add: ulp_exp_def fl k_def)
  have x: "x = (if x < 0 then - 1 else 1) * (of_nat y / 2 ^ 149)"
    using qy by (simp add: q_def abs_if field_simps split: if_splits)
  have rnd: "sgn x * (of_int (round_mag binary32 q) / 2 ^ 149) = x" "round_mag binary32 q < 2 ^ 277"
    using assms by (auto simp: Fin round_fp_def q_def Let_def split: if_splits)
  then have "of_int (round_mag binary32 q) = q"
    by (cases "x = 0") (auto simp: q_def sgn_if field_simps split: if_splits)
  then have mag: "round_mag binary32 q = int y" using qy
    by (metis of_int_eq_iff of_int_of_nat_eq)
  have y277: "y < 2 ^ 277" using rnd(2) mag by (metis of_nat_less_iff of_nat_numeral of_nat_power)
  have dvd: "2 ^ k dvd y"
  proof -
    have "int y = rne (q / 2 ^ k) * 2 ^ k" using mag by (simp add: round_mag_def kk Let_def)
    then have "(2 ^ k :: int) dvd int y" by simp
    then show ?thesis by (metis of_nat_dvd_iff of_nat_numeral of_nat_power)
  qed
  then obtain m where m: "y = m * 2 ^ k" by (metis dvd_div_mult_self)
  have m24: "m < 2 ^ 24"
  proof -
    have "y < 2 ^ (24 + k)" by (rule floorlog_leD) (simp_all add: k_def)
    then show ?thesis by (simp add: m power_add)
  qed
  define s :: nat where "s = (if x < 0 then 1 else 0)"
  show ?thesis
  proof (cases "y < 2 ^ 23")
    case True
    have "f32_to_bits v = word_of_nat (s * 2 ^ 31 + 0 * 2 ^ 23 + y)"
      using True unfolding f32_to_bits_def Fin q_def [symmetric] fp.case fl by (simp add: f32_magnitude_def s_def)
    then show ?thesis using pattern_parts [of 0 y s] True x
      by (simp add: f32_of_bits_def Fin s_def Let_def split: if_splits)
  next
    case False
    have m23: "2 ^ 23 \<le> m"
    proof (cases "k = 0")
      case False
      then have "floorlog 2 y = 24 + k" by (simp add: k_def)
      then have "2 ^ (24 + k - 1) \<le> y" using floorlog_bounds [of y 2] \<open>\<not> y < 2 ^ 23\<close> by simp
      then have "2 ^ 23 * 2 ^ k \<le> m * 2 ^ k" by (simp add: m power_add)
      then show ?thesis by simp
    qed (use False m in simp)
    have "floorlog 2 y \<le> 277" using y277 by (intro floorlog_leI) simp_all
    then have k253: "k \<le> 253" by (simp add: k_def)
    have "f32_to_bits v = word_of_nat (s * 2 ^ 31 + (k + 1) * 2 ^ 23 + (m - 2 ^ 23))"
    proof -
      have "f32_magnitude y = (k + 1) * 2 ^ 23 + (m - 2 ^ 23)"
      proof -
        have "y div 2 ^ k = m" by (simp add: m)
        then show ?thesis using False by (simp add: f32_magnitude_def k_def [symmetric] Let_def)
      qed
      then show ?thesis unfolding f32_to_bits_def Fin q_def [symmetric] fp.case fl by (simp add: s_def add.assoc)
    qed
    then show ?thesis using pattern_parts [of "k + 1" "m - 2 ^ 23" s] m23 m24 k253 x m
      by (simp add: f32_of_bits_def Fin s_def Let_def split: if_splits)
  qed
qed (simp_all add: f32_to_bits_def f32_of_bits_def)

section \<open>Rounding errors\<close>

lemma round_mag_error: "\<bar>of_int (round_mag F y) - y\<bar> \<le> 2 ^ ulp_exp F y / 2"
proof -
  let ?k = "ulp_exp F y"
  have "\<bar>of_int (rne (y / 2 ^ ?k)) - y / 2 ^ ?k\<bar> \<le> 1/2"
    using rne_ge [of "y / 2 ^ ?k"] rne_le [of "y / 2 ^ ?k"] by linarith
  then have "1/2 * 2 ^ ?k \<ge> \<bar>of_int (rne (y / 2 ^ ?k)) - y / 2 ^ ?k\<bar> * 2 ^ ?k" by (intro mult_right_mono) auto
  also have "\<bar>of_int (rne (y / 2 ^ ?k)) - y / 2 ^ ?k\<bar> * 2 ^ ?k = \<bar>(of_int (rne (y / 2 ^ ?k)) - y / 2 ^ ?k) * 2 ^ ?k\<bar>"
    by (simp add: abs_mult)
  also have "(of_int (rne (y / 2 ^ ?k)) - y / 2 ^ ?k) * 2 ^ ?k = of_int (round_mag F y) - y"
    by (simp add: round_mag_def Let_def left_diff_distrib)
  finally show ?thesis by simp
qed

lemma abs_diff_scaled: "0 < c \<Longrightarrow> \<bar>a / c - b\<bar> = \<bar>a - b * c\<bar> / c" for a b c :: rat
proof -
  assume "0 < c"
  then have "a / c - b = (a - b * c) / c" by (simp add: diff_divide_distrib)
  then show ?thesis using \<open>0 < c\<close> by simp
qed

text \<open>Below \<open>2 ^ n\<close> a result is within \<open>2 ^ n / 2 ^ (prec + 1)\<close> of the exact value.\<close>

lemma round_error:
  assumes "\<bar>x\<bar> < 2 ^ n" "n < emax F" "prec F \<le> qexp F" "0 < prec F"
  obtains v where "round_fp F x = Fin v" "\<bar>v - x\<bar> \<le> 2 ^ n / 2 ^ (prec F + 1)"
proof -
  let ?y = "\<bar>x\<bar> * 2 ^ qexp F" and ?k = "n + (qexp F - prec F)"
  have q: "n + qexp F = prec F + ?k" using assms(3) by simp
  have y: "?y < 2 ^ (prec F + ?k)" unfolding q [symmetric] using assms(1) by (simp add: power_add)
  have k: "ulp_exp F ?y \<le> ?k" using y by (intro ulp_exp_leI) simp_all
  have "2 ^ ulp_exp F ?y \<le> (2 ^ ?k :: rat)" using k by (intro power_increasing) auto
  then have err: "\<bar>of_int (round_mag F ?y) - ?y\<bar> \<le> 2 ^ ?k / 2"
    using round_mag_error [of F ?y] by linarith
  have "of_int (round_mag F ?y) < (2 ^ (emax F + qexp F) :: rat)"
  proof -
    have "(2::rat) ^ (n + qexp F) \<le> 2 ^ (emax F - 1 + qexp F)" using assms(2) by (intro power_increasing) auto
    moreover have "(2::rat) ^ ?k \<le> 2 ^ (n + qexp F)" by (intro power_increasing) auto
    moreover have "(2::rat) ^ (emax F + qexp F) = 2 * 2 ^ (emax F - 1 + qexp F)"
      using assms(2) by (simp flip: power_Suc)
    ultimately show ?thesis using err y unfolding q by linarith
  qed
  then have "of_int (round_mag F ?y) < (of_int (2 ^ (emax F + qexp F)) :: rat)" by simp
  then have "round_mag F ?y < 2 ^ (emax F + qexp F)" by (simp only: of_int_less_iff)
  then have r: "round_fp F x = Fin (sgn x * (of_int (round_mag F ?y) / 2 ^ qexp F))"
    by (simp add: round_fp_def Let_def)
  have "\<bar>sgn x * (of_int (round_mag F ?y) / 2 ^ qexp F) - x\<bar> \<le> \<bar>of_int (round_mag F ?y) / 2 ^ qexp F - \<bar>x\<bar>\<bar>"
    by (auto simp: sgn_if)
  also have "\<dots> = \<bar>of_int (round_mag F ?y) - ?y\<bar> / 2 ^ qexp F"
    by (rule abs_diff_scaled) simp
  also have "\<dots> \<le> 2 ^ ?k / 2 / 2 ^ qexp F" using err by (intro divide_right_mono) simp_all
  also have "\<dots> = 2 ^ n / 2 ^ (prec F + 1)"
  proof -
    have "(2::rat) ^ qexp F = 2 ^ prec F * 2 ^ (qexp F - prec F)" using assms(3) by (simp flip: power_add)
    then show ?thesis by (simp add: power_add)
  qed
  finally show ?thesis using that r by blast
qed

lemma round32_error:
  assumes "\<bar>x\<bar> < 2 ^ n" "n \<le> 127"
  obtains v where "round_fp binary32 x = Fin v" "\<bar>v - x\<bar> \<le> 2 ^ n / 2 ^ 25"
  using round_error [of x n binary32] assms by auto

end
