(* ===== verification/Opencv.thy ===== *)
theory Opencv
  imports Tcp_Client Float32_Bits
begin

text \<open>
  What the Jetson programs use of OpenCV. The library is not part of the sources, so its functions
  are an argument of the model; \<open>cv_ok\<close> states what its documentation promises of them: the shapes,
  and for the functions that only move pixels, the pixels. The types are those of
  \<open>roi/RoiTypes.hpp\<close>; a \<open>cv::Rect\<close> and a \<open>PixelRect\<close> have the same four members.
\<close>

section \<open>RoiTypes.hpp\<close>

record bounding_box =
  bb_x :: fp
  bb_y :: fp
  bb_width :: fp
  bb_height :: fp

record pixel_rect =
  rect_x :: int
  rect_y :: int
  rect_w :: int
  rect_h :: int

record padding =
  pad_left :: int
  pad_top :: int
  pad_right :: int
  pad_bottom :: int

record roi_candidate =
  k_frame_id :: u32
  k_roi_id :: u32
  object_bbox :: bounding_box
  k_objectness :: fp

record crop_config =
  margin_ratio :: fp
  output_size :: int

definition CropConfig_default :: crop_config where
  "CropConfig_default = \<lparr>margin_ratio = lit32 (3/20), output_size = 96\<rparr>"

record cropped_roi =
  cr_frame_id :: u32
  cr_roi_id :: u32
  cr_object_bbox :: bounding_box
  cr_crop_window :: pixel_rect
  cr_padding :: padding
  cr_objectness :: fp
  cr_frame_width :: u32
  cr_frame_height :: u32
  bgr_pixels :: pixel_mat

section \<open>The library\<close>

record cv_lib =
  cv_intersect :: "pixel_rect \<Rightarrow> pixel_rect \<Rightarrow> pixel_rect"
  cv_region_clone :: "pixel_mat \<Rightarrow> pixel_rect \<Rightarrow> pixel_mat"
  cv_copyMakeBorder :: "pixel_mat \<Rightarrow> int \<Rightarrow> int \<Rightarrow> int \<Rightarrow> int \<Rightarrow> pixel_mat"
  cv_resize :: "pixel_mat \<Rightarrow> int \<Rightarrow> int \<Rightarrow> pixel_mat"
  cv_bgr2rgb :: "pixel_mat \<Rightarrow> pixel_mat"

definition rect_empty :: "pixel_rect \<Rightarrow> bool" where
  "rect_empty r \<longleftrightarrow> rect_w r \<le> 0 \<or> rect_h r \<le> 0"

text \<open>A matrix of three bytes for each pixel, and the byte of a channel.\<close>

definition mat_ok :: "pixel_mat \<Rightarrow> bool" where
  "mat_ok m \<longleftrightarrow> is_8uc3 m \<and> 0 < cols m \<and> 0 < rows m \<and> length (pixels m) = nat (rows m) * nat (cols m) * 3"

definition px :: "pixel_mat \<Rightarrow> int \<Rightarrow> int \<Rightarrow> nat \<Rightarrow> u8" where
  "px m y x c = pixels m ! ((nat y * nat (cols m) + nat x) * 3 + c)"

definition intersect_ok :: "cv_lib \<Rightarrow> bool" where
  "intersect_ok cv \<longleftrightarrow> (\<forall>a b. \<not> rect_empty a \<longrightarrow> \<not> rect_empty b \<longrightarrow>
     (let x1 = max (rect_x a) (rect_x b); x2 = min (rect_x a + rect_w a) (rect_x b + rect_w b);
          y1 = max (rect_y a) (rect_y b); y2 = min (rect_y a + rect_h a) (rect_y b + rect_h b)
      in if x1 < x2 \<and> y1 < y2 then cv_intersect cv a b = \<lparr>rect_x = x1, rect_y = y1, rect_w = x2 - x1, rect_h = y2 - y1\<rparr>
         else rect_empty (cv_intersect cv a b)))"

definition region_ok :: "cv_lib \<Rightarrow> bool" where
  "region_ok cv \<longleftrightarrow> (\<forall>m r. mat_ok m \<longrightarrow> \<not> rect_empty r \<longrightarrow> 0 \<le> rect_x r \<longrightarrow> 0 \<le> rect_y r
     \<longrightarrow> rect_x r + rect_w r \<le> cols m \<longrightarrow> rect_y r + rect_h r \<le> rows m \<longrightarrow>
     (let m' = cv_region_clone cv m r in mat_ok m' \<and> cols m' = rect_w r \<and> rows m' = rect_h r
        \<and> (\<forall>y x c. 0 \<le> y \<longrightarrow> y < rect_h r \<longrightarrow> 0 \<le> x \<longrightarrow> x < rect_w r \<longrightarrow> c < 3 \<longrightarrow>
             px m' y x c = px m (rect_y r + y) (rect_x r + x) c)))"

definition border_ok :: "cv_lib \<Rightarrow> bool" where
  "border_ok cv \<longleftrightarrow> (\<forall>m t b l r. mat_ok m \<longrightarrow> 0 \<le> t \<longrightarrow> 0 \<le> b \<longrightarrow> 0 \<le> l \<longrightarrow> 0 \<le> r \<longrightarrow>
     (let m' = cv_copyMakeBorder cv m t b l r in mat_ok m' \<and> cols m' = l + cols m + r \<and> rows m' = t + rows m + b
        \<and> (\<forall>y x c. 0 \<le> y \<longrightarrow> y < rows m' \<longrightarrow> 0 \<le> x \<longrightarrow> x < cols m' \<longrightarrow> c < 3 \<longrightarrow>
             px m' y x c = (if t \<le> y \<and> y < t + rows m \<and> l \<le> x \<and> x < l + cols m then px m (y - t) (x - l) c else 0))))"

definition resize_ok :: "cv_lib \<Rightarrow> bool" where
  "resize_ok cv \<longleftrightarrow> (\<forall>m w h. mat_ok m \<longrightarrow> 0 < w \<longrightarrow> 0 < h \<longrightarrow>
     mat_ok (cv_resize cv m w h) \<and> cols (cv_resize cv m w h) = w \<and> rows (cv_resize cv m w h) = h)"

definition bgr2rgb_ok :: "cv_lib \<Rightarrow> bool" where
  "bgr2rgb_ok cv \<longleftrightarrow> (\<forall>m. mat_ok m \<longrightarrow>
     (let m' = cv_bgr2rgb cv m in mat_ok m' \<and> cols m' = cols m \<and> rows m' = rows m
        \<and> (\<forall>y x c. 0 \<le> y \<longrightarrow> y < rows m \<longrightarrow> 0 \<le> x \<longrightarrow> x < cols m \<longrightarrow> c < 3 \<longrightarrow> px m' y x c = px m y x (2 - c))))"

definition cv_ok :: "cv_lib \<Rightarrow> bool" where
  "cv_ok cv \<longleftrightarrow> intersect_ok cv \<and> region_ok cv \<and> border_ok cv \<and> resize_ok cv \<and> bgr2rgb_ok cv"

section \<open>A library that keeps the promises\<close>

text \<open>The matrix with given pixels, row by row.\<close>

definition mat_of :: "int \<Rightarrow> int \<Rightarrow> (int \<Rightarrow> int \<Rightarrow> nat \<Rightarrow> u8) \<Rightarrow> pixel_mat" where
  "mat_of h w f = \<lparr>is_8uc3 = True, cols = w, rows = h, continuous = True,
     pixels = map (\<lambda>i. f (int (i div 3 div nat w)) (int (i div 3 mod nat w)) (i mod 3)) [0..<nat h * nat w * 3]\<rparr>"

lemma mat_of_simps [simp]:
  "is_8uc3 (mat_of h w f)" "cols (mat_of h w f) = w" "rows (mat_of h w f) = h"
  "0 < w \<Longrightarrow> 0 < h \<Longrightarrow> mat_ok (mat_of h w f)"
  by (simp_all add: mat_of_def mat_ok_def)

lemma px_mat_of:
  assumes "0 \<le> y" "y < h" "0 \<le> x" "x < w" "c < 3"
  shows "px (mat_of h w f) y x c = f y x c"
proof -
  have lt: "nat y * nat w + nat x < nat h * nat w"
  proof -
    have "nat y * nat w + nat x < (nat y + 1) * nat w" using assms(3,4) by simp
    also have "\<dots> \<le> nat h * nat w" using assms(1,2) by (intro mult_right_mono) simp_all
    finally show ?thesis .
  qed
  have in_bytes: "a * 3 + c < b * 3" if "a < b" for a b :: nat using that assms(5) by simp
  have "(nat y * nat w + nat x) * 3 + c < nat h * nat w * 3" by (rule in_bytes [OF lt])
  moreover have parts: "(a * 3 + c) div 3 = a" "(a * 3 + c) mod 3 = c" for a :: nat using assms(5) by simp_all
  moreover have "(nat y * nat w + nat x) div nat w = nat y" "(nat y * nat w + nat x) mod nat w = nat x"
    using assms(3,4) by simp_all
  ultimately show ?thesis using assms unfolding px_def mat_of_def
    by (simp add: parts del: distrib_right distrib_right_numeral)
qed

definition reference_cv :: cv_lib where
  "reference_cv = \<lparr>
     cv_intersect = (\<lambda>a b. let x1 = max (rect_x a) (rect_x b); x2 = min (rect_x a + rect_w a) (rect_x b + rect_w b);
          y1 = max (rect_y a) (rect_y b); y2 = min (rect_y a + rect_h a) (rect_y b + rect_h b)
        in \<lparr>rect_x = x1, rect_y = y1, rect_w = x2 - x1, rect_h = y2 - y1\<rparr>),
     cv_region_clone = (\<lambda>m r. mat_of (rect_h r) (rect_w r) (\<lambda>y x c. px m (rect_y r + y) (rect_x r + x) c)),
     cv_copyMakeBorder = (\<lambda>m t b l r. mat_of (t + rows m + b) (l + cols m + r)
        (\<lambda>y x c. if t \<le> y \<and> y < t + rows m \<and> l \<le> x \<and> x < l + cols m then px m (y - t) (x - l) c else 0)),
     cv_resize = (\<lambda>m w h. mat_of h w (\<lambda>y x c. px m (y * rows m div h) (x * cols m div w) c)),
     cv_bgr2rgb = (\<lambda>m. mat_of (rows m) (cols m) (\<lambda>y x c. px m y x (2 - c)))\<rparr>"

lemma reference_cv_ok [simp]: "cv_ok reference_cv"
  by (simp add: cv_ok_def intersect_ok_def region_ok_def border_ok_def resize_ok_def bgr2rgb_ok_def
      reference_cv_def Let_def px_mat_of rect_empty_def mat_ok_def [of "_ :: pixel_mat"] del: mat_of_simps(4))
    (auto simp: mat_of_def)

end
