(* ===== verification/Roi_Crop.thy ===== *)
theory Roi_Crop
  imports Opencv "HOL-Library.Monad_Syntax"
begin

text \<open>
  \<open>roi/RoiCropper\<close> and the Jetson's \<open>preprocess/RoiPreprocessor\<close>: from a box in the picture to the
  96 x 96 RGB patch that is sent. Two failures are kept apart: \<open>nullopt\<close>, and the conversions and
  subtractions of \<open>int\<close> that C++ leaves undefined, which are None of the outer option.
\<close>

section \<open>Conversions\<close>

definition fp_floor :: "fp \<Rightarrow> fp" where
  "fp_floor v = (case v of Fin x \<Rightarrow> Fin (of_int \<lfloor>x\<rfloor>) | _ \<Rightarrow> v)"

definition fp_ceil :: "fp \<Rightarrow> fp" where
  "fp_ceil v = (case v of Fin x \<Rightarrow> Fin (of_int \<lceil>x\<rceil>) | _ \<Rightarrow> v)"

text \<open>\<open>static_cast<int>\<close> of a float that is an integer, and a result of \<open>int\<close> arithmetic.\<close>

definition ck :: "int \<Rightarrow> int option" where
  "ck a = (if - (2 ^ 31) \<le> a \<and> a < 2 ^ 31 then Some a else None)"

definition int_of_fp :: "fp \<Rightarrow> int option" where
  "int_of_fp v = (case v of Fin x \<Rightarrow> ck (if x < 0 then \<lceil>x\<rceil> else \<lfloor>x\<rfloor>) | _ \<Rightarrow> None)"

section \<open>RoiCropper\<close>

definition isSupportedOutputSize :: "int \<Rightarrow> bool" where
  "isSupportedOutputSize n \<longleftrightarrow> n = 64 \<or> n = 96 \<or> n = 128"

definition isFiniteBox :: "bounding_box \<Rightarrow> bool" where
  "isFiniteBox box \<longleftrightarrow> fp_isfinite (bb_x box) \<and> fp_isfinite (bb_y box)
     \<and> fp_isfinite (bb_width box) \<and> fp_isfinite (bb_height box)"

text \<open>The constructor; None is \<open>std::invalid_argument\<close>.\<close>

definition RoiCropper :: "crop_config \<Rightarrow> crop_config option" where
  "RoiCropper config =
     (if \<not> fp_isfinite (margin_ratio config) \<or> fp_lt (margin_ratio config) (Fin 0) then None
      else if \<not> isSupportedOutputSize (output_size config) then None
      else Some config)"

text \<open>The side of the square around the box; None: it is not a positive finite number.\<close>

definition square_side :: "crop_config \<Rightarrow> bounding_box \<Rightarrow> fp option" where
  "square_side config box =
     (let expanded_width = fmul32 (bb_width box) (fadd32 (Fin 1) (fmul32 (Fin 2) (margin_ratio config)));
          expanded_height = fmul32 (bb_height box) (fadd32 (Fin 1) (fmul32 (Fin 2) (margin_ratio config)));
          square_size = fp_max expanded_width expanded_height
      in if \<not> fp_isfinite square_size \<or> fp_le square_size (Fin 0) then None else Some square_size)"

text \<open>The ends of the square along one axis, in pixels.\<close>

definition low_end :: "fp \<Rightarrow> fp \<Rightarrow> int option" where
  "low_end center square_size = int_of_fp (fp_floor (fsub32 center (fmul32 square_size (Fin (1/2)))))"

definition high_end :: "fp \<Rightarrow> fp \<Rightarrow> int option" where
  "high_end center square_size = int_of_fp (fp_ceil (fadd32 center (fmul32 square_size (Fin (1/2)))))"

text \<open>The shorter side is lengthened; half of the difference goes to the front.\<close>

definition widen :: "int \<Rightarrow> int \<Rightarrow> int \<Rightarrow> int option" where
  "widen front initial pixel_size =
     (if initial < pixel_size
      then do { difference \<leftarrow> ck (pixel_size - initial); front \<leftarrow> ck (front - difference div 2);
                _ \<leftarrow> ck (front + pixel_size); Some front }
      else Some front)"

definition crop_window :: "fp \<Rightarrow> fp \<Rightarrow> fp \<Rightarrow> pixel_rect option option" where
  "crop_window center_x center_y square_size = do {
     left \<leftarrow> low_end center_x square_size;
     top \<leftarrow> low_end center_y square_size;
     right \<leftarrow> high_end center_x square_size;
     bottom \<leftarrow> high_end center_y square_size;
     initial_width \<leftarrow> ck (right - left);
     initial_height \<leftarrow> ck (bottom - top);
     let pixel_size = max initial_width initial_height;
     if pixel_size \<le> 0 then Some None
     else do {
       left \<leftarrow> widen left initial_width pixel_size;
       top \<leftarrow> widen top initial_height pixel_size;
       Some (Some \<lparr>rect_x = left, rect_y = top, rect_w = pixel_size, rect_h = pixel_size\<rparr>) } }"

definition crop_padding :: "pixel_rect \<Rightarrow> pixel_rect \<Rightarrow> padding option" where
  "crop_padding requested valid = do {
     l \<leftarrow> ck (rect_x valid - rect_x requested);
     t \<leftarrow> ck (rect_y valid - rect_y requested);
     r \<leftarrow> ck ((rect_x requested + rect_w requested) - (rect_x valid + rect_w valid));
     b \<leftarrow> ck ((rect_y requested + rect_h requested) - (rect_y valid + rect_h valid));
     Some \<lparr>pad_left = l, pad_top = t, pad_right = r, pad_bottom = b\<rparr> }"

definition crop :: "cv_lib \<Rightarrow> crop_config \<Rightarrow> pixel_mat \<Rightarrow> roi_candidate \<Rightarrow> cropped_roi option option" where
  "crop cv config bgr_frame candidate =
     (if mat_empty bgr_frame \<or> \<not> is_8uc3 bgr_frame then Some None
      else let box = object_bbox candidate in
      if \<not> isFiniteBox box \<or> fp_le (bb_width box) (Fin 0) \<or> fp_le (bb_height box) (Fin 0) then Some None
      else let center_x = fadd32 (bb_x box) (fmul32 (bb_width box) (Fin (1/2)));
               center_y = fadd32 (bb_y box) (fmul32 (bb_height box) (Fin (1/2)))
      in case square_side config box of None \<Rightarrow> Some None
      | Some square_size \<Rightarrow> do {
          window \<leftarrow> crop_window center_x center_y square_size;
          (case window of None \<Rightarrow> Some None
           | Some requested_rect \<Rightarrow>
               let frame_rect = \<lparr>rect_x = 0, rect_y = 0, rect_w = cols bgr_frame, rect_h = rows bgr_frame\<rparr>;
                   valid_rect = cv_intersect cv requested_rect frame_rect
               in if rect_empty valid_rect then Some None
                  else do {
                    pad \<leftarrow> crop_padding requested_rect valid_rect;
                    let visible_crop = cv_region_clone cv bgr_frame valid_rect;
                    let padded_crop = cv_copyMakeBorder cv visible_crop (pad_top pad) (pad_bottom pad) (pad_left pad) (pad_right pad);
                    let resized_crop = cv_resize cv padded_crop (output_size config) (output_size config);
                    Some (Some \<lparr>cr_frame_id = k_frame_id candidate, cr_roi_id = k_roi_id candidate,
                      cr_object_bbox = box, cr_crop_window = requested_rect, cr_padding = pad,
                      cr_objectness = k_objectness candidate, cr_frame_width = word_of_int (cols bgr_frame),
                      cr_frame_height = word_of_int (rows bgr_frame), bgr_pixels = resized_crop\<rparr>) }) })"

section \<open>RoiPreprocessor\<close>

text \<open>The members of type float become the bit patterns that are sent.\<close>

definition prepare :: "cv_lib \<Rightarrow> cropped_roi \<Rightarrow> prepared_roi option" where
  "prepare cv cropped =
     (if mat_empty (bgr_pixels cropped) \<or> \<not> is_8uc3 (bgr_pixels cropped)
         \<or> cols (bgr_pixels cropped) \<noteq> 96 \<or> rows (bgr_pixels cropped) \<noteq> 96 then None
      else let box = cr_object_bbox cropped in
        Some \<lparr>p_frame_id = cr_frame_id cropped, p_roi_id = cr_roi_id cropped,
          p_x = f32_to_bits (bb_x box), p_y = f32_to_bits (bb_y box),
          p_width = f32_to_bits (bb_width box), p_height = f32_to_bits (bb_height box),
          p_objectness = f32_to_bits (cr_objectness cropped),
          p_frame_width = cr_frame_width cropped, p_frame_height = cr_frame_height cropped,
          rgb_pixels = cv_bgr2rgb cv (bgr_pixels cropped)\<rparr>)"

section \<open>One axis of the window\<close>

lemma fl_error:
  assumes "\<bar>x\<bar> < B" "B \<le> 2 ^ n" "n \<le> 127"
  obtains v where "round_fp binary32 x = Fin v" "v \<le> x + 2 ^ n / 2 ^ 25" "x - 2 ^ n / 2 ^ 25 \<le> v"
proof -
  have "\<bar>x\<bar> < 2 ^ n" using assms(1,2) by linarith
  from round32_error [OF this assms(3)] obtain v where "round_fp binary32 x = Fin v" "\<bar>v - x\<bar> \<le> 2 ^ n / 2 ^ 25" .
  then show thesis by (intro that) (simp_all only: abs_le_iff, linarith+)
qed

lemma int_of_floor: "- (2 ^ 31) \<le> x \<Longrightarrow> x < 2 ^ 31 \<Longrightarrow> int_of_fp (fp_floor (Fin x)) = Some \<lfloor>x\<rfloor>"
  by (auto simp: int_of_fp_def fp_floor_def ck_def le_floor_iff floor_less_iff)

lemma int_of_ceil: "- (2 ^ 31) \<le> x \<Longrightarrow> x \<le> 2 ^ 31 - 1 \<Longrightarrow> int_of_fp (fp_ceil (Fin x)) = Some \<lceil>x\<rceil>"
proof -
  assume "- (2 ^ 31) \<le> x" "x \<le> 2 ^ 31 - 1"
  then have "- (2 ^ 31) \<le> \<lceil>x\<rceil>" "\<lceil>x\<rceil> \<le> 2 ^ 31 - 1"
    by (simp add: le_ceiling_iff, simp add: ceiling_le_iff)
  then show ?thesis by (simp add: int_of_fp_def fp_ceil_def ck_def)
qed

lemma window_axis:
  assumes x: "0 \<le> x" "x < 2 ^ 14" and w: "1/16 \<le> w" "w \<le> 2 ^ 14 + 1" and s: "128/100 * w \<le> s" "s < 2 ^ 15"
  obtains c lo hi where "fadd32 (Fin x) (fmul32 (Fin w) (Fin (1/2))) = Fin c"
    "low_end (Fin c) (Fin s) = Some lo" "high_end (Fin c) (Fin s) = Some hi"
    "of_int lo \<le> x" "x + w \<le> of_int hi" "- (2 ^ 15) < lo" "hi < 2 ^ 16" "of_int (hi - lo) \<le> s + 21/10"
proof -
  have "\<bar>w / 2\<bar> < 2 ^ 14" using w by simp
  from fl_error [OF this, of 14] obtain h1 where h1: "round_fp binary32 (w / 2) = Fin h1"
    "h1 \<le> w / 2 + 1/2048" "w / 2 - 1/2048 \<le> h1" by auto
  have "\<bar>x + h1\<bar> < 2 ^ 15" using h1 x w by simp
  from fl_error [OF this, of 15] obtain c where c: "round_fp binary32 (x + h1) = Fin c"
    "c \<le> x + h1 + 1/1024" "x + h1 - 1/1024 \<le> c" by auto
  have "\<bar>s / 2\<bar> < 2 ^ 15" using s w by simp
  from fl_error [OF this, of 15] obtain h where h: "round_fp binary32 (s / 2) = Fin h"
    "h \<le> s / 2 + 1/1024" "s / 2 - 1/1024 \<le> h" by auto
  have "\<bar>c - h\<bar> < 2 ^ 15" using c h h1 x w s by (simp add: abs_less_iff)
  from fl_error [OF this, of 15] obtain l where l: "round_fp binary32 (c - h) = Fin l"
    "l \<le> c - h + 1/1024" "c - h - 1/1024 \<le> l" by auto
  have "\<bar>c + h\<bar> < 2 ^ 16" using c h h1 x w s by (simp add: abs_less_iff)
  from fl_error [OF this, of 16] obtain r where r: "round_fp binary32 (c + h) = Fin r"
    "r \<le> c + h + 1/512" "c + h - 1/512 \<le> r" by auto
  have lb: "- (2 ^ 15) + 1 \<le> l" "l \<le> x" and rb: "x + w \<le> r" "r \<le> 2 ^ 16 - 1"
    using l r c h h1 x w s by simp_all
  have lo: "low_end (Fin c) (Fin s) = Some \<lfloor>l\<rfloor>"
    using lb x int_of_floor [of l] by (simp add: low_end_def h fp_sub_def l)
  have hi: "high_end (Fin c) (Fin s) = Some \<lceil>r\<rceil>"
    using rb x w int_of_ceil [of r] by (simp add: high_end_def h r)
  show thesis
  proof (rule that [OF _ lo hi])
    show "fadd32 (Fin x) (fmul32 (Fin w) (Fin (1/2))) = Fin c" by (simp add: h1 c)
    show "of_int \<lfloor>l\<rfloor> \<le> x" "x + w \<le> of_int \<lceil>r\<rceil>" using lb rb by linarith+
    show "- (2 ^ 15) < \<lfloor>l\<rfloor>" "\<lceil>r\<rceil> < 2 ^ 16" using lb rb by (simp_all add: less_floor_iff ceiling_less_iff)
    have "of_int \<lceil>r\<rceil> < r + 1" "l - 1 < of_int \<lfloor>l\<rfloor>" by linarith+
    moreover have "r - l \<le> s + 5/1024" using l r h by simp
    ultimately show "of_int (\<lceil>r\<rceil> - \<lfloor>l\<rfloor>) \<le> s + 21/10" by simp
  qed
qed

section \<open>The side of the square\<close>

lemma margin_factor:
  obtains m where "fadd32 (Fin 1) (fmul32 (Fin 2) (lit32 (3/20))) = Fin m" "12999/10000 \<le> m" "m \<le> 13000002/10000000"
proof -
  have two: "fmul32 (Fin 2) (lit32 (3/20)) = Fin (5033165/16777216)" by simp
  have "\<bar>1 + 5033165/16777216 :: rat\<bar> < 2" by simp
  from fl_error [OF this, of 1] obtain m where m: "round_fp binary32 (1 + 5033165/16777216) = Fin m"
    "m \<le> 1 + 5033165/16777216 + 2 / 2 ^ 25" "1 + 5033165/16777216 - 2 / 2 ^ 25 \<le> m" by auto
  show thesis by (rule that [of m]) (use m in \<open>simp_all only: two fp_add.simps, simp_all\<close>)
qed

lemma side_bounds:
  assumes "1/16 \<le> w" "w \<le> 2 ^ 14 + 1" "1/16 \<le> h" "h \<le> 2 ^ 14 + 1"
  obtains s where "square_side CropConfig_default \<lparr>bb_x = x, bb_y = y, bb_width = Fin w, bb_height = Fin h\<rparr> = Some (Fin s)"
    "128/100 * w \<le> s" "128/100 * h \<le> s" "s \<le> 13/10 * max w h + 1/100" "s < 2 ^ 15"
proof -
  obtain m where m: "fadd32 (Fin 1) (fmul32 (Fin 2) (lit32 (3/20))) = Fin m" "12999/10000 \<le> m" "m \<le> 13000002/10000000"
    by (rule margin_factor)
  have side: "\<exists>v. fmul32 (Fin a) (Fin m) = Fin v \<and> 128/100 * a \<le> v \<and> v \<le> 13/10 * a + 1/100"
    if "1/16 \<le> a" "a \<le> 2 ^ 14 + 1" for a
  proof -
    have le: "12999/10000 * a \<le> a * m" "a * m \<le> 13000002/10000000 * a"
      using that m by (simp_all add: mult.commute mult_left_mono)
    moreover have top: "a \<le> 16385" using that by simp
    ultimately have "0 \<le> a * m" "a * m < 32768" using that(1) by linarith+
    then have "\<bar>a * m\<bar> < 2 ^ 15" by simp
    from fl_error [OF this, of 15] obtain v where v: "round_fp binary32 (a * m) = Fin v"
      "v \<le> a * m + 1/1024" "a * m - 1/1024 \<le> v" by auto
    have "128/100 * a \<le> v" "v \<le> 13/10 * a + 1/100" using v le that(1) top by linarith+
    then show ?thesis using v(1) by simp
  qed
  obtain u v where uv: "fmul32 (Fin w) (Fin m) = Fin u" "fmul32 (Fin h) (Fin m) = Fin v"
    "128/100 * w \<le> u" "u \<le> 13/10 * w + 1/100" "128/100 * h \<le> v" "v \<le> 13/10 * h + 1/100"
    using side [OF assms(1,2)] side [OF assms(3,4)] by blast
  have "fp_max (Fin u) (Fin v) = Fin (max u v)" by (simp add: fp_max_def max_def)
  moreover have "0 < max u v" "max u v < 2 ^ 15" using uv assms by (simp_all add: max_def)
  ultimately have "square_side CropConfig_default \<lparr>bb_x = x, bb_y = y, bb_width = Fin w, bb_height = Fin h\<rparr> = Some (Fin (max u v))"
    by (simp only: square_side_def CropConfig_default_def crop_config.simps bounding_box.simps m uv Let_def)
      (auto simp: fp_isfinite_def max_def split: if_splits)
  then show thesis by (rule that) (use uv \<open>max u v < 2 ^ 15\<close> in \<open>simp_all add: max_def split: if_splits\<close>)
qed

section \<open>The window\<close>

lemma ck_ok [simp]: "- (2 ^ 31) \<le> a \<Longrightarrow> a < 2 ^ 31 \<Longrightarrow> ck a = Some a"
  by (simp add: ck_def)

lemma widen_covers:
  assumes "- (2 ^ 15) < front" "front + initial < 2 ^ 16" "0 < initial" "initial \<le> side" "side < 2 ^ 16 + 2 ^ 15"
  obtains f where "widen front initial side = Some f" "f \<le> front" "front + initial \<le> f + side" "- (2 ^ 17) < f" "f + side < 2 ^ 18"
proof (cases "initial < side")
  case True
  define d where "d = (side - initial) div 2"
  have d: "0 \<le> d" "d \<le> side - initial" using True by (simp_all add: d_def)
  have "widen front initial side = Some (front - d)"
    using True assms d by (simp add: widen_def flip: d_def)
  then show thesis by (rule that) (use assms True d in simp_all)
next
  case False
  then have "widen front initial side = Some front" by (simp add: widen_def)
  then show thesis by (rule that) (use assms False in simp_all)
qed

lemma crop_window_covers:
  assumes x: "0 \<le> x" "x < 2 ^ 14" "1/16 \<le> w" "w \<le> 2 ^ 14 + 1"
    and y: "0 \<le> y" "y < 2 ^ 14" "1/16 \<le> h" "h \<le> 2 ^ 14 + 1"
    and s: "128/100 * w \<le> s" "128/100 * h \<le> s" "s < 2 ^ 15"
  obtains cx cy rx ry side where "fadd32 (Fin x) (fmul32 (Fin w) (Fin (1/2))) = Fin cx"
    "fadd32 (Fin y) (fmul32 (Fin h) (Fin (1/2))) = Fin cy"
    "crop_window (Fin cx) (Fin cy) (Fin s) = Some (Some \<lparr>rect_x = rx, rect_y = ry, rect_w = side, rect_h = side\<rparr>)"
    "of_int rx \<le> x" "x + w \<le> of_int (rx + side)" "of_int ry \<le> y" "y + h \<le> of_int (ry + side)"
    "- (2 ^ 17) < rx" "rx + side < 2 ^ 18" "- (2 ^ 17) < ry" "ry + side < 2 ^ 18" "0 < side" "of_int side \<le> s + 21/10"
proof -
  obtain cx l r where cx: "fadd32 (Fin x) (fmul32 (Fin w) (Fin (1/2))) = Fin cx"
    "low_end (Fin cx) (Fin s) = Some l" "high_end (Fin cx) (Fin s) = Some r" "of_int l \<le> x" "x + w \<le> of_int r"
    "- (2 ^ 15) < l" "r < 2 ^ 16" "of_int (r - l) \<le> s + 21/10"
    by (rule window_axis [OF x s(1,3)])
  obtain cy t b where cy: "fadd32 (Fin y) (fmul32 (Fin h) (Fin (1/2))) = Fin cy"
    "low_end (Fin cy) (Fin s) = Some t" "high_end (Fin cy) (Fin s) = Some b" "of_int t \<le> y" "y + h \<le> of_int b"
    "- (2 ^ 15) < t" "b < 2 ^ 16" "of_int (b - t) \<le> s + 21/10"
    by (rule window_axis [OF y s(2,3)])
  define side where "side = max (r - l) (b - t)"
  have "of_int l < (of_int r :: rat)" "of_int t < (of_int b :: rat)" using cx cy x y by linarith+
  then have pos: "0 < r - l" "0 < b - t" by simp_all
  have small: "r - l < 2 ^ 16 + 2 ^ 15" "b - t < 2 ^ 16 + 2 ^ 15" using cx(6,7) cy(6,7) by simp_all
  obtain rx where rx: "widen l (r - l) side = Some rx" "rx \<le> l" "l + (r - l) \<le> rx + side" "- (2 ^ 17) < rx" "rx + side < 2 ^ 18"
    by (rule widen_covers [of l "r - l" side]) (use cx(6,7) pos small in \<open>simp_all add: side_def\<close>)
  obtain ry where ry: "widen t (b - t) side = Some ry" "ry \<le> t" "t + (b - t) \<le> ry + side" "- (2 ^ 17) < ry" "ry + side < 2 ^ 18"
    by (rule widen_covers [of t "b - t" side]) (use cy(6,7) pos small in \<open>simp_all add: side_def\<close>)
  have "ck (r - l) = Some (r - l)" "ck (b - t) = Some (b - t)" using pos small by simp_all
  moreover have "0 < side" using pos by (simp add: side_def)
  ultimately have win: "crop_window (Fin cx) (Fin cy) (Fin s) = Some (Some \<lparr>rect_x = rx, rect_y = ry, rect_w = side, rect_h = side\<rparr>)"
    using rx(1) ry(1) by (simp add: crop_window_def cx(2,3) cy(2,3) side_def [symmetric] Let_def not_le)
      (use pos in auto)
  show thesis
  proof (rule that [OF cx(1) cy(1) win])
    have "of_int rx \<le> (of_int l :: rat)" "of_int r \<le> (of_int (rx + side) :: rat)"
      "of_int ry \<le> (of_int t :: rat)" "of_int b \<le> (of_int (ry + side) :: rat)"
      using rx ry by (simp_all only: of_int_le_iff)
    then show "of_int rx \<le> x" "x + w \<le> of_int (rx + side)" "of_int ry \<le> y" "y + h \<le> of_int (ry + side)"
      using cx(4,5) cy(4,5) by linarith+
    show "of_int side \<le> s + 21/10" using cx(8) cy(8) by (simp add: side_def max_def)
  qed (use rx ry \<open>0 < side\<close> in simp_all)
qed

section \<open>The patch\<close>

lemma crop_padding_ok:
  assumes "- (2 ^ 17) < rect_x r" "rect_x r + rect_w r < 2 ^ 18" "- (2 ^ 17) < rect_y r" "rect_y r + rect_h r < 2 ^ 18"
    and "rect_x r \<le> rect_x v" "rect_y r \<le> rect_y v" "rect_x v + rect_w v \<le> rect_x r + rect_w r"
    "rect_y v + rect_h v \<le> rect_y r + rect_h r" "0 < rect_w v" "0 < rect_h v"
  shows "crop_padding r v = Some \<lparr>pad_left = rect_x v - rect_x r, pad_top = rect_y v - rect_y r,
    pad_right = rect_x r + rect_w r - (rect_x v + rect_w v), pad_bottom = rect_y r + rect_h r - (rect_y v + rect_h v)\<rparr>"
  using assms by (simp add: crop_padding_def)

text \<open>What of the window lies in a picture of the given size.\<close>

definition visible :: "pixel_rect \<Rightarrow> int \<Rightarrow> int \<Rightarrow> pixel_rect" where
  "visible r w h = \<lparr>rect_x = max (rect_x r) 0, rect_y = max (rect_y r) 0,
     rect_w = min (rect_x r + rect_w r) w - max (rect_x r) 0, rect_h = min (rect_y r + rect_h r) h - max (rect_y r) 0\<rparr>"

text \<open>The patch is the window of the picture, black outside of it, scaled to the output size.\<close>

definition patch_of :: "cv_lib \<Rightarrow> pixel_mat \<Rightarrow> pixel_rect \<Rightarrow> int \<Rightarrow> pixel_mat \<Rightarrow> bool" where
  "patch_of cv bgr r n patch \<longleftrightarrow> (\<exists>m. patch = cv_resize cv m n n \<and> mat_ok m \<and> cols m = rect_w r \<and> rows m = rect_h r
     \<and> (\<forall>y x c. 0 \<le> y \<and> y < rect_h r \<and> 0 \<le> x \<and> x < rect_w r \<and> c < 3 \<longrightarrow>
          px m y x c = (let v = rect_y r + y; u = rect_x r + x in
            if 0 \<le> v \<and> v < rows bgr \<and> 0 \<le> u \<and> u < cols bgr then px bgr v u c else 0)))"

lemma crop_pixels:
  assumes cv: "cv_ok cv" and bgr: "mat_ok bgr" and r: "0 < rect_w r" "0 < rect_h r"
    and cut: "rect_x r < cols bgr" "rect_y r < rows bgr" "0 < rect_x r + rect_w r" "0 < rect_y r + rect_h r"
    and v: "v = visible r (cols bgr) (rows bgr)"
  defines "whole \<equiv> \<lparr>rect_x = 0, rect_y = 0, rect_w = cols bgr, rect_h = rows bgr\<rparr>"
  shows "cv_intersect cv r whole = v" "\<not> rect_empty v"
    "patch_of cv bgr r n (cv_resize cv (cv_copyMakeBorder cv (cv_region_clone cv bgr v)
       (rect_y v - rect_y r) (rect_y r + rect_h r - (rect_y v + rect_h v))
       (rect_x v - rect_x r) (rect_x r + rect_w r - (rect_x v + rect_w v))) n n)"
proof -
  have pos: "0 < cols bgr" "0 < rows bgr" using bgr by (simp_all add: mat_ok_def)
  have ne: "\<not> rect_empty r" "\<not> rect_empty whole" using r pos by (simp_all add: rect_empty_def whole_def)
  have "intersect_ok cv" using cv by (simp add: cv_ok_def)
  note meet = this [unfolded intersect_ok_def Let_def, rule_format, OF ne]
  show "cv_intersect cv r whole = v"
    using meet cut r pos by (simp add: v visible_def whole_def)
  show ne: "\<not> rect_empty v" using cut r pos by (simp add: v visible_def rect_empty_def not_le)
  have inside: "0 \<le> rect_x v" "0 \<le> rect_y v" "rect_x v + rect_w v \<le> cols bgr" "rect_y v + rect_h v \<le> rows bgr"
    by (simp_all add: v visible_def)
  define m where "m = cv_region_clone cv bgr v"
  have m: "mat_ok m" "cols m = rect_w v" "rows m = rect_h v"
    "\<And>y x c. 0 \<le> y \<Longrightarrow> y < rect_h v \<Longrightarrow> 0 \<le> x \<Longrightarrow> x < rect_w v \<Longrightarrow> c < 3 \<Longrightarrow> px m y x c = px bgr (rect_y v + y) (rect_x v + x) c"
    using cv bgr ne inside unfolding cv_ok_def region_ok_def Let_def m_def by blast+
  define t l where "t = rect_y v - rect_y r" and "l = rect_x v - rect_x r"
  define b rr where "b = rect_y r + rect_h r - (rect_y v + rect_h v)" and "rr = rect_x r + rect_w r - (rect_x v + rect_w v)"
  have nn: "0 \<le> t" "0 \<le> l" "0 \<le> b" "0 \<le> rr" by (simp_all add: t_def l_def b_def rr_def v visible_def)
  define p where "p = cv_copyMakeBorder cv m t b l rr"
  have border: "mat_ok p \<and> cols p = l + cols m + rr \<and> rows p = t + rows m + b
        \<and> (\<forall>y x c. 0 \<le> y \<longrightarrow> y < rows p \<longrightarrow> 0 \<le> x \<longrightarrow> x < cols p \<longrightarrow> c < 3 \<longrightarrow>
             px p y x c = (if t \<le> y \<and> y < t + rows m \<and> l \<le> x \<and> x < l + cols m then px m (y - t) (x - l) c else 0))"
    using cv m(1) nn unfolding cv_ok_def border_ok_def Let_def p_def by blast
  have sz: "cols p = rect_w r" "rows p = rect_h r" using border m by (simp_all add: t_def l_def b_def rr_def)
  have "px p y x c = (let v = rect_y r + y; u = rect_x r + x in
            if 0 \<le> v \<and> v < rows bgr \<and> 0 \<le> u \<and> u < cols bgr then px bgr v u c else 0)"
    if "0 \<le> y \<and> y < rect_h r \<and> 0 \<le> x \<and> x < rect_w r \<and> c < 3" for y x c
  proof -
    have "t \<le> y \<and> y < t + rows m \<and> l \<le> x \<and> x < l + cols m \<longleftrightarrow>
        0 \<le> rect_y r + y \<and> rect_y r + y < rows bgr \<and> 0 \<le> rect_x r + x \<and> rect_x r + x < cols bgr"
      using that m(2,3) by (auto simp: t_def l_def v visible_def)
    moreover have "px m (y - t) (x - l) c = px bgr (rect_y r + y) (rect_x r + x) c"
      if "t \<le> y \<and> y < t + rows m \<and> l \<le> x \<and> x < l + cols m"
    proof -
      have "0 \<le> y - t" "y - t < rect_h v" "0 \<le> x - l" "x - l < rect_w v" using that m(2,3) by simp_all
      from m(4) [OF this] show ?thesis
        using \<open>0 \<le> y \<and> y < rect_h r \<and> 0 \<le> x \<and> x < rect_w r \<and> c < 3\<close> by (simp add: t_def l_def add.commute)
    qed
    ultimately show ?thesis using border that sz by (simp add: Let_def)
  qed
  then show "patch_of cv bgr r n (cv_resize cv (cv_copyMakeBorder cv (cv_region_clone cv bgr v)
       (rect_y v - rect_y r) (rect_y r + rect_h r - (rect_y v + rect_h v))
       (rect_x v - rect_x r) (rect_x r + rect_w r - (rect_x v + rect_w v))) n n)"
    unfolding patch_of_def using border sz
    by (intro exI [of _ p]) (simp add: p_def m_def t_def b_def l_def rr_def)
qed

text \<open>What the cropper answers for a box of ordinary size that begins in the picture.\<close>

definition crop_good :: "cv_lib \<Rightarrow> pixel_mat \<Rightarrow> roi_candidate \<Rightarrow> rat \<Rightarrow> rat \<Rightarrow> rat \<Rightarrow> rat \<Rightarrow> cropped_roi \<Rightarrow> bool" where
  "crop_good cv bgr cand x y w h r \<longleftrightarrow>
     (let win = cr_crop_window r; pad = cr_padding r; v = visible win (cols bgr) (rows bgr) in
       rect_w win = rect_h win \<and> of_int (rect_w win) \<le> 13/10 * max w h + 3
       \<and> of_int (rect_x win) \<le> x \<and> x + w \<le> of_int (rect_x win + rect_w win)
       \<and> of_int (rect_y win) \<le> y \<and> y + h \<le> of_int (rect_y win + rect_h win)
       \<and> \<not> rect_empty v \<and> 0 \<le> pad_left pad \<and> 0 \<le> pad_right pad \<and> 0 \<le> pad_top pad \<and> 0 \<le> pad_bottom pad
       \<and> pad_left pad + rect_w v + pad_right pad = rect_w win \<and> pad_top pad + rect_h v + pad_bottom pad = rect_h win
       \<and> patch_of cv bgr win 96 (bgr_pixels r) \<and> mat_ok (bgr_pixels r) \<and> cols (bgr_pixels r) = 96 \<and> rows (bgr_pixels r) = 96
       \<and> cr_frame_id r = k_frame_id cand \<and> cr_roi_id r = k_roi_id cand \<and> cr_object_bbox r = object_bbox cand
       \<and> cr_objectness r = k_objectness cand
       \<and> cr_frame_width r = word_of_int (cols bgr) \<and> cr_frame_height r = word_of_int (rows bgr))"

lemma crop_ordinary_box:
  assumes cv: "cv_ok cv" and bgr: "mat_ok bgr" "cols bgr \<le> 2 ^ 14" "rows bgr \<le> 2 ^ 14"
    and box: "object_bbox cand = \<lparr>bb_x = Fin x, bb_y = Fin y, bb_width = Fin w, bb_height = Fin h\<rparr>"
    and x: "0 \<le> x" "x < of_int (cols bgr)" "1/16 \<le> w" "w \<le> 2 ^ 14 + 1"
    and y: "0 \<le> y" "y < of_int (rows bgr)" "1/16 \<le> h" "h \<le> 2 ^ 14 + 1"
  shows "\<exists>r. crop cv CropConfig_default bgr cand = Some (Some r) \<and> crop_good cv bgr cand x y w h r"
proof -
  have "(of_int (cols bgr) :: rat) \<le> of_int (2 ^ 14)" "(of_int (rows bgr) :: rat) \<le> of_int (2 ^ 14)"
    using bgr(2,3) by (simp_all only: of_int_le_iff)
  then have lt: "x < 2 ^ 14" "y < 2 ^ 14" using x(2) y(2) by simp_all
  obtain s where s: "square_side CropConfig_default (object_bbox cand) = Some (Fin s)" "128/100 * w \<le> s" "128/100 * h \<le> s"
      "s \<le> 13/10 * max w h + 1/100" "s < 2 ^ 15"
    unfolding box by (rule side_bounds [OF x(3,4) y(3,4)])
  obtain cx cy rx ry side where win: "fadd32 (Fin x) (fmul32 (Fin w) (Fin (1/2))) = Fin cx"
    "fadd32 (Fin y) (fmul32 (Fin h) (Fin (1/2))) = Fin cy"
    "crop_window (Fin cx) (Fin cy) (Fin s) = Some (Some \<lparr>rect_x = rx, rect_y = ry, rect_w = side, rect_h = side\<rparr>)"
    and covers: "of_int rx \<le> x" "x + w \<le> of_int (rx + side)" "of_int ry \<le> y" "y + h \<le> of_int (ry + side)"
    and range: "- (2 ^ 17) < rx" "rx + side < 2 ^ 18" "- (2 ^ 17) < ry" "ry + side < 2 ^ 18" "0 < side" "of_int side \<le> s + 21/10"
    by (rule crop_window_covers [OF x(1) lt(1) x(3,4) y(1) lt(2) y(3,4) s(2,3,5)])
  let ?r = "\<lparr>rect_x = rx, rect_y = ry, rect_w = side, rect_h = side\<rparr>"
  define v where "v = visible ?r (cols bgr) (rows bgr)"
  have "of_int rx < (of_int (cols bgr) :: rat)" "of_int ry < (of_int (rows bgr) :: rat)"
    "(0 :: rat) < of_int (rx + side)" "(0 :: rat) < of_int (ry + side)" using covers x y by linarith+
  then have cut: "rect_x ?r < cols bgr" "rect_y ?r < rows bgr" "0 < rect_x ?r + rect_w ?r" "0 < rect_y ?r + rect_h ?r"
    by (simp_all only: of_int_less_iff of_int_0_less_iff pixel_rect.simps)
  note pix = crop_pixels [OF cv bgr(1) _ _ cut v_def, simplified pixel_rect.simps, OF range(5) TrueI]
  have inside: "rx \<le> rect_x v" "ry \<le> rect_y v" "rect_x v + rect_w v \<le> rx + side" "rect_y v + rect_h v \<le> ry + side"
    "0 < rect_w v" "0 < rect_h v"
    using pix(2) by (simp_all add: v_def visible_def rect_empty_def not_le)
  have pad: "crop_padding ?r v = Some \<lparr>pad_left = rect_x v - rx, pad_top = rect_y v - ry,
    pad_right = rx + side - (rect_x v + rect_w v), pad_bottom = ry + side - (rect_y v + rect_h v)\<rparr>"
    using crop_padding_ok [of ?r v] range inside by simp
  define p where "p = cv_resize cv (cv_copyMakeBorder cv (cv_region_clone cv bgr v) (rect_y v - ry)
    (ry + side - (rect_y v + rect_h v)) (rect_x v - rx) (rx + side - (rect_x v + rect_w v))) 96 96"
  have patch: "patch_of cv bgr ?r 96 p" unfolding p_def by (rule pix(3))
  then obtain m where "p = cv_resize cv m 96 96" "mat_ok m" by (auto simp: patch_of_def)
  then have p_ok: "mat_ok p" "cols p = 96" "rows p = 96" using cv by (auto simp: cv_ok_def resize_ok_def)
  have nonempty: "\<not> mat_empty bgr" "is_8uc3 bgr" using bgr(1) by (auto simp: mat_ok_def mat_empty_def)
  let ?a = "\<lparr>cr_frame_id = k_frame_id cand, cr_roi_id = k_roi_id cand, cr_object_bbox = object_bbox cand,
     cr_crop_window = ?r, cr_padding = \<lparr>pad_left = rect_x v - rx, pad_top = rect_y v - ry,
       pad_right = rx + side - (rect_x v + rect_w v), pad_bottom = ry + side - (rect_y v + rect_h v)\<rparr>,
     cr_objectness = k_objectness cand, cr_frame_width = word_of_int (cols bgr),
     cr_frame_height = word_of_int (rows bgr), bgr_pixels = p\<rparr>"
  have "crop cv CropConfig_default bgr cand = Some (Some ?a)"
    using nonempty x y s(1) win pix(1,2) pad
    by (simp add: crop_def Let_def box isFiniteBox_def fp_isfinite_def p_def CropConfig_default_def)
  moreover have "crop_good cv bgr cand x y w h ?a"
    using covers inside range(6) s(4) patch p_ok pix(2) by (simp add: crop_good_def Let_def v_def [symmetric])
  ultimately show ?thesis by blast
qed

text \<open>A region that can be sent: the values of the candidate as bit patterns, the patch as RGB.\<close>

definition prepared_good :: "roi_candidate \<Rightarrow> pixel_mat \<Rightarrow> cropped_roi \<Rightarrow> prepared_roi \<Rightarrow> bool" where
  "prepared_good cand bgr r p \<longleftrightarrow>
     p_frame_id p = k_frame_id cand \<and> p_roi_id p = k_roi_id cand
     \<and> map f32_of_bits [p_x p, p_y p, p_width p, p_height p, p_objectness p]
         = [bb_x (object_bbox cand), bb_y (object_bbox cand), bb_width (object_bbox cand), bb_height (object_bbox cand),
            k_objectness cand]
     \<and> p_frame_width p = word_of_int (cols bgr) \<and> p_frame_height p = word_of_int (rows bgr)
     \<and> is_8uc3 (rgb_pixels p) \<and> cols (rgb_pixels p) = 96 \<and> rows (rgb_pixels p) = 96
     \<and> length (pixels (rgb_pixels p)) = IMAGE_PAYLOAD_SIZE
     \<and> (\<forall>y x c. 0 \<le> y \<and> y < 96 \<and> 0 \<le> x \<and> x < 96 \<and> c < 3 \<longrightarrow> px (rgb_pixels p) y x c = px (bgr_pixels r) y x (2 - c))"

definition crop_candidate_ok :: "roi_candidate \<Rightarrow> bool" where
  "crop_candidate_ok cand \<longleftrightarrow> (let b = object_bbox cand in fp_ok binary32 (bb_x b) \<and> fp_ok binary32 (bb_y b)
     \<and> fp_ok binary32 (bb_width b) \<and> fp_ok binary32 (bb_height b) \<and> fp_ok binary32 (k_objectness cand))"

lemma prepare_good:
  assumes "cv_ok cv" "crop_candidate_ok cand" "crop_good cv bgr cand x y w h r"
  shows "\<exists>p. prepare cv r = Some p \<and> prepared_good cand bgr r p"
proof -
  have r: "mat_ok (bgr_pixels r)" "cols (bgr_pixels r) = 96" "rows (bgr_pixels r) = 96"
    "cr_frame_id r = k_frame_id cand" "cr_roi_id r = k_roi_id cand" "cr_object_bbox r = object_bbox cand"
    "cr_objectness r = k_objectness cand" "cr_frame_width r = word_of_int (cols bgr)" "cr_frame_height r = word_of_int (rows bgr)"
    using assms(3) by (simp_all add: crop_good_def Let_def)
  let ?m = "cv_bgr2rgb cv (bgr_pixels r)"
  have "bgr2rgb_ok cv" using assms(1) by (simp add: cv_ok_def)
  note conv = this [unfolded bgr2rgb_ok_def Let_def, rule_format, OF r(1)]
  have "mat_ok ?m" "cols ?m = 96" "rows ?m = 96" using conv r by simp_all
  then have len: "length (pixels ?m) = IMAGE_PAYLOAD_SIZE" "is_8uc3 ?m"
    by (simp_all add: mat_ok_def IMAGE_PAYLOAD_SIZE_def)
  have "prepare cv r \<noteq> None" using r by (auto simp: prepare_def Let_def mat_ok_def mat_empty_def)
  then obtain p where p: "prepare cv r = Some p" by blast
  have ne: "\<not> mat_empty (bgr_pixels r)" "is_8uc3 (bgr_pixels r)" using r(1-3) by (auto simp: mat_ok_def mat_empty_def)
  have "prepared_good cand bgr r p"
    using p ne r assms(2) conv len
    by (auto simp: prepare_def Let_def prepared_good_def crop_candidate_ok_def f32_round_trip)
  then show ?thesis using p by blast
qed

section \<open>Properties\<close>

text \<open>
  C16: The patch shows the object. For a picture of at most 16384 pixels a side and a box that begins
  in it, of at least a sixteenth of a pixel and at most one pixel longer than the largest picture,
  the default cropper answers, in spite of the roundings of its float arithmetic, with a square
  window that contains the exact box and is at most 1.3 times as long as its longer side and three
  pixels; nothing overflows; the paddings are what lies outside of the picture, and black; and what
  is sent is this window scaled to 96 x 96, as RGB, with the candidate's own ids and values.
\<close>

theorem crop_covers_object:
  assumes "cv_ok cv" "mat_ok bgr" "cols bgr \<le> 2 ^ 14" "rows bgr \<le> 2 ^ 14" "crop_candidate_ok cand"
    and "object_bbox cand = \<lparr>bb_x = Fin x, bb_y = Fin y, bb_width = Fin w, bb_height = Fin h\<rparr>"
    and "0 \<le> x" "x < of_int (cols bgr)" "1/16 \<le> w" "w \<le> 2 ^ 14 + 1"
    and "0 \<le> y" "y < of_int (rows bgr)" "1/16 \<le> h" "h \<le> 2 ^ 14 + 1"
  shows "\<exists>r p. crop cv CropConfig_default bgr cand = Some (Some r) \<and> crop_good cv bgr cand x y w h r
    \<and> prepare cv r = Some p \<and> prepared_good cand bgr r p"
proof -
  from crop_ordinary_box [OF assms(1-4,6-)] obtain r where
    r: "crop cv CropConfig_default bgr cand = Some (Some r)" "crop_good cv bgr cand x y w h r" by blast
  with prepare_good [OF assms(1,5) r(2)] show ?thesis by blast
qed

theorem crop_covers_object_witness:
  "let cand = \<lparr>k_frame_id = 7, k_roi_id = 2, object_bbox = \<lparr>bb_x = Fin 600, bb_y = Fin (101/2), bb_width = Fin 64,
       bb_height = Fin (65/2)\<rparr>, k_objectness = Fin (1/2)\<rparr>; bgr = mat_of 360 640 (\<lambda>y x c. 9)
   in \<exists>r p. crop reference_cv CropConfig_default bgr cand = Some (Some r) \<and> crop_good reference_cv bgr cand 600 (101/2) 64 (65/2) r
    \<and> prepare reference_cv r = Some p \<and> prepared_good cand bgr r p"
  unfolding Let_def by (rule crop_covers_object) (simp_all add: crop_candidate_ok_def)

end
