(* ===== verification/Newest_Value.thy ===== *)
theory Newest_Value
  imports Prelude
begin

text \<open>
  A slot that holds the newest of the values produced, with a 64-bit version that counts them, and a
  reader that remembers the version it took last: what the frame source and the MJPEG server use
  between their threads. \<open>ks\<close> are the numbers of the values taken, \<open>n\<close> how many were produced.
\<close>

definition reader_ok :: "nat \<Rightarrow> u64 \<Rightarrow> nat list \<Rightarrow> bool" where
  "reader_ok n version ks \<longleftrightarrow> version = word_of_nat (last (0 # ks)) \<and> last (0 # ks) \<le> n
     \<and> (n < 2 ^ 64 \<longrightarrow> sorted_wrt (<) (0 # ks))"

lemma reader_ok_start [simp]: "reader_ok n 0 []"
  by (simp add: reader_ok_def)

lemma sorted_less_last: "sorted_wrt (<) xs \<Longrightarrow> x \<in> set xs \<Longrightarrow> x \<le> last xs" for x :: nat
  by (cases xs rule: rev_cases) (auto simp: sorted_wrt_append)

lemma reader_ok_more: "reader_ok n v ks \<Longrightarrow> n \<le> m \<Longrightarrow> reader_ok m v ks"
  unfolding reader_ok_def by auto

text \<open>Another version means a newer value.\<close>

lemma reader_ok_newer:
  assumes "reader_ok n v ks" "v \<noteq> word_of_nat n" "n < 2 ^ 64"
  shows "\<forall>k \<in> set (0 # ks). k < n"
proof -
  have s: "sorted_wrt (<) (0 # ks)" and le: "last (0 # ks) \<le> n" and v: "v = word_of_nat (last (0 # ks))"
    using assms(1,3) unfolding reader_ok_def by blast+
  have "last (0 # ks) \<noteq> n" using assms(2) v by metis
  then have "last (0 # ks) < n" using le by linarith
  then show ?thesis using sorted_less_last [OF s] by (blast intro: le_less_trans)
qed

lemma reader_ok_take:
  assumes "reader_ok n v ks" "v \<noteq> word_of_nat n"
  shows "reader_ok n (word_of_nat n) (ks @ [n])"
proof -
  have "sorted_wrt (<) (0 # ks @ [n])" if "n < 2 ^ 64"
  proof -
    have "sorted_wrt (<) (0 # ks)" using assms(1) that unfolding reader_ok_def by blast
    then show ?thesis using reader_ok_newer [OF assms that] by (simp add: sorted_wrt_append)
  qed
  then show ?thesis by (simp add: reader_ok_def)
qed

lemma reader_ok_current:
  assumes "reader_ok n v ks" "v = word_of_nat n" "n < 2 ^ 64"
  shows "last (0 # ks) = n"
proof -
  have "(word_of_nat n :: u64) = word_of_nat (last (0 # ks))" "last (0 # ks) < 2 ^ 64"
    using assms unfolding reader_ok_def by (metis, linarith)
  then show ?thesis using assms(3) by (simp add: word_of_nat_eq_iff take_bit_nat_eq_self)
qed

end
