(* ===== verification/Mjpeg_Server.thy ===== *)
theory Mjpeg_Server
  imports Roi_Crop Newest_Value Subsequences
begin

text \<open>
  \<open>stream/MjpegStreamServer\<close>: the annotated camera picture as a stream of JPEGs over HTTP. The loop
  of the client publishes into a slot; the encoder's thread takes the newest frame, draws the
  results and encodes; a thread per viewer sends the newest JPEG. OpenCV's drawing and encoding
  (\<open>render\<close>, \<open>imencode\<close>, \<open>text_size\<close>) are arguments.
\<close>

section \<open>Configuration and overlays\<close>

record roi_overlay =
  ov_bbox :: bounding_box
  ov_status :: u32
  ov_class_id :: u32
  ov_confidence_ppm :: u32

record mjpeg_config =
  mj_port :: u16
  jpeg_quality :: int
  overlay_min_confidence_ppm :: u32
  client_send_timeout_ms :: int
  poll_interval_ms :: int

definition MjpegServerConfig_default :: mjpeg_config where
  "MjpegServerConfig_default = \<lparr>mj_port = 8080, jpeg_quality = 80, overlay_min_confidence_ppm = 600000,
     client_send_timeout_ms = 200, poll_interval_ms = 500\<rparr>"

definition kClassNames :: "string list" where
  "kClassNames = [''background'', ''car'', ''person'', ''sign_warning'', ''sign_prohibition'', ''sign_mandatory'']"

text \<open>\<open>std::to_string\<close>.\<close>

fun decimal :: "nat \<Rightarrow> string" where
  "decimal n = (if n < 10 then [char_of (48 + n)] else decimal (n div 10) @ [char_of (48 + n mod 10)])"

declare decimal.simps [simp del]

definition classLabel :: "u32 \<Rightarrow> string" where
  "classLabel cid =
     (if cid = 0xffffffff then ''invalid''
      else if unat cid < length kClassNames then kClassNames ! unat cid
      else ''class'' @ decimal (unat cid))"

text \<open>
  What is drawn for one result: the box, whether in the colour of success, the label, where its text
  starts and the corners of its background. None inside: nothing; None: a cast that is undefined.
\<close>

record drawing =
  dr_box :: pixel_rect
  dr_ok :: bool
  dr_label :: string
  dr_text :: "int \<times> int"
  dr_corner1 :: "int \<times> int"
  dr_corner2 :: "int \<times> int"

definition overlay_label :: "roi_overlay \<Rightarrow> string" where
  "overlay_label ov =
     (if ov_status ov = 0 then classLabel (ov_class_id ov) @ '' '' @ decimal (unat (ov_confidence_ppm ov div 10000)) @ ''%''
      else ''ERR'' @ decimal (unat (ov_status ov)))"

definition draw_overlay ::
  "cv_lib \<Rightarrow> (string \<Rightarrow> int \<times> int \<times> int) \<Rightarrow> pixel_mat \<Rightarrow> u32 \<Rightarrow> roi_overlay \<Rightarrow> drawing option option" where
  "draw_overlay cv text_size canvas min_confidence_ppm ov =
     (if ov_status ov = 0 \<and> ov_confidence_ppm ov < min_confidence_ppm then Some None
      else do {
        x \<leftarrow> int_of_fp (bb_x (ov_bbox ov));
        y \<leftarrow> int_of_fp (bb_y (ov_bbox ov));
        w \<leftarrow> int_of_fp (bb_width (ov_bbox ov));
        h \<leftarrow> int_of_fp (bb_height (ov_bbox ov));
        let box = cv_intersect cv \<lparr>rect_x = x, rect_y = y, rect_w = w, rect_h = h\<rparr>
                    \<lparr>rect_x = 0, rect_y = 0, rect_w = cols canvas, rect_h = rows canvas\<rparr>;
        if rect_w box \<le> 0 \<or> rect_h box \<le> 0 then Some None
        else let label = overlay_label ov; (text_w, text_h, baseline) = text_size label;
                 org_x = rect_x box; org_y = max (rect_y box - 4) text_h
             in Some (Some \<lparr>dr_box = box, dr_ok = (ov_status ov = 0), dr_label = label, dr_text = (org_x, org_y),
                  dr_corner1 = (org_x, org_y + baseline + 2), dr_corner2 = (org_x + text_w, org_y - text_h)\<rparr>) })"

fun drawOverlays ::
  "cv_lib \<Rightarrow> (string \<Rightarrow> int \<times> int \<times> int) \<Rightarrow> pixel_mat \<Rightarrow> roi_overlay list \<Rightarrow> u32 \<Rightarrow> drawing list option" where
  "drawOverlays cv text_size canvas [] m = Some []"
| "drawOverlays cv text_size canvas (ov # ovs) m = do {
     d \<leftarrow> draw_overlay cv text_size canvas m ov;
     ds \<leftarrow> drawOverlays cv text_size canvas ovs m;
     Some (case d of None \<Rightarrow> ds | Some d \<Rightarrow> d # ds) }"

section \<open>The stream to a viewer\<close>

definition writeAll :: "sock \<Rightarrow> u8 list \<Rightarrow> sock \<times> bool" where
  "writeAll s data = (case send_loop data (send_replies s) of (out, rs, r) \<Rightarrow>
     (s\<lparr>send_replies := rs, outgoing := outgoing s @ out\<rparr>, r = IoOk))"

definition bytes_of :: "string \<Rightarrow> u8 list" where
  "bytes_of text = map of_char text"

definition CRLF :: "u8 list" where "CRLF = [13, 10]"

definition kHeader :: "u8 list" where
  "kHeader = bytes_of ''HTTP/1.0 200 OK'' @ CRLF @ bytes_of ''Server: adas-jetson-mjpeg'' @ CRLF
     @ bytes_of ''Connection: close'' @ CRLF @ bytes_of ''Cache-Control: no-cache, private'' @ CRLF
     @ bytes_of ''Pragma: no-cache'' @ CRLF
     @ bytes_of ''Content-Type: multipart/x-mixed-replace; boundary=adasframe'' @ CRLF @ CRLF"

definition part_header :: "nat \<Rightarrow> u8 list" where
  "part_header n = bytes_of ''--adasframe'' @ CRLF @ bytes_of ''Content-Type: image/jpeg'' @ CRLF
     @ bytes_of ''Content-Length: '' @ bytes_of (decimal n) @ CRLF @ CRLF"

text \<open>The buffer the part's header is printed into.\<close>

definition part_header_capacity :: nat where "part_header_capacity = 128"

datatype client_state = Greeting | Serving | Gone

record mjpeg_client =
  mc_fd :: int
  mc_sock :: sock
  mc_state :: client_state
  last_sent_version :: u64
  mc_taken :: "nat list"

definition send_part :: "sock \<Rightarrow> u8 list \<Rightarrow> (sock \<times> bool) option" where
  "send_part s jpeg =
     (if length (part_header (length jpeg)) \<ge> part_header_capacity then None
      else Some (case writeAll s (part_header (length jpeg)) of (s, ok) \<Rightarrow>
        if \<not> ok then (s, False) else case writeAll s jpeg of (s, ok) \<Rightarrow>
        if \<not> ok then (s, False) else writeAll s CRLF))"

section \<open>The server\<close>

record mjpeg =
  mj_config :: mjpeg_config
  mj_listen_fd :: int
  mj_running :: bool
  mj_frame :: "(pixel_mat \<times> roi_overlay list) option"
  frame_version :: u64
  last_encoded_version :: u64
  enc_hand :: "(pixel_mat \<times> roi_overlay list) option"
  latest_jpeg :: "u8 list"
  jpeg_version :: u64
  mj_clients :: "mjpeg_client list"
  mj_held :: "int list"
  published :: "(pixel_mat \<times> roi_overlay list) list"
  enc_taken :: "nat list"
  encoded :: "(nat \<times> u8 list) list"

definition MjpegStreamServer :: "mjpeg_config \<Rightarrow> mjpeg" where
  "MjpegStreamServer config = \<lparr>mj_config = config, mj_listen_fd = -1, mj_running = False, mj_frame = None,
     frame_version = 0, last_encoded_version = 0, enc_hand = None, latest_jpeg = [], jpeg_version = 0, mj_clients = [],
     mj_held = [], published = [], enc_taken = [], encoded = []\<rparr>"

text \<open>\<open>start\<close>; the answers of \<open>socket\<close>, \<open>bind\<close> and \<open>listen\<close>.\<close>

definition mj_start :: "mjpeg \<Rightarrow> int \<Rightarrow> bool \<Rightarrow> bool \<Rightarrow> mjpeg \<times> bool" where
  "mj_start M fd0 bound listening =
     (if mj_running M then (M, True)
      else let M = M\<lparr>mj_listen_fd := fd0\<rparr> in
      if fd0 < 0 then (M, False)
      else let M = M\<lparr>mj_held := fd0 # mj_held M\<rparr>;
               close_it = M\<lparr>mj_held := remove1 fd0 (mj_held M), mj_listen_fd := -1\<rparr>
      in if \<not> bound then (close_it, False)
         else if \<not> listening then (close_it, False)
         else (M\<lparr>mj_running := True\<rparr>, True))"

text \<open>\<open>stop\<close>, up to the joins.\<close>

definition mj_stop :: "mjpeg \<Rightarrow> mjpeg" where
  "mj_stop M =
     (if \<not> mj_running M then M
      else let M = M\<lparr>mj_running := False\<rparr> in
      if mj_listen_fd M \<ge> 0 then M\<lparr>mj_held := remove1 (mj_listen_fd M) (mj_held M), mj_listen_fd := -1\<rparr> else M)"

definition mj_publish :: "mjpeg \<Rightarrow> pixel_mat \<Rightarrow> roi_overlay list \<Rightarrow> mjpeg" where
  "mj_publish M bgr_frame overlays =
     (if \<not> mj_running M then M
      else M\<lparr>mj_frame := Some (mat_clone bgr_frame, overlays), frame_version := frame_version M + 1,
             published := published M @ [(mat_clone bgr_frame, overlays)]\<rparr>)"

definition clientCount :: "mjpeg \<Rightarrow> nat" where
  "clientCount M = length (filter (\<lambda>c. mc_state c \<noteq> Gone) (mj_clients M))"

text \<open>The encoder takes the newest frame when it is another one; \<open>encode\<close> is the rest of its round.\<close>

definition enc_take :: "mjpeg \<Rightarrow> mjpeg" where
  "enc_take M =
     (if \<not> mj_running M \<or> enc_hand M \<noteq> None then M
      else case mj_frame M of None \<Rightarrow> M
      | Some f \<Rightarrow>
          if frame_version M = last_encoded_version M then M
          else M\<lparr>last_encoded_version := frame_version M, enc_hand := Some (mat_clone (fst f), snd f),
                 enc_taken := enc_taken M @ [length (published M)]\<rparr>)"

record graphics =
  g_text_size :: "string \<Rightarrow> int \<times> int \<times> int"
  g_render :: "pixel_mat \<Rightarrow> drawing list \<Rightarrow> pixel_mat"
  g_imencode :: "pixel_mat \<Rightarrow> int \<Rightarrow> u8 list option"

definition mj_encode :: "cv_lib \<Rightarrow> graphics \<Rightarrow> mjpeg_config \<Rightarrow> pixel_mat \<times> roi_overlay list \<Rightarrow> u8 list option option" where
  "mj_encode cv g config f =
     map_option (\<lambda>ds. g_imencode g (g_render g (fst f) ds) (jpeg_quality config))
       (drawOverlays cv (g_text_size g) (fst f) (snd f) (overlay_min_confidence_ppm config))"

definition enc_finish :: "cv_lib \<Rightarrow> graphics \<Rightarrow> mjpeg \<Rightarrow> mjpeg option" where
  "enc_finish cv g M = (case enc_hand M of None \<Rightarrow> Some M
     | Some f \<Rightarrow> (case mj_encode cv g (mj_config M) f of None \<Rightarrow> None
         | Some None \<Rightarrow> Some (M\<lparr>enc_hand := None\<rparr>)
         | Some (Some jpeg) \<Rightarrow> Some (M\<lparr>enc_hand := None, latest_jpeg := jpeg, jpeg_version := jpeg_version M + 1,
             encoded := encoded M @ [(last (0 # enc_taken M), jpeg)]\<rparr>)))"

text \<open>A round of \<open>acceptLoop\<close>; the answers of \<open>poll\<close> and \<open>accept\<close>, and the connection.\<close>

definition mj_accept :: "mjpeg \<Rightarrow> bool \<Rightarrow> int \<Rightarrow> sock \<Rightarrow> mjpeg" where
  "mj_accept M ready cfd s =
     (if \<not> mj_running M \<or> \<not> ready \<or> cfd < 0 then M
      else M\<lparr>mj_clients := mj_clients M @ [\<lparr>mc_fd = cfd, mc_sock = s, mc_state = Greeting, last_sent_version = 0, mc_taken = []\<rparr>],
             mj_held := cfd # mj_held M\<rparr>)"

text \<open>The next step of a viewer's thread: the answer, a part, or its end.\<close>

definition client_next :: "mjpeg \<Rightarrow> mjpeg_client \<Rightarrow> mjpeg_client option" where
  "client_next M c = (case mc_state c of
     Greeting \<Rightarrow> Some (case writeAll (mc_sock c) kHeader of (s, ok) \<Rightarrow>
       c\<lparr>mc_sock := s, mc_state := if ok then Serving else Gone\<rparr>)
   | Serving \<Rightarrow>
       if \<not> mj_running M then Some (c\<lparr>mc_state := Gone\<rparr>)
       else if jpeg_version M = last_sent_version c \<or> latest_jpeg M = [] then Some c
       else map_option (\<lambda>(s, ok). c\<lparr>mc_sock := s, last_sent_version := jpeg_version M,
              mc_taken := mc_taken c @ [length (encoded M)], mc_state := if ok then Serving else Gone\<rparr>)
            (send_part (mc_sock c) (latest_jpeg M))
   | Gone \<Rightarrow> Some c)"

definition client_step :: "mjpeg \<Rightarrow> nat \<Rightarrow> mjpeg option" where
  "client_step M i =
     map_option (\<lambda>c. M\<lparr>mj_clients := (mj_clients M)[i := c],
         mj_held := if mc_state c = Gone \<and> mc_state (mj_clients M ! i) \<noteq> Gone
                    then remove1 (mc_fd c) (mj_held M) else mj_held M\<rparr>)
       (client_next M (mj_clients M ! i))"

inductive mj_step :: "cv_lib \<Rightarrow> graphics \<Rightarrow> mjpeg \<Rightarrow> mjpeg \<Rightarrow> bool" for cv g where
  Publish: "mj_step cv g M (mj_publish M m ovs)"
| Take: "mj_step cv g M (enc_take M)"
| Encode: "enc_finish cv g M = Some M' \<Longrightarrow> mj_step cv g M M'"
| Accept: "outgoing s = [] \<Longrightarrow> mj_step cv g M (mj_accept M ready cfd s)"
| Viewer: "i < length (mj_clients M) \<Longrightarrow> client_step M i = Some M' \<Longrightarrow> mj_step cv g M M'"
| StopServer: "mj_step cv g M (mj_stop M)"

inductive_cases mj_stepE: "mj_step cv g M M'"

section \<open>What a viewer receives\<close>

definition part :: "u8 list \<Rightarrow> u8 list" where
  "part jpeg = part_header (length jpeg) @ jpeg @ CRLF"

definition http_stream :: "u8 list list \<Rightarrow> u8 list" where
  "http_stream js = kHeader @ concat (map part js)"

interpretation mjpeg_out: byte_port writeAll outgoing
proof
  fix s s' :: sock and bs
  obtain out rs q where l: "send_loop bs (send_replies s) = (out, rs, q)" by (metis prod_cases3)
  show "writeAll s bs = (s', True) \<Longrightarrow> outgoing s' = outgoing s @ bs"
    using send_loop_out [OF l] l by (auto simp: writeAll_def)
  show "writeAll s bs = (s', False) \<Longrightarrow> bs \<noteq> [] \<Longrightarrow> \<exists>n<length bs. outgoing s' = outgoing s @ take n bs"
    using send_loop_out [OF l] l by (auto simp: writeAll_def)
qed

lemma write_prefix:
  assumes "writeAll s bs = (s', ok)"
  shows "prefix (outgoing s') (outgoing s @ bs)" "ok \<Longrightarrow> outgoing s' = outgoing s @ bs"
proof -
  show "ok \<Longrightarrow> outgoing s' = outgoing s @ bs" using mjpeg_out.write_ok assms by simp
  show "prefix (outgoing s') (outgoing s @ bs)"
  proof (cases "ok \<or> bs = []")
    case True
    then show ?thesis using assms mjpeg_out.write_ok [of s bs s'] by (auto simp: writeAll_def)
  next
    case False
    then obtain n where "outgoing s' = outgoing s @ take n bs"
      using mjpeg_out.write_fails [of s bs s'] assms by auto
    then show ?thesis by (simp add: take_is_prefix)
  qed
qed

lemma send_part_prefix:
  assumes "send_part s jpeg = Some (s', ok)"
  shows "prefix (outgoing s') (outgoing s @ part jpeg)" "ok \<Longrightarrow> outgoing s' = outgoing s @ part jpeg"
proof -
  obtain s1 ok1 where 1: "writeAll s (part_header (length jpeg)) = (s1, ok1)" by fastforce
  obtain s2 ok2 where 2: "writeAll s1 jpeg = (s2, ok2)" by fastforce
  obtain s3 ok3 where 3: "writeAll s2 CRLF = (s3, ok3)" by fastforce
  note w = write_prefix [OF 1] write_prefix [OF 2] write_prefix [OF 3]
  have r: "(s', ok) = (if ok1 then if ok2 then (s3, ok3) else (s2, False) else (s1, False))"
    using assms 1 2 3 by (auto simp: send_part_def split: if_splits)
  show "ok \<Longrightarrow> outgoing s' = outgoing s @ part jpeg" using r w(2,4,6) by (simp add: part_def split: if_splits)
  consider "ok1" "ok2" "s' = s3" | "ok1" "\<not> ok2" "s' = s2" | "\<not> ok1" "s' = s1" using r by (cases ok1; cases ok2) auto
  then show "prefix (outgoing s') (outgoing s @ part jpeg)"
  proof cases
    case 1
    then show ?thesis using w(2,4,5) by (simp add: part_def)
  next
    case 2
    have "prefix (outgoing s') ((outgoing s @ part_header (length jpeg)) @ jpeg)" using 2 w(2,3) by simp
    from prefix_prefix [OF this, of CRLF] show ?thesis by (simp add: part_def)
  next
    case 3
    then have "prefix (outgoing s') (outgoing s @ part_header (length jpeg))" using w(1) by simp
    from prefix_prefix [OF this, of "jpeg @ CRLF"] show ?thesis by (simp add: part_def)
  qed
qed

text \<open>The header of a part fits into its buffer.\<close>

lemma length_decimal: "n < 10 ^ Suc k \<Longrightarrow> length (decimal n) \<le> Suc k"
proof (induction k arbitrary: n)
  case (Suc k)
  show ?case
  proof (cases "n < 10")
    case False
    then have "decimal n = decimal (n div 10) @ [char_of (48 + n mod 10)]" by (subst decimal.simps) simp
    moreover have "n div 10 < 10 ^ Suc k" using Suc.prems by (simp add: less_mult_imp_div_less)
    ultimately show ?thesis using Suc.IH [of "n div 10"] by simp
  qed (subst decimal.simps, simp)
qed (subst decimal.simps, simp)

lemma send_part_defined:
  assumes "length jpeg < 2 ^ 64" shows "send_part s jpeg \<noteq> None"
proof -
  have "length (decimal (length jpeg)) \<le> Suc 19" using assms by (intro length_decimal) simp
  then have "length (part_header (length jpeg)) < part_header_capacity"
    by (simp add: part_header_def part_header_capacity_def bytes_of_def CRLF_def)
  then show ?thesis by (simp add: send_part_def)
qed

end
