(* ===== verification/Mjpeg_Streams.thy ===== *)
theory Mjpeg_Streams
  imports Mjpeg_Server Subsequences
begin

text \<open>
  What holds of the MJPEG server in every interleaving of its threads: what each viewer has received,
  and which descriptors are held.
\<close>

section \<open>The invariant\<close>

definition jpegs_of :: "(nat \<times> u8 list) list \<Rightarrow> nat list \<Rightarrow> u8 list list" where
  "jpegs_of enc ks = map (\<lambda>k. snd (enc ! (k - 1))) ks"

definition viewer_ok :: "(nat \<times> u8 list) list \<Rightarrow> mjpeg_client \<Rightarrow> bool" where
  "viewer_ok enc c \<longleftrightarrow> reader_ok (length enc) (last_sent_version c) (mc_taken c)
     \<and> set (mc_taken c) \<subseteq> {1..length enc}
     \<and> prefix (outgoing (mc_sock c)) (http_stream (jpegs_of enc (mc_taken c)))
     \<and> (mc_state c = Greeting \<longrightarrow> mc_taken c = [] \<and> outgoing (mc_sock c) = [])
     \<and> (mc_state c = Serving \<longrightarrow> outgoing (mc_sock c) = http_stream (jpegs_of enc (mc_taken c)))"

definition encoder_ok :: "cv_lib \<Rightarrow> graphics \<Rightarrow> mjpeg \<Rightarrow> bool" where
  "encoder_ok cv g M \<longleftrightarrow> frame_version M = word_of_nat (length (published M))
     \<and> mj_frame M = (if published M = [] then None else Some (last (published M)))
     \<and> (\<forall>f \<in> set (published M). continuous (fst f))
     \<and> reader_ok (length (published M)) (last_encoded_version M) (enc_taken M)
     \<and> set (enc_taken M) \<subseteq> {1..length (published M)}
     \<and> jpeg_version M = word_of_nat (length (encoded M))
     \<and> latest_jpeg M = (if encoded M = [] then [] else snd (last (encoded M)))
     \<and> (\<forall>e \<in> set (encoded M). mj_encode cv g (mj_config M) (published M ! (fst e - 1)) = Some (Some (snd e)))
     \<and> (case enc_hand M of None \<Rightarrow> subseq (map fst (encoded M)) (enc_taken M)
        | Some f \<Rightarrow> enc_taken M \<noteq> [] \<and> f = published M ! (last (enc_taken M) - 1)
            \<and> subseq (map fst (encoded M)) (butlast (enc_taken M)))"

definition fds_ok :: "mjpeg \<Rightarrow> bool" where
  "fds_ok M \<longleftrightarrow> mset (mj_held M) = mset (if mj_running M then [mj_listen_fd M] else [])
       + mset (map mc_fd (filter (\<lambda>c. mc_state c \<noteq> Gone) (mj_clients M)))
     \<and> (mj_running M \<longrightarrow> 0 \<le> mj_listen_fd M)"

definition mj_inv :: "cv_lib \<Rightarrow> graphics \<Rightarrow> mjpeg \<Rightarrow> bool" where
  "mj_inv cv g M \<longleftrightarrow> encoder_ok cv g M \<and> fds_ok M \<and> (\<forall>c \<in> set (mj_clients M). viewer_ok (encoded M) c)"

lemma jpegs_of_append:
  "set ks \<subseteq> {1..length enc} \<Longrightarrow> jpegs_of (enc @ es) ks = jpegs_of enc ks"
proof -
  assume ks: "set ks \<subseteq> {1..length enc}"
  have "(enc @ es) ! (k - 1) = enc ! (k - 1)" if "k \<in> set ks" for k
  proof -
    have "k \<in> {1..length enc}" using ks that by blast
    then show ?thesis by (auto simp: nth_append)
  qed
  then show ?thesis by (simp add: jpegs_of_def)
qed

lemma viewer_ok_more: "viewer_ok enc c \<Longrightarrow> viewer_ok (enc @ [e]) c"
  using reader_ok_more [of "length enc" "last_sent_version c" "mc_taken c" "Suc (length enc)"]
  by (auto simp: viewer_ok_def jpegs_of_append)

lemma viewer_ok_new: "outgoing s = [] \<Longrightarrow>
    viewer_ok enc \<lparr>mc_fd = n, mc_sock = s, mc_state = Greeting, last_sent_version = 0, mc_taken = []\<rparr>"
  by (simp add: viewer_ok_def)

lemma http_stream_snoc: "http_stream (js @ [j]) = http_stream js @ part j"
  by (simp add: http_stream_def)

lemma viewer_ok_next:
  assumes "viewer_ok (encoded M) c" "encoder_ok cv g M" "client_next M c = Some c'"
  shows "viewer_ok (encoded M) c' \<and> mc_fd c' = mc_fd c \<and> (mc_state c = Gone \<longrightarrow> c' = c)"
proof (cases "mc_state c")
  case Greeting
  obtain s ok where w: "writeAll (mc_sock c) kHeader = (s, ok)" by fastforce
  have "http_stream [] = outgoing (mc_sock c) @ kHeader" "mc_taken c = []"
    using assms(1) Greeting by (simp_all add: viewer_ok_def http_stream_def)
  then show ?thesis using assms(1,3) Greeting w write_prefix [OF w]
    by (cases ok) (auto simp: client_next_def viewer_ok_def jpegs_of_def)
next
  case Serving
  show ?thesis
  proof (cases "\<not> mj_running M \<or> jpeg_version M = last_sent_version c \<or> latest_jpeg M = []")
    case True
    then show ?thesis using assms(1,3) Serving by (auto simp: client_next_def viewer_ok_def split: if_splits)
  next
    case False
    let ?n = "length (encoded M)"
    obtain s ok where sp: "send_part (mc_sock c) (latest_jpeg M) = Some (s, ok)"
      and c': "c' = c\<lparr>mc_sock := s, last_sent_version := jpeg_version M, mc_taken := mc_taken c @ [?n],
        mc_state := if ok then Serving else Gone\<rparr>"
      using assms(3) Serving False by (auto simp: client_next_def)
    have ne: "encoded M \<noteq> []" and v: "jpeg_version M = word_of_nat ?n" and j: "latest_jpeg M = snd (last (encoded M))"
      using assms(2) False by (auto simp: encoder_ok_def split: if_splits)
    have out: "outgoing (mc_sock c) = http_stream (jpegs_of (encoded M) (mc_taken c))"
      using assms(1) Serving by (simp add: viewer_ok_def)
    have js: "jpegs_of (encoded M) (mc_taken c @ [?n]) = jpegs_of (encoded M) (mc_taken c) @ [latest_jpeg M]"
      using ne j by (simp add: jpegs_of_def last_conv_nth)
    have r: "reader_ok ?n (last_sent_version c) (mc_taken c)" "last_sent_version c \<noteq> word_of_nat ?n"
      using assms(1) v False by (auto simp: viewer_ok_def)
    have "Suc 0 \<le> ?n" using ne by (simp add: Suc_le_eq)
    then show ?thesis
      using assms(1) send_part_prefix [OF sp] out js reader_ok_take [OF r]
      by (auto simp: c' viewer_ok_def http_stream_snoc v Serving)
  qed
qed (use assms in \<open>simp add: client_next_def\<close>)

section \<open>Steps keep the invariant\<close>

lemma encoded_numbers:
  assumes "encoder_ok cv g M" "e \<in> set (encoded M)" shows "fst e \<in> {1..length (published M)}"
proof -
  have "subseq (map fst (encoded M)) (enc_taken M) \<or> subseq (map fst (encoded M)) (butlast (enc_taken M))"
    using assms(1) by (auto simp: encoder_ok_def split: option.splits)
  then have "set (map fst (encoded M)) \<subseteq> set (enc_taken M)"
    using subseq_set in_set_butlastD by fastforce
  moreover have "fst e \<in> set (map fst (encoded M))" using assms(2) by simp
  ultimately show ?thesis using assms(1) unfolding encoder_ok_def by blast
qed

lemma mj_inv_publish: "mj_inv cv g M \<Longrightarrow> mj_inv cv g (mj_publish M m ovs)"
proof (cases "mj_running M")
  case True
  assume inv: "mj_inv cv g M"
  let ?n = "length (published M)"
  have r: "reader_ok (Suc ?n) (last_encoded_version M) (enc_taken M)"
    using inv reader_ok_more [of ?n] by (auto simp: mj_inv_def encoder_ok_def)
  have same: "(published M @ [f]) ! (fst e - 1) = published M ! (fst e - 1)" if "e \<in> set (encoded M)" for e f
  proof -
    have "fst e \<in> {1..?n}" using encoded_numbers [of cv g M] inv that by (simp add: mj_inv_def)
    then show ?thesis by (auto simp: nth_append)
  qed
  have hand: "enc_taken M \<noteq> [] \<Longrightarrow> (published M @ [f]) ! (last (enc_taken M) - 1) = published M ! (last (enc_taken M) - 1)" for f
  proof -
    assume "enc_taken M \<noteq> []"
    then have "last (enc_taken M) \<in> {1..?n}" using inv last_in_set unfolding mj_inv_def encoder_ok_def by blast
    then show ?thesis by (auto simp: nth_append)
  qed
  have "encoder_ok cv g (mj_publish M m ovs)"
    using inv True r same hand
    by (auto simp: mj_inv_def encoder_ok_def mj_publish_def mat_clone_def split: option.splits)
  then show ?thesis using inv True by (auto simp: mj_inv_def fds_ok_def mj_publish_def)
qed (simp add: mj_publish_def)

lemma mj_inv_take: "mj_inv cv g M \<Longrightarrow> mj_inv cv g (enc_take M)"
proof (cases "mj_running M \<and> enc_hand M = None \<and> published M \<noteq> [] \<and> frame_version M \<noteq> last_encoded_version M")
  case True
  assume inv: "mj_inv cv g M"
  let ?n = "length (published M)"
  have f: "mj_frame M = Some (last (published M))" and v: "frame_version M = word_of_nat ?n"
    and c: "continuous (fst (last (published M)))"
    using inv True last_in_set [of "published M"] by (auto simp: mj_inv_def encoder_ok_def)
  have r: "reader_ok ?n (word_of_nat ?n) (enc_taken M @ [?n])"
    using inv True v by (intro reader_ok_take [of _ "last_encoded_version M"]) (auto simp: mj_inv_def encoder_ok_def)
  have same: "(mat_clone (fst (last (published M))), snd (last (published M))) = published M ! (?n - 1)"
    using c True by (simp add: mat_clone_def last_conv_nth prod_eq_iff)
  have t: "enc_take M = M\<lparr>last_encoded_version := word_of_nat ?n, enc_hand := Some (published M ! (?n - 1)),
      enc_taken := enc_taken M @ [?n]\<rparr>"
    using True f v same by (simp add: enc_take_def)
  have "Suc 0 \<le> ?n" using True by (simp add: Suc_le_eq)
  then have "encoder_ok cv g (enc_take M)"
    using inv True r by (auto simp: t mj_inv_def encoder_ok_def)
  then show ?thesis using inv by (auto simp: mj_inv_def fds_ok_def t)
next
  case False
  assume inv: "mj_inv cv g M"
  consider "\<not> mj_running M \<or> enc_hand M \<noteq> None" | "published M = []" | "frame_version M = last_encoded_version M"
    using False by auto
  then have "enc_take M = M"
  proof cases
    case 2
    then have "mj_frame M = None" using inv by (simp add: mj_inv_def encoder_ok_def)
    then show ?thesis by (simp add: enc_take_def)
  qed (auto simp: enc_take_def split: option.split)
  then show ?thesis using inv by simp
qed

lemma encoder_ok_update [simp]:
  "encoder_ok cv g (M\<lparr>mj_clients := cs\<rparr>) \<longleftrightarrow> encoder_ok cv g M" "encoder_ok cv g (M\<lparr>mj_held := h\<rparr>) \<longleftrightarrow> encoder_ok cv g M"
  "encoder_ok cv g (M\<lparr>mj_running := r\<rparr>) \<longleftrightarrow> encoder_ok cv g M" "encoder_ok cv g (M\<lparr>mj_listen_fd := n\<rparr>) \<longleftrightarrow> encoder_ok cv g M"
  by (cases "enc_hand M"; simp add: encoder_ok_def)+

lemma mj_inv_finish:
  assumes "mj_inv cv g M" "enc_finish cv g M = Some M'" shows "mj_inv cv g M'"
proof (cases "enc_hand M")
  case (Some f)
  have h: "enc_taken M \<noteq> []" "f = published M ! (last (enc_taken M) - 1)"
    "subseq (map fst (encoded M)) (butlast (enc_taken M))"
    using assms(1) Some by (simp_all add: mj_inv_def encoder_ok_def)
  have sub: "subseq (map fst (encoded M)) (enc_taken M)"
    using h(3) prefix_imp_subseq [OF prefixeq_butlast] by (rule subseq_order.order_trans)
  have sub': "subseq (map fst (encoded M) @ [last (enc_taken M)]) (enc_taken M)"
    using list_emb_append_mono [OF h(3), of "[last (enc_taken M)]" "[last (enc_taken M)]"] h(1) by simp
  consider "mj_encode cv g (mj_config M) f = Some None" "M' = M\<lparr>enc_hand := None\<rparr>"
    | jpeg where "mj_encode cv g (mj_config M) f = Some (Some jpeg)"
      "M' = M\<lparr>enc_hand := None, latest_jpeg := jpeg, jpeg_version := jpeg_version M + 1,
          encoded := encoded M @ [(last (enc_taken M), jpeg)]\<rparr>"
    using assms(2) Some h(1) by (auto simp: enc_finish_def split: option.splits)
  then show ?thesis
  proof cases
    case 1
    then show ?thesis using assms(1) Some sub by (simp add: mj_inv_def encoder_ok_def fds_ok_def)
  next
    case (2 jpeg)
    have "encoder_ok cv g M'"
      using assms(1) Some sub' h(2) 2(1) by (auto simp: 2(2) mj_inv_def encoder_ok_def)
    moreover have "\<forall>c \<in> set (mj_clients M'). viewer_ok (encoded M') c"
      using assms(1) viewer_ok_more by (simp add: 2(2) mj_inv_def)
    ultimately show ?thesis using assms(1) by (simp add: 2(2) mj_inv_def fds_ok_def)
  qed
qed (use assms in \<open>simp add: enc_finish_def\<close>)

lemma mj_inv_accept: "mj_inv cv g M \<Longrightarrow> outgoing s = [] \<Longrightarrow> mj_inv cv g (mj_accept M ready n s)"
  using viewer_ok_new [of s "encoded M" n]
  by (auto simp: mj_inv_def mj_accept_def fds_ok_def)

lemma mj_inv_stop: "mj_inv cv g M \<Longrightarrow> mj_inv cv g (mj_stop M)"
  by (auto simp: mj_inv_def mj_stop_def fds_ok_def Let_def)

text \<open>The descriptors of the viewers that are not gone, when one of them changes.\<close>

lemma fds_of_update:
  assumes "i < length cs" "mc_fd c = mc_fd (cs ! i)" "mc_state (cs ! i) = Gone \<longrightarrow> c = cs ! i"
  shows "mset (map mc_fd (filter (\<lambda>c. mc_state c \<noteq> Gone) (cs[i := c])))
    = mset (map mc_fd (filter (\<lambda>c. mc_state c \<noteq> Gone) cs))
      - (if mc_state c = Gone \<and> mc_state (cs ! i) \<noteq> Gone then {#mc_fd c#} else {#})"
  (is "?fds (cs[i := c]) = _")
proof -
  have split: "?fds (take i cs @ d # drop (Suc i) cs)
      = ?fds (take i cs) + (if mc_state d = Gone then {#} else {#mc_fd d#}) + ?fds (drop (Suc i) cs)" for d by simp
  have "cs = take i cs @ cs ! i # drop (Suc i) cs" using assms(1) by (rule id_take_nth_drop)
  then have old: "?fds cs = ?fds (take i cs) + (if mc_state (cs ! i) = Gone then {#} else {#mc_fd (cs ! i)#}) + ?fds (drop (Suc i) cs)"
    using split by metis
  show ?thesis unfolding upd_conv_take_nth_drop [OF assms(1)] split old using assms(2,3) by auto
qed

lemma mj_inv_viewer:
  assumes "mj_inv cv g M" "i < length (mj_clients M)" "client_step M i = Some M'"
  shows "mj_inv cv g M'"
proof -
  let ?c = "mj_clients M ! i"
  obtain c where c: "client_next M ?c = Some c" and M': "M' = M\<lparr>mj_clients := (mj_clients M)[i := c],
      mj_held := if mc_state c = Gone \<and> mc_state ?c \<noteq> Gone then remove1 (mc_fd c) (mj_held M) else mj_held M\<rparr>"
    using assms(3) by (auto simp: client_step_def)
  have "viewer_ok (encoded M) ?c" "encoder_ok cv g M" using assms(1,2) by (simp_all add: mj_inv_def)
  from viewer_ok_next [OF this c] have v: "viewer_ok (encoded M) c" "mc_fd c = mc_fd ?c" "mc_state ?c = Gone \<longrightarrow> c = ?c" by simp_all
  have "\<forall>d \<in> set ((mj_clients M)[i := c]). viewer_ok (encoded M) d"
    using assms(1) v(1) set_update_subset_insert [of "mj_clients M" i c] by (auto simp: mj_inv_def)
  moreover have "fds_ok M'"
  proof -
    have "mc_state ?c \<noteq> Gone \<Longrightarrow> mc_fd ?c \<in># mset (map mc_fd (filter (\<lambda>c. mc_state c \<noteq> Gone) (mj_clients M)))"
      using assms(2) by auto
    then show ?thesis using assms(1) fds_of_update [OF assms(2) v(2,3)] v(2)
      by (auto simp: M' mj_inv_def fds_ok_def)
  qed
  moreover have "encoder_ok cv g M'" using assms(1) by (simp add: M' mj_inv_def)
  ultimately show ?thesis by (simp add: M' mj_inv_def)
qed

lemma mj_inv_step: "mj_step cv g M M' \<Longrightarrow> mj_inv cv g M \<Longrightarrow> mj_inv cv g M'"
  by (erule mj_stepE)
    (blast intro: mj_inv_publish mj_inv_take mj_inv_finish mj_inv_accept mj_inv_viewer mj_inv_stop)+

lemma mj_inv_reach: "(mj_step cv g)\<^sup>*\<^sup>* M M' \<Longrightarrow> mj_inv cv g M \<Longrightarrow> mj_inv cv g M'"
  by (induction rule: rtranclp_induct) (auto intro: mj_inv_step)

lemma mj_inv_start: "mj_inv cv g (fst (mj_start (MjpegStreamServer config) n b l))"
  by (auto simp: mj_start_def MjpegStreamServer_def mj_inv_def encoder_ok_def fds_ok_def Let_def split: if_splits)

section \<open>Properties\<close>

text \<open>
  C30: In every interleaving of the server's threads, for fewer than \<open>2 ^ 64\<close> frames: each JPEG is the
  encoding of a published frame with its own results drawn, in the order of publication and none
  twice; and what a viewer has received is a prefix of the HTTP answer followed by parts that hold
  such JPEGs, newer and newer, with the length that each part announces; only a viewer that is gone
  can have an incomplete last part.
\<close>

theorem viewer_stream_well_formed:
  assumes "mj_start (MjpegStreamServer config) n b l = (M0, True)" "(mj_step cv g)\<^sup>*\<^sup>* M0 M"
    and "length (published M) < 2 ^ 64" "length (encoded M) < 2 ^ 64" "c \<in> set (mj_clients M)"
  shows "(\<forall>(k, jpeg) \<in> set (encoded M). mj_encode cv g (mj_config M) (published M ! (k - 1)) = Some (Some jpeg))
    \<and> sorted_wrt (<) (map fst (encoded M))
    \<and> sorted_wrt (<) (mc_taken c) \<and> set (mc_taken c) \<subseteq> {1..length (encoded M)}
    \<and> prefix (outgoing (mc_sock c)) (http_stream (jpegs_of (encoded M) (mc_taken c)))
    \<and> (mc_state c = Serving \<longrightarrow> outgoing (mc_sock c) = http_stream (jpegs_of (encoded M) (mc_taken c)))"
proof -
  have inv: "mj_inv cv g M" using mj_inv_reach [OF assms(2)] mj_inv_start [of cv g config n b l] assms(1) by simp
  then have e: "encoder_ok cv g M" and v: "viewer_ok (encoded M) c" using assms(5) by (simp_all add: mj_inv_def)
  have "sorted_wrt (<) (0 # enc_taken M)" using e assms(3) unfolding encoder_ok_def reader_ok_def by blast
  then have "sorted_wrt (<) (enc_taken M)" by simp
  moreover have "subseq (map fst (encoded M)) (enc_taken M)"
    using e prefix_imp_subseq [OF prefixeq_butlast, of "enc_taken M"]
    by (auto simp: encoder_ok_def split: option.splits intro: subseq_order.order_trans)
  ultimately have "sorted_wrt (<) (map fst (encoded M))" by (rule subseq_sorted_wrt [rotated])
  moreover have "sorted_wrt (<) (0 # mc_taken c)" using v assms(4) unfolding viewer_ok_def reader_ok_def by blast
  then have "sorted_wrt (<) (mc_taken c)" by simp
  moreover have "\<forall>(k, jpeg) \<in> set (encoded M). mj_encode cv g (mj_config M) (published M ! (k - 1)) = Some (Some jpeg)"
    using e by (auto simp: encoder_ok_def)
  ultimately show ?thesis using v unfolding viewer_ok_def by blast
qed

text \<open>A server with a published frame and a viewer that has received its header.\<close>

definition example_graphics :: graphics where
  "example_graphics = \<lparr>g_text_size = (\<lambda>label. (int (length label) * 8, 11, 4)), g_render = (\<lambda>m ds. m), g_imencode = (\<lambda>m q. Some [7, 7])\<rparr>"

definition example_server :: mjpeg where
  "example_server = fst (mj_start (MjpegStreamServer MjpegServerConfig_default) 9 True True)"

definition example_viewer :: mjpeg where
  "example_viewer = mj_accept example_server True 4 \<lparr>incoming = [], send_replies = [Took 1000], outgoing = []\<rparr>"

lemma example_steps:
  "(mj_step reference_cv example_graphics)\<^sup>*\<^sup>* example_server (mj_publish example_viewer (mat_of 360 640 (\<lambda>y x c. 9)) [])"
proof -
  have "mj_step reference_cv example_graphics example_server example_viewer"
    unfolding example_viewer_def by (rule mj_step.Accept) simp
  then show ?thesis by (meson mj_step.Publish rtranclp.rtrancl_into_rtrancl rtranclp.rtrancl_refl)
qed

theorem viewer_stream_well_formed_witness:
  "let M = mj_publish example_viewer (mat_of 360 640 (\<lambda>y x c. 9)) [] in
   length (published M) = 1 \<and> (\<exists>c \<in> set (mj_clients M).
     prefix (outgoing (mc_sock c)) (http_stream (jpegs_of (encoded M) (mc_taken c))))"
proof -
  let ?M = "mj_publish example_viewer (mat_of 360 640 (\<lambda>y x c. 9)) []"
  let ?c = "\<lparr>mc_fd = 4, mc_sock = \<lparr>incoming = [], send_replies = [Took 1000], outgoing = []\<rparr>, mc_state = Greeting,
     last_sent_version = 0, mc_taken = []\<rparr>"
  have M: "length (published ?M) = 1" "encoded ?M = []" "mj_clients ?M = [?c]"
    by (simp_all add: mj_publish_def example_viewer_def example_server_def mj_accept_def mj_start_def MjpegStreamServer_def Let_def)
  have "mj_start (MjpegStreamServer MjpegServerConfig_default) 9 True True = (example_server, True)"
    by (simp add: example_server_def mj_start_def MjpegStreamServer_def Let_def)
  from viewer_stream_well_formed [OF this example_steps, of ?c] M show ?thesis by (simp add: Let_def)
qed

text \<open>
  The server gives back what it takes: in every interleaving, once it has been stopped and the
  threads it joins have ended, no descriptor is left; and a start that fails leaves none either.
\<close>

theorem mjpeg_releases_descriptors:
  assumes "(mj_step cv g)\<^sup>*\<^sup>* (fst (mj_start (MjpegStreamServer config) n b l)) M"
    and "\<not> mj_running M" "list_all (\<lambda>c. mc_state c = Gone) (mj_clients M)"
  shows "mj_held M = []"
proof -
  have "fds_ok M" using mj_inv_reach [OF assms(1)] mj_inv_start [of cv g config n b l] by (simp add: mj_inv_def)
  moreover have "filter (\<lambda>c. mc_state c \<noteq> Gone) (mj_clients M) = []" using assms(3) by (auto simp: filter_empty_conv list_all_iff)
  ultimately show ?thesis using assms(2) by (simp add: fds_ok_def)
qed

theorem mjpeg_releases_descriptors_witness:
  "mj_held example_server = [9] \<and> mj_held (mj_stop example_server) = []"
proof -
  have s: "\<not> mj_running (mj_stop example_server)" "mj_clients (mj_stop example_server) = []" "mj_held example_server = [9]"
    by (simp_all add: mj_stop_def example_server_def mj_start_def MjpegStreamServer_def Let_def)
  have "(mj_step reference_cv example_graphics)\<^sup>*\<^sup>* example_server (mj_stop example_server)"
    by (rule r_into_rtranclp) (rule mj_step.StopServer)
  then have "mj_held (mj_stop example_server) = []"
    using s by (intro mjpeg_releases_descriptors [of reference_cv example_graphics MjpegServerConfig_default 9 True True])
      (simp_all add: example_server_def)
  then show ?thesis using s(3) by simp
qed

end
