(* ===== verification/Mjpeg_Stop.thy ===== *)
theory Mjpeg_Stop
  imports Mjpeg_Streams
begin

text \<open>
  How the MJPEG server runs beside \<open>main\<close> and how \<open>stop\<close> ends it. What its threads do between two calls of
  \<open>main\<close> is a list of their steps. \<open>stop\<close> joins the threads of the viewers too: one that is still in its \<open>recv\<close>, which
  has no time limit, takes no step, and then \<open>stop\<close> does not return.
\<close>

section \<open>The threads beside main\<close>

text \<open>A step of a thread. A viewer's first step comes when its \<open>recv\<close> has returned; what it has read is discarded.\<close>

datatype server_act = TakeFrame | EncodeFrame | AcceptViewer bool int "send_reply list" | ViewerThread nat

definition act_step :: "cv_lib \<Rightarrow> graphics \<Rightarrow> server_act \<Rightarrow> mjpeg \<Rightarrow> mjpeg option" where
  "act_step cv g a M = (case a of
     TakeFrame \<Rightarrow> Some (enc_take M)
   | EncodeFrame \<Rightarrow> enc_finish cv g M
   | AcceptViewer ready cfd rs \<Rightarrow> Some (mj_accept M ready cfd \<lparr>incoming = [], send_replies = rs, outgoing = []\<rparr>)
   | ViewerThread i \<Rightarrow> if i < length (mj_clients M) then client_step M i else Some M)"

fun act_steps :: "cv_lib \<Rightarrow> graphics \<Rightarrow> server_act list \<Rightarrow> mjpeg \<Rightarrow> mjpeg option" where
  "act_steps cv g [] M = Some M"
| "act_steps cv g (a # as) M = Option.bind (act_step cv g a M) (act_steps cv g as)"

text \<open>The pictures that \<open>main\<close> publishes, each after a list of steps; the other lists follow.\<close>

fun publish_all ::
  "cv_lib \<Rightarrow> graphics \<Rightarrow> (pixel_mat \<times> roi_overlay list) list \<Rightarrow> server_act list list \<Rightarrow> mjpeg \<Rightarrow> mjpeg option" where
  "publish_all cv g [] rounds M = act_steps cv g (concat rounds) M"
| "publish_all cv g ((bgr, overlays) # pubs) rounds M =
     Option.bind (act_steps cv g (concat (take 1 rounds)) M)
       (\<lambda>M. publish_all cv g pubs (drop 1 rounds) (mj_publish M bgr overlays))"

text \<open>\<open>stop\<close> with its joins, during which the threads take the last steps; None: it waits for a thread forever.\<close>

definition stop_server :: "cv_lib \<Rightarrow> graphics \<Rightarrow> server_act list \<Rightarrow> mjpeg \<Rightarrow> mjpeg option" where
  "stop_server cv g ending M =
     (if \<not> mj_running M then Some M
      else Option.bind (act_steps cv g ending (mj_stop M))
        (\<lambda>M. if enc_hand M = None \<and> list_all (\<lambda>c. mc_state c = Gone) (mj_clients M) then Some M else None))"

section \<open>These are steps of the server\<close>

lemma act_step_step: "act_step cv g a M = Some M' \<Longrightarrow> (mj_step cv g)\<^sup>*\<^sup>* M M'"
  by (auto simp: act_step_def intro: mj_step.intros mj_step.Accept split: server_act.splits if_splits intro!: r_into_rtranclp)

lemma act_steps_steps: "act_steps cv g as M = Some M' \<Longrightarrow> (mj_step cv g)\<^sup>*\<^sup>* M M'"
  by (induction as arbitrary: M) (auto split: bind_splits dest!: act_step_step intro: rtranclp_trans)

lemma publish_all_steps: "publish_all cv g pubs rounds M = Some M' \<Longrightarrow> (mj_step cv g)\<^sup>*\<^sup>* M M'"
proof (induction cv g pubs rounds M rule: publish_all.induct)
  case (2 cv g bgr overlays pubs rounds M)
  then obtain M1 where M1: "act_steps cv g (concat (take 1 rounds)) M = Some M1"
    "publish_all cv g pubs (drop 1 rounds) (mj_publish M1 bgr overlays) = Some M'" by (auto split: bind_splits)
  have "mj_step cv g M1 (mj_publish M1 bgr overlays)" by (rule mj_step.Publish)
  then show ?case using act_steps_steps [OF M1(1)] "2.IH" [OF M1] by (meson converse_rtranclp_into_rtranclp rtranclp_trans)
qed (simp add: act_steps_steps)

lemma stopped: "\<not> mj_running (mj_stop M)"
  by (simp add: mj_stop_def Let_def)

lemma act_step_running: "act_step cv g a M = Some M' \<Longrightarrow> mj_running M' = mj_running M"
  by (auto simp: act_step_def enc_take_def enc_finish_def mj_accept_def client_step_def
      split: server_act.splits if_splits option.splits)

lemma act_steps_running: "act_steps cv g as M = Some M' \<Longrightarrow> mj_running M' = mj_running M"
  by (induction as arbitrary: M) (auto simp: act_step_running split: bind_splits)

text \<open>A server that was stopped holds no descriptor and has no viewer.\<close>

lemma stop_server_released:
  assumes "mj_start (MjpegStreamServer config) n b l = (M0, True)" "publish_all cv g pubs rounds M0 = Some M"
    and "stop_server cv g ending M = Some M'" "mj_running M"
  shows "mj_held M' = []" "list_all (\<lambda>c. mc_state c = Gone) (mj_clients M')"
proof -
  obtain M1 where M1: "act_steps cv g ending (mj_stop M) = Some M1" "list_all (\<lambda>c. mc_state c = Gone) (mj_clients M1)" "M' = M1"
    using assms(3,4) by (auto simp: stop_server_def split: bind_splits if_splits)
  have "(mj_step cv g)\<^sup>*\<^sup>* M0 M" by (rule publish_all_steps [OF assms(2)])
  moreover have "mj_step cv g M (mj_stop M)" by (rule mj_step.StopServer)
  ultimately have "(mj_step cv g)\<^sup>*\<^sup>* (fst (mj_start (MjpegStreamServer config) n b l)) M1"
    using act_steps_steps [OF M1(1)] assms(1) by simp
  moreover have "\<not> mj_running M'" using act_steps_running [OF M1(1)] stopped M1(3) by simp
  ultimately show "mj_held M' = []" using M1(2,3) by (metis mjpeg_releases_descriptors)
  show "list_all (\<lambda>c. mc_state c = Gone) (mj_clients M')" using M1(2,3) by simp
qed

section \<open>No step is undefined\<close>

text \<open>The corners of a box fit into an int, and so the casts of \<open>drawOverlays\<close> are defined.\<close>

definition drawable :: "roi_overlay list \<Rightarrow> bool" where
  "drawable = list_all (\<lambda>ov. \<forall>v \<in> {bb_x (ov_bbox ov), bb_y (ov_bbox ov), bb_width (ov_bbox ov), bb_height (ov_bbox ov)}.
     int_of_fp v \<noteq> None)"

definition jpegs_fit :: "graphics \<Rightarrow> bool" where
  "jpegs_fit g \<longleftrightarrow> (\<forall>m q jpeg. g_imencode g m q = Some jpeg \<longrightarrow> length jpeg < 2 ^ 64)"

definition server_safe :: "mjpeg \<Rightarrow> bool" where
  "server_safe M \<longleftrightarrow> (\<forall>f. mj_frame M = Some f \<longrightarrow> drawable (snd f)) \<and> (\<forall>f. enc_hand M = Some f \<longrightarrow> drawable (snd f))
     \<and> length (latest_jpeg M) < 2 ^ 64"

lemma draw_overlay_defined:
  "drawable [ov] \<Longrightarrow> \<exists>d. draw_overlay cv text_size canvas m ov = Some d"
  by (auto simp: drawable_def draw_overlay_def Let_def split: prod.splits)

lemma drawOverlays_defined: "drawable ovs \<Longrightarrow> \<exists>ds. drawOverlays cv text_size canvas ovs m = Some ds"
proof (induction ovs)
  case (Cons ov ovs)
  then have "drawable [ov]" "drawable ovs" by (simp_all add: drawable_def)
  then show ?case using Cons.IH draw_overlay_defined [of ov cv text_size canvas m] by auto
qed simp

lemma enc_finish_defined:
  assumes "server_safe M" "jpegs_fit g"
  shows "\<exists>M'. enc_finish cv g M = Some M' \<and> server_safe M' \<and> enc_hand M' = None"
proof (cases "enc_hand M")
  case (Some f)
  then have "drawable (snd f)" using assms(1) by (simp add: server_safe_def)
  then obtain ds where ds: "drawOverlays cv (g_text_size g) (fst f) (snd f) (overlay_min_confidence_ppm (mj_config M)) = Some ds"
    using drawOverlays_defined by blast
  then show ?thesis using assms Some
    by (auto simp: enc_finish_def mj_encode_def server_safe_def jpegs_fit_def split: option.splits)
qed (use assms in \<open>simp add: enc_finish_def\<close>)

lemma client_next_defined: "server_safe M \<Longrightarrow> \<exists>c'. client_next M c = Some c'"
  using send_part_defined [of "latest_jpeg M" "mc_sock c"]
  by (auto simp: client_next_def server_safe_def split: client_state.splits)

lemma act_step_defined:
  assumes "server_safe M" "jpegs_fit g"
  obtains M' where "act_step cv g a M = Some M'" "server_safe M'"
proof -
  have "\<exists>M'. act_step cv g a M = Some M' \<and> server_safe M'"
  proof (cases a)
    case TakeFrame
    then show ?thesis using assms(1) by (auto simp: act_step_def enc_take_def server_safe_def split: option.splits)
  next
    case EncodeFrame
    then show ?thesis using enc_finish_defined [OF assms] by (auto simp: act_step_def)
  next
    case (AcceptViewer ready cfd rs)
    then show ?thesis using assms(1) by (simp add: act_step_def mj_accept_def server_safe_def)
  next
    case (ViewerThread i)
    obtain c where "client_next M (mj_clients M ! i) = Some c" using client_next_defined [OF assms(1)] by blast
    then show ?thesis using assms(1) ViewerThread by (auto simp: act_step_def client_step_def server_safe_def)
  qed
  then show thesis using that by blast
qed

lemma act_steps_defined:
  "server_safe M \<Longrightarrow> jpegs_fit g \<Longrightarrow> \<exists>M'. act_steps cv g as M = Some M' \<and> server_safe M'"
proof (induction as arbitrary: M)
  case (Cons a as)
  obtain M1 where "act_step cv g a M = Some M1" "server_safe M1" by (rule act_step_defined [OF Cons.prems])
  then show ?case using Cons by simp
qed simp

lemma publish_safe: "server_safe M \<Longrightarrow> drawable ovs \<Longrightarrow> server_safe (mj_publish M m ovs)"
  by (simp add: server_safe_def mj_publish_def)

lemma publish_same [simp]: "mj_running (mj_publish M m ovs) = mj_running M" "mj_clients (mj_publish M m ovs) = mj_clients M"
  by (simp_all add: mj_publish_def)

section \<open>How many viewers there are\<close>

fun accepts :: "server_act \<Rightarrow> bool" where
  "accepts (AcceptViewer _ _ _) = True"
| "accepts _ = False"

lemma act_steps_clients:
  "act_steps cv g as M = Some M' \<Longrightarrow> length (mj_clients M') \<le> length (mj_clients M) + length (filter accepts as)"
proof (induction as arbitrary: M)
  case (Cons a as)
  then obtain M1 where M1: "act_step cv g a M = Some M1" "act_steps cv g as M1 = Some M'" by (auto split: bind_splits)
  have "length (mj_clients M1) \<le> length (mj_clients M) + (if accepts a then 1 else 0)" using M1(1)
    by (auto simp: act_step_def enc_take_def enc_finish_def mj_accept_def client_step_def
        split: server_act.splits if_splits option.splits)
  then show ?case using Cons.IH [OF M1(2)] by (simp split: if_splits)
qed simp

lemma publish_all_defined:
  assumes "server_safe M" "jpegs_fit g" "list_all (\<lambda>f. drawable (snd f)) pubs"
  obtains M' where "publish_all cv g pubs rounds M = Some M'" "server_safe M'" "mj_running M' = mj_running M"
    "length (mj_clients M') \<le> length (mj_clients M) + length (filter accepts (concat rounds))"
proof -
  have "\<exists>M'. publish_all cv g pubs rounds M = Some M' \<and> server_safe M' \<and> mj_running M' = mj_running M
    \<and> length (mj_clients M') \<le> length (mj_clients M) + length (filter accepts (concat rounds))"
    using assms(1,3)
  proof (induction pubs arbitrary: rounds M)
    case Nil
    then show ?case using act_steps_defined [OF Nil(1) assms(2), of cv "concat rounds"] act_steps_running act_steps_clients by fastforce
  next
    case (Cons f pubs)
    obtain bgr overlays where f: "f = (bgr, overlays)" by fastforce
    obtain M1 where M1: "act_steps cv g (concat (take 1 rounds)) M = Some M1" "server_safe M1"
      using act_steps_defined [OF Cons.prems(1) assms(2)] by blast
    have "server_safe (mj_publish M1 bgr overlays)" "list_all (\<lambda>f. drawable (snd f)) pubs"
      using Cons.prems(2) M1(2) f by (simp_all add: publish_safe)
    from Cons.IH [OF this, of "drop 1 rounds"] obtain M' where M': "publish_all cv g pubs (drop 1 rounds) (mj_publish M1 bgr overlays) = Some M'"
      "server_safe M'" "mj_running M' = mj_running M1"
      "length (mj_clients M') \<le> length (mj_clients M1) + length (filter accepts (concat (drop 1 rounds)))"
      by auto
    have "filter accepts (concat rounds) = filter accepts (concat (take 1 rounds)) @ filter accepts (concat (drop 1 rounds))"
      by (metis append_take_drop_id concat_append filter_append)
    then have "length (mj_clients M') \<le> length (mj_clients M) + length (filter accepts (concat rounds))"
      using M'(4) act_steps_clients [OF M1(1)] by simp
    then show ?case using f M1(1) M'(1-3) act_steps_running [OF M1(1)] by auto
  qed
  then show thesis using that by blast
qed

section \<open>When stop returns\<close>

text \<open>The steps that a viewer's thread has still to take once the server is stopped.\<close>

fun viewer_left :: "client_state \<Rightarrow> nat" where
  "viewer_left Greeting = 2"
| "viewer_left Serving = 1"
| "viewer_left Gone = 0"

lemma client_next_stopped:
  "client_next M c = Some c' \<Longrightarrow> \<not> mj_running M \<Longrightarrow> viewer_left (mc_state c') \<le> viewer_left (mc_state c) - 1"
  by (auto simp: client_next_def split: client_state.splits prod.splits)

lemma act_step_stopped:
  assumes "act_step cv g a M = Some M'" "\<not> mj_running M"
  shows "length (mj_clients M') = length (mj_clients M)"
    and "i < length (mj_clients M) \<Longrightarrow> viewer_left (mc_state (mj_clients M' ! i))
      \<le> viewer_left (mc_state (mj_clients M ! i)) - (if a = ViewerThread i then 1 else 0)"
    and "a \<noteq> ViewerThread i \<Longrightarrow> mj_clients M' ! i = mj_clients M ! i"
    and "enc_hand M' = None \<longleftrightarrow> enc_hand M = None \<or> a = EncodeFrame"
proof -
  show "length (mj_clients M') = length (mj_clients M)" using assms
    by (auto simp: act_step_def enc_take_def enc_finish_def mj_accept_def client_step_def
        split: server_act.splits if_splits option.splits)
  show same: "mj_clients M' ! i = mj_clients M ! i" if "a \<noteq> ViewerThread i" for i using assms that
    by (auto simp: act_step_def enc_take_def enc_finish_def mj_accept_def client_step_def nth_list_update
        split: server_act.splits if_splits option.splits)
  show "viewer_left (mc_state (mj_clients M' ! i)) \<le> viewer_left (mc_state (mj_clients M ! i)) - (if a = ViewerThread i then 1 else 0)"
    if i: "i < length (mj_clients M)" for i
  proof (cases "a = ViewerThread i")
    case True
    then obtain c where "client_next M (mj_clients M ! i) = Some c" "mj_clients M' ! i = c"
      using assms(1) i by (auto simp: act_step_def client_step_def)
    then show ?thesis using True client_next_stopped assms(2) by auto
  qed (simp add: same)
  show "enc_hand M' = None \<longleftrightarrow> enc_hand M = None \<or> a = EncodeFrame" using assms
    by (auto simp: act_step_def enc_take_def enc_finish_def mj_accept_def client_step_def
        split: server_act.splits if_splits option.splits)
qed

lemma act_steps_stopped:
  assumes "act_steps cv g as M = Some M'" "\<not> mj_running M"
  shows "length (mj_clients M') = length (mj_clients M)
    \<and> (enc_hand M' = None \<longleftrightarrow> enc_hand M = None \<or> EncodeFrame \<in> set as)
    \<and> (\<forall>i < length (mj_clients M). viewer_left (mc_state (mj_clients M' ! i))
         \<le> viewer_left (mc_state (mj_clients M ! i)) - count_list as (ViewerThread i))
    \<and> (\<forall>i. ViewerThread i \<notin> set as \<longrightarrow> mj_clients M' ! i = mj_clients M ! i)"
  using assms
proof (induction as arbitrary: M)
  case (Cons a as)
  then obtain M1 where M1: "act_step cv g a M = Some M1" "act_steps cv g as M1 = Some M'" by (auto split: bind_splits)
  note one = act_step_stopped [OF M1(1) Cons.prems(2)]
  have "\<not> mj_running M1" using act_step_running [OF M1(1)] Cons.prems(2) by simp
  note IH = Cons.IH [OF M1(2) this]
  have "viewer_left (mc_state (mj_clients M' ! i)) \<le> viewer_left (mc_state (mj_clients M ! i)) - count_list (a # as) (ViewerThread i)"
    if "i < length (mj_clients M)" for i
  proof -
    have "viewer_left (mc_state (mj_clients M' ! i)) \<le> viewer_left (mc_state (mj_clients M1 ! i)) - count_list as (ViewerThread i)"
      using IH one(1) that by simp
    then show ?thesis using one(2) [OF that] by (auto split: if_splits)
  qed
  then show ?case using IH one by auto
qed simp

text \<open>Every viewer that may be there gets to its end once the server is stopped: its \<open>recv\<close> returns. The encoder finishes
  the frame in its hands.\<close>

definition viewers_finish :: "server_act list list \<Rightarrow> server_act list \<Rightarrow> bool" where
  "viewers_finish rounds ending \<longleftrightarrow> EncodeFrame \<in> set ending
     \<and> (\<forall>i < length (filter accepts (concat rounds)). 2 \<le> count_list ending (ViewerThread i))"

lemma stop_server_returns:
  assumes "server_safe M" "jpegs_fit g" "EncodeFrame \<in> set ending"
    and "\<forall>i < length (mj_clients M). 2 \<le> count_list ending (ViewerThread i)"
  shows "\<exists>M'. stop_server cv g ending M = Some M'"
proof (cases "mj_running M")
  case True
  have "server_safe (mj_stop M)" and clients: "mj_clients (mj_stop M) = mj_clients M"
    using assms(1) by (simp_all add: server_safe_def mj_stop_def Let_def)
  then obtain M' where M': "act_steps cv g ending (mj_stop M) = Some M'" using act_steps_defined [OF _ assms(2)] by blast
  note ended = act_steps_stopped [OF M' stopped]
  have "mc_state (mj_clients M' ! i) = Gone" if i: "i < length (mj_clients M')" for i
  proof -
    have "viewer_left (mc_state (mj_clients M' ! i)) \<le> viewer_left (mc_state (mj_clients M ! i)) - count_list ending (ViewerThread i)"
      and "2 \<le> count_list ending (ViewerThread i)"
      using ended assms(4) i clients by auto
    moreover have "viewer_left s \<le> 2" for s by (cases s) simp_all
    ultimately have "viewer_left (mc_state (mj_clients M' ! i)) = 0" using le_trans by (metis diff_is_0_eq le_zero_eq)
    then show ?thesis by (cases "mc_state (mj_clients M' ! i)") simp_all
  qed
  then show ?thesis using True M' ended assms(3) by (simp add: stop_server_def list_all_length)
qed (simp add: stop_server_def)

text \<open>A viewer that has connected and neither sends a byte nor closes keeps \<open>stop\<close> from returning.\<close>

lemma silent_viewer_blocks:
  assumes "mj_running M" "i < length (mj_clients M)" "mc_state (mj_clients M ! i) = Greeting" "ViewerThread i \<notin> set ending"
  shows "stop_server cv g ending M = None"
proof -
  have "mj_clients (mj_stop M) = mj_clients M" by (simp add: mj_stop_def Let_def)
  moreover have "\<not> list_all (\<lambda>c. mc_state c = Gone) (mj_clients M')" if "act_steps cv g ending (mj_stop M) = Some M'" for M'
  proof -
    have "mj_clients M' ! i = mj_clients M ! i" "i < length (mj_clients M')"
      using act_steps_stopped [OF that stopped] assms(2,4) calculation by auto
    then show ?thesis using assms(3) by (auto simp: list_all_length)
  qed
  ultimately show ?thesis using assms(1) by (auto simp: stop_server_def split: bind_splits)
qed

end
