(* ===== verification/Float64.thy ===== *)
theory Float64
  imports Float32_Bits
begin

text \<open>
  The operations of \<open>double\<close>, which are also those of Python's \<open>float\<close>: values that are exact, and
  how far a result is from the exact one.
\<close>

abbreviation fadd64 :: "fp \<Rightarrow> fp \<Rightarrow> fp" where "fadd64 \<equiv> fp_add binary64"
abbreviation fsub64 :: "fp \<Rightarrow> fp \<Rightarrow> fp" where "fsub64 \<equiv> fp_sub binary64"
abbreviation fmul64 :: "fp \<Rightarrow> fp \<Rightarrow> fp" where "fmul64 \<equiv> fp_mul binary64"
abbreviation fdiv64 :: "fp \<Rightarrow> fp \<Rightarrow> fp" where "fdiv64 \<equiv> fp_div binary64"
abbreviation lit64 :: "rat \<Rightarrow> fp" where "lit64 \<equiv> round_fp binary64"

definition double_of_int :: "int \<Rightarrow> fp" where
  "double_of_int n = round_fp binary64 (of_int n)"

lemma binary64_fixed: "fp_ok binary64 (Fin (of_int j / 2 ^ i))" if "0 \<le> j" "j \<le> 2 ^ 53" "i \<le> 1074"
proof -
  have eq: "(2::rat) ^ 1074 = 2 ^ (1074 - i) * 2 ^ i" using that(3) by (simp only: flip: power_add) simp
  have "j * 2 ^ (1074 - i) \<le> 2 ^ 53 * 2 ^ 1074" using that by (intro mult_mono power_increasing) auto
  also have "\<dots> < 2 ^ (1024 + 1074)" by (simp only: flip: power_add) simp
  finally have "j * 2 ^ (1074 - i) < 2 ^ (emax binary64 + qexp binary64)" by simp
  moreover have "of_int j / 2 ^ i * 2 ^ qexp binary64 = (of_int (j * 2 ^ (1074 - i)) :: rat)"
    unfolding binary64_simps eq by simp
  ultimately show ?thesis using that round_fp_exact [of j binary64 "1074 - i"] by simp
qed

lemma binary64_int: "fp_ok binary64 (Fin (of_int j))" if "0 \<le> j" "j \<le> 2 ^ 53"
  using binary64_fixed [of j 0] that by simp

lemma round64_error:
  assumes "\<bar>x\<bar> < 2 ^ n" "n \<le> 1023"
  obtains v where "round_fp binary64 x = Fin v" "\<bar>v - x\<bar> \<le> 2 ^ n / 2 ^ 54"
  using round_error [of x n binary64] assms by auto

end
