(* ===== verification/Cmd_Vel_Arbiter.thy ===== *)
theory Cmd_Vel_Arbiter
  imports Float64
begin

text \<open>
  The velocity arbiter of the TurtleBot (\<open>rpi_adas_demo/cmd_vel_arbiter.py\<close>), the last stage before
  the motors: what the driver asks for, gated by the safety state. A callback takes the clock in
  nanoseconds and its message, and answers the new state and the twists it publishes. Python's
  \<open>min\<close> and \<open>max\<close> choose like \<open>std::min\<close> and \<open>std::max\<close>.
\<close>

section \<open>Parameters, messages and state\<close>

definition STATE_CLEAR :: int where "STATE_CLEAR = 0"
definition STATE_SLOW :: int where "STATE_SLOW = 1"
definition STATE_STOP :: int where "STATE_STOP = 2"

definition LINEAR_AXIS :: nat where "LINEAR_AXIS = 1"
definition ANGULAR_AXIS :: nat where "ANGULAR_AXIS = 0"
definition DEADMAN_BTN :: nat where "DEADMAN_BTN = 4"
definition A_BTN :: nat where "A_BTN = 0"
definition B_BTN :: nat where "B_BTN = 1"
definition X_BTN :: nat where "X_BTN = 2"
definition Y_BTN :: nat where "Y_BTN = 3"
definition ESTOP_BTN :: nat where "ESTOP_BTN = 6"

definition MAX_LINEAR :: fp where "MAX_LINEAR = lit64 (22/100)"
definition MAX_ANGULAR :: fp where "MAX_ANGULAR = lit64 (284/100)"
definition NEUTRAL_THRESH :: fp where "NEUTRAL_THRESH = lit64 (5/100)"

record arbiter_params =
  safety_timeout_sec :: fp
  joy_timeout_sec :: fp
  slow_linear_max :: fp
  slow_angular_max :: fp
  linear_axis_sign :: fp
  stick_deadzone :: fp
  cardinal_snap_ratio :: fp
  no_joy_mode :: bool

definition ArbiterParams_default :: arbiter_params where
  "ArbiterParams_default = \<lparr>safety_timeout_sec = Fin 2, joy_timeout_sec = Fin 1, slow_linear_max = lit64 (5/100),
     slow_angular_max = lit64 (30/100), linear_axis_sign = Fin (-1), stick_deadzone = lit64 (12/100),
     cardinal_snap_ratio = lit64 (45/100), no_joy_mode = False\<rparr>"

record joy =
  axes :: "fp list"
  buttons :: "int list"

record twist =
  linear_x :: fp
  angular_z :: fp

definition zero_twist :: twist where
  "zero_twist = \<lparr>linear_x = Fin 0, angular_z = Fin 0\<rparr>"

record arbiter =
  ar_params :: arbiter_params
  ar_safety :: int
  ar_safety_stamp :: fp
  ar_joy :: "joy option"
  ar_joy_stamp :: fp
  require_resume :: bool
  seen_neutral :: bool
  prev_safety :: int
  ar_estop :: bool
  prev_estop_btn :: bool
  manual_twist :: twist
  manual_stamp :: fp

definition CmdVelArbiter :: "arbiter_params \<Rightarrow> arbiter" where
  "CmdVelArbiter p =
     \<lparr>ar_params = p\<lparr>stick_deadzone := fp_max (Fin 0) (fp_min (lit64 (95/100)) (stick_deadzone p)),
        cardinal_snap_ratio := fp_max (Fin 0) (fp_min (Fin 1) (cardinal_snap_ratio p))\<rparr>,
      ar_safety = STATE_STOP, ar_safety_stamp = Fin 0, ar_joy = None, ar_joy_stamp = Fin 0,
      require_resume = False, seen_neutral = False, prev_safety = STATE_STOP, ar_estop = False,
      prev_estop_btn = False, manual_twist = zero_twist, manual_stamp = Fin 0\<rparr>"

section \<open>Callbacks of the messages\<close>

definition now_sec :: "int \<Rightarrow> fp" where
  "now_sec ns = fmul64 (double_of_int ns) (lit64 (1/1000000000))"

definition arm_resume :: "arbiter \<Rightarrow> arbiter" where
  "arm_resume A = A\<lparr>require_resume := True, seen_neutral := False\<rparr>"

definition on_safety :: "int \<Rightarrow> int \<Rightarrow> arbiter \<Rightarrow> arbiter \<times> twist list" where
  "on_safety ns data A =
     (let A = A\<lparr>ar_safety := if data \<in> {STATE_CLEAR, STATE_SLOW, STATE_STOP} then data else STATE_STOP,
                ar_safety_stamp := now_sec ns\<rparr>
      in if ar_safety A = STATE_STOP then (arm_resume A, [zero_twist]) else (A, []))"

definition on_joy :: "int \<Rightarrow> joy \<Rightarrow> arbiter \<Rightarrow> arbiter" where
  "on_joy ns msg A = A\<lparr>ar_joy := Some msg, ar_joy_stamp := now_sec ns\<rparr>"

definition on_manual :: "int \<Rightarrow> twist \<Rightarrow> arbiter \<Rightarrow> arbiter" where
  "on_manual ns msg A = A\<lparr>manual_twist := msg, manual_stamp := now_sec ns\<rparr>"

section \<open>What the driver asks for\<close>

fun fp_abs :: "fp \<Rightarrow> fp" where
  "fp_abs (Fin x) = Fin \<bar>x\<bar>"
| "fp_abs NInf = PInf"
| "fp_abs v = v"

definition fp_zero :: "fp \<Rightarrow> bool" where
  "fp_zero v \<longleftrightarrow> v = Fin 0"

definition axis :: "arbiter \<Rightarrow> nat \<Rightarrow> fp" where
  "axis A i = (case ar_joy A of None \<Rightarrow> Fin 0
     | Some j \<Rightarrow> if i \<ge> length (axes j) then Fin 0 else axes j ! i)"

definition btn :: "arbiter \<Rightarrow> nat \<Rightarrow> bool" where
  "btn A i = (case ar_joy A of None \<Rightarrow> False
     | Some j \<Rightarrow> if i \<ge> length (buttons j) then False else buttons j ! i \<noteq> 0)"

definition apply_deadzone :: "arbiter \<Rightarrow> fp \<Rightarrow> fp" where
  "apply_deadzone A value =
     (let dz = stick_deadzone (ar_params A); magnitude = fp_abs value in
      if fp_le magnitude dz then Fin 0
      else let scaled = fdiv64 (fsub64 magnitude dz) (fsub64 (Fin 1) dz)
           in if fp_gt value (Fin 0) then fp_min (Fin 1) scaled else fp_neg (fp_min (Fin 1) scaled))"

definition direction_input :: "arbiter \<Rightarrow> fp \<times> fp" where
  "direction_input A =
     (let button_linear = fsub64 (Fin (of_bool (btn A Y_BTN))) (Fin (of_bool (btn A A_BTN)));
          button_angular = fsub64 (Fin (of_bool (btn A X_BTN))) (Fin (of_bool (btn A B_BTN)))
      in if \<not> fp_zero button_linear \<or> \<not> fp_zero button_angular then (button_linear, button_angular)
      else let linear = apply_deadzone A (fmul64 (linear_axis_sign (ar_params A)) (axis A LINEAR_AXIS));
               angular = apply_deadzone A (axis A ANGULAR_AXIS);
               ratio = cardinal_snap_ratio (ar_params A)
           in if fp_gt (fp_abs linear) (fp_abs angular)
              then (linear, if fp_le (fp_abs angular) (fmul64 (fp_abs linear) ratio) then Fin 0 else angular)
              else if fp_gt (fp_abs angular) (fp_abs linear)
              then (if fp_le (fp_abs linear) (fmul64 (fp_abs angular) ratio) then Fin 0 else linear, angular)
              else (linear, angular))"

section \<open>The tick\<close>

text \<open>The resume gate: after a stop, neutral and then something else. The answer: may it move?\<close>

definition at_neutral :: "fp \<Rightarrow> fp \<Rightarrow> bool" where
  "at_neutral lin ang \<longleftrightarrow> fp_lt (fp_abs lin) NEUTRAL_THRESH \<and> fp_lt (fp_abs ang) NEUTRAL_THRESH"

definition resume_gate :: "fp \<Rightarrow> fp \<Rightarrow> arbiter \<Rightarrow> arbiter \<times> bool" where
  "resume_gate lin ang A =
     (if require_resume A
      then let A = (if at_neutral lin ang then A\<lparr>seen_neutral := True\<rparr> else A)
           in if seen_neutral A \<and> \<not> at_neutral lin ang then (A\<lparr>require_resume := False\<rparr>, True) else (A, False)
      else (A, True))"

definition capped :: "fp \<Rightarrow> fp \<Rightarrow> fp" where
  "capped cap v = fp_max (fp_neg cap) (fp_min cap v)"

definition build_twist :: "arbiter \<Rightarrow> fp \<Rightarrow> fp \<Rightarrow> twist" where
  "build_twist A lin ang =
     (if ar_safety A = STATE_SLOW
      then \<lparr>linear_x = capped (slow_linear_max (ar_params A)) lin, angular_z = capped (slow_angular_max (ar_params A)) ang\<rparr>
      else \<lparr>linear_x = lin, angular_z = ang\<rparr>)"

definition manual_tick :: "fp \<Rightarrow> arbiter \<Rightarrow> arbiter \<times> twist" where
  "manual_tick now A =
     (if fp_gt (fsub64 now (ar_safety_stamp A)) (safety_timeout_sec (ar_params A)) then (arm_resume A, zero_twist)
      else if ar_safety A = STATE_STOP then (arm_resume A, zero_twist)
      else if fp_gt (fsub64 now (manual_stamp A)) (joy_timeout_sec (ar_params A)) then (arm_resume A, zero_twist)
      else let m = manual_twist A in
        case resume_gate (linear_x m) (angular_z m) A of (A, go) \<Rightarrow>
          (A, if go then build_twist A (linear_x m) (angular_z m) else zero_twist))"

text \<open>The button of the software stop: a press toggles.\<close>

definition estop_toggle :: "arbiter \<Rightarrow> arbiter" where
  "estop_toggle A =
     (if ar_joy A = None then A
      else let pressed = btn A ESTOP_BTN;
               A = (if pressed \<and> \<not> prev_estop_btn A then A\<lparr>ar_estop := \<not> ar_estop A\<rparr> else A)
           in A\<lparr>prev_estop_btn := pressed\<rparr>)"

definition leave_stop :: "arbiter \<Rightarrow> arbiter" where
  "leave_stop A =
     (let A = (if prev_safety A = STATE_STOP \<and> ar_safety A \<noteq> STATE_STOP then arm_resume A else A)
      in A\<lparr>prev_safety := ar_safety A\<rparr>)"

definition joy_tick :: "fp \<Rightarrow> arbiter \<Rightarrow> arbiter \<times> twist" where
  "joy_tick now A =
     (let A = estop_toggle A in
      if ar_estop A then (A, zero_twist)
      else if fp_gt (fsub64 now (ar_joy_stamp A)) (joy_timeout_sec (ar_params A)) then (arm_resume A, zero_twist)
      else if \<not> btn A DEADMAN_BTN then (A, zero_twist)
      else if fp_gt (fsub64 now (ar_safety_stamp A)) (safety_timeout_sec (ar_params A)) then (arm_resume A, zero_twist)
      else let A = leave_stop A in
      if ar_safety A = STATE_STOP then (arm_resume A, zero_twist)
      else case direction_input A of (lin_raw, ang_raw) \<Rightarrow>
        case resume_gate lin_raw ang_raw A of (A, go) \<Rightarrow>
          (A, if go then build_twist A (fmul64 lin_raw MAX_LINEAR) (fmul64 ang_raw MAX_ANGULAR) else zero_twist))"

definition timer_cb :: "int \<Rightarrow> arbiter \<Rightarrow> arbiter \<times> twist" where
  "timer_cb ns A = (if no_joy_mode (ar_params A) then manual_tick (now_sec ns) A else joy_tick (now_sec ns) A)"

section \<open>Runs\<close>

text \<open>What the executor may call, with the time at which it does.\<close>

datatype arbiter_event = SafetyMsg int int | JoyMsg int joy | ManualMsg int twist | Tick int

fun arbiter_step :: "arbiter_event \<Rightarrow> arbiter \<Rightarrow> arbiter \<times> twist list" where
  "arbiter_step (SafetyMsg ns data) A = on_safety ns data A"
| "arbiter_step (JoyMsg ns msg) A = (on_joy ns msg A, [])"
| "arbiter_step (ManualMsg ns msg) A = (if no_joy_mode (ar_params A) then on_manual ns msg A else A, [])"
| "arbiter_step (Tick ns) A = (case timer_cb ns A of (A, t) \<Rightarrow> (A, [t]))"

fun arbiter_run :: "arbiter_event list \<Rightarrow> arbiter \<Rightarrow> arbiter \<times> twist list" where
  "arbiter_run [] A = (A, [])"
| "arbiter_run (e # es) A = (case arbiter_step e A of (A, out) \<Rightarrow>
     case arbiter_run es A of (A, out') \<Rightarrow> (A, out @ out'))"

section \<open>The clock\<close>

lemma lit64_nano: "lit64 (1/1000000000) = Fin (4835703278458517 / 2 ^ 82)"
  by (subst round_fp_eqI [where k = 992 and m = 4835703278458517]) simp_all

lemma now_sec_near:
  assumes "0 \<le> ns" "ns < 2 ^ 61"
  obtains a where "now_sec ns = Fin a" "\<bar>a - of_int ns * (4835703278458517 / 2 ^ 82)\<bar> \<le> 4/10000000"
proof -
  have b: "0 \<le> (of_int ns :: rat)" "of_int ns < (2 ^ 61 :: rat)"
    using assms of_int_less_iff [where ?'a = rat, of ns "2 ^ 61"] by simp_all
  then obtain v where v: "double_of_int ns = Fin v" "\<bar>v - of_int ns\<bar> \<le> 2 ^ 61 / 2 ^ 54"
    using round64_error [of "of_int ns" 61] unfolding double_of_int_def by auto
  define q where "q = (4835703278458517 / 2 ^ 82 :: rat)"
  have q: "0 < q" "(2 ^ 61 + 200) * q < 2 ^ 32" "2 ^ 61 / 2 ^ 54 * q \<le> 13/100000000" by (simp_all add: q_def)
  have "\<bar>v\<bar> < 2 ^ 61 + 200" using v(2) b by (simp add: abs_le_iff abs_less_iff)
  then have "\<bar>v\<bar> * q < (2 ^ 61 + 200) * q" using q(1) by (intro mult_strict_right_mono)
  then have "\<bar>v\<bar> * q < 2 ^ 32" using q(2) by linarith
  then have "\<bar>v * q\<bar> < 2 ^ 32" using q(1) by (simp add: abs_mult)
  then obtain a where a: "round_fp binary64 (v * q) = Fin a" "\<bar>a - v * q\<bar> \<le> 2 ^ 32 / 2 ^ 54"
    by (rule round64_error) simp
  have "\<bar>v - of_int ns\<bar> * q \<le> 2 ^ 61 / 2 ^ 54 * q" using v(2) q(1) by (intro mult_right_mono) simp_all
  moreover have "\<bar>v - of_int ns\<bar> * q = \<bar>v * q - of_int ns * q\<bar>" using q(1) by (simp add: abs_mult flip: left_diff_distrib)
  ultimately have "\<bar>v * q - of_int ns * q\<bar> \<le> 13/100000000" using q(3) by linarith
  moreover have "\<bar>a - v * q\<bar> \<le> 24/100000000" using a(2) by (rule order_trans) simp
  ultimately have "\<bar>a - of_int ns * q\<bar> \<le> 4/10000000" by linarith
  moreover have "now_sec ns = Fin a" using v(1) a(1) by (simp add: now_sec_def lit64_nano q_def)
  ultimately show thesis using that unfolding q_def by blast
qed

text \<open>A difference of two clock readings that does not exceed a timeout, in nanoseconds.\<close>

lemma fresh_ns:
  assumes "\<not> fp_gt (fsub64 (now_sec n) (now_sec m)) (Fin \<tau>)" "0 \<le> m" "m < 2 ^ 61" "0 \<le> n" "n < 2 ^ 61" "0 \<le> \<tau>" "\<tau> \<le> 2 ^ 20"
  shows "of_int (n - m) \<le> \<tau> * 1000000000 + 1000"
proof (rule ccontr)
  assume "\<not> ?thesis"
  then have far: "\<tau> * 1000000000 + 1000 < of_int (n - m)" by simp
  obtain a where a: "now_sec n = Fin a" "\<bar>a - of_int n * (4835703278458517 / 2 ^ 82)\<bar> \<le> 4/10000000"
    by (rule now_sec_near [OF assms(4,5)])
  obtain b where b: "now_sec m = Fin b" "\<bar>b - of_int m * (4835703278458517 / 2 ^ 82)\<bar> \<le> 4/10000000"
    by (rule now_sec_near [OF assms(2,3)])
  define q where "q = (4835703278458517 / 2 ^ 82 :: rat)"
  define e where "e = (of_int (n - m) :: rat)"
  have far: "\<tau> * 1000000000 + 1000 < e" using far by (simp add: e_def)
  then have "e * (1/1000000000) \<le> e * q" using assms(6) by (intro mult_left_mono) (simp_all add: q_def)
  moreover have "e * q = of_int n * q - of_int m * q" by (simp add: e_def left_diff_distrib)
  ultimately have d: "\<tau> + 1/10000000 < a - b" using a(2) b(2) far unfolding q_def [symmetric] abs_le_iff by linarith
  have "fp_gt (round_fp binary64 (a - b)) (Fin \<tau>)"
  proof (cases "a - b < 2 ^ 21")
    case True
    then have "\<bar>a - b\<bar> < 2 ^ 21" using d assms(6) by simp
    then obtain v where v: "round_fp binary64 (a - b) = Fin v" "\<bar>v - (a - b)\<bar> \<le> 2 ^ 21 / 2 ^ 54"
      by (rule round64_error) simp
    have "\<bar>v - (a - b)\<bar> \<le> 1/10000000" using v(2) by (rule order_trans) simp
    then have "\<tau> < v" using d by linarith
    then show ?thesis using v(1) by simp
  next
    case False
    have ok: "fp_ok binary64 (Fin (of_int (2 ^ 21)))" by (rule binary64_int) simp_all
    have "fp_le (Fin (of_int (2 ^ 21))) (round_fp binary64 (a - b))"
      by (rule round_fp_ge [OF _ ok]) (use False in simp_all)
    moreover have "fp_lt (Fin \<tau>) (Fin (of_int (2 ^ 21)))" using assms(7) by simp
    ultimately show ?thesis by (rule fp_lt_le_trans [rotated])
  qed
  then show False using assms(1) a(1) b(1) by (simp add: fp_sub_def)
qed

section \<open>What the driver asks for is bounded\<close>

definition params_ok :: "arbiter_params \<Rightarrow> bool" where
  "params_ok p \<longleftrightarrow> (case (safety_timeout_sec p, joy_timeout_sec p, slow_linear_max p, slow_angular_max p) of
     (Fin s, Fin j, Fin l, Fin a) \<Rightarrow> 0 \<le> s \<and> s \<le> 2 ^ 20 \<and> 0 \<le> j \<and> j \<le> 2 ^ 20 \<and> 0 \<le> l \<and> 0 \<le> a | _ \<Rightarrow> False)"

lemma params_okE:
  assumes "params_ok p"
  obtains s j l a where "safety_timeout_sec p = Fin s" "joy_timeout_sec p = Fin j" "slow_linear_max p = Fin l"
    "slow_angular_max p = Fin a" "0 \<le> s" "s \<le> 2 ^ 20" "0 \<le> j" "j \<le> 2 ^ 20" "0 \<le> l" "0 \<le> a"
  using assms unfolding params_ok_def by (auto split: fp.splits)

definition unit_value :: "fp \<Rightarrow> bool" where
  "unit_value v \<longleftrightarrow> (case v of Fin x \<Rightarrow> \<bar>x\<bar> \<le> 1 | _ \<Rightarrow> False)"

lemma unit_value_simps [simp]: "unit_value (Fin x) \<longleftrightarrow> \<bar>x\<bar> \<le> 1" "unit_value (fp_neg v) \<longleftrightarrow> unit_value v"
  by (simp add: unit_value_def, cases v, simp_all add: unit_value_def)

lemma clamped_Fin:
  assumes "0 \<le> c" obtains d where "fp_max (Fin 0) (fp_min (Fin c) v) = Fin d" "0 \<le> d" "d \<le> c"
proof -
  have "\<exists>d. fp_max (Fin 0) (fp_min (Fin c) v) = Fin d \<and> 0 \<le> d \<and> d \<le> c"
    using assms by (cases v) (auto simp: fp_max_def fp_min_def)
  then show thesis using that by blast
qed

lemma deadzone_param:
  obtains d where "stick_deadzone (ar_params (CmdVelArbiter p)) = Fin d" "0 \<le> d" "d < 96/100"
proof -
  have l: "lit64 (95/100) = Fin (8556839292003942 / 2 ^ 53)"
    by (subst round_fp_eqI [where k = 1021 and m = 8556839292003942]) simp_all
  obtain d where "fp_max (Fin 0) (fp_min (Fin (8556839292003942 / 2 ^ 53)) (stick_deadzone p)) = Fin d" "0 \<le> d" "d \<le> 8556839292003942 / 2 ^ 53"
    by (rule clamped_Fin [of "8556839292003942 / 2 ^ 53" "stick_deadzone p"]) simp
  moreover from this(3) have "d < 96/100" by (rule le_less_trans) simp
  ultimately show thesis using that unfolding CmdVelArbiter_def l by simp
qed

lemma unit_min: "v = NaN \<or> fp_le (Fin 0) v \<Longrightarrow> unit_value (fp_min (Fin 1) v)"
  by (cases v) (auto simp: fp_min_def)

lemma round_nonneg: "0 \<le> x \<Longrightarrow> fp_le (Fin 0) (round_fp binary64 x)"
  using round_fp_ge [of binary64 0 x] by simp

lemma apply_deadzone_unit:
  assumes "stick_deadzone (ar_params A) = Fin d" "0 \<le> d" "d < 96/100"
  shows "unit_value (apply_deadzone A v)"
proof -
  have ok: "fp_ok binary64 (Fin (of_int 1 / 2 ^ 5))" "fp_ok binary64 (Fin (of_int 1))"
    by (rule binary64_fixed, simp_all, rule binary64_int [of 1, simplified])
  have "fp_le (Fin (of_int 1 / 2 ^ 5)) (round_fp binary64 (1 - d))"
    by (rule round_fp_ge [OF _ ok(1)]) (use assms(3) in simp_all)
  moreover have "fp_le (round_fp binary64 (1 - d)) (Fin 1)"
    using round_fp_le [OF _ ok(2), of "1 - d"] assms(2) by simp
  ultimately obtain y where y: "fsub64 (Fin 1) (Fin d) = Fin y" "0 < y"
    by (cases "round_fp binary64 (1 - d)") (auto simp: fp_sub_def)
  have "fp_le (Fin 0) (fdiv64 x (Fin y))" if "fp_le (Fin 0) x" for x
    using that y(2) by (cases x) (auto simp: signed_inf_def intro: round_nonneg)
  moreover have "fsub64 (fp_abs v) (Fin d) = NaN \<or> fp_le (Fin 0) (fsub64 (fp_abs v) (Fin d))" if "\<not> fp_le (fp_abs v) (Fin d)"
    using that by (cases v) (auto simp: fp_sub_def intro: round_nonneg)
  ultimately have "unit_value (fp_min (Fin 1) (fdiv64 (fsub64 (fp_abs v) (Fin d)) (Fin y)))" if "\<not> fp_le (fp_abs v) (Fin d)"
    using that by (intro unit_min) auto
  then show ?thesis using assms(1) y(1) by (auto simp: apply_deadzone_def Let_def)
qed

text \<open>What is no number is read as the full way in one direction.\<close>

lemma apply_deadzone_NaN: "apply_deadzone A NaN = Fin (-1)"
  by (cases "stick_deadzone (ar_params A)") (simp_all add: apply_deadzone_def Let_def fp_sub_def fp_min_def)

lemma round64_unit [simp]: "round_fp binary64 (of_bool P - of_bool Q) = Fin (of_bool P - of_bool Q)"
proof -
  have "round_fp binary64 1 = Fin 1" using binary64_int [of 1] by simp
  then show ?thesis using round_fp_uminus [of binary64 1] by (cases P; cases Q) simp_all
qed

lemma direction_input_unit:
  assumes "stick_deadzone (ar_params A) = Fin d" "0 \<le> d" "d < 96/100" "direction_input A = (lin, ang)"
  shows "unit_value lin" "unit_value ang"
proof -
  have "unit_value (fst (direction_input A)) \<and> unit_value (snd (direction_input A))"
    using apply_deadzone_unit [OF assms(1-3)]
    by (auto simp: direction_input_def Let_def fp_sub_def)
  then show "unit_value lin" "unit_value ang" using assms(4) by simp_all
qed

lemma fmul_bounded:
  assumes "unit_value v" "fp_ok binary64 (Fin m)" "0 \<le> m"
  shows "fp_le (fp_abs (fmul64 v (Fin m))) (Fin m)"
proof (cases v)
  case (Fin x)
  then have x: "\<bar>x\<bar> * m \<le> m" using assms(1,3) mult_right_mono [of "\<bar>x\<bar>" 1 m] by simp
  have "fp_abs (round_fp binary64 (x * m)) = round_fp binary64 \<bar>x * m\<bar>"
  proof (cases "0 \<le> x * m")
    case True
    then show ?thesis using round_nonneg [OF True] by (cases "round_fp binary64 (x * m)") auto
  next
    case False
    then have "round_fp binary64 (x * m) = fp_neg (round_fp binary64 \<bar>x * m\<bar>)"
      using round_fp_uminus [of binary64 "\<bar>x * m\<bar>"] by simp
    then show ?thesis using round_nonneg [of "\<bar>x * m\<bar>"] by (cases "round_fp binary64 \<bar>x * m\<bar>") auto
  qed
  moreover have "fp_le (round_fp binary64 \<bar>x * m\<bar>) (Fin m)"
    using round_fp_le [OF _ assms(2), of "\<bar>x * m\<bar>"] x assms(3) by (simp add: abs_mult)
  ultimately show ?thesis using Fin by simp
qed (use assms(1) in \<open>auto simp: unit_value_def\<close>)

lemma capped_bounded:
  assumes "0 \<le> c"
  shows "fp_le (fp_abs (capped (Fin c) v)) (Fin c)"
    and "fp_le (fp_abs v) (Fin m) \<Longrightarrow> fp_le (fp_abs (capped (Fin c) v)) (Fin m)"
  using assms by (cases v; auto simp: capped_def fp_max_def fp_min_def)+

section \<open>The state after a history of calls\<close>

fun last_safety :: "arbiter_event list \<Rightarrow> (int \<times> int) option" where
  "last_safety [] = None"
| "last_safety (SafetyMsg ns data # es) = (case last_safety es of None \<Rightarrow> Some (ns, data) | Some m \<Rightarrow> Some m)"
| "last_safety (e # es) = last_safety es"

fun last_joy :: "arbiter_event list \<Rightarrow> (int \<times> joy) option" where
  "last_joy [] = None"
| "last_joy (JoyMsg ns j # es) = (case last_joy es of None \<Rightarrow> Some (ns, j) | Some m \<Rightarrow> Some m)"
| "last_joy (e # es) = last_joy es"

definition state_of_data :: "int \<Rightarrow> int" where
  "state_of_data data = (if data \<in> {STATE_CLEAR, STATE_SLOW, STATE_STOP} then data else STATE_STOP)"

named_theorems arbiter_simps \<open>what the operations of the arbiter leave alone\<close>

lemma arm_resume_simps [arbiter_simps]:
  "ar_params (arm_resume A) = ar_params A" "ar_safety (arm_resume A) = ar_safety A" "ar_safety_stamp (arm_resume A) = ar_safety_stamp A"
  "ar_joy (arm_resume A) = ar_joy A" "ar_joy_stamp (arm_resume A) = ar_joy_stamp A" "ar_estop (arm_resume A) = ar_estop A"
  "manual_twist (arm_resume A) = manual_twist A" "require_resume (arm_resume A)" "\<not> seen_neutral (arm_resume A)"
  by (simp_all add: arm_resume_def)

lemma estop_toggle_simps [arbiter_simps]:
  "ar_params (estop_toggle A) = ar_params A" "ar_safety (estop_toggle A) = ar_safety A" "ar_safety_stamp (estop_toggle A) = ar_safety_stamp A"
  "ar_joy (estop_toggle A) = ar_joy A" "ar_joy_stamp (estop_toggle A) = ar_joy_stamp A"
  "require_resume (estop_toggle A) = require_resume A" "seen_neutral (estop_toggle A) = seen_neutral A"
  by (simp_all add: estop_toggle_def Let_def)

lemma leave_stop_simps [arbiter_simps]:
  "ar_params (leave_stop A) = ar_params A" "ar_safety (leave_stop A) = ar_safety A" "ar_safety_stamp (leave_stop A) = ar_safety_stamp A"
  "ar_joy (leave_stop A) = ar_joy A" "ar_joy_stamp (leave_stop A) = ar_joy_stamp A" "ar_estop (leave_stop A) = ar_estop A"
  by (simp_all add: leave_stop_def arm_resume_def Let_def)

lemma resume_gate_same:
  assumes "resume_gate lin ang A = (A', go)"
  obtains r n where "A' = A\<lparr>require_resume := r, seen_neutral := n\<rparr>"
proof -
  have "A' = A\<lparr>require_resume := require_resume A', seen_neutral := seen_neutral A'\<rparr>"
    using assms by (cases A) (auto simp: resume_gate_def Let_def split: if_splits)
  then show thesis by (rule that)
qed

lemma build_twist_cong:
  "ar_safety B = ar_safety A \<Longrightarrow> ar_params B = ar_params A \<Longrightarrow> build_twist B = build_twist A"
  by (simp add: build_twist_def fun_eq_iff)

lemma input_cong:
  assumes "ar_joy B = ar_joy A" "ar_params B = ar_params A"
  shows "btn B = btn A" "direction_input B = direction_input A"
proof -
  show b: "btn B = btn A" using assms by (simp add: btn_def fun_eq_iff)
  have "axis B = axis A" "apply_deadzone B = apply_deadzone A"
    using assms by (simp_all add: axis_def apply_deadzone_def fun_eq_iff)
  then show "direction_input B = direction_input A" unfolding direction_input_def b assms(2) by (simp only:)
qed

lemma input_simps [arbiter_simps]:
  "btn (estop_toggle A) i = btn A i" "btn (leave_stop A) i = btn A i"
  "direction_input (estop_toggle A) = direction_input A" "direction_input (leave_stop A) = direction_input A"
  by (simp_all add: input_cong [of "estop_toggle A" A] input_cong [of "leave_stop A" A] arbiter_simps)

lemma timer_cb_keeps:
  assumes "timer_cb ns A = (A', t)"
  shows "ar_params A' = ar_params A" "ar_safety A' = ar_safety A" "ar_safety_stamp A' = ar_safety_stamp A"
    "ar_joy A' = ar_joy A" "ar_joy_stamp A' = ar_joy_stamp A"
  using assms unfolding timer_cb_def manual_tick_def joy_tick_def Let_def
  by (auto simp: arbiter_simps split: if_splits prod.splits elim!: resume_gate_same)

lemma step_state:
  assumes "arbiter_step e A = (A', out)"
  shows "ar_params A' = ar_params A"
    "(ar_safety A', ar_safety_stamp A') = (case e of SafetyMsg ns data \<Rightarrow> (state_of_data data, now_sec ns) | _ \<Rightarrow> (ar_safety A, ar_safety_stamp A))"
    "(ar_joy A', ar_joy_stamp A') = (case e of JoyMsg ns j \<Rightarrow> (Some j, now_sec ns) | _ \<Rightarrow> (ar_joy A, ar_joy_stamp A))"
  using assms by (cases e; auto simp: on_safety_def on_joy_def on_manual_def state_of_data_def arbiter_simps Let_def
      split: if_splits prod.splits dest: timer_cb_keeps)+

lemma run_state:
  assumes "arbiter_run es A = (A', out)"
  shows "ar_params A' = ar_params A
    \<and> (ar_safety A', ar_safety_stamp A') = (case last_safety es of None \<Rightarrow> (ar_safety A, ar_safety_stamp A) | Some (ns, data) \<Rightarrow> (state_of_data data, now_sec ns))
    \<and> (ar_joy A', ar_joy_stamp A') = (case last_joy es of None \<Rightarrow> (ar_joy A, ar_joy_stamp A) | Some (ns, j) \<Rightarrow> (Some j, now_sec ns))"
  using assms
proof (induction es arbitrary: A out)
  case (Cons e es)
  obtain B out1 out2 where B: "arbiter_step e A = (B, out1)" "arbiter_run es B = (A', out2)"
    using Cons.prems by (auto split: prod.splits)
  then show ?case using Cons.IH [OF B(2)] step_state [OF B(1)]
    by (cases e) (auto split: option.splits)
qed simp

section \<open>When a tick moves the robot\<close>

lemma timer_cb_moves:
  assumes "timer_cb ns A = (A', t)" "t \<noteq> zero_twist"
  obtains lin ang where "ar_safety A \<noteq> STATE_STOP" "t = build_twist A lin ang"
    "\<not> fp_gt (fsub64 (now_sec ns) (ar_safety_stamp A)) (safety_timeout_sec (ar_params A))"
    "\<not> no_joy_mode (ar_params A) \<Longrightarrow> btn A DEADMAN_BTN \<and> \<not> ar_estop A'
       \<and> \<not> fp_gt (fsub64 (now_sec ns) (ar_joy_stamp A)) (joy_timeout_sec (ar_params A))
       \<and> (\<exists>l a. direction_input A = (l, a) \<and> lin = fmul64 l MAX_LINEAR \<and> ang = fmul64 a MAX_ANGULAR)"
proof (cases "no_joy_mode (ar_params A)")
  case True
  let ?m = "manual_twist A"
  obtain B go where g: "resume_gate (linear_x ?m) (angular_z ?m) A = (B, go)" by fastforce
  then have "build_twist B = build_twist A" by (rule resume_gate_same) (rule build_twist_cong; simp)
  then show thesis using assms that True g
    by (auto simp: timer_cb_def manual_tick_def Let_def split: if_splits)
next
  case False
  obtain l a where d: "direction_input A = (l, a)" by fastforce
  let ?A = "leave_stop (estop_toggle A)"
  obtain B go where g: "resume_gate l a ?A = (B, go)" by fastforce
  then have B: "build_twist B = build_twist A" by (rule resume_gate_same) (rule build_twist_cong; simp add: arbiter_simps)
  have B2: "ar_estop B = ar_estop (estop_toggle A)" using g by (rule resume_gate_same) (simp add: arbiter_simps)
  have j: "timer_cb ns A = joy_tick (now_sec ns) A" using False by (simp add: timer_cb_def)
  have B': "B = A'" "go" "t = build_twist B (fmul64 l MAX_LINEAR) (fmul64 a MAX_ANGULAR)"
    "\<not> ar_estop (estop_toggle A)" "\<not> fp_gt (fsub64 (now_sec ns) (ar_joy_stamp A)) (joy_timeout_sec (ar_params A))"
    "btn A DEADMAN_BTN" "\<not> fp_gt (fsub64 (now_sec ns) (ar_safety_stamp A)) (safety_timeout_sec (ar_params A))"
    "ar_safety A \<noteq> STATE_STOP"
    using assms unfolding j joy_tick_def Let_def by (auto simp: arbiter_simps g d split: if_splits)
  show thesis
    by (rule that [of "fmul64 l MAX_LINEAR" "fmul64 a MAX_ANGULAR"]) (use B' B B2 d in auto)
qed

text \<open>Until a tick sees neutral input, the gate stays closed and every tick publishes zero.\<close>

definition gated :: "arbiter \<Rightarrow> bool" where
  "gated A \<longleftrightarrow> require_resume A \<and> \<not> seen_neutral A"

definition neutral_input :: "arbiter \<Rightarrow> bool" where
  "neutral_input A \<longleftrightarrow>
     (if no_joy_mode (ar_params A) then at_neutral (linear_x (manual_twist A)) (angular_z (manual_twist A))
      else at_neutral (fst (direction_input A)) (snd (direction_input A)))"

lemma gated_gate: "gated A \<Longrightarrow> resume_gate l a A = (A', go) \<Longrightarrow> \<not> go \<and> (at_neutral l a \<or> gated A')"
  by (auto simp: gated_def resume_gate_def Let_def split: if_splits)

lemma gated_simps [simp]:
  "gated (arm_resume A)" "gated A \<Longrightarrow> gated (leave_stop A)" "gated (estop_toggle A) = gated A"
  by (auto simp: gated_def leave_stop_def arm_resume_def Let_def arbiter_simps)

lemma gated_tick:
  assumes "gated A" "timer_cb ns A = (A', t)"
  shows "t = zero_twist" "neutral_input A \<or> gated A'"
proof -
  have "t = zero_twist \<and> (neutral_input A \<or> gated A')"
  proof (cases "no_joy_mode (ar_params A)")
    case True
    let ?m = "manual_twist A"
    obtain B go where g: "resume_gate (linear_x ?m) (angular_z ?m) A = (B, go)" by fastforce
    then show ?thesis using assms gated_gate [OF assms(1) g] True
      by (auto simp: timer_cb_def manual_tick_def neutral_input_def Let_def split: if_splits)
  next
    case False
    obtain l a where d: "direction_input A = (l, a)" by fastforce
    let ?A = "leave_stop (estop_toggle A)"
    obtain B go where g: "resume_gate l a ?A = (B, go)" by fastforce
    have j: "timer_cb ns A = joy_tick (now_sec ns) A" using False by (simp add: timer_cb_def)
    have "\<not> go \<and> (at_neutral l a \<or> gated B)" using g assms(1) by (intro gated_gate) simp_all
    moreover have "neutral_input A \<longleftrightarrow> at_neutral l a" using False d by (simp add: neutral_input_def)
    ultimately show ?thesis using assms unfolding j joy_tick_def Let_def
      by (auto simp: arbiter_simps g d split: if_splits)
  qed
  then show "t = zero_twist" "neutral_input A \<or> gated A'" by simp_all
qed

lemma gated_step:
  assumes "gated A" "arbiter_step e A = (A', out)" "\<And>ns. e = Tick ns \<Longrightarrow> \<not> neutral_input A"
  shows "gated A'"
  using assms gated_tick(2)
  by (cases e) (auto simp: on_safety_def on_joy_def on_manual_def gated_def arm_resume_def Let_def split: prod.splits if_splits)

lemma gated_run:
  assumes "gated A" "arbiter_run es A = (A', out)"
  shows "gated A' \<or> (\<exists>es1 ns es2. es = es1 @ Tick ns # es2 \<and> neutral_input (fst (arbiter_run es1 A)))"
  using assms
proof (induction es arbitrary: A out)
  case (Cons e es)
  obtain B out1 out2 where B: "arbiter_step e A = (B, out1)" "arbiter_run es B = (A', out2)"
    using Cons.prems by (auto split: prod.splits)
  show ?case
  proof (cases "\<exists>ns. e = Tick ns \<and> neutral_input A")
    case True
    then show ?thesis by (intro disjI2 exI [of _ "[]"]) auto
  next
    case False
    then have "gated B" using gated_step [OF Cons.prems(1) B(1)] by blast
    from Cons.IH [OF this B(2)] show ?thesis
    proof (elim disjE exE conjE)
      fix es1 ns es2 assume "es = es1 @ Tick ns # es2" "neutral_input (fst (arbiter_run es1 B))"
      then show ?thesis using B(1) by (intro disjI2 exI [of _ "e # es1"]) (auto split: prod.splits)
    qed simp
  qed
qed simp

lemma arbiter_run_append:
  "arbiter_run (es @ fs) A = (case arbiter_run es A of (B, out) \<Rightarrow> case arbiter_run fs B of (C, out') \<Rightarrow> (C, out @ out'))"
  by (induction es arbitrary: A) (auto split: prod.splits)

section \<open>Properties\<close>

fun event_time :: "arbiter_event \<Rightarrow> int" where
  "event_time (SafetyMsg ns _) = ns"
| "event_time (JoyMsg ns _) = ns"
| "event_time (ManualMsg ns _) = ns"
| "event_time (Tick ns) = ns"

definition times_ok :: "arbiter_event list \<Rightarrow> bool" where
  "times_ok es \<longleftrightarrow> list_all (\<lambda>e. 0 \<le> event_time e \<and> event_time e < 2 ^ 61) es"

definition recent :: "int \<Rightarrow> int \<Rightarrow> fp \<Rightarrow> bool" where
  "recent ns n0 timeout \<longleftrightarrow> (case timeout of Fin \<tau> \<Rightarrow> of_int (ns - n0) \<le> \<tau> * 1000000000 + 1000 | _ \<Rightarrow> False)"

lemma last_safety_time: "last_safety es = Some (n, d) \<Longrightarrow> times_ok es \<Longrightarrow> 0 \<le> n \<and> n < 2 ^ 61"
  by (induction es rule: last_safety.induct) (auto simp: times_ok_def split: option.splits)

lemma last_joy_time: "last_joy es = Some (n, d) \<Longrightarrow> times_ok es \<Longrightarrow> 0 \<le> n \<and> n < 2 ^ 61"
  by (induction es rule: last_joy.induct) (auto simp: times_ok_def split: option.splits)

lemma max_values:
  obtains l a where "MAX_LINEAR = Fin l" "MAX_ANGULAR = Fin a" "0 < l" "0 < a" "fp_ok binary64 (Fin l)" "fp_ok binary64 (Fin a)"
proof -
  have "MAX_LINEAR = Fin (7926335344172073 / 2 ^ 55)" unfolding MAX_LINEAR_def
    by (subst round_fp_eqI [where k = 1019 and m = 7926335344172073]) simp_all
  moreover have "MAX_ANGULAR = Fin (6395111470866104 / 2 ^ 51)" unfolding MAX_ANGULAR_def
    by (subst round_fp_eqI [where k = 1023 and m = 6395111470866104]) simp_all
  moreover have "fp_ok binary64 MAX_LINEAR" "fp_ok binary64 MAX_ANGULAR"
    unfolding MAX_LINEAR_def MAX_ANGULAR_def by (rule fp_ok_round, simp)+
  ultimately show thesis using that by simp
qed

lemma build_twist_max:
  assumes "0 \<le> l" "0 \<le> a" "slow_linear_max (ar_params A) = Fin l" "slow_angular_max (ar_params A) = Fin a"
    and "fp_le (fp_abs v) (Fin m)" "fp_le (fp_abs w) (Fin n)"
  shows "fp_le (fp_abs (linear_x (build_twist A v w))) (Fin m)" "fp_le (fp_abs (angular_z (build_twist A v w))) (Fin n)"
    "ar_safety A = STATE_SLOW \<Longrightarrow> fp_le (fp_abs (linear_x (build_twist A v w))) (Fin l)"
    "ar_safety A = STATE_SLOW \<Longrightarrow> fp_le (fp_abs (angular_z (build_twist A v w))) (Fin a)"
  using assms capped_bounded by (auto simp: build_twist_def)

text \<open>
  C6: The robot moves only when it may. In any history of messages and ticks, with times before
  \<open>2 ^ 61\<close> ns: a tick publishes a twist other than zero only if the last safety message said CLEAR
  or SLOW and is no older than the timeout and a microsecond (all roundings of the clock included);
  under SLOW both speeds are within the slow limits. With a joystick moreover its last message is as
  recent, holds the deadman button, the software stop is off, and both speeds are within the limits
  of the robot, whatever the axes say (also NaN).
\<close>

theorem robot_moves_only_when_allowed:
  assumes "params_ok p" "times_ok es" "0 \<le> ns" "ns < 2 ^ 61"
    and "arbiter_run es (CmdVelArbiter p) = (A, out)" "timer_cb ns A = (A', t)" "t \<noteq> zero_twist"
  shows "\<exists>n0 data. last_safety es = Some (n0, data) \<and> data \<in> {STATE_CLEAR, STATE_SLOW} \<and> recent ns n0 (safety_timeout_sec p)
    \<and> (data = STATE_SLOW \<longrightarrow> fp_le (fp_abs (linear_x t)) (slow_linear_max p) \<and> fp_le (fp_abs (angular_z t)) (slow_angular_max p))
    \<and> (\<not> no_joy_mode p \<longrightarrow>
        (\<exists>n1 j. last_joy es = Some (n1, j) \<and> recent ns n1 (joy_timeout_sec p) \<and> DEADMAN_BTN < length (buttons j) \<and> buttons j ! DEADMAN_BTN \<noteq> 0)
        \<and> \<not> ar_estop A' \<and> fp_le (fp_abs (linear_x t)) MAX_LINEAR \<and> fp_le (fp_abs (angular_z t)) MAX_ANGULAR)"
proof -
  obtain s j l a where p: "safety_timeout_sec p = Fin s" "joy_timeout_sec p = Fin j" "slow_linear_max p = Fin l"
    "slow_angular_max p = Fin a" "0 \<le> s" "s \<le> 2 ^ 20" "0 \<le> j" "j \<le> 2 ^ 20" "0 \<le> l" "0 \<le> a"
    by (rule params_okE [OF assms(1)])
  have init: "ar_safety (CmdVelArbiter p) = STATE_STOP" "ar_safety_stamp (CmdVelArbiter p) = Fin 0"
    "ar_joy (CmdVelArbiter p) = None" "ar_joy_stamp (CmdVelArbiter p) = Fin 0" by (simp_all add: CmdVelArbiter_def)
  have P: "ar_params A = ar_params (CmdVelArbiter p)" and
    S: "(ar_safety A, ar_safety_stamp A) = (case last_safety es of None \<Rightarrow> (STATE_STOP, Fin 0) | Some (ns, data) \<Rightarrow> (state_of_data data, now_sec ns))" and
    J: "(ar_joy A, ar_joy_stamp A) = (case last_joy es of None \<Rightarrow> (None, Fin 0) | Some (ns, j) \<Rightarrow> (Some j, now_sec ns))"
    using run_state [OF assms(5)] unfolding init by blast+
  then have q: "safety_timeout_sec (ar_params A) = Fin s" "joy_timeout_sec (ar_params A) = Fin j" "slow_linear_max (ar_params A) = Fin l"
    "slow_angular_max (ar_params A) = Fin a" "no_joy_mode (ar_params A) = no_joy_mode p"
    using p by (simp_all add: CmdVelArbiter_def)
  obtain lin ang where t: "ar_safety A \<noteq> STATE_STOP" "t = build_twist A lin ang"
    "\<not> fp_gt (fsub64 (now_sec ns) (ar_safety_stamp A)) (Fin s)"
    "\<not> no_joy_mode p \<Longrightarrow> btn A DEADMAN_BTN \<and> \<not> ar_estop A'
       \<and> \<not> fp_gt (fsub64 (now_sec ns) (ar_joy_stamp A)) (Fin j)
       \<and> (\<exists>l a. direction_input A = (l, a) \<and> lin = fmul64 l MAX_LINEAR \<and> ang = fmul64 a MAX_ANGULAR)"
    using timer_cb_moves [OF assms(6,7)] unfolding q by metis
  obtain n0 data where m: "last_safety es = Some (n0, data)" "ar_safety A = state_of_data data" "ar_safety_stamp A = now_sec n0"
    using S t(1) by (cases "last_safety es") auto
  have "recent ns n0 (safety_timeout_sec p)"
    using fresh_ns [of s ns n0] t(3) m(3) last_safety_time [OF m(1) assms(2)] assms(3,4) p by (simp add: recent_def)
  moreover have d: "data \<in> {STATE_CLEAR, STATE_SLOW}" using t(1) m(2) by (auto simp: state_of_data_def split: if_splits)
  moreover have "data = STATE_SLOW \<longrightarrow> fp_le (fp_abs (linear_x t)) (slow_linear_max p) \<and> fp_le (fp_abs (angular_z t)) (slow_angular_max p)"
    using m(2) d t(2) p q capped_bounded(1) by (auto simp: build_twist_def state_of_data_def)
  moreover have "(\<exists>n1 j. last_joy es = Some (n1, j) \<and> recent ns n1 (joy_timeout_sec p) \<and> DEADMAN_BTN < length (buttons j) \<and> buttons j ! DEADMAN_BTN \<noteq> 0)
        \<and> \<not> ar_estop A' \<and> fp_le (fp_abs (linear_x t)) MAX_LINEAR \<and> fp_le (fp_abs (angular_z t)) MAX_ANGULAR" if n: "\<not> no_joy_mode p"
  proof -
    obtain u v where uv: "direction_input A = (u, v)" "lin = fmul64 u MAX_LINEAR" "ang = fmul64 v MAX_ANGULAR" using t(4) [OF n] by blast
    have b: "btn A DEADMAN_BTN" using t(4) [OF n] by blast
    then obtain n1 jm where jm: "last_joy es = Some (n1, jm)" "ar_joy A = Some jm" "ar_joy_stamp A = now_sec n1"
      using J by (cases "last_joy es") (auto simp: btn_def)
    have "recent ns n1 (joy_timeout_sec p)"
      using fresh_ns [of j ns n1] t(4) [OF n] jm(3) last_joy_time [OF jm(1) assms(2)] assms(3,4) p by (simp add: recent_def)
    moreover have "DEADMAN_BTN < length (buttons jm) \<and> buttons jm ! DEADMAN_BTN \<noteq> 0" using b jm(2) by (auto simp: btn_def split: if_splits)
    moreover obtain dz where "stick_deadzone (ar_params A) = Fin dz" "0 \<le> dz" "dz < 96/100" unfolding P by (rule deadzone_param)
    then have "unit_value u" "unit_value v" by (rule direction_input_unit [OF _ _ _ uv(1)])+
    then have "fp_le (fp_abs (linear_x t)) MAX_LINEAR" "fp_le (fp_abs (angular_z t)) MAX_ANGULAR"
      using build_twist_max(1,2) [OF p(9,10) q(3,4)] fmul_bounded t(2) uv(2,3) by (metis max_values less_imp_le)+
    ultimately show ?thesis using jm(1) t(4) [OF n] by blast
  qed
  ultimately show ?thesis using m(1) by blast
qed

lemma default_params_ok: "params_ok ArbiterParams_default"
proof -
  have "lit64 (5/100) = Fin (7205759403792794 / 2 ^ 57)"
    by (subst round_fp_eqI [where k = 1017 and m = 7205759403792794]) simp_all
  moreover have "lit64 (30/100) = Fin (5404319552844595 / 2 ^ 54)"
    by (subst round_fp_eqI [where k = 1020 and m = 5404319552844595]) simp_all
  ultimately show ?thesis by (simp add: params_ok_def ArbiterParams_default_def)
qed

lemma now_sec_zero [simp]: "now_sec 0 = Fin 0"
  by (simp add: now_sec_def double_of_int_def lit64_nano)

text \<open>STOP, CLEAR, the deadman button, neutral for a tick, then forward.\<close>

definition example_later :: "arbiter_event list" where
  "example_later = [SafetyMsg 0 0, JoyMsg 0 \<lparr>axes = [], buttons = [0, 0, 0, 0, 1]\<rparr>, Tick 0,
     JoyMsg 0 \<lparr>axes = [], buttons = [0, 0, 0, 1, 1]\<rparr>]"

definition example_drive :: "arbiter_event list" where
  "example_drive = SafetyMsg 0 2 # example_later"

lemmas arbiter_eval = on_safety_def on_joy_def timer_cb_def joy_tick_def estop_toggle_def leave_stop_def direction_input_def
  resume_gate_def build_twist_def at_neutral_def btn_def axis_def apply_deadzone_def arm_resume_def fp_zero_def fp_sub_def
  STATE_CLEAR_def STATE_SLOW_def STATE_STOP_def LINEAR_AXIS_def ANGULAR_AXIS_def DEADMAN_BTN_def A_BTN_def B_BTN_def X_BTN_def
  Y_BTN_def ESTOP_BTN_def zero_twist_def Let_def

lemma example_drives:
  "linear_x (snd (timer_cb 0 (fst (arbiter_run example_drive (CmdVelArbiter ArbiterParams_default))))) = MAX_LINEAR"
proof -
  obtain dz where dz: "stick_deadzone (ar_params (CmdVelArbiter ArbiterParams_default)) = Fin dz" "0 \<le> dz" by (rule deadzone_param)
  obtain l a where m: "MAX_LINEAR = Fin l" "MAX_ANGULAR = Fin a" "fp_ok binary64 (Fin l)" by (rule max_values)
  have n: "NEUTRAL_THRESH = Fin (7205759403792794 / 2 ^ 57)" unfolding NEUTRAL_THRESH_def
    by (subst round_fp_eqI [where k = 1017 and m = 7205759403792794]) simp_all
  have one: "round_fp binary64 1 = Fin 1" using binary64_int [of 1] by simp
  have l: "round_fp binary64 l = Fin l" using m(3) by simp
  show ?thesis using dz unfolding example_drive_def example_later_def m(1)
    by (simp add: arbiter_eval CmdVelArbiter_def ArbiterParams_default_def n one l m)
qed

text \<open>Without a joystick no gate is armed at the start.\<close>

lemma manual_moves_at_once:
  "snd (timer_cb 0 (fst (arbiter_run [SafetyMsg 0 0, ManualMsg 0 m] (CmdVelArbiter (ArbiterParams_default\<lparr>no_joy_mode := True\<rparr>)))))
    = \<lparr>linear_x = linear_x m, angular_z = angular_z m\<rparr>"
  by (simp add: arbiter_eval manual_tick_def on_manual_def CmdVelArbiter_def ArbiterParams_default_def)

lemma forward_not_zero: "linear_x t = MAX_LINEAR \<Longrightarrow> t \<noteq> zero_twist"
proof -
  obtain l a where l: "MAX_LINEAR = Fin l" "MAX_ANGULAR = Fin a" "0 < l" by (rule max_values)
  then have "MAX_LINEAR \<noteq> Fin 0" by (simp add: l(1))
  then show "linear_x t = MAX_LINEAR \<Longrightarrow> t \<noteq> zero_twist" by (auto simp: zero_twist_def)
qed

theorem robot_moves_only_when_allowed_witness:
  "let (A, out) = arbiter_run example_drive (CmdVelArbiter ArbiterParams_default); (A', t) = timer_cb 0 A
   in linear_x t = MAX_LINEAR \<and> fp_le (fp_abs (angular_z t)) MAX_ANGULAR \<and> \<not> ar_estop A'"
proof -
  obtain A out where A: "arbiter_run example_drive (CmdVelArbiter ArbiterParams_default) = (A, out)" by fastforce
  obtain A' t where t: "timer_cb 0 A = (A', t)" by fastforce
  have x: "linear_x t = MAX_LINEAR" using example_drives A t by simp
  then have "t \<noteq> zero_twist" by (rule forward_not_zero)
  moreover have "times_ok example_drive" by (simp add: times_ok_def example_drive_def example_later_def)
  moreover have "\<not> no_joy_mode ArbiterParams_default" by (simp add: ArbiterParams_default_def)
  ultimately show ?thesis
    using robot_moves_only_when_allowed [OF default_params_ok _ _ _ A t] A t x by auto
qed

text \<open>
  C18: After a STOP the driver has to let go first. Whatever happened before and after a safety message
  that says STOP, or anything that is no state: no tick moves the robot until, after that message,
  a tick has seen neutral input.
\<close>

theorem resume_needs_neutral:
  assumes "arbiter_run (before @ SafetyMsg n0 data # later) (CmdVelArbiter p) = (A, out)" "data \<notin> {STATE_CLEAR, STATE_SLOW}"
    and "timer_cb ns A = (A', t)" "t \<noteq> zero_twist"
  shows "\<exists>es1 n es2. later = es1 @ Tick n # es2
    \<and> neutral_input (fst (arbiter_run (before @ SafetyMsg n0 data # es1) (CmdVelArbiter p)))"
proof -
  define B where "B = fst (arbiter_run before (CmdVelArbiter p))"
  define C where "C = fst (on_safety n0 data B)"
  have stop: "gated C" using assms(2) by (auto simp: C_def on_safety_def Let_def)
  have run: "fst (arbiter_run (before @ SafetyMsg n0 data # es) (CmdVelArbiter p)) = fst (arbiter_run es C)" for es
    by (simp add: arbiter_run_append B_def C_def split: prod.splits)
  then have "arbiter_run later C = (A, snd (arbiter_run later C))" using assms(1) by (metis fst_conv prod.collapse)
  from gated_run [OF stop this] show ?thesis
    using gated_tick(1) [OF _ assms(3)] assms(4) unfolding run by blast
qed

theorem resume_needs_neutral_witness:
  "\<exists>es1 n es2. example_later = es1 @ Tick n # es2
    \<and> neutral_input (fst (arbiter_run ([] @ SafetyMsg 0 2 # es1) (CmdVelArbiter ArbiterParams_default)))"
proof -
  obtain A out where A: "arbiter_run ([] @ SafetyMsg 0 2 # example_later) (CmdVelArbiter ArbiterParams_default) = (A, out)" by fastforce
  obtain A' t where t: "timer_cb 0 A = (A', t)" by fastforce
  have "arbiter_run example_drive (CmdVelArbiter ArbiterParams_default) = (A, out)" using A unfolding example_drive_def append_Nil .
  then have "t \<noteq> zero_twist" using example_drives t by (intro forward_not_zero) simp
  then show ?thesis using resume_needs_neutral [OF A _ t] by (simp add: STATE_CLEAR_def STATE_SLOW_def)
qed

end
