(* ===== verification/Robot.thy ===== *)
theory Robot
  imports Cmd_Vel_Arbiter Uart_Frame
begin

text \<open>
  The robot as a whole: the UART receiver publishes the states it decodes on the topic
  \<open>/adas/safety_state\<close>, from which the velocity arbiter takes them. Both nodes keep the queue depth of
  10 they ask for; a full queue drops its oldest message (keep last), and a message is delivered at
  any later time.
\<close>

section \<open>State and steps\<close>

record robot =
  rb_buffer :: "int list"
  rb_topic :: "int list"
  rb_arbiter :: arbiter

definition QUEUE_DEPTH :: nat where "QUEUE_DEPTH = 10"

definition Robot :: "arbiter_params \<Rightarrow> robot" where
  "Robot p = \<lparr>rb_buffer = [], rb_topic = [], rb_arbiter = CmdVelArbiter p\<rparr>"

datatype robot_event = PollUart "int list" | DeliverState int | DeliverJoy int joy | DeliverManual int twist | ArbiterTick int

definition keep_last :: "nat \<Rightarrow> 'a list \<Rightarrow> 'a list" where
  "keep_last n xs = drop (length xs - n) xs"

fun robot_step :: "robot_event \<Rightarrow> robot \<Rightarrow> robot \<times> twist list" where
  "robot_step (PollUart waiting) R = (case poll (rb_buffer R) waiting of (buf, out) \<Rightarrow>
     (R\<lparr>rb_buffer := buf, rb_topic := keep_last QUEUE_DEPTH (rb_topic R @ out)\<rparr>, []))"
| "robot_step (DeliverState ns) R = (case rb_topic R of [] \<Rightarrow> (R, [])
     | data # later \<Rightarrow> (case on_safety ns data (rb_arbiter R) of (A, out) \<Rightarrow> (R\<lparr>rb_topic := later, rb_arbiter := A\<rparr>, out)))"
| "robot_step (DeliverJoy ns j) R = (case arbiter_step (JoyMsg ns j) (rb_arbiter R) of (A, out) \<Rightarrow> (R\<lparr>rb_arbiter := A\<rparr>, out))"
| "robot_step (DeliverManual ns m) R = (case arbiter_step (ManualMsg ns m) (rb_arbiter R) of (A, out) \<Rightarrow> (R\<lparr>rb_arbiter := A\<rparr>, out))"
| "robot_step (ArbiterTick ns) R = (case arbiter_step (Tick ns) (rb_arbiter R) of (A, out) \<Rightarrow> (R\<lparr>rb_arbiter := A\<rparr>, out))"

fun robot_run :: "robot_event list \<Rightarrow> robot \<Rightarrow> robot \<times> twist list" where
  "robot_run [] R = (R, [])"
| "robot_run (e # es) R = (case robot_step e R of (R, out) \<Rightarrow> case robot_run es R of (R, out') \<Rightarrow> (R, out @ out'))"

section \<open>What has been received and delivered\<close>

fun received :: "robot_event list \<Rightarrow> int list" where
  "received [] = []"
| "received (PollUart w # es) = w @ received es"
| "received (_ # es) = received es"

lemma received_append: "received (es @ fs) = received es @ received fs"
  by (induction es rule: received.induct) auto

text \<open>The whole frames of a stream that has come in part.\<close>

definition wire :: "safety_state list \<Rightarrow> int list" where
  "wire ss = concat (map (\<lambda>s. map uint (frame s)) ss)"

lemma drain_wire_prefix:
  assumes "bs @ rest = wire ss"
  shows "length bs div 3 \<le> length ss \<and> snd (drain bs) = map (\<lambda>s. uint (state_code s)) (take (length bs div 3) ss)"
  using assms
proof (induction ss arbitrary: bs)
  case Nil
  then show ?case by (simp add: wire_def drain_short)
next
  case (Cons s ss)
  have f: "length (map uint (frame s)) = 3" by (simp add: frame_def)
  show ?case
  proof (cases "length bs < 3")
    case True
    then show ?thesis by (simp add: drain_short)
  next
    case False
    have eq: "bs @ rest = map uint (frame s) @ wire ss" using Cons.prems by (simp add: wire_def)
    have "take 3 bs = map uint (frame s)" "drop 3 bs @ rest = wire ss"
      using False f arg_cong [OF eq, of "take 3"] arg_cong [OF eq, of "drop 3"] by simp_all
    then obtain cs where cs: "bs = map uint (frame s) @ cs" "cs @ rest = wire ss"
      by (metis append_take_drop_id)
    then have "length bs div 3 = Suc (length cs div 3)" using f by simp
    moreover obtain left out where "drain cs = (left, out)" by fastforce
    ultimately show ?thesis using Cons.IH [OF cs(2)] unfolding cs(1) by (simp add: drain_frame)
  qed
qed

text \<open>
  The last delivery: before it the topic held the decoded states from the \<open>k\<close>-th on, so that it took the
  \<open>k\<close>-th, at \<open>n0\<close>; what was delivered later found the topic empty.
\<close>

definition topic_after :: "arbiter_params \<Rightarrow> robot_event list \<Rightarrow> int list" where
  "topic_after p es = rb_topic (fst (robot_run es (Robot p)))"

definition last_delivery :: "arbiter_params \<Rightarrow> robot_event list \<Rightarrow> int \<Rightarrow> nat \<Rightarrow> bool" where
  "last_delivery p es n0 k \<longleftrightarrow> (\<exists>before later. es = before @ DeliverState n0 # later
     \<and> k < length (snd (drain (received before))) \<and> topic_after p before = drop k (snd (drain (received before)))
     \<and> (\<forall>es1 m es2. later = es1 @ DeliverState m # es2 \<longrightarrow> topic_after p (before @ DeliverState n0 # es1) = []))"

lemma last_delivery_keep:
  assumes "last_delivery p es n0 k" "\<And>m. e = DeliverState m \<Longrightarrow> topic_after p es = []"
  shows "last_delivery p (es @ [e]) n0 k"
proof -
  obtain before later where l: "es = before @ DeliverState n0 # later" "k < length (snd (drain (received before)))"
    "topic_after p before = drop k (snd (drain (received before)))"
    "\<forall>es1 m es2. later = es1 @ DeliverState m # es2 \<longrightarrow> topic_after p (before @ DeliverState n0 # es1) = []"
    using assms(1) unfolding last_delivery_def by blast
  have "topic_after p (before @ DeliverState n0 # es1) = []" if "later @ [e] = es1 @ DeliverState m # es2" for es1 m es2
    using that l(1,4) assms(2) by (cases es2 rule: rev_cases) (auto simp flip: append_assoc append_Cons)
  then show ?thesis unfolding last_delivery_def using l by (intro exI [of _ before] exI [of _ "later @ [e]"]) simp
qed

lemma last_delivery_new:
  assumes "k < length (snd (drain (received es)))" "topic_after p es = drop k (snd (drain (received es)))"
  shows "last_delivery p (es @ [DeliverState n0]) n0 k"
  unfolding last_delivery_def using assms by (intro exI [of _ es] exI [of _ "[]"]) simp

lemma last_delivery_in: "last_delivery p es n0 k \<Longrightarrow> DeliverState n0 \<in> set es"
  by (auto simp: last_delivery_def)

lemma robot_run_snoc: "robot_run (es @ [e]) R = (case robot_run es R of (R1, out) \<Rightarrow>
    case robot_step e R1 of (R2, out') \<Rightarrow> (R2, out @ out'))"
  by (induction es arbitrary: R) (simp_all split: prod.splits)

text \<open>
  \<open>d\<close> of the states decoded have left the topic. The arbiter holds its initial STOP, or the \<open>k\<close>-th
  state, delivered at \<open>n0\<close>; without a full queue nothing was dropped after that one.
\<close>

definition robot_inv :: "arbiter_params \<Rightarrow> robot_event list \<Rightarrow> robot \<Rightarrow> bool" where
  "robot_inv p es R \<longleftrightarrow> ar_params (rb_arbiter R) = ar_params (CmdVelArbiter p)
    \<and> (\<exists>states d. drain (received es) = (rb_buffer R, states) \<and> d \<le> length states \<and> rb_topic R = drop d states
        \<and> length (rb_topic R) \<le> QUEUE_DEPTH
        \<and> (ar_safety (rb_arbiter R) = STATE_STOP
           \<or> (\<exists>k n0. k < d \<and> (length (rb_topic R) < QUEUE_DEPTH \<longrightarrow> k + 1 = d) \<and> last_delivery p es n0 k
               \<and> ar_safety (rb_arbiter R) = state_of_data (states ! k) \<and> ar_safety_stamp (rb_arbiter R) = now_sec n0)))"

lemma robot_inv_initial: "robot_inv p [] (Robot p)"
  by (simp add: robot_inv_def Robot_def drain_short CmdVelArbiter_def)

lemma robot_inv_poll:
  assumes "robot_inv p es R" "robot_step (PollUart w) R = (R', out)"
  shows "robot_inv p (es @ [PollUart w]) R'"
proof -
  obtain states d where I: "ar_params (rb_arbiter R) = ar_params (CmdVelArbiter p)" "drain (received es) = (rb_buffer R, states)"
    "d \<le> length states" "rb_topic R = drop d states" "length (rb_topic R) \<le> QUEUE_DEPTH"
    "ar_safety (rb_arbiter R) = STATE_STOP
       \<or> (\<exists>k n0. k < d \<and> (length (rb_topic R) < QUEUE_DEPTH \<longrightarrow> k + 1 = d) \<and> last_delivery p es n0 k
           \<and> ar_safety (rb_arbiter R) = state_of_data (states ! k) \<and> ar_safety_stamp (rb_arbiter R) = now_sec n0)"
    using assms(1) unfolding robot_inv_def by blast
  obtain buf new where q: "drain (rb_buffer R @ w) = (buf, new)" by fastforce
  then have pl: "poll (rb_buffer R) w = (buf, new)" by (auto simp: poll_def)
  let ?e = "length states + length new - d - QUEUE_DEPTH"
  have t: "rb_topic R @ new = drop d (states @ new)" using I(3,4) by simp
  have "keep_last QUEUE_DEPTH (rb_topic R @ new) = drop (d + ?e) (states @ new)"
  proof -
    have "length (drop d (states @ new)) - QUEUE_DEPTH = ?e" using I(3) by simp
    then show ?thesis unfolding keep_last_def t by (simp only: drop_drop add.commute)
  qed
  then have R': "R' = R\<lparr>rb_buffer := buf, rb_topic := drop (d + ?e) (states @ new)\<rparr>"
    using assms(2) pl by simp
  have d: "drain (received (es @ [PollUart w])) = (buf, states @ new)"
    using drain_append [of "received es" w] I(2) q by (simp add: received_append)
  have short: "?e = 0 \<and> length (rb_topic R) < QUEUE_DEPTH" if "length (rb_topic R') < QUEUE_DEPTH"
    using that I(3,4) by (simp add: R')
  have bounds: "d + ?e \<le> length (states @ new)" "length (rb_topic R') \<le> QUEUE_DEPTH" using I(3) by (simp_all add: R')
  have "ar_safety (rb_arbiter R') = STATE_STOP
       \<or> (\<exists>k n0. k < d + ?e \<and> (length (rb_topic R') < QUEUE_DEPTH \<longrightarrow> k + 1 = d + ?e) \<and> last_delivery p (es @ [PollUart w]) n0 k
           \<and> ar_safety (rb_arbiter R') = state_of_data ((states @ new) ! k) \<and> ar_safety_stamp (rb_arbiter R') = now_sec n0)"
    using I(6)
  proof (elim disjE exE conjE)
    fix k n0
    assume k: "k < d" "length (rb_topic R) < QUEUE_DEPTH \<longrightarrow> k + 1 = d" "last_delivery p es n0 k"
      "ar_safety (rb_arbiter R) = state_of_data (states ! k)" "ar_safety_stamp (rb_arbiter R) = now_sec n0"
    then show ?thesis using I(3) short last_delivery_keep [OF k(3), of "PollUart w"]
      by (intro disjI2 exI [of _ k] exI [of _ n0]) (auto simp: nth_append R')
  qed (simp add: R')
  moreover have "rb_buffer R' = buf" "rb_topic R' = drop (d + ?e) (states @ new)" "ar_params (rb_arbiter R') = ar_params (CmdVelArbiter p)"
    using I(1) by (simp_all add: R')
  ultimately show ?thesis using d bounds unfolding robot_inv_def by blast
qed

lemma robot_inv_deliver:
  assumes "robot_inv p es R" "robot_step (DeliverState ns) R = (R', out)" "topic_after p es = rb_topic R"
  shows "robot_inv p (es @ [DeliverState ns]) R'"
proof -
  obtain states d where I: "ar_params (rb_arbiter R) = ar_params (CmdVelArbiter p)" "drain (received es) = (rb_buffer R, states)"
    "d \<le> length states" "rb_topic R = drop d states" "length (rb_topic R) \<le> QUEUE_DEPTH"
    "ar_safety (rb_arbiter R) = STATE_STOP
       \<or> (\<exists>k n0. k < d \<and> (length (rb_topic R) < QUEUE_DEPTH \<longrightarrow> k + 1 = d) \<and> last_delivery p es n0 k
           \<and> ar_safety (rb_arbiter R) = state_of_data (states ! k) \<and> ar_safety_stamp (rb_arbiter R) = now_sec n0)"
    using assms(1) unfolding robot_inv_def by blast
  have r: "received (es @ [DeliverState ns]) = received es" by (simp add: received_append)
  show ?thesis
  proof (cases "rb_topic R")
    case Nil
    then have "R' = R" using assms(2) by simp
    moreover have "last_delivery p es n0 k \<Longrightarrow> last_delivery p (es @ [DeliverState ns]) n0 k" for n0 k
      using last_delivery_keep [of p es n0 k] Nil assms(3) by simp
    ultimately show ?thesis using I r unfolding robot_inv_def by metis
  next
    case (Cons data later)
    then have d: "d < length states" "states ! d = data" "later = drop (Suc d) states"
      using I(4) by (metis drop_eq_Nil list.distinct(1) not_le, metis nth_via_drop, metis drop_Suc list.sel(3) tl_drop)
    obtain A out' where A: "on_safety ns data (rb_arbiter R) = (A, out')" by fastforce
    have R': "R' = R\<lparr>rb_topic := later, rb_arbiter := A\<rparr>" using assms(2) Cons A by simp
    have "ar_params A = ar_params (rb_arbiter R)" "ar_safety A = state_of_data data" "ar_safety_stamp A = now_sec ns"
      using step_state(1,2) [of "SafetyMsg ns data" "rb_arbiter R" A out'] A by simp_all
    moreover have "last_delivery p (es @ [DeliverState ns]) ns d"
      by (rule last_delivery_new) (use I(2,4) d(1) assms(3) in simp_all)
    ultimately show ?thesis using I(1,2,5) d Cons r unfolding robot_inv_def R'
      by (intro conjI exI [of _ states] exI [of _ "Suc d"] disjI2 exI [of _ d] exI [of _ ns]) simp_all
  qed
qed

lemma robot_inv_step:
  assumes "robot_inv p es R" "robot_step e R = (R', out)" "topic_after p es = rb_topic R"
  shows "robot_inv p (es @ [e]) R'"
proof -
  have other: "robot_inv p (es @ [e]) (R\<lparr>rb_arbiter := A\<rparr>)"
    if "arbiter_step f (rb_arbiter R) = (A, out')" "\<forall>ns data. f \<noteq> SafetyMsg ns data" "received [e] = []" "\<forall>m. e \<noteq> DeliverState m" for f A out'
  proof -
    have "ar_params A = ar_params (rb_arbiter R)" "ar_safety A = ar_safety (rb_arbiter R)" "ar_safety_stamp A = ar_safety_stamp (rb_arbiter R)"
      using step_state(1,2) [OF that(1)] that(2) by (cases f; simp)+
    moreover have "last_delivery p es n0 k \<Longrightarrow> last_delivery p (es @ [e]) n0 k" for n0 k
      using last_delivery_keep [of p es n0 k e] that(4) by blast
    moreover have "received (es @ [e]) = received es" by (simp add: received_append that(3))
    moreover obtain states d where "drain (received es) = (rb_buffer R, states)" "d \<le> length states"
      "rb_topic R = drop d states" "length (rb_topic R) \<le> QUEUE_DEPTH" "ar_params (rb_arbiter R) = ar_params (CmdVelArbiter p)"
      "ar_safety (rb_arbiter R) = STATE_STOP
        \<or> (\<exists>k n0. k < d \<and> (length (rb_topic R) < QUEUE_DEPTH \<longrightarrow> k + 1 = d) \<and> last_delivery p es n0 k
             \<and> ar_safety (rb_arbiter R) = state_of_data (states ! k) \<and> ar_safety_stamp (rb_arbiter R) = now_sec n0)"
      using assms(1) unfolding robot_inv_def by blast
    ultimately show ?thesis unfolding robot_inv_def by (intro conjI exI [of _ states] exI [of _ d]) auto
  qed
  show ?thesis
  proof (cases e)
    case (PollUart w)
    then show ?thesis using robot_inv_poll assms by blast
  next
    case (DeliverState ns)
    then show ?thesis using robot_inv_deliver assms by blast
  next
    case (DeliverJoy ns j)
    then show ?thesis using assms(2) other [of "JoyMsg ns j"] by (auto split: prod.splits)
  next
    case (DeliverManual ns m)
    then show ?thesis using assms(2) other [of "ManualMsg ns m"] by (auto split: prod.splits)
  next
    case (ArbiterTick ns)
    then show ?thesis using assms(2) other [of "Tick ns"] by (auto split: prod.splits)
  qed
qed

lemma robot_inv_run:
  assumes "robot_inv p es R" "robot_run fs R = (R', out)" "fst (robot_run es (Robot p)) = R"
  shows "robot_inv p (es @ fs) R'"
  using assms
proof (induction fs arbitrary: es R out)
  case (Cons f fs)
  obtain B out1 out2 where B: "robot_step f R = (B, out1)" "robot_run fs B = (R', out2)"
    using Cons.prems by (auto split: prod.splits)
  have "robot_inv p (es @ [f]) B"
    by (rule robot_inv_step [OF Cons.prems(1) B(1)]) (simp add: topic_after_def Cons.prems(3))
  moreover have "fst (robot_run (es @ [f]) (Robot p)) = B"
    using Cons.prems(3) B(1) by (cases "robot_run es (Robot p)") (simp add: robot_run_snoc)
  ultimately show ?case using Cons.IH B(2) by fastforce
qed simp

section \<open>Properties\<close>

fun robot_event_time :: "robot_event \<Rightarrow> int" where
  "robot_event_time (DeliverState ns) = ns"
| "robot_event_time (DeliverJoy ns _) = ns"
| "robot_event_time (DeliverManual ns _) = ns"
| "robot_event_time (ArbiterTick ns) = ns"
| "robot_event_time (PollUart _) = 0"

text \<open>
  C3: From the wire to the wheels. The UART carries the frames of the states \<open>ss\<close>, cut anywhere; in any
  interleaving of polls, deliveries, driver messages and ticks, a tick that moves the robot acts on
  a frame \<open>k\<close> that came in whole and is not Stop: it is the frame that was delivered last, at \<open>n0\<close>,
  no longer ago than the timeout and a microsecond; the motion is within the slow limits when it is Slow; and
  when no state waits for delivery, it is the last frame that came in. So a robot that hears Stop, or nothing,
  stands still, however often the topic is looked at in vain.
\<close>

theorem wire_to_wheels:
  assumes "params_ok p" "robot_run es (Robot p) = (R, out)" "received es @ rest = wire ss"
    and "list_all (\<lambda>e. 0 \<le> robot_event_time e \<and> robot_event_time e < 2 ^ 61) es" "0 \<le> ns" "ns < 2 ^ 61"
    and "timer_cb ns (rb_arbiter R) = (A', t)" "t \<noteq> zero_twist"
  shows "\<exists>k n0. k < length (received es) div 3 \<and> k < length ss \<and> ss ! k \<noteq> Stop
    \<and> last_delivery p es n0 k \<and> recent ns n0 (safety_timeout_sec p)
    \<and> (ss ! k = Slow \<longrightarrow> fp_le (fp_abs (linear_x t)) (slow_linear_max p) \<and> fp_le (fp_abs (angular_z t)) (slow_angular_max p))
    \<and> (rb_topic R = [] \<longrightarrow> k + 1 = length (received es) div 3)"
proof -
  obtain s j l a where p: "safety_timeout_sec p = Fin s" "joy_timeout_sec p = Fin j" "slow_linear_max p = Fin l"
    "slow_angular_max p = Fin a" "0 \<le> s" "s \<le> 2 ^ 20" "0 \<le> j" "j \<le> 2 ^ 20" "0 \<le> l" "0 \<le> a"
    by (rule params_okE [OF assms(1)])
  have "robot_inv p es R" using robot_inv_run [OF robot_inv_initial assms(2)] by simp
  moreover obtain lin ang where t: "ar_safety (rb_arbiter R) \<noteq> STATE_STOP" "t = build_twist (rb_arbiter R) lin ang"
    "\<not> fp_gt (fsub64 (now_sec ns) (ar_safety_stamp (rb_arbiter R))) (safety_timeout_sec (ar_params (rb_arbiter R)))"
    by (rule timer_cb_moves [OF assms(7,8)])
  ultimately obtain states d k n0 where I: "ar_params (rb_arbiter R) = ar_params (CmdVelArbiter p)"
    "drain (received es) = (rb_buffer R, states)" "d \<le> length states" "rb_topic R = drop d states" "k < d"
    "length (rb_topic R) < QUEUE_DEPTH \<longrightarrow> k + 1 = d" "last_delivery p es n0 k"
    "ar_safety (rb_arbiter R) = state_of_data (states ! k)" "ar_safety_stamp (rb_arbiter R) = now_sec n0"
    unfolding robot_inv_def by blast
  have st: "states = map (\<lambda>s. uint (state_code s)) (take (length (received es) div 3) ss)" "length (received es) div 3 \<le> length ss"
    using drain_wire_prefix [OF assms(3)] I(2) by simp_all
  then have n: "length states = length (received es) div 3" by simp
  then have k: "k < length (received es) div 3" "k < length ss" "states ! k = uint (state_code (ss ! k))"
    using I(3,5) st by simp_all
  have q: "ar_params (rb_arbiter R) = p\<lparr>stick_deadzone := fp_max (Fin 0) (fp_min (lit64 (95/100)) (stick_deadzone p)),
        cardinal_snap_ratio := fp_max (Fin 0) (fp_min (Fin 1) (cardinal_snap_ratio p))\<rparr>"
    using I(1) by (simp add: CmdVelArbiter_def)
  have "0 \<le> n0 \<and> n0 < 2 ^ 61" using assms(4) last_delivery_in [OF I(7)] by (auto simp: list_all_iff)
  then have "recent ns n0 (safety_timeout_sec p)"
    using fresh_ns [of s ns n0] t(3) I(9) assms(5,6) p q by (simp add: recent_def)
  moreover have "ss ! k \<noteq> Stop" using t(1) I(8) k(3) by (auto simp: state_of_data_def STATE_STOP_def STATE_CLEAR_def STATE_SLOW_def)
  moreover have "fp_le (fp_abs (linear_x t)) (slow_linear_max p) \<and> fp_le (fp_abs (angular_z t)) (slow_angular_max p)" if "ss ! k = Slow"
    using t(2) I(8) k(3) that p q capped_bounded(1) by (auto simp: build_twist_def state_of_data_def STATE_SLOW_def)
  moreover have "k + 1 = length (received es) div 3" if "rb_topic R = []"
    using I(3,4,6) n that by (simp add: QUEUE_DEPTH_def)
  ultimately show ?thesis using k(1,2) I(7) by blast
qed

text \<open>STOP and CLEAR from the wire, then the drive of the example before.\<close>

definition example_trip :: "robot_event list" where
  "example_trip = [PollUart (wire [Stop]), DeliverState 0, PollUart (wire [Clear]), DeliverState 0,
     DeliverJoy 0 \<lparr>axes = [], buttons = [0, 0, 0, 0, 1]\<rparr>, ArbiterTick 0, DeliverJoy 0 \<lparr>axes = [], buttons = [0, 0, 0, 1, 1]\<rparr>]"

lemma example_trip_run:
  obtains R out where "robot_run example_trip (Robot ArbiterParams_default) = (R, out)" "rb_topic R = []"
    "rb_arbiter R = fst (arbiter_run example_drive (CmdVelArbiter ArbiterParams_default))"
proof -
  have d: "drain (wire [s]) = ([], [uint (state_code s)])" for s
    using drain_frame [of s "[]"] by (simp add: wire_def drain_short)
  have w: "wire [s] \<noteq> []" for s by (simp add: wire_def frame_def)
  obtain R out where R: "robot_run example_trip (Robot ArbiterParams_default) = (R, out)" by fastforce
  then have "rb_topic R = [] \<and> rb_arbiter R = fst (arbiter_run example_drive (CmdVelArbiter ArbiterParams_default))"
    by (auto simp: example_trip_def example_drive_def example_later_def Robot_def poll_def w d keep_last_def QUEUE_DEPTH_def
        split: prod.splits)
  then show thesis using that R by blast
qed

theorem wire_to_wheels_witness:
  "\<exists>k n0. k + 1 = length (received example_trip) div 3 \<and> [Stop, Clear] ! k \<noteq> Stop
     \<and> last_delivery ArbiterParams_default example_trip n0 k"
proof -
  obtain R out where R: "robot_run example_trip (Robot ArbiterParams_default) = (R, out)" "rb_topic R = []"
    "rb_arbiter R = fst (arbiter_run example_drive (CmdVelArbiter ArbiterParams_default))" by (rule example_trip_run)
  obtain A' t where t: "timer_cb 0 (rb_arbiter R) = (A', t)" by fastforce
  have "t \<noteq> zero_twist" using example_drives t unfolding R(3) [symmetric] by (intro forward_not_zero) simp
  moreover have "received example_trip @ [] = wire [Stop, Clear]" by (simp add: example_trip_def wire_def)
  moreover have "list_all (\<lambda>e. 0 \<le> robot_event_time e \<and> robot_event_time e < 2 ^ 61) example_trip" by (simp add: example_trip_def)
  ultimately show ?thesis using wire_to_wheels [OF default_params_ok R(1) _ _ _ _ t] R(2) by fastforce
qed

end
