(* ===== verification/Engine_Testbench.thy ===== *)
theory Engine_Testbench
  imports Classifier_Model
begin

text \<open>
  The testbench of the PL engine (\<open>pl_db/hls/HW/classifier_engine_tb.cpp\<close>): its plain software
  reference, its test vectors, and the comparison that decides whether the engine passes. A signed
  \<open>int32_t\<close> accumulator is a word that wraps; array parameters are functions of their indices.
\<close>

unbundle bit_operations_syntax

section \<open>The reference\<close>

definition arshift_ref :: "64 word \<Rightarrow> nat \<Rightarrow> 32 word" where
  "arshift_ref value shift =
     (if shift = 0 then ucast value
      else if sint value \<ge> 0 then ucast (signed_drop_bit shift value)
      else let denom_mask = push_bit shift 1 - 1;
               mag = - value
           in ucast (- signed_drop_bit shift (mag + denom_mask)))"

definition requant_relu_ref :: "32 word \<Rightarrow> 32 word \<Rightarrow> nat \<Rightarrow> 8 word" where
  "requant_relu_ref acc multiplier shift =
     (let scaled = (scast acc :: 64 word) * scast multiplier;
          q = arshift_ref scaled shift;
          q = (if sint q < 0 then 0 else q);
          q = (if sint q > 127 then 127 else q)
      in ucast q)"

definition ref_conv0 :: "act arr3 \<Rightarrow> weight arr4 \<Rightarrow> (nat \<Rightarrow> bias) \<Rightarrow> 32 word \<Rightarrow> nat \<Rightarrow> 8 word arr3 \<Rightarrow> 8 word arr3" where
  "ref_conv0 ifmap w b multiplier shift out =
     for_loop C0_OUT_SIZE (\<lambda>oy. for_loop C0_OUT_SIZE (\<lambda>ox. for_loop C0_OUT_CH (\<lambda>oc out.
       let acc = for_loop C0_IN_CH (\<lambda>ic. for_loop K (\<lambda>ky. for_loop K (\<lambda>kx acc.
                   acc + scast (ifmap (oy + ky) (ox + kx) ic) * scast (w oc ic ky kx)))) (b oc)
       in upd3 out oy ox oc (requant_relu_ref acc multiplier shift)))) out"

definition ref_pool :: "nat \<Rightarrow> nat \<Rightarrow> 8 word arr3 \<Rightarrow> 8 word arr3 \<Rightarrow> 8 word arr3" where
  "ref_pool ch out_size inp out =
     for_loop out_size (\<lambda>oy. for_loop out_size (\<lambda>ox. for_loop ch (\<lambda>c out.
       let m = for_loop 2 (\<lambda>py. for_loop 2 (\<lambda>px m.
                 if sint (inp (oy * 2 + py) (ox * 2 + px) c) > sint m then inp (oy * 2 + py) (ox * 2 + px) c else m))
                 (inp (oy * 2) (ox * 2) c)
       in upd3 out oy ox c m))) out"

definition ref_conv_same_wpack ::
  "nat \<Rightarrow> nat \<Rightarrow> nat \<Rightarrow> 8 word arr3 \<Rightarrow> weight arr4 \<Rightarrow> (nat \<Rightarrow> bias) \<Rightarrow> 32 word \<Rightarrow> nat \<Rightarrow> 8 word arr3 \<Rightarrow> 8 word arr3" where
  "ref_conv_same_wpack in_ch out_ch sz ifmap w b multiplier shift out =
     for_loop sz (\<lambda>oy. for_loop sz (\<lambda>ox. for_loop out_ch (\<lambda>oc out.
       let acc = for_loop K (\<lambda>ky. for_loop K (\<lambda>kx acc.
                   let iy = int oy - 1 + int ky; ix = int ox - 1 + int kx
                   in if iy < 0 \<or> iy \<ge> int sz \<or> ix < 0 \<or> ix \<ge> int sz then acc
                      else for_loop in_ch (\<lambda>ic acc. acc + scast (ifmap (nat iy) (nat ix) ic) * scast (w oc ky kx ic)) acc))
                   (b oc)
       in upd3 out oy ox oc (requant_relu_ref acc multiplier shift)))) out"

text \<open>The static buffers start as zero.\<close>

definition zeros :: "'a :: zero arr3" where
  "zeros = (\<lambda>_ _ _. 0)"

definition tb_golden :: "act arr3 \<Rightarrow> layer \<Rightarrow> layer \<Rightarrow> layer \<Rightarrow> 8 word arr3" where
  "tb_golden ifmap_padded l0 l1 l2 =
     (let rq0 = requantizer l0; rq1 = requantizer l1; rq2 = requantizer l2;
          ref_f0 = ref_conv0 ifmap_padded (weights l0) (biases l0) (rq_multiplier rq0) (unat (rq_shift rq0)) zeros;
          ref_p0 = ref_pool C0_OUT_CH P0_OUT_SIZE ref_f0 zeros;
          ref_f1 = ref_conv_same_wpack C1_IN_CH C1_OUT_CH C1_SIZE ref_p0 (weights l1) (biases l1)
                     (rq_multiplier rq1) (unat (rq_shift rq1)) zeros;
          ref_p1 = ref_pool C1_OUT_CH P1_OUT_SIZE ref_f1 zeros;
          ref_f2 = ref_conv_same_wpack C2_IN_CH C2_OUT_CH C2_SIZE ref_p1 (weights l2) (biases l2)
                     (rq_multiplier rq2) (unat (rq_shift rq2)) zeros
      in ref_pool C2_OUT_CH P2_OUT_SIZE ref_f2 zeros)"

section \<open>Vectors and verdict\<close>

definition tb_image :: "act arr3" where
  "tb_image = for_loop C0_OUT_SIZE (\<lambda>y. for_loop C0_OUT_SIZE (\<lambda>x. for_loop C0_IN_CH (\<lambda>c img.
     upd3 img (y + 1) (x + 1) c (word_of_int (int ((y * 17 + x * 13 + c * 29 + ((x * y) mod 31)) mod 127) - 63))))) zeros"

definition tb_layer0 :: layer where
  "tb_layer0 = \<lparr>weights = for_loop C0_OUT_CH (\<lambda>oc. for_loop C0_IN_CH (\<lambda>ic. for_loop K (\<lambda>ky. for_loop K (\<lambda>kx w.
        upd4 w oc ic ky kx (word_of_int (int ((oc * 7 + ic * 5 + ky * 3 + kx * 11) mod 5) - 2)))))) (\<lambda>_ _ _ _. 0),
     biases = for_loop C0_OUT_CH (\<lambda>oc b. b(oc := word_of_int (int (oc mod 9) - 4))) (\<lambda>_. 0),
     requantizer = \<lparr>rq_multiplier = 3, rq_shift = 5\<rparr>\<rparr>"

definition tb_layer1 :: layer where
  "tb_layer1 = \<lparr>weights = for_loop C1_OUT_CH (\<lambda>oc. for_loop K (\<lambda>ky. for_loop K (\<lambda>kx. for_loop C1_IN_CH (\<lambda>ic w.
        upd4 w oc ky kx ic (word_of_int (int ((oc * 7 + ky * 5 + kx * 3 + ic * 11) mod 5) - 2)))))) (\<lambda>_ _ _ _. 0),
     biases = for_loop C1_OUT_CH (\<lambda>oc b. b(oc := word_of_int (int (oc mod 13) - 6))) (\<lambda>_. 0),
     requantizer = \<lparr>rq_multiplier = 5, rq_shift = 6\<rparr>\<rparr>"

definition tb_layer2 :: layer where
  "tb_layer2 = \<lparr>weights = for_loop C2_OUT_CH (\<lambda>oc. for_loop K (\<lambda>ky. for_loop K (\<lambda>kx. for_loop C2_IN_CH (\<lambda>ic w.
        upd4 w oc ky kx ic (word_of_int (int ((oc * 3 + ky * 7 + kx * 5 + ic * 11) mod 5) - 2)))))) (\<lambda>_ _ _ _. 0),
     biases = for_loop C2_OUT_CH (\<lambda>oc b. b(oc := word_of_int (int (oc mod 17) - 8))) (\<lambda>_. 0),
     requantizer = \<lparr>rq_multiplier = 7, rq_shift = 7\<rparr>\<rparr>"

definition border_errors :: "act arr3 \<Rightarrow> nat" where
  "border_errors img =
     (let last = C0_PAD_SIZE - 1;
          check = (\<lambda>y x c errors. if sint (img y x c) \<noteq> 0 then errors + 1 else errors);
          errors = for_loop C0_PAD_SIZE (\<lambda>x. for_loop C0_IN_CH (\<lambda>c errors. check last x c (check 0 x c errors))) 0
      in for_loop (C0_PAD_SIZE - 2) (\<lambda>y. for_loop C0_IN_CH (\<lambda>c errors. check (y + 1) last c (check (y + 1) 0 c errors))) errors)"

definition fnv1a_byte :: "8 word \<Rightarrow> 64 word \<Rightarrow> 64 word" where
  "fnv1a_byte v h = (h XOR ucast v) * 1099511628211"

definition fnv1a_output :: "8 word arr3 \<Rightarrow> 64 word" where
  "fnv1a_output out = for_loop P2_OUT_SIZE (\<lambda>y. for_loop P2_OUT_SIZE (\<lambda>x. for_loop C2_OUT_CH (\<lambda>c. fnv1a_byte (out y x c))))
     1469598103934665603"

text \<open>The number of mismatches and the hash of the output, in one pass.\<close>

definition compare_outputs :: "8 word arr3 \<Rightarrow> 8 word arr3 \<Rightarrow> nat \<times> 64 word" where
  "compare_outputs dut_out golden =
     for_loop P2_OUT_SIZE (\<lambda>y. for_loop P2_OUT_SIZE (\<lambda>x. for_loop C2_OUT_CH (\<lambda>c (mismatches, dut_hash).
       (if sint (dut_out y x c) \<noteq> sint (golden y x c) then mismatches + 1 else mismatches, fnv1a_byte (dut_out y x c) dut_hash))))
     (0, 1469598103934665603)"

text \<open>\<open>main\<close> up to the verdict on the deterministic vectors, for an engine.\<close>

definition tb_verdict :: "(act arr3 \<Rightarrow> layer \<Rightarrow> layer \<Rightarrow> layer \<Rightarrow> act arr3 \<Rightarrow> act arr3) \<Rightarrow> bool" where
  "tb_verdict engine =
     (if border_errors tb_image \<noteq> 0 then False
      else let golden = tb_golden tb_image tb_layer0 tb_layer1 tb_layer2;
               dut_out = engine tb_image tb_layer0 tb_layer1 tb_layer2 zeros
           in case compare_outputs dut_out golden of (mismatches, dut_hash) \<Rightarrow>
                \<not> (mismatches \<noteq> 0 \<or> dut_hash \<noteq> fnv1a_output golden))"

section \<open>The exported model\<close>

text \<open>
  \<open>run_ps_team_golden\<close>: the engine on the exported weights against the exported answer. Files are
  those of \<open>Classifier_Model\<close>: \<open>fgetc\<close> at the end or at a read error is \<open>EOF\<close> both times. The header length is below
  \<open>2 ^ 32 - 1\<close>, so that \<open>n + 1\<close> bytes are allocated.
\<close>

definition EXPORT_ROOTS :: "string list" where
  "EXPORT_ROOTS = [''inputs/roi_classifier_int8_export_v2/roi_classifier_int8_export/export/'',
     ''../../../../inputs/roi_classifier_int8_export_v2/roi_classifier_int8_export/export/'']"

fun open_ps_file :: "file_system \<Rightarrow> string list \<Rightarrow> string \<Rightarrow> 8 word list option" where
  "open_ps_file fs [] name = None"
| "open_ps_file fs (root # roots) name =
     (case fs (root @ name) of Some f \<Rightarrow> Some (content f) | None \<Rightarrow> open_ps_file fs roots name)"

definition read_bytes :: "file_system \<Rightarrow> string \<Rightarrow> nat \<Rightarrow> 8 word list option" where
  "read_bytes fs name bytes =
     (case open_ps_file fs EXPORT_ROOTS name of
        None \<Rightarrow> None
      | Some f \<Rightarrow> if length (take bytes f) = bytes \<and> drop bytes f = [] then Some (take bytes f) else None)"

definition npy_magic :: "8 word list" where
  "npy_magic = [147, 78, 85, 77, 80, 89]"

definition npy_int8 :: "8 word list" where
  "npy_int8 = [39, 100, 101, 115, 99, 114, 39, 58, 32, 39, 124, 105, 49, 39]"

fun occurs :: "8 word list \<Rightarrow> 8 word list \<Rightarrow> bool" where
  "occurs s [] \<longleftrightarrow> s = []"
| "occurs s (c # cs) \<longleftrightarrow> take (length s) (c # cs) = s \<or> occurs s cs"

definition read_npy_i8 :: "file_system \<Rightarrow> string \<Rightarrow> nat \<Rightarrow> 8 word list option" where
  "read_npy_i8 fs name bytes =
     (case open_ps_file fs EXPORT_ROOTS name of
        None \<Rightarrow> None
      | Some f \<Rightarrow>
          if length (take 10 f) \<noteq> 10 \<or> take 6 f \<noteq> npy_magic then None
          else let n = unat (f ! 8) + 256 * unat (f ! 9); f' = drop 10 f
               in if f ! 6 \<ge> 2 \<and> length (take 2 f') \<noteq> 2 then None
                  else let n = (if f ! 6 \<ge> 2 then n + 2 ^ 16 * unat (f' ! 0) + 2 ^ 24 * unat (f' ! 1) else n);
                           f' = (if f ! 6 \<ge> 2 then drop 2 f' else f');
                           h = take n f'; f' = drop n f'
                       in if length h = n \<and> occurs npy_int8 (takeWhile (\<lambda>b. b \<noteq> 0) h)
                             \<and> length (take bytes f') = bytes \<and> drop bytes f' = []
                          then Some (take bytes f') else None)"

text \<open>C arrays of bytes and of little-endian \<open>int32_t\<close>, in row-major order.\<close>

definition byte3 :: "8 word list \<Rightarrow> nat \<Rightarrow> nat \<Rightarrow> 8 word arr3" where
  "byte3 f m l = (\<lambda>i j k. f ! ((i * m + j) * l + k))"

definition byte4 :: "8 word list \<Rightarrow> nat \<Rightarrow> nat \<Rightarrow> nat \<Rightarrow> 8 word arr4" where
  "byte4 f n m l = (\<lambda>h i j k. f ! (((h * n + i) * m + j) * l + k))"

definition copy_arr3 :: "nat \<Rightarrow> nat \<Rightarrow> nat \<Rightarrow> 8 word arr3 \<Rightarrow> 8 word arr3" where
  "copy_arr3 n m l f = for_loop n (\<lambda>i. for_loop m (\<lambda>j. for_loop l (\<lambda>k a. upd3 a i j k (f i j k)))) zeros"

definition copy_arr4 :: "nat \<Rightarrow> nat \<Rightarrow> nat \<Rightarrow> nat \<Rightarrow> 8 word arr4 \<Rightarrow> 8 word arr4" where
  "copy_arr4 q n m l f = for_loop q (\<lambda>h. for_loop n (\<lambda>i. for_loop m (\<lambda>j. for_loop l (\<lambda>k a.
     upd4 a h i j k (f h i j k))))) (\<lambda>_ _ _ _. 0)"

definition copy_bias :: "nat \<Rightarrow> 8 word list \<Rightarrow> nat \<Rightarrow> bias" where
  "copy_bias n f = for_loop n (\<lambda>i b. b(i := le32 f i)) (\<lambda>_. 0)"

definition golden_errors :: "8 word arr3 \<Rightarrow> 8 word arr3 \<Rightarrow> nat" where
  "golden_errors got expected = for_loop P2_OUT_SIZE (\<lambda>y. for_loop P2_OUT_SIZE (\<lambda>x. for_loop C2_OUT_CH (\<lambda>c errors.
     if sint (got y x c) \<noteq> sint (expected y x c) then errors + 1 else errors))) 0"

definition read_export :: "file_system \<Rightarrow> 8 word list list option" where
  "read_export fs =
     those [read_npy_i8 fs ''golden_input_98x98x3_int8.npy'' (C0_PAD_SIZE * C0_PAD_SIZE * C0_IN_CH),
            read_npy_i8 fs ''golden_conv2_pool.npy'' (P2_OUT_SIZE * P2_OUT_SIZE * C2_OUT_CH),
            read_bytes fs ''w_conv0.bin'' (C0_OUT_CH * C0_IN_CH * K * K),
            read_bytes fs ''w_conv1.bin'' (C1_OUT_CH * K * K * C1_IN_CH),
            read_bytes fs ''w_conv2.bin'' (C2_OUT_CH * K * K * C2_IN_CH),
            read_bytes fs ''b_conv0.bin'' (4 * C0_OUT_CH),
            read_bytes fs ''b_conv1.bin'' (4 * C1_OUT_CH),
            read_bytes fs ''b_conv2.bin'' (4 * C2_OUT_CH)]"

definition export_layers :: "8 word list list \<Rightarrow> layer \<times> layer \<times> layer" where
  "export_layers f =
     (\<lparr>weights = copy_arr4 C0_OUT_CH C0_IN_CH K K (byte4 (f ! 2) C0_IN_CH K K), biases = copy_bias C0_OUT_CH (f ! 5),
       requantizer = \<lparr>rq_multiplier = 1342756158, rq_shift = 38\<rparr>\<rparr>,
      \<lparr>weights = copy_arr4 C1_OUT_CH K K C1_IN_CH (byte4 (f ! 3) K K C1_IN_CH), biases = copy_bias C1_OUT_CH (f ! 6),
       requantizer = \<lparr>rq_multiplier = 1322019071, rq_shift = 35\<rparr>\<rparr>,
      \<lparr>weights = copy_arr4 C2_OUT_CH K K C2_IN_CH (byte4 (f ! 4) K K C2_IN_CH), biases = copy_bias C2_OUT_CH (f ! 7),
       requantizer = \<lparr>rq_multiplier = 1920779908, rq_shift = 38\<rparr>\<rparr>)"

type_synonym engine = "act arr3 \<Rightarrow> layer \<Rightarrow> layer \<Rightarrow> layer \<Rightarrow> act arr3 \<Rightarrow> act arr3"

definition run_ps_team_golden :: "engine \<Rightarrow> file_system \<Rightarrow> nat" where
  "run_ps_team_golden engine fs =
     (case read_export fs of
        None \<Rightarrow> 1
      | Some f \<Rightarrow>
          (case export_layers f of (l0, l1, l2) \<Rightarrow>
             let img = copy_arr3 C0_PAD_SIZE C0_PAD_SIZE C0_IN_CH (byte3 (f ! 0) C0_PAD_SIZE C0_IN_CH);
                 got = engine img l0 l1 l2 zeros;
                 errors = golden_errors got (byte3 (f ! 1) P2_OUT_SIZE C2_OUT_CH)
             in if errors \<noteq> 0 then 1 else 0))"

text \<open>The exit status of \<open>main\<close>. Two calls of the engine leave different static buffers behind.\<close>

definition tb_main :: "engine \<Rightarrow> engine \<Rightarrow> file_system \<Rightarrow> nat" where
  "tb_main engine engine' fs =
     (if \<not> tb_verdict engine then 1 else if run_ps_team_golden engine' fs \<noteq> 0 then 1 else 0)"

section \<open>The shift by hand is the arithmetic shift\<close>

lemma ceil_div_neg: "- ((- v + (2 ^ s - 1)) div 2 ^ s) = (v :: int) div 2 ^ s"
proof -
  have "(0::int) < 2 ^ s" by simp
  then have r: "0 \<le> v mod 2 ^ s" "v mod 2 ^ s < 2 ^ s" by simp_all
  have "- v + (2 ^ s - 1) = 2 ^ s * (- (v div 2 ^ s)) + (2 ^ s - 1 - v mod 2 ^ s)"
    using mult_div_mod_eq [of "2 ^ s" v] by (simp add: algebra_simps)
  then have "(- v + (2 ^ s - 1)) div 2 ^ s = - (v div 2 ^ s)"
    by (rule int_div_pos_eq) (use r in linarith)+
  then show ?thesis by simp
qed

lemma arshift_ref_drop:
  assumes "s \<le> 62" "- (2 ^ 62) \<le> sint v" "sint v \<le> 2 ^ 62"
  shows "arshift_ref v s = ucast (signed_drop_bit s v)"
proof -
  consider "s = 0" | "s \<noteq> 0" "0 \<le> sint v" | "s \<noteq> 0" "sint v < 0" by linarith
  then show ?thesis
  proof cases
    case 3
    have p: "(2::int) ^ s \<le> 2 ^ 62" "(0::int) < 2 ^ s" using power_increasing [OF assms(1), of "2::int"] by simp_all
    have m: "sint (- v + (push_bit s 1 - 1)) = - sint v + (2 ^ s - 1)"
    proof (rule sint_eq_of_range)
      show "- v + (push_bit s 1 - 1) = word_of_int (- sint v + (2 ^ s - 1))"
        by (simp add: push_bit_eq_mult)
    next
      have e: "(2::int) ^ 63 = 2 ^ 62 + 2 ^ 62" by simp
      have "0 \<le> - sint v + (2 ^ s - 1)" "- sint v + (2 ^ s - 1) < 2 ^ 63" unfolding e using assms p 3(2) by linarith+
      then show "- (2 ^ (LENGTH(64) - 1)) \<le> - sint v + (2 ^ s - 1)" "- sint v + (2 ^ s - 1) < 2 ^ (LENGTH(64) - 1)"
        by (simp, simp)
    qed
    have d: "sint (signed_drop_bit s (- v + (push_bit s 1 - 1))) = - (sint v div 2 ^ s)"
      unfolding sint_signed_drop_bit_eq m drop_bit_eq_div using ceil_div_neg [of "sint v" s] by linarith
    have w: "u = word_of_int (sint u)" for u :: "64 word" by (simp only: of_int_sint scast_id)
    have "- signed_drop_bit s (- v + (push_bit s 1 - 1)) = word_of_int (sint v div 2 ^ s)"
      by (subst w [of "signed_drop_bit s (- v + (push_bit s 1 - 1))"]) (simp only: d of_int_minus minus_minus)
    moreover have "signed_drop_bit s v = word_of_int (sint v div 2 ^ s)"
      by (subst w) (simp only: sint_signed_drop_bit_eq drop_bit_eq_div)
    ultimately show ?thesis using 3 by (simp add: arshift_ref_def Let_def)
  qed (simp_all add: arshift_ref_def)
qed

lemma requant_ref:
  assumes "unat (rq_shift rq) \<le> 62"
  shows "requant_relu_ref acc (rq_multiplier rq) (unat (rq_shift rq)) = requant_relu_c0 acc rq"
proof -
  let ?p = "(scast acc :: 64 word) * scast (rq_multiplier rq)"
  have "- (2 ^ 31) \<le> sint acc" "sint acc < 2 ^ 31" "- (2 ^ 31) \<le> sint (rq_multiplier rq)" "sint (rq_multiplier rq) < 2 ^ 31"
    using sint_range_size [of acc] sint_range_size [of "rq_multiplier rq"] by (simp_all add: word_size)
  then have b: "\<bar>sint acc * sint (rq_multiplier rq)\<bar> \<le> 2 ^ 31 * 2 ^ 31" by (intro abs_mult_bound) linarith+
  have "sint ?p = sint acc * sint (rq_multiplier rq)"
    by (rule sint_eq_of_range) (use b in \<open>simp_all only: scast_eq of_int_mult abs_le_iff\<close>, simp_all)
  then have "- (2 ^ 62) \<le> sint ?p" "sint ?p \<le> 2 ^ 62" using b by (simp_all add: abs_le_iff)
  from arshift_ref_drop [OF assms this] show ?thesis
    by (simp add: requant_relu_ref_def requant_relu_c0_def Let_def)
qed

section \<open>The loops\<close>

lemma for_loop_sum: "for_loop n (\<lambda>i acc. acc + T i) = (\<lambda>acc. acc + (\<Sum>i<n. T i))"
  for T :: "nat \<Rightarrow> 'a :: comm_monoid_add"
  by (rule ext, induction n) (simp_all add: add.assoc)

lemma ref_conv0_closed:
  assumes "unat (rq_shift rq) \<le> 62"
  shows "ref_conv0 ifmap w b (rq_multiplier rq) (unat (rq_shift rq)) out =
     (\<lambda>y x c. if y < C0_OUT_SIZE \<and> x < C0_OUT_SIZE \<and> c < C0_OUT_CH
        then conv_valid C0_IN_CH ifmap (\<lambda>oc ky kx ic. w oc ic ky kx) b rq y x c else out y x c)"
proof -
  have "(\<Sum>ic<C0_IN_CH. \<Sum>ky<K. \<Sum>kx<K. (scast (ifmap (oy + ky) (ox + kx) ic) :: 32 word) * scast (w oc ic ky kx))
      = (\<Sum>ky<K. \<Sum>kx<K. \<Sum>ic<C0_IN_CH. scast (ifmap (oy + ky) (ox + kx) ic) * scast (w oc ic ky kx))" for oy ox oc
    by (subst sum.swap, rule sum.cong [OF refl], rule sum.swap)
  then show ?thesis
    unfolding ref_conv0_def Let_def for_loop_sum requant_ref [OF assms] copy3 by (auto simp: fun_eq_iff conv_valid_def)
qed

lemma ref_pool_closed:
  "ref_pool ch n inp out = (\<lambda>y x c. if y < n \<and> x < n \<and> c < ch then max_pool inp y x c else out y x c)"
proof -
  have "for_loop 2 (\<lambda>py. for_loop 2 (\<lambda>px m. if sint (inp (y * 2 + py) (x * 2 + px) c) > sint m then inp (y * 2 + py) (x * 2 + px) c else m))
          (inp (y * 2) (x * 2) c) = max_pool inp y x c" for y x c
    by (simp add: numeral_2_eq_2 max_pool_def pool4_def Let_def mult.commute)
  then show ?thesis by (simp add: ref_pool_def Let_def copy3)
qed

lemma same_tap:
  fixes acc :: "32 word"
  shows "(let iy = int oy - 1 + int ky; ix = int ox - 1 + int kx
      in if iy < 0 \<or> iy \<ge> int sz \<or> ix < 0 \<or> ix \<ge> int sz then acc
         else for_loop n (\<lambda>ic acc. acc + scast (ifmap (nat iy) (nat ix) ic) * scast (w ic)) acc)
    = acc + (\<Sum>ic<n. scast (pad_same sz ifmap (oy + ky) (ox + kx) ic) * scast (w ic))"
proof -
  have "int oy - 1 + int ky < 0 \<longleftrightarrow> \<not> 1 \<le> oy + ky" "int ox - 1 + int kx < 0 \<longleftrightarrow> \<not> 1 \<le> ox + kx"
    "int sz \<le> int oy - 1 + int ky \<longleftrightarrow> \<not> oy + ky \<le> sz" "int sz \<le> int ox - 1 + int kx \<longleftrightarrow> \<not> ox + kx \<le> sz"
    "nat (int oy - 1 + int ky) = oy + ky - 1" "nat (int ox - 1 + int kx) = ox + kx - 1" by linarith+
  then show ?thesis
    by (cases "1 \<le> oy + ky \<and> oy + ky \<le> sz \<and> 1 \<le> ox + kx \<and> ox + kx \<le> sz") (auto simp: Let_def for_loop_sum pad_same_def)
qed

lemma ref_conv_same_closed:
  assumes "unat (rq_shift rq) \<le> 62"
  shows "ref_conv_same_wpack in_ch out_ch sz ifmap w b (rq_multiplier rq) (unat (rq_shift rq)) out =
     (\<lambda>y x c. if y < sz \<and> x < sz \<and> c < out_ch then conv_valid in_ch (pad_same sz ifmap) w b rq y x c else out y x c)"
  unfolding ref_conv_same_wpack_def same_tap
  unfolding for_loop_sum Let_def requant_ref [OF assms] copy3 by (auto simp: fun_eq_iff conv_valid_def)

section \<open>The reference is the engine\<close>

lemma max_pool_guard:
  assumes "2 * y + 1 < n" "2 * x + 1 < n" "c < ch"
  shows "max_pool (\<lambda>y x c. if y < n \<and> x < n \<and> c < ch then f y x c else g y x c) y x c = max_pool f y x c"
  using assms by (simp add: max_pool_def)

lemma golden_network:
  assumes "unat (rq_shift (requantizer l0)) \<le> 62" "unat (rq_shift (requantizer l1)) \<le> 62" "unat (rq_shift (requantizer l2)) \<le> 62"
    and "y < 12" "x < 12" "c < 64"
  shows "tb_golden img l0 l1 l2 y x c = network img l0 l1 l2 y x c"
proof -
  let ?f0 = "conv_valid C0_IN_CH img (\<lambda>oc ky kx ic. weights l0 oc ic ky kx) (biases l0) (requantizer l0)"
  let ?g0 = "\<lambda>y x c. if y < C0_OUT_SIZE \<and> x < C0_OUT_SIZE \<and> c < C0_OUT_CH then ?f0 y x c else zeros y x c"
  let ?p0 = "\<lambda>y x c. if y < P0_OUT_SIZE \<and> x < P0_OUT_SIZE \<and> c < C0_OUT_CH then max_pool ?g0 y x c else zeros y x c"
  let ?h1 = "conv_valid C1_IN_CH (pad_same C1_SIZE (max_pool ?f0)) (weights l1) (biases l1) (requantizer l1)"
  let ?f1 = "conv_valid C1_IN_CH (pad_same C1_SIZE ?p0) (weights l1) (biases l1) (requantizer l1)"
  let ?g1 = "\<lambda>y x c. if y < C1_SIZE \<and> x < C1_SIZE \<and> c < C1_OUT_CH then ?f1 y x c else zeros y x c"
  let ?p1 = "\<lambda>y x c. if y < P1_OUT_SIZE \<and> x < P1_OUT_SIZE \<and> c < C1_OUT_CH then max_pool ?g1 y x c else zeros y x c"
  let ?f2 = "conv_valid C2_IN_CH (pad_same C2_SIZE ?p1) (weights l2) (biases l2) (requantizer l2)"
  have p0: "?p0 y x c = max_pool ?f0 y x c" if "y < C1_SIZE" "x < C1_SIZE" "c < C1_IN_CH" for y x c
    using that by (subst max_pool_guard) (simp_all add: layer_sizes)
  have f1: "?f1 = ?h1" by (intro ext conv_valid_cong pad_same_cong refl) (rule p0)
  have p1: "?p1 y x c = max_pool ?h1 y x c" if "y < C2_SIZE" "x < C2_SIZE" "c < C2_IN_CH" for y x c
    unfolding f1 using that by (subst max_pool_guard) (simp_all add: layer_sizes)
  have f2: "?f2 = conv_valid C2_IN_CH (pad_same C2_SIZE (max_pool ?h1)) (weights l2) (biases l2) (requantizer l2)"
    by (intro ext conv_valid_cong pad_same_cong refl) (rule p1)
  let ?g2 = "\<lambda>y x c. if y < C2_SIZE \<and> x < C2_SIZE \<and> c < C2_OUT_CH then ?f2 y x c else zeros y x c"
  have "tb_golden img l0 l1 l2 =
      (\<lambda>y x c. if y < P2_OUT_SIZE \<and> x < P2_OUT_SIZE \<and> c < C2_OUT_CH then max_pool ?g2 y x c else zeros y x c)"
    unfolding tb_golden_def Let_def ref_conv0_closed [OF assms(1)] ref_conv_same_closed [OF assms(2)]
      ref_conv_same_closed [OF assms(3)] ref_pool_closed ..
  then have "tb_golden img l0 l1 l2 y x c = max_pool ?g2 y x c" using assms(4-6) by (simp add: layer_sizes)
  also have "\<dots> = max_pool ?f2 y x c" using assms(4-6) by (intro max_pool_guard) (simp_all add: layer_sizes)
  also have "\<dots> = network img l0 l1 l2 y x c" unfolding network_def Let_def f2 ..
  finally show ?thesis .
qed

lemma golden_engine:
  assumes "unat (rq_shift (requantizer l0)) \<le> 62" "unat (rq_shift (requantizer l1)) \<le> 62" "unat (rq_shift (requantizer l2)) \<le> 62"
    and "y < P2_OUT_SIZE" "x < P2_OUT_SIZE" "c < C2_OUT_CH"
  shows "tb_golden img l0 l1 l2 y x c = classifier_top M img l0 l1 l2 out y x c"
  using golden_network [OF assms(1-3), of y x c img] assms(4-6) by (simp add: engine_network layer_sizes)

section \<open>The verdict\<close>

lemma for_loop_invariant:
  "P s \<Longrightarrow> (\<And>i t. i < n \<Longrightarrow> P t \<Longrightarrow> P (f i t)) \<Longrightarrow> P (for_loop n f s)"
  by (induction n) simp_all

lemma tb_image_border:
  "y \<in> {0, C0_PAD_SIZE - 1} \<or> x \<in> {0, C0_PAD_SIZE - 1} \<Longrightarrow> tb_image y x c = 0"
proof -
  let ?P = "\<lambda>img :: act arr3. \<forall>y x c. y \<in> {0, C0_PAD_SIZE - 1} \<or> x \<in> {0, C0_PAD_SIZE - 1} \<longrightarrow> img y x c = 0"
  have "?P tb_image" unfolding tb_image_def
    by (intro for_loop_invariant [where P = ?P]) (auto simp: upd3_def upd2_def zeros_def layer_sizes)
  then show "y \<in> {0, C0_PAD_SIZE - 1} \<or> x \<in> {0, C0_PAD_SIZE - 1} \<Longrightarrow> tb_image y x c = 0" by blast
qed

lemma tb_image_no_border_errors: "border_errors tb_image = 0"
  unfolding border_errors_def Let_def
  by (intro for_loop_invariant [where P = "\<lambda>e. e = 0"]) (simp_all add: tb_image_border)

lemma for_loop_count:
  "for_loop n (\<lambda>i (m, h). (m + A i, F i h)) = (\<lambda>(m, h). (m + (\<Sum>i<n. A i), for_loop n F h))" for A :: "nat \<Rightarrow> nat"
  by (rule ext, induction n) auto

lemma differences_none:
  "(\<Sum>y<n. \<Sum>x<m. \<Sum>c<l. of_bool (f y x c \<noteq> g y x c) :: nat) = 0 \<longleftrightarrow> (\<forall>y<n. \<forall>x<m. \<forall>c<l. f y x c = g y x c)"
  for n m l :: nat
  by (simp only: sum_eq_0_iff finite_lessThan of_bool_eq_0_iff not_not Ball_def lessThan_iff)

lemma compare_outputs_closed:
  "compare_outputs dut golden = (\<Sum>y<P2_OUT_SIZE. \<Sum>x<P2_OUT_SIZE. \<Sum>c<C2_OUT_CH. of_bool (dut y x c \<noteq> golden y x c), fnv1a_output dut)"
proof -
  have "(if sint (dut y x c) \<noteq> sint (golden y x c) then m + 1 else m) = m + of_bool (dut y x c \<noteq> golden y x c)" for y x c and m :: nat
    using signed_word_eqI by fastforce
  then show ?thesis
    unfolding compare_outputs_def fnv1a_output_def by (simp only: for_loop_count) simp
qed

lemma golden_errors_none:
  "golden_errors got expected = 0 \<longleftrightarrow> (\<forall>y<P2_OUT_SIZE. \<forall>x<P2_OUT_SIZE. \<forall>c<C2_OUT_CH. got y x c = expected y x c)"
proof -
  have "(if sint (got y x c) \<noteq> sint (expected y x c) then m + 1 else m) = m + of_bool (got y x c \<noteq> expected y x c)" for y x c and m :: nat
    using signed_word_eqI by fastforce
  then show ?thesis unfolding golden_errors_def by (simp only: for_loop_sum add_0 differences_none)
qed

lemma tb_verdict_iff:
  "tb_verdict engine \<longleftrightarrow> (\<forall>y<P2_OUT_SIZE. \<forall>x<P2_OUT_SIZE. \<forall>c<C2_OUT_CH.
     engine tb_image tb_layer0 tb_layer1 tb_layer2 zeros y x c = tb_golden tb_image tb_layer0 tb_layer1 tb_layer2 y x c)"
  (is "_ = ?eq")
proof -
  have "fnv1a_output f = fnv1a_output g" if "\<forall>y<P2_OUT_SIZE. \<forall>x<P2_OUT_SIZE. \<forall>c<C2_OUT_CH. f y x c = g y x c" for f g
    unfolding fnv1a_output_def using that by (intro for_loop_cong) auto
  then show ?thesis
    unfolding tb_verdict_def tb_image_no_border_errors Let_def compare_outputs_closed prod.case differences_none by auto
qed

lemma testbench_passes: "tb_verdict (classifier_top M)"
proof -
  have "unat (rq_shift (requantizer tb_layer0)) \<le> 62" "unat (rq_shift (requantizer tb_layer1)) \<le> 62"
    "unat (rq_shift (requantizer tb_layer2)) \<le> 62" by (simp_all add: tb_layer0_def tb_layer1_def tb_layer2_def)
  then show ?thesis unfolding tb_verdict_iff by (intro allI impI golden_engine [symmetric])
qed

text \<open>On the exported model it passes exactly when the exported answer is what the network gives.\<close>

lemma tb_main_golden:
  assumes "read_export fs = Some f" "export_layers f = (l0, l1, l2)"
  shows "tb_main (classifier_top M) (classifier_top M') fs = 0 \<longleftrightarrow>
     (\<forall>y<12. \<forall>x<12. \<forall>c<64. network (copy_arr3 98 98 3 (byte3 (f ! 0) 98 3)) l0 l1 l2 y x c = byte3 (f ! 1) 12 64 y x c)"
proof -
  have "tb_main (classifier_top M) (classifier_top M') fs = 0
      \<longleftrightarrow> golden_errors (classifier_top M' (copy_arr3 98 98 3 (byte3 (f ! 0) 98 3)) l0 l1 l2 zeros) (byte3 (f ! 1) 12 64) = 0"
    by (simp add: tb_main_def testbench_passes run_ps_team_golden_def assms layer_sizes)
  then show ?thesis unfolding golden_errors_none by (simp add: engine_network layer_sizes)
qed

lemma read_export_fails: "read_export fs = None \<Longrightarrow> tb_main engine engine' fs = 1"
  by (simp add: tb_main_def run_ps_team_golden_def)

text \<open>
  C19: The testbench's plain reference is the engine. For every image and all layers with shifts up to 62, the textbook
  loops of the testbench (its shift that rounds towards minus infinity by hand, its padding by index tests, its pooling)
  give each output pixel the value that the tiled, packed engine gives it, whatever its buffers held.
\<close>

theorem testbench_reference_is_engine:
  assumes "unat (rq_shift (requantizer l0)) \<le> 62" "unat (rq_shift (requantizer l1)) \<le> 62" "unat (rq_shift (requantizer l2)) \<le> 62"
    and "y < P2_OUT_SIZE" "x < P2_OUT_SIZE" "c < C2_OUT_CH"
  shows "tb_golden img l0 l1 l2 y x c = classifier_top M img l0 l1 l2 out y x c"
  by (rule golden_engine [OF assms])

theorem testbench_reference_is_engine_witness:
  "\<forall>M. tb_golden tb_image tb_layer0 tb_layer1 tb_layer2 11 0 63
    = classifier_top M tb_image tb_layer0 tb_layer1 tb_layer2 (\<lambda>_ _ _. 85) 11 0 63"
  by (intro allI, rule testbench_reference_is_engine) (simp_all add: tb_layer0_def tb_layer1_def tb_layer2_def layer_sizes)

end
