(* ===== verification/Board_Golden.thy ===== *)
theory Board_Golden
  imports Ps_Sessions Engine_Testbench
begin

text \<open>
  \<open>tools/ps_db_golden_test.c\<close>: the check on the board that the accelerator gives the exported answer
  to the exported input. It reads the two arrays and the requantisers of the manifest, loads the model,
  runs the device once and compares. Files, allocations and the device are those of the theories it
  uses; a file of \<open>Classifier_Model\<close> can be rewound, and its length is what it holds. A
  header length is below \<open>2 ^ 32 - 1\<close>. None stands for a run that does not return.
\<close>

section \<open>Files\<close>

definition ascii :: "string \<Rightarrow> 8 word list" where
  "ascii text = map of_char text"

definition join_path :: "nat \<Rightarrow> string \<Rightarrow> string \<Rightarrow> string option" where
  "join_path capacity directory name =
     (let output = directory @ ''/'' @ name in if length output < capacity then Some output else None)"

definition PATH_BYTES :: nat where "PATH_BYTES = 4096"

definition npy_other_int8 :: "8 word list" where
  "npy_other_int8 = [39, 100, 101, 115, 99, 114, 39, 58, 32, 39, 60, 105, 49, 39]"

definition npy_c_order :: "8 word list" where
  "npy_c_order = [39] @ ascii ''fortran_order'' @ [39] @ ascii '': False''"

definition read_npy_int8 :: "file_system \<Rightarrow> string \<Rightarrow> nat \<Rightarrow> bool \<Rightarrow> 8 word list option" where
  "read_npy_int8 fs path bytes header_malloc =
     (case fs path of
        None \<Rightarrow> None
      | Some file \<Rightarrow>
          let prefix = take 12 (content file) in
          if length prefix \<noteq> 12 \<or> take 6 prefix \<noteq> npy_magic then None
          else let low = unat (prefix ! 8) + 2 ^ 8 * unat (prefix ! 9) in
          (case (if prefix ! 6 = 1 then Some (low, 10)
                 else if prefix ! 6 = 2 \<or> prefix ! 6 = 3
                 then Some (low + 2 ^ 16 * unat (prefix ! 10) + 2 ^ 24 * unat (prefix ! 11), 12)
                 else None) of
             None \<Rightarrow> None
           | Some (header_size, prefix_size) \<Rightarrow>
               let rest = drop prefix_size (content file) in
               if \<not> header_malloc then None
               else let header = takeWhile (\<lambda>b. b \<noteq> 0) (take header_size rest);
                        format_ok = (length (take header_size rest) = header_size
                          \<and> (occurs npy_int8 header \<or> occurs npy_other_int8 header) \<and> occurs npy_c_order header);
                        rest = drop header_size rest
                    in if \<not> format_ok then None
                       else if length (take bytes rest) = bytes \<and> drop bytes rest = [] \<and> \<not> read_fails file
                       then Some (take bytes rest) else None))"

definition read_text_file :: "file_system \<Rightarrow> string \<Rightarrow> bool \<Rightarrow> 8 word list option" where
  "read_text_file fs path text_malloc =
     (case fs path of None \<Rightarrow> None
      | Some file \<Rightarrow> if \<not> text_malloc \<or> read_fails file then None else Some (takeWhile (\<lambda>b. b \<noteq> 0) (content file)))"

section \<open>Numbers in a text\<close>

text \<open>\<open>strtoll\<close> and \<open>strtoul\<close> to base 10: blanks, a sign, digits; the sign, the value and what
  follows. The \<open>long\<close> of the board has 32 bits.\<close>

definition c_space :: "8 word \<Rightarrow> bool" where
  "c_space b \<longleftrightarrow> b \<in> {9, 10, 11, 12, 13, 32}"

definition c_digit :: "8 word \<Rightarrow> bool" where
  "c_digit b \<longleftrightarrow> 48 \<le> b \<and> b \<le> 57"

definition scan_number :: "8 word list \<Rightarrow> (bool \<times> nat \<times> 8 word list) option" where
  "scan_number text =
     (let t = dropWhile c_space text;
          negative = (t \<noteq> [] \<and> hd t = 45);
          t = (if t \<noteq> [] \<and> (hd t = 45 \<or> hd t = 43) then tl t else t);
          ds = takeWhile c_digit t
      in if ds = [] then None
         else Some (negative, foldl (\<lambda>v b. 10 * v + (unat b - 48)) 0 ds, dropWhile c_digit t))"

text \<open>None: nothing read, or out of range.\<close>

definition strtoll10 :: "8 word list \<Rightarrow> (int \<times> 8 word list) option" where
  "strtoll10 text =
     (case scan_number text of None \<Rightarrow> None
      | Some (negative, v, rest) \<Rightarrow>
          let v = (if negative then - int v else int v)
          in if v < - (2 ^ 63) \<or> v \<ge> 2 ^ 63 then None else Some (v, rest))"

definition strtoul10 :: "8 word list \<Rightarrow> (u32 \<times> 8 word list) option" where
  "strtoul10 text =
     (case scan_number text of None \<Rightarrow> None
      | Some (negative, v, rest) \<Rightarrow>
          if v \<ge> 2 ^ 32 then None else Some (if negative then - word_of_nat v else word_of_nat v, rest))"

fun strstr :: "8 word list \<Rightarrow> 8 word list \<Rightarrow> 8 word list option" where
  "strstr [] key = (if key = [] then Some [] else None)"
| "strstr (c # cs) key = (if take (length key) (c # cs) = key then Some (c # cs) else strstr cs key)"

definition parse_next_integer :: "8 word list \<Rightarrow> 8 word list \<Rightarrow> (int \<times> 8 word list) option" where
  "parse_next_integer cursor key =
     (case strstr cursor key of None \<Rightarrow> None
      | Some found \<Rightarrow> (case dropWhile (\<lambda>b. b \<noteq> 58) (drop (length key) found) of
          [] \<Rightarrow> None
        | _ # found \<Rightarrow> strtoll10 found))"

section \<open>The manifest\<close>

definition quoted :: "string \<Rightarrow> 8 word list" where
  "quoted name = [34] @ ascii name @ [34]"

fun requant_entries :: "nat \<Rightarrow> 8 word list \<Rightarrow> requant list option" where
  "requant_entries 0 cursor = Some []"
| "requant_entries (Suc n) cursor =
     (case parse_next_integer cursor (quoted ''requant_multiplier'') of None \<Rightarrow> None
      | Some (multiplier, cursor) \<Rightarrow>
     (case parse_next_integer cursor (quoted ''requant_shift'') of None \<Rightarrow> None
      | Some (shift, cursor) \<Rightarrow>
          if multiplier < - (2 ^ 31) \<or> multiplier > 2 ^ 31 - 1 \<or> shift < 0 \<or> shift > 255 then None
          else map_option ((#) \<lparr>rq_multiplier = word_of_int multiplier, rq_shift = word_of_int shift\<rparr>)
                 (requant_entries n cursor)))"

definition MODEL_CLASS_COUNT :: u32 where "MODEL_CLASS_COUNT = 6"

definition read_requant_manifest :: "file_system \<Rightarrow> string \<Rightarrow> bool \<Rightarrow> model_metadata option" where
  "read_requant_manifest fs model_dir text_malloc =
     (case join_path PATH_BYTES model_dir ''manifest.json'' of None \<Rightarrow> None
      | Some path \<Rightarrow> (case read_text_file fs path text_malloc of None \<Rightarrow> None
        | Some text \<Rightarrow> map_option
            (\<lambda>rq. \<lparr>md_class_count = MODEL_CLASS_COUNT, md_gap_divisor = 1,
                    md_rq_conv0 = rq ! 0, md_rq_conv1 = rq ! 1, md_rq_conv2 = rq ! 2\<rparr>)
            (requant_entries 3 text)))"

section \<open>The program\<close>

text \<open>What it meets. \<open>gold_pl\<close>: the memory after the PL has worked, by the registers and the status.\<close>

record golden_env =
  gold_files :: file_system
  gold_header_mallocs :: "bool \<times> bool"
  gold_text_malloc :: bool
  gold_weights_malloc :: "(nat \<Rightarrow> 8 word) option"
  gold_biases_malloc :: "(nat \<Rightarrow> u32) option"
  gold_stack_model :: model
  gold_stack_device :: device
  gold_open :: device_sys
  gold_memory :: "nat \<Rightarrow> 8 word"
  gold_driver :: classifier_dev
  gold_set_env :: ioctl_env
  gold_run_env :: ioctl_env
  gold_pl :: "classifier_dev \<Rightarrow> device_status \<Rightarrow> (nat \<Rightarrow> 8 word) \<Rightarrow> nat \<Rightarrow> 8 word"
  gold_mkdir :: bool

record golden_report =
  rp_status :: device_status
  rp_mismatch_count :: nat
  rp_first_mismatch :: "nat option"

record golden_end =
  end_code :: nat
  end_live :: nat
  end_process :: process
  end_report :: "golden_report option"

definition golden_timeout :: "string list \<Rightarrow> u32 option" where
  "golden_timeout argv =
     (if length argv \<ge> 5
      then (case strtoul10 (ascii (argv ! 4)) of None \<Rightarrow> None
            | Some (timeout, rest) \<Rightarrow> if timeout = 0 \<or> rest \<noteq> [] then None else Some timeout)
      else Some 2000)"

definition golden_inputs ::
  "golden_env \<Rightarrow> string list \<Rightarrow> (u32 \<times> 8 word list \<times> 8 word list \<times> model_metadata) option" where
  "golden_inputs env argv =
     (if length argv < 2 \<or> length argv > 5 then None
      else case golden_timeout argv of None \<Rightarrow> None
      | Some timeout \<Rightarrow>
      (case (join_path PATH_BYTES (argv ! 1) ''golden_input_98x98x3_int8.npy'',
             join_path PATH_BYTES (argv ! 1) ''golden_conv2_pool.npy'') of
        (Some input_path, Some expected_path) \<Rightarrow>
          (case (read_npy_int8 (gold_files env) input_path IFMAP_SIZE (fst (gold_header_mallocs env)),
                 read_npy_int8 (gold_files env) expected_path OUTPUT_SIZE (snd (gold_header_mallocs env))) of
             (Some input, Some expected) \<Rightarrow>
               map_option (\<lambda>md. (timeout, input, expected, md))
                 (read_requant_manifest (gold_files env) (argv ! 1) (gold_text_malloc env))
           | _ \<Rightarrow> None)
      | _ \<Rightarrow> None))"

definition compare_golden :: "(nat \<Rightarrow> 8 word) \<Rightarrow> 8 word list \<Rightarrow> nat \<times> nat option" where
  "compare_golden actual expected =
     for_loop OUTPUT_SIZE (\<lambda>i (mismatch_count, first_mismatch).
       if sint (actual i) \<noteq> sint (expected ! i)
       then (mismatch_count + 1, if first_mismatch = None then Some i else first_mismatch)
       else (mismatch_count, first_mismatch)) (0, None)"

text \<open>From the open device on; \<open>leave\<close> closes the device, unloads the model and ends.\<close>

definition golden_run ::
  "(u32 \<Rightarrow> u32) \<Rightarrow> golden_env \<Rightarrow> string \<Rightarrow> u32 \<Rightarrow> 8 word list \<Rightarrow> 8 word list \<Rightarrow> nat \<Rightarrow> model \<Rightarrow> process \<Rightarrow> device option
     \<Rightarrow> golden_end option" where
  "golden_run msecs env report_dir timeout input expected live model P dev =
     (let leave = (\<lambda>code report. Some \<lparr>end_code = code, end_live = fst (model_unload live model),
                     end_process = fst (device_close P (the dev)), end_report = report\<rparr>);
          mem = copy_to (device_ifmap dev) IFMAP_SIZE (\<lambda>i. input ! i) (gold_memory env);
          mem = copy_to (device_w_conv0 dev) W_CONV0_SIZE (m_w_conv0 model) mem;
          mem = copy_to (device_w_conv1 dev) W_CONV1_SIZE (m_w_conv1 model) mem;
          mem = copy_to (device_w_conv2 dev) W_CONV2_SIZE (m_w_conv2 model) mem;
          mem = copy_to (device_output dev) OUTPUT_SIZE (\<lambda>_. 0xa5) mem
      in case device_load_parameters msecs dev (Some (m_pl_parameters model)) (gold_set_env env) (gold_driver env) of
        (c, pstatus) \<Rightarrow>
      if pstatus \<noteq> Some DeviceOk then leave 1 None
      else case device_run msecs dev timeout (gold_run_env env) c of
        (c, None) \<Rightarrow> None
      | (c, Some run_status) \<Rightarrow>
          let mem = gold_pl env c run_status mem in
          if \<not> gold_mkdir env then leave 1 None
          else (case (join_path PATH_BYTES report_dir ''actual_output.bin'', join_path PATH_BYTES report_dir ''comparison.txt'') of
                  (Some _, Some _) \<Rightarrow>
                    (case compare_golden (\<lambda>i. mem (the (device_output dev) + i)) expected of
                       (mismatch_count, first_mismatch) \<Rightarrow>
                         leave (if run_status = DeviceOk \<and> mismatch_count = 0 then 0 else 1)
                           (Some \<lparr>rp_status = run_status, rp_mismatch_count = mismatch_count, rp_first_mismatch = first_mismatch\<rparr>))
                | _ \<Rightarrow> leave 1 None))"

definition golden_main :: "(u32 \<Rightarrow> u32) \<Rightarrow> golden_env \<Rightarrow> process \<Rightarrow> string list \<Rightarrow> golden_end option" where
  "golden_main msecs env P argv =
     (let fail = (\<lambda>live P. Some \<lparr>end_code = 1, end_live = live, end_process = P, end_report = None\<rparr>)
      in case golden_inputs env argv of None \<Rightarrow> fail 0 P
      | Some (timeout, input, expected, metadata) \<Rightarrow>
      case model_load (gold_files env) (gold_weights_malloc env) (gold_biases_malloc env) 0
             (model_init (Some (gold_stack_model env))) (Some (argv ! 1)) (Some metadata) of
        (live, mp, mstatus) \<Rightarrow>
      if mstatus \<noteq> ModelOk then fail live P
      else case device_open P (device_init (Some (gold_stack_device env)))
             (Some (if length argv \<ge> 3 then argv ! 2 else ''/dev/adas_classifier'')) (gold_open env) of
        (P, dev, dstatus) \<Rightarrow>
      if dstatus \<noteq> DeviceOk then fail (fst (model_unload live (the mp))) P
      else golden_run msecs env (if length argv \<ge> 4 then argv ! 3 else ''golden_report'') timeout input expected live (the mp) P dev)"

section \<open>The network within its sizes\<close>

lemma conv_valid_agree:
  assumes "\<And>y x c. y < oy + 3 \<Longrightarrow> x < ox + 3 \<Longrightarrow> c < in_ch \<Longrightarrow> img y x c = img' y x c"
    and "\<And>ky kx ic. ky < 3 \<Longrightarrow> kx < 3 \<Longrightarrow> ic < in_ch \<Longrightarrow> w oc ky kx ic = w' oc ky kx ic" "b oc = b' oc"
  shows "conv_valid in_ch img w b rq oy ox oc = conv_valid in_ch img' w' b' rq oy ox oc"
proof -
  have "conv_valid in_ch img w b rq oy ox oc = conv_valid in_ch img' w' b rq oy ox oc"
    by (rule conv_valid_cong) (use assms(1,2) in \<open>simp_all add: K_def\<close>)
  then show ?thesis by (simp add: conv_valid_def assms(3))
qed

lemma max_pool_agree:
  assumes "\<And>y x. y < 2 * n \<Longrightarrow> x < 2 * n \<Longrightarrow> f y x c = g y x c" "y < n" "x < n"
  shows "max_pool f y x c = max_pool g y x c"
  using assms by (simp add: max_pool_def)

lemma network_agree:
  assumes "\<And>y x c. y < 98 \<Longrightarrow> x < 98 \<Longrightarrow> c < 3 \<Longrightarrow> img y x c = img' y x c"
    and "layers_agree 16 3 3 3 l0 l0'" "layers_agree 32 3 3 16 l1 l1'" "layers_agree 64 3 3 32 l2 l2'"
    and "y < 12" "x < 12" "c < 64"
  shows "network img l0 l1 l2 y x c = network img' l0' l1' l2' y x c"
proof -
  let ?c0 = "\<lambda>img l. max_pool (conv_valid 3 img (\<lambda>oc ky kx ic. weights l oc ic ky kx) (biases l) (requantizer l))"
  let ?c1 = "\<lambda>f l. max_pool (conv_valid 16 (pad_same 48 f) (weights l) (biases l) (requantizer l))"
  have 0: "?c0 img l0 y x c = ?c0 img' l0' y x c" if "y < 48" "x < 48" "c < 16" for y x c
    using assms(1,2) that by (intro max_pool_agree [of 48]) (auto simp: layers_agree_def intro!: conv_valid_agree)
  have 1: "?c1 (?c0 img l0) l1 y x c = ?c1 (?c0 img' l0') l1' y x c" if "y < 24" "x < 24" "c < 32" for y x c
    using assms(3) that by (intro max_pool_agree [of 24])
      (auto simp: layers_agree_def intro!: conv_valid_agree pad_same_agree 0)
  have sizes: "C0_IN_CH = 3" "C1_IN_CH = 16" "C2_IN_CH = 32" "C1_SIZE = 48" "C2_SIZE = 24" by (simp_all add: layer_sizes)
  show ?thesis unfolding network_def Let_def sizes
    using assms(4-7) by (intro max_pool_agree [of 12])
      (auto simp: layers_agree_def intro!: conv_valid_agree pad_same_agree 1)
qed

section \<open>The comparison\<close>

lemma count_none:
  "fst (for_loop n (\<lambda>i (m, f). if P i then (m + 1, g i f) else (m, f)) (0 :: nat, f)) = 0 \<longleftrightarrow> (\<forall>i<n. \<not> P i)"
  by (induction n) (auto simp: less_Suc_eq split: prod.splits if_splits)

lemma compare_golden_none:
  "fst (compare_golden actual expected) = 0 \<longleftrightarrow> (\<forall>i<9216. actual i = expected ! i)"
proof -
  have "sint (actual i) \<noteq> sint (expected ! i) \<longleftrightarrow> actual i \<noteq> expected ! i" for i
    by (auto dest: signed_word_eqI)
  then show ?thesis unfolding compare_golden_def count_none by (simp add: OUTPUT_SIZE_def)
qed

lemma all_outputs:
  "(\<forall>i<9216. P (i div 64 div 12) (i div 64 mod 12) (i mod 64) i)
    \<longleftrightarrow> (\<forall>y<12. \<forall>x<12. \<forall>c<64. P y x c ((y * 12 + x) * 64 + c))" for P :: "nat \<Rightarrow> nat \<Rightarrow> nat \<Rightarrow> nat \<Rightarrow> bool"
proof (intro iffI allI impI)
  fix y x c :: nat
  assume all: "\<forall>i<9216. P (i div 64 div 12) (i div 64 mod 12) (i mod 64) i" and yxc: "y < 12" "x < 12" "c < 64"
  have "(y * 12 + x) * 64 + c < 9216" using row_major3 [OF yxc] by simp
  then show "P y x c ((y * 12 + x) * 64 + c)"
    using all [rule_format, of "(y * 12 + x) * 64 + c"] index_parts [OF yxc(2,3), of y] by simp
next
  fix i :: nat
  assume all: "\<forall>y<12. \<forall>x<12. \<forall>c<64. P y x c ((y * 12 + x) * 64 + c)" and i: "i < 9216"
  have "i div 64 div 12 < 12" using i by simp
  moreover have "(i div 64 div 12 * 12 + i div 64 mod 12) * 64 + i mod 64 = i" by simp
  ultimately show "P (i div 64 div 12) (i div 64 mod 12) (i mod 64) i" using all [rule_format, of "i div 64 div 12" "i div 64 mod 12" "i mod 64"] by simp
qed

section \<open>What a run tells\<close>

text \<open>The expected answer is what the network of the loaded model gives to the input.\<close>

definition golden_matches :: "8 word list \<Rightarrow> 8 word list \<Rightarrow> model \<Rightarrow> bool" where
  "golden_matches input expected md \<longleftrightarrow> (\<forall>y<12. \<forall>x<12. \<forall>c<64.
     network (byte3 input 98 3) (model_layer0 md) (model_layer1 md) (model_layer2 md) y x c = byte3 expected 12 64 y x c)"

lemma pl_engine_golden:
  assumes "unat (dma_handle c) + 0x13000 < 2 ^ 64" "c' = (configure_dma_addresses c)\<lparr>kexec := r\<rparr>"
    "registers_hold md r" "weights_hold md m" "\<And>i. i < 28812 \<Longrightarrow> m i = input ! i"
  shows "(\<forall>i<9216. pl_engine M c' m (0x10000 + i) = expected ! i) \<longleftrightarrow> golden_matches input expected md"
proof -
  have base: "reg_address (kargs c') REG_OUTPUT_LO REG_OUTPUT_HI - unat (dma_handle c') = 0x10000"
    unfolding assms(2) by (rule dma_reads [OF assms(1) refl])
  have rd: "dma_at c' m REG_IFMAP_LO REG_IFMAP_HI i = m i" for i
    unfolding assms(2) by (simp only: dma_reads [OF assms(1) refl])
  let ?net = "network (byte3 input 98 3) (model_layer0 md) (model_layer1 md) (model_layer2 md)"
  have net: "network (\<lambda>y x ch. m ((y * 98 + x) * 3 + ch)) (dma_layer0 c' m) (dma_layer1 c' m) (dma_layer2 c' m) y x ch
      = ?net y x ch" if "y < 12" "x < 12" "ch < 64" for y x ch
  proof (rule network_agree [OF _ dma_layers_agree [OF assms(1-4)] that])
    fix y x ch :: nat
    assume i: "y < 98" "x < 98" "ch < 3"
    then show "m ((y * 98 + x) * 3 + ch) = byte3 input 98 3 y x ch"
      using assms(5) row_major3 [OF i] by (simp add: byte3_def)
  qed
  have "pl_engine M c' m (0x10000 + i) = ?net (i div 64 div 12) (i div 64 mod 12) (i mod 64)" if "i < 9216" for i
  proof -
    have "i div 64 div 12 < 12" using that by simp
    then show ?thesis using that net [of "i div 64 div 12" "i div 64 mod 12" "i mod 64"]
      by (simp add: pl_engine_def Let_def base rd OUTPUT_SIZE_def engine_network)
  qed
  then have "(\<forall>i<9216. pl_engine M c' m (0x10000 + i) = expected ! i)
      \<longleftrightarrow> (\<forall>i<9216. ?net (i div 64 div 12) (i div 64 mod 12) (i mod 64) = expected ! i)" by simp
  also have "\<dots> \<longleftrightarrow> (\<forall>y<12. \<forall>x<12. \<forall>ch<64. ?net y x ch = expected ! ((y * 12 + x) * 64 + ch))"
    by (rule all_outputs [where P = "\<lambda>y x ch i. ?net y x ch = expected ! i"])
  finally show ?thesis by (simp only: golden_matches_def byte3_def [of expected])
qed

definition golden_verdict :: "8 word list \<Rightarrow> 8 word list \<Rightarrow> model \<Rightarrow> golden_end \<Rightarrow> bool" where
  "golden_verdict input expected md E \<longleftrightarrow> (case end_report E of None \<Rightarrow> end_code E = 1
     | Some r \<Rightarrow> end_code E = (if rp_status r = DeviceOk \<and> golden_matches input expected md then 0 else 1))"

text \<open>The driver takes the parameters of the model and reports DONE for the run.\<close>

definition device_answers :: "(u32 \<Rightarrow> u32) \<Rightarrow> golden_env \<Rightarrow> device option \<Rightarrow> u32 \<Rightarrow> model \<Rightarrow> bool" where
  "device_answers msecs env dev timeout md \<longleftrightarrow>
     (case device_load_parameters msecs dev (Some (m_pl_parameters md)) (gold_set_env env) (gold_driver env) of
        (c, st) \<Rightarrow> st = Some DeviceOk \<and> snd (device_run msecs dev timeout (gold_run_env env) c) = Some DeviceOk)"

text \<open>The directory of the report is made, and both of its paths fit.\<close>

definition report_possible :: "golden_env \<Rightarrow> string \<Rightarrow> bool" where
  "report_possible env report_dir \<longleftrightarrow> gold_mkdir env \<and> join_path PATH_BYTES report_dir ''actual_output.bin'' \<noteq> None
     \<and> join_path PATH_BYTES report_dir ''comparison.txt'' \<noteq> None"

text \<open>All that a pass takes: the arguments, arrays and manifest, the model, the device, its run, the report, and the answer.\<close>

definition golden_passes :: "(u32 \<Rightarrow> u32) \<Rightarrow> golden_env \<Rightarrow> process \<Rightarrow> string list \<Rightarrow> bool" where
  "golden_passes msecs env P argv \<longleftrightarrow> (\<exists>timeout input expected metadata live md P1 dev.
     golden_inputs env argv = Some (timeout, input, expected, metadata)
     \<and> model_load (gold_files env) (gold_weights_malloc env) (gold_biases_malloc env) 0
         (model_init (Some (gold_stack_model env))) (Some (argv ! 1)) (Some metadata) = (live, Some md, ModelOk)
     \<and> device_open P (device_init (Some (gold_stack_device env)))
         (Some (if length argv \<ge> 3 then argv ! 2 else ''/dev/adas_classifier'')) (gold_open env) = (P1, dev, DeviceOk)
     \<and> device_answers msecs env dev timeout md
     \<and> report_possible env (if length argv \<ge> 4 then argv ! 3 else ''golden_report'')
     \<and> golden_matches input expected md)"

lemma golden_run_result:
  assumes "dev_dma d \<noteq> None" "dev_span d = DMA_SPAN" "\<And>c. gold_pl env c DeviceOk = pl_engine M c"
    "unat (dma_handle (gold_driver env)) + 0x13000 < 2 ^ 64"
    and run: "golden_run msecs env report_dir timeout input expected live md P (Some d) = Some E"
  shows "end_live E = fst (model_unload live md)" "end_process E = fst (device_close P d)" "golden_verdict input expected md E"
    "end_code E = (if device_answers msecs env (Some d) timeout md \<and> report_possible env report_dir \<and> golden_matches input expected md
       then 0 else 1)"
proof -
  obtain a where a: "dev_dma d = Some a" using assms(1) by blast
  note at = open_buffers [OF a assms(2)]
  obtain c pst where lp: "device_load_parameters msecs (Some d) (Some (m_pl_parameters md)) (gold_set_env env) (gold_driver env) = (c, pst)"
    by fastforce
  obtain c' rst where dr: "device_run msecs (Some d) timeout (gold_run_env env) c = (c', rst)" by fastforce
  define mem where "mem = copy_to (Some 0x10000) OUTPUT_SIZE (\<lambda>_. 0xa5) (copy_to (Some 0xb000) W_CONV2_SIZE (m_w_conv2 md)
     (copy_to (Some 0x9000) W_CONV1_SIZE (m_w_conv1 md) (copy_to (Some 0x8000) W_CONV0_SIZE (m_w_conv0 md)
     (copy_to (Some 0) IFMAP_SIZE (\<lambda>i. input ! i) (gold_memory env)))))"
  have input: "mem i = input ! i" if "i < 28812" for i
    using that by (simp add: mem_def copy_to_def buffer_sizes)
  have weights: "weights_hold md mem" by (auto simp: mem_def copy_to_def buffer_sizes weights_hold_def)
  have same: "fst (compare_golden (\<lambda>i. gold_pl env c' DeviceOk mem (0x10000 + i)) expected) = 0 \<longleftrightarrow> golden_matches input expected md"
    if "pst = Some DeviceOk" "rst = Some DeviceOk"
  proof -
    note regs = loaded_registers [OF load_parameters_ok [OF lp [unfolded that(1)]] refl]
    have c': "c' = (configure_dma_addresses c)\<lparr>kexec := kexec c'\<rparr>"
      using run_ok [OF dr [unfolded that(2)]] by (cases "configure_dma_addresses c") simp
    have "registers_hold md (kexec c')"
      using registers_hold_cong [of "kexec c'" "kexec c"] run_keeps(3) [OF dr] regs(1) by auto
    then show ?thesis unfolding compare_golden_none assms(3)
      using assms(4) regs(3) by (intro pl_engine_golden [OF _ c' _ weights input]) simp_all
  qed
  note run = run [unfolded golden_run_def at option.sel Let_def lp dr prod.case, folded mem_def]
  show "end_live E = fst (model_unload live md)" "end_process E = fst (device_close P d)"
    using run by (auto split: if_splits option.splits prod.splits)
  show "golden_verdict input expected md E"
    using run same by (auto simp: golden_verdict_def split: if_splits option.splits prod.splits)
  have answers: "device_answers msecs env (Some d) timeout md \<longleftrightarrow> pst = Some DeviceOk \<and> rst = Some DeviceOk"
    by (simp add: device_answers_def lp dr)
  show "end_code E = (if device_answers msecs env (Some d) timeout md \<and> report_possible env report_dir \<and> golden_matches input expected md
       then 0 else 1)"
    unfolding answers report_possible_def using run same by (auto split: if_splits option.splits prod.splits)
qed

lemma golden_run_returns:
  "device_answers msecs env dev timeout md \<Longrightarrow> golden_run msecs env report_dir timeout input expected live md P dev \<noteq> None"
  by (auto simp: device_answers_def golden_run_def Let_def split: prod.splits option.splits)

text \<open>
  C20: The check on the board is exact. With a PL that computes \<open>classifier_top\<close> from its registers
  and the memory, the program returns success exactly when the arguments, the arrays and the manifest are good, the whole model was
  loaded, the device was opened, took the parameters and reported DONE, the directory of the report is there and its paths fit, and
  every byte of the exported answer is what the network of the loaded model gives to the exported input. Otherwise, when it
  returns, it returns failure. Every run that returns gives back all memory, mappings and descriptors. It succeeds
  only with a comparison made, and one is made only after the arrays, the manifest and the whole model were read.
\<close>

theorem board_golden_exact:
  assumes "\<And>c. gold_pl env c DeviceOk = pl_engine M c" "unat (dma_handle (gold_driver env)) + 0x13000 < 2 ^ 64"
  shows "(golden_passes msecs env P argv \<longleftrightarrow> (\<exists>E. golden_main msecs env P argv = Some E \<and> end_code E = 0))
    \<and> (\<forall>E. golden_main msecs env P argv = Some E \<longrightarrow> end_live E = 0 \<and> end_process E = P
      \<and> end_code E = (if golden_passes msecs env P argv then 0 else 1)
      \<and> (end_code E = 0 \<longrightarrow> end_report E \<noteq> None)
      \<and> (\<forall>r. end_report E = Some r \<longrightarrow>
          (\<exists>timeout input expected metadata live md. golden_inputs env argv = Some (timeout, input, expected, metadata)
             \<and> model_load (gold_files env) (gold_weights_malloc env) (gold_biases_malloc env) 0
                 (model_init (Some (gold_stack_model env))) (Some (argv ! 1)) (Some metadata) = (live, Some md, ModelOk)
             \<and> end_code E = (if rp_status r = DeviceOk \<and> golden_matches input expected md then 0 else 1))))"
proof (cases "golden_inputs env argv")
  case None
  then show ?thesis by (auto simp: golden_main_def golden_passes_def)
next
  case (Some q)
  obtain timeout input expected metadata where q: "q = (timeout, input, expected, metadata)" by (metis prod_cases4)
  obtain live mp mst where ml: "model_load (gold_files env) (gold_weights_malloc env) (gold_biases_malloc env) 0
      (model_init (Some (gold_stack_model env))) (Some (argv ! 1)) (Some metadata) = (live, mp, mst)" by (metis prod_cases3)
  obtain P1 dev dst where dv: "device_open P (device_init (Some (gold_stack_device env)))
      (Some (if length argv \<ge> 3 then argv ! 2 else ''/dev/adas_classifier'')) (gold_open env) = (P1, dev, dst)" by (metis prod_cases3)
  note load = load_stage [OF ml] and opened = open_stage [OF dv]
  note main = golden_main_def [of msecs env P argv, unfolded Let_def Some q option.case prod.case ml dv]
  show ?thesis
  proof (cases "mst = ModelOk \<and> dst = DeviceOk")
    case False
    then have "\<not> golden_passes msecs env P argv" using Some q ml dv by (auto simp: golden_passes_def)
    then show ?thesis using main load opened False by (auto simp: model_unload_null split: if_splits)
  next
    case True
    then obtain md d where md: "live = 2" "mp = Some md" "m_fc_weights md \<noteq> None" "m_fc_biases md \<noteq> None"
      and d: "dev = Some d" "dev_dma d \<noteq> None" "dev_span d = DMA_SPAN" "device_close P1 d = (P, device_null)"
      using load(2) opened(2) by (cases dev) auto
    let ?dir = "if length argv \<ge> 4 then argv ! 3 else ''golden_report''"
    have main: "golden_main msecs env P argv = golden_run msecs env ?dir timeout input expected live md P1 (Some d)"
      using main True md(2) d(1) by simp
    have passes: "golden_passes msecs env P argv \<longleftrightarrow>
        device_answers msecs env (Some d) timeout md \<and> report_possible env ?dir \<and> golden_matches input expected md"
      using Some q ml dv True md(2) d(1) by (simp add: golden_passes_def)
    have E: "end_live E = 0" "end_process E = P" "golden_verdict input expected md E" "end_code E = (if golden_passes msecs env P argv then 0 else 1)"
      if "golden_main msecs env P argv = Some E" for E
      using golden_run_result [OF d(2,3) assms that [unfolded main]] md d(4) by (simp_all add: model_unload_null passes)
    moreover have "golden_passes msecs env P argv \<Longrightarrow> \<exists>E. golden_main msecs env P argv = Some E"
      using golden_run_returns passes main by fastforce
    ultimately show ?thesis using Some q ml True md(2) by (fastforce simp: golden_verdict_def split: option.splits if_splits)
  qed
qed

text \<open>On the same files and requantisers the board and the testbench of the engine check the same.\<close>

lemma board_and_testbench_agree:
  assumes "read_export fs = Some f" "export_layers f = (l0, l1, l2)"
    and "\<forall>i<432. m_w_conv0 md i = f ! 2 ! i" "\<forall>i<4608. m_w_conv1 md i = f ! 3 ! i" "\<forall>i<18432. m_w_conv2 md i = f ! 4 ! i"
    and "\<forall>i<16. b_conv0 (m_pl_parameters md) i = le32 (f ! 5) i" "\<forall>i<32. b_conv1 (m_pl_parameters md) i = le32 (f ! 6) i"
      "\<forall>i<64. b_conv2 (m_pl_parameters md) i = le32 (f ! 7) i"
    and "rq_conv0 (m_pl_parameters md) = requantizer l0" "rq_conv1 (m_pl_parameters md) = requantizer l1"
      "rq_conv2 (m_pl_parameters md) = requantizer l2"
  shows "golden_matches (f ! 0) (f ! 1) md \<longleftrightarrow> tb_main (classifier_top M) (classifier_top M') fs = 0"
proof -
  have img: "copy_arr3 98 98 3 (byte3 (f ! 0) 98 3) y x c = byte3 (f ! 0) 98 3 y x c" if "y < 98" "x < 98" "c < 3" for y x c
    using that by (simp add: copy_arr3_def copy3)
  have idx: "((a * 3 + b) * 3 + c) * 3 + d < 432" if "a < 16" "b < 3" "c < 3" "d < 3" for a b c d :: nat using row_major4 [OF that] by simp
  have idx1: "((a * 3 + b) * 3 + c) * 16 + d < 4608" if "a < 32" "b < 3" "c < 3" "d < 16" for a b c d :: nat using row_major4 [OF that] by simp
  have idx2: "((a * 3 + b) * 3 + c) * 32 + d < 18432" if "a < 64" "b < 3" "c < 3" "d < 32" for a b c d :: nat using row_major4 [OF that] by simp
  have agree: "layers_agree 16 3 3 3 l0 (model_layer0 md)" "layers_agree 32 3 3 16 l1 (model_layer1 md)"
    "layers_agree 64 3 3 32 l2 (model_layer2 md)"
    using assms(2-) idx idx1 idx2
    by (auto simp: layers_agree_def export_layers_def model_layer0_def model_layer1_def model_layer2_def copy_arr4_def copy4
        copy_bias_def for_loop_write byte4_def layer_sizes K_def)
  have "network (copy_arr3 98 98 3 (byte3 (f ! 0) 98 3)) l0 l1 l2 y x c
      = network (byte3 (f ! 0) 98 3) (model_layer0 md) (model_layer1 md) (model_layer2 md) y x c" if "y < 12" "x < 12" "c < 64" for y x c
    by (rule network_agree [OF img agree that])
  then show ?thesis by (simp add: tb_main_golden [OF assms(1,2)] golden_matches_def)
qed

section \<open>An export that passes\<close>

text \<open>The array files that numpy writes are read back.\<close>

definition npy_header :: "8 word list" where
  "npy_header = npy_int8 @ [44, 32] @ npy_c_order"

definition npy_file :: "8 word list \<Rightarrow> disk_file" where
  "npy_file data = \<lparr>content = npy_magic @ [1, 0, word_of_nat (length npy_header), 0] @ npy_header @ data,
     read_fails = False, close_ok = True\<rparr>"

lemma npy_header_parts: "length npy_header = 38" "occurs npy_int8 npy_header" "occurs npy_c_order npy_header" "0 \<notin> set npy_header"
  by (simp_all add: npy_header_def npy_int8_def npy_c_order_def ascii_def)

lemma read_npy_file: "fs path = Some (npy_file data) \<Longrightarrow> read_npy_int8 fs path (length data) True = Some data"
proof -
  have h: "takeWhile (\<lambda>b. b \<noteq> 0) npy_header = npy_header" using npy_header_parts(4) by (auto simp: takeWhile_eq_all_conv)
  assume "fs path = Some (npy_file data)"
  then show ?thesis using npy_header_parts(1-3)
    by (simp add: read_npy_int8_def npy_file_def npy_magic_def Let_def h)
qed

definition example_manifest :: "8 word list" where
  "example_manifest = concat (replicate 3 (quoted ''requant_multiplier'' @ ascii '': 3,'' @ quoted ''requant_shift'' @ ascii '': 5,''))"

lemma example_requants: "requant_entries 3 example_manifest 
    = Some [\<lparr>rq_multiplier = 3, rq_shift = 5\<rparr>, \<lparr>rq_multiplier = 3, rq_shift = 5\<rparr>, \<lparr>rq_multiplier = 3, rq_shift = 5\<rparr>]"
  by code_simp

text \<open>All weights are zero, so the network gives zero to every input.\<close>

definition zero_layer :: "requant \<Rightarrow> layer" where
  "zero_layer rq = \<lparr>weights = (\<lambda>_ _ _ _. 0), biases = (\<lambda>_. 0), requantizer = rq\<rparr>"

lemma network_zero: "network img (zero_layer q0) (zero_layer q1) (zero_layer q2) y x c = 0"
proof -
  have "requant_relu_c0 0 q = 0" for q by (simp add: requant_relu_c0_def Let_def)
  then show ?thesis by (simp add: network_def Let_def zero_layer_def max_pool_def conv_valid_def pool4_def)
qed

definition zero_file :: "nat \<Rightarrow> disk_file" where
  "zero_file n = \<lparr>content = replicate n 0, read_fails = False, close_ok = True\<rparr>"

definition example_files :: file_system where
  "example_files = map_of
     ([(''m/golden_input_98x98x3_int8.npy'', npy_file (replicate IFMAP_SIZE 0)),
       (''m/golden_conv2_pool.npy'', npy_file (replicate OUTPUT_SIZE 0)),
       (''m/manifest.json'', \<lparr>content = example_manifest, read_fails = False, close_ok = True\<rparr>)]
      @ map (\<lambda>(name, n). (''m/'' @ name, zero_file n)) (model_files 6))"

definition example_metadata :: model_metadata where
  "example_metadata = (let q = \<lparr>rq_multiplier = 3, rq_shift = 5\<rparr>
     in \<lparr>md_class_count = MODEL_CLASS_COUNT, md_gap_divisor = 1, md_rq_conv0 = q, md_rq_conv1 = q, md_rq_conv2 = q\<rparr>)"

definition golden_example :: "engine_mem \<Rightarrow> golden_env" where
  "golden_example M = (let io = \<lparr>in_parameters = None, in_run = None, copy_out_ok = True, jiffies0 = 0, poll_rounds = [(2, 1)]\<rparr>
     in \<lparr>gold_files = example_files, gold_header_mallocs = (True, True), gold_text_malloc = True,
          gold_weights_malloc = Some (\<lambda>_. 9), gold_biases_malloc = Some (\<lambda>_. 9), gold_stack_model = model_null,
          gold_stack_device = device_null,
          gold_open = \<lparr>open_result = 3, info_result = Some driver_info, mmap_result = Some 0\<rparr>,
          gold_memory = (\<lambda>_. 7), gold_driver = cl_driver witness_state, gold_set_env = io, gold_run_env = io,
          gold_pl = (\<lambda>c st. pl_engine M c), gold_mkdir = True\<rparr>)"

lemma example_inputs:
  "golden_inputs (golden_example M) [''golden'', ''m''] = Some (2000, replicate IFMAP_SIZE 0, replicate OUTPUT_SIZE 0, example_metadata)"
proof -
  have p: "join_path PATH_BYTES ''m'' n = Some (''m/'' @ n)" if "length n < 100" for n
    using that by (simp add: join_path_def PATH_BYTES_def)
  have r: "read_npy_int8 example_files (''m/'' @ ''golden_input_98x98x3_int8.npy'') IFMAP_SIZE True = Some (replicate IFMAP_SIZE 0)"
    "read_npy_int8 example_files (''m/'' @ ''golden_conv2_pool.npy'') OUTPUT_SIZE True = Some (replicate OUTPUT_SIZE 0)"
    using read_npy_file [of example_files _ "replicate IFMAP_SIZE 0"] read_npy_file [of example_files _ "replicate OUTPUT_SIZE 0"]
    by (simp_all add: example_files_def)
  have z: "takeWhile (\<lambda>b. b \<noteq> 0) example_manifest = example_manifest"
    by (simp add: example_manifest_def quoted_def ascii_def numeral_3_eq_3)
  have m: "example_files ''m/manifest.json'' = Some \<lparr>content = example_manifest, read_fails = False, close_ok = True\<rparr>"
    by (simp add: example_files_def)
  show ?thesis
    by (simp add: golden_inputs_def golden_timeout_def golden_example_def Let_def p r [unfolded append_Cons append_Nil]
        read_requant_manifest_def read_text_file_def m z example_requants example_metadata_def)
qed

lemma example_model:
  obtains md where "model_load example_files (Some (\<lambda>_. 9)) (Some (\<lambda>_. 9)) 0 (model_init (Some model_null)) (Some ''m'')
      (Some example_metadata) = (2, Some md, ModelOk)"
    "m_fc_weights md \<noteq> None" "m_fc_biases md \<noteq> None"
    "golden_matches (replicate IFMAP_SIZE 0) (replicate OUTPUT_SIZE 0) md"
    "map (\<lambda>q. q (m_pl_parameters md)) [rq_conv0, rq_conv1, rq_conv2] = replicate 3 \<lparr>rq_multiplier = 3, rq_shift = 5\<rparr>"
proof -
  have meta: "md_class_count example_metadata = 6" "md_gap_divisor example_metadata = 1"
    by (simp_all add: example_metadata_def MODEL_CLASS_COUNT_def Let_def)
  have f: "make_path ''m'' n = Some (''m/'' @ n) \<and> example_files (''m/'' @ n) = Some (zero_file k)"
    if "(n, k) \<in> set (model_files 6)" for n k
    using that by (auto simp: model_files_def make_path_def PATH_CAPACITY_def example_files_def)
  have st: "chain_status example_files ''m'' (model_files 6) = ModelOk"
    unfolding chain_status_ok using f by (fastforce simp: zero_file_def)
  have bytes: "file_bytes example_files ''m'' n = replicate k 0" if "(n, k) \<in> set (model_files 6)" for n k
    using f [OF that] by (simp add: file_bytes_def zero_file_def)
  obtain live mp mst where ml: "model_load example_files (Some (\<lambda>_. 9)) (Some (\<lambda>_. 9)) 0 (Some model_null) (Some ''m'')
      (Some example_metadata) = (live, mp, mst)" by (metis prod_cases3)
  note r = model_load_result [where fs = example_files and mw = "Some (\<lambda>_. 9)" and mb = "Some (\<lambda>_. 9)" and live = 0
      and dir = "''m''" and md = example_metadata, unfolded ml prod.case meta]
  from r st obtain md where m: "mp = Some md" "mst = ModelOk" "live = 2" by (cases mp) auto
  have w: "f i = 0" if "map f [0..<n] = replicate n 0" "i < n" for f :: "nat \<Rightarrow> 8 word" and i n
    using that by (metis nth_map_upt nth_replicate diff_zero add_0)
  have le: "le32 (replicate n 0) i = 0" if "4 * i + 3 < n" for i n using that by (simp add: le32_def)
  have files: "file_bytes example_files ''m'' ''w_conv0.bin'' = replicate 432 0" "file_bytes example_files ''m'' ''w_conv1.bin'' = replicate 4608 0"
    "file_bytes example_files ''m'' ''w_conv2.bin'' = replicate 18432 0" "file_bytes example_files ''m'' ''b_conv0.bin'' = replicate 64 0"
    "file_bytes example_files ''m'' ''b_conv1.bin'' = replicate 128 0" "file_bytes example_files ''m'' ''b_conv2.bin'' = replicate 256 0"
    by (rule bytes, simp add: model_files_def)+
  have six: "unat (6 :: u32) = 6" by simp
  note r = r [unfolded m if_P [OF refl] option.sel files six, THEN conjunct2]
  have wm: "i < 432 \<Longrightarrow> m_w_conv0 md i = 0" "i < 4608 \<Longrightarrow> m_w_conv1 md i = 0" "i < 18432 \<Longrightarrow> m_w_conv2 md i = 0" for i
    using r w by blast+
  have bm: "i < 16 \<Longrightarrow> b_conv0 (m_pl_parameters md) i = 0" "i < 32 \<Longrightarrow> b_conv1 (m_pl_parameters md) i = 0"
    "i < 64 \<Longrightarrow> b_conv2 (m_pl_parameters md) i = 0" for i
    using r le [of i] by simp_all
  let ?z = "\<lambda>q. zero_layer (q (m_pl_parameters md))"
  have idx: "((a * 3 + b) * 3 + c) * 3 + d < 432" if "a < 16" "b < 3" "c < 3" "d < 3" for a b c d :: nat using row_major4 [OF that] by simp
  have idx1: "((a * 3 + b) * 3 + c) * 16 + d < 4608" if "a < 32" "b < 3" "c < 3" "d < 16" for a b c d :: nat using row_major4 [OF that] by simp
  have idx2: "((a * 3 + b) * 3 + c) * 32 + d < 18432" if "a < 64" "b < 3" "c < 3" "d < 32" for a b c d :: nat using row_major4 [OF that] by simp
  have agree: "layers_agree 16 3 3 3 (model_layer0 md) (?z rq_conv0)" "layers_agree 32 3 3 16 (model_layer1 md) (?z rq_conv1)"
    "layers_agree 64 3 3 32 (model_layer2 md) (?z rq_conv2)"
    using wm(1) [OF idx] wm(2) [OF idx1] wm(3) [OF idx2] bm
    by (simp_all add: layers_agree_def model_layer0_def model_layer1_def model_layer2_def zero_layer_def)
  have "network (byte3 (replicate IFMAP_SIZE 0) 98 3) (model_layer0 md) (model_layer1 md) (model_layer2 md) y x c = 0"
    if "y < 12" "x < 12" "c < 64" for y x c
    using network_agree [OF refl agree that, of "byte3 (replicate IFMAP_SIZE 0) 98 3"] network_zero by simp
  moreover have "byte3 (replicate OUTPUT_SIZE 0) 12 64 y x c = 0" if "y < 12" "x < 12" "c < 64" for y x c
    using row_major3 [OF that] by (simp add: byte3_def OUTPUT_SIZE_def)
  ultimately have "golden_matches (replicate IFMAP_SIZE 0) (replicate OUTPUT_SIZE 0) md" by (simp add: golden_matches_def)
  then show thesis using that ml r m by (simp add: model_init_def example_metadata_def numeral_3_eq_3 Let_def)
qed

lemma example_passes:
  obtains E where "golden_main (\<lambda>m. m) (golden_example M) P [''golden'', ''m''] = Some E" "end_report E \<noteq> None"
    "\<forall>r. end_report E = Some r \<longrightarrow> rp_status r = DeviceOk"
proof -
  obtain md where md: "model_load example_files (Some (\<lambda>_. 9)) (Some (\<lambda>_. 9)) 0 (model_init (Some model_null)) (Some ''m'')
      (Some example_metadata) = (2, Some md, ModelOk)"
    "map (\<lambda>q. q (m_pl_parameters md)) [rq_conv0, rq_conv1, rq_conv2] = replicate 3 \<lparr>rq_multiplier = 3, rq_shift = 5\<rparr>"
    by (rule example_model)
  then have q: "rq_conv0 (m_pl_parameters md) = \<lparr>rq_multiplier = 3, rq_shift = 5\<rparr>" "rq_conv1 (m_pl_parameters md) = \<lparr>rq_multiplier = 3, rq_shift = 5\<rparr>"
    "rq_conv2 (m_pl_parameters md) = \<lparr>rq_multiplier = 3, rq_shift = 5\<rparr>" by (simp_all add: numeral_3_eq_3)
  let ?env = "golden_example M"
  let ?d = "\<lparr>dev_fd = 3, dev_dma = Some 0, dev_span = DMA_SPAN\<rparr>"
  have dv: "device_open P (device_init (Some device_null)) (Some ''/dev/adas_classifier'') (gold_open ?env)
      = (P\<lparr>proc_fds := 3 # proc_fds P, proc_maps := (0, DMA_SPAN) # proc_maps P\<rparr>, Some ?d, DeviceOk)"
    by (simp add: device_open_def device_init_def device_null_def golden_example_def Let_def driver_info_def)
  obtain c where c: "device_load_parameters (\<lambda>m. m) (Some ?d) (Some (m_pl_parameters md)) (gold_set_env ?env) (gold_driver ?env) = (c, Some DeviceOk)"
    "parameters_set c"
    by (simp add: device_load_parameters_def classifier_ioctl_def set_parameters_def parameters_request_def requant_request_def q
        golden_example_def Let_def)
  obtain c' where c': "device_run (\<lambda>m. m) (Some ?d) 2000 (gold_run_env ?env) c = (c', Some DeviceOk)"
    using c(2) by (simp add: device_run_def classifier_ioctl_def run_classifier_def golden_example_def Let_def AP_DONE_def)
  have env: "gold_files ?env = example_files" "gold_weights_malloc ?env = Some (\<lambda>_. 9)" "gold_biases_malloc ?env = Some (\<lambda>_. 9)"
    "gold_stack_model ?env = model_null" "gold_stack_device ?env = device_null" "gold_mkdir ?env"
    by (simp_all add: golden_example_def Let_def)
  have "\<exists>E. golden_main (\<lambda>m. m) ?env P [''golden'', ''m''] = Some E \<and> end_report E \<noteq> None \<and> (\<forall>r. end_report E = Some r \<longrightarrow> rp_status r = DeviceOk)"
    by (simp add: golden_main_def golden_run_def example_inputs env md(1) dv c(1) c' Let_def join_path_def PATH_BYTES_def case_prod_beta)
  then show thesis using that by blast
qed


theorem board_golden_exact_witness:
  "\<forall>M P. \<exists>E. golden_main (\<lambda>m. m) (golden_example M) P [''golden'', ''m''] = Some E \<and> end_code E = 0 \<and> end_process E = P
     \<and> golden_passes (\<lambda>m. m) (golden_example M) P [''golden'', ''m'']"
proof (intro allI)
  fix M P
  obtain E where E: "golden_main (\<lambda>m. m) (golden_example M) P [''golden'', ''m''] = Some E" "end_report E \<noteq> None"
    "\<forall>r. end_report E = Some r \<longrightarrow> rp_status r = DeviceOk" by (rule example_passes)
  obtain md where md: "model_load example_files (Some (\<lambda>_. 9)) (Some (\<lambda>_. 9)) 0 (model_init (Some model_null)) (Some ''m'')
      (Some example_metadata) = (2, Some md, ModelOk)" "golden_matches (replicate IFMAP_SIZE 0) (replicate OUTPUT_SIZE 0) md"
    by (rule example_model)
  have env: "gold_pl (golden_example M) c DeviceOk = pl_engine M c" "unat (dma_handle (gold_driver (golden_example M))) + 0x13000 < 2 ^ 64"
    "gold_files (golden_example M) = example_files" "gold_weights_malloc (golden_example M) = Some (\<lambda>_. 9)"
    "gold_biases_malloc (golden_example M) = Some (\<lambda>_. 9)" "gold_stack_model (golden_example M) = model_null" for c
    by (simp_all add: golden_example_def witness_state_def Let_def)
  show "\<exists>E. golden_main (\<lambda>m. m) (golden_example M) P [''golden'', ''m''] = Some E \<and> end_code E = 0 \<and> end_process E = P
      \<and> golden_passes (\<lambda>m. m) (golden_example M) P [''golden'', ''m'']"
  proof -
    note exact = board_golden_exact [OF env(1,2), of "\<lambda>m. m" P "[''golden'', ''m'']"]
    have "end_code E = 0 \<and> end_process E = P" using exact [THEN conjunct2] E md by (auto simp: example_inputs env(3-6))
    then show ?thesis using exact [THEN conjunct1] E(1) by blast
  qed
qed

end
