(* ===== verification/Roi_Propose.thy ===== *)
theory Roi_Propose
  imports Roi_Crop Hls_Loops Subsequences
begin

text \<open>
  \<open>roi/RoiProposer\<close>: the picture is letterboxed into the network's 320 x 320 input, its 2100
  predictions are decoded into boxes of the picture, sorted by score and thinned out by greedy
  non-maximum suppression. The network (TensorRT) is an argument, \<open>infer\<close>; so is \<open>std::sort\<close>, which
  may put boxes of equal score in any order. None stands for what C++ leaves undefined, or the
  exception OpenCV throws on an empty size.
\<close>

section \<open>Configuration\<close>

definition kModelSize :: int where "kModelSize = 320"
definition kPredictionCount :: nat where "kPredictionCount = 2100"

record proposer_config =
  max_candidates :: nat
  confidence_threshold :: fp
  nms_iou_threshold :: fp
  engine_path :: string

definition ProposerConfig_default :: proposer_config where
  "ProposerConfig_default = \<lparr>max_candidates = 10, confidence_threshold = lit32 (1/10),
     nms_iou_threshold = lit32 (9/20), engine_path = []\<rparr>"

datatype proposer_error = InvalidArgument | RuntimeError

type_synonym infer = "fp list \<Rightarrow> fp list"

record proposer =
  pr_config :: proposer_config
  pr_engine :: "infer option"

text \<open>The constructor; \<open>load\<close> makes the engine of a path, None: it throws, or the build has none.\<close>

definition RoiProposer :: "(string \<Rightarrow> infer option) \<Rightarrow> proposer_config \<Rightarrow> proposer_error + proposer" where
  "RoiProposer load config =
     (if max_candidates config = 0 then Inl InvalidArgument
      else if fp_lt (confidence_threshold config) (Fin 0) \<or> fp_gt (confidence_threshold config) (Fin 1)
           \<or> fp_lt (nms_iou_threshold config) (Fin 0) \<or> fp_gt (nms_iou_threshold config) (Fin 1) then Inl InvalidArgument
      else if engine_path config = [] then Inr \<lparr>pr_config = config, pr_engine = None\<rparr>
      else (case load (engine_path config) of None \<Rightarrow> Inl RuntimeError
            | Some engine \<Rightarrow> Inr \<lparr>pr_config = config, pr_engine = Some engine\<rparr>))"

section \<open>Boxes\<close>

record decoded_box =
  dx1 :: fp
  dy1 :: fp
  dx2 :: fp
  dy2 :: fp
  dscore :: fp

definition intersection_over_union :: "decoded_box \<Rightarrow> decoded_box \<Rightarrow> fp" where
  "intersection_over_union a b =
     (let x1 = fp_max (dx1 a) (dx1 b);
          y1 = fp_max (dy1 a) (dy1 b);
          x2 = fp_min (dx2 a) (dx2 b);
          y2 = fp_min (dy2 a) (dy2 b);
          intersection = fmul32 (fp_max (Fin 0) (fsub32 x2 x1)) (fp_max (Fin 0) (fsub32 y2 y1));
          area_a = fmul32 (fsub32 (dx2 a) (dx1 a)) (fsub32 (dy2 a) (dy1 a));
          area_b = fmul32 (fsub32 (dx2 b) (dx1 b)) (fsub32 (dy2 b) (dy1 b));
          denominator = fsub32 (fadd32 area_a area_b) intersection
      in if fp_gt denominator (Fin 0) then fdiv32 intersection denominator else Fin 0)"

section \<open>Letterbox\<close>

definition fp_of_int :: "int \<Rightarrow> fp" where
  "fp_of_int n = round_fp binary32 (of_int n)"

definition nearbyint :: "fp \<Rightarrow> int option" where
  "nearbyint v = (case v of Fin x \<Rightarrow> ck (rne x) | _ \<Rightarrow> None)"

record letterbox =
  lb_scale :: fp
  lb_width :: int
  lb_height :: int
  lb_pad_x :: int
  lb_pad_y :: int

definition letterbox :: "int \<Rightarrow> int \<Rightarrow> letterbox option" where
  "letterbox w h = do {
     let scale = fp_min (fdiv32 (fp_of_int kModelSize) (fp_of_int w)) (fdiv32 (fp_of_int kModelSize) (fp_of_int h));
     resized_width \<leftarrow> nearbyint (fmul32 (fp_of_int w) scale);
     resized_height \<leftarrow> nearbyint (fmul32 (fp_of_int h) scale);
     let pad_x_float = fdiv32 (fp_of_int (kModelSize - resized_width)) (Fin 2);
     let pad_y_float = fdiv32 (fp_of_int (kModelSize - resized_height)) (Fin 2);
     pad_x \<leftarrow> nearbyint (fsub32 pad_x_float (lit32 (1/10)));
     pad_y \<leftarrow> nearbyint (fsub32 pad_y_float (lit32 (1/10)));
     if resized_width \<le> 0 \<or> resized_height \<le> 0 then None
     else Some \<lparr>lb_scale = scale, lb_width = resized_width, lb_height = resized_height, lb_pad_x = pad_x, lb_pad_y = pad_y\<rparr> }"

text \<open>The canvas: grey, with the resized picture copied in. None: the rectangle leaves the canvas.\<close>

definition canvas_px :: "letterbox \<Rightarrow> pixel_mat \<Rightarrow> int \<Rightarrow> int \<Rightarrow> nat \<Rightarrow> u8" where
  "canvas_px lb resized y x c =
     (if lb_pad_y lb \<le> y \<and> y < lb_pad_y lb + lb_height lb \<and> lb_pad_x lb \<le> x \<and> x < lb_pad_x lb + lb_width lb
      then px resized (y - lb_pad_y lb) (x - lb_pad_x lb) c else 114)"

definition canvas_fits :: "letterbox \<Rightarrow> bool" where
  "canvas_fits lb \<longleftrightarrow> 0 \<le> lb_pad_x lb \<and> lb_pad_x lb + lb_width lb \<le> kModelSize
     \<and> 0 \<le> lb_pad_y lb \<and> lb_pad_y lb + lb_height lb \<le> kModelSize"

text \<open>The three planes, red first.\<close>

definition input_planes :: "(int \<Rightarrow> int \<Rightarrow> nat \<Rightarrow> u8) \<Rightarrow> nat \<Rightarrow> fp" where
  "input_planes canvas =
     (let n = nat kModelSize; plane = n * n in
      for_loop n (\<lambda>y. for_loop n (\<lambda>x inp.
        let pixel = canvas (int y) (int x);
            off = y * n + x;
            inp = inp(0 * plane + off := fdiv32 (fp_of_int (uint (pixel 2))) (Fin 255));
            inp = inp(1 * plane + off := fdiv32 (fp_of_int (uint (pixel 1))) (Fin 255))
        in inp(2 * plane + off := fdiv32 (fp_of_int (uint (pixel 0))) (Fin 255)))) (\<lambda>_. Fin 0))"

text \<open>What the network is given: the picture resized, padded, and laid out as planes.\<close>

definition model_input :: "cv_lib \<Rightarrow> letterbox \<Rightarrow> pixel_mat \<Rightarrow> fp list" where
  "model_input cv lb bgr_frame =
     (let resized = cv_resize cv bgr_frame (lb_width lb) (lb_height lb)
      in map (input_planes (canvas_px lb resized)) [0..<3 * nat kModelSize * nat kModelSize])"

section \<open>Decoding\<close>

text \<open>A corner: \<open>(c - d / 2 - pad) / scale\<close>, clamped to the picture.\<close>

definition corner :: "fp \<Rightarrow> int \<Rightarrow> fp \<Rightarrow> int \<Rightarrow> fp" where
  "corner v pad scale limit = fp_clamp (fdiv32 (fsub32 v (fp_of_int pad)) scale) (Fin 0) (fp_of_int limit)"

definition decode_box :: "proposer_config \<Rightarrow> letterbox \<Rightarrow> int \<Rightarrow> int \<Rightarrow> fp list \<Rightarrow> nat \<Rightarrow> decoded_box option" where
  "decode_box config lb w h out i =
     (let sc = out ! (4 * kPredictionCount + i) in
      if fp_lt sc (confidence_threshold config) then None
      else let cx = out ! (0 * kPredictionCount + i);
               cy = out ! (1 * kPredictionCount + i);
               width = out ! (2 * kPredictionCount + i);
               height = out ! (3 * kPredictionCount + i);
               box = \<lparr>dx1 = corner (fsub32 cx (fdiv32 width (Fin 2))) (lb_pad_x lb) (lb_scale lb) w,
                      dy1 = corner (fsub32 cy (fdiv32 height (Fin 2))) (lb_pad_y lb) (lb_scale lb) h,
                      dx2 = corner (fadd32 cx (fdiv32 width (Fin 2))) (lb_pad_x lb) (lb_scale lb) w,
                      dy2 = corner (fadd32 cy (fdiv32 height (Fin 2))) (lb_pad_y lb) (lb_scale lb) h, dscore = sc\<rparr>
           in if fp_gt (dx2 box) (dx1 box) \<and> fp_gt (dy2 box) (dy1 box) then Some box else None)"

definition decode_boxes :: "proposer_config \<Rightarrow> letterbox \<Rightarrow> int \<Rightarrow> int \<Rightarrow> fp list \<Rightarrow> decoded_box list" where
  "decode_boxes config lb w h out =
     for_loop kPredictionCount (\<lambda>i boxes. case decode_box config lb w h out i of
        None \<Rightarrow> boxes | Some box \<Rightarrow> boxes @ [box]) []"

section \<open>Suppression\<close>

definition candidate_of :: "u32 \<Rightarrow> nat \<Rightarrow> decoded_box \<Rightarrow> roi_candidate" where
  "candidate_of frame_id n box = \<lparr>k_frame_id = frame_id, k_roi_id = word_of_nat n,
     object_bbox = \<lparr>bb_x = dx1 box, bb_y = dy1 box, bb_width = fsub32 (dx2 box) (dx1 box),
       bb_height = fsub32 (dy2 box) (dy1 box)\<rparr>, k_objectness = dscore box\<rparr>"

definition kept_box :: "roi_candidate \<Rightarrow> decoded_box" where
  "kept_box kept = (let b = object_bbox kept in \<lparr>dx1 = bb_x b, dy1 = bb_y b,
     dx2 = fadd32 (bb_x b) (bb_width b), dy2 = fadd32 (bb_y b) (bb_height b), dscore = k_objectness kept\<rparr>)"

definition suppressed :: "fp \<Rightarrow> decoded_box \<Rightarrow> roi_candidate list \<Rightarrow> bool" where
  "suppressed threshold box proposals \<longleftrightarrow>
     list_ex (\<lambda>kept. fp_gt (intersection_over_union box (kept_box kept)) threshold) proposals"

fun nms :: "proposer_config \<Rightarrow> u32 \<Rightarrow> decoded_box list \<Rightarrow> roi_candidate list \<Rightarrow> roi_candidate list" where
  "nms config frame_id [] proposals = proposals"
| "nms config frame_id (box # boxes) proposals =
     (if suppressed (nms_iou_threshold config) box proposals then nms config frame_id boxes proposals
      else let proposals = proposals @ [candidate_of frame_id (length proposals) box]
           in if length proposals = max_candidates config then proposals
              else nms config frame_id boxes proposals)"

definition propose ::
  "cv_lib \<Rightarrow> (decoded_box list \<Rightarrow> decoded_box list) \<Rightarrow> proposer \<Rightarrow> pixel_mat \<Rightarrow> u32 \<Rightarrow> roi_candidate list option" where
  "propose cv sort_boxes p bgr_frame frame_id =
     (if mat_empty bgr_frame \<or> \<not> is_8uc3 bgr_frame then Some []
      else case pr_engine p of None \<Rightarrow> Some []
      | Some infer \<Rightarrow> do {
          lb \<leftarrow> letterbox (cols bgr_frame) (rows bgr_frame);
          if \<not> canvas_fits lb then None
          else do {
            let out = infer (model_input cv lb bgr_frame);
            if length out < 5 * kPredictionCount then None
            else Some (nms (pr_config p) frame_id
              (sort_boxes (decode_boxes (pr_config p) lb (cols bgr_frame) (rows bgr_frame) out)) []) } })"

section \<open>The letterbox fits\<close>

lemma fp_of_int_exact: "0 < n \<Longrightarrow> n \<le> 2 ^ 24 \<Longrightarrow> fp_of_int n = Fin (of_int n)"
  using round32_dyadic [of n 1] by (simp add: fp_of_int_def)

lemma fp_of_int_0 [simp]: "fp_of_int 0 = Fin 0"
  by (simp add: fp_of_int_def)

lemma quotient_bounds:
  assumes "1 \<le> w" "w \<le> 2 ^ 14"
  obtains q where "fdiv32 (fp_of_int kModelSize) (fp_of_int w) = Fin q" "0 < q"
    "of_int w * q \<le> 320 + 1/10" "320 - 1/10 \<le> of_int w * q" "q \<le> 321"
proof -
  define W :: rat where "W = of_int w"
  have W: "1 \<le> W" "W \<le> 2 ^ 14" using assms of_int_le_iff [where ?'a = rat, of w "2 ^ 14"] by (simp_all add: W_def)
  obtain q where q: "fdiv32 (fp_of_int kModelSize) (fp_of_int w) = Fin q" "\<bar>W * q - 320\<bar> \<le> 1/10" "0 < q" "q \<le> 321"
  proof -
    have eq: "fdiv32 (fp_of_int kModelSize) (fp_of_int w) = round_fp binary32 (320 / W)"
      using assms by (simp add: fp_of_int_exact kModelSize_def W_def)
    consider "W \<le> 2 ^ 9" | "2 ^ 9 < W" by linarith
    then show thesis
    proof cases
      case 1
      have "\<bar>320 / W\<bar> < 512" using W(1) by (simp add: divide_less_eq)
      from fl_error [OF this, of 9] obtain q where q: "round_fp binary32 (320 / W) = Fin q"
        "q \<le> 320 / W + 2 ^ 9 / 2 ^ 25" "320 / W - 2 ^ 9 / 2 ^ 25 \<le> q" by auto
      have "W * q \<le> W * (320 / W + 2 ^ 9 / 2 ^ 25)" "W * (320 / W - 2 ^ 9 / 2 ^ 25) \<le> W * q"
        using q W(1) by (simp_all only: mult_left_mono order_trans [OF zero_le_one])
      then have "W * q \<le> 320 + W * (2 ^ 9 / 2 ^ 25)" "320 - W * (2 ^ 9 / 2 ^ 25) \<le> W * q"
        using W(1) by (simp_all only: distrib_left right_diff_distrib) simp_all
      then have "W * q - 320 \<le> 1/10" "- (W * q - 320) \<le> 1/10" using 1 by simp_all
      then have "\<bar>W * q - 320\<bar> \<le> 1/10" by (rule abs_leI)
      moreover have "320 / W \<le> 320" "320 / 2 ^ 9 \<le> 320 / W" using 1 W(1) by (simp_all add: divide_simps)
      ultimately show thesis using that [of q] q eq by simp
    next
      case 2
      have "\<bar>320 / W\<bar> < 1" using 2 by (simp add: divide_less_eq)
      from fl_error [OF this, of 0] obtain q where q: "round_fp binary32 (320 / W) = Fin q"
        "q \<le> 320 / W + 1 / 2 ^ 25" "320 / W - 1 / 2 ^ 25 \<le> q" by auto
      have "W * q \<le> W * (320 / W + 1 / 2 ^ 25)" "W * (320 / W - 1 / 2 ^ 25) \<le> W * q"
        using q W(1) by (simp_all only: mult_left_mono order_trans [OF zero_le_one])
      then have "W * q \<le> 320 + W * (1 / 2 ^ 25)" "320 - W * (1 / 2 ^ 25) \<le> W * q"
        using W(1) by (simp_all only: distrib_left right_diff_distrib) simp_all
      then have "W * q - 320 \<le> 1/10" "- (W * q - 320) \<le> 1/10" using W(2) by simp_all
      then have "\<bar>W * q - 320\<bar> \<le> 1/10" by (rule abs_leI)
      moreover have "320 / W \<le> 320" "320 / 2 ^ 14 \<le> 320 / W" using W by (simp_all add: divide_simps)
      ultimately show thesis using that [of q] q eq by simp
    qed
  qed
  from abs_le_D1 [OF q(2)] abs_le_D2 [OF q(2)] show thesis using that [of q] q by (simp add: W_def)
qed

text \<open>The padding before a resized side of \<open>r\<close> is the smaller half of what is left.\<close>

lemma pad_half:
  assumes "1 \<le> r" "r \<le> 320"
  shows "nearbyint (fsub32 (fdiv32 (fp_of_int (kModelSize - r)) (Fin 2)) (lit32 (1/10))) = Some ((320 - r) div 2)"
proof -
  define n where "n = 320 - r"
  have n: "0 \<le> n" "n < 320" using assms by (simp_all add: n_def)
  have "fp_of_int n = Fin (of_int n)" using n fp_of_int_exact [of n] by (cases "n = 0") simp_all
  moreover have "round_fp binary32 (of_int n / 2) = Fin (of_int n / 2)"
    using round32_dyadic [of n 2] n by simp
  ultimately have half: "fdiv32 (fp_of_int n) (Fin 2) = Fin (of_int n / 2)" by simp
  have n': "0 \<le> (of_int n :: rat)" "of_int n \<le> (319 :: rat)"
    using n of_int_le_iff [where ?'a = rat, of n 319] by simp_all
  then have "\<bar>of_int n / 2 - 13421773/134217728 :: rat\<bar> < 256" by (simp add: abs_less_iff)
  from fl_error [OF this, of 8] obtain v where v: "round_fp binary32 (of_int n / 2 - 13421773/134217728) = Fin v"
    "v \<le> of_int n / 2 - 13421773/134217728 + 256 / 2 ^ 25" "of_int n / 2 - 13421773/134217728 - 256 / 2 ^ 25 \<le> v" by auto
  have d: "of_int n = (2 * of_int (n div 2) + of_int (n mod 2) :: rat)"
    by (metis mult_div_mod_eq of_int_add of_int_mult of_int_numeral)
  have near: "v \<le> of_int n / 2 - 9/100" "of_int n / 2 - 11/100 \<le> v" using v(2,3) by simp_all
  have "n mod 2 = 0 \<or> n mod 2 = 1" by auto
  then have "of_int (n mod 2) = (0 :: rat) \<or> of_int (n mod 2) = (1 :: rat)" by auto
  then have "v - of_int (n div 2) < 1/2" "- (v - of_int (n div 2)) < 1/2" using near d by (elim disjE; linarith)+
  then have "\<bar>v - of_int (n div 2)\<bar> < 1/2" by (rule abs_less_iff [THEN iffD2, OF conjI])
  then have "rne v = n div 2" by (rule rne_eqI)
  then show ?thesis using half v(1) n
    by (simp add: nearbyint_def kModelSize_def n_def [symmetric] fp_sub_def)
qed

lemma resized_side:
  assumes "1 \<le> w" "w \<le> 2 ^ 14" "0 < q" "of_int w * q \<le> 320 + 1/10" "9/10 \<le> of_int w * q"
  obtains r where "nearbyint (fmul32 (fp_of_int w) (Fin q)) = Some r" "1 \<le> r" "r \<le> 320"
proof -
  have "\<bar>of_int w * q\<bar> < 512" using assms(4,5) by simp
  from fl_error [OF this, of 9] obtain v where v: "round_fp binary32 (of_int w * q) = Fin v"
    "v \<le> of_int w * q + 2 ^ 9 / 2 ^ 25" "of_int w * q - 2 ^ 9 / 2 ^ 25 \<le> v" by auto
  have lo: "of_int 1 - 1/2 < v" and hi: "v < of_int 320 + 1/2" using v(2,3) assms(4,5) by simp_all
  have "1 \<le> rne v"
  proof -
    have "of_int 0 + 1/2 < v" using lo by simp
    then have "of_int (rne v) > (0 :: rat)" using rne_ge [of v] by simp
    then show ?thesis by simp
  qed
  moreover have "rne v \<le> 320"
  proof -
    have "of_int (rne v) < (321 :: rat)" using rne_le [of v] hi by simp
    then show ?thesis using of_int_less_iff [where ?'a = rat, of "rne v" 321] by simp
  qed
  moreover have "nearbyint (fmul32 (fp_of_int w) (Fin q)) = Some (rne v)"
    using assms(1,2) v(1) calculation by (simp add: fp_of_int_exact nearbyint_def)
  ultimately show thesis using that by blast
qed

lemma letterbox_fits:
  assumes "1 \<le> w" "w \<le> 2 ^ 14" "1 \<le> h" "h \<le> 2 ^ 14" "w \<le> 320 * h" "h \<le> 320 * w"
  obtains lb where "letterbox w h = Some lb" "canvas_fits lb" "1 \<le> lb_width lb" "1 \<le> lb_height lb"
proof -
  obtain p where p: "fdiv32 (fp_of_int kModelSize) (fp_of_int w) = Fin p" "0 < p"
    "of_int w * p \<le> 320 + 1/10" "320 - 1/10 \<le> of_int w * p" by (rule quotient_bounds [OF assms(1,2)])
  obtain q where q: "fdiv32 (fp_of_int kModelSize) (fp_of_int h) = Fin q" "0 < q"
    "of_int h * q \<le> 320 + 1/10" "320 - 1/10 \<le> of_int h * q" by (rule quotient_bounds [OF assms(3,4)])
  define s where "s = min p q"
  have scale: "fp_min (Fin p) (Fin q) = Fin s" by (simp add: fp_min_def s_def min_def)
  have W: "1 \<le> (of_int w :: rat)" "of_int w \<le> (320 * of_int h :: rat)" and H: "1 \<le> (of_int h :: rat)" "of_int h \<le> (320 * of_int w :: rat)"
    using assms of_int_le_iff [where ?'a = rat, of w "320 * h"] of_int_le_iff [where ?'a = rat, of h "320 * w"] by simp_all
  have up: "of_int w * s \<le> 320 + 1/10" "of_int h * s \<le> 320 + 1/10"
  proof -
    have "of_int w * s \<le> of_int w * p" "of_int h * s \<le> of_int h * q"
      using W(1) H(1) by (auto simp: s_def intro!: mult_left_mono)
    then show "of_int w * s \<le> 320 + 1/10" "of_int h * s \<le> 320 + 1/10" using p(3) q(3) by linarith+
  qed
  have "9/10 \<le> of_int w * s \<and> 9/10 \<le> of_int h * s"
  proof (cases "p \<le> q")
    case True
    have "of_int w * p \<le> 320 * of_int h * p" using W(2) p(2) by (intro mult_right_mono) simp_all
    then show ?thesis using True p(4) by (simp add: s_def)
  next
    case False
    have "of_int h * q \<le> 320 * of_int w * q" using H(2) q(2) by (intro mult_right_mono) simp_all
    then show ?thesis using False q(4) by (simp add: s_def)
  qed
  then have low: "9/10 \<le> of_int w * s" "9/10 \<le> of_int h * s" by simp_all
  have s0: "0 < s" using p(2) q(2) by (simp add: s_def)
  obtain a where a: "nearbyint (fmul32 (fp_of_int w) (Fin s)) = Some a" "1 \<le> a" "a \<le> 320"
    by (rule resized_side [OF assms(1,2) s0 up(1) low(1)])
  obtain b where b: "nearbyint (fmul32 (fp_of_int h) (Fin s)) = Some b" "1 \<le> b" "b \<le> 320"
    by (rule resized_side [OF assms(3,4) s0 up(2) low(2)])
  have "letterbox w h = Some \<lparr>lb_scale = Fin s, lb_width = a, lb_height = b,
      lb_pad_x = (320 - a) div 2, lb_pad_y = (320 - b) div 2\<rparr>"
    using a b by (simp add: letterbox_def p(1) q(1) scale pad_half [unfolded lit32_simps] Let_def)
  then show thesis by (rule that) (use a b in \<open>auto simp: canvas_fits_def kModelSize_def\<close>)
qed

section \<open>Decoded boxes lie in the picture\<close>

definition box_in :: "int \<Rightarrow> int \<Rightarrow> decoded_box \<Rightarrow> bool" where
  "box_in w h b \<longleftrightarrow> (\<exists>x1 y1 x2 y2. dx1 b = Fin x1 \<and> dy1 b = Fin y1 \<and> dx2 b = Fin x2 \<and> dy2 b = Fin y2
     \<and> 0 \<le> x1 \<and> x1 < x2 \<and> x2 \<le> of_int w \<and> 0 \<le> y1 \<and> y1 < y2 \<and> y2 \<le> of_int h
     \<and> list_all (\<lambda>c. fp_ok binary32 (Fin c)) [x1, y1, x2, y2])"

lemma fp_ok_arith [simp]:
  "0 < prec F \<Longrightarrow> fp_ok F (fp_add F a b)" "0 < prec F \<Longrightarrow> fp_ok F (fp_sub F a b)" "0 < prec F \<Longrightarrow> fp_ok F (fp_div F a b)"
  using fp_ok_round [of F]
  by (cases a; cases b; simp add: fp_sub_def signed_inf_def)+

lemma corner_ok: "fp_ok binary32 (corner v pad sc limit)"
proof -
  have "fp_ok binary32 (fp_of_int limit)" by (simp add: fp_of_int_def fp_ok_round)
  then show ?thesis by (simp add: corner_def fp_clamp_def del: fp_ok_simps) simp
qed

lemma corner_range:
  assumes "1 \<le> limit" "limit \<le> 2 ^ 24" "corner v pad sc limit \<noteq> NaN"
  obtains c where "corner v pad sc limit = Fin c" "0 \<le> c" "c \<le> of_int limit"
proof -
  have l: "fp_of_int limit = Fin (of_int limit)" using assms by (simp add: fp_of_int_exact)
  show thesis using assms that
    by (cases "fdiv32 (fsub32 v (fp_of_int pad)) sc") (auto simp: corner_def l fp_clamp_def split: if_splits)
qed

lemma decode_box_in:
  assumes "decode_box config lb w h out i = Some b" "1 \<le> w" "w \<le> 2 ^ 24" "1 \<le> h" "h \<le> 2 ^ 24"
  shows "box_in w h b" "dscore b = out ! (4 * kPredictionCount + i)" "\<not> fp_lt (dscore b) (confidence_threshold config)"
proof -
  have lt: "fp_lt (dx1 b) (dx2 b)" "fp_lt (dy1 b) (dy2 b)"
    using assms(1) by (auto simp: decode_box_def Let_def split: if_splits)
  obtain v1 v2 v3 v4 p q sc where b: "dx1 b = corner v1 p sc w" "dx2 b = corner v2 p sc w"
      "dy1 b = corner v3 q sc h" "dy2 b = corner v4 q sc h"
    using assms(1) by (auto simp: decode_box_def Let_def split: if_splits)
  have nn: "dx1 b \<noteq> NaN" "dx2 b \<noteq> NaN" "dy1 b \<noteq> NaN" "dy2 b \<noteq> NaN" using lt by auto
  obtain x1 where x1: "dx1 b = Fin x1" "0 \<le> x1" "x1 \<le> of_int w" using corner_range [OF assms(2,3)] nn(1) b(1) by metis
  obtain x2 where x2: "dx2 b = Fin x2" "0 \<le> x2" "x2 \<le> of_int w" using corner_range [OF assms(2,3)] nn(2) b(2) by metis
  obtain y1 where y1: "dy1 b = Fin y1" "0 \<le> y1" "y1 \<le> of_int h" using corner_range [OF assms(4,5)] nn(3) b(3) by metis
  obtain y2 where y2: "dy2 b = Fin y2" "0 \<le> y2" "y2 \<le> of_int h" using corner_range [OF assms(4,5)] nn(4) b(4) by metis
  have ok: "fp_ok binary32 (Fin x1)" "fp_ok binary32 (Fin x2)" "fp_ok binary32 (Fin y1)" "fp_ok binary32 (Fin y2)"
    using b x1(1) x2(1) y1(1) y2(1) corner_ok by metis+
  show "box_in w h b" unfolding box_in_def using x1 x2 y1 y2 lt ok by auto
  show "dscore b = out ! (4 * kPredictionCount + i)" "\<not> fp_lt (dscore b) (confidence_threshold config)"
    using assms(1) by (auto simp: decode_box_def Let_def split: if_splits)
qed

lemma decode_boxes_filter: "decode_boxes config lb w h out = List.map_filter (decode_box config lb w h out) [0..<kPredictionCount]"
proof -
  have "for_loop n (\<lambda>i boxes. case f i of None \<Rightarrow> boxes | Some box \<Rightarrow> boxes @ [box]) [] = List.map_filter f [0..<n]"
    for f :: "nat \<Rightarrow> decoded_box option" and n
    by (induction n) (auto simp: map_filter_def split: option.split)
  then show ?thesis by (simp add: decode_boxes_def)
qed

lemma decode_boxes_in:
  assumes "b \<in> set (decode_boxes config lb w h out)" "1 \<le> w" "w \<le> 2 ^ 24" "1 \<le> h" "h \<le> 2 ^ 24"
  shows "box_in w h b" "\<exists>i < kPredictionCount. dscore b = out ! (4 * kPredictionCount + i)"
    "\<not> fp_lt (dscore b) (confidence_threshold config)"
proof -
  obtain i where "i < kPredictionCount" "decode_box config lb w h out i = Some b"
    using assms(1) by (auto simp: decode_boxes_filter map_filter_def split: option.splits)
  with decode_box_in [OF this(2) assms(2-)] show "box_in w h b" "\<exists>i < kPredictionCount. dscore b = out ! (4 * kPredictionCount + i)"
    "\<not> fp_lt (dscore b) (confidence_threshold config)" by auto
qed

section \<open>Greedy suppression\<close>

definition score_ge :: "decoded_box \<Rightarrow> decoded_box \<Rightarrow> bool" where
  "score_ge a b \<longleftrightarrow> \<not> fp_lt (dscore a) (dscore b)"

text \<open>\<open>std::sort\<close> by descending score: defined when no score is NaN, and then some sorted permutation.\<close>

definition sort_ok :: "(decoded_box list \<Rightarrow> decoded_box list) \<Rightarrow> bool" where
  "sort_ok sort_boxes \<longleftrightarrow> (\<forall>bs. (\<forall>b \<in> set bs. dscore b \<noteq> NaN) \<longrightarrow>
     mset (sort_boxes bs) = mset bs \<and> sorted_wrt score_ge (sort_boxes bs))"

definition candidates_of :: "u32 \<Rightarrow> decoded_box list \<Rightarrow> roi_candidate list" where
  "candidates_of frame_id ks = map (\<lambda>i. candidate_of frame_id i (ks ! i)) [0..<length ks]"

definition overlaps :: "fp \<Rightarrow> decoded_box \<Rightarrow> decoded_box \<Rightarrow> bool" where
  "overlaps threshold b k \<longleftrightarrow> fp_gt (intersection_over_union b (kept_box (candidate_of 0 0 k))) threshold"

lemma candidates_of_simps [simp]:
  "length (candidates_of f ks) = length ks" "candidates_of f [] = []"
  "candidates_of f ks @ [candidate_of f (length ks) b] = candidates_of f (ks @ [b])"
  by (simp_all add: candidates_of_def nth_append)

lemma kept_box_candidate: "kept_box (candidate_of f n k) = kept_box (candidate_of 0 0 k)"
  by (simp add: kept_box_def candidate_of_def)

lemma suppressed_iff: "suppressed threshold b (candidates_of f ks) \<longleftrightarrow> (\<exists>k \<in> set ks. overlaps threshold b k)"
proof -
  have "suppressed threshold b (candidates_of f ks) \<longleftrightarrow> (\<exists>i < length ks. overlaps threshold b (ks ! i))"
    unfolding suppressed_def candidates_of_def overlaps_def list_ex_iff set_map bex_simps kept_box_candidate [of f]
    by auto
  also have "\<dots> \<longleftrightarrow> (\<exists>k \<in> set ks. overlaps threshold b k)"
    by (metis in_set_conv_nth)
  finally show ?thesis .
qed

text \<open>What is kept, and why the rest is not.\<close>

definition nms_result :: "proposer_config \<Rightarrow> decoded_box list \<Rightarrow> decoded_box list \<Rightarrow> bool" where
  "nms_result config boxes ks \<longleftrightarrow> length ks \<le> max_candidates config
     \<and> sorted_wrt (\<lambda>k b. \<not> overlaps (nms_iou_threshold config) b k) ks
     \<and> (\<forall>b \<in> set boxes. b \<in> set ks
          \<or> (\<exists>k \<in> set ks. score_ge k b \<and> overlaps (nms_iou_threshold config) b k)
          \<or> (length ks = max_candidates config \<and> (\<forall>k \<in> set ks. score_ge k b)))"

lemma nms_result_step:
  assumes "sorted_wrt score_ge (ks @ boxes)" "length ks < max_candidates config"
    and "sorted_wrt (\<lambda>k b. \<not> overlaps (nms_iou_threshold config) b k) ks"
  shows "\<exists>ls. nms config f boxes (candidates_of f ks) = candidates_of f (ks @ ls) \<and> subseq ls boxes
    \<and> length (ks @ ls) \<le> max_candidates config
    \<and> sorted_wrt (\<lambda>k b. \<not> overlaps (nms_iou_threshold config) b k) (ks @ ls)
    \<and> (\<forall>b \<in> set boxes. b \<in> set ls \<or> (\<exists>k \<in> set (ks @ ls). score_ge k b \<and> overlaps (nms_iou_threshold config) b k)
        \<or> (length (ks @ ls) = max_candidates config \<and> (\<forall>k \<in> set (ks @ ls). score_ge k b)))"
  using assms
proof (induction boxes arbitrary: ks)
  case Nil
  then show ?case by (intro exI [of _ "[]"]) simp
next
  case (Cons b boxes)
  show ?case
  proof (cases "suppressed (nms_iou_threshold config) b (candidates_of f ks)")
    case True
    have "sorted_wrt score_ge (ks @ boxes)" using Cons.prems(1) by (simp add: sorted_wrt_append)
    from Cons.IH [OF this Cons.prems(2,3)] obtain ls where
      ls: "nms config f boxes (candidates_of f ks) = candidates_of f (ks @ ls)" "subseq ls boxes"
      "length (ks @ ls) \<le> max_candidates config"
      "sorted_wrt (\<lambda>k b. \<not> overlaps (nms_iou_threshold config) b k) (ks @ ls)"
      "\<forall>b \<in> set boxes. b \<in> set ls \<or> (\<exists>k \<in> set (ks @ ls). score_ge k b \<and> overlaps (nms_iou_threshold config) b k)
        \<or> (length (ks @ ls) = max_candidates config \<and> (\<forall>k \<in> set (ks @ ls). score_ge k b))" by blast
    moreover have "\<exists>k \<in> set (ks @ ls). score_ge k b \<and> overlaps (nms_iou_threshold config) b k"
      using True Cons.prems(1) by (auto simp: suppressed_iff sorted_wrt_append)
    ultimately show ?thesis using True by (intro exI [of _ ls]) (auto intro: list_emb_Cons)
  next
    case False
    note kept = this
    have sorted': "sorted_wrt score_ge ((ks @ [b]) @ boxes)" using Cons.prems(1) by simp
    have apart: "sorted_wrt (\<lambda>k b. \<not> overlaps (nms_iou_threshold config) b k) (ks @ [b])"
      using Cons.prems(3) kept by (auto simp: sorted_wrt_append suppressed_iff)
    show ?thesis
    proof (cases "Suc (length ks) = max_candidates config")
      case True
      have "\<forall>c \<in> set boxes. \<forall>k \<in> set (ks @ [b]). score_ge k c" using sorted' by (simp only: sorted_wrt_append) blast
      then show ?thesis using True kept apart by (intro exI [of _ "[b]"]) auto
    next
      case False
      then have "length (ks @ [b]) < max_candidates config" using Cons.prems(2) by simp
      from Cons.IH [OF sorted' this apart] obtain ls where
        ls: "nms config f boxes (candidates_of f (ks @ [b])) = candidates_of f ((ks @ [b]) @ ls)" "subseq ls boxes"
        "length ((ks @ [b]) @ ls) \<le> max_candidates config"
        "sorted_wrt (\<lambda>k b. \<not> overlaps (nms_iou_threshold config) b k) ((ks @ [b]) @ ls)"
        "\<forall>c \<in> set boxes. c \<in> set ls \<or> (\<exists>k \<in> set ((ks @ [b]) @ ls). score_ge k c \<and> overlaps (nms_iou_threshold config) c k)
          \<or> (length ((ks @ [b]) @ ls) = max_candidates config \<and> (\<forall>k \<in> set ((ks @ [b]) @ ls). score_ge k c))" by blast
      then show ?thesis using False kept by (intro exI [of _ "b # ls"]) auto
    qed
  qed
qed

lemma nms_keeps:
  assumes "sorted_wrt score_ge boxes" "0 < max_candidates config"
  obtains ks where "nms config f boxes [] = candidates_of f ks" "subseq ks boxes" "nms_result config boxes ks"
  using nms_result_step [of "[]" boxes config f] assms unfolding nms_result_def by auto

section \<open>Proposals\<close>

text \<open>What is asked of the network: enough values, and none of them NaN.\<close>

definition infer_ok :: "infer \<Rightarrow> bool" where
  "infer_ok infer \<longleftrightarrow> (\<forall>inp. 5 * kPredictionCount \<le> length (infer inp) \<and> NaN \<notin> set (infer inp))"

definition proposals_good :: "proposer_config \<Rightarrow> int \<Rightarrow> int \<Rightarrow> decoded_box list \<Rightarrow> decoded_box list \<Rightarrow> bool" where
  "proposals_good config w h boxes ks \<longleftrightarrow> mset ks \<subseteq># mset boxes \<and> sorted_wrt score_ge ks \<and> nms_result config boxes ks
     \<and> list_all (\<lambda>k. box_in w h k \<and> \<not> fp_lt (dscore k) (confidence_threshold config)) ks"

lemma nms_result_mset: "mset bs = mset bs' \<Longrightarrow> nms_result config bs ks \<longleftrightarrow> nms_result config bs' ks"
  by (drule mset_eq_setD) (simp add: nms_result_def)

lemma no_nan_scores:
  assumes "b \<in> set (decode_boxes config lb w h out)" "1 \<le> w" "w \<le> 2 ^ 24" "1 \<le> h" "h \<le> 2 ^ 24"
    and "5 * kPredictionCount \<le> length out" "NaN \<notin> set out"
  shows "dscore b \<noteq> NaN"
proof -
  obtain i where "i < kPredictionCount" "dscore b = out ! (4 * kPredictionCount + i)"
    using decode_boxes_in(2) [OF assms(1-5)] by blast
  moreover from this(1) have "4 * kPredictionCount + i < length out" using assms(6) by simp
  ultimately show ?thesis using assms(7) nth_mem by metis
qed

lemma proposals_of_boxes:
  assumes "sort_ok sort_boxes" "0 < max_candidates config" "1 \<le> w" "w \<le> 2 ^ 24" "1 \<le> h" "h \<le> 2 ^ 24"
    and "5 * kPredictionCount \<le> length out" "NaN \<notin> set out"
  shows "\<exists>ks. nms config f (sort_boxes (decode_boxes config lb w h out)) [] = candidates_of f ks
    \<and> proposals_good config w h (decode_boxes config lb w h out) ks"
proof -
  let ?bs = "decode_boxes config lb w h out"
  have "\<forall>b \<in> set ?bs. dscore b \<noteq> NaN" using no_nan_scores assms(3-) by blast
  then have s: "mset (sort_boxes ?bs) = mset ?bs" "sorted_wrt score_ge (sort_boxes ?bs)"
    using assms(1) unfolding sort_ok_def by blast+
  obtain ks where ks: "nms config f (sort_boxes ?bs) [] = candidates_of f ks" "subseq ks (sort_boxes ?bs)"
    "nms_result config (sort_boxes ?bs) ks" by (rule nms_keeps [OF s(2) assms(2)])
  have sub: "mset ks \<subseteq># mset ?bs" using subseq_mset_le [OF ks(2)] s(1) by simp
  then have "set ks \<subseteq> set ?bs" by (metis set_mset_mono set_mset_mset)
  then have "list_all (\<lambda>k. box_in w h k \<and> \<not> fp_lt (dscore k) (confidence_threshold config)) ks"
    using decode_boxes_in(1,3) [OF _ assms(3-6)] unfolding list_all_iff by blast
  then show ?thesis using ks sub subseq_sorted_wrt [OF ks(2) s(2)] nms_result_mset [OF s(1)]
    unfolding proposals_good_def by blast
qed

lemma propose_defined:
  assumes "pr_engine p = Some infer" "infer_ok infer" "sort_ok sort_boxes" "0 < max_candidates (pr_config p)"
    and "mat_ok bgr" "cols bgr \<le> 2 ^ 14" "rows bgr \<le> 2 ^ 14" "cols bgr \<le> 320 * rows bgr" "rows bgr \<le> 320 * cols bgr"
  obtains lb ks where "letterbox (cols bgr) (rows bgr) = Some lb" "canvas_fits lb"
    "propose cv sort_boxes p bgr frame_id = Some (candidates_of frame_id ks)"
    "proposals_good (pr_config p) (cols bgr) (rows bgr)
        (decode_boxes (pr_config p) lb (cols bgr) (rows bgr) (infer (model_input cv lb bgr))) ks"
proof -
  have size: "1 \<le> cols bgr" "1 \<le> rows bgr" "\<not> mat_empty bgr" "is_8uc3 bgr" using assms(5) by (auto simp: mat_ok_def mat_empty_def)
  obtain lb where lb: "letterbox (cols bgr) (rows bgr) = Some lb" "canvas_fits lb"
    using letterbox_fits [OF size(1) assms(6) size(2) assms(7-9)] by blast
  define out where "out = infer (model_input cv lb bgr)"
  have out: "5 * kPredictionCount \<le> length out" "NaN \<notin> set out" using assms(2) by (simp_all add: infer_ok_def out_def)
  from proposals_of_boxes [OF assms(3,4) _ _ _ _ out, of "cols bgr" "rows bgr" frame_id lb] size assms(6,7)
  obtain ks where ks: "nms (pr_config p) frame_id (sort_boxes (decode_boxes (pr_config p) lb (cols bgr) (rows bgr) out)) [] = candidates_of frame_id ks"
    "proposals_good (pr_config p) (cols bgr) (rows bgr) (decode_boxes (pr_config p) lb (cols bgr) (rows bgr) out) ks" by auto
  have "propose cv sort_boxes p bgr frame_id = Some (candidates_of frame_id ks)"
    using size lb assms(1) out(1) ks(1) by (simp add: propose_def out_def [symmetric] Let_def)
  from that [OF lb this ks(2) [unfolded out_def]] show thesis .
qed

text \<open>
  C17: For a frame of 8-bit BGR up to 16384 pixels a side and no more elongated than 320 to 1, with
  an engine that returns at least the 10500 values read and none of them NaN, \<open>propose\<close> is defined:
  the letterboxed picture lies inside of the 320 x 320 canvas, and the result is a list of
  candidates with the frame's id and the roi ids 0, 1, ... whose boxes \<open>ks\<close> are among those decoded,
  lie in the picture, reach the confidence threshold, come by descending score, are at most
  \<open>max_candidates\<close>, and are those of greedy suppression: no kept box overlaps an earlier one beyond
  the threshold, and a decoded box that is missing overlaps one that is kept and scores at least
  as much, or the list is full of boxes that score at least as much.
\<close>

theorem proposals_are_nms:
  assumes "pr_engine p = Some infer" "infer_ok infer" "sort_ok sort_boxes" "0 < max_candidates (pr_config p)"
    and "mat_ok bgr" "cols bgr \<le> 2 ^ 14" "rows bgr \<le> 2 ^ 14"
    and "cols bgr \<le> 320 * rows bgr" "rows bgr \<le> 320 * cols bgr"
  shows "\<exists>lb ks. letterbox (cols bgr) (rows bgr) = Some lb \<and> canvas_fits lb
    \<and> length (model_input cv lb bgr) = 3 * 320 * 320
    \<and> propose cv sort_boxes p bgr frame_id = Some (candidates_of frame_id ks)
    \<and> proposals_good (pr_config p) (cols bgr) (rows bgr)
        (decode_boxes (pr_config p) lb (cols bgr) (rows bgr) (infer (model_input cv lb bgr))) ks"
proof -
  have "length (model_input cv lb bgr) = 3 * 320 * 320" for lb by (simp add: model_input_def kModelSize_def)
  then show ?thesis using propose_defined [OF assms, of cv frame_id] by metis
qed

text \<open>A sort that keeps its promise.\<close>

fun insert_box :: "decoded_box \<Rightarrow> decoded_box list \<Rightarrow> decoded_box list" where
  "insert_box b [] = [b]"
| "insert_box b (c # cs) = (if fp_lt (dscore b) (dscore c) then c # insert_box b cs else b # c # cs)"

lemma insert_box_mset [simp]: "mset (insert_box b bs) = add_mset b (mset bs)"
  by (induction bs) auto

lemma insert_box_set [simp]: "set (insert_box b bs) = insert b (set bs)"
  by (metis insert_box_mset set_mset_add_mset_insert set_mset_mset)

lemma score_ge_trans: "score_ge a b \<Longrightarrow> score_ge b c \<Longrightarrow> dscore b \<noteq> NaN \<Longrightarrow> score_ge a c"
  by (cases "dscore a"; cases "dscore b"; cases "dscore c") (auto simp: score_ge_def)

lemma score_ge_lt: "fp_lt (dscore b) (dscore c) \<Longrightarrow> score_ge c b"
  by (cases "dscore b"; cases "dscore c") (auto simp: score_ge_def)

lemma insert_box_sorted:
  "sorted_wrt score_ge bs \<Longrightarrow> \<forall>c \<in> set bs. dscore c \<noteq> NaN \<Longrightarrow> sorted_wrt score_ge (insert_box b bs)"
proof (induction bs)
  case (Cons c cs)
  show ?case
  proof (cases "fp_lt (dscore b) (dscore c)")
    case True
    then show ?thesis using Cons by (simp add: score_ge_lt)
  next
    case False
    then have "score_ge b c" by (simp add: score_ge_def)
    then have "\<forall>d \<in> set cs. score_ge b d" using Cons.prems by (auto intro: score_ge_trans)
    then show ?thesis using False Cons.prems \<open>score_ge b c\<close> by simp
  qed
qed simp

lemma insertion_sort_ok: "sort_ok (\<lambda>bs. foldr insert_box bs [])"
proof -
  have "mset (foldr insert_box bs []) = mset bs" for bs by (induction bs) auto
  moreover from mset_eq_setD [OF this] have "set (foldr insert_box bs []) = set bs" for bs .
  then have "\<forall>b \<in> set bs. dscore b \<noteq> NaN \<Longrightarrow> sorted_wrt score_ge (foldr insert_box bs [])" for bs
    by (induction bs) (auto intro!: insert_box_sorted)
  ultimately show ?thesis by (simp add: sort_ok_def)
qed

definition constant_engine :: infer where
  "constant_engine inp = replicate 10500 (Fin 1)"

theorem proposals_are_nms_witness:
  "let p = \<lparr>pr_config = ProposerConfig_default, pr_engine = Some constant_engine\<rparr>;
       bgr = mat_of 360 640 (\<lambda>y x c. 9)
   in \<exists>lb ks. letterbox (cols bgr) (rows bgr) = Some lb \<and> canvas_fits lb
    \<and> length (model_input reference_cv lb bgr) = 3 * 320 * 320
    \<and> propose reference_cv (\<lambda>bs. foldr insert_box bs []) p bgr 7 = Some (candidates_of 7 ks)
    \<and> proposals_good (pr_config p) (cols bgr) (rows bgr)
        (decode_boxes (pr_config p) lb (cols bgr) (rows bgr) (constant_engine (model_input reference_cv lb bgr))) ks"
  unfolding Let_def
  by (rule proposals_are_nms [where infer = constant_engine])
    (simp_all add: insertion_sort_ok infer_ok_def constant_engine_def kPredictionCount_def ProposerConfig_default_def)

end
