(* ===== verification/Latency_Stats.thy ===== *)
theory Latency_Stats
  imports Float64 "HOL-Library.Multiset"
begin

text \<open>
  \<open>metrics/LatencyStats.hpp\<close>: the samples of a stage in microseconds, and the mean and the
  nearest-rank percentiles reported of them, in \<open>double\<close>. None stands for undefined behaviour: a sum
  that overflows, or a rank that is NaN.
\<close>

section \<open>Operations\<close>

type_synonym latency_stats = "int list"

definition stats_add :: "latency_stats \<Rightarrow> int \<Rightarrow> latency_stats" where
  "stats_add samples microseconds = samples @ [microseconds]"

definition stats_count :: "latency_stats \<Rightarrow> nat" where
  "stats_count samples = length samples"

definition stats_empty :: "latency_stats \<Rightarrow> bool" where
  "stats_empty samples \<longleftrightarrow> samples = []"

definition add_i64 :: "int \<Rightarrow> int \<Rightarrow> int option" where
  "add_i64 a b = (if - (2 ^ 63) \<le> a + b \<and> a + b < 2 ^ 63 then Some (a + b) else None)"

definition stats_sum :: "latency_stats \<Rightarrow> int option" where
  "stats_sum samples = fold (\<lambda>sample total. Option.bind total (\<lambda>t. add_i64 t sample)) samples (Some 0)"

definition meanMs :: "latency_stats \<Rightarrow> fp option" where
  "meanMs samples =
     (if samples = [] then Some (Fin 0)
      else Option.bind (stats_sum samples) (\<lambda>total.
        Some (fdiv64 (fdiv64 (double_of_int total) (double_of_int (int (length samples)))) (Fin 1000))))"

definition fp_ceil64 :: "fp \<Rightarrow> fp" where
  "fp_ceil64 v = (case v of Fin x \<Rightarrow> Fin (of_int \<lceil>x\<rceil>) | _ \<Rightarrow> v)"

text \<open>The rank, and the position it stands for.\<close>

definition percentile_index :: "fp \<Rightarrow> nat \<Rightarrow> nat option" where
  "percentile_index ratio n =
     (let clamped = (if fp_lt ratio (Fin 0) then Fin 0 else if fp_gt ratio (Fin 1) then Fin 1 else ratio);
          rank = fp_ceil64 (fmul64 clamped (double_of_int (int n)))
      in if fp_lt rank (Fin 1) then Some 0
         else case rank of Fin r \<Rightarrow> (if r < 2 ^ 64 then Some (nat \<lfloor>r\<rfloor> - 1) else None) | _ \<Rightarrow> None)"

definition percentileMs :: "latency_stats \<Rightarrow> fp \<Rightarrow> (latency_stats \<times> fp) option" where
  "percentileMs samples ratio =
     (if samples = [] then Some (samples, Fin 0)
      else let samples = sort samples in
        (case percentile_index ratio (length samples) of None \<Rightarrow> None
         | Some index \<Rightarrow> Some (samples,
             fdiv64 (double_of_int (samples ! (if index < length samples then index else length samples - 1))) (Fin 1000))))"

definition minMs :: "latency_stats \<Rightarrow> (latency_stats \<times> fp) option" where
  "minMs samples = percentileMs samples (Fin 0)"

definition maxMs :: "latency_stats \<Rightarrow> (latency_stats \<times> fp) option" where
  "maxMs samples = percentileMs samples (Fin 1)"

section \<open>Order statistics\<close>

text \<open>\<open>v\<close> is the \<open>k\<close>-th smallest sample.\<close>

definition kth_smallest :: "nat \<Rightarrow> int list \<Rightarrow> int \<Rightarrow> bool" where
  "kth_smallest k xs v \<longleftrightarrow> v \<in> set xs \<and> k \<le> length (filter (\<lambda>s. s \<le> v) xs) \<and> length (filter (\<lambda>s. s < v) xs) < k"

lemma kth_smallest_sorted:
  assumes "sorted ys" "0 < k" "k \<le> length ys"
  shows "kth_smallest k ys (ys ! (k - 1))"
proof -
  let ?v = "ys ! (k - 1)"
  have split: "length (filter P ys) = length (filter P (take j ys)) + length (filter P (drop j ys))" for P j
    by (metis append_take_drop_id filter_append length_append)
  have "x \<le> ?v" if "x \<in> set (take k ys)" for x
  proof -
    from that obtain i where "i < k" "x = ys ! i" using assms(3) by (auto simp: in_set_conv_nth)
    then show ?thesis using sorted_nth_mono [OF assms(1), of i "k - 1"] assms by simp
  qed
  then have "filter (\<lambda>s. s \<le> ?v) (take k ys) = take k ys" by (simp add: filter_id_conv)
  then have "k \<le> length (filter (\<lambda>s. s \<le> ?v) ys)" using split [of "\<lambda>s. s \<le> ?v" k] assms(3) by simp
  moreover have "?v \<le> x" if "x \<in> set (drop (k - 1) ys)" for x
  proof -
    from that obtain i where i: "i < length ys - (k - 1)" "x = drop (k - 1) ys ! i" by (auto simp: in_set_conv_nth)
    then have "k - 1 + i < length ys" "x = ys ! (k - 1 + i)" by simp_all
    then show ?thesis using sorted_nth_mono [OF assms(1), of "k - 1" "k - 1 + i"] by simp
  qed
  then have "filter (\<lambda>s. s < ?v) (drop (k - 1) ys) = []" by (auto simp: filter_empty_conv not_less)
  then have "length (filter (\<lambda>s. s < ?v) ys) \<le> k - 1"
    using split [of "\<lambda>s. s < ?v" "k - 1"] length_filter_le [of "\<lambda>s. s < ?v" "take (k - 1) ys"] assms by simp
  ultimately show ?thesis using assms(2,3) by (simp add: kth_smallest_def)
qed

lemma kth_smallest_mset: "mset xs = mset ys \<Longrightarrow> kth_smallest k xs v \<longleftrightarrow> kth_smallest k ys v"
proof -
  assume eq: "mset xs = mset ys"
  have "length (filter P xs) = length (filter P ys)" for P by (metis eq mset_filter size_mset)
  then show ?thesis using mset_eq_setD [OF eq] by (simp add: kth_smallest_def)
qed

lemma kth_smallest_sort:
  assumes "0 < k" "k \<le> length xs" shows "kth_smallest k xs (sort xs ! (k - 1))"
  using kth_smallest_sorted [of "sort xs" k] kth_smallest_mset [of "sort xs" xs] assms by simp

section \<open>Ranks\<close>

text \<open>What lies above a 32nd past the integer below and up to an integer is rounded up to it.\<close>

lemma ceil_rounded:
  assumes "0 \<le> m" "m < 2 ^ 40" "of_int m + 1/32 \<le> x" "x \<le> of_int (m + 1)"
  shows "fp_ceil64 (round_fp binary64 x) = Fin (of_int (m + 1))"
proof -
  have "fp_ok binary64 (Fin (of_int (32 * m + 1) / 2 ^ 5))" using assms by (intro binary64_fixed) simp_all
  then have "fp_le (Fin (of_int (32 * m + 1) / 2 ^ 5)) (round_fp binary64 x)"
    using assms(3) by (intro round_fp_ge) (simp_all add: field_simps)
  moreover have "fp_le (round_fp binary64 x) (Fin (of_int (m + 1)))"
    using assms by (intro round_fp_le binary64_int) simp_all
  ultimately obtain v where v: "round_fp binary64 x = Fin v" "of_int (32 * m + 1) / 2 ^ 5 \<le> v" "v \<le> of_int (m + 1)"
    by (cases "round_fp binary64 x") auto
  have "of_int m < (of_int (32 * m + 1) / 2 ^ 5 :: rat)" by (simp add: field_simps)
  then have "\<lceil>v\<rceil> = m + 1" using v by (intro ceiling_unique) simp_all
  then show ?thesis using v(1) by (simp add: fp_ceil64_def)
qed

lemma percentile_index_ceil:
  assumes "0 \<le> q" "q \<le> 1" "0 < k" "k \<le> n" "n \<le> 2 ^ 40" "of_nat (k - 1) + 1/32 \<le> q * of_nat n" "q * of_nat n \<le> of_nat k"
  shows "percentile_index (Fin q) n = Some (k - 1)"
proof -
  have n: "double_of_int (int n) = Fin (of_nat n)"
    using binary64_int [of "int n"] assms(5) by (simp add: double_of_int_def)
  have "k - 1 < 2 ^ 40" using assms(3-5) by linarith
  then have lt: "int (k - 1) < 2 ^ 40" using of_nat_less_iff [where ?'a = int, of "k - 1" "2 ^ 40"] by simp
  have eq: "int (k - 1) + 1 = int k" using assms(3) by simp
  have "(of_nat k :: rat) = of_int (int (k - 1) + 1)" unfolding eq by simp
  then have "fp_ceil64 (round_fp binary64 (q * of_nat n)) = Fin (of_int (int (k - 1) + 1))"
    using assms(6,7) by (intro ceil_rounded lt) simp_all
  then have "fp_ceil64 (round_fp binary64 (q * of_nat n)) = Fin (of_nat k)" unfolding eq by simp
  moreover have "(of_nat k :: rat) < 2 ^ 64"
  proof -
    have "k < 2 ^ 64" using assms(4,5) by simp
    then have "(of_nat k :: rat) < of_nat (2 ^ 64)" by (simp only: of_nat_less_iff)
    then show ?thesis by simp
  qed
  ultimately show ?thesis using assms(1-3) by (simp add: percentile_index_def n Let_def not_less)
qed

lemma lit64_095: "round_fp binary64 (19/20) = Fin (8556839292003942 / 9007199254740992)"
  by (subst round_fp_eqI [where k = 1021 and m = 8556839292003942]) simp_all

lemma percentile_index_values:
  assumes "0 < n" "n \<le> 2 ^ 40"
  shows "percentile_index (Fin 0) n = Some 0" "percentile_index (Fin 1) n = Some (n - 1)"
    "percentile_index (Fin (1/2)) n = Some ((n + 1) div 2 - 1)"
    "percentile_index (round_fp binary64 (19/20)) n = Some ((19 * n + 19) div 20 - 1)"
proof -
  show "percentile_index (Fin 0) n = Some 0"
    using binary64_int [of "int n"] assms by (simp add: percentile_index_def double_of_int_def fp_ceil64_def)
  show "percentile_index (Fin 1) n = Some (n - 1)"
    using assms by (intro percentile_index_ceil) (simp_all add: of_nat_diff)
  show "percentile_index (Fin (1/2)) n = Some ((n + 1) div 2 - 1)"
  proof (rule percentile_index_ceil)
    have "n mod 2 = 0 \<or> n mod 2 = 1" by linarith
    then have "of_nat ((n + 1) div 2 - 1) + 1/32 \<le> 1/2 * (of_nat n :: rat) \<and> 1/2 * of_nat n \<le> (of_nat ((n + 1) div 2) :: rat)"
    proof
      assume e: "n mod 2 = 0"
      then obtain c where c: "n = 2 * c" by (metis mult_div_mod_eq add.right_neutral)
      then show ?thesis using assms by (simp add: of_nat_diff)
    next
      assume "n mod 2 = 1"
      then obtain c where c: "n = 2 * c + 1" by (metis mult_div_mod_eq)
      then show ?thesis by simp
    qed
    then show "of_nat ((n + 1) div 2 - 1) + 1/32 \<le> 1/2 * (of_nat n :: rat)" "1/2 * of_nat n \<le> (of_nat ((n + 1) div 2) :: rat)"
      by simp_all
  qed (use assms in simp_all)
  have "percentile_index (Fin (8556839292003942 / 9007199254740992)) n = Some ((19 * n + 19) div 20 - 1)"
  proof (rule percentile_index_ceil)
    let ?k = "(19 * n + 19) div 20"
    have k: "0 < ?k" "20 * ?k \<le> 19 * n + 19" "19 * n \<le> 20 * ?k" using assms by linarith+
    have "20 * (?k - 1) + 1 \<le> 19 * n" using k by linarith
    then have "of_nat (20 * (?k - 1) + 1) \<le> (of_nat (19 * n) :: rat)" by (simp only: of_nat_le_iff)
    then have lo: "20 * of_nat (?k - 1) + 1 \<le> (19 * of_nat n :: rat)" by simp
    have "of_nat (19 * n) \<le> (of_nat (20 * ?k) :: rat)" using k(3) by (simp only: of_nat_le_iff)
    then have hi: "19 * of_nat n \<le> (20 * of_nat ?k :: rat)" by simp
    have "of_nat n \<le> (of_nat (2 ^ 40) :: rat)" using assms(2) by (simp only: of_nat_le_iff)
    then have n: "0 \<le> (of_nat n :: rat)" "of_nat n \<le> (1099511627776 :: rat)" by simp_all
    show "of_nat (?k - 1) + 1/32 \<le> 8556839292003942 / 9007199254740992 * (of_nat n :: rat)" using lo n by linarith
    show "8556839292003942 / 9007199254740992 * of_nat n \<le> (of_nat ?k :: rat)" using hi n by linarith
    show "0 < ?k" "?k \<le> n" "n \<le> 2 ^ 40" using k assms by linarith+
  qed simp_all
  then show "percentile_index (round_fp binary64 (19/20)) n = Some ((19 * n + 19) div 20 - 1)" by (simp add: lit64_095)
qed

lemma percentileMs_kth:
  assumes "percentile_index ratio (length xs) = Some (k - 1)" "0 < k" "k \<le> length xs"
  shows "\<exists>v. percentileMs xs ratio = Some (sort xs, fdiv64 (double_of_int v) (Fin 1000)) \<and> kth_smallest k xs v"
  using assms kth_smallest_sort [OF assms(2,3)] by (intro exI [of _ "sort xs ! (k - 1)"]) (auto simp: percentileMs_def Let_def)

text \<open>
  The four statistics of the report are the order statistics they are named after, for up to
  \<open>2 ^ 40\<close> samples and in spite of the rounding of \<open>ratio * n\<close>: the smallest and the largest sample,
  the \<open>n / 2\<close>-th (rounded up) for the median and the \<open>95 n / 100\<close>-th (rounded up) for the 95th
  percentile, divided by a thousand; the samples are kept, sorted.
\<close>

theorem percentiles_are_order_statistics:
  assumes "0 < length xs" "length xs \<le> 2 ^ 40"
  shows "\<exists>lo mid p95 hi. minMs xs = Some (sort xs, fdiv64 (double_of_int lo) (Fin 1000)) \<and> kth_smallest 1 xs lo
    \<and> percentileMs xs (Fin (1/2)) = Some (sort xs, fdiv64 (double_of_int mid) (Fin 1000))
    \<and> kth_smallest ((length xs + 1) div 2) xs mid
    \<and> percentileMs xs (round_fp binary64 (19/20)) = Some (sort xs, fdiv64 (double_of_int p95) (Fin 1000))
    \<and> kth_smallest ((19 * length xs + 19) div 20) xs p95
    \<and> maxMs xs = Some (sort xs, fdiv64 (double_of_int hi) (Fin 1000)) \<and> kth_smallest (length xs) xs hi"
proof -
  note ix = percentile_index_values [OF assms]
  let ?n = "length xs"
  have b: "0 < (?n + 1) div 2" "(?n + 1) div 2 \<le> ?n" "0 < (19 * ?n + 19) div 20" "(19 * ?n + 19) div 20 \<le> ?n" "1 \<le> ?n"
    using assms(1) by linarith+
  show ?thesis
    using percentileMs_kth [of "Fin 0" xs 1] percentileMs_kth [OF ix(2) assms(1) order_refl]
      percentileMs_kth [OF ix(3) b(1,2)] percentileMs_kth [OF ix(4) b(3,4)] ix(1) b(5)
    unfolding minMs_def maxMs_def by auto
qed

theorem percentiles_are_order_statistics_witness:
  "\<exists>p95. percentileMs [900, 40, 7000, 12] (round_fp binary64 (19/20)) = Some (sort [900, 40, 7000, 12], fdiv64 (double_of_int p95) (Fin 1000))
     \<and> kth_smallest 4 [900, 40, 7000, 12] p95"
  using percentiles_are_order_statistics [of "[900, 40, 7000, 12]"] by auto

end
