(* ===== verification/V4l2_Capture.thy ===== *)
theory V4l2_Capture
  imports Opencv
begin

text \<open>
  \<open>capture/V4L2Capture\<close>: the camera. Opening negotiates a format and a frame rate, maps the driver's
  buffers and starts streaming; a frame is a buffer taken from the driver, converted and given back.
  The answers of the driver are arguments; what the process holds (descriptors, mappings) and which
  buffers the driver owns are part of the state, so that a leak or a read outside of a mapping
  would be visible. None stands for such a read, or for a matrix that OpenCV refuses.
\<close>

section \<open>Calls into the driver\<close>

datatype 'a ioctl_answer = Failed nat | Answered 'a

text \<open>A call is interrupted some number of times before it is answered.\<close>

type_synonym 'a ioctl = "nat \<times> 'a ioctl_answer"

fun xioctl :: "'a ioctl \<Rightarrow> 'a ioctl_answer" where
  "xioctl (Suc interrupted, answer) = xioctl (interrupted, answer)"
| "xioctl (0, answer) = answer"

definition EAGAIN :: nat where "EAGAIN = 11"
definition CAP_VIDEO_CAPTURE :: u32 where "CAP_VIDEO_CAPTURE = 1"
definition CAP_STREAMING :: u32 where "CAP_STREAMING = 0x04000000"
definition CAP_DEVICE_CAPS :: u32 where "CAP_DEVICE_CAPS = 0x80000000"
definition CAP_TIMEPERFRAME :: u32 where "CAP_TIMEPERFRAME = 0x1000"

definition fourcc :: "u8 \<Rightarrow> u8 \<Rightarrow> u8 \<Rightarrow> u8 \<Rightarrow> u32" where
  "fourcc a b c d = or (or (or (ucast a) (push_bit 8 (ucast b))) (push_bit 16 (ucast c))) (push_bit 24 (ucast d))"

definition kPixelFormatYUYV :: u32 where "kPixelFormatYUYV = fourcc 0x59 0x55 0x59 0x56"

record capture_request =
  rq_width :: u32
  rq_height :: u32
  rq_pixelformat :: u32
  rq_fps :: u32
  rq_buffer_count :: u32

definition Request_default :: capture_request where
  "Request_default = \<lparr>rq_width = 640, rq_height = 360, rq_pixelformat = kPixelFormatYUYV, rq_fps = 30, rq_buffer_count = 4\<rparr>"

record capture_format =
  fmt_width :: u32
  fmt_height :: u32
  fmt_pixelformat :: u32
  fmt_bytesperline :: u32
  fmt_sizeimage :: u32
  fps_numerator :: u32
  fps_denominator :: u32

definition Format_default :: capture_format where
  "Format_default = \<lparr>fmt_width = 0, fmt_height = 0, fmt_pixelformat = 0, fmt_bytesperline = 0, fmt_sizeimage = 0,
     fps_numerator = 0, fps_denominator = 0\<rparr>"

definition pixelFormatName :: "capture_format \<Rightarrow> u8 list" where
  "pixelFormatName f = (if fmt_pixelformat f = 0 then map (of_nat \<circ> of_char) ''(none)''
     else map (\<lambda>i. ucast (and (drop_bit (8 * i) (fmt_pixelformat f)) 0xFF)) [0..<4])"

definition format_fps :: "capture_format \<Rightarrow> fp" where
  "format_fps f = (if fps_numerator f = 0 then Fin 0
     else fp_div binary64 (round_fp binary64 (of_int (uint (fps_denominator f)))) (round_fp binary64 (of_int (uint (fps_numerator f)))))"

datatype capture_result = CapOk | CapTimeout | CapStopped | CapError

section \<open>State\<close>

record capture =
  cap_fd :: int
  cap_stop_fd :: int
  cap_streaming :: bool
  cap_format :: capture_format
  cap_buffers :: "int list"
  cap_lengths :: "nat list"
  held_fds_cap :: "int list"
  mappings :: "(int \<times> nat) list"
  queued :: "nat set"
  stop_signalled :: bool

definition V4L2Capture :: capture where
  "V4L2Capture = \<lparr>cap_fd = -1, cap_stop_fd = -1, cap_streaming = False, cap_format = Format_default,
     cap_buffers = [], cap_lengths = [], held_fds_cap = [], mappings = [], queued = {}, stop_signalled = False\<rparr>"

definition cap_close :: "capture \<Rightarrow> capture" where
  "cap_close V =
     (let V = V\<lparr>cap_streaming := False, queued := {}\<rparr>;
          V = V\<lparr>mappings := fold remove1 (zip (cap_buffers V) (cap_lengths V)) (mappings V), cap_buffers := [], cap_lengths := []\<rparr>;
          V = (if cap_fd V \<ge> 0 then V\<lparr>held_fds_cap := remove1 (cap_fd V) (held_fds_cap V), cap_fd := -1\<rparr> else V);
          V = (if cap_stop_fd V \<ge> 0
               then V\<lparr>held_fds_cap := remove1 (cap_stop_fd V) (held_fds_cap V), cap_stop_fd := -1, stop_signalled := False\<rparr> else V)
      in V\<lparr>cap_format := Format_default\<rparr>)"

section \<open>Opening\<close>

text \<open>What the kernel and the driver answer while the device is opened.\<close>

record stream_parm =
  sp_capability :: u32
  sp_numerator :: u32
  sp_denominator :: u32

record driver_answers =
  a_open :: int
  a_eventfd :: int
  a_querycap :: "(u32 \<times> u32) ioctl"
  a_s_fmt :: "(u32 \<times> u32 \<times> u32 \<times> u32 \<times> u32) ioctl"
  a_g_parm :: "stream_parm ioctl"
  a_s_parm :: "unit ioctl"
  a_g_parm_again :: "stream_parm ioctl"
  a_reqbufs :: "u32 ioctl"
  a_querybuf :: "nat \<Rightarrow> u32 ioctl"
  a_mmap :: "nat \<Rightarrow> int option"
  a_qbuf :: "nat \<Rightarrow> unit ioctl"
  a_streamon :: "unit ioctl"

definition queryCapability :: "driver_answers \<Rightarrow> bool" where
  "queryCapability a = (case xioctl (a_querycap a) of Failed _ \<Rightarrow> False
     | Answered (capabilities, device_caps) \<Rightarrow>
         let caps = (if and capabilities CAP_DEVICE_CAPS \<noteq> 0 then device_caps else capabilities)
         in and caps CAP_VIDEO_CAPTURE \<noteq> 0 \<and> and caps CAP_STREAMING \<noteq> 0)"

definition negotiateFormat :: "capture \<Rightarrow> driver_answers \<Rightarrow> capture \<times> bool" where
  "negotiateFormat V a = (case xioctl (a_s_fmt a) of Failed _ \<Rightarrow> (V, False)
     | Answered (w, h, pixelformat, bytesperline, sizeimage) \<Rightarrow>
         let f = (cap_format V)\<lparr>fmt_width := w, fmt_height := h, fmt_pixelformat := pixelformat,
                   fmt_bytesperline := bytesperline, fmt_sizeimage := sizeimage\<rparr>;
             V = V\<lparr>cap_format := f\<rparr>
         in if w = 0 \<or> h = 0 then (V, False)
            else if pixelformat \<noteq> kPixelFormatYUYV then (V, False)
            else let minimum_stride = w * 2
                 in if bytesperline < minimum_stride
                    then (V\<lparr>cap_format := f\<lparr>fmt_bytesperline := minimum_stride\<rparr>\<rparr>, True) else (V, True))"

definition negotiateFrameRate :: "capture \<Rightarrow> driver_answers \<Rightarrow> u32 \<Rightarrow> capture \<times> bool" where
  "negotiateFrameRate V a fps =
     (if fps = 0 then (V, True)
      else case xioctl (a_g_parm a) of Failed _ \<Rightarrow> (V, False)
      | Answered parm \<Rightarrow>
          (case (if and (sp_capability parm) CAP_TIMEPERFRAME \<noteq> 0 then xioctl (a_g_parm_again a) else Answered parm) of
             Failed _ \<Rightarrow> (V, False)
           | Answered parm \<Rightarrow> (V\<lparr>cap_format := (cap_format V)\<lparr>fps_numerator := sp_numerator parm,
               fps_denominator := sp_denominator parm\<rparr>\<rparr>, True)))"

text \<open>The loop over the buffers, from the \<open>i\<close>-th on; \<open>n\<close> are left.\<close>

fun map_buffers :: "capture \<Rightarrow> driver_answers \<Rightarrow> nat \<Rightarrow> nat \<Rightarrow> nat \<Rightarrow> capture \<times> bool" where
  "map_buffers V a needed i 0 = (V, True)"
| "map_buffers V a needed i (Suc n) =
     (case xioctl (a_querybuf a i) of Failed _ \<Rightarrow> (V, False)
      | Answered len \<Rightarrow>
          if unat len < needed then (V, False)
          else case a_mmap a i of None \<Rightarrow> (V, False)
          | Some ptr \<Rightarrow>
              let V = V\<lparr>mappings := mappings V @ [(ptr, unat len)],
                        cap_buffers := cap_buffers V @ [ptr], cap_lengths := cap_lengths V @ [unat len]\<rparr>
              in (case xioctl (a_qbuf a i) of Failed _ \<Rightarrow> (V, False)
                  | Answered _ \<Rightarrow> map_buffers (V\<lparr>queued := insert i (queued V)\<rparr>) a needed (Suc i) n))"

definition setupBuffers :: "capture \<Rightarrow> driver_answers \<Rightarrow> capture \<times> bool" where
  "setupBuffers V a = (case xioctl (a_reqbufs a) of Failed _ \<Rightarrow> (V, False)
     | Answered got \<Rightarrow>
         if got = 0 then (V, False)
         else let needed = unat (fmt_bytesperline (cap_format V)) * unat (fmt_height (cap_format V))
              in map_buffers V a needed 0 (unat got))"

definition startStreaming :: "capture \<Rightarrow> driver_answers \<Rightarrow> capture \<times> bool" where
  "startStreaming V a = (case xioctl (a_streamon a) of Failed _ \<Rightarrow> (V, False)
     | Answered _ \<Rightarrow> (V\<lparr>cap_streaming := True\<rparr>, True))"

definition init_steps :: "capture \<Rightarrow> driver_answers \<Rightarrow> capture_request \<Rightarrow> capture \<times> bool" where
  "init_steps V a request =
     (if \<not> queryCapability a then (V, False)
      else case negotiateFormat V a of (V, ok) \<Rightarrow> if \<not> ok then (V, False)
      else case negotiateFrameRate V a (rq_fps request) of (V, ok) \<Rightarrow> if \<not> ok then (V, False)
      else case setupBuffers V a of (V, ok) \<Rightarrow> if \<not> ok then (V, False)
      else startStreaming V a)"

definition cap_init :: "capture \<Rightarrow> driver_answers \<Rightarrow> capture_request \<Rightarrow> capture \<times> bool" where
  "cap_init V a request =
     (let V = cap_close V in
      if a_open a < 0 then (V\<lparr>cap_fd := a_open a\<rparr>, False)
      else let V = V\<lparr>cap_fd := a_open a, held_fds_cap := a_open a # held_fds_cap V\<rparr> in
      if a_eventfd a < 0 then (cap_close (V\<lparr>cap_stop_fd := a_eventfd a\<rparr>), False)
      else let V = V\<lparr>cap_stop_fd := a_eventfd a, held_fds_cap := a_eventfd a # held_fds_cap V, stop_signalled := False\<rparr>
      in case init_steps V a request of (V, ok) \<Rightarrow> if ok then (V, True) else (cap_close V, False))"

section \<open>Frames\<close>

text \<open>
  \<open>poll\<close> fails, or tells what happened on the device; the stop descriptor is readable from the moment
  it is written on, as it is never read.
\<close>

datatype poll_answer = PollFailed | Events bool bool

fun waitForEvent :: "capture \<Rightarrow> nat \<times> poll_answer \<Rightarrow> capture_result" where
  "waitForEvent V (Suc interrupted, answer) = waitForEvent V (interrupted, answer)"
| "waitForEvent V (0, PollFailed) = CapError"
| "waitForEvent V (0, Events broken readable) =
     (let ready = stop_signalled V \<or> broken \<or> readable in
      if \<not> ready then CapTimeout
      else if stop_signalled V then CapStopped
      else if broken then CapError
      else if readable then CapOk
      else CapTimeout)"

type_synonym memory = "int \<Rightarrow> nat \<Rightarrow> u8"

text \<open>The matrix over buffer \<open>i\<close>: its rows, \<open>step\<close> bytes apart. None: refused, or outside of the buffer.\<close>

definition yuyv_rows :: "capture \<Rightarrow> memory \<Rightarrow> nat \<Rightarrow> u8 list list option" where
  "yuyv_rows V mem i =
     (let f = cap_format V; w = unat (fmt_width f); h = unat (fmt_height f); step = unat (fmt_bytesperline f) in
      if w \<ge> 2 ^ 31 \<or> h \<ge> 2 ^ 31 \<or> step < 2 * w \<or> (h - 1) * step + 2 * w > cap_lengths V ! i then None
      else Some (map (\<lambda>y. map (\<lambda>x. mem (cap_buffers V ! i) (y * step + x)) [0..<2 * w]) [0..<h]))"

record frame_answers =
  fa_poll :: "nat \<times> poll_answer"
  fa_dqbuf :: "nat ioctl"
  fa_qbuf :: "unit ioctl"
  fa_memory :: memory

definition captureFrame ::
  "(u8 list list \<Rightarrow> pixel_mat) \<Rightarrow> capture \<Rightarrow> frame_answers \<Rightarrow> (capture \<times> pixel_mat option \<times> capture_result) option" where
  "captureFrame yuyv_to_bgr V a =
     (if cap_fd V < 0 \<or> \<not> cap_streaming V then Some (V, None, CapError)
      else let waited = waitForEvent V (fa_poll a) in
      if waited \<noteq> CapOk then Some (V, None, waited)
      else case xioctl (fa_dqbuf a) of
        Failed err \<Rightarrow> Some (V, None, if err = EAGAIN then CapTimeout else CapError)
      | Answered i \<Rightarrow>
          let V = V\<lparr>queued := queued V - {i}\<rparr> in
          if i \<ge> length (cap_buffers V) then Some (V, None, CapError)
          else case yuyv_rows V (fa_memory a) i of None \<Rightarrow> None
          | Some yuyv \<Rightarrow>
              let out = yuyv_to_bgr yuyv in
              (case xioctl (fa_qbuf a) of Failed _ \<Rightarrow> Some (V, Some out, CapError)
               | Answered _ \<Rightarrow> Some (V\<lparr>queued := insert i (queued V)\<rparr>, Some out, CapOk)))"

definition requestStop :: "capture \<Rightarrow> bool \<Rightarrow> capture" where
  "requestStop V write_ok = (if cap_stop_fd V < 0 then V else if write_ok then V\<lparr>stop_signalled := True\<rparr> else V)"

section \<open>Nothing is lost\<close>

text \<open>What is held is what the members record; so closing gives everything back.\<close>

definition cap_inv :: "capture \<Rightarrow> bool" where
  "cap_inv V \<longleftrightarrow> length (cap_lengths V) = length (cap_buffers V) \<and> mappings V = zip (cap_buffers V) (cap_lengths V)
     \<and> held_fds_cap V = filter (\<lambda>fd. 0 \<le> fd) [cap_stop_fd V, cap_fd V]
     \<and> (cap_streaming V \<longrightarrow> 0 \<le> cap_fd V \<and> 0 \<le> cap_stop_fd V)"

definition cap_closed :: "capture \<Rightarrow> bool" where
  "cap_closed V \<longleftrightarrow> held_fds_cap V = [] \<and> mappings V = [] \<and> cap_buffers V = [] \<and> cap_lengths V = [] \<and> queued V = {}
     \<and> cap_fd V < 0 \<and> cap_stop_fd V < 0 \<and> \<not> cap_streaming V"

definition streaming_ok :: "capture \<Rightarrow> bool" where
  "streaming_ok V \<longleftrightarrow> cap_inv V \<and> cap_streaming V \<and> fmt_pixelformat (cap_format V) = kPixelFormatYUYV
     \<and> fmt_width (cap_format V) \<noteq> 0 \<and> fmt_height (cap_format V) \<noteq> 0
     \<and> fmt_width (cap_format V) * 2 \<le> fmt_bytesperline (cap_format V) \<and> cap_buffers V \<noteq> []
     \<and> (\<forall>n \<in> set (cap_lengths V). unat (fmt_bytesperline (cap_format V)) * unat (fmt_height (cap_format V)) \<le> n)"

lemma fold_remove1_self [simp]: "fold remove1 xs xs = []"
  by (induction xs) simp_all

lemma cap_close_closed: "cap_inv V \<Longrightarrow> cap_closed (cap_close V)"
  by (auto simp: cap_inv_def cap_closed_def cap_close_def Let_def split: if_splits)

lemma cap_inv_add:
  "cap_inv V \<Longrightarrow> cap_inv (V\<lparr>mappings := mappings V @ [(ptr, m)], cap_buffers := cap_buffers V @ [ptr],
     cap_lengths := cap_lengths V @ [m]\<rparr>)"
  by (simp add: cap_inv_def)

lemma cap_inv_queued [simp]: "cap_inv (V\<lparr>queued := q\<rparr>) \<longleftrightarrow> cap_inv V"
  by (simp add: cap_inv_def)

lemma map_buffers_keeps:
  assumes "map_buffers V a needed i n = (V', ok)" "cap_inv V" "\<forall>m \<in> set (cap_lengths V). needed \<le> m"
  shows "cap_inv V' \<and> cap_format V' = cap_format V \<and> cap_fd V' = cap_fd V \<and> cap_stop_fd V' = cap_stop_fd V
    \<and> cap_streaming V' = cap_streaming V \<and> stop_signalled V' = stop_signalled V
    \<and> (\<forall>m \<in> set (cap_lengths V'). needed \<le> m)
    \<and> (ok \<longrightarrow> length (cap_buffers V') = length (cap_buffers V) + n)"
  using assms
proof (induction V a needed i n arbitrary: V' rule: map_buffers.induct)
  case (2 V a needed i n)
  show ?case
  proof (cases "xioctl (a_querybuf a i)")
    case q: (Answered len)
    show ?thesis
    proof (cases "unat len < needed \<or> a_mmap a i = None")
      case False
      then obtain ptr where ptr: "a_mmap a i = Some ptr" "\<not> unat len < needed" by auto
      let ?V = "V\<lparr>mappings := mappings V @ [(ptr, unat len)], cap_buffers := cap_buffers V @ [ptr], cap_lengths := cap_lengths V @ [unat len]\<rparr>"
      have inv: "cap_inv ?V" by (rule cap_inv_add [OF "2.prems"(2)])
      show ?thesis
      proof (cases "xioctl (a_qbuf a i)")
        case (Failed e)
        then show ?thesis using "2.prems" q ptr inv by (auto simp: Let_def)
      next
        case (Answered u)
        have "map_buffers (?V\<lparr>queued := insert i (queued ?V)\<rparr>) a needed (Suc i) n = (V', ok)"
          using "2.prems"(1) q ptr Answered by (simp add: Let_def)
        from "2.IH" [OF q ptr(2,1) refl Answered this] inv "2.prems"(3) ptr(2) show ?thesis by auto
      qed
    qed (use "2.prems" q in \<open>auto split: if_splits\<close>)
  qed (use "2.prems" in auto)
qed simp

definition init_start :: "capture \<Rightarrow> bool" where
  "init_start V \<longleftrightarrow> cap_inv V \<and> 0 \<le> cap_fd V \<and> 0 \<le> cap_stop_fd V \<and> cap_buffers V = []"

lemma cap_inv_format [simp]: "cap_inv (V\<lparr>cap_format := f\<rparr>) \<longleftrightarrow> cap_inv V"
  by (simp add: cap_inv_def)

lemma negotiateFormat_keeps:
  assumes "negotiateFormat V a = (V', ok)"
  shows "V' = V\<lparr>cap_format := cap_format V'\<rparr>"
    "ok \<Longrightarrow> fmt_pixelformat (cap_format V') = kPixelFormatYUYV \<and> fmt_width (cap_format V') \<noteq> 0
       \<and> fmt_height (cap_format V') \<noteq> 0 \<and> fmt_width (cap_format V') * 2 \<le> fmt_bytesperline (cap_format V')"
  using assms by (auto simp: negotiateFormat_def Let_def split: ioctl_answer.splits if_splits)

lemma negotiateFrameRate_keeps:
  assumes "negotiateFrameRate V a fps = (V', ok)"
  shows "V' = V\<lparr>cap_format := cap_format V'\<rparr>"
    "fmt_pixelformat (cap_format V') = fmt_pixelformat (cap_format V)"
    "fmt_width (cap_format V') = fmt_width (cap_format V)" "fmt_height (cap_format V') = fmt_height (cap_format V)"
    "fmt_bytesperline (cap_format V') = fmt_bytesperline (cap_format V)"
  using assms by (auto simp: negotiateFrameRate_def Let_def split: ioctl_answer.splits if_splits)

lemma setupBuffers_keeps:
  assumes "setupBuffers V a = (V', ok)" "init_start V"
  shows "cap_inv V' \<and> cap_format V' = cap_format V \<and> cap_fd V' = cap_fd V \<and> cap_stop_fd V' = cap_stop_fd V
    \<and> cap_streaming V' = cap_streaming V \<and> stop_signalled V' = stop_signalled V
    \<and> (ok \<longrightarrow> cap_buffers V' \<noteq> [] \<and> (\<forall>m \<in> set (cap_lengths V').
          unat (fmt_bytesperline (cap_format V)) * unat (fmt_height (cap_format V)) \<le> m))"
proof (cases "xioctl (a_reqbufs a)")
  case (Answered got)
  show ?thesis
  proof (cases "got = 0")
    case False
    have "cap_inv V" "cap_lengths V = []" using assms(2) by (auto simp: init_start_def cap_inv_def)
    moreover have "map_buffers V a (unat (fmt_bytesperline (cap_format V)) * unat (fmt_height (cap_format V))) 0 (unat got) = (V', ok)"
      using assms(1) Answered False by (simp add: setupBuffers_def Let_def)
    moreover have "0 < unat got" using False by (simp add: unat_gt_0)
    ultimately show ?thesis using map_buffers_keeps [of V a _ 0 "unat got" V' ok] by auto
  qed (use assms Answered in \<open>auto simp: setupBuffers_def init_start_def\<close>)
qed (use assms in \<open>auto simp: setupBuffers_def init_start_def\<close>)

lemma cap_inv_streaming: "cap_inv V \<Longrightarrow> 0 \<le> cap_fd V \<Longrightarrow> 0 \<le> cap_stop_fd V \<Longrightarrow> cap_inv (V\<lparr>cap_streaming := True\<rparr>)"
  by (simp add: cap_inv_def)

lemma init_steps_result:
  assumes "init_steps V a request = (V', ok)" "init_start V"
  shows "cap_inv V'" "ok \<Longrightarrow> streaming_ok V'" "stop_signalled V' = stop_signalled V"
proof -
  obtain V1 ok1 where n: "negotiateFormat V a = (V1, ok1)" by fastforce
  obtain V2 ok2 where r: "negotiateFrameRate V1 a (rq_fps request) = (V2, ok2)" by fastforce
  obtain V3 ok3 where b: "setupBuffers V2 a = (V3, ok3)" by fastforce
  note nk = negotiateFormat_keeps [OF n] and rk = negotiateFrameRate_keeps [OF r]
  have s1: "init_start V1" using assms(2) by (subst nk(1)) (simp add: init_start_def)
  have s2: "init_start V2" using s1 by (subst rk(1)) (simp add: init_start_def)
  note bk = setupBuffers_keeps [OF b s2]
  have "stop_signalled V1 = stop_signalled V" by (subst nk(1)) simp
  moreover have "stop_signalled V2 = stop_signalled V1" by (subst rk(1)) simp
  ultimately have sig: "stop_signalled V1 = stop_signalled V" "stop_signalled V2 = stop_signalled V" "stop_signalled V3 = stop_signalled V"
    using bk by simp_all
  have inv: "cap_inv V" "cap_inv V1" "cap_inv V2" "cap_inv V3" "0 \<le> cap_fd V3" "0 \<le> cap_stop_fd V3"
    using assms(2) s1 s2 bk by (simp_all add: init_start_def)
  show "cap_inv V'" "stop_signalled V' = stop_signalled V"
    using assms(1) n r b inv sig
    by (auto simp: init_steps_def startStreaming_def cap_inv_streaming split: if_splits ioctl_answer.splits)
  show "streaming_ok V'" if ok
  proof -
    have "ok1" "ok2" "ok3" and V': "V' = V3\<lparr>cap_streaming := True\<rparr>"
      using that assms(1) n r b by (auto simp: init_steps_def startStreaming_def split: if_splits ioctl_answer.splits)
    then show ?thesis using nk(2) rk(2-) bk cap_inv_streaming [OF inv(4-6)] by (simp add: streaming_ok_def)
  qed
qed

lemma cap_init_result:
  assumes "cap_init V a request = (V', ok)" "cap_inv V"
  shows "if ok then streaming_ok V' \<and> \<not> stop_signalled V' else cap_closed V'"
proof -
  let ?C = "cap_close V"
  let ?V1 = "?C\<lparr>cap_fd := a_open a, held_fds_cap := a_open a # held_fds_cap ?C\<rparr>"
  let ?V2 = "?V1\<lparr>cap_stop_fd := a_eventfd a, held_fds_cap := a_eventfd a # held_fds_cap ?V1, stop_signalled := False\<rparr>"
  have c: "cap_closed ?C" using assms(2) by (rule cap_close_closed)
  obtain V3 ok3 where st: "init_steps ?V2 a request = (V3, ok3)" by fastforce
  show ?thesis
  proof (cases "a_open a < 0")
    case True
    then show ?thesis using assms(1) c by (auto simp: cap_init_def Let_def cap_closed_def)
  next
    case open_ok: False
    show ?thesis
    proof (cases "a_eventfd a < 0")
      case True
      then have "cap_inv (?V1\<lparr>cap_stop_fd := a_eventfd a\<rparr>)" using c open_ok by (simp add: cap_inv_def cap_closed_def)
      then show ?thesis using assms(1) open_ok True cap_close_closed by (auto simp: cap_init_def Let_def)
    next
      case False
      then have "init_start ?V2" using c open_ok by (simp add: init_start_def cap_inv_def cap_closed_def)
      from init_steps_result [OF st this] have "cap_inv V3" "ok3 \<Longrightarrow> streaming_ok V3" "\<not> stop_signalled V3" by simp_all
      then show ?thesis using assms(1) open_ok False st cap_close_closed [of V3] by (auto simp: cap_init_def Let_def split: if_splits)
    qed
  qed
qed

section \<open>A session\<close>

text \<open>Calls on an opened camera: a frame asked for, or a stop requested (its write may fail).\<close>

datatype capture_call = Capture frame_answers | RequestStop bool

definition capture_call ::
  "(u8 list list \<Rightarrow> pixel_mat) \<Rightarrow> capture_call \<Rightarrow> capture \<Rightarrow> (capture \<times> capture_result list) option" where
  "capture_call cvt c V = (case c of
     Capture a \<Rightarrow> map_option (\<lambda>(V, out, r). (V, [r])) (captureFrame cvt V a)
   | RequestStop ok \<Rightarrow> Some (requestStop V ok, []))"

fun capture_calls ::
  "(u8 list list \<Rightarrow> pixel_mat) \<Rightarrow> capture_call list \<Rightarrow> capture \<Rightarrow> (capture \<times> capture_result list) option" where
  "capture_calls cvt [] V = Some (V, [])"
| "capture_calls cvt (c # cs) V = (case capture_call cvt c V of None \<Rightarrow> None
     | Some (V, rs) \<Rightarrow> map_option (\<lambda>(V, rs'). (V, rs @ rs')) (capture_calls cvt cs V))"

lemma streaming_ok_simps [simp]:
  "streaming_ok (V\<lparr>queued := q\<rparr>) \<longleftrightarrow> streaming_ok V" "streaming_ok (V\<lparr>stop_signalled := b\<rparr>) \<longleftrightarrow> streaming_ok V"
  by (simp_all add: streaming_ok_def cap_inv_def)

text \<open>A width whose double does not wrap.\<close>

definition small_frame :: "capture \<Rightarrow> bool" where
  "small_frame V \<longleftrightarrow> unat (fmt_width (cap_format V)) < 2 ^ 31 \<and> unat (fmt_height (cap_format V)) < 2 ^ 31"

lemma yuyv_rows_defined:
  assumes "streaming_ok V" "small_frame V" "i < length (cap_buffers V)"
  shows "yuyv_rows V mem i \<noteq> None"
proof -
  let ?w = "unat (fmt_width (cap_format V))" and ?h = "unat (fmt_height (cap_format V))" and ?s = "unat (fmt_bytesperline (cap_format V))"
  have "unat (fmt_width (cap_format V) * 2) = ?w * 2" using assms(2) by (simp add: unat_word_ariths small_frame_def)
  then have step: "2 * ?w \<le> ?s" using assms(1) by (simp add: streaming_ok_def word_le_nat_alt)
  have h: "0 < ?h" using assms(1) by (simp add: streaming_ok_def unat_gt_0)
  have "cap_lengths V ! i \<in> set (cap_lengths V)" using assms(1,3) by (simp add: streaming_ok_def cap_inv_def)
  then have "?s * ?h \<le> cap_lengths V ! i" using assms(1) unfolding streaming_ok_def by blast
  moreover have "(?h - 1) * ?s + 2 * ?w \<le> ?s * ?h"
    using h step by (cases ?h) (simp_all add: algebra_simps)
  ultimately show ?thesis using step assms(2) by (simp add: yuyv_rows_def Let_def small_frame_def)
qed

lemma waitForEvent_stopped: "stop_signalled V \<Longrightarrow> waitForEvent V p \<noteq> CapOk"
  by (induction V p rule: waitForEvent.induct) (simp_all add: Let_def)

lemma captureFrame_converts:
  assumes "\<not> (cap_fd V < 0 \<or> \<not> cap_streaming V \<or> waitForEvent V (fa_poll a) \<noteq> CapOk)"
    and "xioctl (fa_dqbuf a) = Answered i" "i < length (cap_buffers V)"
    and "yuyv_rows (V\<lparr>queued := queued V - {i}\<rparr>) (fa_memory a) i = Some yuyv"
  shows "captureFrame cvt V a = (case xioctl (fa_qbuf a) of
      Failed _ \<Rightarrow> Some (V\<lparr>queued := queued V - {i}\<rparr>, Some (cvt yuyv), CapError)
    | Answered _ \<Rightarrow> Some (V\<lparr>queued := insert i (queued V - {i})\<rparr>, Some (cvt yuyv), CapOk))"
  using assms by (simp add: captureFrame_def Let_def split: ioctl_answer.split)

lemma small_frame_queued [simp]: "small_frame (V\<lparr>queued := q\<rparr>) \<longleftrightarrow> small_frame V"
  by (simp add: small_frame_def)

lemma capture_call_keeps:
  assumes "streaming_ok V" "small_frame V"
  obtains V' rs where "capture_call cvt c V = Some (V', rs)" "streaming_ok V'" "small_frame V'"
    "cap_format V' = cap_format V" "held_fds_cap V' = held_fds_cap V" "mappings V' = mappings V" "cap_fd V' = cap_fd V"
    "stop_signalled V \<Longrightarrow> stop_signalled V' \<and> CapOk \<notin> set rs"
proof (cases c)
  case (RequestStop ok)
  then show thesis using that [of "requestStop V ok" "[]"] assms
    by (simp add: capture_call_def requestStop_def small_frame_def)
next
  case (Capture a)
  show thesis
  proof (cases "cap_fd V < 0 \<or> \<not> cap_streaming V \<or> waitForEvent V (fa_poll a) \<noteq> CapOk")
    case True
    then have "\<exists>r. captureFrame cvt V a = Some (V, None, r) \<and> r \<noteq> CapOk"
      by (intro exI [of _ "if cap_fd V < 0 \<or> \<not> cap_streaming V then CapError else waitForEvent V (fa_poll a)"])
        (auto simp: captureFrame_def Let_def)
    then obtain r where "captureFrame cvt V a = Some (V, None, r)" "r \<noteq> CapOk" by blast
    then show thesis using that [of V "[r]"] assms Capture by (simp add: capture_call_def)
  next
    case False
    then have live: "\<not> stop_signalled V" using waitForEvent_stopped by blast
    show thesis
    proof (cases "xioctl (fa_dqbuf a)")
      case (Failed e)
      then show thesis using that [of V] assms Capture False live
        by (auto simp: capture_call_def captureFrame_def Let_def)
    next
      case dq: (Answered i)
      let ?V = "V\<lparr>queued := queued V - {i}\<rparr>"
      show thesis
      proof (cases "i < length (cap_buffers V)")
        case True
        have "streaming_ok ?V" "small_frame ?V" using assms by (simp_all add: small_frame_def)
        from yuyv_rows_defined [OF this, of i "fa_memory a"] True obtain yuyv where
          "yuyv_rows ?V (fa_memory a) i = Some yuyv" by auto
        note c = captureFrame_converts [OF False dq True this, of cvt]
        show thesis
        proof (cases "xioctl (fa_qbuf a)")
          case (Failed e)
          then have "capture_call cvt (Capture a) V = Some (?V, [CapError])" using c by (simp add: capture_call_def)
          then show thesis unfolding Capture [symmetric] by (rule that) (use assms live in simp_all)
        next
          case (Answered u)
          then have "capture_call cvt (Capture a) V = Some (V\<lparr>queued := insert i (queued V - {i})\<rparr>, [CapOk])"
            using c by (simp add: capture_call_def)
          then show thesis unfolding Capture [symmetric] by (rule that) (use assms live in simp_all)
        qed
      qed (use assms Capture False live dq that [of ?V "[CapError]"] in
          \<open>simp add: capture_call_def captureFrame_def Let_def small_frame_def\<close>)
    qed
  qed
qed

lemma capture_calls_keep:
  assumes "streaming_ok V" "small_frame V"
  obtains V' rs where "capture_calls cvt cs V = Some (V', rs)" "streaming_ok V'" "small_frame V'"
    "cap_format V' = cap_format V" "held_fds_cap V' = held_fds_cap V" "mappings V' = mappings V"
    "stop_signalled V \<Longrightarrow> stop_signalled V' \<and> CapOk \<notin> set rs"
proof -
  have "\<exists>V' rs. capture_calls cvt cs V = Some (V', rs) \<and> streaming_ok V' \<and> small_frame V'
    \<and> cap_format V' = cap_format V \<and> held_fds_cap V' = held_fds_cap V \<and> mappings V' = mappings V
    \<and> (stop_signalled V \<longrightarrow> stop_signalled V' \<and> CapOk \<notin> set rs)"
    using assms
  proof (induction cs arbitrary: V)
    case (Cons c cs)
    obtain V1 rs1 where 1: "capture_call cvt c V = Some (V1, rs1)" "streaming_ok V1" "small_frame V1"
      "cap_format V1 = cap_format V" "held_fds_cap V1 = held_fds_cap V" "mappings V1 = mappings V" "cap_fd V1 = cap_fd V"
      "stop_signalled V \<Longrightarrow> stop_signalled V1 \<and> CapOk \<notin> set rs1"
      by (rule capture_call_keeps [OF Cons.prems, of cvt c]) blast
    from Cons.IH [OF 1(2,3)] 1 show ?case by fastforce
  qed simp
  then show thesis using that by blast
qed

section \<open>Properties\<close>

text \<open>
  C31: Opening is all or nothing, whatever the kernel and the driver answer and from whatever earlier
  use: when it fails, no descriptor and no mapping is left, also when it fails between two buffers;
  when it succeeds, the camera streams YUYV of a non-zero size, there is a buffer, every buffer
  holds a whole frame, and closing it later gives everything back.
\<close>

theorem open_all_or_nothing:
  assumes "cap_inv V" "cap_init V a request = (V', ok)"
  shows "(if ok then streaming_ok V' \<and> \<not> stop_signalled V' else cap_closed V') \<and> cap_closed (cap_close V')"
proof (rule conjI)
  show *: "if ok then streaming_ok V' \<and> \<not> stop_signalled V' else cap_closed V'"
    by (rule cap_init_result [OF assms(2,1)])
  have "cap_inv V'" using * by (auto simp: streaming_ok_def cap_closed_def cap_inv_def split: if_splits)
  then show "cap_closed (cap_close V')" by (rule cap_close_closed)
qed

definition example_answers :: driver_answers where
  "example_answers = \<lparr>a_open = 5, a_eventfd = 6, a_querycap = (1, Answered (CAP_VIDEO_CAPTURE + CAP_STREAMING, 0)),
     a_s_fmt = (0, Answered (640, 360, kPixelFormatYUYV, 1280, 460800)), a_g_parm = (0, Answered \<lparr>sp_capability = 0, sp_numerator = 1, sp_denominator = 30\<rparr>),
     a_s_parm = (0, Answered ()), a_g_parm_again = (0, Failed 5), a_reqbufs = (0, Answered 1),
     a_querybuf = (\<lambda>_. (0, Answered 460800)), a_mmap = (\<lambda>i. Some (int i * 2 ^ 20)), a_qbuf = (\<lambda>_. (0, Failed 22)),
     a_streamon = (0, Answered ())\<rparr>"

lemma example_opens:
  "snd (cap_init V4L2Capture (example_answers\<lparr>a_qbuf := (\<lambda>_. (1, Answered ()))\<rparr>) Request_default)"
  "fmt_width (cap_format (fst (cap_init V4L2Capture (example_answers\<lparr>a_qbuf := (\<lambda>_. (1, Answered ()))\<rparr>) Request_default))) = 640"
  "fmt_height (cap_format (fst (cap_init V4L2Capture (example_answers\<lparr>a_qbuf := (\<lambda>_. (1, Answered ()))\<rparr>) Request_default))) = 360"
  by (simp_all add: cap_init_def init_steps_def queryCapability_def negotiateFormat_def negotiateFrameRate_def setupBuffers_def
      startStreaming_def cap_close_def V4L2Capture_def example_answers_def Request_default_def Let_def Format_default_def
      CAP_VIDEO_CAPTURE_def CAP_STREAMING_def CAP_DEVICE_CAPS_def CAP_TIMEPERFRAME_def)

theorem open_all_or_nothing_witness:
  "\<not> snd (cap_init V4L2Capture example_answers Request_default)
     \<and> cap_closed (fst (cap_init V4L2Capture example_answers Request_default))"
proof -
  obtain V' ok where r: "cap_init V4L2Capture example_answers Request_default = (V', ok)" by fastforce
  moreover have "\<not> snd (cap_init V4L2Capture example_answers Request_default)"
    by (simp_all add: cap_init_def init_steps_def queryCapability_def negotiateFormat_def negotiateFrameRate_def setupBuffers_def
      startStreaming_def cap_close_def V4L2Capture_def example_answers_def Request_default_def Let_def Format_default_def
      CAP_VIDEO_CAPTURE_def CAP_STREAMING_def CAP_DEVICE_CAPS_def CAP_TIMEPERFRAME_def)
  moreover have "cap_inv V4L2Capture" by (simp add: cap_inv_def V4L2Capture_def)
  ultimately show ?thesis using open_all_or_nothing [of V4L2Capture example_answers Request_default V' ok] by simp
qed

text \<open>
  C33: On an opened camera no call reads outside of a mapped buffer, whatever the driver answers (also
  an index it was never given): every call is defined, for a negotiated frame of less than \<open>2 ^ 31\<close>
  pixels a side, and keeps the descriptors, the mappings and the format. And a stop request is
  final: after one that was written, no call delivers a frame.
\<close>

theorem frames_in_bounds:
  assumes "cap_inv V" "cap_init V a request = (V1, True)" "small_frame V1"
  shows "\<exists>V2 V3 rs1 rs2. capture_calls cvt before V1 = Some (V2, rs1)
    \<and> capture_calls cvt after (requestStop V2 True) = Some (V3, rs2)
    \<and> streaming_ok V3 \<and> held_fds_cap V3 = held_fds_cap V1 \<and> mappings V3 = mappings V1 \<and> cap_format V3 = cap_format V1
    \<and> CapOk \<notin> set rs2"
proof -
  have "streaming_ok V1" using cap_init_result [OF assms(2,1)] by simp
  from capture_calls_keep [OF this assms(3), of cvt before] obtain V2 rs1 where
    1: "capture_calls cvt before V1 = Some (V2, rs1)" "streaming_ok V2" "small_frame V2"
    "cap_format V2 = cap_format V1" "held_fds_cap V2 = held_fds_cap V1" "mappings V2 = mappings V1" by metis
  then have "0 \<le> cap_stop_fd V2" unfolding streaming_ok_def cap_inv_def by blast
  then have "requestStop V2 True = V2\<lparr>stop_signalled := True\<rparr>" by (simp add: requestStop_def)
  then have 2: "streaming_ok (requestStop V2 True)" "small_frame (requestStop V2 True)" "stop_signalled (requestStop V2 True)"
    "cap_format (requestStop V2 True) = cap_format V2" "held_fds_cap (requestStop V2 True) = held_fds_cap V2"
    "mappings (requestStop V2 True) = mappings V2" using 1 by (simp_all add: small_frame_def)
  from capture_calls_keep [OF 2(1,2), of cvt "after"] obtain V3 rs2 where
    "capture_calls cvt after (requestStop V2 True) = Some (V3, rs2)" "streaming_ok V3"
    "cap_format V3 = cap_format V1" "held_fds_cap V3 = held_fds_cap V1" "mappings V3 = mappings V1" "CapOk \<notin> set rs2"
    using 1(4-) 2(3-) by metis
  then show ?thesis using 1(1) by blast
qed

theorem frames_in_bounds_witness:
  "let a = example_answers\<lparr>a_qbuf := (\<lambda>_. (1, Answered ()))\<rparr>; V = fst (cap_init V4L2Capture a Request_default);
       f = \<lparr>fa_poll = (1, Events False True), fa_dqbuf = (0, Answered 77), fa_qbuf = (0, Answered ()), fa_memory = (\<lambda>_ _. 3)\<rparr>
   in \<exists>V2 V3 rs1 rs2. capture_calls (\<lambda>_. mat_of 360 640 (\<lambda>y x c. 9)) [Capture f] V = Some (V2, rs1)
    \<and> capture_calls (\<lambda>_. mat_of 360 640 (\<lambda>y x c. 9)) [Capture f] (requestStop V2 True) = Some (V3, rs2)
    \<and> streaming_ok V3 \<and> held_fds_cap V3 = held_fds_cap V \<and> mappings V3 = mappings V \<and> cap_format V3 = cap_format V
    \<and> CapOk \<notin> set rs2"
  unfolding Let_def
proof (rule frames_in_bounds)
  let ?a = "example_answers\<lparr>a_qbuf := (\<lambda>_. (1, Answered ()))\<rparr>"
  show "cap_inv V4L2Capture" by (simp add: cap_inv_def V4L2Capture_def)
  show "cap_init V4L2Capture ?a Request_default = (fst (cap_init V4L2Capture ?a Request_default), True)"
    using example_opens(1) by (metis prod.collapse)
  show "small_frame (fst (cap_init V4L2Capture ?a Request_default))"
    using example_opens(2,3) by (simp add: small_frame_def)
qed

end
