(* ===== verification/Frame_Source.thy ===== *)
theory Frame_Source
  imports V4l2_Capture Newest_Value
begin

text \<open>
  \<open>capture/FrameSource\<close>: the thread that keeps asking the camera for frames, and the consumer that takes
  the newest one. A step is what happens between two points where the threads can interleave: the
  test of the loop, the call of the camera, the update under the mutex, a request to stop, and the
  return of \<open>next\<close> (its wait ends when its condition holds, or at the timeout).
\<close>

section \<open>State\<close>

datatype fs_status = FsOk | FsTimeout | FsStopped | FsError

datatype thread_at = AtLoop | Capturing | GotFrame pixel_mat | GotEnd capture_result | Finished

text \<open>\<open>last_seq\<close> is the caller's variable; \<open>captured\<close> and \<open>delivered\<close> record the history.\<close>

record frame_source =
  fs_running :: bool
  fs_thread :: thread_at
  latest_frame :: "pixel_mat option"
  fs_seq :: u64
  capture_error :: bool
  fs_capture :: capture
  last_seq :: u64
  captured :: "pixel_mat list"
  delivered :: "nat list"

definition FrameSource :: "capture \<Rightarrow> frame_source" where
  "FrameSource V = \<lparr>fs_running = False, fs_thread = Finished, latest_frame = None, fs_seq = 0, capture_error = False,
     fs_capture = V, last_seq = 0, captured = [], delivered = []\<rparr>"

section \<open>Operations\<close>

definition fs_start :: "frame_source \<Rightarrow> frame_source" where
  "fs_start F = F\<lparr>fs_running := True, fs_thread := AtLoop\<rparr>"

text \<open>What \<open>stop\<close> does before it waits for the thread; \<open>write_ok\<close> is the answer to the write that wakes it.\<close>

definition fs_stop :: "frame_source \<Rightarrow> bool \<Rightarrow> frame_source" where
  "fs_stop F write_ok =
     (if \<not> fs_running F then F
      else F\<lparr>fs_running := False, fs_capture := requestStop (fs_capture F) write_ok\<rparr>)"

text \<open>One step of \<open>run\<close>.\<close>

definition run_step :: "(u8 list list \<Rightarrow> pixel_mat) \<Rightarrow> frame_answers \<Rightarrow> frame_source \<Rightarrow> frame_source option" where
  "run_step cvt a F = (case fs_thread F of
     AtLoop \<Rightarrow> Some (F\<lparr>fs_thread := if fs_running F then Capturing else Finished\<rparr>)
   | Capturing \<Rightarrow> (case captureFrame cvt (fs_capture F) a of None \<Rightarrow> None
       | Some (V, out, result) \<Rightarrow>
           let F = F\<lparr>fs_capture := V\<rparr> in
           Some (if result = CapOk then F\<lparr>fs_thread := GotFrame (the out)\<rparr>
                 else if result = CapTimeout then F\<lparr>fs_thread := AtLoop\<rparr>
                 else F\<lparr>fs_thread := GotEnd result\<rparr>))
   | GotFrame m \<Rightarrow> Some (F\<lparr>latest_frame := Some (mat_clone m), fs_seq := fs_seq F + 1,
       captured := captured F @ [m], fs_thread := AtLoop\<rparr>)
   | GotEnd result \<Rightarrow> Some (F\<lparr>capture_error := (result = CapError), fs_thread := Finished\<rparr>)
   | Finished \<Rightarrow> Some F)"

definition fs_woken :: "frame_source \<Rightarrow> bool" where
  "fs_woken F \<longleftrightarrow> fs_seq F \<noteq> last_seq F \<or> \<not> fs_running F \<or> capture_error F"

definition fs_next :: "frame_source \<Rightarrow> frame_source \<times> fs_status \<times> pixel_mat option" where
  "fs_next F =
     (let woke_for_new_frame = fs_woken F in
      if capture_error F then (F, FsError, None)
      else if \<not> fs_running F \<and> fs_seq F = last_seq F then (F, FsStopped, None)
      else if \<not> woke_for_new_frame then (F, FsTimeout, None)
      else (F\<lparr>last_seq := fs_seq F, delivered := delivered F @ [length (captured F)]\<rparr>, FsOk, latest_frame F))"

section \<open>The system\<close>

inductive fs_step :: "(u8 list list \<Rightarrow> pixel_mat) \<Rightarrow> frame_source \<Rightarrow> frame_source \<Rightarrow> bool" for cvt where
  Thread: "run_step cvt a F = Some F' \<Longrightarrow> fs_step cvt F F'"
| Stop: "fs_step cvt F (fs_stop F write_ok)"
| Next: "fs_step cvt F (fst (fs_next F))"

inductive_cases fs_stepE: "fs_step cvt F F'"

definition fs_inv :: "frame_source \<Rightarrow> bool" where
  "fs_inv F \<longleftrightarrow> streaming_ok (fs_capture F) \<and> small_frame (fs_capture F)
     \<and> fs_seq F = word_of_nat (length (captured F))
     \<and> latest_frame F = (if captured F = [] then None else Some (mat_clone (last (captured F))))
     \<and> reader_ok (length (captured F)) (last_seq F) (delivered F)"

lemma captureFrame_keeps:
  assumes "streaming_ok V" "small_frame V"
  obtains V' out r where "captureFrame cvt V a = Some (V', out, r)" "streaming_ok V'" "small_frame V'"
proof -
  obtain V' rs where "capture_call cvt (Capture a) V = Some (V', rs)" "streaming_ok V'" "small_frame V'"
    by (rule capture_call_keeps [OF assms, of cvt "Capture a"])
  then show thesis using that by (auto simp: capture_call_def)
qed

lemma streaming_ok_requestStop [simp]:
  "streaming_ok (requestStop V ok) \<longleftrightarrow> streaming_ok V" "small_frame (requestStop V ok) \<longleftrightarrow> small_frame V"
  by (simp_all add: requestStop_def small_frame_def)

lemma fs_inv_start: "streaming_ok V \<Longrightarrow> small_frame V \<Longrightarrow> fs_inv (fs_start (FrameSource V))"
  by (simp add: fs_inv_def fs_start_def FrameSource_def)

lemma fs_next_eq:
  "fs_next F = (if capture_error F then (F, FsError, None)
     else if fs_seq F = last_seq F then (F, if fs_running F then FsTimeout else FsStopped, None)
     else (F\<lparr>last_seq := fs_seq F, delivered := delivered F @ [length (captured F)]\<rparr>, FsOk, latest_frame F))"
  by (simp add: fs_next_def fs_woken_def Let_def)

lemma fs_inv_next: "fs_inv F \<Longrightarrow> fs_inv (fst (fs_next F))"
  using reader_ok_take [of "length (captured F)" "last_seq F" "delivered F"] by (auto simp: fs_next_eq fs_inv_def)

lemma fs_inv_run:
  assumes "fs_inv F"
  obtains F' where "run_step cvt a F = Some F'" "fs_inv F'" "fs_running F' = fs_running F"
    "delivered F' = delivered F" "\<exists>ms. captured F' = captured F @ ms"
proof -
  have "streaming_ok (fs_capture F)" "small_frame (fs_capture F)" using assms by (simp_all add: fs_inv_def)
  from captureFrame_keeps [OF this, of cvt a] obtain V' out r where
    c: "captureFrame cvt (fs_capture F) a = Some (V', out, r)" "streaming_ok V'" "small_frame V'" .
  have "\<exists>F'. run_step cvt a F = Some F' \<and> fs_inv F' \<and> fs_running F' = fs_running F
     \<and> delivered F' = delivered F \<and> (\<exists>ms. captured F' = captured F @ ms)"
  proof (cases "fs_thread F")
    case Capturing
    then show ?thesis using assms c by (auto simp: run_step_def fs_inv_def Let_def)
  next
    case (GotFrame m)
    then show ?thesis using assms reader_ok_more [of "length (captured F)" "last_seq F" "delivered F" "Suc (length (captured F))"]
      by (simp add: run_step_def fs_inv_def)
  qed (use assms in \<open>simp_all add: run_step_def fs_inv_def\<close>)
  then show thesis using that by blast
qed

lemma fs_inv_step: "fs_step cvt F F' \<Longrightarrow> fs_inv F \<Longrightarrow> fs_inv F'"
proof (erule fs_stepE)
  fix a assume "run_step cvt a F = Some F'" "fs_inv F"
  then show "fs_inv F'" using fs_inv_run [of F cvt a] by auto
next
  fix ok assume "F' = fs_stop F ok" "fs_inv F"
  then show "fs_inv F'" by (cases "fs_running F") (simp_all add: fs_stop_def fs_inv_def)
qed (simp add: fs_inv_next)

lemma fs_inv_reach: "(fs_step cvt)\<^sup>*\<^sup>* F F' \<Longrightarrow> fs_inv F \<Longrightarrow> fs_inv F'"
  by (induction rule: rtranclp_induct) (auto intro: fs_inv_step)

section \<open>Properties\<close>

text \<open>
  C25: The consumer gets the newest frame and never the same one twice. In every interleaving of the
  capture thread, requests to stop and calls of \<open>next\<close> on an opened camera, up to \<open>2 ^ 64\<close> frames: when
  \<open>next\<close> answers Ok, its frame is a copy of the last frame captured, and newer than all that were
  delivered before; when it answers Timeout or Stopped, every frame that was captured last has been
  delivered (or none was captured); and once the camera has failed it only answers Error.
\<close>

theorem next_newest_frame:
  assumes "streaming_ok V" "small_frame V" "(fs_step cvt)\<^sup>*\<^sup>* (fs_start (FrameSource V)) F"
    and "length (captured F) < 2 ^ 64" "fs_next F = (F', st, out)"
  shows "case st of
      FsOk \<Rightarrow> captured F \<noteq> [] \<and> out = Some (mat_clone (last (captured F)))
        \<and> (\<forall>k \<in> set (delivered F). k < length (captured F)) \<and> delivered F' = delivered F @ [length (captured F)]
    | FsError \<Rightarrow> capture_error F \<and> F' = F
    | _ \<Rightarrow> last (0 # delivered F) = length (captured F) \<and> F' = F \<and> \<not> capture_error F"
proof -
  have inv: "fs_inv F" using fs_inv_reach [OF assms(3)] fs_inv_start [OF assms(1,2)] by blast
  show ?thesis
  proof (cases "capture_error F \<or> fs_seq F = last_seq F")
    case True
    have "last_seq F = fs_seq F \<Longrightarrow> last (0 # delivered F) = length (captured F)"
      using inv by (intro reader_ok_current [of _ "last_seq F"] assms(4)) (auto simp: fs_inv_def)
    then show ?thesis using True assms(5) by (auto simp: fs_next_eq split: if_splits)
  next
    case False
    then have eq: "F' = F\<lparr>last_seq := fs_seq F, delivered := delivered F @ [length (captured F)]\<rparr>" "st = FsOk" "out = latest_frame F"
      using assms(5) by (simp_all add: fs_next_eq)
    have less: "\<forall>k \<in> set (0 # delivered F). k < length (captured F)" 
      using reader_ok_newer [OF _ _ assms(4)] inv False unfolding fs_inv_def by metis
    then have "captured F \<noteq> []" by auto
    then show ?thesis using eq less inv by (simp add: fs_inv_def)
  qed
qed

text \<open>A camera of the example, opened, and a thread that captures a frame before the consumer asks.\<close>

definition example_camera :: capture where
  "example_camera = fst (cap_init V4L2Capture (example_answers\<lparr>a_qbuf := (\<lambda>_. (1, Answered ()))\<rparr>) Request_default)"

lemma example_camera_ok: "streaming_ok example_camera" "small_frame example_camera"
proof -
  have "cap_inv V4L2Capture" by (simp add: cap_inv_def V4L2Capture_def)
  then show "streaming_ok example_camera"
    using cap_init_result [of V4L2Capture "example_answers\<lparr>a_qbuf := (\<lambda>_. (1, Answered ()))\<rparr>" Request_default]
      example_opens(1) unfolding example_camera_def by (metis prod.collapse)
  show "small_frame example_camera" using example_opens(2,3) by (simp add: small_frame_def example_camera_def)
qed

theorem next_newest_frame_witness:
  "let F = fs_start (FrameSource example_camera) in
   fst (snd (fs_next F)) = FsTimeout \<and> last (0 # delivered F) = length (captured F) \<and> \<not> capture_error F"
  using next_newest_frame [OF example_camera_ok, of "\<lambda>_. mat_of 360 640 (\<lambda>y x c. 9)" "fs_start (FrameSource example_camera)"]
  by (simp add: fs_next_eq fs_start_def FrameSource_def)

fun run_steps :: "(u8 list list \<Rightarrow> pixel_mat) \<Rightarrow> frame_answers list \<Rightarrow> frame_source \<Rightarrow> frame_source option" where
  "run_steps cvt [] F = Some F"
| "run_steps cvt (a # as) F = Option.bind (run_step cvt a F) (run_steps cvt as)"

text \<open>How many steps the thread still makes when it is no longer to run.\<close>

fun steps_left :: "thread_at \<Rightarrow> nat" where
  "steps_left Capturing = 3"
| "steps_left (GotFrame m) = 2"
| "steps_left (GotEnd r) = 1"
| "steps_left AtLoop = 1"
| "steps_left Finished = 0"

definition in_hand :: "thread_at \<Rightarrow> nat" where
  "in_hand t = (case t of Capturing \<Rightarrow> 1 | GotFrame _ \<Rightarrow> 1 | _ \<Rightarrow> 0)"

lemma run_step_ends:
  assumes "fs_inv F" "\<not> fs_running F" "run_step cvt a F = Some F'"
  shows "steps_left (fs_thread F') \<le> steps_left (fs_thread F) - 1"
    "length (captured F') + in_hand (fs_thread F') \<le> length (captured F) + in_hand (fs_thread F)"
  using assms by (auto simp: run_step_def in_hand_def Let_def split: thread_at.splits option.splits)

lemma run_steps_end:
  assumes "fs_inv F" "\<not> fs_running F"
  obtains F' where "run_steps cvt as F = Some F'" "steps_left (fs_thread F') \<le> steps_left (fs_thread F) - length as"
    "length (captured F') + in_hand (fs_thread F') \<le> length (captured F) + in_hand (fs_thread F)"
proof -
  have "\<exists>F'. run_steps cvt as F = Some F' \<and> steps_left (fs_thread F') \<le> steps_left (fs_thread F) - length as
    \<and> length (captured F') + in_hand (fs_thread F') \<le> length (captured F) + in_hand (fs_thread F)"
    using assms
  proof (induction as arbitrary: F)
    case (Cons a as)
    obtain F1 where F1: "run_step cvt a F = Some F1" "fs_inv F1" "fs_running F1 = fs_running F"
      by (rule fs_inv_run [OF Cons.prems(1), of cvt a])
    from Cons.IH [OF F1(2)] F1(3) Cons.prems(2) obtain F' where "run_steps cvt as F1 = Some F'"
      "steps_left (fs_thread F') \<le> steps_left (fs_thread F1) - length as"
      "length (captured F') + in_hand (fs_thread F') \<le> length (captured F1) + in_hand (fs_thread F1)" by auto
    then show ?case using run_step_ends [OF Cons.prems F1(1)] F1(1) by (intro exI [of _ F']) auto
  qed simp
  then show thesis using that by blast
qed

text \<open>
  Stopping ends the capture thread. From any reachable point, and whether or not the write that
  is to wake the camera succeeds, three steps of the thread after \<open>stop\<close> end it (one of them may be
  the call of the camera, bounded by its timeout), so that the join returns; at most the frame
  that was being captured is still added, and no step is undefined.
\<close>

theorem stop_ends_thread:
  assumes "streaming_ok V" "small_frame V" "(fs_step cvt)\<^sup>*\<^sup>* (fs_start (FrameSource V)) F" "3 \<le> length as"
  shows "\<exists>F'. run_steps cvt as (fs_stop F write_ok) = Some F' \<and> fs_thread F' = Finished
    \<and> length (captured F') \<le> length (captured F) + 1"
proof -
  let ?S = "fs_stop F write_ok"
  have "fs_inv F" using fs_inv_reach [OF assms(3)] fs_inv_start [OF assms(1,2)] by blast
  then have inv: "fs_inv ?S" using fs_inv_step [OF fs_step.Stop] by blast
  have stopped: "\<not> fs_running ?S" and same: "captured ?S = captured F" by (simp_all add: fs_stop_def)
  obtain F' where F': "run_steps cvt as ?S = Some F'" "steps_left (fs_thread F') \<le> steps_left (fs_thread ?S) - length as"
    "length (captured F') + in_hand (fs_thread F') \<le> length (captured ?S) + in_hand (fs_thread ?S)"
    by (rule run_steps_end [OF inv stopped, of cvt as])
  have "steps_left (fs_thread ?S) \<le> 3" by (cases "fs_thread ?S") simp_all
  then have "steps_left (fs_thread F') = 0" using F'(2) assms(4) by simp
  then have "fs_thread F' = Finished" by (cases "fs_thread F'") simp_all
  moreover have "in_hand (fs_thread ?S) \<le> 1" by (simp add: in_hand_def split: thread_at.split)
  ultimately show ?thesis using F'(1,3) same by auto
qed

theorem stop_ends_thread_witness:
  "let a = \<lparr>fa_poll = (1, Events False True), fa_dqbuf = (0, Answered 0), fa_qbuf = (0, Answered ()), fa_memory = (\<lambda>_ _. 3)\<rparr>
   in \<exists>F'. run_steps (\<lambda>_. mat_of 360 640 (\<lambda>y x c. 9)) [a, a, a] (fs_stop (fs_start (FrameSource example_camera)) False) = Some F'
     \<and> fs_thread F' = Finished \<and> length (captured F') \<le> 1"
proof -
  have none: "length (captured (fs_start (FrameSource example_camera))) + 1 = 1"
    by (simp add: fs_start_def FrameSource_def)
  show ?thesis unfolding Let_def
    by (rule stop_ends_thread [OF example_camera_ok rtranclp.rtrancl_refl, unfolded none]) simp
qed

end
