(* ===== verification/Jetson_Client.thy ===== *)
theory Jetson_Client
  imports Roi_Propose Latency_Stats Mjpeg_Server V4l2_Capture Newest_Value Frame_Source
begin

text \<open>
  \<open>tools/jetson_roi_client.cpp\<close>: the program on the Jetson. It reads its settings, opens camera,
  stream and connection, and then, frame by frame, proposes regions, sends each to the board and
  waits for its class, keeps the statistics and the CSV, and hands the results to the stream. An
  empty frame sends a neutral region instead, so that the board's judgement stays fresh. Console
  output is left out. None stands for undefined behaviour of the parts it calls.
\<close>

section \<open>Settings\<close>

definition is_space :: "char \<Rightarrow> bool" where
  "is_space c \<longleftrightarrow> (of_char c :: nat) \<in> {9, 10, 11, 12, 13, 32}"

definition is_digit :: "char \<Rightarrow> bool" where
  "is_digit c \<longleftrightarrow> 48 \<le> (of_char c :: nat) \<and> (of_char c :: nat) \<le> 57"

definition digits_value :: "string \<Rightarrow> nat" where
  "digits_value ds = foldl (\<lambda>v c. 10 * v + (of_char c - 48)) 0 ds"

text \<open>\<open>std::stoul\<close>: blanks and a sign, then digits; what follows is ignored. None: it throws.\<close>

definition stoul :: "string \<Rightarrow> u64 option" where
  "stoul text =
     (let t = dropWhile is_space text;
          negative = (t \<noteq> [] \<and> hd t = CHR ''-'');
          t = (if t \<noteq> [] \<and> (hd t = CHR ''-'' \<or> hd t = CHR ''+'') then tl t else t);
          ds = takeWhile is_digit t;
          v = digits_value ds
      in if ds = [] then None
         else if v \<ge> 2 ^ 64 then None
         else Some (if negative then - word_of_nat v else word_of_nat v))"

definition parse_port :: "string \<Rightarrow> u16 option" where
  "parse_port text = (case stoul text of None \<Rightarrow> None
     | Some value \<Rightarrow> if value = 0 \<or> value > 0xffff then None else Some (ucast value))"

definition jetson_elapsed_us :: "int \<Rightarrow> int \<Rightarrow> int" where
  "jetson_elapsed_us start stop = (let ns = stop - start in if ns < 0 then - ((- ns) div 1000) else ns div 1000)"

definition jetson_env_ulong :: "(string \<Rightarrow> string option) \<Rightarrow> string \<Rightarrow> u64 \<Rightarrow> u64" where
  "jetson_env_ulong env name fallback = (case env name of None \<Rightarrow> fallback
     | Some text \<Rightarrow> if text = [] then fallback else case stoul text of None \<Rightarrow> fallback | Some v \<Rightarrow> v)"

definition env_flag :: "(string \<Rightarrow> string option) \<Rightarrow> string \<Rightarrow> bool" where
  "env_flag env name \<longleftrightarrow> jetson_env_ulong env name 0 \<noteq> 0"

text \<open>\<open>strtod\<close> answers a value, the number of characters read, and whether \<open>errno\<close> was set.\<close>

definition float_of_double :: "fp \<Rightarrow> fp" where
  "float_of_double v = (case v of Fin x \<Rightarrow> round_fp binary32 x | _ \<Rightarrow> v)"

definition env_ratio :: "(string \<Rightarrow> string option) \<Rightarrow> (string \<Rightarrow> fp \<times> nat \<times> bool) \<Rightarrow> string \<Rightarrow> fp \<Rightarrow> fp" where
  "env_ratio env strtod name fallback = (case env name of None \<Rightarrow> fallback
     | Some text \<Rightarrow> if text = [] then fallback
         else case strtod text of (v, end_pos, err) \<Rightarrow>
           if err \<or> end_pos = 0 \<or> end_pos \<noteq> length text \<or> fp_lt v (Fin 0) \<or> fp_gt v (Fin 1) then fallback
           else float_of_double v)"

record client_config =
  cc_warmup :: u64
  cc_quiet :: bool
  cc_no_delay :: bool
  cc_csv :: bool
  cc_heartbeat :: bool
  cc_heartbeat_ms :: u64
  cc_full_frame :: bool
  cc_proposer :: proposer_config
  cc_address :: string
  cc_port :: u16
  cc_mjpeg :: "mjpeg_config option"

text \<open>The arguments and the environment; None: the program gives up before it opens the camera.
  \<open>csv_opens\<close> and \<open>mjpeg_starts\<close> say whether the CSV file could be opened and whether
  \<open>start\<close> of the MJPEG server (\<open>mj_start\<close>) succeeded; a server that did not start is dropped.\<close>

definition mjpeg_settings :: "(string \<Rightarrow> string option) \<Rightarrow> u16 \<Rightarrow> mjpeg_config" where
  "mjpeg_settings env p = MjpegServerConfig_default\<lparr>mj_port := p,
     overlay_min_confidence_ppm := ucast (min (jetson_env_ulong env ''ADAS_OVERLAY_MIN_CONFIDENCE_PPM'' 600000) 1000000)\<rparr>"

definition client_settings ::
  "(string \<Rightarrow> string option) \<Rightarrow> (string \<Rightarrow> fp \<times> nat \<times> bool) \<Rightarrow> bool \<Rightarrow> bool \<Rightarrow> string list \<Rightarrow> client_config option" where
  "client_settings env strtod csv_opens mjpeg_starts argv =
     (if length argv \<noteq> 5 \<and> length argv \<noteq> 6 then None
      else case parse_port (argv ! 3) of None \<Rightarrow> None
      | Some p \<Rightarrow>
          let full_frame_mode = (argv ! 4 = ''--full-frame'');
              csv_path = env ''ADAS_MEASURE_CSV'';
              proposer = ProposerConfig_default\<lparr>engine_path := if full_frame_mode then [] else argv ! 4\<rparr>;
              config = \<lparr>cc_warmup = jetson_env_ulong env ''ADAS_MEASURE_WARMUP'' 10,
                cc_quiet = env_flag env ''ADAS_MEASURE_QUIET'', cc_no_delay = env_flag env ''ADAS_TCP_NODELAY'',
                cc_csv = (csv_path \<noteq> None \<and> csv_path \<noteq> Some [] \<and> csv_opens),
                cc_heartbeat = (jetson_env_ulong env ''ADAS_EMPTY_FRAME_HEARTBEAT'' 1 \<noteq> 0),
                cc_heartbeat_ms = jetson_env_ulong env ''ADAS_HEARTBEAT_INTERVAL_MS'' 150,
                cc_full_frame = full_frame_mode,
                cc_proposer = proposer\<lparr>confidence_threshold :=
                  env_ratio env strtod ''ADAS_PROPOSAL_CONFIDENCE'' (confidence_threshold proposer)\<rparr>,
                cc_address = argv ! 2, cc_port = p, cc_mjpeg = None\<rparr>
          in if length argv = 6
             then (case parse_port (argv ! 5) of None \<Rightarrow> None
                   | Some mjpeg_port \<Rightarrow> Some (config\<lparr>cc_mjpeg := if mjpeg_starts then Some (mjpeg_settings env mjpeg_port) else None\<rparr>))
             else Some config)"

section \<open>Measurements\<close>

definition kStatusNoReply :: u32 where "kStatusNoReply = 0xffffffff"

record roi_record =
  rr_roi_index :: int
  rr_crop_us :: int
  rr_rtt_us :: int
  rr_status :: u32
  rr_class_id :: u32
  rr_confidence_ppm :: u32

record metrics =
  m_capture :: latency_stats
  m_propose :: latency_stats
  m_crop :: latency_stats
  m_rtt :: latency_stats
  m_publish :: latency_stats
  m_frame :: latency_stats
  m_work :: latency_stats
  frame_by_roi_count :: "nat \<Rightarrow> latency_stats"
  status_counts :: "u32 \<Rightarrow> nat"
  m_frames :: nat
  m_rois :: nat
  wall_us :: int

definition Metrics :: metrics where
  "Metrics = \<lparr>m_capture = [], m_propose = [], m_crop = [], m_rtt = [], m_publish = [], m_frame = [], m_work = [],
     frame_by_roi_count = (\<lambda>_. []), status_counts = (\<lambda>_. 0), m_frames = 0, m_rois = 0, wall_us = 0\<rparr>"

text \<open>A row of the report: count, median, mean, 95th percentile and maximum. None inside: no samples.\<close>

definition stat_row :: "latency_stats \<Rightarrow> (nat \<times> fp \<times> fp \<times> fp \<times> fp) option option" where
  "stat_row stat =
     (if stats_empty stat then Some None
      else case percentileMs stat (Fin (1/2)) of None \<Rightarrow> None
      | Some (stat, median) \<Rightarrow> (case meanMs stat of None \<Rightarrow> None
        | Some mean \<Rightarrow> (case percentileMs stat (round_fp binary64 (19/20)) of None \<Rightarrow> None
          | Some (stat, p95) \<Rightarrow> (case maxMs stat of None \<Rightarrow> None
            | Some (stat, largest) \<Rightarrow> Some (Some (stats_count stat, median, mean, p95, largest))))))"

text \<open>A row of the CSV: a frame without regions, or a region of a frame.\<close>

datatype csv_line =
    CsvEmpty u32 int int int int
  | CsvRoi u32 roi_record nat int int int int

section \<open>State\<close>

record jetson =
  js_client :: tcp_client
  js_frame_id :: u32
  last_request_ms :: u64
  js_metrics :: metrics
  js_measuring :: bool
  measure_start :: int
  measure_end :: int
  js_csv :: "csv_line list"
  js_published :: "(pixel_mat \<times> roi_overlay list) list"
  capture_failed :: bool

definition jetson_initial :: "tcp_client \<Rightarrow> jetson" where
  "jetson_initial C = \<lparr>js_client = C, js_frame_id = 0, last_request_ms = 0, js_metrics = Metrics, js_measuring = False,
     measure_start = 0, measure_end = 0, js_csv = [], js_published = [], capture_failed = False\<rparr>"

text \<open>The connection is made before the loop, or the program ends.\<close>

definition jetson_connect :: "client_config \<Rightarrow> tcp_client \<Rightarrow> connect_reply \<Rightarrow> jetson option" where
  "jetson_connect config C sys = (case connectToServer C (cc_address config) (cc_port config) sys of
     (C, st) \<Rightarrow> if st \<noteq> Ok then None else Some (jetson_initial C))"

text \<open>What a frame meets: the picture, the clocks (in ns, and in ms), the answers to a reconnection.\<close>

record frame_input =
  fi_frame :: pixel_mat
  t_frame_begin :: int
  t_capture :: int
  fi_frame_ms :: u64
  t_propose :: int
  t_roi :: "nat \<Rightarrow> int \<times> int \<times> int"
  fi_sent_ms :: u64
  fi_connect :: connect_reply
  t_before_publish :: int
  t_frame_end :: int

section \<open>One frame\<close>

definition whole_frame :: "pixel_mat \<Rightarrow> u32 \<Rightarrow> roi_candidate" where
  "whole_frame bgr frame_id = \<lparr>k_frame_id = frame_id, k_roi_id = 0, object_bbox = \<lparr>bb_x = Fin 0, bb_y = Fin 0,
     bb_width = fp_of_int (cols bgr), bb_height = fp_of_int (rows bgr)\<rparr>, k_objectness = Fin 1\<rparr>"

definition heartbeat_candidate :: "u32 \<Rightarrow> roi_candidate" where
  "heartbeat_candidate frame_id = \<lparr>k_frame_id = frame_id, k_roi_id = 0, object_bbox = \<lparr>bb_x = Fin 0, bb_y = Fin 0,
     bb_width = Fin 32, bb_height = Fin 32\<rparr>, k_objectness = Fin 0\<rparr>"

definition frame_candidates ::
  "cv_lib \<Rightarrow> (decoded_box list \<Rightarrow> decoded_box list) \<Rightarrow> client_config \<Rightarrow> proposer \<Rightarrow> pixel_mat \<Rightarrow> u32 \<Rightarrow> roi_candidate list option" where
  "frame_candidates cv sort_boxes config p bgr frame_id =
     (if cc_full_frame config then Some [whole_frame bgr frame_id] else propose cv sort_boxes p bgr frame_id)"

definition heartbeat_frame :: "client_config \<Rightarrow> jetson \<Rightarrow> u64 \<Rightarrow> roi_candidate list \<Rightarrow> bool" where
  "heartbeat_frame config J frame_ms candidates \<longleftrightarrow>
     cc_heartbeat config \<and> candidates = [] \<and> frame_ms - last_request_ms J \<ge> cc_heartbeat_ms config"

text \<open>What the loop over the regions changes.\<close>

record roi_work =
  rw_client :: tcp_client
  rw_metrics :: metrics
  rw_records :: "roi_record list"
  rw_overlays :: "roi_overlay list"
  rw_roi_index :: int

definition no_result :: classification where
  "no_result = \<lparr>c_frame_id = 0, c_roi_id = 0, c_status = 0, c_class_id = 0, c_confidence_ppm = 0\<rparr>"

definition count_roi :: "metrics \<Rightarrow> int \<Rightarrow> int \<Rightarrow> u32 \<Rightarrow> metrics" where
  "count_roi m crop_us rtt_us st =
     m\<lparr>m_crop := stats_add (m_crop m) crop_us, m_rtt := stats_add (m_rtt m) rtt_us, m_rois := m_rois m + 1,
       status_counts := (status_counts m)(st := status_counts m st + 1)\<rparr>"

text \<open>The region that is sent for a candidate, if any.\<close>

definition request_of :: "cv_lib \<Rightarrow> pixel_mat \<Rightarrow> roi_candidate \<Rightarrow> prepared_roi option option" where
  "request_of cv bgr cand = (case crop cv CropConfig_default bgr cand of None \<Rightarrow> None
     | Some None \<Rightarrow> Some None | Some (Some cropped) \<Rightarrow> Some (prepare cv cropped))"

definition roi_step ::
  "cv_lib \<Rightarrow> frame_input \<Rightarrow> bool \<Rightarrow> bool \<Rightarrow> nat \<Rightarrow> roi_candidate \<Rightarrow> roi_work \<Rightarrow> roi_work option" where
  "roi_step cv fi counted heartbeat n cand W = (case request_of cv (fi_frame fi) cand of
     None \<Rightarrow> None
   | Some None \<Rightarrow> Some W
   | Some (Some prepared) \<Rightarrow> Some (case (t_roi fi n, classify (rw_client W) prepared no_result) of
       ((t_begin, t_crop, t_rtt), (C, classify_status, result)) \<Rightarrow>
         let classified = (classify_status = Ok);
             crop_us = jetson_elapsed_us t_begin t_crop;
             rtt_us = jetson_elapsed_us t_crop t_rtt;
             W = W\<lparr>rw_client := C\<rparr>;
             W = (if counted \<and> \<not> heartbeat
                  then W\<lparr>rw_metrics := count_roi (rw_metrics W) crop_us rtt_us (if classified then c_status result else kStatusNoReply),
                         rw_records := rw_records W @ [\<lparr>rr_roi_index = rw_roi_index W, rr_crop_us = crop_us, rr_rtt_us = rtt_us,
                           rr_status = c_status result, rr_class_id = c_class_id result, rr_confidence_ppm = c_confidence_ppm result\<rparr>]\<rparr>
                  else W)
         in if heartbeat then W
            else W\<lparr>rw_overlays := rw_overlays W @ [\<lparr>ov_bbox = object_bbox cand,
                     ov_status = if classified then c_status result else kStatusNoReply,
                     ov_class_id = if classified then c_class_id result else 0xffffffff,
                     ov_confidence_ppm = if classified then c_confidence_ppm result else 0\<rparr>],
                   rw_roi_index := rw_roi_index W + 1\<rparr>))"

fun roi_loop ::
  "cv_lib \<Rightarrow> frame_input \<Rightarrow> bool \<Rightarrow> bool \<Rightarrow> nat \<Rightarrow> roi_candidate list \<Rightarrow> roi_work \<Rightarrow> roi_work option" where
  "roi_loop cv fi counted heartbeat n [] W = Some W"
| "roi_loop cv fi counted heartbeat n (cand # cands) W =
     Option.bind (roi_step cv fi counted heartbeat n cand W) (roi_loop cv fi counted heartbeat (Suc n) cands)"

text \<open>The statistics and the rows of a counted frame.\<close>

definition count_frame :: "frame_input \<Rightarrow> roi_record list \<Rightarrow> metrics \<Rightarrow> metrics" where
  "count_frame fi records m =
     (let capture_us = jetson_elapsed_us (t_frame_begin fi) (t_capture fi);
          propose_us = jetson_elapsed_us (t_capture fi) (t_propose fi);
          publish_us = jetson_elapsed_us (t_before_publish fi) (t_frame_end fi);
          frame_us = jetson_elapsed_us (t_frame_begin fi) (t_frame_end fi);
          n = length records
      in m\<lparr>m_capture := stats_add (m_capture m) capture_us, m_propose := stats_add (m_propose m) propose_us,
           m_publish := stats_add (m_publish m) publish_us, m_frame := stats_add (m_frame m) frame_us,
           m_work := stats_add (m_work m) (frame_us - capture_us), m_frames := m_frames m + 1,
           frame_by_roi_count := (frame_by_roi_count m)(n := stats_add (frame_by_roi_count m n) frame_us)\<rparr>)"

definition csv_lines :: "frame_input \<Rightarrow> u32 \<Rightarrow> roi_record list \<Rightarrow> csv_line list" where
  "csv_lines fi frame_id records =
     (let capture_us = jetson_elapsed_us (t_frame_begin fi) (t_capture fi);
          propose_us = jetson_elapsed_us (t_capture fi) (t_propose fi);
          publish_us = jetson_elapsed_us (t_before_publish fi) (t_frame_end fi);
          frame_us = jetson_elapsed_us (t_frame_begin fi) (t_frame_end fi)
      in if records = [] then [CsvEmpty frame_id capture_us propose_us publish_us frame_us]
         else map (\<lambda>r. CsvRoi frame_id r (length records) capture_us propose_us publish_us frame_us) records)"

text \<open>The first counted frame starts the measurement.\<close>

definition begin_measuring :: "frame_input \<Rightarrow> bool \<Rightarrow> jetson \<Rightarrow> jetson" where
  "begin_measuring fi counted J =
     (if counted \<and> \<not> js_measuring J then J\<lparr>js_measuring := True, measure_start := t_frame_begin fi\<rparr> else J)"

text \<open>After the regions: the timer, a connection that broke, the stream, the statistics.\<close>

definition finish_frame :: "client_config \<Rightarrow> frame_input \<Rightarrow> roi_candidate list \<Rightarrow> bool \<Rightarrow> roi_work \<Rightarrow> jetson \<Rightarrow> jetson" where
  "finish_frame config fi candidates counted W J =
     (let J = J\<lparr>js_client := rw_client W, js_metrics := rw_metrics W\<rparr>;
          J = (if candidates \<noteq> [] then J\<lparr>last_request_ms := fi_sent_ms fi\<rparr> else J);
          J = (if \<not> isConnected (js_client J)
               then J\<lparr>js_client := fst (connectToServer (js_client J) (cc_address config) (cc_port config) (fi_connect fi))\<rparr>
               else J);
          J = (if cc_mjpeg config \<noteq> None then J\<lparr>js_published := js_published J @ [(fi_frame fi, rw_overlays W)]\<rparr> else J);
          J = (if counted
               then J\<lparr>js_metrics := count_frame fi (rw_records W) (js_metrics J), measure_end := t_frame_end fi,
                      js_csv := (if cc_csv config then js_csv J @ csv_lines fi (js_frame_id J) (rw_records W) else js_csv J)\<rparr>
               else J)
      in J\<lparr>js_frame_id := js_frame_id J + 1\<rparr>)"

definition start_work :: "jetson \<Rightarrow> roi_work" where
  "start_work J = \<lparr>rw_client = js_client J, rw_metrics = js_metrics J, rw_records = [], rw_overlays = [], rw_roi_index = 0\<rparr>"

definition process_frame ::
  "cv_lib \<Rightarrow> (decoded_box list \<Rightarrow> decoded_box list) \<Rightarrow> client_config \<Rightarrow> proposer \<Rightarrow> frame_input \<Rightarrow> jetson \<Rightarrow> jetson option" where
  "process_frame cv sort_boxes config p fi J =
     (let frame_id = js_frame_id J in
      case frame_candidates cv sort_boxes config p (fi_frame fi) frame_id of None \<Rightarrow> None
      | Some candidates \<Rightarrow>
          let heartbeat = heartbeat_frame config J (fi_frame_ms fi) candidates;
              candidates = (if heartbeat then candidates @ [heartbeat_candidate frame_id] else candidates);
              counted = (ucast frame_id \<ge> cc_warmup config);
              J = begin_measuring fi counted J
          in map_option (\<lambda>W. finish_frame config fi candidates counted W J)
               (roi_loop cv fi counted heartbeat 0 candidates (start_work J)))"

section \<open>The loop\<close>

datatype frame_event = NewFrame frame_input | NoFrame fs_status

text \<open>The list ends when a stop is requested.\<close>

fun jetson_loop ::
  "cv_lib \<Rightarrow> (decoded_box list \<Rightarrow> decoded_box list) \<Rightarrow> client_config \<Rightarrow> proposer \<Rightarrow> frame_event list \<Rightarrow> jetson \<Rightarrow> jetson option" where
  "jetson_loop cv sort_boxes config p [] J = Some J"
| "jetson_loop cv sort_boxes config p (NoFrame st # es) J =
     (if st = FsTimeout then jetson_loop cv sort_boxes config p es J else Some (J\<lparr>capture_failed := True\<rparr>))"
| "jetson_loop cv sort_boxes config p (NewFrame fi # es) J =
     Option.bind (process_frame cv sort_boxes config p fi J) (jetson_loop cv sort_boxes config p es)"

text \<open>The end: the span measured, the connection closed, and whether the exit status is success.\<close>

definition jetson_end :: "jetson \<Rightarrow> jetson \<times> bool" where
  "jetson_end J =
     (let J = (if js_measuring J
               then J\<lparr>js_metrics := (js_metrics J)\<lparr>wall_us := jetson_elapsed_us (measure_start J) (measure_end J)\<rparr>\<rparr> else J)
      in (J\<lparr>js_client := client_disconnect (js_client J)\<rparr>, \<not> capture_failed J))"

end
