(* ===== verification/Jetson_Frames.thy ===== *)
theory Jetson_Frames
  imports Jetson_Client Safety_Bridge
begin

text \<open>
  What the client's loop does with a frame: which regions reach the board, that the region of an empty
  frame keeps the board informed and never becomes a hazard there, and that the statistics and the
  CSV add up.
\<close>

section \<open>Numbers in arguments\<close>

lemma digit_char: "n < 10 \<Longrightarrow> is_digit (char_of (48 + n)) \<and> of_char (char_of (48 + n :: nat) :: char) = (48 + n :: nat)" for n :: nat
  by (simp add: is_digit_def)

lemma decimal_digits: "decimal n \<noteq> []" "list_all is_digit (decimal n)" "digits_value (decimal n) = n"
proof (induction n rule: decimal.induct)
  case (1 n)
  have d: "decimal n = (if n < 10 then [char_of (48 + n)] else decimal (n div 10) @ [char_of (48 + n mod 10)])"
    by (rule decimal.simps)
  { case 1 then show ?case by (subst d) simp }
  { case 2 then show ?case using "1.IH"(2) by (subst d) (simp add: digit_char) }
  { case 3
    show ?case
    proof (cases "n < 10")
      case False
      then have "digits_value (decimal n) = 10 * digits_value (decimal (n div 10)) + n mod 10"
        by (subst d) (simp add: digits_value_def)
      then show ?thesis using "1.IH"(3) [OF False] by simp
    qed (subst d, simp add: digits_value_def) }
qed

lemma stoul_decimal:
  assumes "rest = [] \<or> \<not> is_digit (hd rest)" "n < 2 ^ 64"
  shows "stoul (decimal n @ rest) = Some (word_of_nat n)"
proof -
  obtain c cs where c: "decimal n = c # cs" "is_digit c" using decimal_digits(1,2) [of n] by (cases "decimal n") auto
  then have sp: "\<not> is_space c" "c \<noteq> CHR ''-''" "c \<noteq> CHR ''+''" by (auto simp: is_digit_def is_space_def)
  have "takeWhile is_digit (decimal n @ rest) = decimal n"
    using decimal_digits(2) [of n] assms(1) by (cases rest) (simp_all add: takeWhile_append list_all_iff)
  then show ?thesis using assms(2) c(1) sp decimal_digits(1,3) [of n]
    by (simp add: stoul_def Let_def)
qed

text \<open>
  The port arguments: a decimal number between 1 and 65535 gives that port and any other number
  that fits 64 bits is refused; what stands behind the digits does not matter.
\<close>

theorem parse_port_decimal:
  assumes "rest = [] \<or> \<not> is_digit (hd rest)" "n < 2 ^ 64"
  shows "parse_port (decimal n @ rest) = (if 1 \<le> n \<and> n \<le> 65535 then Some (word_of_nat n) else None)"
proof -
  have u: "unat (word_of_nat n :: u64) = n" using assms(2) by (simp add: unsigned_of_nat take_bit_nat_eq_self)
  then have "(word_of_nat n :: u64) = 0 \<longleftrightarrow> n = 0" by (metis unat_eq_zero)
  moreover have "(word_of_nat n :: u64) > 0xffff \<longleftrightarrow> 65535 < n" using u by (simp add: word_less_nat_alt)
  moreover have "ucast (word_of_nat n :: u64) = (word_of_nat n :: u16)"
    using take_bit_nat_eq_self [OF assms(2)] by (simp add: unsigned_of_nat)
  ultimately show ?thesis using stoul_decimal [OF assms] by (auto simp: parse_port_def)
qed

theorem parse_port_decimal_witness:
  "parse_port (decimal 8080 @ ''x'') = Some 8080 \<and> parse_port (decimal 70000 @ []) = None"
  using parse_port_decimal [of "''x''" 8080] parse_port_decimal [of "[]" 70000] by (simp add: is_digit_def)

section \<open>Regions that are sent\<close>

text \<open>An ordinary box in an ordinary picture.\<close>

definition picture_ok :: "pixel_mat \<Rightarrow> bool" where
  "picture_ok bgr \<longleftrightarrow> mat_ok bgr \<and> cols bgr \<le> 2 ^ 14 \<and> rows bgr \<le> 2 ^ 14"

definition sendable :: "pixel_mat \<Rightarrow> roi_candidate \<Rightarrow> bool" where
  "sendable bgr cand \<longleftrightarrow> crop_candidate_ok cand \<and> (\<exists>x y w h. object_bbox cand = \<lparr>bb_x = Fin x, bb_y = Fin y, bb_width = Fin w, bb_height = Fin h\<rparr>
     \<and> 0 \<le> x \<and> x < of_int (cols bgr) \<and> 1/16 \<le> w \<and> w \<le> 2 ^ 14 + 1 \<and> 0 \<le> y \<and> y < of_int (rows bgr) \<and> 1/16 \<le> h \<and> h \<le> 2 ^ 14 + 1)"

text \<open>
  The request of a candidate: a square window around its exact box, what lies outside of the picture black,
  scaled to 96 x 96 and sent as RGB, with the candidate's own ids, box and score and the size of the picture.
\<close>

definition request_good :: "cv_lib \<Rightarrow> pixel_mat \<Rightarrow> roi_candidate \<Rightarrow> prepared_roi \<Rightarrow> bool" where
  "request_good cv bgr cand p \<longleftrightarrow> (\<exists>x y w h r.
     object_bbox cand = \<lparr>bb_x = Fin x, bb_y = Fin y, bb_width = Fin w, bb_height = Fin h\<rparr>
     \<and> crop_good cv bgr cand x y w h r \<and> prepared_good cand bgr r p)"

lemma request_good_values:
  assumes "request_good cv bgr cand p"
  shows "p_frame_id p = k_frame_id cand" "p_roi_id p = k_roi_id cand" "f32_of_bits (p_objectness p) = k_objectness cand"
    "is_8uc3 (rgb_pixels p)" "cols (rgb_pixels p) = 96" "rows (rgb_pixels p) = 96" "length (pixels (rgb_pixels p)) = IMAGE_PAYLOAD_SIZE"
  using assms by (auto simp: request_good_def prepared_good_def)

lemma request_of_sendable:
  assumes "cv_ok cv" "picture_ok bgr" "sendable bgr cand"
  obtains p where "request_of cv bgr cand = Some (Some p)" "request_good cv bgr cand p"
proof -
  obtain x y w h where b: "object_bbox cand = \<lparr>bb_x = Fin x, bb_y = Fin y, bb_width = Fin w, bb_height = Fin h\<rparr>"
     "0 \<le> x" "x < of_int (cols bgr)" "1/16 \<le> w" "w \<le> 2 ^ 14 + 1" "0 \<le> y" "y < of_int (rows bgr)" "1/16 \<le> h" "h \<le> 2 ^ 14 + 1"
    and c: "crop_candidate_ok cand" using assms(3) unfolding sendable_def by blast
  have m: "mat_ok bgr" "cols bgr \<le> 2 ^ 14" "rows bgr \<le> 2 ^ 14" using assms(2) by (simp_all add: picture_ok_def)
  obtain r where r: "crop cv CropConfig_default bgr cand = Some (Some r)" "crop_good cv bgr cand x y w h r"
    using crop_ordinary_box [OF assms(1) m b] by blast
  obtain p where "prepare cv r = Some p" "prepared_good cand bgr r p" using prepare_good [OF assms(1) c r(2)] by blast
  moreover have "request_good cv bgr cand p" if "prepared_good cand bgr r p" for p
    unfolding request_good_def using b(1) r(2) that by blast
  ultimately show thesis using that r(1) by (simp add: request_of_def)
qed

lemma heartbeat_sendable: "picture_ok bgr \<Longrightarrow> sendable bgr (heartbeat_candidate frame_id)"
  by (simp add: sendable_def heartbeat_candidate_def crop_candidate_ok_def picture_ok_def mat_ok_def)

text \<open>
  What a client has sent: the bytes of the requests in their order, all of them when the connection is still open,
  and otherwise those up to where it broke.
\<close>

definition requests_sent :: "prepared_roi list \<Rightarrow> tcp_client \<Rightarrow> tcp_client \<Rightarrow> bool" where
  "requests_sent ps C C' \<longleftrightarrow> (\<exists>sent. outgoing (peer C') = outgoing (peer C) @ sent
     \<and> prefix sent (concat (map request_bytes ps)) \<and> (isConnected C' \<longrightarrow> sent = concat (map request_bytes ps)))"

lemma sendAll_sends:
  assumes "sendAll C bs = (C', st)"
  shows "\<exists>sent. outgoing (peer C') = outgoing (peer C) @ sent \<and> prefix sent bs \<and> (st = Ok \<longrightarrow> sent = bs)"
proof (cases "st = Ok \<or> bs = []")
  case True
  then show ?thesis using assms sendAll_ok(1) [of C bs C'] by (auto simp: sendAll_def split: if_splits)
next
  case False
  then have "client_write C bs = (C', False)" using assms by (simp add: client_write_def)
  then show ?thesis using client_out.write_fails [of C bs C'] False take_is_prefix by blast
qed

lemma receive_keeps_outgoing:
  "receiveAll C n = (C', bs, st) \<Longrightarrow> outgoing (peer C') = outgoing (peer C)"
  by (auto simp: receiveAll_def Let_def split: if_splits prod.splits io_result.splits)

lemma classify_receive_outgoing:
  "classify_receive C roi r = (C', st, r') \<Longrightarrow> outgoing (peer C') = outgoing (peer C)"
  by (auto simp: classify_receive_def Let_def split: if_splits prod.splits) (metis receive_keeps_outgoing)+

lemma classify_send_sends:
  assumes "classify_send C roi = (C', st)" "length (pixels (rgb_pixels roi)) = IMAGE_PAYLOAD_SIZE"
  shows "\<exists>sent. outgoing (peer C') = outgoing (peer C) @ sent \<and> prefix sent (request_bytes roi)"
proof (cases "st = Ok")
  case True
  then show ?thesis using classify_send_ok(1) assms by blast
next
  case False
  obtain C1 st1 where 1: "sendAll C (encode_header (replicate HEADER_SIZE 0) (request_header roi)) = (C1, st1)" by fastforce
  obtain C2 st2 where 2: "sendAll C1 (encode_bbox (replicate BBOX_PAYLOAD_SIZE 0) (request_bbox roi)) = (C2, st2)" by fastforce
  obtain C3 st3 where 3: "sendAll C2 (pixels (rgb_pixels roi)) = (C3, st3)" by fastforce
  have "C' = C \<or> C' = C1 \<or> st1 = Ok \<and> C' = C2 \<or> st1 = Ok \<and> st2 = Ok \<and> C' = C3"
    using assms 1 2 3 by (auto simp: classify_send_def Let_def mat_clone_def split: if_splits)
  then show ?thesis using sendAll_sends [OF 1] sendAll_sends [OF 2] sendAll_sends [OF 3]
    by (auto simp: request_bytes_def header.enc_bytes bbox.enc_bytes prefix_def)
qed

text \<open>One exchange sends its request; on a closed connection it sends nothing, and it never opens one.\<close>

lemma classify_sends:
  assumes "request_good cv bgr cand q"
  shows "requests_sent [q] C (fst (classify C q r))"
proof -
  note q = request_good_values [OF assms]
  obtain C1 st where s: "classify_send C q = (C1, st)" by fastforce
  show ?thesis
  proof (cases "st = Ok")
    case True
    obtain C2 st2 r2 where rc: "classify_receive C1 q r = (C2, st2, r2)" by (metis prod_cases3)
    show ?thesis using classify_send_ok(1) [OF s [unfolded True] q(7)] s True rc classify_receive_outgoing [OF rc]
      by (simp add: requests_sent_def classify_def)
  next
    case False
    have "mat_empty (rgb_pixels q) = False" using q(5-7) by (auto simp: mat_empty_def IMAGE_PAYLOAD_SIZE_def)
    then have "\<not> isConnected C1" using classify_send_live(2) [OF s False] s False q(4-6)
      by (auto simp: classify_send_def Let_def mat_clone_def mat_empty_def split: if_splits prod.splits dest: sendAll_live)
    then show ?thesis using classify_send_sends [OF s q(7)] s False by (simp add: requests_sent_def classify_def)
  qed
qed

lemma classify_closed: "\<not> isConnected C \<Longrightarrow> fst (classify C q r) = C"
  by (simp add: classify_def classify_send_def)

text \<open>The client after the regions of a frame.\<close>

definition after_requests :: "prepared_roi list \<Rightarrow> tcp_client \<Rightarrow> tcp_client" where
  "after_requests ps C = foldl (\<lambda>C p. fst (classify C p no_result)) C ps"

lemma roi_step_client:
  assumes "request_of cv (fi_frame fi) cand = Some (Some p)"
  obtains W' where "roi_step cv fi counted hb n cand W = Some W'" "rw_client W' = fst (classify (rw_client W) p no_result)"
proof -
  obtain a b c where t: "t_roi fi n = (a, b, c)" by (metis prod_cases3)
  obtain C st res where r: "classify (rw_client W) p no_result = (C, st, res)" by (metis prod_cases3)
  show thesis using that assms t r by (simp add: roi_step_def Let_def)
qed

lemma roi_loop_sends:
  assumes "cv_ok cv" "picture_ok (fi_frame fi)" "list_all (sendable (fi_frame fi)) cands"
  obtains W' ps where "roi_loop cv fi counted hb n cands W = Some W'" "rw_client W' = after_requests ps (rw_client W)"
    "list_all2 (request_good cv (fi_frame fi)) cands ps"
proof -
  have "\<exists>W' ps. roi_loop cv fi counted hb n cands W = Some W' \<and> rw_client W' = after_requests ps (rw_client W)
    \<and> list_all2 (request_good cv (fi_frame fi)) cands ps"
    using assms(3)
  proof (induction cands arbitrary: n W)
    case Nil
    then show ?case by (intro exI [of _ W] exI [of _ "[]"]) (simp add: after_requests_def)
  next
    case (Cons cand cands)
    obtain p where p: "request_of cv (fi_frame fi) cand = Some (Some p)" "request_good cv (fi_frame fi) cand p"
      using request_of_sendable [OF assms(1,2)] Cons.prems by auto
    obtain W1 where W1: "roi_step cv fi counted hb n cand W = Some W1" "rw_client W1 = fst (classify (rw_client W) p no_result)"
      by (rule roi_step_client [OF p(1)])
    obtain W' ps where "roi_loop cv fi counted hb (Suc n) cands W1 = Some W'" "rw_client W' = after_requests ps (rw_client W1)"
      "list_all2 (request_good cv (fi_frame fi)) cands ps" using Cons.IH [of "Suc n" W1] Cons.prems by auto
    then show ?case using W1 p(2) by (intro exI [of _ W'] exI [of _ "p # ps"]) (simp add: after_requests_def)
  qed
  then show thesis using that by blast
qed

lemma after_requests_closed: "\<not> isConnected C \<Longrightarrow> after_requests ps C = C"
  by (induction ps) (simp_all add: after_requests_def classify_closed)

lemma after_requests_sent:
  assumes "list_all2 (request_good cv bgr) cands ps"
  shows "requests_sent ps C (after_requests ps C)"
  using assms
proof (induction cands ps arbitrary: C rule: list_all2_induct)
  case (Cons cand cands p ps)
  let ?C = "fst (classify C p no_result)"
  have e: "after_requests (p # ps) C = after_requests ps ?C" by (simp add: after_requests_def)
  obtain sent where s: "outgoing (peer ?C) = outgoing (peer C) @ sent" "prefix sent (request_bytes p)"
    "isConnected ?C \<longrightarrow> sent = request_bytes p"
    using classify_sends [OF Cons.hyps(1)] unfolding requests_sent_def by auto
  show ?case
  proof (cases "isConnected ?C")
    case True
    then show ?thesis using Cons.IH [of ?C] s(1,3) unfolding e requests_sent_def by auto
  next
    case False
    then show ?thesis using s(1,2) unfolding e requests_sent_def after_requests_closed [OF False]
      by (auto simp: prefix_def)
  qed
qed (simp add: requests_sent_def after_requests_def)

section \<open>A frame, member by member\<close>

text \<open>The connection after a frame: broken ones are renewed once.\<close>

definition reconnected :: "client_config \<Rightarrow> connect_reply \<Rightarrow> tcp_client \<Rightarrow> tcp_client" where
  "reconnected config sys C =
     (if isConnected C then C else fst (connectToServer C (cc_address config) (cc_port config) sys))"

definition frame_counted :: "client_config \<Rightarrow> jetson \<Rightarrow> bool" where
  "frame_counted config J \<longleftrightarrow> ucast (js_frame_id J) \<ge> cc_warmup config"

definition sent_candidates :: "client_config \<Rightarrow> jetson \<Rightarrow> u64 \<Rightarrow> roi_candidate list \<Rightarrow> roi_candidate list" where
  "sent_candidates config J frame_ms cands =
     (if heartbeat_frame config J frame_ms cands then cands @ [heartbeat_candidate (js_frame_id J)] else cands)"

definition frame_ended :: "client_config \<Rightarrow> frame_input \<Rightarrow> roi_candidate list \<Rightarrow> roi_work \<Rightarrow> jetson \<Rightarrow> jetson \<Rightarrow> bool" where
  "frame_ended config fi cands W J J' \<longleftrightarrow>
     js_client J' = reconnected config (fi_connect fi) (rw_client W) \<and> js_frame_id J' = js_frame_id J + 1
     \<and> last_request_ms J' = (if cands \<noteq> [] then fi_sent_ms fi else last_request_ms J)
     \<and> js_metrics J' = (if frame_counted config J then count_frame fi (rw_records W) (rw_metrics W) else rw_metrics W)
     \<and> js_csv J' = js_csv J @ (if frame_counted config J \<and> cc_csv config then csv_lines fi (js_frame_id J) (rw_records W) else [])
     \<and> js_published J' = js_published J @ (if cc_mjpeg config \<noteq> None then [(fi_frame fi, rw_overlays W)] else [])"

lemma begin_measuring_keeps [simp]:
  "js_client (begin_measuring fi c J) = js_client J" "js_metrics (begin_measuring fi c J) = js_metrics J"
  "js_frame_id (begin_measuring fi c J) = js_frame_id J" "last_request_ms (begin_measuring fi c J) = last_request_ms J"
  "js_csv (begin_measuring fi c J) = js_csv J" "js_published (begin_measuring fi c J) = js_published J"
  "start_work (begin_measuring fi c J) = start_work J"
  by (simp_all add: begin_measuring_def start_work_def)

lemma finish_frame_ended:
  "frame_ended config fi cands W J (finish_frame config fi cands (frame_counted config J) W (begin_measuring fi c J))"
  by (simp add: finish_frame_def frame_ended_def reconnected_def Let_def)

lemma process_frame_eq:
  assumes "frame_candidates cv sort_boxes config p (fi_frame fi) (js_frame_id J) = Some cands"
  shows "process_frame cv sort_boxes config p fi J =
    map_option (\<lambda>W. finish_frame config fi (sent_candidates config J (fi_frame_ms fi) cands) (frame_counted config J) W
        (begin_measuring fi (frame_counted config J) J))
      (roi_loop cv fi (frame_counted config J) (heartbeat_frame config J (fi_frame_ms fi) cands) 0
        (sent_candidates config J (fi_frame_ms fi) cands) (start_work J))"
  by (simp add: process_frame_def assms sent_candidates_def frame_counted_def Let_def)

lemma process_frame_loop:
  assumes "frame_candidates cv sort_boxes config p (fi_frame fi) (js_frame_id J) = Some cands"
    and "roi_loop cv fi (frame_counted config J) (heartbeat_frame config J (fi_frame_ms fi) cands) 0
        (sent_candidates config J (fi_frame_ms fi) cands) (start_work J) = Some W"
  obtains J' where "process_frame cv sort_boxes config p fi J = Some J'"
    "frame_ended config fi (sent_candidates config J (fi_frame_ms fi) cands) W J J'"
  using that finish_frame_ended by (simp add: process_frame_eq [OF assms(1)] assms(2))

section \<open>The board's view of an empty frame\<close>

text \<open>A region of no objectness leaves the safety bridge as it is.\<close>

lemma no_objectness_ignored:
  assumes "f32_of_bits (b_objectness b) = Fin 0" "fp_lt (Fin 0) (min_objectness H)"
  shows "add_observation H b r = H"
  using assms by (simp add: add_observation_def)

lemma after_requests_one [simp]: "after_requests [p] C = fst (classify C p no_result)"
  by (simp add: after_requests_def)

lemma heartbeat_loop:
  assumes "cv_ok cv" "picture_ok (fi_frame fi)"
  obtains p where "request_good cv (fi_frame fi) (heartbeat_candidate f) p"
    "roi_loop cv fi counted True n [heartbeat_candidate f] W = Some (W\<lparr>rw_client := fst (classify (rw_client W) p no_result)\<rparr>)"
proof -
  obtain p where p: "request_of cv (fi_frame fi) (heartbeat_candidate f) = Some (Some p)"
    "request_good cv (fi_frame fi) (heartbeat_candidate f) p"
    by (rule request_of_sendable [OF assms heartbeat_sendable [OF assms(2)]])
  obtain a b c where t: "t_roi fi n = (a, b, c)" by (metis prod_cases3)
  obtain C st res where r: "classify (rw_client W) p no_result = (C, st, res)" by (metis prod_cases3)
  show thesis using that p t r by (simp add: roi_step_def Let_def)
qed

text \<open>
  C12: An empty frame keeps the board informed and is never taken for a hazard. When nothing is
  proposed and the last request is at least the interval old, the frame makes exactly one request, with the
  frame's id and the corner of the picture: when the connection is open afterwards, its bytes have gone out
  behind what was sent before, and otherwise a part of them, as far as the connection carried them. When they have gone
  out, the time of the last request is renewed. The region is neither counted nor drawn; and whatever the
  board answers, its safety bridge ignores the observation, as long as its threshold for objectness is positive.
\<close>

theorem heartbeat_informs_harmlessly:
  assumes "cv_ok cv" "picture_ok (fi_frame fi)"
    and "frame_candidates cv sort_boxes config p (fi_frame fi) (js_frame_id J) = Some []"
    and "cc_heartbeat config" "fi_frame_ms fi - last_request_ms J \<ge> cc_heartbeat_ms config"
  shows "\<exists>J' q C. process_frame cv sort_boxes config p fi J = Some J'
    \<and> request_good cv (fi_frame fi) (heartbeat_candidate (js_frame_id J)) q \<and> p_frame_id q = js_frame_id J
    \<and> C = fst (classify (js_client J) q no_result) \<and> requests_sent [q] (js_client J) C
    \<and> js_client J' = reconnected config (fi_connect fi) C
    \<and> (outgoing (peer C) = outgoing (peer (js_client J)) @ request_bytes q \<longrightarrow> last_request_ms J' = fi_sent_ms fi)
    \<and> js_frame_id J' = js_frame_id J + 1
    \<and> m_rois (js_metrics J') = m_rois (js_metrics J) \<and> status_counts (js_metrics J') = status_counts (js_metrics J)
    \<and> (cc_mjpeg config \<noteq> None \<longrightarrow> js_published J' = js_published J @ [(fi_frame fi, [])])
    \<and> (\<forall>H r. fp_lt (Fin 0) (min_objectness (H :: posix_port handle)) \<longrightarrow> add_observation H (request_bbox q) r = H)"
proof -
  let ?f = "js_frame_id J"
  obtain q where q: "request_good cv (fi_frame fi) (heartbeat_candidate ?f) q"
    "roi_loop cv fi (frame_counted config J) True 0 [heartbeat_candidate ?f] (start_work J)
       = Some ((start_work J)\<lparr>rw_client := fst (classify (rw_client (start_work J)) q no_result)\<rparr>)"
    by (rule heartbeat_loop [OF assms(1,2)])
  have hb: "heartbeat_frame config J (fi_frame_ms fi) []" using assms(4,5) by (simp add: heartbeat_frame_def)
  then have c: "sent_candidates config J (fi_frame_ms fi) [] = [heartbeat_candidate ?f]" by (simp add: sent_candidates_def)
  obtain J' where J': "process_frame cv sort_boxes config p fi J = Some J'"
    "frame_ended config fi [heartbeat_candidate ?f] ((start_work J)\<lparr>rw_client := fst (classify (js_client J) q no_result)\<rparr>) J J'"
    using process_frame_loop [OF assms(3)] q(2) hb c by (simp add: start_work_def) metis
  have obj: "f32_of_bits (b_objectness (request_bbox q)) = Fin 0" and id: "p_frame_id q = ?f"
    using request_good_values(1,3) [OF q(1)] by (simp_all add: heartbeat_candidate_def request_bbox_def)
  have "js_client J' = reconnected config (fi_connect fi) (fst (classify (js_client J) q no_result))"
    "last_request_ms J' = fi_sent_ms fi" "js_frame_id J' = ?f + 1"
    "m_rois (js_metrics J') = m_rois (js_metrics J)" "status_counts (js_metrics J') = status_counts (js_metrics J)"
    "cc_mjpeg config \<noteq> None \<longrightarrow> js_published J' = js_published J @ [(fi_frame fi, [])]"
    using J'(2) by (simp_all add: frame_ended_def start_work_def count_frame_def Let_def)
  then show ?thesis using J'(1) q(1) id classify_sends [OF q(1), of "js_client J" no_result]
    by (intro exI [of _ J'] exI [of _ q] exI [of _ "fst (classify (js_client J) q no_result)"])
      (use no_objectness_ignored [OF obj] in blast)
qed

definition example_config :: client_config where
  "example_config = \<lparr>cc_warmup = 10, cc_quiet = False, cc_no_delay = False, cc_csv = True, cc_heartbeat = True, cc_heartbeat_ms = 150,
     cc_full_frame = False, cc_proposer = ProposerConfig_default, cc_address = ''10.0.0.2'', cc_port = 5000, cc_mjpeg = None\<rparr>"

definition example_input :: frame_input where
  "example_input = \<lparr>fi_frame = mat_of 360 640 (\<lambda>y x c. 9), t_frame_begin = 0, t_capture = 30000000, fi_frame_ms = 900,
     t_propose = 45000000, t_roi = (\<lambda>n. (45000000, 46000000, 53000000)), fi_sent_ms = 907,
     fi_connect = \<lparr>c_new_fd = 7, c_pton_ok = True, c_connect_ok = True, c_conn = \<lparr>incoming = [], send_replies = [], outgoing = []\<rparr>\<rparr>,
     t_before_publish = 53000000, t_frame_end = 54000000\<rparr>"

lemma example_picture_ok: "picture_ok (fi_frame example_input)"
  by (simp add: picture_ok_def example_input_def)

text \<open>A connection that takes one request and answers it.\<close>

definition example_response :: "u8 list" where
  "example_response = response_bytes \<lparr>h_magic = ROI_MAGIC, h_version = ROI_VERSION, h_type = MESSAGE_REQUEST, h_frame_id = 0, h_roi_id = 0,
     h_payload_size = 0\<rparr> \<lparr>r_status = STATUS_OK, r_class_id = 3, r_confidence_ppm = 900000\<rparr>"

definition answering_client :: tcp_client where
  "answering_client = \<lparr>sock_fd = 5, c_held = [5], peer = \<lparr>incoming = [RIntr, Segment example_response],
     send_replies = [Took IMAGE_PAYLOAD_SIZE, Took IMAGE_PAYLOAD_SIZE, Took IMAGE_PAYLOAD_SIZE], outgoing = []\<rparr>\<rparr>"

lemma answering_client_open:
  assumes "request_good cv bgr cand q" "k_frame_id cand = 0" "k_roi_id cand = 0"
  shows "isConnected (fst (classify answering_client q no_result))"
proof -
  note q = request_good_values [OF assms(1)]
  let ?C = "answering_client\<lparr>peer := (peer answering_client)\<lparr>send_replies := [], outgoing := outgoing (peer answering_client) @ request_bytes q\<rparr>\<rparr>"
  have "classify_send answering_client q = (?C, Ok)"
    by (rule classify_send_taken [where a = IMAGE_PAYLOAD_SIZE and b = IMAGE_PAYLOAD_SIZE and c = IMAGE_PAYLOAD_SIZE, OF _ _ q(4-7)]) (simp_all add: answering_client_def isConnected_def size_defs)
  moreover have "\<exists>C'. classify_receive ?C q no_result = (C', Ok, \<lparr>c_frame_id = p_frame_id q, c_roi_id = p_roi_id q, c_status = STATUS_OK,
      c_class_id = 3, c_confidence_ppm = 900000\<rparr>) \<and> isConnected C' \<and> stream_of (incoming (peer C')) = []"
    using classify_receive_response [of ?C "\<lparr>h_magic = ROI_MAGIC, h_version = ROI_VERSION, h_type = MESSAGE_REQUEST, h_frame_id = 0,
        h_roi_id = 0, h_payload_size = 0\<rparr>" "\<lparr>r_status = STATUS_OK, r_class_id = 3, r_confidence_ppm = 900000\<rparr>" "[]" q no_result]
      q(1,2) assms(2,3)
    by (simp add: answering_client_def isConnected_def example_response_def response_acceptable_def CONFIDENCE_PPM_MAX_def STATUS_OK_def
        STATUS_POSTPROCESS_ERROR_def INVALID_CLASS_ID_def)
  ultimately show ?thesis by (auto simp: classify_def)
qed

theorem heartbeat_informs_harmlessly_witness:
  "let J = jetson_initial answering_client; p = \<lparr>pr_config = ProposerConfig_default, pr_engine = None\<rparr>
   in \<exists>J' q. process_frame reference_cv (\<lambda>bs. bs) example_config p example_input J = Some J'
    \<and> outgoing (peer (js_client J')) = request_bytes q \<and> last_request_ms J' = 907 \<and> m_rois (js_metrics J') = 0"
proof -
  let ?J = "jetson_initial answering_client"
  let ?p = "\<lparr>pr_config = ProposerConfig_default, pr_engine = None\<rparr>"
  have start: "js_client ?J = answering_client" "js_frame_id ?J = 0" "fi_sent_ms example_input = 907" "m_rois (js_metrics ?J) = 0"
    "cc_heartbeat example_config" "outgoing (peer answering_client) = []"
    by (simp_all add: jetson_initial_def example_config_def example_input_def Metrics_def answering_client_def)
  have "frame_candidates reference_cv (\<lambda>bs. bs) example_config ?p (fi_frame example_input) (js_frame_id ?J) = Some []"
    by (simp add: frame_candidates_def example_config_def propose_def)
  moreover have "fi_frame_ms example_input - last_request_ms ?J \<ge> cc_heartbeat_ms example_config"
    by (simp add: example_input_def jetson_initial_def example_config_def)
  ultimately obtain J' q C where r: "process_frame reference_cv (\<lambda>bs. bs) example_config ?p example_input ?J = Some J'"
    "request_good reference_cv (fi_frame example_input) (heartbeat_candidate 0) q"
    "C = fst (classify answering_client q no_result)" "requests_sent [q] answering_client C"
    "js_client J' = reconnected example_config (fi_connect example_input) C"
    "outgoing (peer C) = request_bytes q \<longrightarrow> last_request_ms J' = 907" "m_rois (js_metrics J') = 0"
    using heartbeat_informs_harmlessly [OF reference_cv_ok example_picture_ok, of "\<lambda>bs. bs" example_config ?p ?J] start by auto
  have "isConnected C" unfolding r(3) by (rule answering_client_open [OF r(2)]) (simp_all add: heartbeat_candidate_def)
  then have "js_client J' = C" "outgoing (peer C) = request_bytes q"
    using r(4,5) start(6) by (auto simp: reconnected_def requests_sent_def)
  then show ?thesis using r(1,6,7) by (auto simp: Let_def)
qed

section \<open>Proposals are sent\<close>

text \<open>What the proposer found is large enough to crop when its sides are a sixteenth of a pixel.\<close>

definition wide_enough :: "roi_candidate \<Rightarrow> bool" where
  "wide_enough cand \<longleftrightarrow> fp_le (Fin (1/16)) (bb_width (object_bbox cand)) \<and> fp_le (Fin (1/16)) (bb_height (object_bbox cand))"

lemma candidate_sendable:
  assumes "box_in (cols bgr) (rows bgr) b" "picture_ok bgr" "fp_ok binary32 (dscore b)" "wide_enough (candidate_of f n b)"
  shows "sendable bgr (candidate_of f n b)"
proof -
  obtain x1 y1 x2 y2 where b: "dx1 b = Fin x1" "dy1 b = Fin y1" "dx2 b = Fin x2" "dy2 b = Fin y2"
    "0 \<le> x1" "x1 < x2" "x2 \<le> of_int (cols bgr)" "0 \<le> y1" "y1 < y2" "y2 \<le> of_int (rows bgr)"
    "fp_ok binary32 (Fin x1)" "fp_ok binary32 (Fin y1)"
    using assms(1) unfolding box_in_def by auto
  have size: "(of_int (cols bgr) :: rat) \<le> 2 ^ 14" "(of_int (rows bgr) :: rat) \<le> 2 ^ 14"
    using assms(2) of_int_le_iff [where ?'a = rat, of "cols bgr" "2 ^ 14"] of_int_le_iff [where ?'a = rat, of "rows bgr" "2 ^ 14"]
    by (simp_all add: picture_ok_def)
  have side: "\<exists>w. round_fp binary32 (u - v) = Fin w \<and> w \<le> 2 ^ 14" if "v < u" "u \<le> 2 ^ 14" "0 \<le> v" for u v :: rat
  proof -
    have ok: "fp_ok binary32 (Fin (2 ^ 14))" using round32_dyadic [of "2 ^ 14" 1] by simp
    have "fp_le (round_fp binary32 (u - v)) (Fin (2 ^ 14))" using that by (intro round_fp_le ok) simp_all
    moreover have "fp_le (Fin 0) (round_fp binary32 (u - v))" using that by (intro round_fp_ge) simp_all
    ultimately show ?thesis by (cases "round_fp binary32 (u - v)") auto
  qed
  have "x2 \<le> 2 ^ 14" "y2 \<le> 2 ^ 14" using b(7,10) size by linarith+
  then obtain w h where wh: "round_fp binary32 (x2 - x1) = Fin w" "w \<le> 2 ^ 14" "round_fp binary32 (y2 - y1) = Fin h" "h \<le> 2 ^ 14"
    using side [OF b(6) _ b(5)] side [OF b(9) _ b(8)] by blast
  have box: "object_bbox (candidate_of f n b) = \<lparr>bb_x = Fin x1, bb_y = Fin y1, bb_width = Fin w, bb_height = Fin h\<rparr>"
    using b(1-4) wh by (simp add: candidate_of_def fp_sub_def)
  have "1/16 \<le> w" "1/16 \<le> h" using assms(4) by (simp_all add: wide_enough_def box)
  moreover have "fp_ok binary32 (Fin w)" "fp_ok binary32 (Fin h)"
    using fp_ok_round [of binary32 "x2 - x1"] fp_ok_round [of binary32 "y2 - y1"] wh by simp_all
  then have "crop_candidate_ok (candidate_of f n b)" using b(11,12) assms(3) box by (simp add: crop_candidate_ok_def) (simp add: candidate_of_def)
  moreover have "x1 < of_int (cols bgr)" "y1 < of_int (rows bgr)" using b by linarith+
  ultimately show ?thesis unfolding sendable_def using box b(5,8) wh(2,4)
    by (intro conjI exI [of _ x1] exI [of _ y1] exI [of _ w] exI [of _ h]) simp_all
qed

lemma candidates_of_in: "cand \<in> set (candidates_of f ks) \<Longrightarrow> \<exists>k \<in> set ks. \<exists>n. cand = candidate_of f n k"
  by (auto simp: candidates_of_def)

lemma proposals_sendable:
  assumes "proposals_good config (cols bgr) (rows bgr) (decode_boxes config lb (cols bgr) (rows bgr) out) ks"
    and "picture_ok bgr" "5 * kPredictionCount \<le> length out" "list_all (fp_ok binary32) out"
    and "list_all wide_enough (candidates_of f ks)"
  shows "list_all (sendable bgr) (candidates_of f ks)"
  unfolding list_all_iff
proof
  fix cand assume c: "cand \<in> set (candidates_of f ks)"
  then obtain b n where b: "b \<in> set ks" "cand = candidate_of f n b" using candidates_of_in by blast
  let ?bs = "decode_boxes config lb (cols bgr) (rows bgr) out"
  have size: "1 \<le> cols bgr" "cols bgr \<le> 2 ^ 24" "1 \<le> rows bgr" "rows bgr \<le> 2 ^ 24" using assms(2) by (simp_all add: picture_ok_def mat_ok_def)
  have "mset ks \<subseteq># mset ?bs" using assms(1) by (simp add: proposals_good_def)
  then have "b \<in> set ?bs" using b(1) by (metis mset_subset_eqD set_mset_mset)
  from decode_boxes_in(1,2) [OF this size] obtain i where i: "box_in (cols bgr) (rows bgr) b" "i < kPredictionCount"
    "dscore b = out ! (4 * kPredictionCount + i)" by blast
  moreover have "4 * kPredictionCount + i < length out" using i(2) assms(3) by simp
  ultimately have "fp_ok binary32 (dscore b)" using assms(4) by (simp add: list_all_length)
  moreover have "wide_enough cand" using assms(5) c by (simp add: list_all_iff)
  ultimately show "sendable bgr cand" using candidate_sendable [OF i(1) assms(2)] b(2) by simp
qed

lemma process_frame_requests:
  assumes "frame_candidates cv sort_boxes config p (fi_frame fi) (js_frame_id J) = Some cands" "cands \<noteq> []"
    and "cv_ok cv" "picture_ok (fi_frame fi)" "list_all (sendable (fi_frame fi)) cands"
  obtains J' ps where "process_frame cv sort_boxes config p fi J = Some J'" "list_all2 (request_good cv (fi_frame fi)) cands ps"
    "js_client J' = reconnected config (fi_connect fi) (after_requests ps (js_client J))"
    "last_request_ms J' = fi_sent_ms fi"
proof -
  have hb: "\<not> heartbeat_frame config J (fi_frame_ms fi) cands" using assms(2) by (simp add: heartbeat_frame_def)
  obtain W ps where W: "roi_loop cv fi (frame_counted config J) False 0 cands (start_work J) = Some W"
    "rw_client W = after_requests ps (rw_client (start_work J))" "list_all2 (request_good cv (fi_frame fi)) cands ps"
    by (rule roi_loop_sends [OF assms(3-5)])
  have c: "sent_candidates config J (fi_frame_ms fi) cands = cands" using hb by (simp add: sent_candidates_def)
  obtain J' where J': "process_frame cv sort_boxes config p fi J = Some J'" "frame_ended config fi cands W J J'"
    using process_frame_loop [OF assms(1)] W(1) hb c by metis
  show thesis by (rule that [OF J'(1) W(3)]) (use J'(2) W(2) assms(2) in \<open>simp_all add: frame_ended_def start_work_def\<close>)
qed

text \<open>
  C9: What is proposed reaches the board. In an ordinary picture, with a network that returns enough
  values, all of them binary32 and none NaN, and proposals with sides of at least a sixteenth of a
  pixel: a frame with proposals sends one request per proposal, in the order of their scores, with
  the frame's id, the roi ids 0, 1, ..., the proposal's own box and score, and its own part of the
  picture. The bytes of these requests go out behind what was sent before: all of them when the connection is
  open after the last exchange, and otherwise up to where it broke, and nothing else. When all have gone
  out, the time of the last request is that of this frame. A broken connection is renewed once, after the frame.
\<close>

theorem proposals_reach_board:
  assumes "cv_ok cv" "picture_ok (fi_frame fi)" "cols (fi_frame fi) \<le> 320 * rows (fi_frame fi)" "rows (fi_frame fi) \<le> 320 * cols (fi_frame fi)"
    and "pr_engine p = Some infer" "infer_ok infer" "\<forall>inp. list_all (fp_ok binary32) (infer inp)"
    and "sort_ok sort_boxes" "0 < max_candidates (pr_config p)" "\<not> cc_full_frame config"
    and "propose cv sort_boxes p (fi_frame fi) (js_frame_id J) = Some cands" "cands \<noteq> []" "list_all wide_enough cands"
  shows "\<exists>J' ps C. process_frame cv sort_boxes config p fi J = Some J' \<and> list_all2 (request_good cv (fi_frame fi)) cands ps
    \<and> map p_frame_id ps = replicate (length cands) (js_frame_id J) \<and> map p_roi_id ps = map word_of_nat [0..<length cands]
    \<and> C = after_requests ps (js_client J) \<and> requests_sent ps (js_client J) C
    \<and> js_client J' = reconnected config (fi_connect fi) C
    \<and> (outgoing (peer C) = outgoing (peer (js_client J)) @ concat (map request_bytes ps) \<longrightarrow> last_request_ms J' = fi_sent_ms fi)"
proof -
  let ?bgr = "fi_frame fi"
  have m: "mat_ok ?bgr" "cols ?bgr \<le> 2 ^ 14" "rows ?bgr \<le> 2 ^ 14" using assms(2) by (simp_all add: picture_ok_def)
  obtain lb ks where ks: "propose cv sort_boxes p ?bgr (js_frame_id J) = Some (candidates_of (js_frame_id J) ks)"
    "proposals_good (pr_config p) (cols ?bgr) (rows ?bgr) (decode_boxes (pr_config p) lb (cols ?bgr) (rows ?bgr) (infer (model_input cv lb ?bgr))) ks"
    by (rule propose_defined [OF assms(5,6,8,9) m assms(3,4)])
  have cands: "cands = candidates_of (js_frame_id J) ks" using ks(1) assms(11) by simp
  have "5 * kPredictionCount \<le> length (infer (model_input cv lb ?bgr))" "list_all (fp_ok binary32) (infer (model_input cv lb ?bgr))"
    using assms(6,7) by (simp_all add: infer_ok_def)
  from proposals_sendable [OF ks(2) assms(2) this] have send: "list_all (sendable ?bgr) cands" using assms(13) cands by simp
  have "frame_candidates cv sort_boxes config p ?bgr (js_frame_id J) = Some cands" using assms(10,11) by (simp add: frame_candidates_def)
  from process_frame_requests [OF this assms(12,1,2) send] obtain J' ps where
    ps: "process_frame cv sort_boxes config p fi J = Some J'" "list_all2 (request_good cv ?bgr) cands ps"
      "js_client J' = reconnected config (fi_connect fi) (after_requests ps (js_client J))" "last_request_ms J' = fi_sent_ms fi" .
  have len: "length ps = length cands" "\<And>i. i < length cands \<Longrightarrow> request_good cv ?bgr (cands ! i) (ps ! i)"
    using ps(2) by (auto simp: list_all2_conv_all_nth)
  have "map p_frame_id ps = replicate (length cands) (js_frame_id J)" "map p_roi_id ps = map word_of_nat [0..<length cands]"
    using len(1) request_good_values(1,2) [OF len(2)]
    by (auto intro!: nth_equalityI simp: cands candidates_of_def candidate_of_def)
  then show ?thesis using ps after_requests_sent [OF ps(2)] by blast
qed

text \<open>A picture of the network's own size, on which every prediction is the same box.\<close>

definition square_input :: frame_input where
  "square_input = example_input\<lparr>fi_frame := mat_of 320 320 (\<lambda>y x c. 9)\<rparr>"

lemma square_letterbox: "letterbox 320 320 = Some \<lparr>lb_scale = Fin 1, lb_width = 320, lb_height = 320, lb_pad_x = 0, lb_pad_y = 0\<rparr>"
  using pad_half [of 320] by (simp add: letterbox_def kModelSize_def fp_of_int_def fp_min_def nearbyint_def ck_def)

lemma constant_boxes:
  "set (decode_boxes ProposerConfig_default \<lparr>lb_scale = Fin 1, lb_width = 320, lb_height = 320, lb_pad_x = 0, lb_pad_y = 0\<rparr> 320 320
     (constant_engine inp)) = {\<lparr>dx1 = Fin (1/2), dy1 = Fin (1/2), dx2 = Fin (3/2), dy2 = Fin (3/2), dscore = Fin 1\<rparr>}"
proof -
  let ?lb = "\<lparr>lb_scale = Fin 1, lb_width = 320, lb_height = 320, lb_pad_x = 0, lb_pad_y = 0\<rparr>"
  let ?b = "\<lparr>dx1 = Fin (1/2), dy1 = Fin (1/2), dx2 = Fin (3/2), dy2 = Fin (3/2), dscore = Fin 1\<rparr>"
  have "decode_box ProposerConfig_default ?lb 320 320 (constant_engine inp) i = Some ?b" if "i < kPredictionCount" for i
    using that by (simp add: decode_box_def constant_engine_def kPredictionCount_def ProposerConfig_default_def corner_def
        fp_of_int_def fp_sub_def fp_clamp_def Let_def)
  then have "List.map_filter (decode_box ProposerConfig_default ?lb 320 320 (constant_engine inp)) [0..<kPredictionCount]
      = map (\<lambda>_. ?b) [0..<kPredictionCount]"
    by (auto simp: map_filter_def intro!: map_cong filter_True)
  then show ?thesis by (simp add: decode_boxes_filter image_constant_conv kPredictionCount_def)
qed

lemma constant_engine_ok: "infer_ok constant_engine" "\<forall>inp. list_all (fp_ok binary32) (constant_engine inp)"
  by (simp_all add: infer_ok_def constant_engine_def kPredictionCount_def list_all_iff)

lemma constant_overlap:
  "overlaps (nms_iou_threshold ProposerConfig_default) \<lparr>dx1 = Fin (1/2), dy1 = Fin (1/2), dx2 = Fin (3/2), dy2 = Fin (3/2), dscore = Fin 1\<rparr>
     \<lparr>dx1 = Fin (1/2), dy1 = Fin (1/2), dx2 = Fin (3/2), dy2 = Fin (3/2), dscore = Fin 1\<rparr>"
  by (simp add: overlaps_def intersection_over_union_def kept_box_def candidate_of_def ProposerConfig_default_def Let_def
      fp_sub_def fp_min_def fp_max_def)

text \<open>Of equal boxes one is kept.\<close>

lemma constant_kept:
  obtains b where "propose reference_cv (\<lambda>bs. foldr insert_box bs []) \<lparr>pr_config = ProposerConfig_default, pr_engine = Some constant_engine\<rparr>
      (mat_of 320 320 (\<lambda>y x c. 9)) f = Some (candidates_of f [b])" "wide_enough (candidate_of f 0 b)"
proof -
  let ?b = "\<lparr>dx1 = Fin (1/2), dy1 = Fin (1/2), dx2 = Fin (3/2), dy2 = Fin (3/2), dscore = Fin 1\<rparr>"
  let ?p = "\<lparr>pr_config = ProposerConfig_default, pr_engine = Some constant_engine\<rparr>"
  let ?bgr = "mat_of 320 320 (\<lambda>y x c. 9)"
  have e: "pr_engine ?p = Some constant_engine" "0 < max_candidates (pr_config ?p)" "mat_ok ?bgr" "cols ?bgr \<le> 2 ^ 14"
    "rows ?bgr \<le> 2 ^ 14" "cols ?bgr \<le> 320 * rows ?bgr" "rows ?bgr \<le> 320 * cols ?bgr"
    by (simp_all add: ProposerConfig_default_def)
  obtain lb ks where ks: "letterbox (cols ?bgr) (rows ?bgr) = Some lb"
    "propose reference_cv (\<lambda>bs. foldr insert_box bs []) ?p ?bgr f = Some (candidates_of f ks)"
    "proposals_good (pr_config ?p) (cols ?bgr) (rows ?bgr) (decode_boxes (pr_config ?p) lb (cols ?bgr) (rows ?bgr)
      (constant_engine (model_input reference_cv lb ?bgr))) ks"
    by (rule propose_defined [OF e(1) constant_engine_ok(1) insertion_sort_ok e(2-), of reference_cv f])
  define bs where "bs = decode_boxes (pr_config ?p) lb (cols ?bgr) (rows ?bgr) (constant_engine (model_input reference_cv lb ?bgr))"
  have lb: "lb = \<lparr>lb_scale = Fin 1, lb_width = 320, lb_height = 320, lb_pad_x = 0, lb_pad_y = 0\<rparr>"
    using ks(1) square_letterbox by (simp only: mat_of_simps option.inject)
  have boxes: "set bs = {?b}" unfolding bs_def lb by (simp only: constant_boxes mat_of_simps proposer.simps)
  note good = ks(3) [folded bs_def]
  have in_b: "set ks \<subseteq> {?b}" using good boxes unfolding proposals_good_def by (metis set_mset_mono set_mset_mset)
  have apart: "sorted_wrt (\<lambda>k b. \<not> overlaps (nms_iou_threshold ProposerConfig_default) b k) ks"
    using good unfolding proposals_good_def nms_result_def by simp
  have "ks \<noteq> []"
  proof
    assume "ks = []"
    then have "max_candidates (pr_config ?p) = 0" using good boxes unfolding proposals_good_def nms_result_def by auto
    then show False using e(2) by simp
  qed
  then obtain l where l: "ks = ?b # l" using in_b by (cases ks) auto
  moreover have "l = []" using apart in_b constant_overlap unfolding l by (cases l) auto
  moreover have "wide_enough (candidate_of f 0 ?b)" by (simp add: wide_enough_def candidate_of_def fp_sub_def)
  ultimately show thesis using that ks(2) by simp
qed

lemma constant_proposals:
  obtains cands where "propose reference_cv (\<lambda>bs. foldr insert_box bs []) \<lparr>pr_config = ProposerConfig_default, pr_engine = Some constant_engine\<rparr>
      (mat_of 320 320 (\<lambda>y x c. 9)) f = Some cands" "cands \<noteq> []" "list_all wide_enough cands"
  by (rule constant_kept [of f]) (auto intro: that simp: candidates_of_def)

lemma constant_proposals_one:
  assumes "propose reference_cv (\<lambda>bs. foldr insert_box bs []) \<lparr>pr_config = ProposerConfig_default, pr_engine = Some constant_engine\<rparr>
      (mat_of 320 320 (\<lambda>y x c. 9)) f = Some cands"
  shows "length cands = 1"
  by (rule constant_kept [of f]) (use assms in \<open>simp add: candidates_of_def\<close>)

theorem proposals_reach_board_witness:
  "let p = \<lparr>pr_config = ProposerConfig_default, pr_engine = Some constant_engine\<rparr>; J = jetson_initial answering_client
   in \<exists>J' q. process_frame reference_cv (\<lambda>bs. foldr insert_box bs []) example_config p square_input J = Some J'
    \<and> p_roi_id q = 0 \<and> outgoing (peer (js_client J')) = request_bytes q \<and> last_request_ms J' = 907"
proof -
  let ?p = "\<lparr>pr_config = ProposerConfig_default, pr_engine = Some constant_engine\<rparr>"
  let ?J = "jetson_initial answering_client"
  have start: "js_client ?J = answering_client" "js_frame_id ?J = 0" "fi_sent_ms square_input = 907" "outgoing (peer answering_client) = []"
    "fi_connect square_input = fi_connect example_input"
    by (simp_all add: jetson_initial_def square_input_def example_input_def answering_client_def)
  have bgr: "fi_frame square_input = mat_of 320 320 (\<lambda>y x c. 9)" by (simp add: square_input_def)
  obtain cands where c: "propose reference_cv (\<lambda>bs. foldr insert_box bs []) ?p (fi_frame square_input) (js_frame_id ?J) = Some cands"
    "cands \<noteq> []" "list_all wide_enough cands" unfolding bgr by (rule constant_proposals)
  have one: "length cands = 1" by (rule constant_proposals_one) (use c(1) bgr in simp)
  have "picture_ok (fi_frame square_input)" "cols (fi_frame square_input) \<le> 320 * rows (fi_frame square_input)"
    "rows (fi_frame square_input) \<le> 320 * cols (fi_frame square_input)" by (simp_all add: bgr picture_ok_def)
  moreover note constant_engine_ok
  moreover have "0 < max_candidates (pr_config ?p)" "\<not> cc_full_frame example_config" "pr_engine ?p = Some constant_engine"
    by (simp_all add: ProposerConfig_default_def example_config_def)
  ultimately obtain J' ps C where
    r: "process_frame reference_cv (\<lambda>bs. foldr insert_box bs []) example_config ?p square_input ?J = Some J'"
    "list_all2 (request_good reference_cv (fi_frame square_input)) cands ps" "map p_frame_id ps = replicate 1 0"
    "map p_roi_id ps = map word_of_nat [0..<1]" "C = after_requests ps answering_client" "requests_sent ps answering_client C"
    "js_client J' = reconnected example_config (fi_connect square_input) C"
    "outgoing (peer C) = concat (map request_bytes ps) \<longrightarrow> last_request_ms J' = 907"
    using proposals_reach_board [where config = example_config, OF reference_cv_ok _ _ _ _ _ _ insertion_sort_ok _ _ c] one start by auto
  obtain q where q: "ps = [q]" "request_good reference_cv (fi_frame square_input) (hd cands) q"
    using r(2) one by (auto simp: list_all2_Cons1 length_Suc_conv)
  have "k_frame_id (hd cands) = 0" "k_roi_id (hd cands) = 0"
    using request_good_values(1,2) [OF q(2)] r(3,4) q(1) by simp_all
  then have "isConnected C" using answering_client_open [OF q(2)] by (simp add: r(5) q(1))
  then have "js_client J' = C" "outgoing (peer C) = request_bytes q"
    using r(6,7) start(4) q(1) by (auto simp: reconnected_def requests_sent_def)
  then show ?thesis using r(1,4,8) q(1) by (auto simp: Let_def)
qed

end
