(* ===== verification/Jetson_Metrics.thy ===== *)
theory Jetson_Metrics
  imports Jetson_Frames
begin

text \<open>
  The statistics and the CSV of the client over a whole run: they add up, whatever the frames, the
  clocks and the connection do; and what they say of a region the board did not answer.
\<close>

section \<open>The statistics add up\<close>

text \<open>\<open>ns\<close> are the numbers of regions of the counted frames.\<close>

definition metrics_ok :: "metrics \<Rightarrow> nat list \<Rightarrow> bool" where
  "metrics_ok m ns \<longleftrightarrow> m_frames m = length ns
     \<and> list_all (\<lambda>st. length st = length ns) [m_capture m, m_propose m, m_publish m, m_frame m, m_work m]
     \<and> m_rois m = sum_list ns \<and> length (m_crop m) = sum_list ns \<and> length (m_rtt m) = sum_list ns
     \<and> (\<Sum>st \<in> UNIV. status_counts m st) = sum_list ns
     \<and> (\<forall>k. length (frame_by_roi_count m k) = count_list ns k)"

lemma sum_fun_upd_Suc: "(\<Sum>x \<in> UNIV. (f(a := f a + 1)) x) = (\<Sum>x \<in> UNIV. f x) + (1 :: nat)" for a :: "'a :: finite"
proof -
  have "(\<Sum>x \<in> UNIV. (f(a := f a + 1)) x) = (f a + 1) + (\<Sum>x \<in> UNIV - {a}. f x)"
    by (subst sum.remove [of _ a]) (auto intro: sum.cong)
  also have "\<dots> = (\<Sum>x \<in> UNIV. f x) + 1" by (subst (2) sum.remove [of _ a]) auto
  finally show ?thesis .
qed

text \<open>Within a frame: as many regions more as there are records.\<close>

definition work_ok :: "metrics \<Rightarrow> roi_work \<Rightarrow> bool" where
  "work_ok m0 W \<longleftrightarrow> (let m = rw_metrics W; n = length (rw_records W) in
     m_frames m = m_frames m0 \<and> m_capture m = m_capture m0 \<and> m_propose m = m_propose m0 \<and> m_publish m = m_publish m0
     \<and> m_frame m = m_frame m0 \<and> m_work m = m_work m0 \<and> frame_by_roi_count m = frame_by_roi_count m0
     \<and> m_rois m = m_rois m0 + n \<and> length (m_crop m) = length (m_crop m0) + n \<and> length (m_rtt m) = length (m_rtt m0) + n
     \<and> (\<Sum>st \<in> UNIV. status_counts m st) = (\<Sum>st \<in> UNIV. status_counts m0 st) + n)"

lemma work_ok_start [simp]: "work_ok (js_metrics J) (start_work J)"
  by (simp add: work_ok_def start_work_def)

lemma count_roi_sum:
  "(\<Sum>st \<in> UNIV. status_counts (count_roi m c r s) st) = (\<Sum>st \<in> UNIV. status_counts m st) + 1"
  using sum_fun_upd_Suc [of "status_counts m" s] by (simp add: count_roi_def)

lemma work_ok_counted:
  assumes "work_ok m0 W" "rw_metrics W' = count_roi (rw_metrics W) c r s" "length (rw_records W') = Suc (length (rw_records W))"
  shows "work_ok m0 W'"
  using assms(1,3) count_roi_sum [of "rw_metrics W" c r s] unfolding work_ok_def assms(2) Let_def
  by (simp add: count_roi_def stats_add_def)

lemma work_ok_unchanged: "work_ok m0 W \<Longrightarrow> rw_metrics W' = rw_metrics W \<Longrightarrow> rw_records W' = rw_records W \<Longrightarrow> work_ok m0 W'"
  by (simp add: work_ok_def)

lemma roi_step_ok:
  assumes "roi_step cv fi counted hb n cand W = Some W'" "work_ok m0 W"
  shows "work_ok m0 W'" "\<not> counted \<Longrightarrow> rw_records W' = rw_records W"
proof -
  obtain a b c where t: "t_roi fi n = (a, b, c)" by (metis prod_cases3)
  have "work_ok m0 W' \<and> (\<not> counted \<longrightarrow> rw_records W' = rw_records W)"
  proof (cases "request_of cv (fi_frame fi) cand")
    case (Some q)
    show ?thesis
    proof (cases q)
      case None
      then show ?thesis using assms Some by (simp add: roi_step_def)
    next
      case q: (Some q')
      obtain C st res where r: "classify (rw_client W) q' no_result = (C, st, res)" by (metis prod_cases3)
      show ?thesis
      proof (cases "counted \<and> \<not> hb")
        case True
        have "rw_metrics W' = count_roi (rw_metrics W) (jetson_elapsed_us a b) (jetson_elapsed_us b c) (if st = Ok then c_status res else kStatusNoReply)"
          "length (rw_records W') = Suc (length (rw_records W))"
          using assms(1) Some q t r True by (auto simp: roi_step_def Let_def simp del: fun_upd_apply)
        from work_ok_counted [OF assms(2) this] show ?thesis using True by simp
      next
        case False
        then have "rw_metrics W' = rw_metrics W" "rw_records W' = rw_records W"
          using assms(1) Some q t r by (auto simp: roi_step_def Let_def)
        then show ?thesis using work_ok_unchanged [OF assms(2)] by simp
      qed
    qed
  qed (use assms in \<open>simp add: roi_step_def\<close>)
  then show "work_ok m0 W'" "\<not> counted \<Longrightarrow> rw_records W' = rw_records W" by simp_all
qed

lemma roi_loop_ok:
  "roi_loop cv fi counted hb n cands W = Some W' \<Longrightarrow> work_ok m0 W \<Longrightarrow>
     work_ok m0 W' \<and> (\<not> counted \<longrightarrow> rw_records W' = rw_records W)"
proof (induction cands arbitrary: n W)
  case (Cons cand cands)
  then obtain W1 where W1: "roi_step cv fi counted hb n cand W = Some W1" "roi_loop cv fi counted hb (Suc n) cands W1 = Some W'"
    by (auto split: bind_splits)
  show ?case using Cons.IH [OF W1(2)] roi_step_ok [OF W1(1) Cons.prems(2)] by simp
qed simp

text \<open>The rows of the CSV: one per region, and one for a frame without.\<close>

definition csv_rows :: "nat list \<Rightarrow> nat" where
  "csv_rows ns = sum_list (map (max 1) ns)"

definition jetson_ok :: "client_config \<Rightarrow> nat \<Rightarrow> jetson \<Rightarrow> bool" where
  "jetson_ok config N J \<longleftrightarrow> js_frame_id J = word_of_nat N \<and> (\<exists>ns. metrics_ok (js_metrics J) ns
     \<and> length (js_csv J) = (if cc_csv config then csv_rows ns else 0)
     \<and> (N \<le> 2 ^ 32 \<longrightarrow> length ns = N - unat (cc_warmup config)))"

lemma metrics_ok_frame:
  assumes "metrics_ok m0 ns" "work_ok m0 W"
  shows "metrics_ok (count_frame fi (rw_records W) (rw_metrics W)) (ns @ [length (rw_records W)])"
  using assms by (auto simp: metrics_ok_def work_ok_def count_frame_def stats_add_def Let_def)

lemma work_ok_same: "work_ok m0 W \<Longrightarrow> rw_records W = [] \<Longrightarrow> metrics_ok m0 ns \<Longrightarrow> metrics_ok (rw_metrics W) ns"
  by (simp add: work_ok_def metrics_ok_def Let_def)

lemma process_frame_ok:
  assumes "process_frame cv sort_boxes config p fi J = Some J'" "jetson_ok config N J"
  shows "jetson_ok config (Suc N) J'"
proof -
  obtain cands where c: "frame_candidates cv sort_boxes config p (fi_frame fi) (js_frame_id J) = Some cands"
    using assms(1) by (auto simp: process_frame_def Let_def split: option.splits)
  let ?cands = "sent_candidates config J (fi_frame_ms fi) cands"
  obtain W where W: "roi_loop cv fi (frame_counted config J) (heartbeat_frame config J (fi_frame_ms fi) cands) 0 ?cands (start_work J) = Some W"
    using assms(1) by (auto simp: process_frame_eq [OF c])
  then have e: "frame_ended config fi ?cands W J J'"
    using assms(1) finish_frame_ended [of config fi ?cands W J] by (auto simp: process_frame_eq [OF c])
  have w: "work_ok (js_metrics J) W" "\<not> frame_counted config J \<Longrightarrow> rw_records W = []"
    using roi_loop_ok [OF W work_ok_start] by (simp_all add: start_work_def)
  obtain ns where ns: "js_frame_id J = word_of_nat N" "metrics_ok (js_metrics J) ns"
    "length (js_csv J) = (if cc_csv config then csv_rows ns else 0)" "N \<le> 2 ^ 32 \<longrightarrow> length ns = N - unat (cc_warmup config)"
    using assms(2) unfolding jetson_ok_def by blast
  have id: "js_frame_id J' = word_of_nat (Suc N)" using e ns(1) by (simp add: frame_ended_def)
  have counted: "frame_counted config J \<longleftrightarrow> unat (cc_warmup config) \<le> N" if "Suc N \<le> 2 ^ 32"
  proof -
    have "unat (word_of_nat N :: u32) = N" using that take_bit_nat_eq_self [of N 32] by (simp add: unsigned_of_nat)
    then show ?thesis by (simp add: frame_counted_def ns(1) word_le_nat_alt)
  qed
  show ?thesis
  proof (cases "frame_counted config J")
    case True
    let ?n = "length (rw_records W)"
    have "metrics_ok (js_metrics J') (ns @ [?n])" using e True metrics_ok_frame [OF ns(2) w(1)] by (simp add: frame_ended_def)
    moreover have "length (csv_lines fi (js_frame_id J) (rw_records W)) = max 1 ?n"
      by (cases "rw_records W") (simp_all add: csv_lines_def Let_def)
    then have "length (js_csv J') = (if cc_csv config then csv_rows (ns @ [?n]) else 0)"
      using e True ns(3) by (simp add: frame_ended_def csv_rows_def)
    moreover have "Suc N \<le> 2 ^ 32 \<longrightarrow> length (ns @ [?n]) = Suc N - unat (cc_warmup config)" using ns(4) counted True by auto
    ultimately show ?thesis using id unfolding jetson_ok_def by blast
  next
    case False
    have "metrics_ok (js_metrics J') ns" using e False work_ok_same [OF w(1) w(2) ns(2)] by (simp add: frame_ended_def)
    moreover have "length (js_csv J') = (if cc_csv config then csv_rows ns else 0)" using e False ns(3) by (simp add: frame_ended_def)
    moreover have "Suc N \<le> 2 ^ 32 \<longrightarrow> length ns = Suc N - unat (cc_warmup config)" using ns(4) counted False by auto
    ultimately show ?thesis using id unfolding jetson_ok_def by blast
  qed
qed

text \<open>How many frames a run takes up.\<close>

fun frames_taken :: "frame_event list \<Rightarrow> nat" where
  "frames_taken [] = 0"
| "frames_taken (NoFrame st # es) = (if st = FsTimeout then frames_taken es else 0)"
| "frames_taken (NewFrame fi # es) = Suc (frames_taken es)"

lemma jetson_loop_ok:
  "jetson_loop cv sort_boxes config p es J = Some J' \<Longrightarrow> jetson_ok config N J \<Longrightarrow> jetson_ok config (N + frames_taken es) J'"
proof (induction es arbitrary: J N)
  case (Cons ev es)
  show ?case
  proof (cases ev)
    case (NewFrame fi)
    then obtain J1 where "process_frame cv sort_boxes config p fi J = Some J1" "jetson_loop cv sort_boxes config p es J1 = Some J'"
      using Cons.prems(1) by (auto split: bind_splits)
    with Cons.IH [OF this(2) process_frame_ok [OF this(1) Cons.prems(2)]] show ?thesis by (simp add: NewFrame)
  next
    case (NoFrame st)
    show ?thesis
    proof (cases "st = FsTimeout")
      case False
      then have "J' = J\<lparr>capture_failed := True\<rparr>" using Cons.prems(1) NoFrame by simp
      then show ?thesis using Cons.prems(2) False NoFrame by (simp add: jetson_ok_def)
    qed (use Cons NoFrame in simp)
  qed
qed simp

text \<open>
  C34: The statistics add up over a whole run of frames, timeouts and losses of the camera: with
  \<open>ns\<close> the numbers of regions recorded in the frames after the warm-up, there is one sample of every
  stage per such frame, one of crop and round trip per region, the counts of the answers sum up to
  the regions, the samples by number of regions are the frames with that many, and the CSV has a
  row per region and one for a frame without; the frames are all but the warm-up.
\<close>

theorem statistics_add_up:
  assumes "jetson_loop cv sort_boxes config p es (jetson_initial C) = Some J"
  shows "\<exists>ns. metrics_ok (js_metrics J) ns \<and> length (js_csv J) = (if cc_csv config then csv_rows ns else 0)
    \<and> (frames_taken es \<le> 2 ^ 32 \<longrightarrow> length ns = frames_taken es - unat (cc_warmup config))"
proof -
  have "jetson_ok config 0 (jetson_initial C)"
    by (auto simp: jetson_ok_def jetson_initial_def metrics_ok_def Metrics_def csv_rows_def intro!: exI [of _ "[]"])
  from jetson_loop_ok [OF assms this] show ?thesis unfolding jetson_ok_def by auto
qed

theorem statistics_add_up_witness:
  "let p = \<lparr>pr_config = ProposerConfig_default, pr_engine = None\<rparr>;
       J = jetson_initial \<lparr>sock_fd = -1, c_held = [], peer = \<lparr>incoming = [], send_replies = [], outgoing = []\<rparr>\<rparr>;
       config = example_config\<lparr>cc_warmup := 0, cc_heartbeat := False\<rparr>
   in \<exists>J'. jetson_loop reference_cv (\<lambda>bs. bs) config p [NoFrame FsTimeout, NewFrame example_input, NoFrame FsError] J = Some J'
     \<and> length (js_csv J') = 1"
proof -
  let ?p = "\<lparr>pr_config = ProposerConfig_default, pr_engine = None\<rparr>"
  let ?J = "jetson_initial \<lparr>sock_fd = -1, c_held = [], peer = \<lparr>incoming = [], send_replies = [], outgoing = []\<rparr>\<rparr>"
  let ?config = "example_config\<lparr>cc_warmup := 0, cc_heartbeat := False\<rparr>"
  have c: "frame_candidates reference_cv (\<lambda>bs. bs) ?config ?p (fi_frame example_input) (js_frame_id ?J) = Some []"
    by (simp add: frame_candidates_def example_config_def propose_def)
  have none: "sent_candidates ?config ?J (fi_frame_ms example_input) [] = []"
    by (simp add: sent_candidates_def heartbeat_frame_def)
  then have loop: "roi_loop reference_cv example_input (frame_counted ?config ?J) (heartbeat_frame ?config ?J (fi_frame_ms example_input) []) 0
      (sent_candidates ?config ?J (fi_frame_ms example_input) []) (start_work ?J) = Some (start_work ?J)" by simp
  obtain J1 where J1: "process_frame reference_cv (\<lambda>bs. bs) ?config ?p example_input ?J = Some J1"
    "frame_ended ?config example_input [] (start_work ?J) ?J J1"
    by (rule process_frame_loop [OF c loop]) (simp only: none)
  define J' where "J' = J1\<lparr>capture_failed := True\<rparr>"
  have run: "jetson_loop reference_cv (\<lambda>bs. bs) ?config ?p [NoFrame FsTimeout, NewFrame example_input, NoFrame FsError] ?J = Some J'"
    using J1(1) by (simp add: J'_def)
  have zero: "sum_list ns = 0 \<Longrightarrow> csv_rows ns = length ns" for ns by (induction ns) (simp_all add: csv_rows_def)
  have "m_rois (js_metrics J') = 0"
    using J1(2) by (simp add: J'_def frame_ended_def start_work_def jetson_initial_def Metrics_def count_frame_def Let_def)
  moreover from statistics_add_up [OF run] obtain ns where "metrics_ok (js_metrics J') ns" "length (js_csv J') = csv_rows ns" "length ns = 1"
    by (auto simp: example_config_def)
  ultimately have "length (js_csv J') = 1" using zero by (simp add: metrics_ok_def)
  then show ?thesis using run by (simp only: Let_def) blast
qed

section \<open>Regions without an answer\<close>

lemma classify_failed: "classify C roi result = (C', st, result') \<Longrightarrow> st \<noteq> Ok \<Longrightarrow> result' = result"
  by (auto simp: classify_def classify_receive_def Let_def split: prod.splits if_splits)

text \<open>
  A region that the board did not answer is counted and drawn as such, but its row in the CSV
  says success: the status and the class of the row are those of a result that was never filled,
  0 and 0, which is the code of a picture classified as background.
\<close>

theorem unanswered_region_row:
  assumes "request_of cv (fi_frame fi) cand = Some (Some q)" "classify (rw_client W) q no_result = (C, st, result)" "st \<noteq> Ok"
    and "roi_step cv fi True False n cand W = Some W'"
  shows "status_counts (rw_metrics W') = (status_counts (rw_metrics W))(kStatusNoReply := status_counts (rw_metrics W) kStatusNoReply + 1)
    \<and> (\<exists>r ov. rw_records W' = rw_records W @ [r] \<and> rw_overlays W' = rw_overlays W @ [ov]
        \<and> ov_status ov = kStatusNoReply \<and> rr_status r = STATUS_OK \<and> rr_class_id r = 0)"
proof -
  obtain a b c where t: "t_roi fi n = (a, b, c)" by (metis prod_cases3)
  have "result = no_result" using classify_failed [OF assms(2,3)] .
  then show ?thesis using assms t
    by (auto simp: roi_step_def count_roi_def no_result_def STATUS_OK_def Let_def)
qed

theorem unanswered_region_row_witness:
  "let C = \<lparr>sock_fd = -1, c_held = [], peer = \<lparr>incoming = [], send_replies = [], outgoing = []\<rparr>\<rparr>;
       W = start_work (jetson_initial C)
   in \<exists>W' r. roi_step reference_cv example_input True False 0 (heartbeat_candidate 3) W = Some W'
     \<and> status_counts (rw_metrics W') kStatusNoReply = 1 \<and> rw_records W' = [r] \<and> rr_status r = STATUS_OK"
proof -
  let ?W = "start_work (jetson_initial \<lparr>sock_fd = -1, c_held = [], peer = \<lparr>incoming = [], send_replies = [], outgoing = []\<rparr>\<rparr>)"
  obtain q where q: "request_of reference_cv (fi_frame example_input) (heartbeat_candidate 3) = Some (Some q)"
    by (rule request_of_sendable [OF reference_cv_ok example_picture_ok heartbeat_sendable [OF example_picture_ok]])
  have c: "classify (rw_client ?W) q no_result = (rw_client ?W, NotConnected, no_result)"
    by (simp add: classify_def classify_send_def isConnected_def start_work_def jetson_initial_def)
  obtain W' where W': "roi_step reference_cv example_input True False 0 (heartbeat_candidate 3) ?W = Some W'"
    by (rule roi_step_client [OF q])
  from unanswered_region_row [OF q c _ W'] W' show ?thesis
    by (auto simp: Let_def start_work_def jetson_initial_def Metrics_def)
qed

end
