(* ===== verification/Jetson_Main.thy ===== *)
theory Jetson_Main
  imports Jetson_Metrics Mjpeg_Stop
begin

text \<open>
  \<open>main\<close> of \<open>tools/jetson_roi_client.cpp\<close>: settings, stream, camera, capture thread, connection and proposer are
  opened in this order; the loop takes the newest frame of the thread; whatever way the function is
  left, the destructors close what was opened. And the numbers of the report at its end. What the capture thread does between two
  calls of the loop is a list of answers of the driver; what the threads of the stream do, its viewers included, are the steps of
  \<open>Mjpeg_Stop\<close>. None stands for a program that does not end, because a thread it joins does not.
\<close>

section \<open>What the program meets\<close>

record client_world =
  cw_env :: "string \<Rightarrow> string option"
  cw_strtod :: "string \<Rightarrow> fp \<times> nat \<times> bool"
  cw_csv_opens :: bool
  cw_listen :: "int \<times> bool \<times> bool"
  cw_camera :: driver_answers
  cw_connect :: connect_reply
  cw_engines :: "string \<Rightarrow> infer option"
  cw_before :: "frame_answers list"
  cw_rounds :: "(frame_answers list \<times> frame_input) list"
  cw_stop_write :: bool
  cw_join :: "frame_answers list"
  cw_graphics :: graphics
  cw_stream :: "server_act list list"
  cw_stream_join :: "server_act list"

section \<open>Parts of main\<close>

definition client_stream :: "client_world \<Rightarrow> string list \<Rightarrow> mjpeg option" where
  "client_stream w argv =
     (if length argv \<noteq> 6 then None
      else case parse_port (argv ! 5) of None \<Rightarrow> None
      | Some mjpeg_port \<Rightarrow> (case cw_listen w of (lfd, bound, listening) \<Rightarrow>
          (case mj_start (MjpegStreamServer (mjpeg_settings (cw_env w) mjpeg_port)) lfd bound listening of
             (M, started) \<Rightarrow> if started then Some M else None)))"

definition TcpRoiClient :: tcp_client where
  "TcpRoiClient = \<lparr>sock_fd = -1, c_held = [], peer = \<lparr>incoming = [], send_replies = [], outgoing = []\<rparr>\<rparr>"

text \<open>The loop; the list ends when a signal has asked to stop. A picture that \<open>next\<close> gives is that of the round.\<close>

fun client_rounds ::
  "cv_lib \<Rightarrow> (decoded_box list \<Rightarrow> decoded_box list) \<Rightarrow> (u8 list list \<Rightarrow> pixel_mat) \<Rightarrow> client_config \<Rightarrow> proposer \<Rightarrow>
     (frame_answers list \<times> frame_input) list \<Rightarrow> frame_source \<Rightarrow> jetson \<Rightarrow> (frame_source \<times> jetson) option" where
  "client_rounds cv sort_boxes cvt config p [] F J = Some (F, J)"
| "client_rounds cv sort_boxes cvt config p ((as, fi) # rounds) F J =
     (case run_steps cvt as F of None \<Rightarrow> None
      | Some F \<Rightarrow> (case fs_next F of (F, capture_status, out) \<Rightarrow>
          if capture_status = FsTimeout then client_rounds cv sort_boxes cvt config p rounds F J
          else if capture_status \<noteq> FsOk then Some (F, J\<lparr>capture_failed := True\<rparr>)
          else Option.bind (process_frame cv sort_boxes config p (fi\<lparr>fi_frame := the out\<rparr>) J)
                 (client_rounds cv sort_boxes cvt config p rounds F)))"

datatype exit_status = ExitSuccess | ExitFailure | Terminated

text \<open>What is left when the process ends, and the run when there was one.\<close>

record client_final =
  cf_exit :: exit_status
  cf_camera :: capture
  cf_thread :: thread_at
  cf_client :: tcp_client
  cf_stream :: "mjpeg option"
  cf_run :: "(frame_source \<times> jetson) option"

text \<open>\<open>stop\<close> joins the thread; None: it would wait forever.\<close>

definition join_source :: "(u8 list list \<Rightarrow> pixel_mat) \<Rightarrow> client_world \<Rightarrow> frame_source \<Rightarrow> frame_source option" where
  "join_source cvt w F =
     Option.bind (run_steps cvt (cw_join w) (fs_stop F (cw_stop_write w)))
       (\<lambda>F. if fs_thread F = Finished then Some F else None)"

text \<open>The stream until \<open>main\<close> is left, with the pictures that were published, and its destructor.\<close>

definition run_stream :: "cv_lib \<Rightarrow> client_world \<Rightarrow> (pixel_mat \<times> roi_overlay list) list \<Rightarrow> mjpeg option \<Rightarrow> mjpeg option option" where
  "run_stream cv w pubs stream =
     (case stream of None \<Rightarrow> Some None | Some M \<Rightarrow> map_option Some (publish_all cv (cw_graphics w) pubs (cw_stream w) M))"

definition end_stream :: "cv_lib \<Rightarrow> client_world \<Rightarrow> mjpeg option \<Rightarrow> mjpeg option option" where
  "end_stream cv w stream =
     (case stream of None \<Rightarrow> Some None | Some M \<Rightarrow> map_option Some (stop_server cv (cw_graphics w) (cw_stream_join w) M))"

text \<open>Leaving \<open>main\<close> once the thread runs: the destructors, in reverse order; the stream was made first and is the last.\<close>

definition leave_main ::
  "cv_lib \<Rightarrow> (u8 list list \<Rightarrow> pixel_mat) \<Rightarrow> client_world \<Rightarrow> mjpeg option \<Rightarrow> exit_status \<Rightarrow> tcp_client \<Rightarrow> frame_source \<Rightarrow> jetson option \<Rightarrow>
     client_final option" where
  "leave_main cv cvt w stream status C F J = do {
     F \<leftarrow> join_source cvt w F;
     stream \<leftarrow> run_stream cv w (case J of None \<Rightarrow> [] | Some J \<Rightarrow> js_published J) stream;
     stream \<leftarrow> end_stream cv w stream;
     Some \<lparr>cf_exit = status, cf_camera = cap_close (fs_capture F), cf_thread = fs_thread F,
       cf_client = client_disconnect C, cf_stream = stream, cf_run = map_option (Pair F) J\<rparr> }"

definition jetson_main ::
  "cv_lib \<Rightarrow> (decoded_box list \<Rightarrow> decoded_box list) \<Rightarrow> (u8 list list \<Rightarrow> pixel_mat) \<Rightarrow> client_world \<Rightarrow> string list \<Rightarrow> client_final option" where
  "jetson_main cv sort_boxes cvt w argv =
     (case client_settings (cw_env w) (cw_strtod w) (cw_csv_opens w) (client_stream w argv \<noteq> None) argv of
        None \<Rightarrow> Some \<lparr>cf_exit = ExitFailure, cf_camera = V4L2Capture, cf_thread = Finished, cf_client = TcpRoiClient,
                  cf_stream = None, cf_run = None\<rparr>
      | Some config \<Rightarrow>
          let stream = client_stream w argv; (V, opened) = cap_init V4L2Capture (cw_camera w) Request_default in
          if \<not> opened
          then map_option (\<lambda>stream. \<lparr>cf_exit = ExitFailure, cf_camera = cap_close V, cf_thread = Finished, cf_client = TcpRoiClient,
                 cf_stream = stream, cf_run = None\<rparr>) (Option.bind (run_stream cv w [] stream) (end_stream cv w))
          else case run_steps cvt (cw_before w) (fs_start (FrameSource V)) of None \<Rightarrow> None
          | Some F \<Rightarrow>
          case connectToServer TcpRoiClient (cc_address config) (cc_port config) (cw_connect w) of (C, answer) \<Rightarrow>
          if answer \<noteq> Ok then leave_main cv cvt w stream ExitFailure C F None
          else case RoiProposer (cw_engines w) (cc_proposer config) of
            Inl _ \<Rightarrow> map_option (\<lambda>stream. \<lparr>cf_exit = Terminated, cf_camera = fs_capture F, cf_thread = fs_thread F, cf_client = C,
                       cf_stream = stream, cf_run = None\<rparr>) (run_stream cv w [] stream)
          | Inr p \<Rightarrow>
          case client_rounds cv sort_boxes cvt config p (cw_rounds w) F (jetson_initial C) of None \<Rightarrow> None
          | Some (F, J) \<Rightarrow> (case jetson_end J of (J, success) \<Rightarrow>
              leave_main cv cvt w stream (if success then ExitSuccess else ExitFailure) (js_client J) F (Some J)))"

section \<open>The connection is held by the client alone\<close>

definition client_ok :: "tcp_client \<Rightarrow> bool" where
  "client_ok C \<longleftrightarrow> c_held C = (if 0 \<le> sock_fd C then [sock_fd C] else [])"

lemma client_ok_disconnect: "client_ok C \<Longrightarrow> client_ok (client_disconnect C)" "client_ok C \<Longrightarrow> c_held (client_disconnect C) = []"
  by (simp_all add: client_ok_def client_disconnect_def)

lemma client_ok_connect: "client_ok C \<Longrightarrow> client_ok (fst (connectToServer C address remote_port sys))"
  by (simp add: client_ok_def connectToServer_def isConnected_def Let_def)

lemma client_ok_peer [simp]: "client_ok (C\<lparr>peer := s\<rparr>) \<longleftrightarrow> client_ok C"
  by (simp add: client_ok_def)

lemma client_ok_send: "sendAll C bs = (C', st) \<Longrightarrow> client_ok C \<Longrightarrow> client_ok C'"
  by (auto simp: sendAll_def Let_def client_ok_disconnect split: if_splits prod.splits io_result.splits)

lemma client_ok_receive: "receiveAll C n = (C', bs, st) \<Longrightarrow> client_ok C \<Longrightarrow> client_ok C'"
  by (auto simp: receiveAll_def Let_def client_ok_disconnect split: if_splits prod.splits io_result.splits)

lemma client_ok_classify_send: "classify_send C roi = (C', st) \<Longrightarrow> client_ok C \<Longrightarrow> client_ok C'"
  by (auto simp: classify_send_def Let_def dest: client_ok_send split: if_splits prod.splits)

lemma client_ok_classify_receive: "classify_receive C roi r = (C', st, r') \<Longrightarrow> client_ok C \<Longrightarrow> client_ok C'"
  by (auto simp: classify_receive_def Let_def client_ok_disconnect dest: client_ok_receive split: if_splits prod.splits)

lemma client_ok_classify: "client_ok C \<Longrightarrow> client_ok (fst (classify C roi r))"
  by (auto simp: classify_def dest: client_ok_classify_send client_ok_classify_receive split: prod.splits)
     (metis client_ok_classify_receive client_ok_classify_send fst_conv prod.collapse)

lemma client_ok_after: "client_ok C \<Longrightarrow> client_ok (after_requests ps C)"
  by (induction ps arbitrary: C) (simp_all add: after_requests_def client_ok_classify)


section \<open>Frames\<close>

text \<open>What is proposed in the pictures of the camera can be sent.\<close>

definition frames_sendable ::
  "cv_lib \<Rightarrow> (decoded_box list \<Rightarrow> decoded_box list) \<Rightarrow> (u8 list list \<Rightarrow> pixel_mat) \<Rightarrow> client_config \<Rightarrow> proposer \<Rightarrow> bool" where
  "frames_sendable cv sort_boxes cvt config p \<longleftrightarrow> (\<forall>rs f. let bgr = mat_clone (cvt rs) in
     (\<exists>cands. frame_candidates cv sort_boxes config p bgr f = Some cands \<and> list_all (sendable bgr) cands))"

lemma fp_of_int_ok: "0 < n \<Longrightarrow> n \<le> 2 ^ 24 \<Longrightarrow> fp_ok binary32 (Fin (of_int n))"
  using round32_dyadic [of n 1] by simp

lemma whole_frame_sendable: "picture_ok bgr \<Longrightarrow> sendable bgr (whole_frame bgr f)"
proof -
  assume p: "picture_ok bgr"
  then have size: "0 < cols bgr" "cols bgr \<le> 2 ^ 14" "0 < rows bgr" "rows bgr \<le> 2 ^ 14"
    by (simp_all add: picture_ok_def mat_ok_def)
  then have one: "(1 :: rat) \<le> of_int (cols bgr)" "(1 :: rat) \<le> of_int (rows bgr)" by simp_all
  moreover have "(of_int (cols bgr) :: rat) \<le> 2 ^ 14" "(of_int (rows bgr) :: rat) \<le> 2 ^ 14"
    using size of_int_le_iff [where ?'a = rat, of "cols bgr" "2 ^ 14"] of_int_le_iff [where ?'a = rat, of "rows bgr" "2 ^ 14"]
    by simp_all
  moreover have "fp_ok binary32 (Fin (of_int (cols bgr)))" "fp_ok binary32 (Fin (of_int (rows bgr)))"
    using size by (simp_all add: fp_of_int_ok del: fp_ok_simps)
  moreover have "fp_ok binary32 (Fin 1)" using fp_of_int_ok [of 1] by simp
  ultimately show ?thesis using size
    by (simp add: sendable_def crop_candidate_ok_def whole_frame_def fp_of_int_exact)
qed

text \<open>Without a network the whole frame is the region; with one, its proposals are, when their sides are not tiny.\<close>

lemma picture_ok_clone [simp]: "picture_ok (mat_clone m) = picture_ok m"
  by (simp add: picture_ok_def mat_ok_def mat_clone_def)

lemma full_frame_sendable: "cc_full_frame config \<Longrightarrow> \<forall>rs. picture_ok (cvt rs) \<Longrightarrow> frames_sendable cv sort_boxes cvt config p"
  by (simp add: frames_sendable_def frame_candidates_def whole_frame_sendable Let_def)

lemma propose_sendable:
  assumes "pr_engine p = Some infer" "infer_ok infer" "\<forall>inp. list_all (fp_ok binary32) (infer inp)" "sort_ok sort_boxes"
    and "0 < max_candidates (pr_config p)" "picture_ok bgr" "cols bgr \<le> 320 * rows bgr" "rows bgr \<le> 320 * cols bgr"
  obtains cands where "propose cv sort_boxes p bgr f = Some cands" "list_all wide_enough cands \<Longrightarrow> list_all (sendable bgr) cands"
    "map k_roi_id cands = map word_of_nat [0..<length cands]" "length cands \<le> max_candidates (pr_config p)"
proof -
  have m: "mat_ok bgr" "cols bgr \<le> 2 ^ 14" "rows bgr \<le> 2 ^ 14" using assms(6) by (simp_all add: picture_ok_def)
  obtain lb ks where ks: "propose cv sort_boxes p bgr f = Some (candidates_of f ks)"
    "proposals_good (pr_config p) (cols bgr) (rows bgr) (decode_boxes (pr_config p) lb (cols bgr) (rows bgr) (infer (model_input cv lb bgr))) ks"
    by (rule propose_defined [OF assms(1,2,4,5) m assms(7,8)])
  have "5 * kPredictionCount \<le> length (infer (model_input cv lb bgr))" "list_all (fp_ok binary32) (infer (model_input cv lb bgr))"
    using assms(2,3) by (simp_all add: infer_ok_def)
  note send = proposals_sendable [OF ks(2) assms(6) this, of f]
  have "map k_roi_id (candidates_of f ks) = map word_of_nat [0..<length (candidates_of f ks)]"
    by (auto intro!: nth_equalityI simp: candidates_of_def candidate_of_def)
  moreover have "length (candidates_of f ks) \<le> max_candidates (pr_config p)"
    using ks(2) by (simp add: proposals_good_def nms_result_def candidates_of_def)
  ultimately show thesis using that ks(1) send by blast
qed

lemma process_frame_defined:
  assumes "cv_ok cv" "frames_sendable cv sort_boxes cvt config p" "fi_frame fi = mat_clone (cvt rs)" "picture_ok (cvt rs)"
    and "client_ok (js_client J)"
  obtains J' where "process_frame cv sort_boxes config p fi J = Some J'" "client_ok (js_client J')"
    "js_frame_id J' = js_frame_id J + 1"
proof -
  obtain cands where c: "frame_candidates cv sort_boxes config p (fi_frame fi) (js_frame_id J) = Some cands"
    "list_all (sendable (fi_frame fi)) cands" using assms(2,3) unfolding frames_sendable_def Let_def by metis
  have pic: "picture_ok (fi_frame fi)" using assms(3,4) by simp
  let ?cands = "sent_candidates config J (fi_frame_ms fi) cands"
  have "list_all (sendable (fi_frame fi)) ?cands" using c(2) heartbeat_sendable [OF pic] by (simp add: sent_candidates_def)
  from roi_loop_sends [OF assms(1) pic this] obtain W ps where
    W: "roi_loop cv fi (frame_counted config J) (heartbeat_frame config J (fi_frame_ms fi) cands) 0 ?cands (start_work J) = Some W"
      "rw_client W = after_requests ps (js_client J)" by (metis (no_types) roi_work.select_convs(1) start_work_def)
  obtain J' where J': "process_frame cv sort_boxes config p fi J = Some J'" "frame_ended config fi ?cands W J J'"
    by (rule process_frame_loop [OF c(1) W(1)])
  have "client_ok (rw_client W)" using W(2) assms(5) by (simp add: client_ok_after)
  then have "client_ok (js_client J')" using J'(2) by (simp add: frame_ended_def reconnected_def client_ok_connect)
  then show thesis using that J' by (simp add: frame_ended_def)
qed

text \<open>The boxes of regions that can be sent can be drawn.\<close>

lemma sendable_drawable:
  assumes "picture_ok bgr" "sendable bgr cand"
  shows "v \<in> {bb_x (object_bbox cand), bb_y (object_bbox cand), bb_width (object_bbox cand), bb_height (object_bbox cand)} \<Longrightarrow>
    int_of_fp v \<noteq> None"
proof -
  obtain x y w h where b: "object_bbox cand = \<lparr>bb_x = Fin x, bb_y = Fin y, bb_width = Fin w, bb_height = Fin h\<rparr>"
    "0 \<le> x" "x < of_int (cols bgr)" "1/16 \<le> w" "w \<le> 2 ^ 14 + 1" "0 \<le> y" "y < of_int (rows bgr)" "1/16 \<le> h" "h \<le> 2 ^ 14 + 1"
    using assms(2) unfolding sendable_def by blast
  have "(of_int (cols bgr) :: rat) \<le> 2 ^ 14" "(of_int (rows bgr) :: rat) \<le> 2 ^ 14"
    using assms(1) of_int_le_iff [where ?'a = rat, of "cols bgr" "2 ^ 14"] of_int_le_iff [where ?'a = rat, of "rows bgr" "2 ^ 14"]
    by (simp_all add: picture_ok_def)
  then have "0 \<le> t \<and> t \<le> 2 ^ 14 + 1" if "t \<in> {x, y, w, h}" for t using b that by auto
  moreover have "int_of_fp (Fin t) \<noteq> None" if "0 \<le> t" "t \<le> 2 ^ 14 + 1" for t
  proof -
    have "0 \<le> \<lfloor>t\<rfloor>" "\<lfloor>t\<rfloor> \<le> 2 ^ 14 + 1" using that by (simp_all add: floor_le_iff)
    then show ?thesis using that by (simp add: int_of_fp_def ck_def)
  qed
  ultimately show "v \<in> {bb_x (object_bbox cand), bb_y (object_bbox cand), bb_width (object_bbox cand), bb_height (object_bbox cand)} \<Longrightarrow>
      int_of_fp v \<noteq> None" unfolding b(1) by auto
qed

lemma roi_step_overlays:
  assumes "roi_step cv fi counted hb n cand W = Some W'"
  obtains ovs where "rw_overlays W' = rw_overlays W @ ovs" "\<forall>ov \<in> set ovs. ov_bbox ov = object_bbox cand"
proof (cases "request_of cv (fi_frame fi) cand")
  case (Some q)
  obtain a b c where t: "t_roi fi n = (a, b, c)" by (metis prod_cases3)
  show thesis
  proof (cases q)
    case None
    then show thesis using assms Some that [of "[]"] by (simp add: roi_step_def)
  next
    case (Some p)
    obtain C st res where r: "classify (rw_client W) p no_result = (C, st, res)" by (metis prod_cases3)
    show thesis
    proof (cases hb)
      case True
      then show thesis using assms \<open>request_of _ _ _ = _\<close> Some t r that [of "[]"] by (auto simp: roi_step_def Let_def)
    next
      case False
      then have "\<exists>ov. rw_overlays W' = rw_overlays W @ [ov] \<and> ov_bbox ov = object_bbox cand"
        using assms \<open>request_of _ _ _ = _\<close> Some t r by (cases counted) (auto simp: roi_step_def Let_def)
      then show thesis using that by auto
    qed
  qed
qed (use assms in \<open>simp add: roi_step_def\<close>)

lemma roi_loop_drawable:
  assumes "roi_loop cv fi counted hb n cands W = Some W'" "picture_ok bgr" "list_all (sendable bgr) cands" "drawable (rw_overlays W)"
  shows "drawable (rw_overlays W')"
  using assms(1,3,4)
proof (induction cands arbitrary: n W)
  case (Cons cand cands)
  then obtain W1 where W1: "roi_step cv fi counted hb n cand W = Some W1" "roi_loop cv fi counted hb (Suc n) cands W1 = Some W'"
    by (auto split: bind_splits)
  obtain ovs where ovs: "rw_overlays W1 = rw_overlays W @ ovs" "\<forall>ov \<in> set ovs. ov_bbox ov = object_bbox cand"
    by (rule roi_step_overlays [OF W1(1)])
  have "sendable bgr cand" using Cons.prems(2) by simp
  from sendable_drawable [OF assms(2) this] have "drawable ovs" unfolding drawable_def list_all_iff using ovs(2) by metis
  then have "drawable (rw_overlays W1)" using Cons.prems(3) by (simp add: ovs(1) drawable_def)
  then show ?case using Cons.IH [OF W1(2)] Cons.prems(2) by simp
qed simp

definition published_ok :: "jetson \<Rightarrow> bool" where
  "published_ok J \<longleftrightarrow> list_all (\<lambda>f. drawable (snd f)) (js_published J)"

lemma process_frame_drawable:
  assumes "process_frame cv sort_boxes config p fi J = Some J'" "frames_sendable cv sort_boxes cvt config p"
    and "fi_frame fi = mat_clone (cvt rs)" "picture_ok (cvt rs)" "published_ok J"
  shows "published_ok J'"
proof -
  obtain cands where c: "frame_candidates cv sort_boxes config p (fi_frame fi) (js_frame_id J) = Some cands"
    "list_all (sendable (fi_frame fi)) cands" using assms(2,3) unfolding frames_sendable_def Let_def by metis
  have pic: "picture_ok (fi_frame fi)" using assms(3,4) by simp
  let ?cands = "sent_candidates config J (fi_frame_ms fi) cands"
  obtain W where W: "roi_loop cv fi (frame_counted config J) (heartbeat_frame config J (fi_frame_ms fi) cands) 0 ?cands (start_work J) = Some W"
    using assms(1) process_frame_eq [OF c(1)] by (auto simp: map_option_case split: option.splits)
  obtain J2 where J2: "process_frame cv sort_boxes config p fi J = Some J2" "frame_ended config fi ?cands W J J2"
    by (rule process_frame_loop [OF c(1) W])
  have "list_all (sendable (fi_frame fi)) ?cands" using c(2) heartbeat_sendable [OF pic] by (simp add: sent_candidates_def)
  from roi_loop_drawable [OF W pic this] have "drawable (rw_overlays W)" by (simp add: start_work_def drawable_def)
  then show ?thesis using J2 assms(1,5) by (simp add: frame_ended_def published_ok_def)
qed

section \<open>The loop\<close>

lemma run_steps_keep:
  assumes "fs_inv F"
  obtains F' where "run_steps cvt as F = Some F'" "fs_inv F'" "fs_running F' = fs_running F" "delivered F' = delivered F"
    "\<exists>ms. captured F' = captured F @ ms"
proof -
  have "\<exists>F'. run_steps cvt as F = Some F' \<and> fs_inv F' \<and> fs_running F' = fs_running F \<and> delivered F' = delivered F
    \<and> (\<exists>ms. captured F' = captured F @ ms)"
    using assms
  proof (induction as arbitrary: F)
    case (Cons a as)
    obtain F1 where F1: "run_step cvt a F = Some F1" "fs_inv F1" "fs_running F1 = fs_running F" "delivered F1 = delivered F"
      "\<exists>ms. captured F1 = captured F @ ms" by (rule fs_inv_run [OF Cons.prems, of cvt a])
    from Cons.IH [OF F1(2)] show ?case using F1 by auto
  qed auto
  then show thesis using that by blast
qed

text \<open>The pictures that a run of the loop takes up.\<close>

fun frame_pictures :: "frame_event list \<Rightarrow> pixel_mat list" where
  "frame_pictures [] = []"
| "frame_pictures (NoFrame st # es) = (if st = FsTimeout then frame_pictures es else [])"
| "frame_pictures (NewFrame fi # es) = fi_frame fi # frame_pictures es"

text \<open>The \<open>k\<close>-th frame of the thread, as it was delivered.\<close>

definition nth_frame :: "frame_source \<Rightarrow> nat \<Rightarrow> pixel_mat" where
  "nth_frame F k = mat_clone (captured F ! (k - 1))"

definition pictures_ok :: "(u8 list list \<Rightarrow> pixel_mat) \<Rightarrow> frame_source \<Rightarrow> bool" where
  "pictures_ok cvt F \<longleftrightarrow> set (captured F) \<subseteq> range cvt \<and> (\<forall>m. fs_thread F = GotFrame m \<longrightarrow> m \<in> range cvt)
     \<and> (\<forall>k \<in> set (delivered F). 0 < k \<and> k \<le> length (captured F))"


lemma nth_frame_more:
  "captured F' = captured F @ ms \<Longrightarrow> 0 < k \<Longrightarrow> k \<le> length (captured F) \<Longrightarrow> nth_frame F' k = nth_frame F k"
  by (simp add: nth_frame_def nth_append)

lemma pictures_ok_run:
  assumes "pictures_ok cvt F" "run_step cvt a F = Some F'"
  shows "pictures_ok cvt F'"
proof (cases "fs_thread F")
  case Capturing
  obtain V out r where c: "captureFrame cvt (fs_capture F) a = Some (V, out, r)"
    using assms(2) Capturing by (auto simp: run_step_def split: option.splits)
  have "\<exists>rs. r = CapOk \<longrightarrow> the out = cvt rs" using c
    by (auto simp: captureFrame_def Let_def split: if_splits ioctl_answer.splits option.splits)
  then have "r = CapOk \<Longrightarrow> the out \<in> range cvt" by (metis rangeI)
  moreover have F': "F' = F\<lparr>fs_capture := V, fs_thread := if r = CapOk then GotFrame (the out) else if r = CapTimeout then AtLoop else GotEnd r\<rparr>"
    using assms(2) Capturing c by (auto simp: run_step_def Let_def split: if_splits)
  ultimately show ?thesis using assms(1) by (simp add: pictures_ok_def F')
qed (use assms in \<open>auto simp: run_step_def pictures_ok_def le_SucI split: if_splits\<close>)

lemma pictures_ok_steps:
  "run_steps cvt as F = Some F' \<Longrightarrow> pictures_ok cvt F \<Longrightarrow> pictures_ok cvt F'"
  by (induction as arbitrary: F) (auto simp: pictures_ok_run split: bind_splits)

lemma fs_inv_captured: "fs_inv F \<Longrightarrow> fs_seq F \<noteq> last_seq F \<Longrightarrow> captured F \<noteq> []"
  by (auto simp: fs_inv_def reader_ok_def)

text \<open>A call of \<open>next\<close> that answers Ok.\<close>

lemma fs_next_Ok:
  assumes "fs_inv F" "pictures_ok cvt F" "fs_next F = (F', FsOk, out)"
  shows "captured F' = captured F" "delivered F' = delivered F @ [length (captured F)]" "pictures_ok cvt F'"
    "the out = nth_frame F' (length (captured F))" "\<exists>rs. the out = mat_clone (cvt rs)" "fs_inv F'" "fs_running F' = fs_running F"
proof -
  have n: "\<not> capture_error F" "fs_seq F \<noteq> last_seq F" "out = latest_frame F"
    "F' = F\<lparr>last_seq := fs_seq F, delivered := delivered F @ [length (captured F)]\<rparr>"
    using assms(3) by (auto simp: fs_next_eq split: if_splits)
  have c: "captured F \<noteq> []" using fs_inv_captured [OF assms(1) n(2)] .
  then show "captured F' = captured F" "delivered F' = delivered F @ [length (captured F)]" "pictures_ok cvt F'"
    "fs_running F' = fs_running F" using n assms(2) by (auto simp: pictures_ok_def)
  have out: "the out = mat_clone (last (captured F))" using n(3) c assms(1) by (simp add: fs_inv_def)
  then show "the out = nth_frame F' (length (captured F))" using n(4) c by (simp add: nth_frame_def last_conv_nth)
  have "last (captured F) \<in> range cvt" using assms(2) last_in_set [OF c] by (auto simp: pictures_ok_def)
  then show "\<exists>rs. the out = mat_clone (cvt rs)" using out by auto
  show "fs_inv F'" using fs_inv_next [OF assms(1)] assms(3) by simp
qed

definition rounds_good ::
  "cv_lib \<Rightarrow> (decoded_box list \<Rightarrow> decoded_box list) \<Rightarrow> (u8 list list \<Rightarrow> pixel_mat) \<Rightarrow> client_config \<Rightarrow> proposer \<Rightarrow> frame_source \<Rightarrow> jetson \<Rightarrow> frame_source \<Rightarrow> jetson \<Rightarrow> bool" where
  "rounds_good cv sort_boxes cvt config p F J F' J' \<longleftrightarrow> fs_inv F' \<and> pictures_ok cvt F' \<and> client_ok (js_client J')
     \<and> (\<exists>ms. captured F' = captured F @ ms)
     \<and> (\<exists>es ks. jetson_loop cv sort_boxes config p es J = Some J' \<and> delivered F' = delivered F @ ks
          \<and> frame_pictures es = map (nth_frame F') ks \<and> js_frame_id J' = js_frame_id J + word_of_nat (length ks))"

lemma rounds_good_refl: "fs_inv F \<Longrightarrow> pictures_ok cvt F \<Longrightarrow> client_ok (js_client J) \<Longrightarrow> rounds_good cv sort_boxes cvt config p F J F J"
  unfolding rounds_good_def by (intro conjI exI [of _ "[]"]) simp_all

lemma rounds_good_frame:
  assumes "rounds_good cv sort_boxes cvt config p F2 J2 F' J'" "process_frame cv sort_boxes config p fi J = Some J2"
    and "js_frame_id J2 = js_frame_id J + 1" "fi_frame fi = nth_frame F2 n" "0 < n" "n = length (captured F2)"
    and "captured F2 = captured F @ ms" "delivered F2 = delivered F @ [n]"
  shows "rounds_good cv sort_boxes cvt config p F J F' J'"
proof -
  obtain ms' es ks where r: "captured F' = captured F2 @ ms'" "jetson_loop cv sort_boxes config p es J2 = Some J'"
    "delivered F' = delivered F2 @ ks" "frame_pictures es = map (nth_frame F') ks" "js_frame_id J' = js_frame_id J2 + word_of_nat (length ks)"
    using assms(1) unfolding rounds_good_def by blast
  have "nth_frame F' n = nth_frame F2 n" using nth_frame_more [OF r(1)] assms(5,6) by simp
  then have "jetson_loop cv sort_boxes config p (NewFrame fi # es) J = Some J'" "delivered F' = delivered F @ n # ks"
    "frame_pictures (NewFrame fi # es) = map (nth_frame F') (n # ks)" "js_frame_id J' = js_frame_id J + word_of_nat (length (n # ks))"
    "captured F' = captured F @ ms @ ms'"
    using r assms(2-4,7,8) by simp_all
  then show ?thesis using assms(1) unfolding rounds_good_def by blast
qed

lemma rounds_good_quiet:
  assumes "rounds_good cv sort_boxes cvt config p F1 J F' J'" "captured F1 = captured F @ ms" "delivered F1 = delivered F"
  shows "rounds_good cv sort_boxes cvt config p F J F' J'"
  using assms unfolding rounds_good_def by auto

lemma client_rounds_good:
  assumes "cv_ok cv" "\<forall>rs. picture_ok (cvt rs)" "frames_sendable cv sort_boxes cvt config p"
    and "fs_inv F" "pictures_ok cvt F" "client_ok (js_client J)"
  obtains F' J' where "client_rounds cv sort_boxes cvt config p rounds F J = Some (F', J')"
    "rounds_good cv sort_boxes cvt config p F J F' J'"
proof -
  have "\<exists>F' J'. client_rounds cv sort_boxes cvt config p rounds F J = Some (F', J') \<and> rounds_good cv sort_boxes cvt config p F J F' J'"
    using assms(4-6)
  proof (induction rounds arbitrary: F J)
    case Nil
    then show ?case using rounds_good_refl by simp
  next
    case (Cons round rounds)
    obtain as fi where round: "round = (as, fi)" by fastforce
    obtain F1 ms where F1: "run_steps cvt as F = Some F1" "fs_inv F1" "delivered F1 = delivered F" "captured F1 = captured F @ ms"
      by (rule run_steps_keep [OF Cons.prems(1), of cvt as]) blast
    have pics: "pictures_ok cvt F1" by (rule pictures_ok_steps [OF F1(1) Cons.prems(2)])
    obtain F2 st out where next_: "fs_next F1 = (F2, st, out)" by (metis prod_cases3)
    show ?case
    proof (cases "st = FsOk")
      case True
      note ok = fs_next_Ok [OF F1(2) pics next_ [unfolded True]]
      obtain rs where rs: "the out = mat_clone (cvt rs)" using ok(5) by blast
      obtain J2 where J2: "process_frame cv sort_boxes config p (fi\<lparr>fi_frame := the out\<rparr>) J = Some J2" "client_ok (js_client J2)"
        "js_frame_id J2 = js_frame_id J + 1"
        by (rule process_frame_defined [OF assms(1,3), of "fi\<lparr>fi_frame := the out\<rparr>" rs J]) (use rs assms(2) Cons.prems(3) in simp_all)
      obtain F' J' where r: "client_rounds cv sort_boxes cvt config p rounds F2 J2 = Some (F', J')" "rounds_good cv sort_boxes cvt config p F2 J2 F' J'"
        using Cons.IH [OF ok(6,3) J2(2)] by blast
      have "0 < length (captured F1)" using ok(2,3,1) by (simp add: pictures_ok_def)
      then have "rounds_good cv sort_boxes cvt config p F J F' J'"
        by (intro rounds_good_frame [OF r(2) J2(1,3), of "length (captured F1)" F ms]) (use ok F1 in simp_all)
      then show ?thesis using round F1(1) next_ True J2(1) r(1) by simp
    next
      case False
      then have same: "F2 = F1" using next_ by (auto simp: fs_next_eq split: if_splits)
      show ?thesis
      proof (cases "st = FsTimeout")
        case True
        obtain F' J' where r: "client_rounds cv sort_boxes cvt config p rounds F1 J = Some (F', J')" "rounds_good cv sort_boxes cvt config p F1 J F' J'"
          using Cons.IH [OF F1(2) pics Cons.prems(3)] by blast
        then show ?thesis using rounds_good_quiet [OF r(2) F1(4,3)] round F1(1) next_ True same by simp
      next
        case no: False
        let ?J = "J\<lparr>capture_failed := True\<rparr>"
        have "jetson_loop cv sort_boxes config p [NoFrame st] J = Some ?J" using no by simp
        then have "rounds_good cv sort_boxes cvt config p F1 J F1 ?J" unfolding rounds_good_def
          using F1(2) pics Cons.prems(3) no by (intro conjI exI [of _ "[NoFrame st]"] exI [of _ "[]"]) simp_all
        then show ?thesis using rounds_good_quiet [OF _ F1(4,3)] round F1(1) next_ False no same by simp
      qed
    qed
  qed
  then show thesis using that by blast
qed

lemma client_rounds_published:
  assumes "client_rounds cv sort_boxes cvt config p rounds F J = Some (F', J')" "\<forall>rs. picture_ok (cvt rs)"
    "frames_sendable cv sort_boxes cvt config p" "fs_inv F" "pictures_ok cvt F" "published_ok J"
  shows "published_ok J'"
  using assms(1,4-6)
proof (induction rounds arbitrary: F J)
  case (Cons round rounds)
  obtain as fi where round: "round = (as, fi)" by fastforce
  obtain F1 where F1: "run_steps cvt as F = Some F1" "fs_inv F1" by (rule run_steps_keep [OF Cons.prems(2), of cvt as])
  have pics: "pictures_ok cvt F1" by (rule pictures_ok_steps [OF F1(1) Cons.prems(3)])
  obtain F2 st out where next_: "fs_next F1 = (F2, st, out)" by (metis prod_cases3)
  note loop = Cons.prems(1) [unfolded round client_rounds.simps F1(1) option.case next_ prod.case]
  show ?case
  proof (cases "st = FsOk")
    case True
    note ok = fs_next_Ok [OF F1(2) pics next_ [unfolded True]]
    obtain rs where rs: "the out = mat_clone (cvt rs)" using ok(5) by blast
    obtain J2 where J2: "process_frame cv sort_boxes config p (fi\<lparr>fi_frame := the out\<rparr>) J = Some J2"
      "client_rounds cv sort_boxes cvt config p rounds F2 J2 = Some (F', J')"
      using loop True by (auto split: bind_splits)
    have "published_ok J2" by (rule process_frame_drawable [OF J2(1) assms(3), of rs]) (use rs assms(2) Cons.prems(4) in simp_all)
    then show ?thesis by (rule Cons.IH [OF J2(2) ok(6,3)])
  next
    case False
    then have "F2 = F1" using next_ by (auto simp: fs_next_eq split: if_splits)
    then show ?thesis using loop False Cons.IH [OF _ F1(2) pics Cons.prems(4)] Cons.prems(4)
      by (auto simp: published_ok_def split: if_splits)
  qed
qed simp

section \<open>Leaving main\<close>

lemma join_source_ends:
  assumes "fs_inv F" "3 \<le> length (cw_join w)"
  obtains F' ms where "join_source cvt w F = Some F'" "fs_inv F'" "fs_thread F' = Finished"
    "delivered F' = delivered F" "captured F' = captured F @ ms"
proof -
  let ?S = "fs_stop F (cw_stop_write w)"
  have inv: "fs_inv ?S" using fs_inv_step [OF fs_step.Stop assms(1)] .
  have stopped: "\<not> fs_running ?S" by (simp add: fs_stop_def)
  obtain F' where F': "run_steps cvt (cw_join w) ?S = Some F'" "steps_left (fs_thread F') \<le> steps_left (fs_thread ?S) - length (cw_join w)"
    by (rule run_steps_end [OF inv stopped, of cvt "cw_join w"])
  have "steps_left (fs_thread ?S) \<le> 3" by (cases "fs_thread ?S") simp_all
  then have "steps_left (fs_thread F') = 0" using F'(2) assms(2) by simp
  then have fin: "fs_thread F' = Finished" by (cases "fs_thread F'") simp_all
  obtain G ms where G: "run_steps cvt (cw_join w) ?S = Some G" "fs_inv G" "delivered G = delivered ?S" "captured G = captured ?S @ ms"
    by (rule run_steps_keep [OF inv, of cvt "cw_join w"]) blast
  show thesis by (rule that [of F' ms]) (use F'(1) fin G in \<open>simp_all add: join_source_def fs_stop_def\<close>)
qed

lemma client_stream_started:
  assumes "client_stream w argv = Some M"
  shows "\<exists>config n b l. mj_start (MjpegStreamServer config) n b l = (M, True)" "mj_running M" "mj_clients M = []" "server_safe M"
proof -
  obtain p n b l where st: "mj_start (MjpegStreamServer (mjpeg_settings (cw_env w) p)) n b l = (M, True)"
    using assms by (auto simp: client_stream_def split: if_splits option.splits prod.splits)
  then show "\<exists>config n b l. mj_start (MjpegStreamServer config) n b l = (M, True)" by blast
  show "mj_running M" "mj_clients M = []" "server_safe M" using st
    by (auto simp: mj_start_def MjpegStreamServer_def server_safe_def Let_def split: if_splits)
qed

text \<open>The stream that is stopped: nothing held, every viewer gone.\<close>

definition stream_closed :: "mjpeg option \<Rightarrow> bool" where
  "stream_closed S \<longleftrightarrow> (\<forall>M. S = Some M \<longrightarrow> mj_held M = [] \<and> list_all (\<lambda>c. mc_state c = Gone) (mj_clients M))"

lemma stream_ends:
  assumes "jpegs_fit (cw_graphics w)" "viewers_finish (cw_stream w) (cw_stream_join w)" "list_all (\<lambda>f. drawable (snd f)) pubs"
  obtains S S' where "run_stream cv w pubs (client_stream w argv) = Some S" "end_stream cv w S = Some S'" "stream_closed S'"
proof (cases "client_stream w argv")
  case None
  then show thesis using that [of None None] by (simp add: run_stream_def end_stream_def stream_closed_def)
next
  case (Some M0)
  note started = client_stream_started [OF Some]
  obtain M where M: "publish_all cv (cw_graphics w) pubs (cw_stream w) M0 = Some M" "server_safe M" "mj_running M"
    "length (mj_clients M) \<le> length (filter accepts (concat (cw_stream w)))"
    by (rule publish_all_defined [OF started(4) assms(1,3), of cv "cw_stream w"]) (use started(2,3) in simp)
  obtain M' where M': "stop_server cv (cw_graphics w) (cw_stream_join w) M = Some M'"
    using stop_server_returns [OF M(2) assms(1), of "cw_stream_join w" cv] assms(2) M(4) unfolding viewers_finish_def by auto
  obtain config n b l where "mj_start (MjpegStreamServer config) n b l = (M0, True)" using started(1) by blast
  from stop_server_released [OF this M(1) M' M(3)] show thesis
    using Some M(1) M' by (intro that [of "Some M" "Some M'"]) (simp_all add: run_stream_def end_stream_def stream_closed_def)
qed

lemma leave_main_closes:
  assumes "fs_inv F" "client_ok C" "3 \<le> length (cw_join w)" "jpegs_fit (cw_graphics w)"
    "viewers_finish (cw_stream w) (cw_stream_join w)" "\<And>J'. J = Some J' \<Longrightarrow> published_ok J'"
  obtains R F' ms where "leave_main cv cvt w (client_stream w argv) status C F J = Some R" "cf_exit R = status" "cap_closed (cf_camera R)"
    "cf_thread R = Finished" "c_held (cf_client R) = []" "stream_closed (cf_stream R)"
    "cf_run R = map_option (Pair F') J" "fs_inv F'" "delivered F' = delivered F" "captured F' = captured F @ ms"
proof -
  obtain F' ms where F': "join_source cvt w F = Some F'" "fs_inv F'" "fs_thread F' = Finished"
    "delivered F' = delivered F" "captured F' = captured F @ ms" by (rule join_source_ends [OF assms(1,3)])
  have "list_all (\<lambda>f. drawable (snd f)) (case J of None \<Rightarrow> [] | Some J \<Rightarrow> js_published J)"
    using assms(6) by (simp add: published_ok_def split: option.split)
  then obtain S S' where S: "run_stream cv w (case J of None \<Rightarrow> [] | Some J \<Rightarrow> js_published J) (client_stream w argv) = Some S"
    "end_stream cv w S = Some S'" "stream_closed S'" by (rule stream_ends [OF assms(4,5), of _ cv argv])
  have "cap_closed (cap_close (fs_capture F'))" using F'(2) by (intro cap_close_closed) (simp add: fs_inv_def streaming_ok_def)
  then show thesis using that F' S client_ok_disconnect(2) [OF assms(2)] by (simp add: leave_main_def)
qed

lemma camera_cases:
  assumes "cap_init V4L2Capture a request = (V, opened)"
  shows "opened \<Longrightarrow> streaming_ok V" "\<not> opened \<Longrightarrow> cap_closed (cap_close V)"
proof -
  have "cap_inv V4L2Capture" by (simp add: cap_inv_def V4L2Capture_def)
  note r = cap_init_result [OF assms this]
  then show "opened \<Longrightarrow> streaming_ok V" by simp
  show "\<not> opened \<Longrightarrow> cap_closed (cap_close V)" using r by (intro cap_close_closed) (simp add: cap_closed_def cap_inv_def)
qed

definition main_config :: "client_world \<Rightarrow> string list \<Rightarrow> client_config option" where
  "main_config w argv = client_settings (cw_env w) (cw_strtod w) (cw_csv_opens w) (client_stream w argv \<noteq> None) argv"

text \<open>What a run was: the events of the loop, the frames they took up, the state at the end.\<close>

definition run_good ::
  "cv_lib \<Rightarrow> (decoded_box list \<Rightarrow> decoded_box list) \<Rightarrow> client_config \<Rightarrow> proposer \<Rightarrow> frame_source \<Rightarrow> jetson \<Rightarrow> bool" where
  "run_good cv sort_boxes config p F J \<longleftrightarrow> js_frame_id J = word_of_nat (length (delivered F))
     \<and> (length (captured F) < 2 ^ 64 \<longrightarrow> sorted_wrt (<) (0 # delivered F)) \<and> (\<forall>k \<in> set (delivered F). k \<le> length (captured F))
     \<and> (\<exists>C es J0. jetson_loop cv sort_boxes config p es (jetson_initial C) = Some J0 \<and> J = fst (jetson_end J0)
          \<and> frame_pictures es = map (nth_frame F) (delivered F))"

lemma run_good_rounds:
  assumes "rounds_good cv sort_boxes cvt config p F (jetson_initial C) F1 J0" "delivered F = []" "fs_inv F'"
    and "delivered F' = delivered F1" "captured F' = captured F1 @ ms"
  shows "run_good cv sort_boxes config p F' (fst (jetson_end J0))"
proof -
  obtain es where es: "jetson_loop cv sort_boxes config p es (jetson_initial C) = Some J0"
    "frame_pictures es = map (nth_frame F1) (delivered F1)" "js_frame_id J0 = word_of_nat (length (delivered F1))"
    using assms(1,2) unfolding rounds_good_def by (auto simp: jetson_initial_def)
  have pics: "\<forall>k \<in> set (delivered F1). 0 < k \<and> k \<le> length (captured F1)" using assms(1) by (simp add: rounds_good_def pictures_ok_def)
  then have "map (nth_frame F1) (delivered F1) = map (nth_frame F') (delivered F')"
    using nth_frame_more [OF assms(5)] assms(4) by simp
  moreover have "js_frame_id (fst (jetson_end J0)) = js_frame_id J0" by (simp add: jetson_end_def Let_def)
  moreover have "length (captured F') < 2 ^ 64 \<longrightarrow> sorted_wrt (<) (0 # delivered F')"
    using assms(3) unfolding fs_inv_def reader_ok_def by blast
  moreover have "\<forall>k \<in> set (delivered F'). k \<le> length (captured F')" using pics assms(4,5) by (simp add: trans_le_add1)
  ultimately show ?thesis unfolding run_good_def using es(1,2,3) unfolding assms(4) by metis
qed

text \<open>
  C13: The client leaves nothing behind, and every frame it handles is a new one. Whatever the arguments, the environment,
  the driver, the listener, the connection and the threads do, with pictures of at most \<open>2 ^ 14\<close> pixels a side whose proposals
  can be sent (\<open>frames_sendable\<close>), JPEGs of less than \<open>2 ^ 64\<close> bytes, a capture thread that is scheduled (three
  steps), and a stream each of whose viewers
  gets out of its \<open>recv\<close> and is scheduled (\<open>viewers_finish\<close>; \<open>stop\<close> would otherwise wait for it without end, see
  \<open>silent_viewer_blocks\<close>): \<open>main\<close>
  returns, the joins of the capture thread and of the threads of the stream included, or is terminated because the proposer
  cannot be made; when it returns, the camera is closed, the thread has ended, the connection, the listener and
  every viewer's descriptor are given back, also on the
  ways out in between; and a run has taken up, in order, copies of the frames that \<open>next\<close> delivered,
  never one twice (up to 2 to the 64 frames), numbered by the frame ids, and exits with success exactly when the camera did not fail.
\<close>

theorem client_leaves_nothing:
  assumes "cv_ok cv" "\<forall>rs. picture_ok (cvt rs)" "small_frame (fst (cap_init V4L2Capture (cw_camera w) Request_default))"
    and "\<forall>config p. main_config w argv = Some config \<longrightarrow> RoiProposer (cw_engines w) (cc_proposer config) = Inr p \<longrightarrow>
       frames_sendable cv sort_boxes cvt config p"
    and "3 \<le> length (cw_join w)" "jpegs_fit (cw_graphics w)" "viewers_finish (cw_stream w) (cw_stream_join w)"
  shows "\<exists>R. jetson_main cv sort_boxes cvt w argv = Some R
    \<and> (if cf_exit R = Terminated
       then \<exists>config e. main_config w argv = Some config \<and> RoiProposer (cw_engines w) (cc_proposer config) = Inl e
       else cap_closed (cf_camera R) \<and> cf_thread R = Finished \<and> c_held (cf_client R) = []
         \<and> (\<forall>M. cf_stream R = Some M \<longrightarrow> mj_held M = [] \<and> list_all (\<lambda>c. mc_state c = Gone) (mj_clients M)))
    \<and> (case cf_run R of None \<Rightarrow> cf_exit R \<noteq> ExitSuccess
       | Some (F, J) \<Rightarrow> cf_exit R = (if capture_failed J then ExitFailure else ExitSuccess)
           \<and> (\<exists>config p. main_config w argv = Some config \<and> run_good cv sort_boxes config p F J))"
proof (cases "main_config w argv")
  case None
  moreover have "cap_closed V4L2Capture" by (simp add: cap_closed_def V4L2Capture_def)
  ultimately show ?thesis by (simp add: jetson_main_def main_config_def TcpRoiClient_def)
next
  case (Some config)
  then have s: "client_settings (cw_env w) (cw_strtod w) (cw_csv_opens w) (client_stream w argv \<noteq> None) argv = Some config"
    by (simp add: main_config_def)
  obtain V opened where V: "cap_init V4L2Capture (cw_camera w) Request_default = (V, opened)" by fastforce
  note cam = camera_cases [OF V]
  show ?thesis
  proof (cases opened)
    case False
    obtain S S' where S: "run_stream cv w [] (client_stream w argv) = Some S" "end_stream cv w S = Some S'" "stream_closed S'"
      by (rule stream_ends [OF assms(6,7), of "[]" cv argv]) simp_all
    show ?thesis using s V cam(2) [OF False] False S by (simp add: jetson_main_def TcpRoiClient_def stream_closed_def)
  next
    case True
    let ?F0 = "fs_start (FrameSource V)"
    have inv0: "fs_inv ?F0" "pictures_ok cvt ?F0" "delivered ?F0 = []"
      using fs_inv_start [OF cam(1) [OF True]] assms(3) V by (simp_all add: pictures_ok_def) (simp_all add: fs_start_def FrameSource_def)
    obtain F ms where F: "run_steps cvt (cw_before w) ?F0 = Some F" "fs_inv F" "delivered F = delivered ?F0" "captured F = captured ?F0 @ ms"
      by (rule run_steps_keep [OF inv0(1), of cvt "cw_before w"]) blast
    have pics: "pictures_ok cvt F" by (rule pictures_ok_steps [OF F(1) inv0(2)])
    obtain C st where C: "connectToServer TcpRoiClient (cc_address config) (cc_port config) (cw_connect w) = (C, st)" by fastforce
    have "client_ok TcpRoiClient" by (simp add: client_ok_def TcpRoiClient_def)
    then have Cok: "client_ok C" using client_ok_connect [of TcpRoiClient "cc_address config" "cc_port config" "cw_connect w"] C by simp
    show ?thesis
    proof (cases "st = Ok")
      case False
      obtain R where R: "leave_main cv cvt w (client_stream w argv) ExitFailure C F None = Some R" "cf_exit R = ExitFailure"
        "cap_closed (cf_camera R)" "cf_thread R = Finished" "c_held (cf_client R) = []" "stream_closed (cf_stream R)" "cf_run R = None"
        by (rule leave_main_closes [OF F(2) Cok assms(5-7), of None cv cvt argv ExitFailure]) auto
      have "jetson_main cv sort_boxes cvt w argv = Some R" using s V True F(1) C False R(1) by (simp add: jetson_main_def)
      then show ?thesis using R by (auto simp: stream_closed_def)
    next
      case connected: True
      show ?thesis
      proof (cases "RoiProposer (cw_engines w) (cc_proposer config)")
        case (Inl e)
        obtain S where "run_stream cv w [] (client_stream w argv) = Some S"
          by (rule stream_ends [OF assms(6,7), of "[]" cv argv]) simp_all
        then show ?thesis using s V True F(1) C connected Some Inl by (auto simp: jetson_main_def)
      next
        case (Inr p)
        then have send: "frames_sendable cv sort_boxes cvt config p" using assms(4) Some by blast
        moreover have "client_ok (js_client (jetson_initial C))" using Cok by (simp add: jetson_initial_def)
        ultimately obtain F1 J0 where r: "client_rounds cv sort_boxes cvt config p (cw_rounds w) F (jetson_initial C) = Some (F1, J0)"
          "rounds_good cv sort_boxes cvt config p F (jetson_initial C) F1 J0"
          by (rule client_rounds_good [OF assms(1,2) _ F(2) pics])
        obtain J success where J: "jetson_end J0 = (J, success)" by fastforce
        then have e: "success = (\<not> capture_failed J)" "J = fst (jetson_end J0)" "client_ok (js_client J)"
          using r(2) by (auto simp: jetson_end_def rounds_good_def Let_def client_ok_disconnect)
        have "published_ok (jetson_initial C)" by (simp add: published_ok_def jetson_initial_def)
        from client_rounds_published [OF r(1) assms(2) send F(2) pics this] have pub: "published_ok J"
          by (simp add: e(2) published_ok_def jetson_end_def Let_def)
        have F1: "fs_inv F1" using r(2) by (simp add: rounds_good_def)
        let ?status = "if success then ExitSuccess else ExitFailure"
        obtain R F' ms' where R: "leave_main cv cvt w (client_stream w argv) ?status (js_client J) F1 (Some J) = Some R" "cf_exit R = ?status"
          "cap_closed (cf_camera R)" "cf_thread R = Finished" "c_held (cf_client R) = []"
          "stream_closed (cf_stream R)" "cf_run R = Some (F', J)"
          "fs_inv F'" "delivered F' = delivered F1" "captured F' = captured F1 @ ms'"
          by (rule leave_main_closes [OF F1 e(3) assms(5-7), of "Some J" cv cvt argv ?status]) (use pub in auto)
        have "jetson_main cv sort_boxes cvt w argv = Some R"
          using s V True F(1) C connected Inr r(1) J R(1) by (simp add: jetson_main_def)
        moreover have "run_good cv sort_boxes config p F' J"
          unfolding e(2) by (rule run_good_rounds [OF r(2) _ R(8-10)]) (use F(3) inv0(3) in simp)
        ultimately show ?thesis using R e(1) Some by (auto simp: stream_closed_def)
      qed
    qed
  qed
qed

text \<open>A network that proposes the same box everywhere.\<close>

lemma nms_path: "nms (c\<lparr>engine_path := e\<rparr>) f bs ps = nms c f bs ps"
  by (induction bs arbitrary: ps) (simp_all add: Let_def)

lemma decode_boxes_path: "decode_boxes (c\<lparr>engine_path := e\<rparr>) lb w h out = decode_boxes c lb w h out"
proof -
  have "decode_box (c\<lparr>engine_path := e\<rparr>) lb w h out = decode_box c lb w h out" by (rule ext) (simp add: decode_box_def)
  then show ?thesis by (simp add: decode_boxes_def)
qed

lemma propose_path:
  "propose cv sort_boxes \<lparr>pr_config = c\<lparr>engine_path := e\<rparr>, pr_engine = i\<rparr> bgr f = propose cv sort_boxes \<lparr>pr_config = c, pr_engine = i\<rparr> bgr f"
  by (cases i) (simp_all add: propose_def nms_path decode_boxes_path Let_def cong: if_cong)

lemma constant_sendable:
  obtains cands where "propose reference_cv (\<lambda>bs. foldr insert_box bs []) \<lparr>pr_config = ProposerConfig_default\<lparr>engine_path := e\<rparr>,
      pr_engine = Some constant_engine\<rparr> (mat_of 320 320 (\<lambda>y x c. 9)) f = Some cands" "cands \<noteq> []"
    "list_all (sendable (mat_of 320 320 (\<lambda>y x c. 9))) cands" "map k_roi_id cands = map word_of_nat [0..<length cands]"
    "length cands \<le> 10"
proof -
  let ?p = "\<lparr>pr_config = ProposerConfig_default\<lparr>engine_path := e\<rparr>, pr_engine = Some constant_engine\<rparr>"
  obtain cands where c: "propose reference_cv (\<lambda>bs. foldr insert_box bs []) ?p (mat_of 320 320 (\<lambda>y x c. 9)) f = Some cands"
    "cands \<noteq> []" "list_all wide_enough cands" unfolding propose_path by (rule constant_proposals)
  have "picture_ok (mat_of 320 320 (\<lambda>y x c. 9))" "0 < max_candidates (pr_config ?p)"
    by (simp_all add: picture_ok_def ProposerConfig_default_def)
  moreover have "max_candidates (pr_config ?p) = 10" by (simp add: ProposerConfig_default_def)
  ultimately show thesis using propose_sendable [OF _ constant_engine_ok insertion_sort_ok, of ?p "mat_of 320 320 (\<lambda>y x c. 9)" reference_cv f] c
    by (auto intro: that)
qed

definition world_example :: client_world where
  "world_example = \<lparr>cw_env = (\<lambda>_. None), cw_strtod = (\<lambda>_. (Fin 0, 0, False)), cw_csv_opens = False, cw_listen = (11, True, True),
     cw_camera = example_answers\<lparr>a_qbuf := (\<lambda>_. (1, Answered ()))\<rparr>,
     cw_connect = \<lparr>c_new_fd = 9, c_pton_ok = True, c_connect_ok = True, c_conn = \<lparr>incoming = [], send_replies = [], outgoing = []\<rparr>\<rparr>,
     cw_engines = (\<lambda>_. Some constant_engine), cw_before = [], cw_rounds = [([], example_input)], cw_stop_write = True,
     cw_join = replicate 3 \<lparr>fa_poll = (1, Events False True), fa_dqbuf = (0, Answered 0), fa_qbuf = (0, Answered ()), fa_memory = (\<lambda>_ _. 3)\<rparr>,
     cw_graphics = example_graphics, cw_stream = [[AcceptViewer True 12 [Took 1000]], [TakeFrame, EncodeFrame]],
     cw_stream_join = [EncodeFrame, ViewerThread 0, ViewerThread 0]\<rparr>"

definition argv_example :: "string list" where
  "argv_example = [''client'', ''/dev/video0'', ''10.0.0.2'', ''5000'', ''yolo.engine'', ''8080'']"

lemma main_config_example:
  assumes "main_config world_example argv_example = Some config"
  shows "\<not> cc_full_frame config" "cc_proposer config = ProposerConfig_default\<lparr>engine_path := ''yolo.engine''\<rparr>"
  using assms by (auto simp: main_config_def client_settings_def world_example_def argv_example_def env_ratio_def
      ProposerConfig_default_def Let_def split: option.splits)

lemma proposer_example:
  "RoiProposer (cw_engines world_example) (ProposerConfig_default\<lparr>engine_path := ''yolo.engine''\<rparr>)
     = Inr \<lparr>pr_config = ProposerConfig_default\<lparr>engine_path := ''yolo.engine''\<rparr>, pr_engine = Some constant_engine\<rparr>"
  by (simp add: RoiProposer_def world_example_def ProposerConfig_default_def)

theorem client_leaves_nothing_witness:
  "\<exists>R. jetson_main reference_cv (\<lambda>bs. foldr insert_box bs []) (\<lambda>_. mat_of 320 320 (\<lambda>y x c. 9)) world_example argv_example = Some R
     \<and> cap_closed (cf_camera R) \<and> cf_thread R = Finished \<and> c_held (cf_client R) = []"
proof -
  let ?pic = "mat_of 320 320 (\<lambda>y x c. 9)"
  have cam: "small_frame (fst (cap_init V4L2Capture (cw_camera world_example) Request_default))"
    using example_opens(2,3) by (simp add: small_frame_def world_example_def)
  have pics: "\<forall>rs :: u8 list list. picture_ok ?pic" by (simp add: picture_ok_def)
  have clone: "mat_clone ?pic = ?pic" by (simp add: mat_clone_def mat_of_def)
  have send: "frames_sendable reference_cv (\<lambda>bs. foldr insert_box bs []) (\<lambda>_. ?pic) config p"
    if "main_config world_example argv_example = Some config" "RoiProposer (cw_engines world_example) (cc_proposer config) = Inr p" for config p
  proof -
    have "p = \<lparr>pr_config = ProposerConfig_default\<lparr>engine_path := ''yolo.engine''\<rparr>, pr_engine = Some constant_engine\<rparr>"
      using that main_config_example(2) [OF that(1)] proposer_example by simp
    then show ?thesis unfolding frames_sendable_def Let_def clone
      using constant_sendable main_config_example(1) [OF that(1)] by (simp add: frame_candidates_def) metis
  qed
  let ?main = "jetson_main reference_cv (\<lambda>bs. foldr insert_box bs []) (\<lambda>_. ?pic) world_example argv_example"
  have world: "3 \<le> length (cw_join world_example)" "jpegs_fit (cw_graphics world_example)"
    "viewers_finish (cw_stream world_example) (cw_stream_join world_example)"
    by (simp_all add: world_example_def jpegs_fit_def example_graphics_def viewers_finish_def)
  have "\<forall>config p. main_config world_example argv_example = Some config \<longrightarrow>
      RoiProposer (cw_engines world_example) (cc_proposer config) = Inr p \<longrightarrow>
      frames_sendable reference_cv (\<lambda>bs. foldr insert_box bs []) (\<lambda>_. ?pic) config p" using send by blast
  from client_leaves_nothing [OF reference_cv_ok pics cam this world]
  obtain R where R: "?main = Some R"
    "if cf_exit R = Terminated
       then \<exists>config e. main_config world_example argv_example = Some config \<and> RoiProposer (cw_engines world_example) (cc_proposer config) = Inl e
       else cap_closed (cf_camera R) \<and> cf_thread R = Finished \<and> c_held (cf_client R) = []
         \<and> (\<forall>M. cf_stream R = Some M \<longrightarrow> mj_held M = [] \<and> list_all (\<lambda>c. mc_state c = Gone) (mj_clients M))"
    by blast
  then have "cf_exit R \<noteq> Terminated" using main_config_example(2) proposer_example by fastforce
  then show ?thesis using R by auto
qed

section \<open>The report\<close>

text \<open>The numbers of \<open>print_summary\<close>; None inside stands for a value that is not printed.\<close>

record jetson_summary =
  sm_wall_s :: fp
  sm_fps :: "fp option"
  sm_roi_rate :: "fp option"
  sm_rois_per_frame :: fp
  sm_status_counts :: "u32 \<Rightarrow> nat"
  sm_rows :: "(nat \<times> fp \<times> fp \<times> fp \<times> fp) option list"
  sm_bound_fps :: "fp option"
  sm_by_roi_count :: "nat \<Rightarrow> (nat \<times> fp \<times> fp option) option option"

definition rate :: "nat \<Rightarrow> fp \<Rightarrow> fp option" where
  "rate n seconds = (if fp_gt seconds (Fin 0) then Some (fdiv64 (double_of_int (int n)) seconds) else None)"

text \<open>The median of some samples and its inverse in frames per second.\<close>

definition median_rate :: "latency_stats \<Rightarrow> (fp \<times> fp option) option" where
  "median_rate stat = map_option (\<lambda>(stat, median). (median, if fp_gt median (Fin 0) then Some (fdiv64 (Fin 1000) median) else None))
     (percentileMs stat (Fin (1/2)))"

text \<open>The line of a number of regions; there is none for a number that did not occur.\<close>

definition count_row :: "latency_stats \<Rightarrow> (nat \<times> fp \<times> fp option) option option" where
  "count_row stat = (if stat = [] then Some None else map_option (\<lambda>(median, fps). Some (stats_count stat, median, fps)) (median_rate stat))"

fun all_rows :: "latency_stats list \<Rightarrow> (nat \<times> fp \<times> fp \<times> fp \<times> fp) option list option" where
  "all_rows [] = Some []"
| "all_rows (st # sts) = do { r \<leftarrow> stat_row st; rs \<leftarrow> all_rows sts; Some (r # rs) }"

definition print_summary :: "metrics \<Rightarrow> jetson_summary option option" where
  "print_summary m =
     (if m_frames m = 0 then Some None
      else let wall_s = fdiv64 (double_of_int (wall_us m)) (Fin 1000000) in do {
        table \<leftarrow> all_rows [m_capture m, m_propose m, m_crop m, m_rtt m, m_publish m, m_frame m, m_work m];
        bound \<leftarrow> (if stats_empty (m_work m) then Some None else map_option snd (median_rate (m_work m)));
        Some (Some \<lparr>sm_wall_s = wall_s, sm_fps = rate (m_frames m) wall_s, sm_roi_rate = rate (m_rois m) wall_s,
          sm_rois_per_frame = fdiv64 (double_of_int (int (m_rois m))) (double_of_int (int (m_frames m))),
          sm_status_counts = status_counts m, sm_rows = table, sm_bound_fps = bound,
          sm_by_roi_count = (\<lambda>n. count_row (frame_by_roi_count m n))\<rparr>) })"

text \<open>The line that is printed every \<open>progress_every\<close> frames: frames, and frames and regions per second.\<close>

definition progress_line :: "u64 \<Rightarrow> jetson \<Rightarrow> (nat \<times> fp \<times> nat \<times> fp) option" where
  "progress_line progress_every J =
     (let m = js_metrics J;
          span_s = fdiv64 (double_of_int (jetson_elapsed_us (measure_start J) (measure_end J))) (Fin 1000000)
      in if progress_every \<noteq> 0 \<and> m_frames m mod unat progress_every = 0
         then Some (m_frames m, if fp_gt span_s (Fin 0) then fdiv64 (double_of_int (int (m_frames m))) span_s else Fin 0,
                    m_rois m, if fp_gt span_s (Fin 0) then fdiv64 (double_of_int (int (m_rois m))) span_s else Fin 0)
         else None)"

text \<open>Samples whose sum stays in 64 bits, and not more than \<open>2 ^ 40\<close> of them: their row is defined.\<close>

definition reportable :: "latency_stats \<Rightarrow> bool" where
  "reportable st \<longleftrightarrow> length st \<le> 2 ^ 40 \<and> (\<Sum>x \<leftarrow> st. \<bar>x\<bar>) < 2 ^ 63"

lemma stats_sum_defined:
  "\<bar>t\<bar> + (\<Sum>x \<leftarrow> st. \<bar>x\<bar>) < 2 ^ 63 \<Longrightarrow>
     fold (\<lambda>sample total. Option.bind total (\<lambda>t. add_i64 t sample)) st (Some t) = Some (t + sum_list st)"
proof (induction st arbitrary: t)
  case (Cons x st)
  have "0 \<le> (\<Sum>x \<leftarrow> st. \<bar>x\<bar>)" by (induction st) auto
  then have "add_i64 t x = Some (t + x)" "\<bar>t + x\<bar> + (\<Sum>x \<leftarrow> st. \<bar>x\<bar>) < 2 ^ 63" using Cons.prems by (auto simp: add_i64_def)
  then show ?case using Cons.IH [of "t + x"] by simp
qed simp

lemma reportable_sort: "reportable st \<Longrightarrow> reportable (sort st)"
  using sum_mset_sum_list [of "map abs (sort st)"] sum_mset_sum_list [of "map abs st"] by (simp add: reportable_def)

lemma percentile_defined:
  assumes "reportable st" "q \<in> {Fin 0, Fin 1, Fin (1/2), round_fp binary64 (19/20)}"
  obtains v where "percentileMs st q = Some (sort st, v)" "st \<noteq> []" | "percentileMs st q = Some (st, Fin 0)" "st = []"
proof (cases "st = []")
  case False
  then show thesis using that percentile_index_values [of "length st"] assms by (auto simp: percentileMs_def reportable_def Let_def)
qed (use that in \<open>simp add: percentileMs_def\<close>)

lemma stat_row_defined:
  assumes "reportable st"
  shows "\<exists>r. stat_row st = Some r \<and> (r = None \<longleftrightarrow> st = [])"
proof (cases "st = []")
  case False
  obtain a where a: "percentileMs st (Fin (1/2)) = Some (sort st, a)"
    by (rule percentile_defined [OF assms, of "Fin (1/2)"]) (use False in auto)
  obtain b where b: "percentileMs (sort st) (round_fp binary64 (19/20)) = Some (sort st, b)"
    by (rule percentile_defined [OF reportable_sort [OF assms], of "round_fp binary64 (19/20)"]) (use False in \<open>auto simp: sorted_sort_id\<close>)
  obtain c where c: "maxMs (sort st) = Some (sort st, c)" unfolding maxMs_def
    by (rule percentile_defined [OF reportable_sort [OF assms], of "Fin 1"]) (use False in \<open>auto simp: sorted_sort_id\<close>)
  have "stats_sum (sort st) = Some (sum_list (sort st))"
    using stats_sum_defined [of 0 "sort st"] reportable_sort [OF assms] by (simp add: stats_sum_def reportable_def)
  then have "\<exists>m. meanMs (sort st) = Some m" by (simp add: meanMs_def)
  then obtain m where m: "meanMs (sort st) = Some m" ..
  show ?thesis using False by (simp add: stat_row_def a b c m stats_empty_def)
qed (simp add: stat_row_def stats_empty_def)

lemma all_rows_defined: "list_all reportable sts \<Longrightarrow> \<exists>rs. all_rows sts = Some rs \<and> length rs = length sts"
  by (induction sts) (use stat_row_defined in fastforce)+

text \<open>The report is made whenever the samples are not beyond all measure, and it is one for every run
  with a frame after the warm-up.\<close>

lemma print_summary_defined:
  assumes "list_all reportable [m_capture m, m_propose m, m_crop m, m_rtt m, m_publish m, m_frame m, m_work m]"
  shows "\<exists>r. print_summary m = Some r \<and> (r = None \<longleftrightarrow> m_frames m = 0)"
proof -
  obtain rs where rs: "all_rows [m_capture m, m_propose m, m_crop m, m_rtt m, m_publish m, m_frame m, m_work m] = Some rs"
    using all_rows_defined [OF assms] by blast
  have "\<exists>v. percentileMs (m_work m) (Fin (1/2)) = Some v"
    by (rule percentile_defined [of "m_work m" "Fin (1/2)"]) (use assms in auto)
  then show ?thesis by (auto simp: print_summary_def rs median_rate_def Let_def simp del: all_rows.simps)
qed

end
