(* ===== verification/Jetson_Checks.thy ===== *)
theory Jetson_Checks
  imports Jetson_Main
begin

text \<open>
  The two command-line checks of the Jetson: \<open>tools/camera_roi_check.cpp\<close> takes pictures with the camera, proposes
  and crops, and saves what it found; \<open>tools/proposal_golden_check.cpp\<close> compares the proposals of one picture with
  those of the reference. Drawing is an argument; what is printed is left out.
\<close>

section \<open>Names of the pictures\<close>

definition numbered_name :: "string \<Rightarrow> u32 \<Rightarrow> string" where
  "numbered_name name_prefix number =
     (let digits = decimal (unat number)
      in name_prefix @ replicate (3 - length digits) (CHR ''0'') @ digits @ ''.jpg'')"

definition crop_name :: "u32 \<Rightarrow> u32 \<Rightarrow> string" where
  "crop_name frame_id roi_id = ''frame_'' @ decimal (unat frame_id) @ ''_roi_'' @ decimal (unat roi_id) @ ''.jpg''"

definition output_path :: "string \<Rightarrow> string \<Rightarrow> string" where
  "output_path directory name = directory @ ''/'' @ name"

text \<open>The number of the frame, and what follows it.\<close>

definition name_key :: "string \<Rightarrow> nat \<times> string" where
  "name_key name = (digits_value (takeWhile is_digit (drop 6 name)), dropWhile is_digit (drop 6 name))"

lemma digits_value_zeros: "digits_value (replicate k (CHR ''0'') @ ds) = digits_value ds"
  by (induction k) (simp_all add: digits_value_def)

lemma takeWhile_digits:
  assumes "list_all is_digit ds" "\<not> is_digit c"
  shows "takeWhile is_digit (ds @ c # rest) = ds" "dropWhile is_digit (ds @ c # rest) = c # rest"
  using assms by (simp_all add: list_all_iff takeWhile_append dropWhile_append)

lemma not_digit: "\<not> is_digit (CHR ''.'')" "\<not> is_digit (CHR ''_'')" "is_digit (CHR ''0'')"
  by (simp_all add: is_digit_def)

lemma name_key_frame: "name_key (numbered_name ''frame_'' f) = (unat f, ''.jpg'')"
proof -
  let ?ds = "replicate (3 - length (decimal (unat f))) (CHR ''0'') @ decimal (unat f)"
  have ds: "list_all is_digit ?ds" using decimal_digits(2) [of "unat f"] not_digit(3) by (auto simp: list_all_iff)
  show ?thesis using takeWhile_digits [OF ds not_digit(1), of "''jpg''"] decimal_digits(3)
    by (simp add: name_key_def numbered_name_def Let_def digits_value_zeros)
qed

lemma name_key_crop: "name_key (crop_name f r) = (unat f, ''_roi_'' @ decimal (unat r) @ ''.jpg'')"
  using takeWhile_digits [OF decimal_digits(2) not_digit(2)] decimal_digits(3) by (simp add: name_key_def crop_name_def)

lemma decimal_inject: "decimal a = decimal b \<longleftrightarrow> a = b"
  using decimal_digits(3) by metis

lemma crop_name_inject: "crop_name f r = crop_name f' r' \<longleftrightarrow> f = f' \<and> r = r'"
proof
  assume "crop_name f r = crop_name f' r'"
  then have "name_key (crop_name f r) = name_key (crop_name f' r')" by simp
  then show "f = f' \<and> r = r'" by (simp add: name_key_crop decimal_inject word_unat_eq_iff)
qed simp

section \<open>camera_roi_check\<close>

definition clamp :: "int \<Rightarrow> int \<Rightarrow> int \<Rightarrow> int" where
  "clamp v lo hi = (if v < lo then lo else if hi < v then hi else v)"

text \<open>None: the conversion of a float that does not fit.\<close>

definition clipped_rect :: "bounding_box \<Rightarrow> int \<Rightarrow> int \<Rightarrow> pixel_rect option" where
  "clipped_rect box width height = do {
     x \<leftarrow> int_of_fp (bb_x box);
     y \<leftarrow> int_of_fp (bb_y box);
     r \<leftarrow> int_of_fp (fadd32 (bb_x box) (bb_width box));
     b \<leftarrow> int_of_fp (fadd32 (bb_y box) (bb_height box));
     let left = clamp x 0 width;
     let upper = clamp y 0 height;
     let right = clamp r 0 width;
     let lower = clamp b 0 height;
     Some \<lparr>rect_x = left, rect_y = upper, rect_w = max 0 (right - left), rect_h = max 0 (lower - upper)\<rparr> }"

text \<open>A rectangle that is drawn, with its label and where the text begins.\<close>

record check_label =
  cl_rect :: pixel_rect
  cl_roi_id :: u32
  cl_objectness :: fp
  cl_text :: "int \<times> int"

fun check_candidates ::
  "cv_lib \<Rightarrow> string \<Rightarrow> u32 \<Rightarrow> pixel_mat \<Rightarrow> roi_candidate list \<Rightarrow> ((string \<times> pixel_mat) list \<times> check_label list) option" where
  "check_candidates cv dir frame_id bgr [] = Some ([], [])"
| "check_candidates cv dir frame_id bgr (cand # cands) = (case crop cv CropConfig_default bgr cand of None \<Rightarrow> None
     | Some None \<Rightarrow> check_candidates cv dir frame_id bgr cands
     | Some (Some cropped) \<Rightarrow> do {
         r \<leftarrow> clipped_rect (object_bbox cand) (cols bgr) (rows bgr);
         (files, labels) \<leftarrow> check_candidates cv dir frame_id bgr cands;
         Some ((output_path dir (crop_name frame_id (k_roi_id cand)), bgr_pixels cropped) # files,
           if rect_w r > 0 \<and> rect_h r > 0
           then \<lparr>cl_rect = r, cl_roi_id = k_roi_id cand, cl_objectness = k_objectness cand,
                  cl_text = (rect_x r, max 16 (rect_y r - 4))\<rparr> # labels
           else labels) })"

text \<open>What the check meets; \<open>ck_mkdir\<close>: the directory was made or exists. \<open>ck_draw\<close> draws the labels into a copy.\<close>

record check_world =
  ck_mkdir :: bool
  ck_camera :: driver_answers
  ck_engines :: "string \<Rightarrow> infer option"
  ck_frames :: "nat \<Rightarrow> frame_answers"
  ck_draw :: "pixel_mat \<Rightarrow> check_label list \<Rightarrow> pixel_mat"

fun check_frames ::
  "cv_lib \<Rightarrow> (decoded_box list \<Rightarrow> decoded_box list) \<Rightarrow> (u8 list list \<Rightarrow> pixel_mat) \<Rightarrow> check_world \<Rightarrow> string \<Rightarrow> proposer \<Rightarrow>
     nat \<Rightarrow> u32 \<Rightarrow> capture \<Rightarrow> (exit_status \<times> capture \<times> (string \<times> pixel_mat) list) option" where
  "check_frames cv sort_boxes cvt w dir p 0 frame_id V = Some (ExitSuccess, V, [])"
| "check_frames cv sort_boxes cvt w dir p (Suc n) frame_id V =
     (case captureFrame cvt V (ck_frames w (unat frame_id)) of None \<Rightarrow> None
      | Some (V, out, status) \<Rightarrow>
          if status \<noteq> CapOk then Some (ExitFailure, V, [])
          else let bgr = the out in do {
            cands \<leftarrow> propose cv sort_boxes p bgr frame_id;
            (files, labels) \<leftarrow> check_candidates cv dir frame_id bgr cands;
            (status, V, later) \<leftarrow> check_frames cv sort_boxes cvt w dir p n (frame_id + 1) V;
            Some (status, V,
              files @ (output_path dir (numbered_name ''frame_'' frame_id), ck_draw w (mat_clone bgr) labels) # later) })"

text \<open>How the process ends: what is left of the camera, and the files in the order they were written.\<close>

record check_end =
  ce_exit :: exit_status
  ce_camera :: capture
  ce_files :: "(string \<times> pixel_mat) list"

definition camera_check ::
  "cv_lib \<Rightarrow> (decoded_box list \<Rightarrow> decoded_box list) \<Rightarrow> (u8 list list \<Rightarrow> pixel_mat) \<Rightarrow> check_world \<Rightarrow> string list \<Rightarrow> check_end option" where
  "camera_check cv sort_boxes cvt w argv =
     (let leave = (\<lambda>status V files. Some \<lparr>ce_exit = status, ce_camera = cap_close V, ce_files = files\<rparr>) in
      if length argv < 3 \<or> length argv > 5 then leave ExitFailure V4L2Capture []
      else let output_dir = (if length argv \<ge> 4 then argv ! 3 else ''camera_roi_output'') in
      case (if length argv \<ge> 5 then map_option ucast (stoul (argv ! 4)) else Some 1) of
        None \<Rightarrow> leave Terminated V4L2Capture []
      | Some capture_count \<Rightarrow>
      if (capture_count :: u32) = 0 then leave ExitFailure V4L2Capture []
      else if \<not> ck_mkdir w then leave ExitFailure V4L2Capture []
      else case cap_init V4L2Capture (ck_camera w) Request_default of (V, opened) \<Rightarrow>
      if \<not> opened then leave ExitFailure V []
      else case RoiProposer (ck_engines w) (ProposerConfig_default\<lparr>engine_path := argv ! 2\<rparr>) of
        Inl _ \<Rightarrow> Some \<lparr>ce_exit = Terminated, ce_camera = V, ce_files = []\<rparr>
      | Inr p \<Rightarrow> (case check_frames cv sort_boxes cvt w output_dir p (unat capture_count) 0 V of None \<Rightarrow> None
          | Some (status, V, files) \<Rightarrow> leave status V files))"

section \<open>proposal_golden_check\<close>

record expected_proposal =
  ep_x :: fp
  ep_y :: fp
  ep_width :: fp
  ep_height :: fp
  ep_score :: fp

definition expected :: "rat \<Rightarrow> rat \<Rightarrow> rat \<Rightarrow> rat \<Rightarrow> rat \<Rightarrow> expected_proposal" where
  "expected x y w h s = \<lparr>ep_x = lit32 x, ep_y = lit32 y, ep_width = lit32 w, ep_height = lit32 h, ep_score = lit32 s\<rparr>"

definition kExpected :: "expected_proposal list" where
  "kExpected =
     [expected (11937236/100000) 0 (8672412/100000) (16111890/100000) (891880/1000000),
      expected (3297283/100000) (15492570/100000) (9500764/100000) (9800513/100000) (877332/1000000),
      expected (28665424/100000) (4169487/100000) (6755487/100000) (17082280/100000) (874281/1000000),
      expected (38046359/100000) (5820201/100000) (9675192/100000) (17846307/100000) (867646/1000000),
      expected (24352165/100000) (6163186/100000) (6489497/100000) (13406552/100000) (847416/1000000),
      expected (14460437/100000) (16960635/100000) (10345374/100000) (10190244/100000) (825596/1000000),
      expected (30291132/100000) (19268115/100000) (8077902/100000) (9531885/100000) (804148/1000000),
      expected (17651115/100000) (15262117/100000) (6561119/100000) (4888969/100000) (295911/1000000)]"

definition f_abs :: "fp \<Rightarrow> fp" where
  "f_abs v = (case v of Fin x \<Rightarrow> Fin \<bar>x\<bar> | NInf \<Rightarrow> PInf | _ \<Rightarrow> v)"

text \<open>The deviations of the box, and the loop that keeps the largest of them and of those of the score.\<close>

definition pixel_errors :: "roi_candidate \<Rightarrow> expected_proposal \<Rightarrow> fp list" where
  "pixel_errors actual e = (let b = object_bbox actual in
     [f_abs (fsub32 (bb_x b) (ep_x e)), f_abs (fsub32 (bb_y b) (ep_y e)),
      f_abs (fsub32 (bb_width b) (ep_width e)), f_abs (fsub32 (bb_height b) (ep_height e))])"

definition score_error :: "roi_candidate \<Rightarrow> expected_proposal \<Rightarrow> fp" where
  "score_error actual e = f_abs (fsub32 (k_objectness actual) (ep_score e))"

fun maximum_errors :: "(roi_candidate \<times> expected_proposal) list \<Rightarrow> fp \<times> fp \<Rightarrow> fp \<times> fp" where
  "maximum_errors [] m = m"
| "maximum_errors ((actual, e) # rest) (worst, worst_score) =
     maximum_errors rest (foldl fp_max worst (pixel_errors actual e), fp_max worst_score (score_error actual e))"

text \<open>\<open>imread\<close> is an argument; an unreadable image is an empty one.\<close>

definition golden_check ::
  "cv_lib \<Rightarrow> (decoded_box list \<Rightarrow> decoded_box list) \<Rightarrow> (string \<Rightarrow> infer option) \<Rightarrow> (string \<Rightarrow> pixel_mat) \<Rightarrow> string list \<Rightarrow> exit_status option" where
  "golden_check cv sort_boxes engines imread argv =
     (if length argv \<noteq> 3 then Some ExitFailure
      else let image = imread (argv ! 2) in
      if mat_empty image then Some ExitFailure
      else case RoiProposer engines (ProposerConfig_default\<lparr>engine_path := argv ! 1\<rparr>) of
        Inl _ \<Rightarrow> Some Terminated
      | Inr p \<Rightarrow> map_option (\<lambda>proposals.
          if length proposals \<noteq> length kExpected then ExitFailure
          else case maximum_errors (zip proposals kExpected) (Fin 0, Fin 0) of (worst, worst_score) \<Rightarrow>
            if fp_gt worst (Fin 2) \<or> fp_gt worst_score (lit32 (2/100)) then ExitFailure else ExitSuccess)
          (propose cv sort_boxes p image 7))"


text \<open>A NaN is no error: \<open>std::max\<close> keeps the largest number so far.\<close>

lemma fp_max_above: "a \<noteq> NaN \<Longrightarrow> fp_max a e \<noteq> NaN" "a \<noteq> NaN \<Longrightarrow> fp_gt (fp_max a e) t \<longleftrightarrow> fp_gt a t \<or> fp_gt e t"
  by (auto simp: fp_max_def) (cases a; cases e; cases t; auto)+

lemma foldl_fp_max_above:
  "a \<noteq> NaN \<Longrightarrow> foldl fp_max a es \<noteq> NaN \<and> (fp_gt (foldl fp_max a es) t \<longleftrightarrow> fp_gt a t \<or> list_ex (\<lambda>e. fp_gt e t) es)"
proof (induction es arbitrary: a)
  case (Cons e es)
  show ?case using Cons.IH [OF fp_max_above(1) [OF Cons.prems], of e] fp_max_above(2) [OF Cons.prems, where e = e and t = t] by auto
qed simp

lemma maximum_errors_above:
  "fst m \<noteq> NaN \<Longrightarrow> snd m \<noteq> NaN \<Longrightarrow> fp_gt (fst (maximum_errors ps m)) t \<or> fp_gt (snd (maximum_errors ps m)) u
     \<longleftrightarrow> fp_gt (fst m) t \<or> fp_gt (snd m) u
       \<or> list_ex (\<lambda>(a, e). list_ex (\<lambda>d. fp_gt d t) (pixel_errors a e) \<or> fp_gt (score_error a e) u) ps"
proof (induction ps arbitrary: m)
  case (Cons q ps)
  obtain a e where q: "q = (a, e)" by fastforce
  let ?m = "(foldl fp_max (fst m) (pixel_errors a e), fp_max (snd m) (score_error a e))"
  have n: "fst ?m \<noteq> NaN" "snd ?m \<noteq> NaN"
    using foldl_fp_max_above [OF Cons.prems(1)] fp_max_above(1) [OF Cons.prems(2)] by simp_all
  have "maximum_errors (q # ps) m = maximum_errors ps ?m" by (cases m) (simp add: q)
  then show ?case using Cons.IH [OF n] foldl_fp_max_above [OF Cons.prems(1), where es = "pixel_errors a e" and t = t]
      fp_max_above(2) [OF Cons.prems(2), where e = "score_error a e" and t = u] by (auto simp: q)
qed simp

text \<open>
  The golden check passes exactly when the network proposes as many regions as the reference and none of the
  deviations is above its bound; a deviation that is NaN is not above.
\<close>

lemma golden_check_exact:
  assumes "length argv = 3" "\<not> mat_empty (imread (argv ! 2))"
    and "RoiProposer engines (ProposerConfig_default\<lparr>engine_path := argv ! 1\<rparr>) = Inr p"
    and "propose cv sort_boxes p (imread (argv ! 2)) 7 = Some proposals"
  shows "golden_check cv sort_boxes engines imread argv = Some
    (if length proposals = 8 \<and> list_all (\<lambda>(a, e). list_all (\<lambda>d. \<not> fp_gt d (Fin 2)) (pixel_errors a e)
          \<and> \<not> fp_gt (score_error a e) (lit32 (2/100))) (zip proposals kExpected)
     then ExitSuccess else ExitFailure)"
proof -
  obtain worst worst_score where m: "maximum_errors (zip proposals kExpected) (Fin 0, Fin 0) = (worst, worst_score)" by fastforce
  have "fp_le (Fin 0) (lit32 (2/100))" by (intro round_fp_ge) simp_all
  then have "\<not> fp_gt (Fin 0) (lit32 (2/100))" using fp_lt_not_le by blast
  then have "fp_gt worst (Fin 2) \<or> fp_gt worst_score (lit32 (2/100)) \<longleftrightarrow>
     list_ex (\<lambda>(a, e). list_ex (\<lambda>d. fp_gt d (Fin 2)) (pixel_errors a e) \<or> fp_gt (score_error a e) (lit32 (2/100))) (zip proposals kExpected)"
    using maximum_errors_above [where m = "(Fin 0, Fin 0)" and ps = "zip proposals kExpected" and t = "Fin 2" and u = "lit32 (2/100)"] by (simp add: m)
  moreover have "length kExpected = 8" by (simp add: kExpected_def)
  ultimately show ?thesis using assms
    by (auto simp: golden_check_def Let_def m list_ex_iff list_all_iff)
qed

section \<open>What the camera check saves\<close>

text \<open>The rectangle that is drawn lies in the picture.\<close>

lemma clipped_rect_inside:
  assumes "clipped_rect box w h = Some r" "0 \<le> w" "0 \<le> h"
  shows "0 \<le> rect_x r" "0 \<le> rect_y r" "rect_x r + rect_w r \<le> w" "rect_y r + rect_h r \<le> h"
  using assms by (auto simp: clipped_rect_def clamp_def Let_def split: bind_splits if_splits)

lemma int_of_fp_small: "0 \<le> v \<Longrightarrow> v < 2 ^ 31 \<Longrightarrow> \<exists>i. int_of_fp (Fin v) = Some i"
proof -
  assume "0 \<le> v" "v < 2 ^ 31"
  then have "0 \<le> \<lfloor>v\<rfloor>" "\<lfloor>v\<rfloor> < 2 ^ 31" by (simp_all add: floor_less_iff)
  then show ?thesis using \<open>0 \<le> v\<close> by (simp add: int_of_fp_def ck_def)
qed

lemma clipped_rect_defined:
  assumes "picture_ok bgr" "sendable bgr cand"
  obtains r where "clipped_rect (object_bbox cand) (cols bgr) (rows bgr) = Some r"
proof -
  obtain x y w h where b: "object_bbox cand = \<lparr>bb_x = Fin x, bb_y = Fin y, bb_width = Fin w, bb_height = Fin h\<rparr>"
     "0 \<le> x" "x < of_int (cols bgr)" "1/16 \<le> w" "w \<le> 2 ^ 14 + 1" "0 \<le> y" "y < of_int (rows bgr)" "1/16 \<le> h" "h \<le> 2 ^ 14 + 1"
    using assms(2) unfolding sendable_def by blast
  have size: "(of_int (cols bgr) :: rat) \<le> 2 ^ 14" "(of_int (rows bgr) :: rat) \<le> 2 ^ 14"
    using assms(1) of_int_le_iff [where ?'a = rat, of "cols bgr" "2 ^ 14"] of_int_le_iff [where ?'a = rat, of "rows bgr" "2 ^ 14"]
    by (simp_all add: picture_ok_def)
  have far: "\<exists>i. int_of_fp (fadd32 (Fin u) (Fin v)) = Some i" if "0 \<le> u" "u \<le> 2 ^ 14" "0 \<le> v" "v \<le> 2 ^ 14 + 1" for u v :: rat
  proof -
    have ok: "fp_ok binary32 (Fin (2 ^ 16))" using round32_dyadic [of "2 ^ 16" 1] by simp
    have "fp_le (round_fp binary32 (u + v)) (Fin (2 ^ 16))" using that by (intro round_fp_le ok) simp_all
    moreover have "fp_le (Fin 0) (round_fp binary32 (u + v))" using that by (intro round_fp_ge) simp_all
    ultimately obtain s where "round_fp binary32 (u + v) = Fin s" "0 \<le> s" "s \<le> 2 ^ 16"
      by (cases "round_fp binary32 (u + v)") auto
    then show ?thesis using int_of_fp_small [of s] by simp
  qed
  have "\<exists>i. int_of_fp (Fin x) = Some i" "\<exists>i. int_of_fp (Fin y) = Some i"
    using int_of_fp_small [of x] int_of_fp_small [of y] b size by simp_all
  moreover have "\<exists>i. int_of_fp (fadd32 (Fin x) (Fin w)) = Some i" "\<exists>i. int_of_fp (fadd32 (Fin y) (Fin h)) = Some i"
  proof -
    have "x \<le> 2 ^ 14" "y \<le> 2 ^ 14" using b size by linarith+
    then show "\<exists>i. int_of_fp (fadd32 (Fin x) (Fin w)) = Some i" "\<exists>i. int_of_fp (fadd32 (Fin y) (Fin h)) = Some i"
      using b by (intro far; simp)+
  qed
  ultimately show thesis using that by (auto simp: clipped_rect_def b(1) Let_def)
qed

text \<open>A candidate that can be sent is cropped.\<close>

lemma sendable_crop:
  assumes "cv_ok cv" "picture_ok bgr" "sendable bgr cand"
  obtains r where "crop cv CropConfig_default bgr cand = Some (Some r)" "mat_ok (bgr_pixels r)" "cols (bgr_pixels r) = 96"
    "rows (bgr_pixels r) = 96"
proof -
  obtain p where "request_of cv bgr cand = Some (Some p)" by (rule request_of_sendable [OF assms])
  obtain x y w h where b: "object_bbox cand = \<lparr>bb_x = Fin x, bb_y = Fin y, bb_width = Fin w, bb_height = Fin h\<rparr>"
     "0 \<le> x" "x < of_int (cols bgr)" "1/16 \<le> w" "w \<le> 2 ^ 14 + 1" "0 \<le> y" "y < of_int (rows bgr)" "1/16 \<le> h" "h \<le> 2 ^ 14 + 1"
    using assms(3) unfolding sendable_def by blast
  have m: "mat_ok bgr" "cols bgr \<le> 2 ^ 14" "rows bgr \<le> 2 ^ 14" using assms(2) by (simp_all add: picture_ok_def)
  from crop_ordinary_box [OF assms(1) m b] show thesis using that by (auto simp: crop_good_def Let_def)
qed

definition small_picture :: "pixel_mat \<Rightarrow> bool" where
  "small_picture m \<longleftrightarrow> mat_ok m \<and> cols m = 96 \<and> rows m = 96"

lemma check_candidates_all:
  assumes "cv_ok cv" "picture_ok bgr" "list_all (sendable bgr) cands"
  obtains files labels where "check_candidates cv dir f bgr cands = Some (files, labels)"
    "map fst files = map (\<lambda>c. output_path dir (crop_name f (k_roi_id c))) cands" "list_all (small_picture \<circ> snd) files"
proof -
  have "\<exists>files labels. check_candidates cv dir f bgr cands = Some (files, labels)
    \<and> map fst files = map (\<lambda>c. output_path dir (crop_name f (k_roi_id c))) cands \<and> list_all (small_picture \<circ> snd) files"
    using assms(3)
  proof (induction cands)
    case (Cons cand cands)
    obtain r where r: "crop cv CropConfig_default bgr cand = Some (Some r)" "small_picture (bgr_pixels r)"
      by (rule sendable_crop [OF assms(1,2), of cand]) (use Cons.prems in \<open>auto simp: small_picture_def\<close>)
    obtain q where q: "clipped_rect (object_bbox cand) (cols bgr) (rows bgr) = Some q"
      by (rule clipped_rect_defined [OF assms(2), of cand]) (use Cons.prems in auto)
    show ?case using Cons r q by auto
  qed simp
  then show thesis using that by blast
qed


text \<open>The key of a file is that of its name.\<close>

definition file_key :: "string \<Rightarrow> string \<Rightarrow> nat \<times> string" where
  "file_key dir path = name_key (drop (length dir + 1) path)"

lemma file_key_path [simp]: "file_key dir (output_path dir name) = name_key name"
  by (simp add: file_key_def output_path_def)

text \<open>The files of a frame: the patches of its candidates, then the picture itself.\<close>

definition frame_files :: "string \<Rightarrow> u32 \<Rightarrow> u32 list \<Rightarrow> string list" where
  "frame_files dir f ids = map (\<lambda>r. output_path dir (crop_name f r)) ids @ [output_path dir (numbered_name ''frame_'' f)]"

lemma frame_files_distinct:
  assumes "distinct ids"
  shows "distinct (frame_files dir f ids)" "\<forall>path \<in> set (frame_files dir f ids). fst (file_key dir path) = unat f"
proof -
  have "inj_on (\<lambda>r. output_path dir (crop_name f r)) (set ids)"
    by (auto simp: inj_on_def output_path_def crop_name_inject)
  moreover have neq: "output_path dir (crop_name f r) \<noteq> output_path dir (numbered_name ''frame_'' f)" for r
  proof
    assume "output_path dir (crop_name f r) = output_path dir (numbered_name ''frame_'' f)"
    then have "file_key dir (output_path dir (crop_name f r)) = file_key dir (output_path dir (numbered_name ''frame_'' f))" by simp
    then show False by (simp add: name_key_crop name_key_frame)
  qed
  ultimately show "distinct (frame_files dir f ids)" using assms neq [symmetric] by (auto simp: frame_files_def distinct_map)
  show "\<forall>path \<in> set (frame_files dir f ids). fst (file_key dir path) = unat f"
    by (auto simp: frame_files_def name_key_crop name_key_frame)
qed

text \<open>What the proposer gives for the pictures of the camera.\<close>

definition proposals_usable ::
  "cv_lib \<Rightarrow> (decoded_box list \<Rightarrow> decoded_box list) \<Rightarrow> (u8 list list \<Rightarrow> pixel_mat) \<Rightarrow> proposer \<Rightarrow> bool" where
  "proposals_usable cv sort_boxes cvt p \<longleftrightarrow> (\<forall>rs f. \<exists>cands. propose cv sort_boxes p (cvt rs) f = Some cands
     \<and> list_all (sendable (cvt rs)) cands \<and> distinct (map k_roi_id cands))"

text \<open>The files of a run: for each frame some candidates, in order; all frames when it succeeds.\<close>

definition files_good :: "string \<Rightarrow> nat \<Rightarrow> u32 \<Rightarrow> exit_status \<Rightarrow> string list \<Rightarrow> bool" where
  "files_good dir n f status paths \<longleftrightarrow> (\<exists>idss. paths = concat (map (\<lambda>i. frame_files dir (f + word_of_nat i) (idss ! i)) [0..<length idss])
     \<and> (\<forall>ids \<in> set idss. distinct ids) \<and> length idss \<le> n \<and> status \<in> {ExitSuccess, ExitFailure} \<and> (status = ExitSuccess \<longleftrightarrow> length idss = n))"

lemma files_good_more:
  assumes "files_good dir n (f + 1) status paths" "distinct ids"
  shows "files_good dir (Suc n) f status (frame_files dir f ids @ paths)"
proof -
  obtain idss where i: "paths = concat (map (\<lambda>i. frame_files dir (f + 1 + word_of_nat i) (idss ! i)) [0..<length idss])"
    "\<forall>ids \<in> set idss. distinct ids" "length idss \<le> n" "status \<in> {ExitSuccess, ExitFailure}" "status = ExitSuccess \<longleftrightarrow> length idss = n"
    using assms(1) unfolding files_good_def by blast
  have "[0..<length (ids # idss)] = 0 # map Suc [0..<length idss]" by (simp add: map_Suc_upt upt_conv_Cons del: upt_Suc)
  then have "concat (map (\<lambda>i. frame_files dir (f + word_of_nat i) ((ids # idss) ! i)) [0..<length (ids # idss)])
      = frame_files dir f ids @ paths" using i(1) by (simp add: comp_def add_ac del: upt_Suc)
  then show ?thesis unfolding files_good_def using i(2-5) assms(2) by (intro exI [of _ "ids # idss"]) auto
qed

lemma check_frames_good:
  assumes "cv_ok cv" "\<forall>rs. picture_ok (cvt rs)" "proposals_usable cv sort_boxes cvt p"
    and "streaming_ok V" "small_frame V"
  obtains status V' files where "check_frames cv sort_boxes cvt w dir p n f V = Some (status, V', files)" "streaming_ok V'"
    "files_good dir n f status (map fst files)"
proof -
  have "\<exists>status V' files. check_frames cv sort_boxes cvt w dir p n f V = Some (status, V', files) \<and> streaming_ok V'
    \<and> files_good dir n f status (map fst files)"
    using assms(4,5)
  proof (induction n arbitrary: f V)
    case 0
    then show ?case by (auto simp: files_good_def intro: exI [of _ "[]"])
  next
    case (Suc n)
    obtain V1 out status where c: "captureFrame cvt V (ck_frames w (unat f)) = Some (V1, out, status)" "streaming_ok V1" "small_frame V1"
      by (rule captureFrame_keeps [OF Suc.prems])
    show ?case
    proof (cases "status = CapOk")
      case False
      then show ?thesis using c by (auto simp: files_good_def intro: exI [of _ "[]"])
    next
      case True
      then obtain rs where out: "the out = cvt rs" using c(1)
        by (auto simp: captureFrame_def Let_def split: if_splits ioctl_answer.splits option.splits)
      obtain cands where cands: "propose cv sort_boxes p (the out) f = Some cands" "list_all (sendable (the out)) cands" "distinct (map k_roi_id cands)"
        using assms(3) unfolding proposals_usable_def out by blast
      have pic: "picture_ok (the out)" using assms(2) out by simp
      obtain files labels where l: "check_candidates cv dir f (the out) cands = Some (files, labels)"
        "map fst files = map (\<lambda>c. output_path dir (crop_name f (k_roi_id c))) cands"
        by (rule check_candidates_all [OF assms(1) pic cands(2), of dir f])
      obtain status' V' later where r: "check_frames cv sort_boxes cvt w dir p n (f + 1) V1 = Some (status', V', later)"
        "streaming_ok V'" "files_good dir n (f + 1) status' (map fst later)" using Suc.IH [OF c(2,3), of "f + 1"] by blast
      have eq: "map fst files @ [output_path dir (numbered_name ''frame_'' f)] = frame_files dir f (map k_roi_id cands)"
        by (simp add: l(2) frame_files_def comp_def)
      then have "files_good dir (Suc n) f status' (map fst files @ output_path dir (numbered_name ''frame_'' f) # map fst later)"
        using files_good_more [OF r(3) cands(3)] by (simp flip: eq)
      then show ?thesis using c(1) True cands(1) l(1) r(1,2) by (simp add: Let_def)
    qed
  qed
  then show thesis using that by blast
qed

text \<open>No name occurs twice while the frame numbers do not wrap.\<close>

lemma files_good_distinct:
  assumes "files_good dir n 0 status paths" "n < 2 ^ 32"
  shows "distinct paths"
proof -
  obtain idss where i: "paths = concat (map (\<lambda>i. frame_files dir (word_of_nat i) (idss ! i)) [0..<length idss])"
    "\<forall>ids \<in> set idss. distinct ids" "length idss \<le> n" using assms(1) unfolding files_good_def by auto
  have key: "fst (file_key dir path) = i" if "i < length idss" "path \<in> set (frame_files dir (word_of_nat i) (idss ! i))" for i path
  proof -
    have "unat (word_of_nat i :: u32) = i" using that(1) i(3) assms(2) by (simp add: unat_of_nat take_bit_nat_eq_self)
    then show ?thesis using frame_files_distinct(2) [of "idss ! i" dir "word_of_nat i"] that i(2) by simp
  qed
  have "distinct (concat (map (\<lambda>i. frame_files dir (word_of_nat i) (idss ! i)) [0..<m]))" if "m \<le> length idss" for m
    using that
  proof (induction m)
    case (Suc m)
    have apart: "set (frame_files dir (word_of_nat m) (idss ! m)) \<inter> set (concat (map (\<lambda>i. frame_files dir (word_of_nat i) (idss ! i)) [0..<m])) = {}"
    proof (rule ccontr)
      assume "\<not> ?thesis"
      then obtain path j where "path \<in> set (frame_files dir (word_of_nat m) (idss ! m))" "j < m"
        "path \<in> set (frame_files dir (word_of_nat j) (idss ! j))" by (auto simp del: of_nat_Suc)
      then show False using key [of m path] key [of j path] Suc.prems by simp
    qed
    have "distinct (idss ! m)" using Suc.prems i(2) by simp
    then have last_: "distinct (frame_files dir (word_of_nat m) (idss ! m))" by (rule frame_files_distinct(1))
    have "distinct (concat (map (\<lambda>i. frame_files dir (word_of_nat i) (idss ! i)) [0..<m]))" using Suc by simp
    then show ?case using apart last_ by (simp only: upt_Suc_append zero_le map_append concat_append distinct_append) (simp add: Int_commute)
  qed simp
  then show ?thesis using i(1) by simp
qed


lemma files_good_some: "files_good dir n f ExitSuccess paths \<Longrightarrow> 0 < n \<Longrightarrow> paths \<noteq> []"
proof
  assume "files_good dir n f ExitSuccess paths" "0 < n" "paths = []"
  then obtain idss where "concat (map (\<lambda>i. frame_files dir (f + word_of_nat i) (idss ! i)) [0..<length idss]) = []" "length idss = n"
    unfolding files_good_def by auto
  then show False using \<open>0 < n\<close> by (auto simp: frame_files_def)
qed

lemma distinct_words: "n \<le> 2 ^ 32 \<Longrightarrow> distinct (map (word_of_nat :: nat \<Rightarrow> u32) [0..<n])"
  by (auto simp: distinct_map inj_on_def word_of_nat_eq_iff take_bit_nat_eq_self)

definition check_count :: "string list \<Rightarrow> u32" where
  "check_count argv = (if length argv \<ge> 5 then (case stoul (argv ! 4) of None \<Rightarrow> 0 | Some v \<Rightarrow> ucast v) else 1)"

text \<open>
  The camera check saves what it saw and overwrites nothing. Whatever the arguments, the driver and the disk do, with
  ordinary pictures whose proposals can be sent: it ends; unless an exception ends it, the camera is closed; and the files
  written are, frame by frame and in order, the patches of the candidates and then the picture, all with different names,
  and for all the frames asked for exactly when it reports success.
\<close>

theorem camera_check_saves:
  assumes "cv_ok cv" "\<forall>rs. picture_ok (cvt rs)" "small_frame (fst (cap_init V4L2Capture (ck_camera w) Request_default))"
    and "\<forall>p. RoiProposer (ck_engines w) (ProposerConfig_default\<lparr>engine_path := argv ! 2\<rparr>) = Inr p \<longrightarrow> proposals_usable cv sort_boxes cvt p"
  shows "\<exists>R. camera_check cv sort_boxes cvt w argv = Some R \<and> distinct (map fst (ce_files R))
    \<and> (ce_exit R \<noteq> Terminated \<longrightarrow> cap_closed (ce_camera R))
    \<and> (if ce_files R = [] then ce_exit R \<noteq> ExitSuccess
       else \<exists>dir. files_good dir (unat (check_count argv)) 0 (ce_exit R) (map fst (ce_files R)))"
proof -
  have closed: "cap_closed (cap_close V4L2Capture)" by (rule cap_close_closed) (simp add: cap_inv_def V4L2Capture_def)
  obtain V opened where V: "cap_init V4L2Capture (ck_camera w) Request_default = (V, opened)" by fastforce
  note cam = camera_cases [OF V]
  let ?dir = "if length argv \<ge> 4 then argv ! 3 else ''camera_roi_output''"
  define cnt :: "u32 option" where "cnt = (if length argv \<ge> 5 then map_option ucast (stoul (argv ! 4)) else Some 1)"
  note main = camera_check_def [of cv sort_boxes cvt w argv, unfolded cnt_def [symmetric] Let_def V prod.case]
  show ?thesis
  proof (cases "length argv < 3 \<or> length argv > 5 \<or> cnt = None \<or> cnt = Some 0 \<or> \<not> ck_mkdir w")
    case True
    then show ?thesis using closed main by (cases cnt) auto
  next
    case False
    then obtain n where n: "cnt = Some n" "n \<noteq> 0" and ok: "\<not> (length argv < 3 \<or> 5 < length argv)" "ck_mkdir w" by auto
    then have count: "check_count argv = n" by (auto simp: check_count_def cnt_def split: option.splits if_splits)
    show ?thesis
    proof (cases opened)
      case False
      then show ?thesis using main n ok cam(2) by simp
    next
      case True
      show ?thesis
      proof (cases "RoiProposer (ck_engines w) (ProposerConfig_default\<lparr>engine_path := argv ! 2\<rparr>)")
        case (Inl e)
        then show ?thesis using main n ok True by simp
      next
        case (Inr p)
        have use: "proposals_usable cv sort_boxes cvt p" and sm: "small_frame V" using assms(3,4) Inr V by simp_all
        obtain status V' files where r: "check_frames cv sort_boxes cvt w ?dir p (unat n) 0 V = Some (status, V', files)"
          "streaming_ok V'" "files_good ?dir (unat n) 0 status (map fst files)"
          by (rule check_frames_good [OF assms(1,2) use cam(1) [OF True] sm, of w ?dir "unat n" 0])
        have "camera_check cv sort_boxes cvt w argv = Some \<lparr>ce_exit = status, ce_camera = cap_close V', ce_files = files\<rparr>"
          using main n ok True Inr r(1) by simp
        moreover have "distinct (map fst files)" using unsigned_less [of n, where ?'a = nat] by (intro files_good_distinct [OF r(3)]) simp
        moreover have "cap_closed (cap_close V')" using r(2) by (intro cap_close_closed) (simp add: streaming_ok_def)
        moreover have "files = [] \<Longrightarrow> status \<noteq> ExitSuccess" using r(3) n(2) files_good_some [of ?dir "unat n" 0 "map fst files"] by (auto simp: unat_gt_0)
        ultimately show ?thesis using r(3) count by auto
      qed
    qed
  qed
qed

text \<open>One picture on which a network sees something; the directory is the default one.\<close>

definition check_example :: check_world where
  "check_example = \<lparr>ck_mkdir = True, ck_camera = example_answers\<lparr>a_qbuf := (\<lambda>_. (1, Answered ()))\<rparr>, ck_engines = (\<lambda>_. Some constant_engine),
     ck_frames = (\<lambda>_. \<lparr>fa_poll = (1, Events False True), fa_dqbuf = (0, Answered 0), fa_qbuf = (0, Answered ()), fa_memory = (\<lambda>_ _. 3)\<rparr>),
     ck_draw = (\<lambda>m ls. m)\<rparr>"

theorem camera_check_saves_witness:
  "\<exists>R. camera_check reference_cv (\<lambda>bs. foldr insert_box bs []) (\<lambda>_. mat_of 320 320 (\<lambda>y x c. 9)) check_example
      [''check'', ''/dev/video0'', ''yolo.engine''] = Some R \<and> distinct (map fst (ce_files R)) \<and> (ce_exit R \<noteq> Terminated \<longrightarrow> cap_closed (ce_camera R))"
proof -
  let ?pic = "mat_of 320 320 (\<lambda>y x c. 9)" and ?argv = "[''check'', ''/dev/video0'', ''yolo.engine'']"
  have cam: "small_frame (fst (cap_init V4L2Capture (ck_camera check_example) Request_default))"
    using example_opens(2,3) by (simp add: small_frame_def check_example_def)
  have pics: "\<forall>rs :: u8 list list. picture_ok ?pic" by (simp add: picture_ok_def)
  have use: "proposals_usable reference_cv (\<lambda>bs. foldr insert_box bs []) (\<lambda>_. ?pic) p"
    if "RoiProposer (ck_engines check_example) (ProposerConfig_default\<lparr>engine_path := ?argv ! 2\<rparr>) = Inr p" for p
  proof -
    have p: "p = \<lparr>pr_config = ProposerConfig_default\<lparr>engine_path := ''yolo.engine''\<rparr>, pr_engine = Some constant_engine\<rparr>"
      using that by (simp add: RoiProposer_def check_example_def ProposerConfig_default_def)
    show ?thesis unfolding proposals_usable_def p
    proof (intro allI)
      fix f
      obtain cands where c: "propose reference_cv (\<lambda>bs. foldr insert_box bs []) \<lparr>pr_config = ProposerConfig_default\<lparr>engine_path := ''yolo.engine''\<rparr>,
          pr_engine = Some constant_engine\<rparr> ?pic f = Some cands" "list_all (sendable ?pic) cands"
        "map k_roi_id cands = map word_of_nat [0..<length cands]" "length cands \<le> 10" by (rule constant_sendable)
      have "distinct (map k_roi_id cands)" unfolding c(3) by (rule distinct_words) (use c(4) in simp)
      then show "\<exists>cands. propose reference_cv (\<lambda>bs. foldr insert_box bs []) \<lparr>pr_config = ProposerConfig_default\<lparr>engine_path := ''yolo.engine''\<rparr>,
          pr_engine = Some constant_engine\<rparr> ?pic f = Some cands \<and> list_all (sendable ?pic) cands \<and> distinct (map k_roi_id cands)"
        using c(1,2) by blast
    qed
  qed
  from camera_check_saves [OF reference_cv_ok pics cam, of ?argv "\<lambda>bs. foldr insert_box bs []"] use show ?thesis by blast
qed

end
