(* ===== verification/Trt_Engine.thy ===== *)
theory Trt_Engine
  imports Roi_Propose
begin

text \<open>
  \<open>roi/TensorRtProposalEngine\<close>: what the wrapper does around the TensorRT and CUDA libraries, whose
  code is not here: it loads the engine file, checks the bindings, allocates, runs, and gives back. The answers of the
  libraries are arguments; what the program owns of them is a list, so that a leak shows. None stands for an
  index outside of the list of bindings.
\<close>

section \<open>The libraries\<close>

datatype trt_resource = TrtRuntime | TrtCudaEngine | TrtContext | DeviceBuffer int | CudaStream

text \<open>What can be asked of a deserialised engine.\<close>

record cuda_engine =
  binding_index :: "string \<Rightarrow> int"
  binding_is_input :: "int \<Rightarrow> bool"
  binding_dimensions :: "int \<Rightarrow> int list"
  nb_bindings :: int

text \<open>The answers to the calls of the constructor; \<open>file_bytes_of\<close> is None when the file cannot be opened.\<close>

record trt_replies =
  file_bytes_of :: "string \<Rightarrow> u8 list option"
  file_read_ok :: bool
  runtime_created :: bool
  deserialize :: "u8 list \<Rightarrow> cuda_engine option"
  context_created :: bool
  input_malloc :: bool
  output_malloc :: bool
  stream_created :: bool

section \<open>The wrapper\<close>

record trt_impl =
  ti_owned :: "trt_resource list"
  ti_input_index :: int
  ti_output_index :: int
  ti_input_elements :: u64
  ti_output_elements :: u64

fun tensor_elements :: "int list \<Rightarrow> u64 \<Rightarrow> u64 option" where
  "tensor_elements [] n = Some n"
| "tensor_elements (d # ds) n = (if d \<le> 0 then None else tensor_elements ds (n * word_of_int d))"

text \<open>The constructor. An exception in it does not run the destructor: what it owned then is the first
  component of the answer.\<close>

definition trt_construct ::
  "trt_replies \<Rightarrow> string \<Rightarrow> (trt_resource list \<times> (proposer_error + trt_impl)) option" where
  "trt_construct sys path =
     (let throw = (\<lambda>owned. Some (owned, Inl RuntimeError)) in
      case file_bytes_of sys path of None \<Rightarrow> throw []
      | Some serialized \<Rightarrow>
      if length serialized = 0 then throw []
      else if \<not> file_read_ok sys then throw []
      else if \<not> runtime_created sys then throw []
      else case deserialize sys serialized of None \<Rightarrow> throw [TrtRuntime]
      | Some engine \<Rightarrow>
      if \<not> context_created sys then throw [TrtCudaEngine, TrtRuntime]
      else let owned = [TrtContext, TrtCudaEngine, TrtRuntime];
               input_index = binding_index engine ''images'';
               output_index = binding_index engine ''output0'' in
      if input_index < 0 \<or> output_index < 0 \<or> \<not> binding_is_input engine input_index \<or> binding_is_input engine output_index
      then throw owned
      else case (tensor_elements (binding_dimensions engine input_index) 1, tensor_elements (binding_dimensions engine output_index) 1) of
        (Some input_elements, Some output_elements) \<Rightarrow>
          if input_elements \<noteq> 1 * 3 * 320 * 320 \<or> output_elements \<noteq> 1 * 5 * 2100 then throw owned
          else if input_index \<ge> nb_bindings engine \<or> output_index \<ge> nb_bindings engine then None
          else if \<not> input_malloc sys then throw owned
          else let owned = DeviceBuffer input_index # owned in
          if \<not> output_malloc sys then throw owned
          else let owned = DeviceBuffer output_index # owned in
          if \<not> stream_created sys then throw owned
          else let owned = CudaStream # owned
          in Some (owned, Inr \<lparr>ti_owned = owned, ti_input_index = input_index, ti_output_index = output_index,
               ti_input_elements = input_elements, ti_output_elements = output_elements\<rparr>)
      | _ \<Rightarrow> throw owned)"

text \<open>The destructor; what is left is the answer.\<close>

definition trt_destroy :: "trt_impl \<Rightarrow> trt_resource list" where
  "trt_destroy I =
     (let owned = remove1 CudaStream (ti_owned I);
          owned = (if ti_input_index I \<ge> 0 then remove1 (DeviceBuffer (ti_input_index I)) owned else owned);
          owned = (if ti_output_index I \<ge> 0 then remove1 (DeviceBuffer (ti_output_index I)) owned else owned);
          owned = remove1 TrtContext owned;
          owned = remove1 TrtCudaEngine owned
      in remove1 TrtRuntime owned)"

record infer_replies =
  copy_in_ok :: bool
  enqueue_ok :: bool
  copy_out_done :: bool
  synchronize_ok :: bool

text \<open>\<open>execute\<close>: what the engine leaves in the output buffer for an input.\<close>

definition trt_infer ::
  "(fp list \<Rightarrow> nat \<Rightarrow> fp) \<Rightarrow> infer_replies \<Rightarrow> trt_impl \<Rightarrow> fp list \<Rightarrow> proposer_error + fp list" where
  "trt_infer execute cu I input =
     (if of_nat (length input) \<noteq> ti_input_elements I then Inl InvalidArgument
      else if \<not> copy_in_ok cu then Inl RuntimeError
      else if \<not> enqueue_ok cu then Inl RuntimeError
      else if \<not> copy_out_done cu then Inl RuntimeError
      else if \<not> synchronize_ok cu then Inl RuntimeError
      else Inr (map (execute input) [0..<unat (ti_output_elements I)]))"

section \<open>What a proposer can rely on\<close>

text \<open>The engine as the function that \<open>RoiProposer\<close> is given.\<close>

definition trt_function :: "(fp list \<Rightarrow> nat \<Rightarrow> fp) \<Rightarrow> infer" where
  "trt_function execute input = map (execute input) [0..<5 * kPredictionCount]"

definition cuda_ok :: infer_replies where
  "cuda_ok = \<lparr>copy_in_ok = True, enqueue_ok = True, copy_out_done = True, synchronize_ok = True\<rparr>"

lemma trt_constructed:
  assumes "trt_construct sys path = Some (owned, Inr I)"
  shows "ti_input_elements I = 307200" "ti_output_elements I = 10500" "trt_destroy I = []"
  using assms by (auto simp: trt_construct_def trt_destroy_def Let_def split: option.splits if_splits)

lemma of_nat_elements: "length input < 2 ^ 64 \<Longrightarrow> of_nat (length input) = (307200 :: u64) \<longleftrightarrow> length input = 307200"
proof
  assume "length input < 2 ^ 64" "of_nat (length input) = (307200 :: u64)"
  then have "unat (of_nat (length input) :: u64) = 307200" by simp
  then show "length input = 307200" using \<open>length input < 2 ^ 64\<close> by (simp add: unat_of_nat take_bit_nat_eq_self)
qed simp

text \<open>
  C32: The engine keeps what the proposer needs. Whenever the constructor succeeds, whatever the libraries answered:
  destroying the engine gives back everything that was created; and an inference refuses every input of another size, throws
  exactly when one of its four calls fails, and otherwise returns the 10500 values of the network's output.
\<close>

theorem trt_engine_contract:
  assumes "trt_construct sys path = Some (owned, Inr I)" "length input < 2 ^ 64"
  shows "trt_destroy I = [] \<and> trt_infer execute cu I input =
     (if length input \<noteq> 3 * 320 * 320 then Inl InvalidArgument
      else if cu \<noteq> cuda_ok then Inl RuntimeError else Inr (trt_function execute input))"
  using trt_constructed [OF assms(1)] of_nat_elements [OF assms(2)]
  by (cases cu) (auto simp: trt_infer_def cuda_ok_def trt_function_def kPredictionCount_def)

definition trt_example :: trt_replies where
  "trt_example = \<lparr>file_bytes_of = (\<lambda>_. Some [1]), file_read_ok = True, runtime_created = True,
     deserialize = (\<lambda>_. Some \<lparr>binding_index = (\<lambda>name. if name = ''images'' then 0 else 1), binding_is_input = (\<lambda>i. i = 0),
       binding_dimensions = (\<lambda>i. if i = 0 then [1, 3, 320, 320] else [1, 5, 2100]), nb_bindings = 2\<rparr>),
     context_created = True, input_malloc = True, output_malloc = True, stream_created = True\<rparr>"

theorem trt_engine_contract_witness:
  "\<exists>owned I. trt_construct trt_example ''e'' = Some (owned, Inr I) \<and> length owned = 6 \<and> trt_destroy I = []
    \<and> trt_infer (\<lambda>_ _. Fin 0) cuda_ok I [Fin 1] = Inl InvalidArgument"
proof -
  obtain owned I where I: "trt_construct trt_example ''e'' = Some (owned, Inr I)" "length owned = 6"
    by (simp add: trt_construct_def trt_example_def Let_def)
  then show ?thesis using trt_engine_contract [OF I(1), of "[Fin 1]" "\<lambda>_ _. Fin 0" cuda_ok] by simp
qed

text \<open>The proposer's picture has the size, so its proposals are those of the theorem on \<open>RoiProposer\<close>.\<close>

lemma trt_proposals:
  assumes "trt_construct sys path = Some (owned, Inr I)" "\<forall>inp i. execute inp i \<noteq> NaN"
  shows "infer_ok (trt_function execute)"
    and "trt_infer execute cuda_ok I (model_input cv lb bgr) = Inr (trt_function execute (model_input cv lb bgr))"
proof -
  show "infer_ok (trt_function execute)" using assms(2) by (auto simp: infer_ok_def trt_function_def eq_commute [of NaN])
  have "length (model_input cv lb bgr) = 3 * 320 * 320" by (simp add: model_input_def kModelSize_def)
  then show "trt_infer execute cuda_ok I (model_input cv lb bgr) = Inr (trt_function execute (model_input cv lb bgr))"
    using trt_constructed(1,2) [OF assms(1)] by (simp add: trt_infer_def cuda_ok_def trt_function_def kPredictionCount_def)
qed

text \<open>A constructor that throws leaves behind what it had made: here the output buffer cannot be allocated.\<close>

lemma trt_construct_leaks:
  "trt_construct (trt_example\<lparr>output_malloc := False\<rparr>) path
    = Some ([DeviceBuffer 0, TrtContext, TrtCudaEngine, TrtRuntime], Inl RuntimeError)"
  by (simp add: trt_construct_def trt_example_def Let_def)

end
