(* ===== verification/Gpu_Benchmark.thy ===== *)
theory Gpu_Benchmark
  imports Jetson_Main Trt_Engine
begin

text \<open>
  \<open>tools/classifier_gpu_benchmark.cpp\<close>: how long the classifier, and the proposal network before it, run on
  the GPU of the Jetson. What the program asks of CUDA is a list of calls; whether a call succeeds, and the time that
  \<open>cudaEventElapsedTime\<close> answers, are functions of all the calls before it. What the process holds is kept beside
  it, and so are the rows it has printed; the other lines of the report are left out. None stands for an exception that is thrown.
\<close>

section \<open>Engines\<close>

datatype data_type = KFloat | KHalf | KInt8 | KInt32 | KBool | OtherType

fun elementSize :: "data_type \<Rightarrow> u64 option" where
  "elementSize KFloat = Some 4"
| "elementSize KHalf = Some 2"
| "elementSize KInt8 = Some 1"
| "elementSize KInt32 = Some 4"
| "elementSize KBool = Some 1"
| "elementSize OtherType = None"

record bench_engine =
  be_dimensions :: "nat \<Rightarrow> int list"
  be_type :: "nat \<Rightarrow> data_type"
  be_bindings :: nat

definition bindingBytes :: "bench_engine \<Rightarrow> nat \<Rightarrow> u64 option" where
  "bindingBytes engine index = do {
     elements \<leftarrow> tensor_elements (be_dimensions engine index) 1;
     bytes \<leftarrow> elementSize (be_type engine index);
     Some (elements * bytes) }"

record runner_replies =
  rr_file :: "string \<Rightarrow> u8 list option"
  rr_read_ok :: bool
  rr_runtime :: bool
  rr_deserialize :: "u8 list \<Rightarrow> bench_engine option"
  rr_context :: bool
  rr_malloc :: "nat \<Rightarrow> bool"
  rr_memset :: "nat \<Rightarrow> bool"

text \<open>The buffers, from the \<open>i\<close>-th on; \<open>n\<close> are left. The answer: what is held, and whether nothing was thrown.\<close>

fun make_bindings :: "runner_replies \<Rightarrow> bench_engine \<Rightarrow> nat \<Rightarrow> nat \<Rightarrow> trt_resource list \<Rightarrow> trt_resource list \<times> bool" where
  "make_bindings sys engine i 0 held = (held, True)"
| "make_bindings sys engine i (Suc n) held =
     (case bindingBytes engine i of None \<Rightarrow> (held, False)
      | Some bytes_count \<Rightarrow>
          if \<not> rr_malloc sys i then (held, False)
          else let held = DeviceBuffer (int i) # held in
          if \<not> rr_memset sys i then (held, False)
          else make_bindings sys engine (Suc i) n held)"

text \<open>The constructor; when it throws, what it made stays.\<close>

definition EngineRunner :: "runner_replies \<Rightarrow> string \<Rightarrow> trt_resource list \<times> bool" where
  "EngineRunner sys path =
     (case rr_file sys path of None \<Rightarrow> ([], False)
      | Some bytes \<Rightarrow>
          if length bytes = 0 then ([], False)
          else if \<not> rr_read_ok sys then ([], False)
          else if \<not> rr_runtime sys then ([], False)
          else case rr_deserialize sys bytes of None \<Rightarrow> ([TrtRuntime], False)
          | Some engine \<Rightarrow>
              if \<not> rr_context sys then ([TrtCudaEngine, TrtRuntime], False)
              else make_bindings sys engine 0 (be_bindings engine) [TrtContext, TrtCudaEngine, TrtRuntime])"

text \<open>The destructor of a runner: its buffers, then the rest.\<close>

definition destroy_runner :: "trt_resource list \<Rightarrow> trt_resource list" where
  "destroy_runner held =
     (let held = filter (\<lambda>r. case r of DeviceBuffer _ \<Rightarrow> False | _ \<Rightarrow> True) held
      in remove1 TrtRuntime (remove1 TrtCudaEngine (remove1 TrtContext held)))"

section \<open>Statistics\<close>

record bench_summary =
  bs_median :: fp
  bs_mean :: fp
  bs_p95 :: fp
  bs_maximum :: fp

definition bench_index :: "fp \<Rightarrow> nat \<Rightarrow> nat" where
  "bench_index ratio n = (case fmul64 ratio (double_of_int (int (n - 1))) of Fin x \<Rightarrow> nat \<lfloor>x\<rfloor> | _ \<Rightarrow> 0)"

text \<open>\<open>std::sort\<close> is an argument; a float is a double of the same value.\<close>

definition summarize :: "(fp list \<Rightarrow> fp list) \<Rightarrow> fp list \<Rightarrow> bench_summary option" where
  "summarize sort_floats values =
     (if values = [] then None
      else let total = foldl fadd64 (Fin 0) values;
               sorted_values = sort_floats values;
               percentile = (\<lambda>ratio. sorted_values ! bench_index ratio (length sorted_values))
      in Some \<lparr>bs_median = percentile (Fin (1/2)), bs_mean = fdiv64 total (double_of_int (int (length values))),
           bs_p95 = percentile (lit64 (95/100)), bs_maximum = last sorted_values\<rparr>)"

text \<open>\<open>strtoul\<close> with all of the text read; a number that does not fit is larger than the bound.\<close>

definition parseCount :: "string \<Rightarrow> u32 option" where
  "parseCount text =
     (let t = dropWhile is_space text;
          negative = (t \<noteq> [] \<and> hd t = CHR ''-'');
          t = (if t \<noteq> [] \<and> (hd t = CHR ''-'' \<or> hd t = CHR ''+'') then tl t else t);
          ds = takeWhile is_digit t;
          v = digits_value ds;
          value = (if v \<ge> 2 ^ 64 then - 1 else if negative then - word_of_nat v else word_of_nat v :: u64)
      in if ds = [] \<or> dropWhile is_digit t \<noteq> [] \<or> value = 0 \<or> value > 10000000 then None else Some (ucast value))"

section \<open>Calls of CUDA\<close>

datatype engine_id = Classifier | Yolo

datatype gpu_op =
    StreamCreate | EventCreate nat | Enqueue engine_id | EventRecord nat
  | EventSynchronize nat | ElapsedTime nat nat | StreamSynchronize
  | EventDestroy nat | StreamDestroy

record gpu_world =
  gw_ok :: "gpu_op list \<Rightarrow> gpu_op \<Rightarrow> bool"
  gw_ms :: "gpu_op list \<Rightarrow> nat \<Rightarrow> nat \<Rightarrow> fp"

definition gpu_call :: "gpu_world \<Rightarrow> gpu_op \<Rightarrow> gpu_op list \<Rightarrow> gpu_op list option" where
  "gpu_call w c G = (if gw_ok w G c then Some (G @ [c]) else None)"

definition elapsed_ms :: "gpu_world \<Rightarrow> nat \<Rightarrow> nat \<Rightarrow> gpu_op list \<Rightarrow> (fp \<times> gpu_op list) option" where
  "elapsed_ms w a b G = map_option (\<lambda>G'. (gw_ms w G a b, G')) (gpu_call w (ElapsedTime a b) G)"

definition timeOne :: "gpu_world \<Rightarrow> engine_id \<Rightarrow> gpu_op list \<Rightarrow> (fp \<times> gpu_op list) option" where
  "timeOne w e G = do {
     G \<leftarrow> gpu_call w (EventRecord 0) G;
     G \<leftarrow> gpu_call w (Enqueue e) G;
     G \<leftarrow> gpu_call w (EventRecord 1) G;
     G \<leftarrow> gpu_call w (EventSynchronize 1) G;
     elapsed_ms w 0 1 G }"

fun time_loop :: "gpu_world \<Rightarrow> engine_id \<Rightarrow> nat \<Rightarrow> gpu_op list \<Rightarrow> (fp list \<times> gpu_op list) option" where
  "time_loop w e 0 G = Some ([], G)"
| "time_loop w e (Suc n) G = do {
     (ms, G) \<leftarrow> timeOne w e G;
     (rest, G) \<leftarrow> time_loop w e n G;
     Some (ms # rest, G) }"

text \<open>One round of the pair: the times of the first, the second and both.\<close>

definition time_pair :: "gpu_world \<Rightarrow> gpu_op list \<Rightarrow> (fp \<times> fp \<times> fp \<times> gpu_op list) option" where
  "time_pair w G = do {
     G \<leftarrow> gpu_call w (EventRecord 0) G;
     G \<leftarrow> gpu_call w (Enqueue Yolo) G;
     G \<leftarrow> gpu_call w (EventRecord 1) G;
     G \<leftarrow> gpu_call w (Enqueue Classifier) G;
     G \<leftarrow> gpu_call w (EventRecord 2) G;
     G \<leftarrow> gpu_call w (EventSynchronize 2) G;
     (yolo_ms, G) \<leftarrow> elapsed_ms w 0 1 G;
     (classifier_ms, G) \<leftarrow> elapsed_ms w 1 2 G;
     (total_ms, G) \<leftarrow> elapsed_ms w 0 2 G;
     Some (yolo_ms, classifier_ms, total_ms, G) }"

fun pair_loop :: "gpu_world \<Rightarrow> nat \<Rightarrow> gpu_op list \<Rightarrow> (fp list \<times> fp list \<times> fp list \<times> gpu_op list) option" where
  "pair_loop w 0 G = Some ([], [], [], G)"
| "pair_loop w (Suc n) G = do {
     (a, b, c, G) \<leftarrow> time_pair w G;
     (as, bs, cs, G) \<leftarrow> pair_loop w n G;
     Some (a # as, b # bs, c # cs, G) }"

fun warm_up :: "gpu_world \<Rightarrow> bool \<Rightarrow> nat \<Rightarrow> gpu_op list \<Rightarrow> gpu_op list option" where
  "warm_up w yolo 0 G = Some G"
| "warm_up w yolo (Suc n) G = do {
     G \<leftarrow> (if yolo then gpu_call w (Enqueue Yolo) G else Some G);
     G \<leftarrow> gpu_call w (Enqueue Classifier) G;
     warm_up w yolo n G }"

text \<open>What is held of CUDA besides the engines: the stream and the events. A call that makes or destroys one does so
  when it succeeds; whether a call that destroys does is not asked.\<close>

datatype gpu_object = GpuStream | GpuEvent nat

fun made :: "gpu_op \<Rightarrow> gpu_object list" where
  "made StreamCreate = [GpuStream]"
| "made (EventCreate i) = [GpuEvent i]"
| "made _ = []"

fun destroyed :: "gpu_op \<Rightarrow> gpu_object \<Rightarrow> bool" where
  "destroyed StreamDestroy x = (x = GpuStream)"
| "destroyed (EventDestroy i) x = (x = GpuEvent i)"
| "destroyed _ x = False"

fun create_objects :: "gpu_world \<Rightarrow> gpu_op list \<Rightarrow> gpu_op list \<Rightarrow> gpu_object list \<Rightarrow> gpu_op list \<times> gpu_object list \<times> bool" where
  "create_objects w [] G held = (G, held, True)"
| "create_objects w (c # cs) G held =
     (if gw_ok w G c then create_objects w cs (G @ [c]) (made c @ held) else (G, held, False))"

fun destroy_objects :: "gpu_world \<Rightarrow> gpu_op list \<Rightarrow> gpu_op list \<Rightarrow> gpu_object list \<Rightarrow> gpu_object list" where
  "destroy_objects w [] G held = held"
| "destroy_objects w (c # cs) G held =
     destroy_objects w cs (G @ [c]) (if gw_ok w G c then filter (\<lambda>x. \<not> destroyed c x) held else held)"

definition create_ops :: "gpu_op list" where
  "create_ops = [StreamCreate, EventCreate 0, EventCreate 1, EventCreate 2]"

definition destroy_ops :: "gpu_op list" where
  "destroy_ops = [EventDestroy 2, EventDestroy 1, EventDestroy 0, StreamDestroy]"

section \<open>main\<close>

text \<open>A row of the report, with the samples it is made of.\<close>

record bench_row =
  br_name :: string
  br_values :: "fp list"
  br_summary :: bench_summary

definition printSummary :: "(fp list \<Rightarrow> fp list) \<Rightarrow> string \<Rightarrow> fp list \<Rightarrow> bench_row option" where
  "printSummary sort_floats name values =
     map_option (\<lambda>result. \<lparr>br_name = name, br_values = values, br_summary = result\<rparr>) (summarize sort_floats values)"

text \<open>The rows that are printed, and whether nothing was thrown.\<close>

fun print_rows :: "(fp list \<Rightarrow> fp list) \<Rightarrow> (string \<times> fp list) list \<Rightarrow> bench_row list \<times> bool" where
  "print_rows sort_floats [] = ([], True)"
| "print_rows sort_floats ((name, values) # rest) =
     (case printSummary sort_floats name values of None \<Rightarrow> ([], False)
      | Some row \<Rightarrow> (case print_rows sort_floats rest of (printed, ok) \<Rightarrow> (row # printed, ok)))"

definition classifier_phase :: "gpu_world \<Rightarrow> bool \<Rightarrow> nat \<Rightarrow> nat \<Rightarrow> gpu_op list \<Rightarrow> (fp list \<times> gpu_op list) option" where
  "classifier_phase w yolo iterations warmup G = do {
     G \<leftarrow> warm_up w yolo warmup G;
     G \<leftarrow> gpu_call w StreamSynchronize G;
     time_loop w Classifier iterations G }"

definition pair_phase :: "gpu_world \<Rightarrow> nat \<Rightarrow> gpu_op list \<Rightarrow> ((string \<times> fp list) list \<times> gpu_op list) option" where
  "pair_phase w iterations G = do {
     (yolo_alone, G) \<leftarrow> time_loop w Yolo iterations G;
     (paired_yolo, paired_classifier, paired_total, G) \<leftarrow> pair_loop w iterations G;
     Some ([(''YOLO alone'', yolo_alone), (''paired YOLO'', paired_yolo), (''paired classifier'', paired_classifier),
            (''paired total'', paired_total)], G) }"

text \<open>The end of the process: what TensorRT and CUDA still hold of it, and the rows that it has printed.\<close>

record bench_end =
  bn_ok :: bool
  bn_engines :: "trt_resource list"
  bn_gpu :: "gpu_object list"
  bn_rows :: "bench_row list"

definition bench_iterations :: "string list \<Rightarrow> u32 option" where
  "bench_iterations argv = (if length argv \<ge> 4 then parseCount (argv ! 3) else Some 1000)"

definition bench_warmup :: "string list \<Rightarrow> u32 option" where
  "bench_warmup argv = (if length argv \<ge> 5 then parseCount (argv ! 4) else Some 100)"

definition with_yolo :: "string list \<Rightarrow> bool" where
  "with_yolo argv \<longleftrightarrow> length argv \<ge> 3 \<and> argv ! 2 \<noteq> ''-''"

text \<open>From the made objects on. An exception destroys the runner of the classifier, and nothing else.\<close>

definition bench_run ::
  "(fp list \<Rightarrow> fp list) \<Rightarrow> gpu_world \<Rightarrow> bool \<Rightarrow> nat \<Rightarrow> nat \<Rightarrow> trt_resource list \<Rightarrow> trt_resource list \<Rightarrow> gpu_op list \<Rightarrow> gpu_object list \<Rightarrow> bench_end" where
  "bench_run sort_floats w yolo iterations warmup classifier other G held =
     (let failed = (\<lambda>printed. \<lparr>bn_ok = False, bn_engines = destroy_runner classifier @ other, bn_gpu = held, bn_rows = printed\<rparr>) in
      case classifier_phase w yolo iterations warmup G of None \<Rightarrow> failed []
      | Some (classifier_alone, G) \<Rightarrow> (case print_rows sort_floats [(''classifier'', classifier_alone)] of (printed, ok) \<Rightarrow>
      if \<not> ok then failed printed
      else case (if yolo then pair_phase w iterations G else Some ([], G)) of None \<Rightarrow> failed printed
      | Some (pair, G) \<Rightarrow> (case print_rows sort_floats pair of (pair_rows, ok) \<Rightarrow>
      if \<not> ok then failed (printed @ pair_rows)
      else \<lparr>bn_ok = True, bn_engines = destroy_runner classifier @ (if yolo then destroy_runner other else []),
             bn_gpu = destroy_objects w destroy_ops G held, bn_rows = printed @ pair_rows\<rparr>)))"

definition bench_main ::
  "(fp list \<Rightarrow> fp list) \<Rightarrow> gpu_world \<Rightarrow> (string \<Rightarrow> runner_replies) \<Rightarrow> string list \<Rightarrow> bench_end" where
  "bench_main sort_floats w sys argv =
     (let failed = (\<lambda>engines held. \<lparr>bn_ok = False, bn_engines = engines, bn_gpu = held, bn_rows = []\<rparr>) in
      if length argv < 2 \<or> length argv > 5 then failed [] []
      else case bench_iterations argv of None \<Rightarrow> failed [] []
      | Some iterations \<Rightarrow> (case bench_warmup argv of None \<Rightarrow> failed [] []
      | Some warmup \<Rightarrow> (case EngineRunner (sys (argv ! 1)) (argv ! 1) of (classifier, ok) \<Rightarrow>
      if \<not> ok then failed classifier []
      else case (if with_yolo argv then EngineRunner (sys (argv ! 2)) (argv ! 2) else ([], True)) of (other, ok) \<Rightarrow>
      if \<not> ok then failed (destroy_runner classifier @ other) []
      else case create_objects w create_ops [] [] of (G, held, ok) \<Rightarrow>
      if \<not> ok then failed (destroy_runner classifier @ other) held
      else bench_run sort_floats w (with_yolo argv) (unat iterations) (unat warmup) classifier other G held)))"

section \<open>What is given back\<close>

lemma make_bindings_held:
  "make_bindings sys engine i n held = (held', ok) \<Longrightarrow> \<exists>is. held' = map DeviceBuffer is @ held"
proof (induction sys engine i n held arbitrary: held' rule: make_bindings.induct)
  case (2 sys engine i n held)
  show ?case
  proof (cases "bindingBytes engine i = None \<or> \<not> rr_malloc sys i \<or> \<not> rr_memset sys i")
    case True
    then show ?thesis using "2.prems"
      by (auto simp: Let_def split: option.splits if_splits intro: exI [of _ "[]"] exI [of _ "[int i]"])
  next
    case False
    then obtain bytes where b: "bindingBytes engine i = Some bytes" "rr_malloc sys i" "rr_memset sys i" by auto
    then have "make_bindings sys engine (Suc i) n (DeviceBuffer (int i) # held) = (held', ok)" using "2.prems" by (simp add: Let_def)
    then obtain is' where "held' = map DeviceBuffer is' @ DeviceBuffer (int i) # held" using "2.IH" [OF b(1) _ refl] b(2,3) by auto
    then show ?thesis by (intro exI [of _ "is' @ [int i]"]) simp
  qed
qed (auto intro: exI [of _ "[]"])

text \<open>A runner that was made is given back completely.\<close>

lemma destroy_runner_all: "EngineRunner sys path = (held, True) \<Longrightarrow> destroy_runner held = []"
  by (auto simp: EngineRunner_def destroy_runner_def filter_empty_conv Let_def dest!: make_bindings_held split: option.splits if_splits)

section \<open>What lies between two events\<close>

text \<open>The calls since the last record of an event, and the runs between the last records of two.\<close>

definition since :: "nat \<Rightarrow> gpu_op list \<Rightarrow> gpu_op list" where
  "since a G = rev (takeWhile (\<lambda>c. c \<noteq> EventRecord a) (rev G))"

definition runs_between :: "nat \<Rightarrow> nat \<Rightarrow> gpu_op list \<Rightarrow> engine_id list" where
  "runs_between a b G = List.map_filter (\<lambda>c. case c of Enqueue e \<Rightarrow> Some e | _ \<Rightarrow> None)
     (rev (dropWhile (\<lambda>c. c \<noteq> EventRecord b) (rev (since a G))))"

text \<open>The host has waited for the last record of \<open>b\<close>, or for one after it.\<close>

definition waited_for :: "nat \<Rightarrow> gpu_op list \<Rightarrow> bool" where
  "waited_for b G \<longleftrightarrow> (let later = EventRecord b # since b G in
     \<exists>i c. Suc i < length later \<and> later ! i = EventRecord c \<and> later ! Suc i = EventSynchronize c)"

text \<open>A time is that of some runs: it was answered for two events with just these runs between them.\<close>

definition time_of :: "gpu_world \<Rightarrow> engine_id list \<Rightarrow> fp \<Rightarrow> bool" where
  "time_of w es ms \<longleftrightarrow> (\<exists>G a b. ms = gw_ms w G a b \<and> runs_between a b G = es \<and> waited_for b G)"

lemma gpu_call_Some: "gpu_call w c G = Some G' \<longleftrightarrow> gw_ok w G c \<and> G' = G @ [c]"
  by (auto simp: gpu_call_def)

lemma elapsed_Some: "elapsed_ms w a b G = Some (ms, G') \<longleftrightarrow> gw_ok w G (ElapsedTime a b) \<and> ms = gw_ms w G a b \<and> G' = G @ [ElapsedTime a b]"
  by (auto simp: elapsed_ms_def gpu_call_def)

lemma timeOne_measures:
  assumes "timeOne w e G = Some (ms, G')"
  shows "time_of w [e] ms"
proof -
  let ?G = "G @ [EventRecord 0, Enqueue e, EventRecord 1, EventSynchronize 1]"
  have "ms = gw_ms w ?G 0 1" using assms by (auto simp: timeOne_def gpu_call_Some elapsed_Some split: bind_splits)
  moreover have "runs_between 0 1 ?G = [e]" by (simp add: runs_between_def since_def map_filter_def)
  moreover have "waited_for 1 ?G" unfolding waited_for_def Let_def
    by (rule exI [of _ 0], rule exI [of _ 1]) (simp add: since_def)
  ultimately show ?thesis unfolding time_of_def by blast
qed

lemma time_loop_measures:
  "time_loop w e n G = Some (ms, G') \<Longrightarrow> length ms = n \<and> list_all (time_of w [e]) ms"
  by (induction n arbitrary: G ms) (auto split: bind_splits, rule timeOne_measures, assumption)

lemma time_pair_measures:
  assumes "time_pair w G = Some (a, b, c, G')"
  shows "time_of w [Yolo] a" "time_of w [Classifier] b" "time_of w [Yolo, Classifier] c"
proof -
  let ?G = "G @ [EventRecord 0, Enqueue Yolo, EventRecord 1, Enqueue Classifier, EventRecord 2, EventSynchronize 2]"
  have m: "a = gw_ms w ?G 0 1" "b = gw_ms w (?G @ [ElapsedTime 0 1]) 1 2" "c = gw_ms w (?G @ [ElapsedTime 0 1, ElapsedTime 1 2]) 0 2"
    using assms by (auto simp: time_pair_def gpu_call_Some elapsed_Some split: bind_splits)
  have "runs_between 0 1 ?G = [Yolo]" "runs_between 1 2 (?G @ [ElapsedTime 0 1]) = [Classifier]"
    "runs_between 0 2 (?G @ [ElapsedTime 0 1, ElapsedTime 1 2]) = [Yolo, Classifier]"
    by (simp_all add: runs_between_def since_def map_filter_def)
  moreover have "waited_for 1 ?G" unfolding waited_for_def Let_def
    by (rule exI [of _ 2], rule exI [of _ 2]) (simp add: since_def eval_nat_numeral)
  moreover have "waited_for 2 (?G @ [ElapsedTime 0 1])" "waited_for 2 (?G @ [ElapsedTime 0 1, ElapsedTime 1 2])"
    unfolding waited_for_def Let_def by (rule exI [of _ 0], rule exI [of _ 2], simp add: since_def)+
  ultimately show "time_of w [Yolo] a" "time_of w [Classifier] b" "time_of w [Yolo, Classifier] c"
    using m unfolding time_of_def by blast+
qed

lemma pair_loop_measures:
  "pair_loop w n G = Some (as, bs, cs, G') \<Longrightarrow> length as = n \<and> length bs = n \<and> length cs = n
     \<and> list_all (time_of w [Yolo]) as \<and> list_all (time_of w [Classifier]) bs \<and> list_all (time_of w [Yolo, Classifier]) cs"
  by (induction n arbitrary: G as bs cs) (auto split: bind_splits, (erule time_pair_measures)+)

text \<open>The runs that a row is named after, and a row of so many samples that are their times.\<close>

definition row_runs :: "(string \<times> engine_id list) list" where
  "row_runs = [(''classifier'', [Classifier]), (''YOLO alone'', [Yolo]), (''paired YOLO'', [Yolo]),
     (''paired classifier'', [Classifier]), (''paired total'', [Yolo, Classifier])]"

definition row_good :: "(fp list \<Rightarrow> fp list) \<Rightarrow> gpu_world \<Rightarrow> nat \<Rightarrow> bench_row \<Rightarrow> bool" where
  "row_good sort_floats w n row \<longleftrightarrow> length (br_values row) = n
     \<and> summarize sort_floats (br_values row) = Some (br_summary row)
     \<and> (\<exists>es. map_of row_runs (br_name row) = Some es \<and> list_all (time_of w es) (br_values row))"

lemma print_rows_ok:
  assumes "list_all (\<lambda>(name, values). length values = n \<and> (\<exists>es. map_of row_runs name = Some es \<and> list_all (time_of w es) values)) rs" "0 < n"
  obtains printed where "print_rows sort_floats rs = (printed, True)" "map br_name printed = map fst rs" "list_all (row_good sort_floats w n) printed"
proof -
  have "\<exists>printed. print_rows sort_floats rs = (printed, True) \<and> map br_name printed = map fst rs \<and> list_all (row_good sort_floats w n) printed"
    using assms(1)
  proof (induction rs)
    case (Cons r rs)
    obtain name vs where r: "r = (name, vs)" by fastforce
    have "vs \<noteq> []" using Cons.prems assms(2) r by auto
    then obtain result where "summarize sort_floats vs = Some result" by (simp add: summarize_def Let_def)
    then show ?case using Cons r by (auto simp: printSummary_def row_good_def)
  qed simp
  then show thesis using that by blast
qed

lemma classifier_phase_row:
  assumes "classifier_phase w yolo n warmup G = Some (ms, G')"
  shows "list_all (\<lambda>(name, values). length values = n \<and> (\<exists>es. map_of row_runs name = Some es \<and> list_all (time_of w es) values)) [(''classifier'', ms)]"
  using assms by (auto simp: classifier_phase_def row_runs_def dest!: time_loop_measures split: bind_splits)

lemma pair_phase_rows:
  assumes "pair_phase w n G = Some (rs, G')"
  shows "list_all (\<lambda>(name, values). length values = n \<and> (\<exists>es. map_of row_runs name = Some es \<and> list_all (time_of w es) values)) rs"
    "map fst rs = tl (map fst row_runs)"
  using assms by (auto simp: pair_phase_def row_runs_def dest!: time_loop_measures pair_loop_measures split: bind_splits)

text \<open>Every object that was made is destroyed when the calls that destroy succeed.\<close>

lemma create_objects_made:
  assumes "create_objects w create_ops [] [] = (G, held, True)"
  shows "held = [GpuEvent 2, GpuEvent 1, GpuEvent 0, GpuStream]"
  using assms by (auto simp: create_ops_def split: if_splits)

definition destroys_work :: "gpu_world \<Rightarrow> bool" where
  "destroys_work w \<longleftrightarrow> (\<forall>G. \<forall>c \<in> set destroy_ops. gw_ok w G c)"

lemma destroy_objects_all:
  "destroys_work w \<Longrightarrow> destroy_objects w destroy_ops G [GpuEvent 2, GpuEvent 1, GpuEvent 0, GpuStream] = []"
  by (simp add: destroys_work_def destroy_ops_def)

lemma bench_run_rows:
  assumes "bench_run sort_floats w yolo n warmup classifier other G held = R" "0 < n"
  shows "list_all (row_good sort_floats w n) (bn_rows R)
    \<and> (if bn_ok R then map br_name (bn_rows R) = (if yolo then map fst row_runs else [''classifier''])
          \<and> (\<exists>G'. bn_gpu R = destroy_objects w destroy_ops G' held)
          \<and> bn_engines R = destroy_runner classifier @ (if yolo then destroy_runner other else [])
       else map br_name (bn_rows R) \<in> {[], [''classifier'']})"
proof (cases "classifier_phase w yolo n warmup G")
  case None
  then show ?thesis using assms(1) by (auto simp: bench_run_def)
next
  case (Some p)
  obtain ms G1 where p: "p = (ms, G1)" by fastforce
  obtain printed where printed: "print_rows sort_floats [(''classifier'', ms)] = (printed, True)" "map br_name printed = [''classifier'']"
    "list_all (row_good sort_floats w n) printed"
    by (rule print_rows_ok [OF classifier_phase_row [OF Some [unfolded p]] assms(2), of sort_floats]) simp
  note run = assms(1) [unfolded bench_run_def Let_def Some p option.case prod.case printed(1), symmetric]
  show ?thesis
  proof (cases "yolo \<and> pair_phase w n G1 \<noteq> None")
    case False
    then consider "yolo" "pair_phase w n G1 = None" | "\<not> yolo" by blast
    then show ?thesis using printed(2,3) by cases (auto simp: run)
  next
    case True
    then obtain rs G2 where q: "pair_phase w n G1 = Some (rs, G2)" by auto
    note pair = pair_phase_rows [OF q]
    obtain pair_rows where "print_rows sort_floats rs = (pair_rows, True)" "map br_name pair_rows = map fst rs"
      "list_all (row_good sort_floats w n) pair_rows" by (rule print_rows_ok [OF pair(1) assms(2), of sort_floats])
    then show ?thesis using True printed(2,3) q pair(2) by (auto simp: run row_runs_def)
  qed
qed

lemma parseCount_range: "parseCount text = Some n \<Longrightarrow> 0 < unat n \<and> unat n \<le> 10000000"
proof -
  assume "parseCount text = Some n"
  then obtain v :: u64 where v: "v \<noteq> 0" "v \<le> 10000000" "n = ucast v"
    by (auto simp: parseCount_def Let_def split: if_splits)
  then have "unat v \<le> 10000000" "unat v \<noteq> 0" by (simp_all add: word_le_nat_alt unat_eq_0)
  moreover have "unat n = unat v" using v(3) calculation by (simp add: unsigned_ucast_eq take_bit_nat_eq_self)
  ultimately show ?thesis by simp
qed

lemma bench_iterations_range: "bench_iterations argv = Some k \<Longrightarrow> 0 < unat k \<and> unat k \<le> 10000000"
  by (auto simp: bench_iterations_def dest: parseCount_range split: if_splits)

text \<open>
  C39: The benchmark times what its rows name, and gives everything back when it succeeds. Whatever CUDA, TensorRT and the
  disk answer: every row that is printed, also in a run that fails later, has as many samples as there are iterations, at
  least one and at most ten million, and each sample is the time between two events that have exactly the runs between them that the row
  is named after (one run of the classifier, one of the other network, or both in this order), and that the host has waited for.
  A run that succeeds has printed the row of the classifier and, with another network, the four rows of the
  pair; nothing of the engines is left, and nothing of the stream and the events when the calls that destroy them
  succeed. A run that fails has printed at most the row of the classifier.
\<close>

theorem benchmark_times_what_it_names:
  assumes "bench_main sort_floats w sys argv = R"
  shows "(bn_rows R \<noteq> [] \<longrightarrow> (\<exists>k. bench_iterations argv = Some k \<and> 0 < unat k \<and> unat k \<le> 10000000
       \<and> list_all (row_good sort_floats w (unat k)) (bn_rows R)))
    \<and> (if bn_ok R then map br_name (bn_rows R) = (if with_yolo argv then map fst row_runs else [''classifier'']) \<and> bn_engines R = []
          \<and> (destroys_work w \<longrightarrow> bn_gpu R = [])
       else map br_name (bn_rows R) \<in> {[], [''classifier'']})"
proof -
  let ?early = "\<exists>engines held. R = \<lparr>bn_ok = False, bn_engines = engines, bn_gpu = held, bn_rows = []\<rparr>"
  obtain classifier ok1 where c: "EngineRunner (sys (argv ! 1)) (argv ! 1) = (classifier, ok1)" by fastforce
  obtain other ok2 where o2: "(if with_yolo argv then EngineRunner (sys (argv ! 2)) (argv ! 2) else ([], True)) = (other, ok2)" by fastforce
  obtain G held ok3 where g: "create_objects w create_ops [] [] = (G, held, ok3)" by (metis prod_cases3)
  consider ?early | n and m :: u32 where "bench_iterations argv = Some n" "ok1" "ok2" "ok3"
      "R = bench_run sort_floats w (with_yolo argv) (unat n) (unat m) classifier other G held"
  proof (cases "length argv < 2 \<or> length argv > 5 \<or> bench_iterations argv = None \<or> bench_warmup argv = None \<or> \<not> ok1 \<or> \<not> ok2 \<or> \<not> ok3")
    case True
    then have ?early using assms unfolding bench_main_def Let_def c o2 g prod.case by (auto split: option.splits)
    then show thesis by (rule that(1))
  next
    case False
    then obtain n m where nm: "bench_iterations argv = Some n" "bench_warmup argv = Some m" by auto
    have "R = bench_run sort_floats w (with_yolo argv) (unat n) (unat m) classifier other G held"
      using False nm assms unfolding bench_main_def Let_def c o2 g prod.case by auto
    then show thesis using that(2) nm(1) False by blast
  qed
  then show ?thesis
  proof cases
    case 2
    have range: "0 < unat n" "unat n \<le> 10000000" using bench_iterations_range [OF 2(1)] by simp_all
    note run = bench_run_rows [OF 2(5) [symmetric] range(1)]
    have "destroy_runner classifier = []" by (rule destroy_runner_all) (use c 2(2) in simp)
    moreover have "with_yolo argv \<Longrightarrow> destroy_runner other = []" by (rule destroy_runner_all) (use o2 2(3) in simp)
    moreover have "held = [GpuEvent 2, GpuEvent 1, GpuEvent 0, GpuStream]" by (rule create_objects_made) (use g 2(4) in simp)
    ultimately show ?thesis using run range 2(1) destroy_objects_all by (auto split: if_splits)
  qed auto
qed

definition runner_example :: runner_replies where
  "runner_example = \<lparr>rr_file = (\<lambda>_. Some [1]), rr_read_ok = True, rr_runtime = True,
     rr_deserialize = (\<lambda>_. Some \<lparr>be_dimensions = (\<lambda>_. [1, 3, 96, 96]), be_type = (\<lambda>_. KFloat), be_bindings = 2\<rparr>),
     rr_context = True, rr_malloc = (\<lambda>_. True), rr_memset = (\<lambda>_. True)\<rparr>"

definition gpu_example :: gpu_world where
  "gpu_example = \<lparr>gw_ok = (\<lambda>_ _. True), gw_ms = (\<lambda>G _ _. Fin (of_nat (length G)))\<rparr>"

theorem benchmark_times_what_it_names_witness:
  "let argv = [''bench'', ''classifier.engine'', ''yolo.engine'', ''2'', ''1''];
       R = bench_main (\<lambda>xs. xs) gpu_example (\<lambda>_. runner_example) argv
   in bn_ok R \<and> map br_name (bn_rows R) = map fst row_runs \<and> list_all (row_good (\<lambda>xs. xs) gpu_example 2) (bn_rows R)
     \<and> bn_engines R = [] \<and> bn_gpu R = []"
proof -
  let ?argv = "[''bench'', ''classifier.engine'', ''yolo.engine'', ''2'', ''1'']"
  let ?R = "bench_main (\<lambda>xs. xs) gpu_example (\<lambda>_. runner_example) ?argv"
  have runner: "EngineRunner runner_example path = ([DeviceBuffer 1, DeviceBuffer 0, TrtContext, TrtCudaEngine, TrtRuntime], True)" for path
    by (simp add: EngineRunner_def runner_example_def bindingBytes_def eval_nat_numeral)
  have counts: "parseCount ''2'' = Some 2" "parseCount ''1'' = Some 1" by (simp_all add: parseCount_def is_space_def is_digit_def digits_value_def)
  have args: "bench_iterations ?argv = Some 2" "bench_warmup ?argv = Some 1" "with_yolo ?argv"
    by (simp_all add: bench_iterations_def bench_warmup_def with_yolo_def counts)
  have works: "destroys_work gpu_example" by (simp add: destroys_work_def gpu_example_def)
  have ok: "bn_ok ?R"
  proof -
    have sizes: "unat (2 :: u32) = Suc (Suc 0)" "unat (1 :: u32) = Suc 0" by simp_all
    have made: "create_objects gpu_example create_ops [] [] = (create_ops, [GpuEvent 2, GpuEvent 1, GpuEvent 0, GpuStream], True)"
      by (simp add: create_ops_def gpu_example_def)
    have calls: "gpu_call gpu_example c G = Some (G @ [c])" for c G by (simp add: gpu_call_def gpu_example_def)
    obtain ms G where c: "classifier_phase gpu_example True (Suc (Suc 0)) (Suc 0) create_ops = Some (ms, G)" "ms \<noteq> []"
      by (simp add: classifier_phase_def timeOne_def elapsed_ms_def calls)
    obtain a a' b b' d d' e e' G' where q: "pair_phase gpu_example (Suc (Suc 0)) G =
        Some ([(''YOLO alone'', a # a'), (''paired YOLO'', b # b'), (''paired classifier'', d # d'), (''paired total'', e # e')], G')"
      by (simp add: pair_phase_def timeOne_def time_pair_def elapsed_ms_def calls)
    have row: "\<exists>r. printSummary (\<lambda>xs. xs) name vs = Some r" if "vs \<noteq> []" for name vs
      using that by (simp add: printSummary_def summarize_def Let_def)
    show ?thesis unfolding bench_main_def args option.case Let_def runner prod.case sizes made
      using row [OF c(2), of "''classifier''"] row [of "a # a'" "''YOLO alone''"] row [of "b # b'" "''paired YOLO''"]
        row [of "d # d'" "''paired classifier''"] row [of "e # e'" "''paired total''"]
      by (auto simp: bench_run_def c(1) q args)
  qed
  note named = benchmark_times_what_it_names [OF refl, of "\<lambda>xs. xs" gpu_example "\<lambda>_. runner_example" ?argv, unfolded args if_P [OF ok] if_P [OF TrueI]]
  then have "bn_rows ?R \<noteq> []" using args(3) by (auto simp: row_runs_def)
  then show ?thesis using named ok works args by (simp add: Let_def)
qed

section \<open>Which samples the percentiles are\<close>

text \<open>A product that is an integer up to less than half a unit in the last place below it is rounded to it.\<close>

lemma round_just_below:
  assumes "2 \<le> k" "k \<le> 2 ^ 40" "x < of_nat k" "of_nat k - x \<le> of_nat k * (43/100) / 2 ^ 53"
  shows "round_fp binary64 x = Fin (of_nat k)"
proof -
  define e where "e = floorlog 2 (k - 1)"
  have pos: "0 < k - 1" using assms(1) by simp
  have e: "2 ^ (e - 1) \<le> k - 1" "k - 1 < 2 ^ e" "1 \<le> e"
    using floorlog_bounds [of "k - 1" 2] pos by (simp_all add: e_def floorlog_geI)
  have e40: "e \<le> 40"
  proof (rule ccontr)
    assume "\<not> e \<le> 40"
    then have "(2::nat) ^ 40 \<le> 2 ^ (e - 1)" by (intro power_increasing) auto
    then show False using e(1) assms(1,2) by linarith
  qed
  have k: "k \<le> 2 ^ e" using e(2) pos by linarith
  then have kr: "(of_nat k :: rat) \<le> 2 ^ e" by (metis of_nat_le_iff of_nat_numeral of_nat_power)
  have "(of_nat k :: rat) \<le> 2 ^ 40" using assms(2) by (metis of_nat_le_iff of_nat_numeral of_nat_power)
  then have "of_nat k * (43/100) / 2 ^ 53 \<le> (1 :: rat)" by simp
  then have "of_nat (k - 1) \<le> x" using assms(4) assms(1) by (simp add: of_nat_diff)
  moreover have "(2 ^ (e - 1) :: rat) \<le> of_nat (k - 1)" using e(1) by (metis of_nat_le_iff of_nat_numeral of_nat_power)
  ultimately have lo: "2 ^ (e - 1) \<le> x" by linarith
  have hi: "x < 2 ^ e" using assms(3) kr by linarith
  let ?m = "int k * 2 ^ (53 - e)"
  have "qexp binary64 = (53 - e) + (1021 + e)" using e40 by simp
  then have q: "(2 :: 'a :: comm_semiring_1) ^ qexp binary64 = 2 ^ (53 - e) * 2 ^ (1021 + e)" by (simp only: power_add)
  have "round_fp binary64 x = Fin (of_int (?m * 2 ^ (1021 + e)) / 2 ^ qexp binary64)"
  proof (rule round_fp_eqI)
    show "0 < x" using lo by (meson less_le_trans zero_less_numeral zero_less_power)
    have "prec binary64 + (1021 + e) - 1 = (e - 1) + qexp binary64" using e(3) by simp
    then have "(2::rat) ^ (prec binary64 + (1021 + e) - 1) = 2 ^ (e - 1) * 2 ^ qexp binary64" by (simp only: power_add)
    then show "2 ^ (prec binary64 + (1021 + e) - 1) \<le> x * 2 ^ qexp binary64" using lo by simp
    have "prec binary64 + (1021 + e) = e + qexp binary64" by simp
    then have "(2::rat) ^ (prec binary64 + (1021 + e)) = 2 ^ e * 2 ^ qexp binary64" by (simp only: power_add)
    then show "x * 2 ^ qexp binary64 < 2 ^ (prec binary64 + (1021 + e))" using hi by simp
    have "of_nat k * (43/100) / 2 ^ 53 \<le> (2 ^ e * (43/100) / 2 ^ 53 :: rat)"
      using kr by (intro divide_right_mono mult_right_mono) simp_all
    then have "\<bar>x - of_nat k\<bar> \<le> 2 ^ e * (43/100) / 2 ^ 53" using assms(3,4) by linarith
    then have "\<bar>x - of_nat k\<bar> * 2 ^ (53 - e) \<le> 2 ^ e * (43/100) / 2 ^ 53 * 2 ^ (53 - e)" by (rule mult_right_mono) simp
    also have "\<dots> = 2 ^ (53 - e) * 2 ^ e * (43/100) / (2 ^ 53 :: rat)" by (simp only: mult.commute mult.left_commute times_divide_eq_right)
    also have "(2::rat) ^ (53 - e) * 2 ^ e = 2 ^ 53" using e40 by (simp flip: power_add)
    finally have "\<bar>x - of_nat k\<bar> * 2 ^ (53 - e) \<le> 43/100" by simp
    moreover have "x * 2 ^ qexp binary64 / 2 ^ (1021 + e) - of_int ?m = (x - of_nat k) * 2 ^ (53 - e)"
      unfolding q by (simp add: algebra_simps)
    ultimately show "\<bar>x * 2 ^ qexp binary64 / 2 ^ (1021 + e) - of_int ?m\<bar> < 1/2" by (simp add: abs_mult)
    have "int k \<le> 2 ^ 40" using assms(2) by (metis of_nat_le_iff of_nat_numeral of_nat_power)
    have "?m * 2 ^ (1021 + e) = int k * 2 ^ qexp binary64" unfolding q by (simp only: mult.assoc)
    also have "\<dots> \<le> 2 ^ 40 * 2 ^ qexp binary64" using \<open>int k \<le> 2 ^ 40\<close> by (intro mult_right_mono) simp_all
    also have "\<dots> = (2::int) ^ (40 + qexp binary64)" by (simp only: power_add)
    also have "\<dots> < (2::int) ^ (emax binary64 + qexp binary64)" by (intro power_strict_increasing) simp_all
    finally show "?m * 2 ^ (1021 + e) < 2 ^ (emax binary64 + qexp binary64)" .
  qed simp
  also have "(of_int (?m * 2 ^ (1021 + e)) :: rat) / 2 ^ qexp binary64 = of_nat k"
    unfolding q by simp
  finally show ?thesis .
qed


lemma double_of_count: "m \<le> 2 ^ 24 \<Longrightarrow> double_of_int (int m) = Fin (of_nat m)"
  using binary64_int [of "int m"] by (simp add: double_of_int_def)

lemma bench_index_median: "n - 1 \<le> 2 ^ 24 \<Longrightarrow> bench_index (Fin (1/2)) n = (n - 1) div 2"
proof -
  assume n: "n - 1 \<le> 2 ^ 24"
  have "fp_ok binary64 (Fin (of_int (int (n - 1)) / 2 ^ 1))" using n by (intro binary64_fixed) simp_all
  then have "fmul64 (Fin (1/2)) (double_of_int (int (n - 1))) = Fin (of_nat (n - 1) / 2)"
    unfolding double_of_count [OF n] by simp
  moreover have "\<lfloor>of_nat (n - 1) / (2 :: rat)\<rfloor> = int ((n - 1) div 2)"
    using floor_divide_of_nat_eq [where ?'a = rat, of "n - 1" 2] by simp
  ultimately show ?thesis by (simp add: bench_index_def)
qed

lemma bench_index_p95:
  assumes "n - 1 \<le> 10 ^ 7"
  shows "bench_index (lit64 (95/100)) n = 19 * (n - 1) div 20"
proof -
  define m where "m = n - 1"
  define k where "k = 19 * m div 20"
  define x where "x = 8556839292003942 / 9007199254740992 * (of_nat m :: rat)"
  have m: "m \<le> 10 ^ 7" "(of_nat m :: rat) \<le> 10 ^ 7"
    using assms of_nat_le_iff [where ?'a = rat, of m "10 ^ 7"] by (simp_all add: m_def)
  have q: "lit64 (95/100) = Fin (8556839292003942 / 9007199254740992)" using lit64_095 by simp
  have m24: "n - 1 \<le> 2 ^ 24" using m(1) by (simp add: m_def)
  have mul: "fmul64 (lit64 (95/100)) (double_of_int (int (n - 1))) = round_fp binary64 x"
    unfolding q double_of_count [OF m24] by (simp add: x_def m_def)
  have parts: "19 * m = 20 * k + 19 * m mod 20" "19 * m mod 20 < 20" by (simp_all add: k_def)
  have "\<exists>v. round_fp binary64 x = Fin v \<and> of_nat k \<le> v \<and> v < of_nat k + 1"
  proof (cases "19 * m mod 20 = 0")
    case True
    then have km: "19 * m = 20 * k" using parts(1) by simp
    show ?thesis
    proof (cases "m = 0")
      case True
      then show ?thesis using km by (simp add: x_def)
    next
      case False
      then have "2 \<le> k" using km by presburger
      moreover have "k \<le> 2 ^ 40" using km m(1) by simp
      moreover have kr: "19 * of_nat m = (20 * of_nat k :: rat)" using km by (metis of_nat_mult of_nat_numeral)
      moreover have "0 < (of_nat m :: rat)" using False by simp
      moreover have "x < of_nat k" "of_nat k - x \<le> of_nat k * (43/100) / 2 ^ 53"
        using kr \<open>0 < (of_nat m :: rat)\<close> unfolding x_def by (simp_all add: field_simps)
      ultimately have "round_fp binary64 x = Fin (of_nat k)" by (intro round_just_below)
      then show ?thesis by simp
    qed
  next
    case False
    then have "20 * k + 1 \<le> 19 * m" "19 * m \<le> 20 * k + 19" using parts by linarith+
    then have "of_nat (20 * k + 1) \<le> (of_nat (19 * m) :: rat)" "of_nat (19 * m) \<le> (of_nat (20 * k + 19) :: rat)"
      by (simp_all only: of_nat_le_iff)
    then have b: "20 * of_nat k + 1 \<le> (19 * of_nat m :: rat)" "19 * of_nat m \<le> (20 * of_nat k + 19 :: rat)" by simp_all
    have nonneg: "0 \<le> (of_nat m :: rat)" by simp
    have "\<bar>x\<bar> < 2 ^ 24" using m(2) nonneg unfolding x_def by simp
    then obtain v where v: "round_fp binary64 x = Fin v" "\<bar>v - x\<bar> \<le> 2 ^ 24 / 2 ^ 54" by (rule round64_error) simp
    have "(of_nat m :: rat) \<le> 10000000" using m(2) by simp
    then have "of_nat k + 1/32 \<le> x" "x \<le> of_nat k + 19/20" using b nonneg unfolding x_def by linarith+
    moreover have "\<bar>v - x\<bar> \<le> 1/32" using v(2) by simp
    ultimately have "of_nat k \<le> v" "v < of_nat k + 1" by linarith+
    then show ?thesis using v(1) by blast
  qed
  then obtain v where v: "round_fp binary64 x = Fin v" "of_nat k \<le> v" "v < of_nat k + 1" by blast
  then have "\<lfloor>v\<rfloor> = int k" by (intro floor_unique) simp_all
  then show ?thesis unfolding bench_index_def mul v(1) k_def m_def by simp
qed

text \<open>
  The percentiles of the benchmark: in a sorted list of up to ten million samples the lower median, the sample
  at 95 hundredths of the last position (rounded down), and the largest. With ten samples this is the ninth, where the
  report of the client takes the tenth.
\<close>

lemma summarize_positions:
  assumes "summarize sort_floats values = Some S" "length (sort_floats values) = length values" "length values \<le> 10 ^ 7"
  shows "bs_median S = sort_floats values ! ((length values - 1) div 2)"
    "bs_p95 S = sort_floats values ! (19 * (length values - 1) div 20)"
    "bs_maximum S = sort_floats values ! (length values - 1)"
proof -
  have ne: "values \<noteq> []" "sort_floats values \<noteq> []" using assms(1,2) by (auto simp: summarize_def split: if_splits)
  have "length values - 1 \<le> 10 ^ 7" "length values - 1 \<le> 2 ^ 24" using assms(3) by simp_all
  then show "bs_median S = sort_floats values ! ((length values - 1) div 2)"
    "bs_p95 S = sort_floats values ! (19 * (length values - 1) div 20)"
    "bs_maximum S = sort_floats values ! (length values - 1)"
    using assms(1,2) ne bench_index_median [of "length values"] bench_index_p95 [of "length values"]
    by (auto simp: summarize_def Let_def last_conv_nth)
qed

lemma p95_of_ten: "bench_index (lit64 (95/100)) 10 = 8" "percentile_index (lit64 (19/20)) 10 = Some 9"
  using bench_index_p95 [of 10] percentile_index_values(4) [of 10] by simp_all

end
