(* ===== verification/Teleop.thy ===== *)
theory Teleop
  imports Cmd_Vel_Arbiter
begin

text \<open>
  \<open>scripts/button_teleop.py\<close>: the node that \<open>start_robot.sh\<close> runs beside the arbiter in its mode without a joystick.
  It keeps the last joystick message and turns it into a command 20 times a second. What the arbiter makes of that
  when the joystick falls silent.
\<close>

section \<open>The node\<close>

record teleop =
  tp_buttons :: "int list"
  tp_axes :: "fp list"

definition ButtonTeleop :: teleop where
  "ButtonTeleop = \<lparr>tp_buttons = [], tp_axes = []\<rparr>"

definition LIN :: fp where "LIN = lit64 (1/10)"
definition ANG :: fp where "ANG = lit64 (1/2)"
definition DEADZONE :: fp where "DEADZONE = lit64 (15/100)"
definition SIGN_FB :: fp where "SIGN_FB = Fin (-1)"
definition SIGN_LR :: fp where "SIGN_LR = Fin 1"

definition teleop_cb :: "joy \<Rightarrow> teleop \<Rightarrow> teleop" where
  "teleop_cb msg T = T\<lparr>tp_buttons := buttons msg, tp_axes := axes msg\<rparr>"

definition pressed :: "teleop \<Rightarrow> nat \<Rightarrow> bool" where
  "pressed T i \<longleftrightarrow> tp_buttons T ! i \<noteq> 0"

text \<open>The buttons A, B, X and Y are 0, 1, 2 and 3; the axes are 0 (left and right) and 1 (to and fro).\<close>

definition teleop_publish :: "teleop \<Rightarrow> twist" where
  "teleop_publish T =
     (let a = tp_axes T;
          lr = (if length a > 0 then a ! 0 else Fin 0);
          fb = (if length a > 1 then a ! 1 else Fin 0)
      in if fp_gt (fp_abs fb) DEADZONE \<or> fp_gt (fp_abs lr) DEADZONE
         then \<lparr>linear_x = fmul64 (fmul64 LIN SIGN_FB) fb, angular_z = fmul64 (fmul64 ANG SIGN_LR) lr\<rparr>
         else if length (tp_buttons T) > 3
         then \<lparr>linear_x = if pressed T 3 then LIN else if pressed T 0 then fp_neg LIN else Fin 0,
               angular_z = if pressed T 2 then ANG else if pressed T 1 then fp_neg ANG else Fin 0\<rparr>
         else zero_twist)"

section \<open>Bounded commands\<close>

lemma speeds: "LIN = Fin (3602879701896397 / 36028797018963968)" "ANG = Fin (1/2)"
proof -
  show "LIN = Fin (3602879701896397 / 36028797018963968)" unfolding LIN_def
    by (subst round_fp_eqI [where k = 1018 and m = 7205759403792794]) simp_all
  show "ANG = Fin (1/2)" unfolding ANG_def using binary64_fixed [of 1 1] by simp
qed

text \<open>A product with a value of at most one is no larger than the other factor.\<close>

lemma product_bounded:
  assumes "unit_value v" "0 \<le> c" "fp_ok binary64 (Fin c)" "s = 1 \<or> s = -1"
  obtains x where "fmul64 (Fin (s * c)) v = Fin x" "\<bar>x\<bar> \<le> c"
proof -
  obtain u where u: "v = Fin u" "\<bar>u\<bar> \<le> 1" using assms(1) by (cases v) (auto simp: unit_value_def)
  have "\<bar>s * c * u\<bar> \<le> c" using assms(2,4) u(2) mult_left_mono [OF u(2) assms(2)] by (auto simp: abs_mult)
  then have b: "- c \<le> s * c * u" "s * c * u \<le> c" by (simp_all add: abs_le_iff)
  have neg: "fp_ok binary64 (Fin (- c))" using assms(3) round_fp_uminus [of binary64 c] by simp
  have "fp_le (Fin (- c)) (round_fp binary64 (s * c * u))" "fp_le (round_fp binary64 (s * c * u)) (Fin c)"
    using b by (intro round_fp_ge round_fp_le neg assms(3); simp)+
  then obtain x where "round_fp binary64 (s * c * u) = Fin x" "- c \<le> x" "x \<le> c" by (cases "round_fp binary64 (s * c * u)") auto
  then show thesis using that u(1) by (simp add: abs_le_iff)
qed

text \<open>With axes between -1 and 1 the commands stay within a tenth of a metre and half a radian per second, up to the
  rounding of the literals; without a message, and with stick and buttons released, the command is to stand.\<close>

lemma teleop_bounded:
  assumes "list_all unit_value (tp_axes T)"
  shows "fp_le (fp_abs (linear_x (teleop_publish T))) LIN" "fp_le (fp_abs (angular_z (teleop_publish T))) ANG"
proof -
  have okL: "fp_ok binary64 LIN" unfolding LIN_def by (rule fp_ok_round) simp_all
  have okA: "fp_ok binary64 (Fin (1/2))" using binary64_fixed [of 1 1] by simp
  have axis: "unit_value (if length (tp_axes T) > i then tp_axes T ! i else Fin 0)" for i
    using assms by (auto simp: list_all_length)
  have L: "fmul64 LIN SIGN_FB = Fin (-1 * (3602879701896397 / 36028797018963968))"
    using okL unfolding speeds SIGN_FB_def by (simp add: round_fp_uminus)
  have A: "fmul64 ANG SIGN_LR = Fin (1 * (1/2))" using okA unfolding speeds SIGN_LR_def by simp
  obtain x where x: "fmul64 (fmul64 LIN SIGN_FB) (if length (tp_axes T) > 1 then tp_axes T ! 1 else Fin 0) = Fin x" "\<bar>x\<bar> \<le> 3602879701896397 / 36028797018963968"
    unfolding L by (rule product_bounded [OF axis [of 1], of "3602879701896397 / 36028797018963968" "-1"]) (use okL speeds(1) in simp_all)
  obtain z where z: "fmul64 (fmul64 ANG SIGN_LR) (if length (tp_axes T) > 0 then tp_axes T ! 0 else Fin 0) = Fin z" "\<bar>z\<bar> \<le> 1/2"
    unfolding A by (rule product_bounded [OF axis [of 0], of "1/2" 1]) (use okA in simp_all)
  show "fp_le (fp_abs (linear_x (teleop_publish T))) LIN" "fp_le (fp_abs (angular_z (teleop_publish T))) ANG"
    using x z by (simp_all add: teleop_publish_def speeds zero_twist_def Let_def)
qed

lemma teleop_rest: "teleop_publish ButtonTeleop = zero_twist"
proof -
  have "fp_le (Fin 0) DEADZONE" unfolding DEADZONE_def by (intro round_fp_ge) simp_all
  then have "\<not> fp_gt (Fin 0) DEADZONE" using fp_lt_not_le by blast
  then show ?thesis by (simp add: teleop_publish_def ButtonTeleop_def Let_def)
qed

section \<open>A joystick that falls silent\<close>

text \<open>What the arbiter sees in a twentieth of a second: a state of the board, the command, its own tick.\<close>

definition drive_cycle :: "teleop \<Rightarrow> int \<Rightarrow> arbiter_event list" where
  "drive_cycle T ns = [SafetyMsg ns STATE_CLEAR, ManualMsg ns (teleop_publish T), Tick ns]"

lemma no_age: "0 \<le> ns \<Longrightarrow> ns < 2 ^ 61 \<Longrightarrow> fsub64 (now_sec ns) (now_sec ns) = Fin 0"
  by (rule now_sec_near [of ns]) (auto simp: fp_sub_def)

text \<open>
  However long the joystick has been silent, the arbiter is sent its last position as a new command, so its timeout for
  commands does not expire: every tick moves the robot as the stick was left.
\<close>

lemma silent_joystick_keeps_driving:
  assumes "no_joy_mode (ar_params A)" "params_ok (ar_params A)" "\<not> require_resume A" "\<forall>ns \<in> set tms. 0 \<le> ns \<and> ns < 2 ^ 61"
  shows "snd (arbiter_run (concat (map (drive_cycle T) tms)) A) = replicate (length tms) (teleop_publish T)"
  using assms
proof (induction tms arbitrary: A)
  case (Cons ns tms)
  obtain s j where p: "safety_timeout_sec (ar_params A) = Fin s" "joy_timeout_sec (ar_params A) = Fin j" "0 \<le> s" "0 \<le> j"
    using Cons.prems(2) by (rule params_okE)
  define A' where "A' = A\<lparr>ar_safety := STATE_CLEAR, ar_safety_stamp := now_sec ns, manual_twist := teleop_publish T, manual_stamp := now_sec ns\<rparr>"
  have age: "fsub64 (now_sec ns) (now_sec ns) = Fin 0" using Cons.prems(4) by (intro no_age) simp_all
  have cycle: "arbiter_run (drive_cycle T ns @ es) A = (fst (arbiter_run es A'), teleop_publish T # snd (arbiter_run es A'))" for es
    using Cons.prems(1,3) p age
    by (simp add: drive_cycle_def on_safety_def on_manual_def timer_cb_def manual_tick_def resume_gate_def build_twist_def
        STATE_CLEAR_def STATE_STOP_def STATE_SLOW_def Let_def A'_def split: prod.split)
  have "snd (arbiter_run (concat (map (drive_cycle T) tms)) A') = replicate (length tms) (teleop_publish T)"
    using Cons.prems by (intro Cons.IH) (simp_all add: A'_def)
  then show ?case by (simp add: cycle)
qed simp


text \<open>The arbiter compares commands, not stick positions, with its bound for neutral: after a stop a stick that is pushed
  by a quarter is taken for one that is released, and does not open the gate.\<close>

lemma quarter_stick_is_neutral:
  "let t = teleop_publish \<lparr>tp_buttons = [], tp_axes = [Fin 0, Fin (1/4)]\<rparr>
   in t \<noteq> zero_twist \<and> at_neutral (linear_x t) (angular_z t)"
proof -
  have okL: "fp_ok binary64 LIN" unfolding LIN_def by (rule fp_ok_round) simp_all
  have L: "fmul64 LIN SIGN_FB = Fin (- (3602879701896397 / 36028797018963968))"
    using okL unfolding speeds SIGN_FB_def by (simp add: round_fp_uminus)
  have q: "round_fp binary64 (3602879701896397 / 144115188075855872) = Fin (3602879701896397 / 144115188075855872)"
    using binary64_fixed [of 3602879701896397 57] by simp
  have A: "fmul64 ANG SIGN_LR = Fin (1/2)" unfolding speeds SIGN_LR_def using binary64_fixed [of 1 1] by simp
  have n: "NEUTRAL_THRESH = Fin (7205759403792794 / 2 ^ 57)" unfolding NEUTRAL_THRESH_def
    by (subst round_fp_eqI [where k = 1017 and m = 7205759403792794]) simp_all
  have d: "DEADZONE = Fin (5404319552844595 / 36028797018963968)" unfolding DEADZONE_def
    by (subst round_fp_eqI [where k = 1019 and m = 5404319552844595]) simp_all
  show ?thesis by (simp add: teleop_publish_def L A n d q at_neutral_def zero_twist_def round_fp_uminus)
qed

end
