(* ===== verification/Spec2Isabelle.thy ===== *)
theory Spec2Isabelle
  imports Debounce Ps_Answers Mjpeg_Stop Robot Board_Golden Jetson_Checks Gpu_Benchmark Teleop
begin

text \<open>
  Verification library of the Jetson--Arty ROI classifier and its safety control.

  \<^bold>\<open>The program.\<close> Three boards work together. On the Jetson Nano, \<open>jetson_roi_client\<close> takes camera frames
  (\<open>V4L2Capture\<close>, \<open>FrameSource\<close>), proposes objects (\<open>RoiProposer\<close> over a network run by
  \<open>TensorRtProposalEngine\<close>), cuts square regions (\<open>RoiCropper\<close>, \<open>RoiPreprocessor\<close>), sends each with its
  box over TCP (\<open>TcpRoiClient\<close>, \<open>roi_protocol.h\<close>), and shows the annotated picture (\<open>MjpegStreamServer\<close>). On
  the Arty, \<open>ps_classifier_server\<close> receives a region (\<open>tcp_roi_server\<close>), quantises it, has the PL engine
  compute three convolution layers (\<open>adas-classifier.c\<close>, \<open>classifier_engine.cpp\<close>), finishes the
  classification, answers, and gives class and box to the safety bridge (\<open>ps_safety_bridge\<close>). The bridge
  judges each frame (\<open>SafetyJudge\<close>, \<open>SafetyHazardLatch\<close>); the transmitter thread sends the state over a UART
  (\<open>SafetyTransmitter\<close>, \<open>UartFrame\<close>). On the TurtleBot, \<open>uart_safety_receiver.py\<close> decodes it and
  \<open>cmd_vel_arbiter.py\<close> lets joystick commands through only as far as the state allows.

  \<^bold>\<open>Foundations.\<close>
  \<^item> \<open>Prelude\<close>: machine integers, collections of facts. \<open>Float32\<close>, \<open>Float32_Bits\<close>, \<open>Float64\<close>: IEEE-754 values
    as rationals, infinities and NaN, rounded after every operation; bit patterns, error bounds.
  \<^item> \<open>Newest_Value\<close>, \<open>Subsequences\<close>: the slot that the threads of capture and stream share. \<open>Hls_Loops\<close>: counted
    loops over arrays that are functions of their indices.
  \<^item> \<open>Safety_Filter\<close>: the locales \<open>safety_filter\<close> (a stage whose answer is at least as dangerous as its input
    demands) and \<open>holding_filter\<close>, interpreted on debounce, latch and bridge. \<open>Tcp_Socket\<close> has \<open>byte_source\<close>,
    \<open>Safety_Transmitter\<close> has \<open>byte_port\<close> and \<open>Roi_Protocol\<close> has \<open>codec\<close>: reading and writing all of a buffer
    through calls that may be short or interrupted, and encoders with their decoders. They are interpreted on both
    ends of the connection, the UART, the MJPEG socket, and the three messages.

  \<^bold>\<open>Safety control.\<close>
  \<^item> \<open>Safety_Message\<close> (\<open>common/SafetyMessage\<close>): the seqlock as steps of a writer and readers on an explicit memory.
    A successful read is a message that was published.
  \<^item> \<open>Safety_Judge\<close>, \<open>Hazard_Latch\<close>, \<open>Debounce\<close> (\<open>common/\<close>): one frame to a level, the hold and the latched
    class, the delay of relief. No danger is missed in spite of float rounding and wrapping clocks; the latch refines an
    abstract machine over unbounded time. No program of the repository calls the debounce.
  \<^item> \<open>Uart_Frame\<close>: encoder, decoder and the resynchronising receiver. \<open>Safety_Transmitter\<close>: port and thread;
    what is received is what was sent whole, and no state but Stop is sent that is old.
  \<^item> \<open>Safety_Bridge\<close>: observations of a frame, its end, the update of the transmitter.
  \<^item> \<open>Cmd_Vel_Arbiter\<close>, \<open>Robot\<close>, \<open>Teleop\<close>: the arbiter with its clock in binary64, its composition with the UART
    receiver over the ROS topic, and the teleoperation node. The robot moves only on a fresh state that allows it.

  \<^bold>\<open>Transport and classifier (Arty).\<close>
  \<^item> \<open>Roi_Protocol\<close>, \<open>Tcp_Server\<close>, \<open>Tcp_Client\<close>: messages, both ends; one request end to end.
  \<^item> \<open>Engine_Arith\<close>, \<open>Classifier_Engine\<close>: the PL engine at its declared widths. The tiled computation is the plain
    one for all inputs, and the integer network without wrap-around under stated bounds. \<open>Engine_Testbench\<close>: the
    testbench, whose reference loops agree with the engine.
  \<^item> \<open>Classifier_Driver\<close>, \<open>Classifier_Device\<close>, \<open>Classifier_Model\<close>: kernel driver, user-space device and
    buffer layout, model files; an explicit memory of bytes.
  \<^item> \<open>Ps_Preprocess\<close>, \<open>Ps_Postprocess\<close>, \<open>Ps_Classify\<close>: quantisation and padding, average, fully connected layer,
    softmax; one request is the class of the loaded model.
  \<^item> \<open>Ps_Server\<close>, \<open>Ps_Sessions\<close>, \<open>Ps_Answers\<close>: \<open>main\<close>, start and session loop of the server; its state machine
    with the transmitter thread interleaved, invariants, answers, termination, liveness, report.
  \<^item> \<open>Board_Golden\<close>: \<open>ps_db_golden_test.c\<close>, the check of the device against exported files.

  \<^bold>\<open>Jetson.\<close>
  \<^item> \<open>Opencv\<close>: what is used of OpenCV, as an argument. \<open>Roi_Crop\<close>, \<open>Roi_Propose\<close>, \<open>Trt_Engine\<close>: cropping,
    letterbox and decoding with non-maximum suppression, the TensorRT wrapper.
  \<^item> \<open>V4l2_Capture\<close>, \<open>Frame_Source\<close>, \<open>Mjpeg_Server\<close>, \<open>Mjpeg_Streams\<close>, \<open>Mjpeg_Stop\<close>: camera and stream, with the driver's
    answers as inputs and every interleaving of the threads; the stop of the stream with its joins, which
    does not return while a viewer's thread is in its \<open>recv\<close>.
  \<^item> \<open>Latency_Stats\<close>, \<open>Jetson_Client\<close>, \<open>Jetson_Frames\<close>, \<open>Jetson_Metrics\<close>, \<open>Jetson_Main\<close>: the settings, one frame,
    the heartbeat, the statistics, and \<open>main\<close> from its arguments to what is left when it ends, with the capture
    thread, the threads of the stream and its viewers beside it.
  \<^item> \<open>Jetson_Checks\<close>, \<open>Gpu_Benchmark\<close>: the tools \<open>camera_roi_check\<close>, \<open>proposal_golden_check\<close> and
    \<open>classifier_gpu_benchmark\<close>.

  \<^bold>\<open>Conventions.\<close> An object of the code is a record with the code's names. System calls, clocks, the driver and the
  other threads are arguments: scripts of answers, or steps of an interleaving. A thrown exception, an error status and
  undefined behaviour (an \<open>int\<close> overflow, an index out of range) are values of option or sum types; theorems that say the
  code returns exclude them. The components interact through the same definitions: the bytes one end writes are those
  the other end reads, and the server's session calls the bridge, the device and the encoder that their own theories model.

  \<^bold>\<open>Bounds.\<close>
  \<^item> The session loop takes fuel; one round for every 27696 bytes of the stream (header, box and picture) and one more
    are enough, and are proved to be. The other loops recurse on their data or on scripts that end with the process.
  \<^item> Pictures have at most 2 to the 14 pixels a side where float geometry is compared with exact geometry; this is far
    beyond the camera formats that are asked for.
  \<^item> At most 2 to the 40 samples per statistic, whose sum stays in 64 bits, 2 to the 64 frames or parts of a stream per
    run, and clocks of the robot below 2 to the 61 nanoseconds (73 years).
  \<^item> The shifts of the requantisation are at most 62, as the code's shift of a 64-bit word requires; the shipped model
    has 35 and 38. The benchmark refuses more than 10000000 iterations itself.

  \<^bold>\<open>Parameters.\<close> OpenCV (\<open>cv_ok\<close>: shapes, and copies of what was in a region), TensorRT and CUDA, \<open>std::sort\<close>
  (\<open>sort_ok\<close>: a permutation that is sorted), \<open>exp\<close>, \<open>strtod\<close>, \<open>strtof\<close>, \<open>strtoull\<close>, the V4L2 driver, the kernel's
  socket calls, and the ROS executor, which is the order of the events and a queue that keeps the last ten. Float
  expressions are evaluated operation by operation; a compiler that contracts a product and a sum could round differently.

  \<^bold>\<open>Not modelled.\<close> The wording and layout of printed lines, CSV headings and drawn overlays; the memory orderings of
  the seqlock below sequential consistency (the code's fences are taken to give it); \<open>TCP_QUICKACK\<close>, whose answer is
  ignored; the tables of the kernel module, the logger of TensorRT. Outside of the programs: the unit tests, the web page \<open>ui_server.py\<close>, the offline scripts that
  export or reference the networks and summarise CSV files, and the build, deployment and board files.
\<close>

end
